(* ===== verification/Nickel_Prelude.thy ===== *)
theory Nickel_Prelude
  imports Main "HOL-Library.Monad_Syntax" "HOL-Library.Multiset"
begin

text \<open>
  The vocabulary the component theories share.

  \<^item> Panics. A Rust operation that can panic returns \<open>'a panics\<close>, a synonym of
    \<open>'a option\<close> whose \<open>None\<close> stands for the panic (a failed \<open>assert!\<close>, \<open>debug_assert!\<close>,
    \<open>unwrap\<close>, \<open>expect\<close>, \<open>unreachable!\<close>, an index out of bounds, an arithmetic overflow in a
    checked build). \<open>assert_ok\<close> is the assertion itself; sequences of fallible steps use the
    option monad.
  \<^item> \<open>usize\<close> arithmetic: \<open>usize\<close> values are natural numbers below \<open>2 ^ 64\<close>;
    \<open>checked_add\<close> is the method of that name.
  \<^item> \<open>ilog\<close>, the integer logarithm of Rust's integer types.
  \<^item> \<open>chop\<close>, the cutting of a list into blocks, and the list lemmas on it. It appears in no
    operation of the model: it describes what packed trees look like.
\<close>

section \<open>Panics and checked arithmetic\<close>

type_synonym 'a panics = "'a option"

definition assert_ok :: "bool \<Rightarrow> unit panics" where
  "assert_ok b = (if b then Some () else None)"

definition usize_limit :: nat where
  "usize_limit = 2 ^ 64"

definition checked_add :: "nat \<Rightarrow> nat \<Rightarrow> nat option" where
  "checked_add a b = (if a + b < usize_limit then Some (a + b) else None)"

fun ilog :: "nat \<Rightarrow> nat \<Rightarrow> nat" where
  "ilog b n = (if b < 2 \<or> n < b then 0 else Suc (ilog b (n div b)))"

declare ilog.simps [simp del]

function chop :: "nat \<Rightarrow> 'a list \<Rightarrow> 'a list list" where
  "chop n xs = (if n = 0 \<or> xs = [] then [] else take n xs # chop n (drop n xs))"
  by pat_completeness auto
termination
  by (relation "measure (\<lambda>(n, xs). length xs)") (auto simp: length_greater_0_conv)

declare chop.simps [simp del]

section \<open>Lemmas\<close>

lemma size_last_le [termination_simp]:
  "xs \<noteq> [] \<Longrightarrow> f (last xs) < Suc (size_list f xs)"
  by (induction xs) auto

lemma size_butlast_le [termination_simp]:
  "x \<in> set (butlast xs) \<Longrightarrow> f x < Suc (size_list f xs)"
  by (induction xs) (auto split: if_splits)

named_theorems panic_simps \<open>unfolding of the panic monad\<close>

lemma assert_ok_bind [panic_simps]:
  "Option.bind (assert_ok b) f = (if b then f () else None)"
  by (simp add: assert_ok_def)

lemma assert_ok_bind_Some_iff [panic_simps]:
  "(Option.bind (assert_ok b) f = Some y) \<longleftrightarrow> b \<and> f () = Some y"
  by (simp add: assert_ok_def)

lemma checked_add_Some [simp]:
  "checked_add a b = Some c \<longleftrightarrow> c = a + b \<and> a + b < usize_limit"
  by (auto simp: checked_add_def)

subsection \<open>The integer logarithm\<close>

lemma ilog_less [simp]: "n < b \<Longrightarrow> ilog b n = 0"
  by (subst ilog.simps) simp

lemma ilog_step: "2 \<le> b \<Longrightarrow> b \<le> n \<Longrightarrow> ilog b n = Suc (ilog b (n div b))"
  by (subst ilog.simps) simp

lemma ilog_bounds:
  assumes "2 \<le> b" and "0 < n"
  shows "b ^ ilog b n \<le> n \<and> n < b ^ Suc (ilog b n)"
  using assms
proof (induction b n rule: ilog.induct)
  case (1 b n)
  show ?case
  proof (cases "n < b")
    case True
    then show ?thesis using "1.prems" by simp
  next
    case False
    then have pos: "0 < n div b"
      using "1.prems" by (simp add: div_greater_zero_iff)
    with "1.IH" "1.prems" False
    have ih: "b ^ ilog b (n div b) \<le> n div b" "n div b < b ^ Suc (ilog b (n div b))"
      by auto
    have "b * b ^ ilog b (n div b) \<le> n"
      using ih(1) by (metis le_trans mult.commute mult_le_mono1 times_div_less_eq_dividend)
    moreover have "n < b * b ^ Suc (ilog b (n div b))"
      using ih(2) "1.prems" by (simp add: div_less_iff_less_mult mult.commute)
    ultimately show ?thesis
      using False "1.prems" by (simp add: ilog_step)
  qed
qed

lemma ilog_unique:
  assumes "2 \<le> b" and "b ^ k \<le> n" and "n < b ^ Suc k"
  shows "ilog b n = k"
proof -
  have "0 < b ^ k" using assms(1) by simp
  with assms(2) have "0 < n" by linarith
  from ilog_bounds [OF assms(1) this]
  have l: "b ^ ilog b n \<le> n" and u: "n < b ^ Suc (ilog b n)" by auto
  have "b ^ k < b ^ Suc (ilog b n)" using assms(2) u by linarith
  then have "k < Suc (ilog b n)" using assms(1) by (simp only: power_strict_increasing_iff)
  moreover have "b ^ ilog b n < b ^ Suc k" using assms(3) l by linarith
  then have "ilog b n < Suc k" using assms(1) by (simp only: power_strict_increasing_iff)
  ultimately show ?thesis by simp
qed

subsection \<open>Cutting a list into blocks\<close>

lemma chop_Nil [simp]: "chop n [] = []"
  by (subst chop.simps) simp

lemma chop_step: "0 < n \<Longrightarrow> xs \<noteq> [] \<Longrightarrow> chop n xs = take n xs # chop n (drop n xs)"
  by (subst chop.simps) simp

lemma chop_eq_Nil [simp]: "0 < n \<Longrightarrow> chop n xs = [] \<longleftrightarrow> xs = []"
  by (subst chop.simps) simp

lemma concat_chop [simp]: "0 < n \<Longrightarrow> concat (chop n xs) = xs"
proof (induction n xs rule: chop.induct)
  case (1 n xs)
  then show ?case by (cases "xs = []") (auto simp: chop_step)
qed

lemma chop_short: "xs \<noteq> [] \<Longrightarrow> length xs \<le> n \<Longrightarrow> chop n xs = [xs]"
  using chop_step [of n xs] by (cases "n = 0") auto

lemma chop_append_block: "0 < n \<Longrightarrow> length xs = n \<Longrightarrow> chop n (xs @ ys) = xs # chop n ys"
  by (subst chop.simps) auto

text \<open>Block \<open>b\<close> starts at position \<open>b * n\<close>.\<close>

lemma chop_append_mult:
  "0 < n \<Longrightarrow> length xs = k * n \<Longrightarrow> chop n (xs @ ys) = chop n xs @ chop n ys"
proof (induction k arbitrary: xs)
  case 0
  then show ?case by simp
next
  case (Suc k)
  have len: "length (take n xs) = n" "length (drop n xs) = k * n"
    using Suc.prems by auto
  have "chop n ((take n xs @ drop n xs) @ ys) = take n xs # chop n (drop n xs @ ys)"
    using chop_append_block [OF Suc.prems(1) len(1)] by (simp add: append_assoc del: append_take_drop_id)
  also have "\<dots> = (take n xs # chop n (drop n xs)) @ chop n ys"
    using Suc.IH [OF Suc.prems(1) len(2)] by simp
  also have "take n xs # chop n (drop n xs) = chop n xs"
    using chop_append_block [OF Suc.prems(1) len(1), of "drop n xs"] by simp
  finally show ?case by simp
qed

lemma length_chop_mult: "0 < n \<Longrightarrow> length xs = k * n \<Longrightarrow> length (chop n xs) = k"
proof (induction k arbitrary: xs)
  case 0
  then show ?case by simp
next
  case (Suc k)
  then have "xs \<noteq> []" by auto
  with Suc show ?case by (simp add: chop_step)
qed

lemma chop_nth:
  "0 < n \<Longrightarrow> b * n < length xs \<Longrightarrow> b < length (chop n xs) \<and> chop n xs ! b = take n (drop (b * n) xs)"
proof (induction b arbitrary: xs)
  case 0
  then have "xs \<noteq> []" by auto
  with 0 show ?case by (simp add: chop_step)
next
  case (Suc b)
  then have "xs \<noteq> []" and "b * n < length (drop n xs)" by auto
  with Suc.IH [OF Suc.prems(1), of "drop n xs"] Suc.prems show ?case
    using chop_step [of n xs] by (simp add: add.commute)
qed

lemma length_chop_less_iff: "0 < n \<Longrightarrow> b < length (chop n xs) \<longleftrightarrow> b * n < length xs"
proof (induction b arbitrary: xs)
  case 0
  then show ?case by (simp add: length_greater_0_conv)
next
  case (Suc b)
  show ?case
  proof (cases "xs = []")
    case False
    then show ?thesis
      using Suc by (auto simp: chop_step)
  qed simp
qed

lemma length_chop_le: "0 < n \<Longrightarrow> length xs \<le> k * n \<Longrightarrow> length (chop n xs) \<le> k"
  using length_chop_less_iff [of n k xs] by (simp add: linorder_not_less)

lemma chop_elems: "0 < n \<Longrightarrow> ys \<in> set (chop n xs) \<Longrightarrow> ys \<noteq> [] \<and> length ys \<le> n"
proof (induction n xs rule: chop.induct)
  case (1 n xs)
  then show ?case by (cases "xs = []") (auto simp: chop_step)
qed

text \<open>The last, possibly incomplete, block.\<close>

lemma chop_split_last:
  assumes "0 < n" and "k * n < length xs" and "length xs \<le> Suc k * n"
  shows "chop n xs = chop n (take (k * n) xs) @ [drop (k * n) xs]"
proof -
  have "chop n (take (k * n) xs @ drop (k * n) xs)
      = chop n (take (k * n) xs) @ chop n (drop (k * n) xs)"
    using assms by (intro chop_append_mult [of n _ k]) auto
  moreover have "chop n (drop (k * n) xs) = [drop (k * n) xs]"
    using assms by (intro chop_short) auto
  ultimately show ?thesis by simp
qed

end
