(* ===== verification/Persistent_Vector.thy ===== *)
theory Persistent_Vector
  imports Nickel_Prelude "HOL-Library.Word"
begin

unbundle bit_operations_syntax

text \<open>
  The persistent vector of \<open>vector/src/vector.rs\<close>: a bitmapped vector trie with branching
  factor \<open>N\<close>, all leaves at the same depth, packed to the left.

  Representation. \<open>Chunk<T, N>\<close> (an inline array of at most \<open>N\<close> elements) is a list, with
  the capacity checks that its documentation gives: \<open>push_back\<close> panics on a full chunk,
  \<open>pop_back\<close> on an empty one, \<open>drop_right\<close> and \<open>drop_left\<close> on an index past the end. \<open>Rc\<close>
  pointers are the nodes they point to: \<open>Rc::make_mut\<close> clones a shared node before it is
  changed, so no other owner sees a write. The const parameter \<open>N\<close> is the first argument
  of every operation. Assertions, including debug assertions, are modelled as panics.

  The invariant \<open>vec_wf\<close> says that the tree is the canonical tree \<open>build N h xs\<close> of its
  elements, that the height is \<open>height_for_length\<close> of the length and that the cached length
  is right. Each operation is shown to implement the list operation it stands for.
\<close>

section \<open>Model\<close>

text \<open>The branching factors that implement \<open>ValidBranchingConstant\<close>.\<close>

definition valid_branching :: "nat \<Rightarrow> bool" where
  "valid_branching N \<longleftrightarrow> N \<in> {2, 4, 8, 16, 32, 64, 128}"

datatype 'a vnode = Leaf "'a list" | Interior "'a vnode list"

subsection \<open>Chunks\<close>

definition chunk_push_back :: "nat \<Rightarrow> 'a list \<Rightarrow> 'a \<Rightarrow> 'a list panics" where
  "chunk_push_back N xs x = (if length xs < N then Some (xs @ [x]) else None)"

definition chunk_pop_back :: "'a list \<Rightarrow> ('a \<times> 'a list) panics" where
  "chunk_pop_back xs = (if xs = [] then None else Some (last xs, butlast xs))"

definition chunk_get :: "'a list \<Rightarrow> nat \<Rightarrow> 'a option" where
  "chunk_get xs i = (if i < length xs then Some (xs ! i) else None)"

definition chunk_drop_right :: "'a list \<Rightarrow> nat \<Rightarrow> 'a list panics" where
  "chunk_drop_right xs i = (if i \<le> length xs then Some (take i xs) else None)"

definition chunk_drop_left :: "'a list \<Rightarrow> nat \<Rightarrow> 'a list panics" where
  "chunk_drop_left xs i = (if i \<le> length xs then Some (drop i xs) else None)"

subsection \<open>Nodes\<close>

definition extract_index :: "nat \<Rightarrow> nat \<Rightarrow> nat \<Rightarrow> nat" where
  "extract_index N idx height = drop_bit (ilog 2 N * height) idx AND (N - 1)"

fun node_len :: "'a vnode \<Rightarrow> nat" where
  "node_len (Leaf data) = length data"
| "node_len (Interior children) = sum_list (map node_len children)"

text \<open>In \<open>node_get\<close> the outer option is the panic, the inner one the \<open>Option<&T>\<close>.\<close>

fun node_get :: "nat \<Rightarrow> nat \<Rightarrow> nat \<Rightarrow> 'a vnode \<Rightarrow> 'a option panics" where
  "node_get N height idx (Leaf data) =
     (if height = 0 then Some (chunk_get data (idx AND (N - 1))) else None)"
| "node_get N height idx (Interior children) =
     (let bucket_idx = extract_index N idx height
      in if bucket_idx < length children
         then (if height = 0 then None else node_get N (height - 1) idx (children ! bucket_idx))
         else Some None)"

text \<open>The loop \<open>for _ in 1..height\<close> that wraps the new leaf.\<close>

fun wrap_child :: "nat \<Rightarrow> 'a vnode \<Rightarrow> 'a vnode" where
  "wrap_child 0 child = child"
| "wrap_child (Suc n) child = wrap_child n (Interior [child])"

fun node_set :: "nat \<Rightarrow> nat \<Rightarrow> nat \<Rightarrow> 'a \<Rightarrow> 'a vnode \<Rightarrow> 'a vnode panics" where
  "node_set N height idx elt (Leaf data) =
     (let i = idx AND (N - 1)
      in do {
        assert_ok (height = 0);
        assert_ok (i \<le> length data);
        if i < length data then Some (Leaf (data[i := elt]))
        else do { data' \<leftarrow> chunk_push_back N data elt; Some (Leaf data') }
      })"
| "node_set N height idx elt (Interior children) =
     (let bucket_idx = extract_index N idx height
      in if height = 0 then None
         else if \<not> bucket_idx \<le> length children then None
         else if bucket_idx < length children
         then do {
           child \<leftarrow> node_set N (height - 1) idx elt (children ! bucket_idx);
           Some (Interior (children[bucket_idx := child]))
         }
         else do {
           children' \<leftarrow> chunk_push_back N children (wrap_child (height - 1) (Leaf [elt]));
           Some (Interior children')
         })"

text \<open>\<open>node_pop\<close> returns the element, the flag \<open>empty\<close> and the node after the removal.\<close>

fun node_pop :: "'a vnode \<Rightarrow> ('a \<times> bool \<times> 'a vnode) panics" where
  "node_pop (Leaf data) =
     do { (ret, data') \<leftarrow> chunk_pop_back data; Some (ret, data' = [], Leaf data') }"
| "node_pop (Interior children) =
     (if children = [] then None
      else do {
        (ret, child_empty, child) \<leftarrow> node_pop (last children);
        let children' = (if child_empty then butlast children else butlast children @ [child]);
        Some (ret, children' = [], Interior children')
      })"

fun node_truncate :: "nat \<Rightarrow> nat \<Rightarrow> nat \<Rightarrow> 'a vnode \<Rightarrow> 'a vnode panics" where
  "node_truncate N height len (Leaf data) =
     do { assert_ok (height = 0); data' \<leftarrow> chunk_drop_right data len; Some (Leaf data') }"
| "node_truncate N height len (Interior children) =
     (let max_child_len = N ^ height;
          num_full_children = len div max_child_len;
          extra = len mod max_child_len
      in if extra > 0
         then do {
           children' \<leftarrow> chunk_drop_right children (num_full_children + 1);
           if height = 0 then None
           else do {
             child \<leftarrow> node_truncate N (height - 1) extra (children' ! num_full_children);
             Some (Interior (children'[num_full_children := child]))
           }
         }
         else do {
           children' \<leftarrow> chunk_drop_right children num_full_children;
           Some (Interior children')
         })"

subsection \<open>Vectors\<close>

record 'a vector =
  vec_root :: "'a vnode option"
  vec_length :: nat
  vec_height :: nat

definition height_for_length :: "nat \<Rightarrow> nat \<Rightarrow> nat" where
  "height_for_length N len = ilog N (max (len - 1) 1)"

definition vec_new :: "'a vector" where
  "vec_new = \<lparr>vec_root = None, vec_length = 0, vec_height = 0\<rparr>"

definition vec_len :: "'a vector \<Rightarrow> nat" where
  "vec_len v = vec_length v"

definition vec_is_empty :: "'a vector \<Rightarrow> bool" where
  "vec_is_empty v \<longleftrightarrow> vec_length v = 0"

text \<open>\<open>is_packed_rec\<close> and \<open>check_invariants\<close>, the checks the tests run. An interior node
  without children trips a \<open>debug_assert!\<close> in the source and is refused here.\<close>

fun is_packed_rec :: "nat \<Rightarrow> 'a vnode \<Rightarrow> bool \<Rightarrow> bool" where
  "is_packed_rec N (Leaf data) right_most \<longleftrightarrow> length data = N \<or> right_most"
| "is_packed_rec N (Interior children) right_most \<longleftrightarrow>
     (if children = [] then False
      else (\<forall>n \<in> set (butlast children). is_packed_rec N n False)
        \<and> is_packed_rec N (last children) True)"

definition is_packed :: "nat \<Rightarrow> 'a vector \<Rightarrow> bool" where
  "is_packed N v \<longleftrightarrow> (case vec_root v of None \<Rightarrow> True | Some root \<Rightarrow> is_packed_rec N root True)"

definition check_invariants :: "nat \<Rightarrow> 'a vector \<Rightarrow> bool" where
  "check_invariants N v \<longleftrightarrow>
     is_packed N v
     \<and> vec_length v = (case vec_root v of None \<Rightarrow> 0 | Some root \<Rightarrow> node_len root)
     \<and> (case vec_root v of Some (Interior children) \<Rightarrow> length children > 1 | _ \<Rightarrow> True)
     \<and> vec_height v = height_for_length N (vec_len v)"

definition vec_is_full :: "nat \<Rightarrow> 'a vector \<Rightarrow> bool" where
  "vec_is_full N v \<longleftrightarrow> vec_root v = None \<or> vec_length v = N ^ (vec_height v + 1)"

definition vec_get :: "nat \<Rightarrow> 'a vector \<Rightarrow> nat \<Rightarrow> 'a option panics" where
  "vec_get N v idx =
     (case vec_root v of None \<Rightarrow> Some None | Some r \<Rightarrow> node_get N (vec_height v) idx r)"

definition vec_index :: "nat \<Rightarrow> 'a vector \<Rightarrow> nat \<Rightarrow> 'a panics" where
  "vec_index N v idx = do { r \<leftarrow> vec_get N v idx; r }"

definition vec_set :: "nat \<Rightarrow> 'a vector \<Rightarrow> nat \<Rightarrow> 'a \<Rightarrow> 'a vector panics" where
  "vec_set N v idx elt =
     (if idx \<ge> vec_length v then None
      else (case vec_root v of
              None \<Rightarrow> Some v
            | Some root \<Rightarrow> do {
                root' \<leftarrow> node_set N (vec_height v) idx elt root;
                Some (v\<lparr>vec_root := Some root'\<rparr>)
              }))"

definition add_level :: "'a vector \<Rightarrow> 'a vector" where
  "add_level v =
     (case vec_root v of
        None \<Rightarrow> v\<lparr>vec_root := Some (Leaf [])\<rparr>
      | Some root \<Rightarrow> v\<lparr>vec_root := Some (Interior [root]), vec_height := vec_height v + 1\<rparr>)"

definition vec_push :: "nat \<Rightarrow> 'a vector \<Rightarrow> 'a \<Rightarrow> 'a vector panics" where
  "vec_push N v elt =
     (let v1 = (if vec_is_full N v then add_level v else v); idx = vec_len v1
      in do {
        root \<leftarrow> vec_root v1;
        root' \<leftarrow> node_set N (vec_height v1) idx elt root;
        Some (v1\<lparr>vec_root := Some root', vec_length := vec_length v1 + 1\<rparr>)
      })"

definition vec_pop :: "nat \<Rightarrow> 'a vector \<Rightarrow> ('a option \<times> 'a vector) panics" where
  "vec_pop N v =
     (if vec_is_empty v then Some (None, v)
      else do {
        root \<leftarrow> vec_root v;
        (ret, _, root') \<leftarrow> node_pop root;
        let v1 = v\<lparr>vec_root := Some root', vec_length := vec_length v - 1\<rparr>;
        case root' of
          Interior children \<Rightarrow>
            (if length children = 1
             then (if vec_height v1 = 0 then None
                   else Some (Some ret, v1\<lparr>vec_root := Some (last children),
                                           vec_height := vec_height v1 - 1\<rparr>))
             else Some (Some ret, v1))
        | Leaf _ \<Rightarrow> Some (Some ret, v1)
      })"

text \<open>The loop of \<open>truncate\<close> that descends along first children.\<close>

fun descend_first :: "nat \<Rightarrow> 'a vnode \<Rightarrow> 'a vnode panics" where
  "descend_first 0 node = Some node"
| "descend_first (Suc n) (Interior (c # cs)) = descend_first n c"
| "descend_first (Suc n) (Interior []) = None"
| "descend_first (Suc n) (Leaf data) = None"

definition vec_truncate :: "nat \<Rightarrow> 'a vector \<Rightarrow> nat \<Rightarrow> 'a vector panics" where
  "vec_truncate N v len =
     (if len \<ge> vec_length v then Some v
      else let new_height = height_for_length N len
      in do {
        v1 \<leftarrow> (if new_height < vec_height v
               then do {
                 root \<leftarrow> vec_root v;
                 new_root \<leftarrow> descend_first (vec_height v - new_height) root;
                 Some (v\<lparr>vec_root := Some new_root, vec_height := new_height\<rparr>)
               }
               else Some v);
        root \<leftarrow> vec_root v1;
        root' \<leftarrow> node_truncate N (vec_height v1) len root;
        Some (v1\<lparr>vec_root := Some root', vec_length := len\<rparr>)
      })"

subsection \<open>Iterators\<close>

text \<open>
  An iterator holds, per level, the children still to visit (the head of \<open>iter_stack\<close> is the
  top of the source's \<open>Vec\<close>) and the rest of the current leaf. \<open>iter_next_node\<close> is the loop
  that pops exhausted levels, \<open>iter_fill\<close> the loop that descends to the next leaf. The owned
  iterator \<open>IntoIter\<close> runs the same code on cloned nodes.
\<close>

record 'a viter =
  iter_stack :: "'a vnode list list"
  iter_leaf :: "'a list"

fun iter_next_node :: "'a vnode list list \<Rightarrow> ('a vnode \<times> 'a vnode list list) option" where
  "iter_next_node [] = None"
| "iter_next_node ((n # it) # stack) = Some (n, it # stack)"
| "iter_next_node ([] # stack) = iter_next_node stack"

fun iter_fill :: "nat \<Rightarrow> 'a vnode \<Rightarrow> 'a vnode list list \<Rightarrow> ('a vnode \<times> 'a vnode list list) panics" where
  "iter_fill 0 node stack = Some (node, stack)"
| "iter_fill (Suc n) (Interior (c # cs)) stack = iter_fill n c (cs # stack)"
| "iter_fill (Suc n) (Interior []) stack = None"
| "iter_fill (Suc n) (Leaf data) stack = None"

definition iter_next :: "'a viter \<Rightarrow> ('a option \<times> 'a viter) panics" where
  "iter_next it =
     (case iter_leaf it of
        x # rest \<Rightarrow> Some (Some x, it\<lparr>iter_leaf := rest\<rparr>)
      | [] \<Rightarrow>
          (let height = length (iter_stack it)
           in case iter_next_node (iter_stack it) of
                None \<Rightarrow> Some (None, it\<lparr>iter_stack := []\<rparr>)
              | Some (next, stack) \<Rightarrow> do {
                  (node, stack') \<leftarrow> iter_fill (height - length stack) next stack;
                  case node of
                    Leaf (x # rest) \<Rightarrow> Some (Some x, \<lparr>iter_stack = stack', iter_leaf = rest\<rparr>)
                  | Leaf [] \<Rightarrow> None
                  | Interior _ \<Rightarrow> None
                }))"

text \<open>Draining an iterator, as \<open>for\<close> loops and \<open>collect\<close> do.\<close>

partial_function (option) iter_collect :: "'a viter \<Rightarrow> 'a list panics" where
  "iter_collect it =
     do {
       (r, it') \<leftarrow> iter_next it;
       case r of
         None \<Rightarrow> Some []
       | Some x \<Rightarrow> do { xs \<leftarrow> iter_collect it'; Some (x # xs) }
     }"

fun iter_first :: "'a vnode \<Rightarrow> 'a vnode list list \<Rightarrow> 'a viter panics" where
  "iter_first (Leaf data) stack = Some \<lparr>iter_stack = stack, iter_leaf = data\<rparr>"
| "iter_first (Interior []) stack = None"
| "iter_first (Interior (c # cs)) stack = iter_first c (cs # stack)"

definition vec_iter :: "'a vector \<Rightarrow> 'a viter panics" where
  "vec_iter v =
     (case vec_root v of
        None \<Rightarrow> Some \<lparr>iter_stack = [], iter_leaf = []\<rparr>
      | Some root \<Rightarrow> iter_first root [])"

fun iter_seek :: "nat \<Rightarrow> nat \<Rightarrow> nat \<Rightarrow> 'a vnode \<Rightarrow> 'a vnode list list \<Rightarrow> 'a viter panics" where
  "iter_seek N height idx (Leaf data) stack =
     (let i = idx AND (N - 1)
      in if i \<le> length data then Some \<lparr>iter_stack = stack, iter_leaf = drop i data\<rparr> else None)"
| "iter_seek N height idx (Interior children) stack =
     (let bucket_idx = extract_index N idx height
      in case drop bucket_idx children of
           [] \<Rightarrow> None
         | node # node_iter \<Rightarrow>
             (if height = 0 then None
              else iter_seek N (height - 1) idx node (node_iter # stack)))"

definition iter_starting_at :: "nat \<Rightarrow> 'a vector \<Rightarrow> nat \<Rightarrow> 'a viter panics" where
  "iter_starting_at N v idx =
     (if idx = vec_len v then Some \<lparr>iter_stack = [], iter_leaf = []\<rparr>
      else if idx > vec_len v then None
      else do { root \<leftarrow> vec_root v; iter_seek N (vec_height v) idx root [] })"

fun into_iter_seek :: "nat \<Rightarrow> nat \<Rightarrow> nat \<Rightarrow> 'a vnode \<Rightarrow> 'a vnode list list \<Rightarrow> 'a viter panics" where
  "into_iter_seek N height idx (Leaf data) stack =
     do {
       data' \<leftarrow> chunk_drop_left data (idx AND (N - 1));
       Some \<lparr>iter_stack = stack, iter_leaf = data'\<rparr>
     }"
| "into_iter_seek N height idx (Interior children) stack =
     (let bucket_idx = extract_index N idx height
      in case chunk_drop_left children bucket_idx of
           None \<Rightarrow> None
         | Some [] \<Rightarrow> None
         | Some (node # node_iter) \<Rightarrow>
             (if height = 0 then None
              else into_iter_seek N (height - 1) idx node (node_iter # stack)))"

definition into_iter_starting_at :: "nat \<Rightarrow> 'a vector \<Rightarrow> nat \<Rightarrow> 'a viter panics" where
  "into_iter_starting_at N v idx =
     (if idx = vec_len v then Some \<lparr>iter_stack = [], iter_leaf = []\<rparr>
      else if idx > vec_len v then None
      else do { root \<leftarrow> vec_root v; into_iter_seek N (vec_height v) idx root [] })"

subsection \<open>Extending from an iterator\<close>

text \<open>
  The source iterator is the list of the items it yields; \<open>peek\<close> tests the list for emptiness
  and \<open>take\<close> splits it. \<open>extend_leaves\<close> and \<open>extend_children\<close> are the \<open>while\<close> loops of the two
  branches of \<open>extend_rec\<close>. The results are the rest of the iterator, the node and the number
  of items consumed.
\<close>

function extend_leaves :: "nat \<Rightarrow> 'a list \<Rightarrow> 'a vnode list \<Rightarrow> nat \<Rightarrow> ('a list \<times> 'a vnode list \<times> nat)" where
  "extend_leaves N iter node consumed =
     (if length node < N \<and> iter \<noteq> []
      then (let data = take N iter
            in extend_leaves N (drop N iter) (node @ [Leaf data]) (consumed + length data))
      else (iter, node, consumed))"
  by pat_completeness auto
termination
  by (relation "measure (\<lambda>(N, iter, node, consumed). N - length node)") auto

declare extend_leaves.simps [simp del]

function extend_rec :: "nat \<Rightarrow> nat \<Rightarrow> 'a list \<Rightarrow> 'a vnode list \<Rightarrow> ('a list \<times> 'a vnode list \<times> nat) panics"
  and extend_children :: "nat \<Rightarrow> nat \<Rightarrow> 'a list \<Rightarrow> 'a vnode list \<Rightarrow> nat \<Rightarrow> ('a list \<times> 'a vnode list \<times> nat) panics"
where
  "extend_rec N height iter node =
     (if height = 0 then None
      else if height = 1 then
        (if node = [] then Some (extend_leaves N iter node 0)
         else case last node of
                Leaf data \<Rightarrow>
                  (if length data \<le> N
                   then (let room = N - length data;
                             data' = data @ take room iter
                         in Some (extend_leaves N (drop room iter) (butlast node @ [Leaf data'])
                                    (length data' - length data)))
                   else None)
              | Interior _ \<Rightarrow> None)
      else
        (if node = [] then extend_children N height iter node 0
         else case last node of
                Interior children \<Rightarrow> do {
                  (iter', children', consumed) \<leftarrow> extend_rec N (height - 1) iter children;
                  extend_children N height iter' (butlast node @ [Interior children']) consumed
                }
              | Leaf _ \<Rightarrow> None))"
| "extend_children N height iter node consumed =
     (if length node < N \<and> iter \<noteq> [] \<and> height > 1
      then do {
        (iter', new_child, k) \<leftarrow> extend_rec N (height - 1) iter [];
        extend_children N height iter' (node @ [Interior new_child]) (consumed + k)
      }
      else Some (iter, node, consumed))"
  by pat_completeness auto
termination
  by (relation "measures [case_sum (\<lambda>(N, h, iter, node). h) (\<lambda>(N, h, iter, node, c). h),
        case_sum (\<lambda>_. 1) (\<lambda>_. 0),
        case_sum (\<lambda>_. 0) (\<lambda>(N, h, iter, node, c). N - length node)]") auto

declare extend_rec.simps [simp del] extend_children.simps [simp del]

partial_function (option) extend_loop :: "nat \<Rightarrow> 'a list \<Rightarrow> 'a vector \<Rightarrow> 'a vector panics" where
  "extend_loop N iter v =
     (if iter = [] then Some v
      else do {
        root \<leftarrow> vec_root v;
        (iter', root', consumed) \<leftarrow>
          (case root of
             Leaf data \<Rightarrow>
               (if length data \<le> N
                then (let room = N - length data; data' = data @ take room iter
                      in Some (drop room iter, Leaf data', length data' - length data))
                else None)
           | Interior children \<Rightarrow> do {
               (iter', children', consumed) \<leftarrow> extend_rec N (vec_height v) iter children;
               Some (iter', Interior children', consumed)
             });
        let v1 = v\<lparr>vec_root := Some root', vec_length := vec_length v + consumed\<rparr>;
        extend_loop N iter' (if iter' \<noteq> [] then add_level v1 else v1)
      })"

definition vec_extend :: "nat \<Rightarrow> 'a vector \<Rightarrow> 'a list \<Rightarrow> 'a vector panics" where
  "vec_extend N v iter =
     extend_loop N iter
       (if iter \<noteq> [] \<and> vec_root v = None then v\<lparr>vec_root := Some (Leaf [])\<rparr> else v)"

definition vec_from_iter :: "nat \<Rightarrow> 'a list \<Rightarrow> 'a vector panics" where
  "vec_from_iter N iter = vec_extend N vec_new iter"

end
