(* ===== verification/Vector_Correct.thy ===== *)
theory Vector_Correct
  imports Persistent_Vector
begin

text \<open>
  Correctness of the persistent vector. \<open>node_list\<close> and \<open>vec_list\<close> are the abstraction to
  lists; \<open>build N h xs\<close> is the tree of height \<open>h\<close>, packed to the left, that holds \<open>xs\<close>;
  \<open>vec_wf\<close> is the invariant. The section on nodes computes every node operation on
  \<open>build N h xs\<close>; the section on vectors lifts the results to \<open>vec_wf\<close>; the last sections
  treat the iterators and \<open>extend\<close>.
\<close>

section \<open>Abstraction and invariant\<close>

fun node_list :: "'a vnode \<Rightarrow> 'a list" where
  "node_list (Leaf data) = data"
| "node_list (Interior children) = concat (map node_list children)"

primrec build :: "nat \<Rightarrow> nat \<Rightarrow> 'a list \<Rightarrow> 'a vnode" where
  "build N 0 xs = Leaf xs"
| "build N (Suc h) xs = Interior (map (build N h) (chop (N ^ Suc h) xs))"

definition vec_list :: "'a vector \<Rightarrow> 'a list" where
  "vec_list v = (case vec_root v of None \<Rightarrow> [] | Some root \<Rightarrow> node_list root)"

definition vec_wf :: "nat \<Rightarrow> 'a vector \<Rightarrow> bool" where
  "vec_wf N v \<longleftrightarrow>
     (case vec_root v of
        None \<Rightarrow> vec_length v = 0 \<and> vec_height v = 0
      | Some root \<Rightarrow>
          vec_length v = length (node_list root)
          \<and> vec_height v = height_for_length N (vec_length v)
          \<and> root = build N (vec_height v) (node_list root))"

text \<open>The documented invariant, read off the tree: every child but the last is complete.\<close>

fun complete :: "nat \<Rightarrow> nat \<Rightarrow> 'a vnode \<Rightarrow> bool" where
  "complete N h (Leaf data) \<longleftrightarrow> h = 0 \<and> length data = N"
| "complete N h (Interior children) \<longleftrightarrow>
     h > 0 \<and> length children = N \<and> (\<forall>c \<in> set children. complete N (h - 1) c)"

fun packed :: "nat \<Rightarrow> nat \<Rightarrow> 'a vnode \<Rightarrow> bool" where
  "packed N h (Leaf data) \<longleftrightarrow> h = 0 \<and> 0 < length data \<and> length data \<le> N"
| "packed N h (Interior children) \<longleftrightarrow>
     (if children = [] then False
      else h > 0 \<and> length children \<le> N
        \<and> (\<forall>c \<in> set (butlast children). complete N (h - 1) c)
        \<and> packed N (h - 1) (last children))"

section \<open>Index arithmetic\<close>

lemma valid_branching_cases:
  assumes "valid_branching N"
  obtains k where "0 < k" and "N = 2 ^ k"
proof -
  have "\<exists>k \<in> {1, 2, 3, 4, 5, 6, 7::nat}. N = 2 ^ k"
    using assms by (auto simp: valid_branching_def)
  then obtain k where "k \<in> {1, 2, 3, 4, 5, 6, 7::nat}" and "N = 2 ^ k" by blast
  then show ?thesis using that [of k] by auto
qed

lemma valid_branching_ge2: "valid_branching N \<Longrightarrow> 2 \<le> N"
  by (auto simp: valid_branching_def)

lemma valid_branching_pos [simp]: "valid_branching N \<Longrightarrow> 0 < N"
  using valid_branching_ge2 [of N] by simp

lemma ilog_2_power: "ilog 2 (2 ^ k) = k"
  by (rule ilog_unique) auto

lemma and_mask_mod:
  assumes "valid_branching N"
  shows "idx AND (N - 1) = idx mod N"
proof -
  obtain k where k: "N = 2 ^ k" using valid_branching_cases [OF assms] .
  have "idx AND (2 ^ k - 1) = take_bit k idx"
    by (simp add: take_bit_eq_mask mask_eq_exp_minus_1)
  then show ?thesis by (simp add: k take_bit_eq_mod)
qed

lemmas and_mask_mod_Suc = and_mask_mod [unfolded One_nat_def]

lemma extract_index_eq:
  assumes "valid_branching N"
  shows "extract_index N idx h = idx div N ^ h mod N"
proof -
  obtain k where k: "N = 2 ^ k" using valid_branching_cases [OF assms] .
  have "drop_bit (ilog 2 N * h) idx = idx div N ^ h"
    by (simp add: k ilog_2_power drop_bit_eq_div power_mult)
  then show ?thesis by (simp only: extract_index_def and_mask_mod [OF assms])
qed

lemma extract_index_mod:
  "valid_branching N \<Longrightarrow> extract_index N idx h = idx mod N ^ Suc h div N ^ h"
  by (simp add: extract_index_eq mod_mult2_eq mult.commute [of N])

section \<open>Nodes\<close>

lemma node_len_list [simp]: "node_len t = length (node_list t)"
  by (induction t) (auto simp: length_concat comp_def cong: map_cong)

lemma node_list_build [simp]: "0 < N \<Longrightarrow> node_list (build N h xs) = xs"
  by (induction h arbitrary: xs) (auto simp: comp_def)

lemma index_split:
  assumes "valid_branching N"
  shows "idx mod N ^ Suc h = extract_index N idx h * N ^ h + idx mod N ^ h"
proof -
  have "idx mod N ^ Suc h mod N ^ h = idx mod N ^ h"
    by (simp add: mod_mod_cancel)
  then show ?thesis
    using div_mult_mod_eq [of "idx mod N ^ Suc h" "N ^ h"]
    by (simp only: extract_index_mod [OF assms])
qed

lemma chunk_get_block:
  "r < B \<Longrightarrow> chunk_get (take B (drop k xs)) r = chunk_get xs (k + r)"
  by (auto simp: chunk_get_def)

theorem node_get_build:
  assumes "valid_branching N"
  shows "length xs \<le> N ^ Suc h \<Longrightarrow>
    node_get N h idx (build N h xs) = Some (chunk_get xs (idx mod N ^ Suc h))"
proof (induction h arbitrary: xs)
  case 0
  then show ?case by (simp add: and_mask_mod_Suc [OF assms])
next
  case (Suc h)
  let ?B = "N ^ Suc h" and ?b = "extract_index N idx (Suc h)"
  have B: "0 < ?B" using assms by simp
  have r: "idx mod ?B < ?B" using B by simp
  note isplit = index_split [OF assms, of idx "Suc h"]
  show ?case
  proof (cases "?b * ?B < length xs")
    case True
    note nth = chop_nth [OF B True]
    have "node_get N h idx (build N h (chop ?B xs ! ?b))
        = Some (chunk_get xs (?b * ?B + idx mod ?B))"
      using Suc.IH [of "chop ?B xs ! ?b"] nth chunk_get_block [OF r] by simp
    with nth isplit show ?thesis by (simp add: Let_def del: power_Suc)
  next
    case False
    then have "\<not> ?b < length (chop ?B xs)" using B by (simp add: length_chop_less_iff)
    with False isplit show ?thesis by (simp add: Let_def chunk_get_def del: power_Suc)
  qed
qed

lemma wrap_child_build: "0 < N \<Longrightarrow> wrap_child k (build N h [x]) = build N (h + k) [x]"
proof (induction k arbitrary: h)
  case 0
  then show ?case by simp
next
  case (Suc k)
  have "Interior [build N h [x]] = build N (Suc h) [x]"
    using Suc.prems by (simp add: chop_short Suc_le_eq del: power_Suc)
  then have "wrap_child (Suc k) (build N h [x]) = wrap_child k (build N (Suc h) [x])"
    by simp
  also have "\<dots> = build N (Suc h + k) [x]" by (rule Suc.IH [OF Suc.prems])
  finally show ?case by simp
qed

text \<open>Blocks under an update and an append.\<close>

lemma chop_update:
  assumes "0 < n" and "i < length xs"
  shows "chop n (xs[i := x]) = (chop n xs)[i div n := (chop n xs ! (i div n))[i mod n := x]]"
proof (rule nth_equalityI)
  have same: "length (chop n (xs[i := x])) = length (chop n xs)"
    using assms(1) by (metis length_chop_less_iff length_list_update linorder_neqE_nat nat_neq_iff)
  then show "length (chop n (xs[i := x]))
      = length ((chop n xs)[i div n := (chop n xs ! (i div n))[i mod n := x]])"
    by simp
  fix b
  assume "b < length (chop n (xs[i := x]))"
  with same have b: "b < length (chop n xs)" by simp
  then have bn: "b * n < length xs" using assms(1) by (simp add: length_chop_less_iff)
  have l: "chop n (xs[i := x]) ! b = take n (drop (b * n) (xs[i := x]))"
    using assms(1) bn by (simp add: chop_nth)
  have r: "chop n xs ! b = take n (drop (b * n) xs)"
    using assms(1) bn by (simp add: chop_nth)
  show "chop n (xs[i := x]) ! b
      = (chop n xs)[i div n := (chop n xs ! (i div n))[i mod n := x]] ! b"
  proof (cases "b = i div n")
    case True
    then have i: "i = b * n + i mod n" by simp
    have "take n (drop (b * n) (xs[i := x])) = (take n (drop (b * n) xs))[i mod n := x]"
      by (subst i) (simp add: drop_update_swap take_update_swap)
    then show ?thesis using True b l r by simp
  next
    case False
    have "take n (drop (b * n) (xs[i := x])) = take n (drop (b * n) xs)"
    proof (cases "i < b * n")
      case True
      then show ?thesis by (simp add: drop_update_cancel)
    next
      case ge: False
      have "b < i div n" using False ge assms(1)
        by (metis div_less_iff_less_mult linorder_neqE_nat not_less)
      then have "n \<le> i - b * n" using assms(1)
        by (metis Suc_leI add_le_imp_le_diff less_eq_div_iff_mult_less_eq mult_Suc)
      with ge show ?thesis by (simp add: drop_update_swap take_update_cancel)
    qed
    with False l r show ?thesis by simp
  qed
qed

theorem node_set_update:
  assumes "valid_branching N"
  shows "length xs \<le> N ^ Suc h \<Longrightarrow> idx mod N ^ Suc h < length xs \<Longrightarrow>
    node_set N h idx x (build N h xs) = Some (build N h (xs[idx mod N ^ Suc h := x]))"
proof (induction h arbitrary: xs)
  case 0
  then show ?case by (simp add: and_mask_mod_Suc [OF assms] Let_def panic_simps)
next
  case (Suc h)
  let ?B = "N ^ Suc h" and ?b = "extract_index N idx (Suc h)"
  let ?i = "idx mod N ^ Suc (Suc h)" and ?ys = "chop (N ^ Suc h) xs ! extract_index N idx (Suc h)"
  have B: "0 < ?B" using assms by simp
  note isplit = index_split [OF assms, of idx "Suc h"]
  have r: "idx mod ?B < ?B" using B by simp
  have b: "?i div ?B = ?b" by (simp only: extract_index_mod [OF assms])
  have m: "?i mod ?B = idx mod ?B" by (simp add: mod_mod_cancel)
  have lt: "?b * ?B < length xs" using Suc.prems(2) isplit by linarith
  note nth = chop_nth [OF B lt]
  have "idx mod ?B < length ?ys"
    using nth r Suc.prems(2) isplit by simp
  moreover have "length ?ys \<le> ?B" using nth by simp
  ultimately have ih: "node_set N h idx x (build N h ?ys) = Some (build N h (?ys[idx mod ?B := x]))"
    using Suc.IH by blast
  have "build N (Suc h) (xs[?i := x])
      = Interior ((map (build N h) (chop ?B xs))[?b := build N h (?ys[idx mod ?B := x])])"
    using chop_update [OF B Suc.prems(2), of x] b m by (simp add: map_update del: power_Suc)
  with ih nth show ?case by (simp add: Let_def del: power_Suc)
qed

theorem node_set_append:
  assumes "valid_branching N"
  shows "length xs < N ^ Suc h \<Longrightarrow> idx mod N ^ Suc h = length xs \<Longrightarrow>
    node_set N h idx x (build N h xs) = Some (build N h (xs @ [x]))"
proof (induction h arbitrary: xs)
  case 0
  then show ?case
    by (simp add: and_mask_mod_Suc [OF assms] Let_def panic_simps chunk_push_back_def)
next
  case (Suc h)
  let ?B = "N ^ Suc h" and ?b = "extract_index N idx (Suc h)"
  have B: "0 < ?B" using assms by simp
  have len: "length xs = ?b * ?B + idx mod ?B"
    using Suc.prems(2) index_split [OF assms, of idx "Suc h"] by simp
  have r: "idx mod ?B < ?B" using B by simp
  show ?case
  proof (cases "idx mod ?B = 0")
    case True
    then have "length (chop ?B xs) = ?b" using len B by (simp add: length_chop_mult)
    moreover have "?b < N" using assms by (simp add: extract_index_eq)
    moreover have "chop ?B (xs @ [x]) = chop ?B xs @ [[x]]"
      using True len B by (simp add: chop_append_mult [of _ xs ?b] chop_short Suc_le_eq del: power_Suc)
    moreover have "wrap_child h (Leaf [x]) = build N h [x]"
      using wrap_child_build [of N h 0 x] assms by simp
    ultimately show ?thesis by (simp add: Let_def chunk_push_back_def del: power_Suc)
  next
    case False
    let ?ys = "drop (?b * ?B) xs" and ?pre = "chop ?B (take (?b * ?B) xs)"
    have lb: "?b * ?B < length xs" "length xs < Suc ?b * ?B" using False len r by auto
    have chop: "chop ?B xs = ?pre @ [?ys]"
      using lb by (intro chop_split_last B) auto
    have "chop ?B (xs @ [x]) = chop ?B (take (?b * ?B) (xs @ [x])) @ [drop (?b * ?B) (xs @ [x])]"
      using lb by (intro chop_split_last B) auto
    then have chop': "chop ?B (xs @ [x]) = ?pre @ [?ys @ [x]]" using lb by simp
    have lenp: "length ?pre = ?b" using lb B by (simp add: length_chop_mult)
    have ih: "node_set N h idx x (build N h ?ys) = Some (build N h (?ys @ [x]))"
      using len r by (intro Suc.IH) auto
    show ?thesis
      using ih by (simp add: Let_def chop chop' lenp nth_append list_update_append del: power_Suc)
  qed
qed

theorem node_pop_build:
  assumes "valid_branching N"
  shows "xs \<noteq> [] \<Longrightarrow> length xs \<le> N ^ Suc h \<Longrightarrow>
    node_pop (build N h xs) = Some (last xs, butlast xs = [], build N h (butlast xs))"
proof (induction h arbitrary: xs)
  case 0
  then show ?case by (simp add: chunk_pop_back_def)
next
  case (Suc h)
  let ?B = "N ^ Suc h"
  define k where "k = (length xs - 1) div ?B"
  let ?ys = "drop (k * ?B) xs" and ?pre = "chop ?B (take (k * ?B) xs)"
  have B: "0 < ?B" using assms by simp
  have "k * ?B \<le> length xs - 1" "length xs - 1 < Suc k * ?B"
    unfolding k_def using B by (auto simp: dividend_less_div_times)
  then have lb: "k * ?B < length xs" "length xs \<le> Suc k * ?B" using Suc.prems(1) by (cases xs; simp)+
  have chop: "chop ?B xs = ?pre @ [?ys]" using lb by (intro chop_split_last B) auto
  have ys: "?ys \<noteq> []" "last ?ys = last xs" "butlast ?ys = drop (k * ?B) (butlast xs)"
    using lb by (auto simp: butlast_drop)
  have ih: "node_pop (build N h ?ys) = Some (last ?ys, butlast ?ys = [], build N h (butlast ?ys))"
    using lb ys by (intro Suc.IH) auto
  have "build N (Suc h) (butlast xs)
      = Interior (map (build N h) (if butlast ?ys = [] then ?pre else ?pre @ [butlast ?ys]))"
  proof (cases "butlast ?ys = []")
    case True
    then have "length (drop (k * ?B) xs) - 1 = 0" by (metis length_butlast list.size(3))
    then have "length xs = Suc (k * ?B)" using lb by simp
    then have "butlast xs = take (k * ?B) xs" by (simp add: butlast_conv_take)
    with True show ?thesis by simp
  next
    case False
    then have "k * ?B < length (butlast xs)" using ys by auto
    then have "chop ?B (butlast xs)
        = chop ?B (take (k * ?B) (butlast xs)) @ [drop (k * ?B) (butlast xs)]"
      using lb by (intro chop_split_last B) auto
    moreover have "take (k * ?B) (butlast xs) = take (k * ?B) xs"
      using \<open>k * ?B < length (butlast xs)\<close> by (simp add: take_butlast)
    ultimately show ?thesis using False ys by simp
  qed
  moreover have "butlast xs = [] \<longleftrightarrow> ?pre = [] \<and> butlast ?ys = []"
    using butlast_append [of "take (k * ?B) xs" ?ys] ys(1) B by (simp del: power_Suc)
  ultimately show ?case
    using ih ys by (auto simp: chop Let_def simp del: build.simps power_Suc) (auto simp: chop simp del: power_Suc)
qed

lemma chop_take:
  assumes "0 < n" and "k * n \<le> length xs"
  shows "chop n (take (k * n) xs) = take k (chop n xs)"
proof -
  have "chop n (take (k * n) xs @ drop (k * n) xs)
      = chop n (take (k * n) xs) @ chop n (drop (k * n) xs)"
    using assms by (intro chop_append_mult [of n _ k]) auto
  moreover have "length (chop n (take (k * n) xs)) = k"
    using assms by (simp add: length_chop_mult)
  ultimately show ?thesis by simp
qed

theorem node_truncate_build:
  assumes "valid_branching N"
  shows "len \<le> length xs \<Longrightarrow> length xs \<le> N ^ Suc h \<Longrightarrow>
    node_truncate N h len (build N h xs) = Some (build N h (take len xs))"
proof (induction h arbitrary: xs len)
  case 0
  then show ?case by (simp add: panic_simps chunk_drop_right_def)
next
  case (Suc h)
  let ?B = "N ^ Suc h"
  let ?k = "len div ?B" and ?r = "len mod ?B"
  have B: "0 < ?B" using assms by simp
  have len: "len = ?k * ?B + ?r" by (simp only: div_mult_mod_eq)
  have kB: "?k * ?B \<le> length xs" using len Suc.prems(1) by linarith
  show ?case
  proof (cases "?r > 0")
    case True
    let ?ys = "take ?B (drop (?k * ?B) xs)"
    have lt: "?k * ?B < length xs" using len Suc.prems(1) True by linarith
    note nth = chop_nth [OF B lt]
    have r: "?r < ?B" using B by simp
    have "?r \<le> length ?ys" using len Suc.prems(1) r by simp
    then have ih: "node_truncate N h ?r (build N h ?ys) = Some (build N h (take ?r ?ys))"
      by (intro Suc.IH) auto
    have "chop ?B (take len xs)
        = chop ?B (take (?k * ?B) (take len xs)) @ [drop (?k * ?B) (take len xs)]"
      using len Suc.prems(1) True r by (intro chop_split_last B) auto
    also have "take (?k * ?B) (take len xs) = take (?k * ?B) xs"
      using len by (metis le_add1 min.absorb1 take_take)
    also have "drop (?k * ?B) (take len xs) = take ?r ?ys"
      using len r by (metis add_diff_cancel_left' drop_take min.absorb1 less_imp_le_nat take_take)
    finally have "chop ?B (take len xs) = take ?k (chop ?B xs) @ [take ?r ?ys]"
      using chop_take [OF B kB] by simp
    then have res: "build N (Suc h) (take len xs)
        = Interior (map (build N h) (take ?k (chop ?B xs) @ [take ?r ?ys]))"
      by simp
    have "take (?k + 1) (chop ?B xs) = take ?k (chop ?B xs) @ [?ys]"
      using nth by (simp add: take_Suc_conv_app_nth del: power_Suc)
    then have tk: "take (?k + 1) (map (build N h) (chop ?B xs))
        = map (build N h) (take ?k (chop ?B xs)) @ [build N h ?ys]"
      by (simp add: take_map del: power_Suc)
    have k: "length (map (build N h) (take ?k (chop ?B xs))) = ?k"
      using nth by simp
    show ?thesis
      using True nth ih tk k res
      by (simp add: Let_def chunk_drop_right_def nth_append list_update_append Suc_le_eq
          del: power_Suc)
  next
    case False
    then have "take len xs = take (?k * ?B) xs" using len by simp
    then have "build N (Suc h) (take len xs) = Interior (map (build N h) (take ?k (chop ?B xs)))"
      using chop_take [OF B kB] by simp
    moreover have "?k \<le> length (chop ?B xs)"
      using chop_take [OF B kB] length_chop_mult [OF B, of "take (?k * ?B) xs" ?k] kB by simp
    ultimately show ?thesis
      using False by (simp add: Let_def chunk_drop_right_def take_map del: power_Suc)
  qed
qed

lemma descend_first_build:
  assumes "0 < N"
  shows "xs \<noteq> [] \<Longrightarrow> descend_first k (build N (h + k) xs)
    = Some (if k = 0 then build N h xs else build N h (take (N ^ Suc h) xs))"
proof (induction k arbitrary: xs)
  case 0
  then show ?case by simp
next
  case (Suc k)
  let ?B = "N ^ Suc (h + k)"
  have B: "0 < ?B" using assms by simp
  have le: "N ^ Suc h \<le> ?B" using assms by (intro power_increasing) auto
  have "descend_first (Suc k) (build N (h + Suc k) xs) = descend_first k (build N (h + k) (take ?B xs))"
    using chop_step [OF B Suc.prems] by simp
  also have "\<dots> = Some (build N h (take (N ^ Suc h) xs))"
    using Suc.IH [of "take ?B xs"] Suc.prems B le
    by (auto simp: min_absorb1 simp del: power_Suc)
  finally show ?case by simp
qed

section \<open>Heights\<close>

lemma height_for_length_upper:
  assumes "valid_branching N"
  shows "len \<le> N ^ Suc (height_for_length N len)"
proof -
  have "max (len - 1) 1 < N ^ Suc (height_for_length N len)"
    using ilog_bounds [OF valid_branching_ge2 [OF assms], of "max (len - 1) 1"]
    by (simp add: height_for_length_def)
  then show ?thesis by linarith
qed

lemma height_for_length_eq:
  assumes "valid_branching N" and "len \<le> N ^ Suc h" and "h = 0 \<or> N ^ h < len"
  shows "height_for_length N len = h"
proof -
  have N: "2 \<le> N" using assms(1) by (rule valid_branching_ge2)
  have "N ^ h \<le> max (len - 1) 1" using assms(3) by (cases "h = 0") auto
  moreover have "(1::nat) < N ^ Suc h" using N one_less_power [of N "Suc h"] by simp
  then have "max (len - 1) 1 < N ^ Suc h" using assms(2) by auto
  ultimately show ?thesis unfolding height_for_length_def using N by (rule ilog_unique [rotated])
qed

lemma height_for_length_lower:
  assumes "valid_branching N" and "0 < height_for_length N len"
  shows "N ^ height_for_length N len < len"
proof -
  have N: "2 \<le> N" using assms(1) by (rule valid_branching_ge2)
  have "N ^ height_for_length N len \<le> max (len - 1) 1"
    using ilog_bounds [OF N, of "max (len - 1) 1"] by (auto simp: height_for_length_def)
  moreover have "1 < N ^ height_for_length N len"
    using N assms(2) by (intro one_less_power) auto
  ultimately show ?thesis by auto
qed

lemma height_for_length_mono:
  assumes "valid_branching N" and "len \<le> len'"
  shows "height_for_length N len \<le> height_for_length N len'"
proof (rule ccontr)
  let ?h = "height_for_length N len" and ?h' = "height_for_length N len'"
  assume "\<not> ?h \<le> ?h'"
  then have "Suc ?h' \<le> ?h" and "0 < ?h" by auto
  then have "N ^ Suc ?h' \<le> N ^ ?h" using assms(1) by (intro power_increasing) (auto simp: Suc_le_eq)
  also have "\<dots> < len" using \<open>0 < ?h\<close> by (rule height_for_length_lower [OF assms(1)])
  also have "\<dots> \<le> N ^ Suc ?h'" using assms(2) height_for_length_upper [OF assms(1), of len'] by simp
  finally show False by simp
qed

lemma height_for_length_0 [simp]: "valid_branching N \<Longrightarrow> height_for_length N 0 = 0"
  by (rule height_for_length_eq) auto

section \<open>Vectors\<close>

text \<open>The canonical vector of a list, and the two shapes of a well-formed vector.\<close>

definition mk_vec :: "nat \<Rightarrow> 'a list \<Rightarrow> 'a vector" where
  "mk_vec N xs =
     (let h = height_for_length N (length xs)
      in \<lparr>vec_root = Some (build N h xs), vec_length = length xs, vec_height = h\<rparr>)"

lemma vec_list_new [simp]: "vec_list vec_new = []"
  by (simp add: vec_list_def vec_new_def)

lemma vec_wf_new [simp]: "vec_wf N vec_new"
  by (simp add: vec_wf_def vec_new_def)

lemma vec_list_mk_vec [simp]: "valid_branching N \<Longrightarrow> vec_list (mk_vec N xs) = xs"
  by (simp add: vec_list_def mk_vec_def Let_def)

lemma vec_wf_mk_vec [simp]: "valid_branching N \<Longrightarrow> vec_wf N (mk_vec N xs)"
  by (simp add: vec_wf_def mk_vec_def Let_def)

lemma vec_wf_cases:
  assumes "vec_wf N v"
  obtains (new) "v = vec_new" | (mk) xs where "v = mk_vec N xs" and "vec_list v = xs"
proof (cases "vec_root v")
  case None
  with assms have "v = vec_new" by (simp add: vec_wf_def vec_new_def)
  then show ?thesis by (rule new)
next
  case (Some root)
  let ?h = "height_for_length N (length (node_list root))"
  have c: "vec_length v = length (node_list root)
      \<and> vec_height v = height_for_length N (vec_length v)
      \<and> root = build N (vec_height v) (node_list root)"
    using assms unfolding vec_wf_def Some option.case by assumption
  then have "build N ?h (node_list root) = root" by metis
  with Some c have "v = mk_vec N (node_list root)"
    by (cases v) (simp add: mk_vec_def Let_def)
  then show ?thesis using Some by (intro mk) (simp_all add: vec_list_def)
qed

lemma vec_length_list: "vec_wf N v \<Longrightarrow> vec_length v = length (vec_list v)"
  by (auto simp: vec_wf_def vec_list_def split: option.splits)

lemma mk_vec_bound:
  "valid_branching N \<Longrightarrow> length xs \<le> N ^ Suc (height_for_length N (length xs))"
  by (rule height_for_length_upper)

subsection \<open>Reading\<close>

theorem vec_get_spec:
  assumes "valid_branching N" and "vec_wf N v"
  shows "vec_get N v idx = Some (chunk_get (vec_list v) (idx mod N ^ Suc (vec_height v)))"
  using assms(2)
proof (cases rule: vec_wf_cases)
  case new
  then show ?thesis by (simp add: vec_get_def vec_new_def chunk_get_def vec_list_def)
next
  case (mk xs)
  then show ?thesis
    using node_get_build [OF assms(1) mk_vec_bound [OF assms(1)], of xs idx]
    by (simp add: vec_get_def mk_vec_def Let_def del: power_Suc)
qed

lemma vec_height_bound:
  assumes "valid_branching N" and "vec_wf N v"
  shows "length (vec_list v) \<le> N ^ Suc (vec_height v)"
  using assms(2)
proof (cases rule: vec_wf_cases)
  case (mk xs)
  then show ?thesis using mk_vec_bound [OF assms(1), of xs] by (simp add: mk_vec_def Let_def del: power_Suc)
qed simp

lemma vec_get_in_range:
  assumes "valid_branching N" and "vec_wf N v" and "idx < length (vec_list v)"
  shows "vec_get N v idx = Some (Some (vec_list v ! idx))"
proof -
  have "idx < N ^ Suc (vec_height v)"
    using assms(3) vec_height_bound [OF assms(1,2)] by linarith
  then show ?thesis using assms by (simp add: vec_get_spec chunk_get_def del: power_Suc)
qed

subsection \<open>Writing\<close>

lemma vec_set_mk_vec:
  assumes "valid_branching N" and "idx < length xs"
  shows "vec_set N (mk_vec N xs) idx x = Some (mk_vec N (xs[idx := x]))"
proof -
  have "idx < N ^ Suc (height_for_length N (length xs))"
    using assms(2) mk_vec_bound [OF assms(1), of xs] by linarith
  with node_set_update [OF assms(1) mk_vec_bound [OF assms(1), of xs], of idx x] assms(2)
  show ?thesis by (simp add: vec_set_def mk_vec_def Let_def del: power_Suc)
qed

lemma vec_push_new: "valid_branching N \<Longrightarrow> vec_push N vec_new x = Some (mk_vec N [x])"
proof -
  assume N: "valid_branching N"
  have "node_set N 0 0 x (build N 0 []) = Some (build N 0 ([] @ [x]))"
    using N by (intro node_set_append) auto
  moreover have "height_for_length N (Suc 0) = 0"
    using N by (intro height_for_length_eq) (auto simp: Suc_le_eq)
  ultimately show ?thesis
    by (simp add: vec_push_def vec_is_full_def vec_new_def add_level_def mk_vec_def Let_def vec_len_def)
qed

lemma build_single_child:
  "0 < N \<Longrightarrow> xs \<noteq> [] \<Longrightarrow> length xs \<le> N ^ Suc h \<Longrightarrow> build N (Suc h) xs = Interior [build N h xs]"
  by (simp add: chop_short)

lemma vec_push_mk_vec:
  assumes N: "valid_branching N"
  shows "vec_push N (mk_vec N xs) x = Some (mk_vec N (xs @ [x]))"
proof -
  let ?h = "height_for_length N (length xs)"
  have ub: "length xs \<le> N ^ Suc ?h" by (rule mk_vec_bound [OF N])
  have pos: "0 < N ^ Suc ?h" using N by simp
  show ?thesis
  proof (cases "length xs = N ^ Suc ?h")
    case True
    then have "xs \<noteq> []" using pos by auto
    then have lvl: "Interior [build N ?h xs] = build N (Suc ?h) xs"
      using N ub by (simp add: build_single_child del: build.simps)
    have lt: "length xs < N ^ Suc (Suc ?h)"
      using True N valid_branching_ge2 [OF N] pos by (simp add: power_strict_increasing_iff)
    have set: "node_set N (Suc ?h) (length xs) x (build N (Suc ?h) xs) = Some (build N (Suc ?h) (xs @ [x]))"
      using lt by (intro node_set_append N) auto
    have "height_for_length N (Suc (length xs)) = Suc ?h"
      using lt True N by (intro height_for_length_eq) (auto simp del: power_Suc)
    with True set lvl show ?thesis
      by (simp add: vec_push_def vec_is_full_def mk_vec_def add_level_def vec_len_def Let_def
          del: power_Suc build.simps)
  next
    case False
    with ub have lt: "length xs < N ^ Suc ?h" by simp
    then have set: "node_set N ?h (length xs) x (build N ?h xs) = Some (build N ?h (xs @ [x]))"
      by (intro node_set_append N) auto
    have "?h = 0 \<or> N ^ ?h < Suc (length xs)"
      using height_for_length_lower [OF N, of "length xs"] by (cases "?h = 0") auto
    then have "height_for_length N (Suc (length xs)) = ?h"
      using lt N by (intro height_for_length_eq) (auto simp del: power_Suc)
    with False set show ?thesis
      by (simp add: vec_push_def vec_is_full_def mk_vec_def vec_len_def Let_def del: power_Suc)
  qed
qed

lemma vec_pop_mk_vec:
  assumes N: "valid_branching N" and "xs \<noteq> []"
  shows "vec_pop N (mk_vec N xs) = Some (Some (last xs), mk_vec N (butlast xs))"
proof -
  let ?h = "height_for_length N (length xs)"
  have ub: "length xs \<le> N ^ Suc ?h" by (rule mk_vec_bound [OF N])
  have pop: "node_pop (build N ?h xs) = Some (last xs, butlast xs = [], build N ?h (butlast xs))"
    by (rule node_pop_build [OF N assms(2) ub])
  note unf = vec_pop_def vec_is_empty_def mk_vec_def Let_def
  show ?thesis
  proof (cases ?h)
    case 0
    moreover have "height_for_length N (length xs - Suc 0) = 0"
      using height_for_length_mono [OF N, of "length xs - Suc 0" "length xs"] 0 by simp
    ultimately show ?thesis using pop assms(2) by (simp add: unf)
  next
    case (Suc g)
    let ?B = "N ^ Suc g" and ?ys = "butlast xs"
    have B: "0 < ?B" using N by simp
    have lb: "?B < length xs" using height_for_length_lower [OF N, of "length xs"] Suc by simp
    then have "?B \<le> length ?ys" by simp
    then have ys: "?ys \<noteq> []" "?B \<le> length ?ys" using B by (auto simp del: length_butlast)
    show ?thesis
    proof (cases "length ?ys = ?B")
      case True
      have "height_for_length N (length ?ys) = g"
      proof (rule height_for_length_eq [OF N])
        have "N ^ g < ?B" using valid_branching_ge2 [OF N] by (intro power_strict_increasing) auto
        then show "g = 0 \<or> N ^ g < length ?ys" using True by simp
      qed (simp only: True)
      moreover have "build N (Suc g) ?ys = Interior [build N g ?ys]"
        using N ys True by (intro build_single_child) auto
      ultimately show ?thesis using pop assms(2) Suc by (simp add: unf del: build.simps)
    next
      case False
      then have lt: "?B < length ?ys" using ys by simp
      have "height_for_length N (length ?ys) = Suc g"
        using lt ub Suc N by (intro height_for_length_eq) auto
      moreover have "1 < length (chop ?B ?ys)"
        using lt B by (simp add: length_chop_less_iff del: power_Suc)
      ultimately show ?thesis using pop assms(2) Suc by (simp add: unf del: power_Suc)
    qed
  qed
qed

lemma vec_truncate_mk_vec:
  assumes N: "valid_branching N" and "len < length xs"
  shows "vec_truncate N (mk_vec N xs) len = Some (mk_vec N (take len xs))"
proof -
  let ?h = "height_for_length N (length xs)" and ?g = "height_for_length N len"
  have ub: "length xs \<le> N ^ Suc ?h" by (rule mk_vec_bound [OF N])
  have ub': "len \<le> N ^ Suc ?g" by (rule height_for_length_upper [OF N])
  have gh: "?g \<le> ?h" using assms(2) by (intro height_for_length_mono [OF N]) simp
  have xs: "xs \<noteq> []" using assms(2) by auto
  note unf = vec_truncate_def mk_vec_def Let_def
  show ?thesis
  proof (cases "?g < ?h")
    case True
    let ?ys = "take (N ^ Suc ?g) xs"
    have "descend_first (?h - ?g) (build N ?h xs) = Some (build N ?g ?ys)"
      using descend_first_build [of N xs "?h - ?g" ?g] True N xs by simp
    moreover have "node_truncate N ?g len (build N ?g ?ys) = Some (build N ?g (take len ?ys))"
      using ub' assms(2) by (intro node_truncate_build N) auto
    moreover have "take len ?ys = take len xs" using ub' by (simp add: min_absorb1 del: power_Suc)
    ultimately show ?thesis
      using True assms(2) by (simp add: unf min_absorb2 del: power_Suc)
  next
    case False
    with gh have "?g = ?h" by simp
    moreover have "node_truncate N ?h len (build N ?h xs) = Some (build N ?h (take len xs))"
      using assms(2) ub by (intro node_truncate_build N) auto
    ultimately show ?thesis using assms(2) by (simp add: unf min_absorb2 del: power_Suc)
  qed
qed

end
