(* ===== verification/Vector_Invariant.thy ===== *)
theory Vector_Invariant
  imports Vector_Correct
begin

text \<open>
  The canonical trees \<open>build N h xs\<close> are the packed trees of the documentation ("every child
  that isn't the right-most child of its parent must have a complete subtree"), and
  \<open>check_invariants\<close> accepts every well-formed vector.
\<close>

lemma chop_concat_blocks:
  "0 < n \<Longrightarrow> \<forall>ys \<in> set yss. length ys = n \<Longrightarrow> chop n (concat yss @ zs) = yss @ chop n zs"
  by (induction yss) (simp_all add: chop_append_block)

lemma chop_mult_blocks:
  "0 < n \<Longrightarrow> length xs = k * n \<Longrightarrow> ys \<in> set (chop n xs) \<Longrightarrow> length ys = n"
proof (induction k arbitrary: xs)
  case (Suc k)
  then have "xs \<noteq> []" by auto
  with Suc.prems have "ys = take n xs \<or> ys \<in> set (chop n (drop n xs))" by (simp add: chop_step)
  then show ?case using Suc.prems Suc.IH [of "drop n xs"] by auto
qed simp

lemma complete_build:
  assumes N: "0 < N"
  shows "length xs = N ^ Suc h \<Longrightarrow> complete N h (build N h xs)"
proof (induction h arbitrary: xs)
  case (Suc h)
  let ?B = "N ^ Suc h"
  have B: "0 < ?B" using N by simp
  have len: "length xs = N * ?B" using Suc.prems by simp
  have "length (chop ?B xs) = N" using length_chop_mult [OF B len] .
  moreover have "complete N h (build N h ys)" if "ys \<in> set (chop ?B xs)" for ys
    using chop_mult_blocks [OF B len that] by (rule Suc.IH)
  ultimately show ?case by simp
qed simp

lemma packed_build:
  assumes N: "0 < N"
  shows "xs \<noteq> [] \<Longrightarrow> length xs \<le> N ^ Suc h \<Longrightarrow> packed N h (build N h xs)"
proof (induction h arbitrary: xs)
  case (Suc h)
  let ?B = "N ^ Suc h"
  define k where "k = (length xs - 1) div ?B"
  let ?ys = "drop (k * ?B) xs" and ?pre = "chop ?B (take (k * ?B) xs)"
  have B: "0 < ?B" using N by simp
  have "k * ?B \<le> length xs - 1" "length xs - 1 < Suc k * ?B"
    unfolding k_def using B by (auto simp: dividend_less_div_times)
  then have lb: "k * ?B < length xs" "length xs \<le> Suc k * ?B" using Suc.prems(1) by (cases xs; simp)+
  have chop: "chop ?B xs = ?pre @ [?ys]" using lb by (intro chop_split_last B) auto
  have len: "length (take (k * ?B) xs) = k * ?B" using lb by simp
  have "complete N h (build N h zs)" if "zs \<in> set ?pre" for zs
    using chop_mult_blocks [OF B len that] by (rule complete_build [OF N])
  moreover have "packed N h (build N h ?ys)" using lb by (intro Suc.IH) auto
  moreover have "length (chop ?B xs) \<le> N"
    using length_chop_le [OF B, of xs N] Suc.prems(2) by simp
  ultimately show ?case by (simp add: chop del: power_Suc)
qed (simp add: Suc_le_eq)

lemma complete_imp_build:
  assumes N: "0 < N"
  shows "complete N h t \<Longrightarrow> length (node_list t) = N ^ Suc h \<and> build N h (node_list t) = t"
proof (induction t arbitrary: h)
  case (Interior cs)
  then obtain g where h: "h = Suc g" by (cases h) auto
  have c: "length (node_list c) = N ^ Suc g \<and> build N g (node_list c) = c" if "c \<in> set cs" for c
    using Interior that h by auto
  have "chop (N ^ Suc g) (concat (map node_list cs) @ []) = map node_list cs @ chop (N ^ Suc g) []"
    using c N by (intro chop_concat_blocks) auto
  moreover have "sum_list (map (length \<circ> node_list) cs) = length cs * N ^ Suc g"
    using c by (simp add: map_cong [of cs cs "length \<circ> node_list" "\<lambda>_. N ^ Suc g"] sum_list_triv
        del: power_Suc cong: map_cong)
  ultimately show ?case
    using Interior.prems h c by (simp add: length_concat comp_def map_idI del: power_Suc)
       (simp add: mult.commute)
qed simp

theorem packed_imp_build:
  assumes N: "0 < N"
  shows "packed N h t \<Longrightarrow>
    node_list t \<noteq> [] \<and> length (node_list t) \<le> N ^ Suc h \<and> build N h (node_list t) = t"
proof (induction t arbitrary: h)
  case (Interior cs)
  then obtain g where h: "h = Suc g" by (cases h) (auto split: if_splits)
  let ?B = "N ^ Suc g"
  have ne: "cs \<noteq> []" and len: "length cs \<le> N" using Interior.prems by (auto split: if_splits)
  have c: "length (node_list c) = ?B \<and> build N g (node_list c) = c" if "c \<in> set (butlast cs)" for c
    using Interior.prems that h complete_imp_build [OF N, of g c] by (auto split: if_splits)
  have l: "node_list (last cs) \<noteq> [] \<and> length (node_list (last cs)) \<le> ?B
      \<and> build N g (node_list (last cs)) = last cs"
    using Interior.prems Interior.IH [of "last cs" g] h ne by (auto split: if_splits)
  have cs: "cs = butlast cs @ [last cs]" using ne by simp
  have list: "node_list (Interior cs) = concat (map node_list (butlast cs)) @ node_list (last cs)"
    by (subst cs) simp
  have "chop ?B (node_list (Interior cs)) = map node_list (butlast cs) @ [node_list (last cs)]"
    unfolding list using c l N
    by (subst chop_concat_blocks) (auto simp: chop_short simp del: power_Suc)
  then have b: "build N h (node_list (Interior cs)) = Interior cs"
    using c l by (subst (2) cs) (simp add: h map_idI del: node_list.simps power_Suc)
  have "sum_list (map (length \<circ> node_list) (butlast cs)) = length (butlast cs) * ?B"
    using c by (simp add: map_cong [of _ _ "length \<circ> node_list" "\<lambda>_. ?B"] sum_list_triv
        del: power_Suc length_butlast cong: map_cong)
  then have "length (node_list (Interior cs)) \<le> length (butlast cs) * ?B + ?B"
    unfolding list using l by (simp add: length_concat comp_def del: power_Suc length_butlast)
  also have "\<dots> = length cs * ?B" using ne by (cases cs) auto
  also have "\<dots> \<le> N * ?B" using len by (rule mult_le_mono1)
  finally show ?case using b h list l by simp
qed (auto simp: Suc_le_eq)

section \<open>The checks of the source\<close>

lemma complete_is_packed_rec: "complete N h t \<Longrightarrow> 0 < N \<Longrightarrow> is_packed_rec N t r"
proof (induction t arbitrary: h r)
  case (Interior cs)
  then have "cs \<noteq> []" by auto
  moreover have "is_packed_rec N c r'" if "c \<in> set cs" for c r'
    using Interior that by (intro Interior.IH [of c "h - 1"]) auto
  ultimately show ?case by (auto dest: in_set_butlastD)
qed simp

lemma packed_is_packed_rec: "packed N h t \<Longrightarrow> 0 < N \<Longrightarrow> is_packed_rec N t True"
proof (induction t arbitrary: h)
  case (Interior cs)
  then show ?case by (auto split: if_splits intro: complete_is_packed_rec)
qed simp

text \<open>\<open>check_invariants\<close> never fails on a well-formed vector.\<close>

lemma check_invariants_wf:
  assumes N: "valid_branching N" and wf: "vec_wf N v"
  shows "check_invariants N v"
  using wf
proof (cases rule: vec_wf_cases)
  case new
  then show ?thesis using N by (simp add: check_invariants_def vec_new_def is_packed_def vec_len_def)
next
  case (mk xs)
  define h where "h = height_for_length N (length xs)"
  have v: "vec_root v = Some (build N h xs)" "vec_length v = length xs" "vec_height v = h"
    using mk(1) by (simp_all add: h_def mk_vec_def Let_def)
  have "is_packed_rec N (build N h xs) True"
  proof (cases "xs = []")
    case True
    then have "h = 0" using N by (simp add: h_def)
    with True show ?thesis by simp
  next
    case False
    then show ?thesis
      using packed_is_packed_rec [OF packed_build [of N xs h]] mk_vec_bound [OF N, of xs] N
      by (simp add: h_def)
  qed
  moreover have "1 < length cs" if cs: "build N h xs = Interior cs" for cs
  proof -
    from cs obtain g where g: "h = Suc g" by (cases h) auto
    have "N ^ Suc g < length xs" using height_for_length_lower [OF N, of "length xs"] g h_def by simp
    then show ?thesis
      using cs N length_chop_less_iff [of "N ^ Suc g" 1 xs] by (auto simp: g)
  qed
  then have "case build N h xs of Leaf _ \<Rightarrow> True | Interior cs \<Rightarrow> 1 < length cs"
    by (cases "build N h xs") auto
  ultimately show ?thesis
    using v N by (simp add: check_invariants_def is_packed_def vec_len_def h_def)
qed

end
