(* ===== verification/Vector_Iter.thy ===== *)
theory Vector_Iter
  imports Vector_Correct
begin

text \<open>
  Correctness of the iterators over a persistent vector. \<open>iter_rest\<close> is the list of elements
  an iterator has still to yield and \<open>iter_ok\<close> its invariant: every pending node sits at the
  depth its level asks for and is not empty. \<open>iter_next\<close> is then the uncons of \<open>iter_rest\<close>,
  so that no \<open>expect\<close> and no \<open>unreachable!\<close> in the iterators can be reached.
\<close>

fun node_ok :: "nat \<Rightarrow> 'a vnode \<Rightarrow> bool" where
  "node_ok k (Leaf data) \<longleftrightarrow> k = 0 \<and> data \<noteq> []"
| "node_ok k (Interior children) \<longleftrightarrow>
     k > 0 \<and> children \<noteq> [] \<and> (\<forall>c \<in> set children. node_ok (k - 1) c)"

primrec stack_ok :: "nat \<Rightarrow> 'a vnode list list \<Rightarrow> bool" where
  "stack_ok k [] \<longleftrightarrow> True"
| "stack_ok k (it # stack) \<longleftrightarrow> (\<forall>n \<in> set it. node_ok k n) \<and> stack_ok (Suc k) stack"

definition stack_list :: "'a vnode list list \<Rightarrow> 'a list" where
  "stack_list stack = concat (map (\<lambda>it. concat (map node_list it)) stack)"

definition iter_ok :: "'a viter \<Rightarrow> bool" where
  "iter_ok it \<longleftrightarrow> stack_ok 0 (iter_stack it)"

definition iter_rest :: "'a viter \<Rightarrow> 'a list" where
  "iter_rest it = iter_leaf it @ stack_list (iter_stack it)"

lemma stack_list_simps [simp]:
  "stack_list [] = []"
  "stack_list (it # stack) = concat (map node_list it) @ stack_list stack"
  by (simp_all add: stack_list_def)

lemma node_ok_build: "0 < N \<Longrightarrow> xs \<noteq> [] \<Longrightarrow> node_ok h (build N h xs)"
proof (induction h arbitrary: xs)
  case (Suc h)
  then show ?case using chop_elems [of "N ^ Suc h" _ xs] by (auto simp del: power_Suc)
qed simp

section \<open>Stepping\<close>

lemma iter_next_node_None: "iter_next_node stack = None \<Longrightarrow> stack_list stack = []"
  by (induction stack rule: iter_next_node.induct) auto

lemma iter_next_node_Some:
  "iter_next_node stack = Some (n, stack') \<Longrightarrow> stack_ok k stack \<Longrightarrow>
    stack_list stack = node_list n @ stack_list stack' \<and> length stack' \<le> length stack
    \<and> node_ok (k + (length stack - length stack')) n
    \<and> stack_ok (k + (length stack - length stack')) stack'"
proof (induction stack arbitrary: k rule: iter_next_node.induct)
  case (3 stack)
  from "3.IH" [of "Suc k"] "3.prems" show ?case
    by (simp add: Suc_diff_le flip: add_diff_assoc)
qed auto

lemma iter_fill_ok:
  "node_ok j n \<Longrightarrow> stack_ok j stack \<Longrightarrow>
    \<exists>d stack'. iter_fill j n stack = Some (Leaf d, stack') \<and> d \<noteq> [] \<and> stack_ok 0 stack'
      \<and> node_list n @ stack_list stack = d @ stack_list stack'"
proof (induction j n stack rule: iter_fill.induct)
  case (1 node stack)
  then show ?case by (cases node) auto
qed auto

theorem iter_next_ok:
  assumes "iter_ok it"
  obtains it' where "iter_ok it'"
    "iter_next it = Some (if iter_rest it = [] then None else Some (hd (iter_rest it)), it')"
    "iter_rest it' = tl (iter_rest it)"
proof (cases "iter_leaf it")
  case (Cons x xs)
  then show ?thesis
    using assms that [of "it\<lparr>iter_leaf := xs\<rparr>"] by (simp add: iter_next_def iter_ok_def iter_rest_def)
next
  case Nil
  show ?thesis
  proof (cases "iter_next_node (iter_stack it)")
    case None
    with Nil assms iter_next_node_None [OF None] show ?thesis
      using that [of "it\<lparr>iter_stack := []\<rparr>"] by (simp add: iter_next_def iter_ok_def iter_rest_def)
  next
    case (Some p)
    then obtain n stack where p: "iter_next_node (iter_stack it) = Some (n, stack)" by (cases p) auto
    from iter_next_node_Some [OF p, of 0] assms
    have rest: "stack_list (iter_stack it) = node_list n @ stack_list stack"
      and ok: "node_ok (length (iter_stack it) - length stack) n"
        "stack_ok (length (iter_stack it) - length stack) stack"
      by (simp_all add: iter_ok_def)
    from iter_fill_ok [OF ok] obtain d stack' where
      fill: "iter_fill (length (iter_stack it) - length stack) n stack = Some (Leaf d, stack')"
      and d: "d \<noteq> []" and ok': "stack_ok 0 stack'"
      and eq: "node_list n @ stack_list stack = d @ stack_list stack'" by blast
    from d obtain y ys where y: "d = y # ys" by (cases d) auto
    let ?it = "\<lparr>iter_stack = stack', iter_leaf = ys\<rparr>"
    have "iter_next it = Some (Some y, ?it)"
      using Nil p fill y by (simp add: iter_next_def Let_def)
    moreover have "iter_rest it = y # ys @ stack_list stack'"
      using Nil rest eq y by (simp add: iter_rest_def)
    ultimately show ?thesis using that [of ?it] ok' by (simp add: iter_ok_def iter_rest_def)
  qed
qed

theorem iter_collect_ok: "iter_ok it \<Longrightarrow> iter_collect it = Some (iter_rest it)"
proof (induction "iter_rest it" arbitrary: it)
  case Nil
  from iter_next_ok [OF Nil.prems] obtain it' where
    "iter_next it = Some (None, it')" using Nil.hyps by metis
  then show ?case using Nil.hyps by (subst iter_collect.simps) simp
next
  case (Cons x xs)
  from iter_next_ok [OF Cons.prems] obtain it' where ok: "iter_ok it'"
    and nxt: "iter_next it = Some (Some x, it')" and rest: "iter_rest it' = xs"
    using Cons.hyps(2) by (metis list.sel(1,3) list.discI)
  have "iter_collect it' = Some xs" using Cons.hyps(1) [of it'] ok rest by simp
  with nxt Cons.hyps(2) show ?case by (subst iter_collect.simps) simp
qed

section \<open>Starting\<close>

lemma iter_first_ok:
  "node_ok k n \<Longrightarrow> stack_ok k stack \<Longrightarrow>
    \<exists>it. iter_first n stack = Some it \<and> iter_ok it \<and> iter_rest it = node_list n @ stack_list stack"
proof (induction n stack arbitrary: k rule: iter_first.induct)
  case (3 c cs stack)
  then obtain j where "k = Suc j" by (cases k) auto
  with 3 show ?case by auto
qed (auto simp: iter_ok_def iter_rest_def)

theorem vec_iter_ok:
  assumes "valid_branching N" and "vec_wf N v"
  shows "\<exists>it. vec_iter v = Some it \<and> iter_ok it \<and> iter_rest it = vec_list v"
  using assms(2)
proof (cases rule: vec_wf_cases)
  case new
  then show ?thesis by (simp add: vec_iter_def vec_new_def iter_ok_def iter_rest_def vec_list_def)
next
  case (mk xs)
  let ?h = "height_for_length N (length xs)"
  have root: "vec_root v = Some (build N ?h xs)" using mk(1) by (simp add: mk_vec_def Let_def)
  show ?thesis
  proof (cases "xs = []")
    case True
    then show ?thesis using root mk(2) assms(1) by (simp add: vec_iter_def iter_ok_def iter_rest_def)
  next
    case False
    have "node_ok ?h (build N ?h xs)" using assms(1) False by (intro node_ok_build) simp_all
    from iter_first_ok [OF this, of "[]"] root mk(2) assms(1) show ?thesis by (simp add: vec_iter_def)
  qed
qed

lemma concat_drop_chop: "0 < n \<Longrightarrow> concat (drop k (chop n xs)) = drop (k * n) xs"
proof (induction k arbitrary: xs)
  case (Suc k)
  then show ?case
    by (cases "xs = []") (simp_all add: chop_step add.commute)
qed simp

lemma drop_block:
  assumes "r < B"
  shows "drop r (take B (drop k xs)) @ drop (B + k) xs = drop (k + r) xs"
proof -
  have "drop (B + k) xs = drop (B - r) (drop (k + r) xs)" using assms by simp
  moreover have "drop r (take B (drop k xs)) = take (B - r) (drop (k + r) xs)"
    by (simp add: drop_take add.commute)
  ultimately show ?thesis by (simp only: append_take_drop_id)
qed

theorem iter_seek_build:
  assumes "valid_branching N"
  shows "length xs \<le> N ^ Suc h \<Longrightarrow> idx mod N ^ Suc h < length xs \<Longrightarrow> stack_ok h stack \<Longrightarrow>
    \<exists>it. iter_seek N h idx (build N h xs) stack = Some it \<and> iter_ok it
      \<and> iter_rest it = drop (idx mod N ^ Suc h) xs @ stack_list stack"
proof (induction h arbitrary: xs stack)
  case 0
  then show ?case by (simp add: and_mask_mod_Suc [OF assms] iter_ok_def iter_rest_def)
next
  case (Suc h)
  let ?B = "N ^ Suc h" and ?b = "extract_index N idx (Suc h)"
  let ?cs = "chop ?B xs"
  have B: "0 < ?B" and N: "0 < N" using assms by simp_all
  have r: "idx mod ?B < ?B" using B by simp
  note isplit = index_split [OF assms, of idx "Suc h"]
  have lt: "?b * ?B < length xs" using Suc.prems(2) isplit by linarith
  note nth = chop_nth [OF B lt]
  let ?ys = "take ?B (drop (?b * ?B) xs)" and ?rest = "map (build N h) (drop (Suc ?b) ?cs)"
  have drop: "drop ?b (map (build N h) ?cs) = build N h ?ys # ?rest"
    using nth by (metis Cons_nth_drop_Suc drop_map length_map nth_map)
  have "stack_ok h (?rest # stack)"
    using Suc.prems(3) chop_elems [OF B, of _ xs] N
    by (auto simp del: power_Suc intro!: node_ok_build dest!: in_set_dropD)
  moreover have "idx mod ?B < length ?ys" using isplit Suc.prems(2) r by simp
  ultimately obtain it where it: "iter_seek N h idx (build N h ?ys) (?rest # stack) = Some it"
    "iter_ok it" "iter_rest it = drop (idx mod ?B) ?ys @ stack_list (?rest # stack)"
    using Suc.IH [of ?ys "?rest # stack"] by auto
  have "concat (map node_list ?rest) = drop (Suc ?b * ?B) xs"
    using concat_drop_chop [OF B, of "Suc ?b" xs] N by (simp add: comp_def del: power_Suc)
  then have "iter_rest it = drop (idx mod N ^ Suc (Suc h)) xs @ stack_list stack"
    using it(3) isplit drop_block [OF r, of "?b * ?B" xs] by (simp del: power_Suc)
  with it drop show ?case by (auto simp: Let_def simp del: power_Suc)
qed

lemma into_iter_seek_eq: "into_iter_seek N h idx n stack = iter_seek N h idx n stack"
  by (induction N h idx n stack rule: iter_seek.induct)
     (auto simp: Let_def chunk_drop_left_def split: list.splits)

theorem iter_starting_at_ok:
  assumes N: "valid_branching N" and wf: "vec_wf N v" and "idx \<le> length (vec_list v)"
  shows "\<exists>it. iter_starting_at N v idx = Some it \<and> into_iter_starting_at N v idx = Some it
    \<and> iter_ok it \<and> iter_rest it = drop idx (vec_list v)"
proof (cases "idx = length (vec_list v)")
  case True
  then show ?thesis
    using vec_length_list [OF wf]
    by (simp add: iter_starting_at_def into_iter_starting_at_def vec_len_def iter_ok_def iter_rest_def)
next
  case False
  with assms(3) have lt: "idx < length (vec_list v)" by simp
  obtain xs where v: "v = mk_vec N xs" and xs: "vec_list v = xs"
    using wf lt by (cases rule: vec_wf_cases) auto
  let ?h = "height_for_length N (length xs)"
  have "idx mod N ^ Suc ?h = idx" using lt mk_vec_bound [OF N, of xs] by (simp add: xs del: power_Suc)
  then have "\<exists>it. iter_seek N ?h idx (build N ?h xs) [] = Some it \<and> iter_ok it \<and> iter_rest it = drop idx xs"
    using iter_seek_build [OF N mk_vec_bound [OF N, of xs], of idx "[]"] lt
    by (simp add: xs del: power_Suc)
  then show ?thesis
    using lt xs by (simp add: v iter_starting_at_def into_iter_starting_at_def into_iter_seek_eq
        vec_len_def mk_vec_def Let_def)
qed

end
