(* ===== verification/Vector_Extend.thy ===== *)
theory Vector_Extend
  imports Vector_Correct
begin

text \<open>
  Correctness of \<open>Extend::extend\<close>. \<open>kids N h ys\<close> is the list of children of the packed tree
  of height \<open>h + 1\<close> with elements \<open>ys\<close>; \<open>extend_rec\<close> is shown to append to it as many items
  of the iterator as fit, and \<open>extend_loop\<close> to consume the whole iterator by adding levels.
\<close>

definition kids :: "nat \<Rightarrow> nat \<Rightarrow> 'a list \<Rightarrow> 'a vnode list" where
  "kids N h ys = map (build N h) (chop (N ^ Suc h) ys)"

lemma build_Suc_kids: "build N (Suc h) ys = Interior (kids N h ys)"
  by (simp add: kids_def)

lemma kids_Nil [simp]: "kids N h [] = []"
  by (simp add: kids_def)

lemma kids_eq_Nil [simp]: "0 < N \<Longrightarrow> kids N h ys = [] \<longleftrightarrow> ys = []"
  by (simp add: kids_def)

text \<open>A complete row of children takes another child.\<close>

lemma kids_snoc:
  assumes "0 < N" and "length ys = k * N ^ Suc h" and "zs \<noteq> []" and "length zs \<le> N ^ Suc h"
  shows "kids N h (ys @ zs) = kids N h ys @ [build N h zs]"
  using assms by (simp add: kids_def chop_append_mult [of _ ys k] chop_short del: power_Suc)

lemma length_kids: "0 < N \<Longrightarrow> length ys = k * N ^ Suc h \<Longrightarrow> length (kids N h ys) = k"
  by (simp add: kids_def length_chop_mult del: power_Suc)

text \<open>The last child may have room.\<close>

lemma kids_last:
  assumes "0 < N" and "ys \<noteq> []"
  obtains k pre zs where "zs \<noteq> []" "length zs \<le> N ^ Suc h" "length ys = k * N ^ Suc h + length zs"
    "\<And>ws. length (zs @ ws) \<le> N ^ Suc h \<Longrightarrow> kids N h (ys @ ws) = pre @ [build N h (zs @ ws)]"
proof -
  let ?B = "N ^ Suc h"
  define k where "k = (length ys - 1) div ?B"
  have B: "0 < ?B" using assms by simp
  have "k * ?B \<le> length ys - 1" "length ys - 1 < Suc k * ?B"
    unfolding k_def using B by (auto simp: dividend_less_div_times)
  then have lb: "k * ?B < length ys" "length ys \<le> Suc k * ?B" using assms(2) by (cases ys; simp)+
  have ws: "kids N h (ys @ ws)
      = map (build N h) (chop ?B (take (k * ?B) ys)) @ [build N h (drop (k * ?B) ys @ ws)]"
    if "length (drop (k * ?B) ys @ ws) \<le> ?B" for ws
  proof -
    have "chop ?B (ys @ ws) = chop ?B (take (k * ?B) (ys @ ws)) @ [drop (k * ?B) (ys @ ws)]"
      using that lb by (intro chop_split_last B) auto
    then show ?thesis using lb by (simp add: kids_def del: power_Suc)
  qed
  show ?thesis
    using lb ws by (intro that [of "drop (k * ?B) ys" k]) auto
qed

text \<open>What one more block does to the counters.\<close>

lemma block_step:
  assumes "length ys + B \<le> M"
  shows "drop (M - length (ys @ take B xs)) (drop B xs) = drop (M - length ys) xs"
    and "(ys @ take B xs) @ take (M - length (ys @ take B xs)) (drop B xs) = ys @ take (M - length ys) xs"
    and "min B (length xs) + min (M - length (ys @ take B xs)) (length (drop B xs))
      = min (M - length ys) (length xs)"
proof -
  have *: "M - length ys = B + (M - length ys - B)" using assms by simp
  show "drop (M - length (ys @ take B xs)) (drop B xs) = drop (M - length ys) xs"
    using assms by (cases "B \<le> length xs") (auto simp: min_def)
  show "(ys @ take B xs) @ take (M - length (ys @ take B xs)) (drop B xs) = ys @ take (M - length ys) xs"
  proof (cases "B \<le> length xs")
    case True
    then have "take (M - length ys) xs = take B xs @ take (M - length ys - B) (drop B xs)"
      by (subst *) (simp only: take_add)
    with True show ?thesis by (simp add: min_def)
  next
    case False
    with assms show ?thesis by simp
  qed
  show "min B (length xs) + min (M - length (ys @ take B xs)) (length (drop B xs))
      = min (M - length ys) (length xs)"
    using assms by (cases "B \<le> length xs") (auto simp: min_def)
qed

section \<open>The loops\<close>

lemma extend_leaves_Nil [simp]: "extend_leaves N [] node c = ([], node, c)"
  by (subst extend_leaves.simps) simp

lemma extend_children_Nil [simp]: "extend_children N h [] node c = Some ([], node, c)"
  by (subst extend_children.simps) simp

lemma extend_leaves_kids:
  assumes "0 < N"
  shows "length ys = k * N \<Longrightarrow> k \<le> N \<Longrightarrow>
    extend_leaves N xs (kids N 0 ys) c
    = (drop (N * N - length ys) xs, kids N 0 (ys @ take (N * N - length ys) xs),
       c + min (N * N - length ys) (length xs))"
proof (induction "N - k" arbitrary: k ys xs c)
  case 0
  then have "k = N" by simp
  with 0 length_kids [OF assms, of ys N 0] show ?case
    by (subst extend_leaves.simps) simp
next
  case (Suc j)
  then have k: "k < N" by simp
  have len: "length (kids N 0 ys) = k" using Suc.prems assms by (intro length_kids) auto
  have room: "length ys + N \<le> N * N" using k Suc.prems(1)
    by (metis Suc_leI add.commute mult_Suc mult_le_mono1)
  show ?case
  proof (cases "xs = []")
    case False
    note step = block_step [OF room, of xs]
    have snoc: "kids N 0 ys @ [Leaf (take N xs)] = kids N 0 (ys @ take N xs)"
      using kids_snoc [OF assms, of ys k 0 "take N xs"] Suc.prems False assms by simp
    have unf: "extend_leaves N xs (kids N 0 ys) c
        = extend_leaves N (drop N xs) (kids N 0 (ys @ take N xs)) (c + min N (length xs))"
      using False k len snoc by (subst extend_leaves.simps) (simp add: Let_def min.commute)
    show ?thesis
    proof (cases "N \<le> length xs")
      case True
      have "extend_leaves N (drop N xs) (kids N 0 (ys @ take N xs)) (c + min N (length xs))
          = (drop (N * N - length (ys @ take N xs)) (drop N xs),
             kids N 0 ((ys @ take N xs) @ take (N * N - length (ys @ take N xs)) (drop N xs)),
             c + min N (length xs) + min (N * N - length (ys @ take N xs)) (length (drop N xs)))"
        by (rule Suc.hyps(1) [of "Suc k"]) (use Suc True in auto)
      with step unf show ?thesis by (simp add: add.assoc)
    next
      case short: False
      then show ?thesis using unf room by simp
    qed
  qed simp
qed

lemma extend_children_kids:
  fixes xs ys :: "'a list"
  assumes N: "0 < N"
    and child: "\<And>xs :: 'a list. extend_rec N (Suc g) xs []
      = Some (drop (N ^ Suc (Suc g)) xs, kids N g (take (N ^ Suc (Suc g)) xs),
              min (N ^ Suc (Suc g)) (length xs))"
  shows "length ys = k * N ^ Suc (Suc g) \<Longrightarrow> k \<le> N \<Longrightarrow>
    extend_children N (Suc (Suc g)) xs (kids N (Suc g) ys) c
    = Some (drop (N * N ^ Suc (Suc g) - length ys) xs,
            kids N (Suc g) (ys @ take (N * N ^ Suc (Suc g) - length ys) xs),
            c + min (N * N ^ Suc (Suc g) - length ys) (length xs))"
proof (induction "N - k" arbitrary: k ys xs c)
  case 0
  then have "k = N" by simp
  with 0 length_kids [OF N, of ys N "Suc g"] show ?case
    by (subst extend_children.simps) (simp del: power_Suc)
next
  case (Suc j)
  let ?B = "N ^ Suc (Suc g)"
  have k: "k < N" using Suc.hyps(2) by simp
  have B: "0 < ?B" using N by simp
  have len: "length (kids N (Suc g) ys) = k" by (rule length_kids [OF N Suc.prems(1)])
  have room: "length ys + ?B \<le> N * ?B" using k Suc.prems(1)
    by (metis Suc_leI add.commute mult_Suc mult_le_mono1)
  show ?case
  proof (cases "xs = []")
    case False
    note step = block_step [OF room, of xs]
    have snoc: "kids N (Suc g) ys @ [Interior (kids N g (take ?B xs))] = kids N (Suc g) (ys @ take ?B xs)"
      using kids_snoc [OF N Suc.prems(1), of "take ?B xs"] False B
      by (simp add: build_Suc_kids del: power_Suc build.simps)
    have unf: "extend_children N (Suc (Suc g)) xs (kids N (Suc g) ys) c
        = extend_children N (Suc (Suc g)) (drop ?B xs) (kids N (Suc g) (ys @ take ?B xs))
            (c + min ?B (length xs))"
      using False k len snoc child [of xs] by (subst extend_children.simps) (simp del: power_Suc)
    show ?thesis
    proof (cases "?B \<le> length xs")
      case True
      have "extend_children N (Suc (Suc g)) (drop ?B xs) (kids N (Suc g) (ys @ take ?B xs))
            (c + min ?B (length xs))
          = Some (drop (N * ?B - length (ys @ take ?B xs)) (drop ?B xs),
             kids N (Suc g) ((ys @ take ?B xs) @ take (N * ?B - length (ys @ take ?B xs)) (drop ?B xs)),
             c + min ?B (length xs) + min (N * ?B - length (ys @ take ?B xs)) (length (drop ?B xs)))"
        by (rule Suc.hyps(1) [of "Suc k"]) (use Suc True k in \<open>auto simp del: power_Suc\<close>)
      with step unf show ?thesis by (simp add: add.assoc del: power_Suc)
    next
      case short: False
      then show ?thesis using unf room by (simp del: power_Suc)
    qed
  qed simp
qed

text \<open>
  The common end of both branches: the last child has been filled with \<open>room\<close> items, and the
  loop \<open>L\<close> of the branch goes on from there.
\<close>

lemma after_fill:
  assumes len: "length ys = k * B + length zs" and zs: "zs \<noteq> []" "length zs \<le> B"
    and fit: "length ys \<le> N * B"
    and nil: "\<And>node c. L [] node c = Some ([], node, c)"
    and loop: "\<And>ys' xs' c. length ys' = Suc k * B \<Longrightarrow> Suc k \<le> N \<Longrightarrow>
      L xs' (K ys') c = Some (drop (N * B - length ys') xs', K (ys' @ take (N * B - length ys') xs'),
        c + min (N * B - length ys') (length xs'))"
  shows "L (drop (B - length zs) xs) (K (ys @ take (B - length zs) xs)) (min (B - length zs) (length xs))
    = Some (drop (N * B - length ys) xs, K (ys @ take (N * B - length ys) xs),
        min (N * B - length ys) (length xs))"
proof -
  let ?r = "B - length zs"
  have "0 < length zs" using zs by simp
  then have "k * B < N * B" using len fit by linarith
  then have k: "Suc k \<le> N" by simp
  then have "Suc k * B \<le> N * B" by (rule mult_le_mono1)
  then have room: "length ys + ?r \<le> N * B" using len zs by simp
  note step = block_step [OF room, of xs]
  show ?thesis
  proof (cases "?r \<le> length xs")
    case True
    then have "length (ys @ take ?r xs) = Suc k * B" using len zs by simp
    from loop [OF this k, of "drop ?r xs" "min ?r (length xs)"] step show ?thesis by simp
  next
    case False
    then show ?thesis using nil room by simp
  qed
qed

theorem extend_rec_kids:
  assumes N: "0 < N"
  shows "length ys \<le> N * N ^ Suc h \<Longrightarrow>
    extend_rec N (Suc h) xs (kids N h ys)
    = Some (drop (N * N ^ Suc h - length ys) xs, kids N h (ys @ take (N * N ^ Suc h - length ys) xs),
            min (N * N ^ Suc h - length ys) (length xs))"
proof (induction h arbitrary: xs ys)
  case 0
  show ?case
  proof (cases "ys = []")
    case True
    then show ?thesis
      using extend_leaves_kids [OF N, of "[]" 0 xs 0] by (subst extend_rec.simps) simp
  next
    case False
    obtain k pre zs where "zs \<noteq> []" "length zs \<le> N ^ Suc 0" "length ys = k * N ^ Suc 0 + length zs"
      and kids: "\<And>ws. length (zs @ ws) \<le> N ^ Suc 0 \<Longrightarrow>
        kids N 0 (ys @ ws) = pre @ [build N 0 (zs @ ws)]"
      using kids_last [OF N False, of 0] by metis
    then have zs: "zs \<noteq> []" "length zs \<le> N" and len: "length ys = k * N + length zs" by auto
    have k0: "kids N 0 ys = pre @ [Leaf zs]" using kids [of "[]"] zs by simp
    have k1: "kids N 0 (ys @ take (N - length zs) xs) = pre @ [Leaf (zs @ take (N - length zs) xs)]"
      using kids [of "take (N - length zs) xs"] zs by simp
    have "extend_rec N (Suc 0) xs (kids N 0 ys)
        = Some (extend_leaves N (drop (N - length zs) xs) (kids N 0 (ys @ take (N - length zs) xs))
            (min (N - length zs) (length xs)))"
      using zs by (subst extend_rec.simps) (simp add: k0 k1 Let_def min.commute)
    also have "\<dots> = Some (drop (N * N - length ys) xs, kids N 0 (ys @ take (N * N - length ys) xs),
        min (N * N - length ys) (length xs))"
    proof (rule after_fill [OF len zs, of N "\<lambda>it node c. Some (extend_leaves N it node c)" "kids N 0"])
      fix ys' xs' :: "'a list" and c
      assume "length ys' = Suc k * N" and "Suc k \<le> N"
      from extend_leaves_kids [OF N this]
      show "Some (extend_leaves N xs' (kids N 0 ys') c) = Some (drop (N * N - length ys') xs',
          kids N 0 (ys' @ take (N * N - length ys') xs'), c + min (N * N - length ys') (length xs'))"
        by simp
    qed (use 0 in simp_all)
    finally show ?thesis by simp
  qed
next
  case (Suc h)
  let ?B = "N ^ Suc (Suc h)"
  have child: "extend_rec N (Suc h) xs [] = Some (drop ?B xs, kids N h (take ?B xs), min ?B (length xs))"
    for xs :: "'a list"
    using Suc.IH [of "[]" xs] by simp
  note loop = extend_children_kids [OF N child]
  show ?case
  proof (cases "ys = []")
    case True
    then show ?thesis
      using loop [of "[]" 0 xs 0] by (subst extend_rec.simps) (simp del: power_Suc)
  next
    case False
    obtain k pre zs where zs: "zs \<noteq> []" "length zs \<le> ?B" and len: "length ys = k * ?B + length zs"
      and kids: "\<And>ws. length (zs @ ws) \<le> ?B \<Longrightarrow>
        kids N (Suc h) (ys @ ws) = pre @ [build N (Suc h) (zs @ ws)]"
      using kids_last [OF N False, of "Suc h"] by metis
    let ?r = "?B - length zs"
    have k0: "kids N (Suc h) ys = pre @ [Interior (kids N h zs)]"
      using kids [of "[]"] zs by (simp add: build_Suc_kids del: power_Suc build.simps)
    have k1: "kids N (Suc h) (ys @ take ?r xs) = pre @ [Interior (kids N h (zs @ take ?r xs))]"
      using kids [of "take ?r xs"] zs by (simp add: build_Suc_kids del: power_Suc build.simps)
    have ih: "extend_rec N (Suc h) xs (kids N h zs)
        = Some (drop ?r xs, kids N h (zs @ take ?r xs), min ?r (length xs))"
      using Suc.IH [of zs xs] zs by simp
    have "extend_rec N (Suc (Suc h)) xs (kids N (Suc h) ys)
        = extend_children N (Suc (Suc h)) (drop ?r xs) (kids N (Suc h) (ys @ take ?r xs))
            (min ?r (length xs))"
      using ih by (subst extend_rec.simps) (simp add: k0 k1 del: power_Suc)
    also have "\<dots> = Some (drop (N * ?B - length ys) xs, kids N (Suc h) (ys @ take (N * ?B - length ys) xs),
        min (N * ?B - length ys) (length xs))"
      by (rule after_fill [OF len zs Suc.prems, of "extend_children N (Suc (Suc h))" "kids N (Suc h)"])
         (rule extend_children_Nil, rule loop)
    finally show ?thesis .
  qed
qed

section \<open>The outer loop\<close>

text \<open>Vectors inside the loop: packed, but the root may have one child.\<close>

definition raw_vec :: "nat \<Rightarrow> nat \<Rightarrow> 'a list \<Rightarrow> 'a vector" where
  "raw_vec N h ys = \<lparr>vec_root = Some (build N h ys), vec_length = length ys, vec_height = h\<rparr>"

lemma raw_vec_mk_vec: "height_for_length N (length ys) = h \<Longrightarrow> raw_vec N h ys = mk_vec N ys"
  by (simp add: raw_vec_def mk_vec_def Let_def)

lemma add_level_raw_vec:
  "0 < N \<Longrightarrow> ys \<noteq> [] \<Longrightarrow> length ys \<le> N ^ Suc h \<Longrightarrow> add_level (raw_vec N h ys) = raw_vec N (Suc h) ys"
  by (simp add: add_level_def raw_vec_def build_single_child del: build.simps power_Suc)

text \<open>One round of the loop fills the tree at its present height.\<close>

lemma extend_round:
  assumes N: "valid_branching N" and "length ys \<le> N ^ Suc h" and "xs \<noteq> []"
  defines "m \<equiv> N ^ Suc h - length ys"
  shows "extend_loop N xs (raw_vec N h ys)
    = (let v1 = raw_vec N h (ys @ take m xs)
       in extend_loop N (drop m xs) (if drop m xs \<noteq> [] then add_level v1 else v1))"
proof (cases h)
  case 0
  then show ?thesis
    using assms(2,3) by (subst extend_loop.simps) (simp add: raw_vec_def m_def Let_def)
next
  case (Suc g)
  have "extend_rec N (Suc g) xs (kids N g ys)
      = Some (drop m xs, kids N g (ys @ take m xs), min m (length xs))"
    using extend_rec_kids [of N ys g xs] N assms(2) Suc by (simp add: m_def)
  then show ?thesis
    using assms(3) Suc
    by (subst extend_loop.simps)
       (simp add: raw_vec_def build_Suc_kids Let_def min.commute del: power_Suc build.simps)
qed

theorem extend_loop_raw_vec:
  assumes N: "valid_branching N"
  shows "length ys \<le> N ^ Suc h \<Longrightarrow> h = 0 \<or> N ^ h < length (ys @ xs) \<Longrightarrow> xs \<noteq> [] \<Longrightarrow>
    extend_loop N xs (raw_vec N h ys) = Some (mk_vec N (ys @ xs))"
proof (induction "length (ys @ xs) - h" arbitrary: h ys xs rule: less_induct)
  case less
  let ?m = "N ^ Suc h - length ys"
  let ?ys = "ys @ take ?m xs" and ?xs = "drop ?m xs"
  have pos: "0 < N ^ Suc h" using N by simp
  show ?case
  proof (cases "length xs \<le> ?m")
    case True
    then have "length (ys @ xs) \<le> N ^ Suc h" using less.prems(1) by (simp del: power_Suc)
    then have "height_for_length N (length (ys @ xs)) = h"
      using less.prems(2) by (intro height_for_length_eq N)
    then have "raw_vec N h (ys @ xs) = mk_vec N (ys @ xs)" by (rule raw_vec_mk_vec)
    with True extend_round [OF N less.prems(1,3)] show ?thesis
      by (simp add: Let_def extend_loop.simps del: power_Suc)
  next
    case False
    then have xs': "?xs \<noteq> []" and len: "length ?ys = N ^ Suc h"
      using less.prems(1) by (auto simp del: power_Suc)
    then have "?ys \<noteq> []" using pos by auto
    then have lvl: "add_level (raw_vec N h ?ys) = raw_vec N (Suc h) ?ys"
      using N len by (intro add_level_raw_vec) auto
    have "Suc h < N ^ Suc h"
      using valid_branching_ge2 [OF N] by (intro power_gt_expt) auto
    moreover have "N ^ Suc h < length (?ys @ ?xs)"
      using len xs' by (simp only: length_append) simp
    moreover have "length (?ys @ ?xs) = length (ys @ xs)" by simp
    ultimately have "length (?ys @ ?xs) - Suc h < length (ys @ xs) - h"
      and big: "N ^ Suc h < length (?ys @ ?xs)" by linarith+
    moreover have "length ?ys \<le> N ^ Suc (Suc h)"
      using len N by (simp add: power_increasing_iff Suc_le_eq)
    ultimately have "extend_loop N ?xs (raw_vec N (Suc h) ?ys) = Some (mk_vec N (?ys @ ?xs))"
      using xs' by (intro less.hyps) auto
    with xs' lvl extend_round [OF N less.prems(1,3)] show ?thesis
      by (simp add: Let_def del: power_Suc)
  qed
qed

lemma vec_extend_mk_vec:
  assumes N: "valid_branching N"
  shows "vec_extend N (mk_vec N ys) xs = Some (mk_vec N (ys @ xs))"
proof (cases "xs = []")
  case True
  then show ?thesis by (simp add: vec_extend_def mk_vec_def Let_def extend_loop.simps)
next
  case False
  let ?h = "height_for_length N (length ys)"
  have "mk_vec N ys = raw_vec N ?h ys" by (rule raw_vec_mk_vec [symmetric]) simp
  moreover have "?h = 0 \<or> N ^ ?h < length (ys @ xs)"
    using height_for_length_lower [OF N, of "length ys"] by (cases "?h = 0") auto
  then have "extend_loop N xs (raw_vec N ?h ys) = Some (mk_vec N (ys @ xs))"
    using False by (intro extend_loop_raw_vec N mk_vec_bound)
  ultimately show ?thesis by (simp add: vec_extend_def raw_vec_def)
qed

lemma vec_extend_new:
  assumes N: "valid_branching N"
  shows "vec_extend N vec_new xs = Some (if xs = [] then vec_new else mk_vec N xs)"
proof (cases "xs = []")
  case True
  then show ?thesis by (simp add: vec_extend_def extend_loop.simps)
next
  case False
  have "extend_loop N xs (raw_vec N 0 []) = Some (mk_vec N ([] @ xs))"
    using False by (intro extend_loop_raw_vec N) auto
  with False show ?thesis by (simp add: vec_extend_def vec_new_def raw_vec_def)
qed

end
