(* ===== verification/Sequence_Interface.thy ===== *)
theory Sequence_Interface
  imports Nickel_Prelude
begin

text \<open>
  What the evaluator relies on when it handles arrays and label paths: a sequence that is
  read by index, changed in place and grown or shrunk at its end. The locale \<open>sequence\<close>
  states the laws over an abstraction \<open>contents\<close> to lists; its lemmas follow a client through
  any run of operations. \<open>Vector\<close> and \<open>Slice\<close> both provide it.
\<close>

datatype 'a seq_op = Push 'a | Pop | Set nat 'a | Extend "'a list"

text \<open>A run of operations over an implementation, and over lists.\<close>

fun run_ops :: "('v \<Rightarrow> 'a \<Rightarrow> 'v panics) \<Rightarrow> ('v \<Rightarrow> ('a option \<times> 'v) panics) \<Rightarrow>
    ('v \<Rightarrow> nat \<Rightarrow> 'a \<Rightarrow> 'v panics) \<Rightarrow> ('v \<Rightarrow> 'a list \<Rightarrow> 'v panics) \<Rightarrow> 'v \<Rightarrow> 'a seq_op list \<Rightarrow> 'v panics" where
  "run_ops push pop upd ext v [] = Some v"
| "run_ops push pop upd ext v (Push x # ops) = do { v' \<leftarrow> push v x; run_ops push pop upd ext v' ops }"
| "run_ops push pop upd ext v (Pop # ops) = do { (_, v') \<leftarrow> pop v; run_ops push pop upd ext v' ops }"
| "run_ops push pop upd ext v (Set i x # ops) = do { v' \<leftarrow> upd v i x; run_ops push pop upd ext v' ops }"
| "run_ops push pop upd ext v (Extend xs # ops) = do { v' \<leftarrow> ext v xs; run_ops push pop upd ext v' ops }"

fun list_op :: "'a list \<Rightarrow> 'a seq_op \<Rightarrow> 'a list" where
  "list_op xs (Push x) = xs @ [x]"
| "list_op xs Pop = butlast xs"
| "list_op xs (Set i x) = xs[i := x]"
| "list_op xs (Extend ys) = xs @ ys"

fun ops_in_range :: "'a list \<Rightarrow> 'a seq_op list \<Rightarrow> bool" where
  "ops_in_range xs [] \<longleftrightarrow> True"
| "ops_in_range xs (op # ops) \<longleftrightarrow>
     (case op of Set i _ \<Rightarrow> i < length xs | _ \<Rightarrow> True) \<and> ops_in_range (list_op xs op) ops"

text \<open>How many elements a run adds at most.\<close>

fun growth :: "'a seq_op list \<Rightarrow> nat" where
  "growth [] = 0"
| "growth (Push x # ops) = Suc (growth ops)"
| "growth (Extend xs # ops) = length xs + growth ops"
| "growth (Pop # ops) = growth ops"
| "growth (Set i x # ops) = growth ops"

locale sequence =
  fixes contents :: "'v \<Rightarrow> 'a list"
    and invar :: "'v \<Rightarrow> bool"
    and room :: "'v \<Rightarrow> nat \<Rightarrow> bool"
    and empty :: 'v
    and len :: "'v \<Rightarrow> nat panics"
    and get :: "'v \<Rightarrow> nat \<Rightarrow> 'a option panics"
    and upd :: "'v \<Rightarrow> nat \<Rightarrow> 'a \<Rightarrow> 'v panics"
    and push :: "'v \<Rightarrow> 'a \<Rightarrow> 'v panics"
    and pop :: "'v \<Rightarrow> ('a option \<times> 'v) panics"
    and ext :: "'v \<Rightarrow> 'a list \<Rightarrow> 'v panics"
  assumes empty_law: "invar empty" "contents empty = []"
    and len_law: "invar v \<Longrightarrow> len v = Some (length (contents v))"
    and get_law: "invar v \<Longrightarrow> i < length (contents v) \<Longrightarrow> get v i = Some (Some (contents v ! i))"
    and upd_law: "invar v \<Longrightarrow> i < length (contents v) \<Longrightarrow>
      \<exists>v'. upd v i x = Some v' \<and> invar v' \<and> contents v' = (contents v)[i := x]
        \<and> (\<forall>n. room v n \<longrightarrow> room v' n)"
    and push_law: "invar v \<Longrightarrow> room v 1 \<Longrightarrow>
      \<exists>v'. push v x = Some v' \<and> invar v' \<and> contents v' = contents v @ [x]
        \<and> (\<forall>n. room v (Suc n) \<longrightarrow> room v' n)"
    and pop_law: "invar v \<Longrightarrow>
      \<exists>v'. pop v = Some (if contents v = [] then None else Some (last (contents v)), v')
        \<and> invar v' \<and> contents v' = butlast (contents v) \<and> (\<forall>n. room v n \<longrightarrow> room v' n)"
    and ext_law: "invar v \<Longrightarrow> room v (length xs) \<Longrightarrow>
      \<exists>v'. ext v xs = Some v' \<and> invar v' \<and> contents v' = contents v @ xs
        \<and> (\<forall>n. room v (length xs + n) \<longrightarrow> room v' n)"
    and room_law: "room v m \<Longrightarrow> n \<le> m \<Longrightarrow> room v n"
begin

lemma run_refines:
  "invar v \<Longrightarrow> ops_in_range (contents v) ops \<Longrightarrow> room v (growth ops) \<Longrightarrow>
    \<exists>v'. run_ops push pop upd ext v ops = Some v' \<and> invar v' \<and> contents v' = foldl list_op (contents v) ops"
proof (induction ops arbitrary: v)
  case Nil
  then show ?case by simp
next
  case (Cons op ops)
  have "\<exists>v'. run_ops push pop upd ext v (op # ops) = run_ops push pop upd ext v' ops
      \<and> invar v' \<and> contents v' = list_op (contents v) op \<and> room v' (growth ops)"
  proof (cases op)
    case (Push x)
    then have "room v 1" using Cons.prems(3) room_law [of v "growth (op # ops)" 1] by simp
    then show ?thesis using Push Cons.prems(3) push_law [OF Cons.prems(1), of x] by auto
  next
    case Pop
    then show ?thesis using Cons.prems(3) pop_law [OF Cons.prems(1)] by auto
  next
    case (Set i x)
    then show ?thesis using Cons.prems(2,3) upd_law [OF Cons.prems(1), of i x] by auto
  next
    case (Extend xs)
    then have "room v (length xs)" using Cons.prems(3) room_law by auto
    then show ?thesis using Extend Cons.prems(3) ext_law [OF Cons.prems(1), of xs] by auto
  qed
  then obtain v' where "run_ops push pop upd ext v (op # ops) = run_ops push pop upd ext v' ops"
    "invar v'" "contents v' = list_op (contents v) op" "room v' (growth ops)" by blast
  with Cons.IH [of v'] Cons.prems(2) show ?case by auto
qed

lemma push_pop_cancel:
  assumes "invar v" and "room v 1"
  shows "\<exists>v1 v2. push v x = Some v1 \<and> pop v1 = Some (Some x, v2) \<and> contents v2 = contents v"
proof -
  obtain v1 where v1: "push v x = Some v1" "invar v1" "contents v1 = contents v @ [x]"
    using push_law [OF assms] by blast
  from pop_law [OF v1(2)] obtain v2 where "pop v1 = Some (Some x, v2)" "contents v2 = contents v"
    using v1(3) by auto
  with v1 show ?thesis by blast
qed

lemma get_after_upd:
  assumes "invar v" and "i < length (contents v)" and "j < length (contents v)"
  shows "\<exists>v'. upd v i x = Some v' \<and> get v' j = (if j = i then Some (Some x) else get v j)"
proof -
  obtain v' where "upd v i x = Some v'" "invar v'" "contents v' = (contents v)[i := x]"
    using upd_law [OF assms(1,2)] by blast
  with assms show ?thesis by (auto simp: get_law)
qed

end

end
