(* ===== verification/Vector_Props.thy ===== *)
theory Vector_Props
  imports Vector_Invariant Vector_Iter Vector_Extend Sequence_Interface
begin

text \<open>
  The properties of the persistent vector: every operation of the source, on every
  well-formed vector, for every branching factor the source admits. The interpretations
  \<open>path_vec\<close> and \<open>array_vec\<close> are the two branching factors the evaluator uses, 4 for the type
  paths of labels and 32 for arrays.
\<close>

section \<open>Operations on well-formed vectors\<close>

lemma vec_set_wf:
  assumes N: "valid_branching N" and wf: "vec_wf N v" and i: "i < length (vec_list v)"
  shows "\<exists>v'. vec_set N v i x = Some v' \<and> vec_wf N v' \<and> vec_list v' = (vec_list v)[i := x]"
  using wf
proof (cases rule: vec_wf_cases)
  case (mk xs)
  then show ?thesis using N i by (simp add: vec_set_mk_vec)
qed (use i in simp)

lemma vec_push_wf:
  assumes N: "valid_branching N" and wf: "vec_wf N v"
  shows "\<exists>v'. vec_push N v x = Some v' \<and> vec_wf N v' \<and> vec_list v' = vec_list v @ [x]"
  using wf N by (cases rule: vec_wf_cases) (simp_all add: vec_push_new vec_push_mk_vec)

lemma vec_pop_wf:
  assumes N: "valid_branching N" and wf: "vec_wf N v"
  shows "\<exists>v'. vec_pop N v = Some (if vec_list v = [] then None else Some (last (vec_list v)), v')
    \<and> vec_wf N v' \<and> vec_list v' = butlast (vec_list v)"
proof (cases "vec_list v = []")
  case True
  then have "vec_is_empty v" using vec_length_list [OF wf] by (simp add: vec_is_empty_def)
  with True wf show ?thesis by (simp add: vec_pop_def)
next
  case False
  with wf N show ?thesis by (cases rule: vec_wf_cases) (simp_all add: vec_pop_mk_vec)
qed

lemma vec_truncate_wf:
  assumes N: "valid_branching N" and wf: "vec_wf N v"
  shows "\<exists>v'. vec_truncate N v len = Some v' \<and> vec_wf N v' \<and> vec_list v' = take len (vec_list v)"
proof (cases "len < length (vec_list v)")
  case True
  with wf N show ?thesis by (cases rule: vec_wf_cases) (simp_all add: vec_truncate_mk_vec)
next
  case False
  then show ?thesis using wf vec_length_list [OF wf] by (simp add: vec_truncate_def)
qed

lemma vec_extend_wf:
  assumes N: "valid_branching N" and wf: "vec_wf N v"
  shows "\<exists>v'. vec_extend N v xs = Some v' \<and> vec_wf N v' \<and> vec_list v' = vec_list v @ xs"
  using wf N by (cases rule: vec_wf_cases) (simp_all add: vec_extend_new vec_extend_mk_vec)

lemmas vec_wf_ops = vec_set_wf vec_push_wf vec_pop_wf vec_truncate_wf vec_extend_wf

lemma valid_branching_numerals [simp]:
  "valid_branching 2" "valid_branching 4" "valid_branching 32"
  by (simp_all add: valid_branching_def)

lemma vec_sequence:
  assumes N: "valid_branching N"
  shows "sequence vec_list (vec_wf N) (\<lambda>_ _. True) vec_new (\<lambda>v. Some (vec_len v))
    (vec_get N) (vec_set N) (vec_push N) (vec_pop N) (vec_extend N)"
  by unfold_locales
    (simp_all only: vec_wf_new vec_list_new vec_len_def vec_length_list vec_get_in_range [OF N]
      vec_set_wf [OF N] vec_push_wf [OF N] vec_pop_wf [OF N] vec_extend_wf [OF N] simp_thms)

interpretation path_vec: sequence vec_list "vec_wf 4" "\<lambda>_ _. True" vec_new "\<lambda>v. Some (vec_len v)"
  "vec_get 4" "vec_set 4" "vec_push 4" "vec_pop 4" "vec_extend 4"
  by (rule vec_sequence) simp

interpretation array_vec: sequence vec_list "vec_wf 32" "\<lambda>_ _. True" vec_new "\<lambda>v. Some (vec_len v)"
  "vec_get 32" "vec_set 32" "vec_push 32" "vec_pop 32" "vec_extend 32"
  by (rule vec_sequence) simp

section \<open>Properties\<close>

text \<open>
  C6. Any run of pushes, pops, in-range sets and extensions from a well-formed vector
  completes without a panic, keeps the vector well-formed, and changes its elements exactly
  as the same run changes a list.
\<close>

theorem vec_run_refines:
  assumes "valid_branching N" and "vec_wf N v" and "ops_in_range (vec_list v) ops"
  shows "\<exists>v'. run_ops (vec_push N) (vec_pop N) (vec_set N) (vec_extend N) v ops = Some v'
    \<and> vec_wf N v' \<and> vec_list v' = foldl list_op (vec_list v) ops"
  by (rule sequence.run_refines [OF vec_sequence]) (use assms in simp_all)

theorem vec_run_refines_witness:
  "\<exists>v'. run_ops (vec_push 2) (vec_pop 2) (vec_set 2) (vec_extend 2) vec_new
      [Extend [1, 2, 3, 4, 5 :: nat], Pop, Set 3 9, Push 7] = Some v'
    \<and> vec_wf 2 v' \<and> vec_list v' = [1, 2, 3, 9, 7]"
  using vec_run_refines [of 2 vec_new "[Extend [1, 2, 3, 4, 5 :: nat], Pop, Set 3 9, Push 7]"]
  by simp

text \<open>
  \<open>get\<close> on a well-formed vector never panics and reads the index modulo \<open>N ^ (height + 1)\<close>:
  in range it returns the element, and an index that is out of bounds but below the capacity of
  the tree gives \<open>None\<close>.
\<close>

theorem vec_get_reads_modulo_capacity:
  assumes "valid_branching N" and "vec_wf N v"
  shows "vec_get N v idx = Some (chunk_get (vec_list v) (idx mod N ^ Suc (vec_height v)))
    \<and> (idx < N ^ Suc (vec_height v) \<longrightarrow>
      vec_get N v idx = Some (if idx < length (vec_list v) then Some (vec_list v ! idx) else None))"
  using vec_get_spec [OF assms] by (simp add: chunk_get_def del: power_Suc)

theorem vec_get_reads_modulo_capacity_witness:
  "\<exists>v. vec_push 2 vec_new (7 :: nat) = Some v \<and> vec_get 2 v 0 = Some (Some 7) \<and> vec_get 2 v 1 = Some None"
proof -
  have N: "valid_branching 2" by simp
  obtain v where v: "vec_push 2 vec_new (7 :: nat) = Some v" "vec_wf 2 v" "vec_list v = [7]"
    using vec_push_wf [OF N vec_wf_new, of 7] by auto
  have "vec_height v = 0" using v(1) N by (auto simp: vec_push_new mk_vec_def Let_def height_for_length_def)
  then show ?thesis using v vec_get_reads_modulo_capacity [OF N v(2)]
    by (simp add: chunk_get_def)
qed

text \<open>
  The documentation of \<open>get\<close> promises \<open>None\<close> for every index out of bounds. An index at or
  past the capacity of the tree is reduced by the bit mask instead: in a vector of one element
  with branching factor 2, \<open>get(2)\<close> returns that element.
\<close>

theorem vec_get_out_of_bounds_some:
  "\<exists>v. vec_push 2 vec_new (7 :: nat) = Some v \<and> vec_len v = 1 \<and> vec_get 2 v 2 = Some (Some 7)"
proof -
  have N: "valid_branching 2" by simp
  have v: "vec_push 2 vec_new (7 :: nat) = Some (mk_vec 2 [7])" by (rule vec_push_new [OF N])
  have "vec_height (mk_vec 2 [7 :: nat]) = 0" by (simp add: mk_vec_def Let_def height_for_length_def)
  then have "vec_get 2 (mk_vec 2 [7 :: nat]) 2 = Some (Some 7)"
    using vec_get_spec [OF N, of "mk_vec 2 [7 :: nat]" 2] N by (simp add: chunk_get_def)
  moreover have "vec_len (mk_vec 2 [7 :: nat]) = 1" by (simp add: vec_len_def mk_vec_def Let_def)
  ultimately show ?thesis using v by blast
qed

text \<open>
  \<open>truncate\<close> keeps exactly the first \<open>len\<close> elements, at the right height, and does nothing
  when \<open>len\<close> is not below the length.
\<close>

theorem vec_truncate_takes_prefix:
  assumes "valid_branching N" and "vec_wf N v"
  shows "\<exists>v'. vec_truncate N v len = Some v' \<and> vec_wf N v' \<and> vec_list v' = take len (vec_list v)
    \<and> (length (vec_list v) \<le> len \<longrightarrow> v' = v)"
  using vec_truncate_wf [OF assms, of len] vec_length_list [OF assms(2)]
  by (auto simp: vec_truncate_def)

theorem vec_truncate_takes_prefix_witness:
  "\<exists>v v'. vec_from_iter 2 [1, 2, 3, 4, 5 :: nat] = Some v \<and> vec_truncate 2 v 3 = Some v'
    \<and> vec_wf 2 v' \<and> vec_list v' = [1, 2, 3]"
proof -
  have N: "valid_branching 2" by simp
  obtain v where v: "vec_from_iter 2 [1, 2, 3, 4, 5 :: nat] = Some v" "vec_wf 2 v"
    "vec_list v = [1, 2, 3, 4, 5]"
    using vec_extend_wf [OF N vec_wf_new] unfolding vec_from_iter_def by fastforce
  with vec_truncate_takes_prefix [OF N v(2), of 3] show ?thesis by auto
qed

text \<open>
  Collecting an iterator into a vector and draining the vector's iterator gives the items
  back in order; both loops terminate without a panic.
\<close>

theorem vec_from_iter_round_trip:
  assumes "valid_branching N"
  shows "\<exists>v it. vec_from_iter N xs = Some v \<and> vec_wf N v \<and> vec_len v = length xs
    \<and> vec_iter v = Some it \<and> iter_collect it = Some xs"
proof -
  obtain v where v: "vec_from_iter N xs = Some v" "vec_wf N v" "vec_list v = xs"
    using vec_extend_wf [OF assms vec_wf_new, of xs] by (auto simp: vec_from_iter_def)
  obtain it where "vec_iter v = Some it" "iter_ok it" "iter_rest it = xs"
    using vec_iter_ok [OF assms v(2)] v(3) by auto
  with v iter_collect_ok [of it] vec_length_list [OF v(2)] show ?thesis by (simp add: vec_len_def)
qed

theorem vec_from_iter_round_trip_witness:
  "\<exists>v it. vec_from_iter 4 ''nickel'' = Some v \<and> vec_wf 4 v \<and> vec_len v = 6
    \<and> vec_iter v = Some it \<and> iter_collect it = Some ''nickel''"
proof -
  have "length ''nickel'' = 6" by simp
  then show ?thesis using vec_from_iter_round_trip [of 4 "''nickel''"] by (simp only: valid_branching_numerals)
qed

text \<open>
  \<open>iter_starting_at\<close> and \<open>into_iter_starting_at\<close> panic exactly when the index is past the
  length, and otherwise yield the elements from that index on.
\<close>

theorem vec_iter_starting_at_drops:
  assumes "valid_branching N" and "vec_wf N v"
  shows "(if idx \<le> length (vec_list v)
     then \<exists>it. iter_starting_at N v idx = Some it \<and> into_iter_starting_at N v idx = Some it
       \<and> iter_collect it = Some (drop idx (vec_list v))
     else iter_starting_at N v idx = None \<and> into_iter_starting_at N v idx = None)"
proof (cases "idx \<le> length (vec_list v)")
  case True
  then show ?thesis using iter_starting_at_ok [OF assms True] iter_collect_ok by fastforce
next
  case False
  then show ?thesis
    using vec_length_list [OF assms(2)]
    by (simp add: iter_starting_at_def into_iter_starting_at_def vec_len_def)
qed

theorem vec_iter_starting_at_drops_witness:
  "\<exists>v it. vec_from_iter 2 [1, 2, 3, 4, 5 :: nat] = Some v \<and> iter_starting_at 2 v 3 = Some it
    \<and> iter_collect it = Some [4, 5] \<and> iter_starting_at 2 v 6 = None"
proof -
  have N: "valid_branching 2" by simp
  obtain v where v: "vec_from_iter 2 [1, 2, 3, 4, 5 :: nat] = Some v" "vec_wf 2 v"
    "vec_list v = [1, 2, 3, 4, 5]"
    using vec_extend_wf [OF N vec_wf_new] unfolding vec_from_iter_def by fastforce
  with vec_iter_starting_at_drops [OF N v(2), of 3] vec_iter_starting_at_drops [OF N v(2), of 6]
  show ?thesis by auto
qed

text \<open>
  C20. The invariant is the documented one: a vector is well-formed if and only if it is empty or
  its tree is packed to the left (every child but the last complete), its cached length is the
  number of elements and its height is the least one that fits. Every well-formed vector passes
  \<open>check_invariants\<close>.
\<close>

theorem vec_wf_iff_packed:
  assumes "valid_branching N"
  shows "(vec_wf N v \<longleftrightarrow>
      (case vec_root v of
         None \<Rightarrow> vec_length v = 0 \<and> vec_height v = 0
       | Some root \<Rightarrow> vec_length v = node_len root \<and> vec_height v = height_for_length N (vec_length v)
           \<and> (root = Leaf [] \<or> packed N (vec_height v) root)))
    \<and> (vec_wf N v \<longrightarrow> check_invariants N v)"
proof -
  have eq: "root = build N (vec_height v) (node_list root)
      \<longleftrightarrow> root = Leaf [] \<or> packed N (vec_height v) root"
    if h: "vec_height v = height_for_length N (length (node_list root))" for root
  proof (cases "node_list root = []")
    case True
    then have "vec_height v = 0" using h assms by simp
    moreover have "\<not> packed N (vec_height v) root" using packed_imp_build [of N "vec_height v" root] True assms by auto
    ultimately show ?thesis using True by simp
  next
    case False
    have b: "length (node_list root) \<le> N ^ Suc (vec_height v)"
      using height_for_length_upper [OF assms] h by simp
    show ?thesis
      using False packed_build [OF _ False b] packed_imp_build [of N "vec_height v" root] assms
      by (metis node_list.simps(1) valid_branching_pos)
  qed
  have "vec_wf N v \<longleftrightarrow>
      (case vec_root v of
         None \<Rightarrow> vec_length v = 0 \<and> vec_height v = 0
       | Some root \<Rightarrow> vec_length v = node_len root \<and> vec_height v = height_for_length N (vec_length v)
           \<and> (root = Leaf [] \<or> packed N (vec_height v) root))"
  proof (cases "vec_root v")
    case None
    then show ?thesis by (simp add: vec_wf_def)
  next
    case (Some root)
    show ?thesis
      unfolding vec_wf_def Some option.case node_len_list
      using eq [of root] by (intro conj_cong refl) simp
  qed
  then show ?thesis using check_invariants_wf [OF assms] by blast
qed

theorem vec_wf_iff_packed_witness:
  "\<exists>v. vec_from_iter 2 [1, 2, 3 :: nat] = Some v \<and> check_invariants 2 v
    \<and> (\<exists>root. vec_root v = Some root \<and> (root = Leaf [] \<or> packed 2 (vec_height v) root))"
proof -
  have N: "valid_branching 2" by simp
  have v: "vec_from_iter 2 [1, 2, 3 :: nat] = Some (mk_vec 2 [1, 2, 3])"
    by (simp add: vec_from_iter_def vec_extend_new [OF N])
  have wf: "vec_wf 2 (mk_vec 2 [1, 2, 3 :: nat])" by simp
  obtain root where root: "vec_root (mk_vec 2 [1, 2, 3 :: nat]) = Some root"
    by (simp add: mk_vec_def Let_def)
  show ?thesis
    using v wf root vec_wf_iff_packed [OF N, of "mk_vec 2 [1, 2, 3 :: nat]", unfolded root option.case]
    by blast
qed

text \<open>
  \<open>check_invariants\<close> is weaker than the invariant its comment states: its recursion treats
  the last child of a node that is not right-most as right-most. It accepts a vector of length 5
  with a hole, on which \<open>get(3)\<close> returns \<open>None\<close>.
\<close>

theorem check_invariants_accepts_hole:
  "\<exists>v :: nat vector. check_invariants 2 v \<and> vec_len v = 5 \<and> \<not> vec_wf 2 v \<and> vec_get 2 v 3 = Some None"
proof -
  define v :: "nat vector" where "v = \<lparr>vec_root = Some (Interior
      [Interior [Leaf [1, 2], Leaf [3]], Interior [Leaf [4, 5]]]), vec_length = 5, vec_height = 2\<rparr>"
  have h: "height_for_length 2 5 = 2" unfolding height_for_length_def by code_simp
  have get: "vec_get 2 v 3 = Some None"
    unfolding v_def by code_simp
  have "check_invariants 2 v"
    using h by (simp add: v_def check_invariants_def is_packed_def vec_len_def)
  moreover have "\<not> vec_wf 2 v"
    using get vec_get_in_range [of 2 v 3] by (auto simp: v_def vec_list_def)
  ultimately show ?thesis using get by (auto simp: v_def vec_len_def)
qed

text \<open>
  The bounds behind the arithmetic at machine width (\<open>Vector_Width\<close>): with \<open>N * n < 2 ^ 64\<close> the
  capacity one level above the leaves of the root fits in a \<open>usize\<close> and so do all shifts.
\<close>

lemma vec_capacity_bounds:
  assumes "valid_branching N" and "vec_wf N v" and "N * vec_len v < usize_limit"
  shows "ilog 2 N * (vec_height v + 1) < 64 \<and> N ^ (vec_height v + 1) < usize_limit \<and> vec_height v < 64"
proof -
  obtain k where k: "0 < k" "N = 2 ^ k" using valid_branching_cases [OF assms(1)] .
  have "N < usize_limit" using assms(1) by (auto simp: valid_branching_def usize_limit_def)
  moreover have "0 < vec_height v \<Longrightarrow> N ^ vec_height v < vec_len v"
    using assms(2) height_for_length_lower [OF assms(1), of "vec_length v"]
    by (auto simp: vec_wf_def vec_len_def split: option.splits)
  then have "0 < vec_height v \<Longrightarrow> N * N ^ vec_height v \<le> N * vec_len v" by simp
  then have "0 < vec_height v \<Longrightarrow> N ^ (vec_height v + 1) < usize_limit"
    using assms(3) unfolding Suc_eq_plus1 [symmetric] power_Suc by linarith
  ultimately have cap: "N ^ (vec_height v + 1) < usize_limit" by (cases "vec_height v = 0") auto
  then have "(2::nat) ^ (k * (vec_height v + 1)) < 2 ^ 64"
    by (simp add: k(2) usize_limit_def power_mult power_add)
  then have lt: "k * (vec_height v + 1) < 64" by (simp only: power_strict_increasing_iff)
  have sh: "k * vec_height v < 64" using lt by simp
  have "vec_height v \<le> k * vec_height v" using k(1) by simp
  with sh have "vec_height v < 64" by linarith
  with lt cap k(2) show ?thesis by (simp add: ilog_2_power)
qed

end
