(* ===== verification/Vector_Width.thy ===== *)
theory Vector_Width
  imports Vector_Props
begin

unbundle bit_operations_syntax

text \<open>
  The arithmetic of \<open>vector/src/vector.rs\<close> at the width of its machine types: an index and a length
  are a \<open>usize\<close> (64 bits), a height a \<open>u8\<close>. An overflowing sum or power, a shift by 64 bits or
  more and a conversion that does not fit are panics, as in a checked build. \<open>Persistent_Vector\<close> computes
  with natural numbers; here its operations are shown to be what the machine types compute, as long
  as \<open>N\<close> times the length fits in a \<open>usize\<close>.
\<close>

section \<open>Model\<close>

type_synonym usize = "64 word"
type_synonym u8 = "8 word"

text \<open>\<open>N.pow(e)\<close>, \<open>a + b\<close> and \<open>idx >> s\<close> on machine integers.\<close>

definition pow_usize :: "nat \<Rightarrow> nat \<Rightarrow> usize panics" where
  "pow_usize N e = (if N ^ e < usize_limit then Some (of_nat (N ^ e)) else None)"

definition add_word :: "'w::len word \<Rightarrow> 'w word \<Rightarrow> 'w word panics" where
  "add_word a b = (if a \<le> a + b then Some (a + b) else None)"

definition shr_usize :: "usize \<Rightarrow> nat \<Rightarrow> usize panics" where
  "shr_usize a s = (if s < 64 then Some (drop_bit s a) else None)"

text \<open>The product of \<open>N.ilog2()\<close> and a \<open>u8\<close> is at most \<open>63 * 255\<close>, so the \<open>u32\<close> product does not wrap.\<close>

definition extract_index_usize :: "nat \<Rightarrow> usize \<Rightarrow> u8 \<Rightarrow> usize panics" where
  "extract_index_usize N idx height =
     do {
       shifted \<leftarrow> shr_usize idx (ilog 2 N * unat height);
       Some (shifted AND (of_nat N - 1))
     }"

lemma unat_height_decreases: "(height :: u8) \<noteq> 0 \<Longrightarrow> unat (height - 1) < unat height"
  using unat_gt_0 [of height] by (simp add: unat_minus_one del: unat_gt_0)

lemma u8_not_less_1 [simp]: "(height :: u8) < 1 \<longleftrightarrow> height = 0"
  by (rule word_less_1)

function (sequential) node_get_usize :: "nat \<Rightarrow> u8 \<Rightarrow> usize \<Rightarrow> 'a vnode \<Rightarrow> 'a option panics" where
  "node_get_usize N height idx (Leaf data) =
     (if height = 0 then Some (chunk_get data (unat (idx AND (of_nat N - 1)))) else None)"
| "node_get_usize N height idx (Interior children) =
     do {
       bucket_idx \<leftarrow> extract_index_usize N idx height;
       if unat bucket_idx < length children
       then (if height = 0 then None
             else node_get_usize N (height - 1) idx (children ! unat bucket_idx))
       else Some None
     }"
  by pat_completeness auto

termination node_get_usize
  by (relation "measure (\<lambda>(_, height, _, _). unat height)") (auto simp: unat_height_decreases)

function (sequential) node_set_usize :: "nat \<Rightarrow> u8 \<Rightarrow> usize \<Rightarrow> 'a \<Rightarrow> 'a vnode \<Rightarrow> 'a vnode panics" where
  "node_set_usize N height idx elt (Leaf data) =
     (let i = unat (idx AND (of_nat N - 1))
      in do {
        assert_ok (height = 0);
        assert_ok (i \<le> length data);
        if i < length data then Some (Leaf (data[i := elt]))
        else do { data' \<leftarrow> chunk_push_back N data elt; Some (Leaf data') }
      })"
| "node_set_usize N height idx elt (Interior children) =
     do {
       bucket_idx \<leftarrow> extract_index_usize N idx height;
       if height < 1 then None
       else if \<not> unat bucket_idx \<le> length children then None
       else if unat bucket_idx < length children
       then do {
         child \<leftarrow> node_set_usize N (height - 1) idx elt (children ! unat bucket_idx);
         Some (Interior (children[unat bucket_idx := child]))
       }
       else do {
         children' \<leftarrow> chunk_push_back N children (wrap_child (unat height - 1) (Leaf [elt]));
         Some (Interior children')
       }
     }"
  by pat_completeness auto

termination node_set_usize
  by (relation "measure (\<lambda>(_, height, _, _, _). unat height)") (auto simp: unat_height_decreases)

function (sequential) node_truncate_usize :: "nat \<Rightarrow> u8 \<Rightarrow> usize \<Rightarrow> 'a vnode \<Rightarrow> 'a vnode panics" where
  "node_truncate_usize N height len (Leaf data) =
     do { assert_ok (height = 0); data' \<leftarrow> chunk_drop_right data (unat len); Some (Leaf data') }"
| "node_truncate_usize N height len (Interior children) =
     do {
       max_child_len \<leftarrow> pow_usize N (unat height);
       let num_full_children = len div max_child_len;
       let extra = len mod max_child_len;
       if extra > 0
       then do {
         kept \<leftarrow> add_word num_full_children 1;
         children' \<leftarrow> chunk_drop_right children (unat kept);
         if height = 0 then None
         else do {
           child \<leftarrow> node_truncate_usize N (height - 1) extra (children' ! unat num_full_children);
           Some (Interior (children'[unat num_full_children := child]))
         }
       }
       else do {
         children' \<leftarrow> chunk_drop_right children (unat num_full_children);
         Some (Interior children')
       }
     }"
  by pat_completeness auto

termination node_truncate_usize
  by (relation "measure (\<lambda>(_, height, _, _). unat height)") (auto simp: unat_height_decreases)

record 'a vector_usize =
  uvec_root :: "'a vnode option"
  uvec_length :: usize
  uvec_height :: u8

text \<open>\<open>ilog\<close> answers a \<open>u32\<close>; the conversion to \<open>u8\<close> panics from 256 on.\<close>

definition height_for_length_u8 :: "nat \<Rightarrow> usize \<Rightarrow> u8 panics" where
  "height_for_length_u8 N len =
     (let saturated = (if len = 0 then 0 else len - 1);
          h = ilog N (unat (max saturated 1))
      in if h < 256 then Some (of_nat h) else None)"

definition vec_is_full_usize :: "nat \<Rightarrow> 'a vector_usize \<Rightarrow> bool panics" where
  "vec_is_full_usize N v =
     (if uvec_root v = None then Some True
      else do {
        capacity \<leftarrow> pow_usize N (unat (uvec_height v) + 1);
        Some (uvec_length v = capacity)
      })"

definition vec_get_usize :: "nat \<Rightarrow> 'a vector_usize \<Rightarrow> usize \<Rightarrow> 'a option panics" where
  "vec_get_usize N v idx =
     (case uvec_root v of None \<Rightarrow> Some None | Some r \<Rightarrow> node_get_usize N (uvec_height v) idx r)"

definition vec_set_usize :: "nat \<Rightarrow> 'a vector_usize \<Rightarrow> usize \<Rightarrow> 'a \<Rightarrow> 'a vector_usize panics" where
  "vec_set_usize N v idx elt =
     (if idx \<ge> uvec_length v then None
      else (case uvec_root v of
              None \<Rightarrow> Some v
            | Some root \<Rightarrow> do {
                root' \<leftarrow> node_set_usize N (uvec_height v) idx elt root;
                Some (v\<lparr>uvec_root := Some root'\<rparr>)
              }))"

definition add_level_usize :: "'a vector_usize \<Rightarrow> 'a vector_usize panics" where
  "add_level_usize v =
     (case uvec_root v of
        None \<Rightarrow> Some (v\<lparr>uvec_root := Some (Leaf [])\<rparr>)
      | Some root \<Rightarrow> do {
          height \<leftarrow> add_word (uvec_height v) 1;
          Some (v\<lparr>uvec_root := Some (Interior [root]), uvec_height := height\<rparr>)
        })"

definition vec_push_usize :: "nat \<Rightarrow> 'a vector_usize \<Rightarrow> 'a \<Rightarrow> 'a vector_usize panics" where
  "vec_push_usize N v elt =
     do {
       full \<leftarrow> vec_is_full_usize N v;
       v1 \<leftarrow> (if full then add_level_usize v else Some v);
       let idx = uvec_length v1;
       root \<leftarrow> uvec_root v1;
       root' \<leftarrow> node_set_usize N (uvec_height v1) idx elt root;
       len \<leftarrow> add_word (uvec_length v1) 1;
       Some (v1\<lparr>uvec_root := Some root', uvec_length := len\<rparr>)
     }"

definition vec_truncate_usize :: "nat \<Rightarrow> 'a vector_usize \<Rightarrow> usize \<Rightarrow> 'a vector_usize panics" where
  "vec_truncate_usize N v len =
     (if len \<ge> uvec_length v then Some v
      else do {
        new_height \<leftarrow> height_for_length_u8 N len;
        v1 \<leftarrow> (if new_height < uvec_height v
               then do {
                 root \<leftarrow> uvec_root v;
                 new_root \<leftarrow> descend_first (unat (uvec_height v) - unat new_height) root;
                 Some (v\<lparr>uvec_root := Some new_root, uvec_height := new_height\<rparr>)
               }
               else Some v);
        root \<leftarrow> uvec_root v1;
        root' \<leftarrow> node_truncate_usize N (uvec_height v1) len root;
        Some (v1\<lparr>uvec_root := Some root', uvec_length := len\<rparr>)
      })"

text \<open>The machine representation of a vector of \<open>Persistent_Vector\<close>.\<close>

definition vec_usize :: "'a vector \<Rightarrow> 'a vector_usize" where
  "vec_usize v = \<lparr>uvec_root = vec_root v, uvec_length = of_nat (vec_length v), uvec_height = of_nat (vec_height v)\<rparr>"

section \<open>Words and naturals\<close>

lemma unat_usize [simp]: "n < usize_limit \<Longrightarrow> unat (of_nat n :: usize) = n"
  by (simp add: usize_limit_def unat_of_nat take_bit_nat_eq_self)

lemma unat_u8 [simp]: "n < 256 \<Longrightarrow> unat (of_nat n :: u8) = n"
  by (simp add: unat_of_nat take_bit_nat_eq_self)

lemma of_nat_usize_eq_iff [simp]:
  "m < usize_limit \<Longrightarrow> n < usize_limit \<Longrightarrow> (of_nat m :: usize) = of_nat n \<longleftrightarrow> m = n"
  by (metis unat_usize)

lemma unat_less_usize [simp]: "unat (w :: usize) < usize_limit"
  using unsigned_less [of w] by (simp add: usize_limit_def)

lemma usize_cases: obtains n where "(w :: usize) = of_nat n" and "n < usize_limit"
  by (metis unat_less_usize word_unat_eq_iff unat_usize)

lemma add_word_Some:
  assumes "unat a + unat b < 2 ^ LENGTH('w)"
  shows "add_word (a :: 'w::len word) b = Some (a + b)"
proof -
  have "unat (a + b) = unat a + unat b" using assms by (simp add: unat_word_ariths take_bit_nat_eq_self)
  then show ?thesis by (simp add: add_word_def word_le_nat_alt)
qed

lemma mask_usize:
  assumes "valid_branching N" and "idx < usize_limit"
  shows "unat ((of_nat idx :: usize) AND (of_nat N - 1)) = idx AND (N - 1)"
proof -
  have N: "0 < N" "N - 1 < usize_limit" using assms(1) by (auto simp: valid_branching_def usize_limit_def)
  then have eq: "(of_nat N - 1 :: usize) = of_nat (N - 1)" by (simp add: of_nat_diff)
  show ?thesis unfolding eq using N assms(2) by (simp add: unsigned_and_eq del: of_nat_diff)
qed

lemma pow_usize_Some: "N ^ e < usize_limit \<Longrightarrow> pow_usize N e = Some (of_nat (N ^ e))"
  by (simp add: pow_usize_def)

section \<open>The operations compute what the machine types compute\<close>

lemma extract_index_usize_Some:
  assumes "valid_branching N" and "idx < usize_limit" and "ilog 2 N * h < 64" and "h < 256"
  shows "\<exists>i. extract_index_usize N (of_nat idx) (of_nat h) = Some i \<and> unat i = extract_index N idx h"
proof -
  have "drop_bit (ilog 2 N * h) idx \<le> idx" by (simp add: drop_bit_eq_div)
  then have lim: "drop_bit (ilog 2 N * h) idx < usize_limit" using assms(2) by linarith
  have "unat (drop_bit (ilog 2 N * h) (of_nat idx :: usize)) = drop_bit (ilog 2 N * h) idx"
    using assms(2) by (simp add: unsigned_drop_bit_eq usize_limit_def unat_of_nat take_bit_nat_eq_self)
  then have "drop_bit (ilog 2 N * h) (of_nat idx :: usize) = of_nat (drop_bit (ilog 2 N * h) idx)"
    using lim by (simp add: word_unat_eq_iff)
  then show ?thesis
    using assms(3,4) mask_usize [OF assms(1) lim]
    by (simp add: extract_index_usize_def shr_usize_def extract_index_def)
qed

lemma of_nat_u8_eq_0 [simp]: "h < 256 \<Longrightarrow> (of_nat h :: u8) = 0 \<longleftrightarrow> h = 0"
  using unat_u8 [of h] by (auto simp del: unat_u8)

lemma of_nat_u8_pred: "0 < h \<Longrightarrow> (of_nat h - 1 :: u8) = of_nat (h - 1)"
  by (simp add: of_nat_diff)

lemma shift_mono: "k * h < (64 :: nat) \<Longrightarrow> k * (h - 1) < 64"
  by (rule le_less_trans [OF mult_le_mono2 [OF diff_le_self]])

lemma node_get_usize_eq:
  assumes "valid_branching N" and "idx < usize_limit" and "ilog 2 N * h < 64" and "h < 256"
  shows "node_get_usize N (of_nat h) (of_nat idx) n = node_get N h idx n"
  using assms(3,4)
proof (induction n arbitrary: h)
  case (Leaf data)
  then show ?case using mask_usize [OF assms(1,2)] by simp
next
  case (Interior children)
  obtain i where i: "extract_index_usize N (of_nat idx) (of_nat h) = Some i" "unat i = extract_index N idx h"
    using extract_index_usize_Some [OF assms(1,2) Interior.prems] by blast
  have "node_get_usize N (of_nat (h - 1)) (of_nat idx) (children ! unat i)
      = node_get N (h - 1) idx (children ! unat i)" if "unat i < length children"
    using Interior.prems that by (intro Interior.IH shift_mono nth_mem) simp_all
  with i Interior.prems show ?case by (cases "h = 0") (simp_all add: Let_def of_nat_u8_pred del: of_nat_diff)
qed

lemma node_set_usize_eq:
  assumes "valid_branching N" and "idx < usize_limit" and "ilog 2 N * h < 64" and "h < 256"
  shows "node_set_usize N (of_nat h) (of_nat idx) elt n = node_set N h idx elt n"
  using assms(3,4)
proof (induction n arbitrary: h)
  case (Leaf data)
  then show ?case using mask_usize [OF assms(1,2)] by simp
next
  case (Interior children)
  obtain i where i: "extract_index_usize N (of_nat idx) (of_nat h) = Some i" "unat i = extract_index N idx h"
    using extract_index_usize_Some [OF assms(1,2) Interior.prems] by blast
  have "node_set_usize N (of_nat (h - 1)) (of_nat idx) elt (children ! unat i)
      = node_set N (h - 1) idx elt (children ! unat i)" if "unat i < length children"
    using Interior.prems that by (intro Interior.IH shift_mono nth_mem) simp_all
  with i Interior.prems show ?case by (cases "h = 0") (simp_all add: Let_def of_nat_u8_pred del: of_nat_diff)
qed

lemma add_word_usize: "Suc n < usize_limit \<Longrightarrow> add_word (of_nat n :: usize) 1 = Some (of_nat (Suc n))"
  using add_word_Some [of "of_nat n :: usize" 1] by (simp add: usize_limit_def unat_of_nat take_bit_nat_eq_self)

lemma div_usize:
  assumes "m < usize_limit" and "n < usize_limit"
  shows "(of_nat m :: usize) div of_nat n = of_nat (m div n)" and "(of_nat m :: usize) mod of_nat n = of_nat (m mod n)"
  using assms by (simp_all add: word_unat_eq_iff unat_div unat_mod le_less_trans [OF div_le_dividend] le_less_trans [OF mod_less_eq_dividend])

lemma power_mono_limit: "0 < N \<Longrightarrow> N ^ h < usize_limit \<Longrightarrow> N ^ (h - 1) < usize_limit"
  by (rule le_less_trans [OF power_increasing [of "h - 1" h N]]) simp_all

lemma node_truncate_usize_eq:
  assumes "0 < N" and "Suc len < usize_limit" and "N ^ h < usize_limit" and "h < 256"
  shows "node_truncate_usize N (of_nat h) (of_nat len) n = node_truncate N h len n"
  using assms(2-4)
proof (induction n arbitrary: h len)
  case (Leaf data)
  then show ?case by simp
next
  case (Interior children)
  let ?q = "len div N ^ h" and ?r = "len mod N ^ h"
  have "?q \<le> len" "?r \<le> len" by simp_all
  then have lim: "len < usize_limit" "?q < usize_limit" "Suc ?q < usize_limit" "?r < usize_limit" "Suc ?r < usize_limit"
    using Interior.prems(1) by linarith+
  have pos: "(0 :: usize) < of_nat ?r \<longleftrightarrow> 0 < ?r"
    using lim(4) by (simp add: word_less_nat_alt)
  have IH: "node_truncate_usize N (of_nat (h - 1)) (of_nat ?r) (take (Suc ?q) children ! ?q)
      = node_truncate N (h - 1) ?r (take (Suc ?q) children ! ?q)" if "Suc ?q \<le> length children"
  proof (rule Interior.IH)
    show "take (Suc ?q) children ! ?q \<in> set children" using that by simp
  qed (use lim Interior.prems power_mono_limit [OF assms(1)] in simp_all)
  show ?case
    using IH lim Interior.prems pow_usize_Some [OF Interior.prems(2)] pos add_word_usize [OF lim(3)]
    by (cases "h = 0")
      (simp_all add: Let_def div_usize of_nat_u8_pred chunk_drop_right_def del: of_nat_Suc of_nat_diff of_nat_power)
qed

section \<open>Vectors\<close>

lemma height_for_length_u8_Some:
  assumes "height_for_length N len < 256" and "len < usize_limit"
  shows "height_for_length_u8 N (of_nat len) = Some (of_nat (height_for_length N len))"
proof -
  have "unat (max (if of_nat len = (0 :: usize) then 0 else of_nat len - 1) (1 :: usize)) = max (len - 1) 1"
  proof (cases "len = 0")
    case False
    then have "(of_nat len - 1 :: usize) = of_nat (len - 1)" by (simp add: of_nat_diff)
    moreover have "unat (max (of_nat (len - 1)) (1 :: usize)) = max (len - 1) 1"
      using assms(2) by (simp add: max_def word_le_nat_alt del: of_nat_diff)
    moreover have "(of_nat len :: usize) \<noteq> 0"
      using False assms(2) of_nat_usize_eq_iff [of len 0] by (simp add: usize_limit_def)
    ultimately show ?thesis by (simp only: if_False)
  qed simp
  then show ?thesis using assms(1) unfolding height_for_length_u8_def height_for_length_def Let_def by simp
qed

lemma vec_usize_sel [simp]:
  "uvec_root (vec_usize v) = vec_root v"
  "uvec_length (vec_usize v) = of_nat (vec_length v)"
  "uvec_height (vec_usize v) = of_nat (vec_height v)"
  by (simp_all add: vec_usize_def)

text \<open>The vectors whose arithmetic fits.\<close>

definition vec_fits :: "nat \<Rightarrow> 'a vector \<Rightarrow> bool" where
  "vec_fits N v \<longleftrightarrow> ilog 2 N * (vec_height v + 1) < 64 \<and> N ^ (vec_height v + 1) < usize_limit
     \<and> vec_height v < 64 \<and> Suc (vec_length v) < usize_limit"

lemma vec_fits:
  assumes "valid_branching N" and "vec_wf N v" and "N * vec_len v < usize_limit"
  shows "vec_fits N v"
proof -
  have "2 * vec_length v \<le> N * vec_length v"
    using assms(1) by (intro mult_le_mono1) (auto simp: valid_branching_def)
  with assms(3) have "Suc (vec_length v) < usize_limit"
    by (cases "vec_length v") (auto simp: vec_len_def usize_limit_def)
  then show ?thesis using vec_capacity_bounds [OF assms] by (simp add: vec_fits_def)
qed

lemma vec_fitsD:
  assumes "vec_fits N v"
  shows "ilog 2 N * vec_height v < 64" and "vec_height v < 256" and "vec_length v < usize_limit"
    and "Suc (vec_length v) < usize_limit"
  using assms by (auto simp: vec_fits_def)

lemma vec_is_full_usize_eq: "vec_fits N v \<Longrightarrow> vec_is_full_usize N (vec_usize v) = Some (vec_is_full N v)"
  by (auto simp: vec_fits_def vec_is_full_usize_def vec_is_full_def pow_usize_Some
    simp del: power_Suc of_nat_power of_nat_mult)

lemma vec_get_usize_eq:
  assumes "valid_branching N" and "vec_fits N v" and "idx < usize_limit"
  shows "vec_get_usize N (vec_usize v) (of_nat idx) = vec_get N v idx"
  by (simp add: vec_get_usize_def vec_get_def node_get_usize_eq [OF assms(1,3) vec_fitsD(1,2) [OF assms(2)]]
    split: option.split)

lemma of_nat_usize_le_iff: "m < usize_limit \<Longrightarrow> n < usize_limit \<Longrightarrow> (of_nat m :: usize) \<le> of_nat n \<longleftrightarrow> m \<le> n"
  by (simp add: word_le_nat_alt)

lemma vec_set_usize_eq:
  assumes "valid_branching N" and "vec_fits N v" and "idx < usize_limit"
  shows "vec_set_usize N (vec_usize v) (of_nat idx) elt = map_option vec_usize (vec_set N v idx elt)"
  using vec_fitsD(3) [OF assms(2)] assms(3)
  by (simp add: vec_set_usize_def vec_set_def vec_usize_def of_nat_usize_le_iff map_option_bind comp_def
    node_set_usize_eq [OF assms(1,3) vec_fitsD(1,2) [OF assms(2)]] split: option.split)

lemma add_level_usize_eq:
  assumes "vec_height v < 64"
  shows "add_level_usize (vec_usize v) = Some (vec_usize (add_level v))"
proof -
  have "add_word (of_nat (vec_height v) :: u8) 1 = Some (of_nat (Suc (vec_height v)))"
    using assms add_word_Some [of "of_nat (vec_height v) :: u8" 1] by simp
  then show ?thesis by (simp add: add_level_usize_def add_level_def vec_usize_def split: option.split)
qed

lemma vec_push_usize_eq:
  assumes "valid_branching N" and "vec_fits N v"
  shows "vec_push_usize N (vec_usize v) elt = map_option vec_usize (vec_push N v elt)"
proof -
  define v1 where "v1 = (if vec_is_full N v then add_level v else v)"
  have v1: "vec_length v1 = vec_length v" "ilog 2 N * vec_height v1 < 64" "vec_height v1 < 256"
    using assms(2) by (auto simp: v1_def vec_fits_def add_level_def split: option.split)
  note len = vec_fitsD(3,4) [OF assms(2)]
  have level: "(if vec_is_full N v then add_level_usize (vec_usize v) else Some (vec_usize v)) = Some (vec_usize v1)"
    using assms(2) by (simp add: v1_def vec_fits_def add_level_usize_eq)
  show ?thesis
    unfolding vec_push_usize_def vec_push_def vec_is_full_usize_eq [OF assms(2)] bind.simps level v1_def [symmetric] Let_def vec_len_def
    by (simp add: node_set_usize_eq [OF assms(1) len(1) v1(2,3)] v1(1) add_word_usize [OF len(2)]
      map_option_bind comp_def del: of_nat_Suc) (simp add: vec_usize_def v1(1))
qed

lemma vec_truncate_usize_eq:
  assumes N: "valid_branching N" and fits: "vec_fits N v" and len: "len < usize_limit"
    and height: "vec_height v = height_for_length N (vec_length v)"
  shows "vec_truncate_usize N (vec_usize v) (of_nat len) = map_option vec_usize (vec_truncate N v len)"
proof (cases "vec_length v \<le> len")
  case True
  then show ?thesis using len vec_fitsD(3) [OF fits]
    by (simp add: vec_truncate_usize_def vec_truncate_def of_nat_usize_le_iff)
next
  case False
  have h: "height_for_length N len \<le> vec_height v" "height_for_length N len < 256"
    using False height vec_fitsD(2) [OF fits] height_for_length_mono [OF N, of len "vec_length v"] by auto
  then have "N ^ height_for_length N len \<le> N ^ (vec_height v + 1)" "N ^ vec_height v \<le> N ^ (vec_height v + 1)"
    using N by (auto intro!: power_increasing simp del: power_Suc simp: valid_branching_def)
  then have pw: "N ^ height_for_length N len < usize_limit" "N ^ vec_height v < usize_limit"
    using fits unfolding vec_fits_def by linarith+
  have Sl: "Suc len < usize_limit" using False vec_fitsD(3) [OF fits] by simp
  have "0 < N" using N by (auto simp: valid_branching_def)
  note tr = node_truncate_usize_eq [OF this Sl]
  have less: "(of_nat (height_for_length N len) :: u8) < of_nat (vec_height v) \<longleftrightarrow> height_for_length N len < vec_height v"
    using h vec_fitsD(2) [OF fits] by (simp add: word_less_nat_alt)
  show ?thesis
    using False len vec_fitsD(2,3) [OF fits] h pw
    by (cases "vec_root v")
      (simp_all add: vec_truncate_usize_def vec_truncate_def of_nat_usize_le_iff height_for_length_u8_Some less tr
        map_option_bind comp_def Let_def vec_usize_def)
qed

section \<open>Theorem\<close>

text \<open>
  C21. No intermediate value overflows: on a well-formed vector of \<open>n\<close> elements with \<open>N * n < 2 ^ 64\<close>,
  every operation at machine width returns and computes what it does on natural numbers. At every height of the tree
  \<open>extract_index\<close> gives the digit of the index, \<open>is_full\<close> compares the length with the capacity and
  \<open>height_for_length\<close> fits in a \<open>u8\<close>; \<open>get\<close>, \<open>set\<close>, \<open>push\<close> and \<open>truncate\<close> act on the elements as on a
  list and leave the machine representation of a well-formed vector.
\<close>

theorem vec_no_overflow:
  assumes "valid_branching N" and "vec_wf N v" and "N * vec_len v < usize_limit" and "idx < usize_limit"
  shows "(\<forall>h \<le> vec_height v. extract_index_usize N (of_nat idx) (of_nat h) = Some (of_nat (idx div N ^ h mod N)))
    \<and> vec_is_full_usize N (vec_usize v) = Some (vec_is_full N v)
    \<and> height_for_length_u8 N (of_nat (vec_len v)) = Some (of_nat (height_for_length N (vec_len v)))
    \<and> vec_get_usize N (vec_usize v) (of_nat idx) = Some (chunk_get (vec_list v) (idx mod N ^ Suc (vec_height v)))
    \<and> (if idx < length (vec_list v)
       then \<exists>v'. vec_set_usize N (vec_usize v) (of_nat idx) elt = Some (vec_usize v') \<and> vec_wf N v'
         \<and> vec_list v' = (vec_list v)[idx := elt]
       else vec_set_usize N (vec_usize v) (of_nat idx) elt = None)
    \<and> (\<exists>v'. vec_push_usize N (vec_usize v) elt = Some (vec_usize v') \<and> vec_wf N v' \<and> vec_list v' = vec_list v @ [elt])
    \<and> (\<exists>v'. vec_truncate_usize N (vec_usize v) (of_nat idx) = Some (vec_usize v') \<and> vec_wf N v'
         \<and> vec_list v' = take idx (vec_list v))"
proof -
  note N = assms(1) and wf = assms(2) and fits = vec_fits [OF assms(1-3)]
  have height: "vec_height v = height_for_length N (vec_length v)"
    using wf N by (auto simp: vec_wf_def split: option.splits)
  have "extract_index_usize N (of_nat idx) (of_nat h) = Some (of_nat (idx div N ^ h mod N))" if "h \<le> vec_height v" for h
  proof -
    have "ilog 2 N * h \<le> ilog 2 N * vec_height v" using that by (rule mult_le_mono2)
    then have "ilog 2 N * h < 64" "h < 256" using vec_fitsD(1,2) [OF fits] that by linarith+
    from extract_index_usize_Some [OF N assms(4) this] show ?thesis
      by (metis extract_index_eq [OF N] word_unat_eq_iff unat_usize unat_less_usize)
  qed
  moreover have "height_for_length_u8 N (of_nat (vec_len v)) = Some (of_nat (height_for_length N (vec_len v)))"
    using vec_fitsD(2,3) [OF fits] height by (intro height_for_length_u8_Some) (simp_all add: vec_len_def)
  moreover have "vec_set N v idx elt = None" if "\<not> idx < length (vec_list v)"
    using that vec_length_list [OF wf] by (simp add: vec_set_def)
  ultimately show ?thesis
    using vec_is_full_usize_eq [OF fits] vec_get_usize_eq [OF N fits assms(4)] vec_get_spec [OF N wf]
      vec_set_usize_eq [OF N fits assms(4)] vec_set_wf [OF N wf, of idx elt] vec_push_usize_eq [OF N fits, of elt]
      vec_push_wf [OF N wf, of elt] vec_truncate_usize_eq [OF N fits assms(4) height] vec_truncate_wf [OF N wf, of idx]
    by (auto simp del: power_Suc)
qed

theorem vec_no_overflow_witness:
  "\<exists>v. vec_from_iter 32 [1, 2, 3 :: nat] = Some v \<and> extract_index_usize 32 2 0 = Some 2
    \<and> vec_is_full_usize 32 (vec_usize v) = Some False \<and> vec_get_usize 32 (vec_usize v) 2 = Some (Some 3)"
proof -
  have N: "valid_branching 32" by simp
  let ?v = "mk_vec 32 [1, 2, 3 :: nat]"
  have v: "vec_from_iter 32 [1, 2, 3 :: nat] = Some ?v"
    by (simp add: vec_from_iter_def vec_extend_new [OF N])
  have f: "vec_len ?v = 3" "vec_height ?v = 0" "\<not> vec_is_full 32 ?v"
    by (simp_all add: mk_vec_def Let_def vec_len_def height_for_length_def vec_is_full_def)
  have "32 * vec_len ?v < usize_limit" "2 < usize_limit" unfolding f by (simp_all add: usize_limit_def)
  from vec_no_overflow [OF N vec_wf_mk_vec [OF N] this] v f N show ?thesis by (auto simp: chunk_get_def)
qed

end
