(* ===== verification/Vector_Slice.thy ===== *)
theory Vector_Slice
  imports Vector_Props
begin

text \<open>
  \<open>Slice\<close> of \<open>vector/src/slice.rs\<close>: a vector with a window \<open>[start, end)\<close>, the
  representation of Nickel arrays (\<open>Slice<NickelValue, 32>\<close>). \<open>slice_list\<close> is the abstraction
  to lists, \<open>slice_wf\<close> the invariant. \<open>std::iter::Take\<close> over the vector's iterators is
  \<open>iter_take\<close>.
\<close>

section \<open>Model\<close>

record 'a slice =
  slice_vec :: "'a vector"
  slice_start :: nat
  slice_end :: nat

definition slice_default :: "'a slice" where
  "slice_default = \<lparr>slice_vec = vec_new, slice_start = 0, slice_end = 0\<rparr>"

definition slice_len :: "'a slice \<Rightarrow> nat panics" where
  "slice_len s = (if slice_start s \<le> slice_end s then Some (slice_end s - slice_start s) else None)"

definition slice_is_empty :: "'a slice \<Rightarrow> bool" where
  "slice_is_empty s \<longleftrightarrow> slice_end s = slice_start s"

definition slice_get :: "nat \<Rightarrow> 'a slice \<Rightarrow> nat \<Rightarrow> 'a option panics" where
  "slice_get N s idx =
     (case checked_add (slice_start s) idx of None \<Rightarrow> Some None | Some i \<Rightarrow> vec_get N (slice_vec s) i)"

definition slice_index :: "nat \<Rightarrow> 'a slice \<Rightarrow> nat \<Rightarrow> 'a panics" where
  "slice_index N s idx = do { r \<leftarrow> slice_get N s idx; r }"

definition slice_set :: "nat \<Rightarrow> 'a slice \<Rightarrow> nat \<Rightarrow> 'a \<Rightarrow> 'a slice panics" where
  "slice_set N s idx elt =
     do {
       i \<leftarrow> checked_add (slice_start s) idx;
       v \<leftarrow> vec_set N (slice_vec s) i elt;
       Some (s\<lparr>slice_vec := v\<rparr>)
     }"

definition slice_push :: "nat \<Rightarrow> 'a slice \<Rightarrow> 'a \<Rightarrow> 'a slice panics" where
  "slice_push N s elt =
     do {
       v \<leftarrow> vec_truncate N (slice_vec s) (slice_end s);
       v' \<leftarrow> vec_push N v elt;
       Some (s\<lparr>slice_vec := v', slice_end := slice_end s + 1\<rparr>)
     }"

definition slice_pop :: "nat \<Rightarrow> 'a slice \<Rightarrow> ('a option \<times> 'a slice) panics" where
  "slice_pop N s =
     (if slice_is_empty s then Some (None, s)
      else do {
        v \<leftarrow> vec_truncate N (slice_vec s) (slice_end s);
        assert_ok (slice_end s > 0);
        (r, v') \<leftarrow> vec_pop N v;
        Some (r, s\<lparr>slice_vec := v', slice_end := slice_end s - 1\<rparr>)
      })"

definition slice_slice :: "'a slice \<Rightarrow> nat \<Rightarrow> nat \<Rightarrow> 'a slice panics" where
  "slice_slice s from to =
     do {
       assert_ok (from \<le> to);
       len \<leftarrow> slice_len s;
       assert_ok (to \<le> len);
       Some (s\<lparr>slice_end := slice_start s + to, slice_start := slice_start s + from\<rparr>)
     }"

fun iter_take :: "nat \<Rightarrow> 'a viter \<Rightarrow> 'a list panics" where
  "iter_take 0 it = Some []"
| "iter_take (Suc n) it =
     do {
       (r, it') \<leftarrow> iter_next it;
       case r of
         None \<Rightarrow> Some []
       | Some x \<Rightarrow> do { xs \<leftarrow> iter_take n it'; Some (x # xs) }
     }"

definition slice_iter :: "nat \<Rightarrow> 'a slice \<Rightarrow> 'a list panics" where
  "slice_iter N s =
     do { len \<leftarrow> slice_len s; it \<leftarrow> iter_starting_at N (slice_vec s) (slice_start s); iter_take len it }"

definition slice_into_iter :: "nat \<Rightarrow> 'a slice \<Rightarrow> 'a list panics" where
  "slice_into_iter N s =
     do { len \<leftarrow> slice_len s; it \<leftarrow> into_iter_starting_at N (slice_vec s) (slice_start s); iter_take len it }"

definition slice_extend :: "nat \<Rightarrow> 'a slice \<Rightarrow> 'a list \<Rightarrow> 'a slice panics" where
  "slice_extend N s iter =
     do {
       v \<leftarrow> vec_truncate N (slice_vec s) (slice_end s);
       v' \<leftarrow> vec_extend N v iter;
       Some (s\<lparr>slice_vec := v', slice_end := vec_len v'\<rparr>)
     }"

definition slice_from_iter :: "nat \<Rightarrow> 'a list \<Rightarrow> 'a slice panics" where
  "slice_from_iter N iter =
     do {
       v \<leftarrow> vec_from_iter N iter;
       Some \<lparr>slice_vec = v, slice_start = 0, slice_end = vec_len v\<rparr>
     }"

section \<open>Abstraction and invariant\<close>

definition slice_list :: "'a slice \<Rightarrow> 'a list" where
  "slice_list s = take (slice_end s - slice_start s) (drop (slice_start s) (vec_list (slice_vec s)))"

definition slice_wf :: "nat \<Rightarrow> 'a slice \<Rightarrow> bool" where
  "slice_wf N s \<longleftrightarrow> vec_wf N (slice_vec s) \<and> slice_start s \<le> slice_end s
     \<and> slice_end s \<le> vec_length (slice_vec s) \<and> vec_length (slice_vec s) < usize_limit"

section \<open>Lemmas\<close>

lemma slice_wf_end: "slice_wf N s \<Longrightarrow> slice_end s \<le> length (vec_list (slice_vec s))"
  by (auto simp: slice_wf_def dest: vec_length_list)

lemma length_slice_list: "slice_wf N s \<Longrightarrow> length (slice_list s) = slice_end s - slice_start s"
  using slice_wf_end [of N s] by (simp add: slice_list_def)

lemma slice_len_wf: "slice_wf N s \<Longrightarrow> slice_len s = Some (length (slice_list s))"
  by (simp add: length_slice_list) (simp add: slice_len_def slice_wf_def)

lemma slice_wf_default: "slice_wf N slice_default"
  by (simp add: slice_wf_def slice_default_def) (simp add: vec_new_def usize_limit_def)

lemma slice_list_default: "slice_list slice_default = []"
  by (simp add: slice_list_def slice_default_def)

lemma slice_list_nth:
  "slice_wf N s \<Longrightarrow> i < length (slice_list s) \<Longrightarrow>
    slice_list s ! i = vec_list (slice_vec s) ! (slice_start s + i)
    \<and> slice_start s + i < length (vec_list (slice_vec s))"
  using slice_wf_end [of N s] by (auto simp: length_slice_list) (simp add: slice_list_def)

lemma slice_window:
  "a \<le> b \<Longrightarrow> b \<le> length xs \<Longrightarrow> drop a (take b xs) = take (b - a) (drop a xs)"
  by (simp add: drop_take)

lemma iter_take_ok: "iter_ok it \<Longrightarrow> iter_take n it = Some (take n (iter_rest it))"
proof (induction n arbitrary: it)
  case (Suc n)
  obtain it' where ok: "iter_ok it'"
    and nxt: "iter_next it = Some (if iter_rest it = [] then None else Some (hd (iter_rest it)), it')"
    and rest: "iter_rest it' = tl (iter_rest it)"
    by (rule iter_next_ok [OF Suc.prems])
  show ?case
    using nxt rest Suc.IH [OF ok] by (cases "iter_rest it") simp_all
qed simp

lemma slice_get_in_range:
  assumes N: "valid_branching N" and wf: "slice_wf N s" and i: "i < length (slice_list s)"
  shows "slice_get N s i = Some (Some (slice_list s ! i))"
proof -
  have *: "slice_list s ! i = vec_list (slice_vec s) ! (slice_start s + i)"
    "slice_start s + i < length (vec_list (slice_vec s))"
    using slice_list_nth [OF wf i] by auto
  have vwf: "vec_wf N (slice_vec s)" and lim: "length (vec_list (slice_vec s)) < usize_limit"
    using wf vec_length_list [of N "slice_vec s"] by (auto simp: slice_wf_def)
  then show ?thesis
    using * vec_get_in_range [OF N vwf] by (simp add: slice_get_def checked_add_def)
qed

lemma slice_set_wf:
  assumes N: "valid_branching N" and wf: "slice_wf N s" and i: "i < length (slice_list s)"
  shows "\<exists>s'. slice_set N s i x = Some s' \<and> slice_wf N s' \<and> slice_list s' = (slice_list s)[i := x]"
proof -
  have lt: "slice_start s + i < length (vec_list (slice_vec s))"
    using slice_list_nth [OF wf i] by auto
  have vwf: "vec_wf N (slice_vec s)" using wf by (simp add: slice_wf_def)
  obtain v where v: "vec_set N (slice_vec s) (slice_start s + i) x = Some v" "vec_wf N v"
    "vec_list v = (vec_list (slice_vec s))[slice_start s + i := x]"
    using vec_set_wf [OF N vwf lt] by blast
  have len: "vec_length v = vec_length (slice_vec s)"
    using v vec_length_list vwf by (metis length_list_update)
  have "slice_start s + i < usize_limit"
    using lt wf vec_length_list [OF vwf] by (simp add: slice_wf_def)
  moreover have "drop (slice_start s) (vec_list v) = (drop (slice_start s) (vec_list (slice_vec s)))[i := x]"
    by (simp add: v(3) drop_update_swap)
  ultimately show ?thesis
    using v wf len by (simp add: slice_set_def checked_add_def slice_wf_def slice_list_def take_update_swap)
qed

text \<open>The end of the window is cut before the vector grows or shrinks there.\<close>

lemma slice_truncated:
  assumes N: "valid_branching N" and wf: "slice_wf N s"
  obtains v where "vec_truncate N (slice_vec s) (slice_end s) = Some v" "vec_wf N v"
    "vec_list v = take (slice_end s) (vec_list (slice_vec s))" "length (vec_list v) = slice_end s"
    "drop (slice_start s) (vec_list v) = slice_list s"
proof -
  have vwf: "vec_wf N (slice_vec s)" using wf by (simp add: slice_wf_def)
  obtain v where v: "vec_truncate N (slice_vec s) (slice_end s) = Some v" "vec_wf N v"
    "vec_list v = take (slice_end s) (vec_list (slice_vec s))"
    using vec_truncate_wf [OF N vwf] by blast
  moreover have "slice_start s \<le> slice_end s" using wf by (simp add: slice_wf_def)
  ultimately show ?thesis
    using slice_wf_end [OF wf] that by (simp add: slice_list_def slice_window)
qed

lemma slice_push_wf:
  assumes N: "valid_branching N" and wf: "slice_wf N s" and room: "slice_end s + 1 < usize_limit"
  shows "\<exists>s'. slice_push N s x = Some s' \<and> slice_wf N s' \<and> slice_list s' = slice_list s @ [x]"
proof -
  obtain v where v: "vec_truncate N (slice_vec s) (slice_end s) = Some v" "vec_wf N v"
    "length (vec_list v) = slice_end s" "drop (slice_start s) (vec_list v) = slice_list s"
    using slice_truncated [OF N wf] by metis
  obtain v' where v': "vec_push N v x = Some v'" "vec_wf N v'" "vec_list v' = vec_list v @ [x]"
    using vec_push_wf [OF N v(2)] by blast
  have len: "vec_length v' = slice_end s + 1" using vec_length_list [OF v'(2)] v' v(3) by simp
  have "slice_start s \<le> slice_end s" using wf by (simp add: slice_wf_def)
  with v v' len room show ?thesis
    by (simp add: slice_push_def slice_wf_def slice_list_def length_slice_list [OF wf] Suc_diff_le)
qed

lemma slice_extend_wf:
  assumes N: "valid_branching N" and wf: "slice_wf N s"
    and room: "slice_end s + length xs < usize_limit"
  shows "\<exists>s'. slice_extend N s xs = Some s' \<and> slice_wf N s' \<and> slice_list s' = slice_list s @ xs"
proof -
  obtain v where v: "vec_truncate N (slice_vec s) (slice_end s) = Some v" "vec_wf N v"
    "length (vec_list v) = slice_end s" "drop (slice_start s) (vec_list v) = slice_list s"
    using slice_truncated [OF N wf] by metis
  obtain v' where v': "vec_extend N v xs = Some v'" "vec_wf N v'" "vec_list v' = vec_list v @ xs"
    using vec_extend_wf [OF N v(2)] by blast
  have len: "vec_length v' = slice_end s + length xs" using vec_length_list [OF v'(2)] v' v(3) by simp
  have "slice_start s \<le> slice_end s" using wf by (simp add: slice_wf_def)
  with v v' len room show ?thesis
    by (simp add: slice_extend_def slice_wf_def slice_list_def vec_len_def length_slice_list [OF wf])
qed

lemma slice_pop_wf:
  assumes N: "valid_branching N" and wf: "slice_wf N s"
  shows "\<exists>s'. slice_pop N s = Some (if slice_list s = [] then None else Some (last (slice_list s)), s')
    \<and> slice_wf N s' \<and> slice_list s' = butlast (slice_list s)"
proof (cases "slice_is_empty s")
  case True
  then have "slice_list s = []" using length_slice_list [OF wf] by (simp add: slice_is_empty_def)
  with True wf show ?thesis by (simp add: slice_pop_def)
next
  case False
  have se: "slice_start s < slice_end s" using False wf by (simp add: slice_is_empty_def slice_wf_def)
  then have ne: "slice_list s \<noteq> []" using length_slice_list [OF wf] by auto
  obtain v where v: "vec_truncate N (slice_vec s) (slice_end s) = Some v" "vec_wf N v"
    "length (vec_list v) = slice_end s" "drop (slice_start s) (vec_list v) = slice_list s"
    using slice_truncated [OF N wf] by metis
  have vne: "vec_list v \<noteq> []" using v(3) se by auto
  have last: "last (vec_list v) = last (slice_list s)"
    unfolding v(4) [symmetric] using v(3) se by simp
  obtain v' where v': "vec_pop N v = Some (Some (last (slice_list s)), v')" "vec_wf N v'"
    "vec_list v' = butlast (vec_list v)"
    using vec_pop_wf [OF N v(2)] vne last by auto
  have len: "vec_length v' = slice_end s - 1" using vec_length_list [OF v'(2)] v' v(3) by simp
  have "drop (slice_start s) (vec_list v') = butlast (slice_list s)"
    unfolding v(4) [symmetric] v'(3) by (simp add: butlast_drop)
  moreover have "slice_end s - 1 < usize_limit" using wf unfolding slice_wf_def by linarith
  ultimately show ?thesis
    using False se ne v v' len
    by (simp add: slice_pop_def slice_wf_def slice_list_def panic_simps length_slice_list [OF wf])
qed


lemma slice_sequence:
  assumes N: "valid_branching N"
  shows "sequence slice_list (slice_wf N) (\<lambda>s n. slice_end s + n < usize_limit) slice_default slice_len
    (slice_get N) (slice_set N) (slice_push N) (slice_pop N) (slice_extend N)"
proof unfold_locales
  fix s :: "'a slice" and i :: nat and x :: 'a
  assume "slice_wf N s" and "i < length (slice_list s)"
  then show "\<exists>s'. slice_set N s i x = Some s' \<and> slice_wf N s' \<and> slice_list s' = (slice_list s)[i := x]
      \<and> (\<forall>n. slice_end s + n < usize_limit \<longrightarrow> slice_end s' + n < usize_limit)"
    using slice_set_wf [OF N, of s i x] by (auto simp: slice_set_def split: Option.bind_splits)
next
  fix s :: "'a slice" and x :: 'a
  assume "slice_wf N s" and "slice_end s + 1 < usize_limit"
  then show "\<exists>s'. slice_push N s x = Some s' \<and> slice_wf N s' \<and> slice_list s' = slice_list s @ [x]
      \<and> (\<forall>n. slice_end s + Suc n < usize_limit \<longrightarrow> slice_end s' + n < usize_limit)"
    using slice_push_wf [OF N, of s x] by (auto simp: slice_push_def split: Option.bind_splits)
next
  fix s :: "'a slice"
  assume "slice_wf N s"
  then show "\<exists>s'. slice_pop N s = Some (if slice_list s = [] then None else Some (last (slice_list s)), s')
      \<and> slice_wf N s' \<and> slice_list s' = butlast (slice_list s)
      \<and> (\<forall>n. slice_end s + n < usize_limit \<longrightarrow> slice_end s' + n < usize_limit)"
    using slice_pop_wf [OF N, of s] by (auto simp: slice_pop_def split: Option.bind_splits if_splits)
next
  fix s :: "'a slice" and xs :: "'a list"
  assume wf: "slice_wf N s" and "slice_end s + length xs < usize_limit"
  then obtain s' where s': "slice_extend N s xs = Some s'" "slice_wf N s'" "slice_list s' = slice_list s @ xs"
    using slice_extend_wf [OF N] by blast
  moreover have "slice_start s' = slice_start s"
    using s'(1) by (auto simp: slice_extend_def split: Option.bind_splits)
  then have "slice_end s' = slice_end s + length xs"
    using s'(3) length_slice_list [OF wf] length_slice_list [OF s'(2)] wf s'(2)
    by (auto simp: slice_wf_def)
  ultimately show "\<exists>s'. slice_extend N s xs = Some s' \<and> slice_wf N s' \<and> slice_list s' = slice_list s @ xs
      \<and> (\<forall>n. slice_end s + (length xs + n) < usize_limit \<longrightarrow> slice_end s' + n < usize_limit)"
    by (auto simp: add.assoc)
qed (simp_all add: slice_wf_default slice_list_default slice_len_wf slice_get_in_range [OF N])

interpretation array_slice: sequence slice_list "slice_wf 32" "\<lambda>s n. slice_end s + n < usize_limit"
  slice_default slice_len "slice_get 32" "slice_set 32" "slice_push 32" "slice_pop 32" "slice_extend 32"
  by (rule slice_sequence) simp


lemma slice_from_iter_wf:
  assumes N: "valid_branching N" and "length xs < usize_limit"
  shows "\<exists>s. slice_from_iter N xs = Some s \<and> slice_wf N s \<and> slice_list s = xs"
proof -
  obtain v where "vec_from_iter N xs = Some v" "vec_wf N v" "vec_list v = xs"
    using vec_extend_wf [OF N vec_wf_new, of xs] by (auto simp: vec_from_iter_def)
  with assms(2) vec_length_list [of N v] show ?thesis
    by (simp add: slice_from_iter_def slice_wf_def slice_list_def vec_len_def)
qed

lemma slice_slice_wf:
  assumes wf: "slice_wf N s"
  shows "slice_slice s from to =
    (if from \<le> to \<and> to \<le> length (slice_list s)
     then Some (s\<lparr>slice_end := slice_start s + to, slice_start := slice_start s + from\<rparr>) else None)"
  using wf by (simp add: slice_slice_def slice_len_def panic_simps length_slice_list [OF wf] slice_wf_def)

section \<open>Properties\<close>

text \<open>
  C14. Any run of pushes, pops, in-range sets and extensions on a well-formed array (branching
  factor 32) whose indices stay below the limit of \<open>usize\<close> completes without a panic and changes
  the elements of the window as the run changes a list, also when the window is a strict part of
  the vector.
\<close>

theorem slice_run_refines:
  assumes "slice_wf 32 s" and "ops_in_range (slice_list s) ops"
    and "slice_end s + growth ops < usize_limit"
  shows "\<exists>s'. run_ops (slice_push 32) (slice_pop 32) (slice_set 32) (slice_extend 32) s ops = Some s'
    \<and> slice_wf 32 s' \<and> slice_list s' = foldl list_op (slice_list s) ops"
  using assms by (rule array_slice.run_refines)

theorem slice_run_refines_witness:
  "\<exists>s'. run_ops (slice_push 32) (slice_pop 32) (slice_set 32) (slice_extend 32) slice_default
      [Extend [1, 2, 3 :: nat], Set 0 9, Pop] = Some s' \<and> slice_wf 32 s' \<and> slice_list s' = [9, 2]"
proof -
  have "slice_end slice_default + growth [Extend [1, 2, 3 :: nat], Set 0 9, Pop] < usize_limit"
    by (simp add: slice_default_def usize_limit_def)
  from slice_run_refines [OF array_slice.empty_law(1) _ this] show ?thesis
    by (simp add: array_slice.empty_law(2))
qed

text \<open>
  \<open>slice(from, to)\<close> panics exactly when \<open>from > to\<close> or \<open>to\<close> is past the length; otherwise
  the result is well-formed and holds the elements from \<open>from\<close> up to \<open>to\<close>.
\<close>

theorem slice_slice_selects:
  assumes "slice_wf N s"
  shows "(if from \<le> to \<and> to \<le> length (slice_list s)
     then \<exists>s'. slice_slice s from to = Some s' \<and> slice_wf N s'
       \<and> slice_list s' = take (to - from) (drop from (slice_list s))
     else slice_slice s from to = None)"
proof (cases "from \<le> to \<and> to \<le> length (slice_list s)")
  case True
  have "slice_start s + to \<le> slice_end s"
    using True length_slice_list [OF assms] assms by (auto simp: slice_wf_def)
  moreover have "take (to - from) (drop (slice_start s + from) (vec_list (slice_vec s)))
      = take (to - from) (drop from (slice_list s))"
  proof -
    have "to - from \<le> slice_end s - slice_start s - from"
      using True length_slice_list [OF assms] by (intro diff_le_mono) simp
    then show ?thesis
      by (simp only: slice_list_def drop_take take_take drop_drop min_absorb1 add.commute)
  qed
  ultimately show ?thesis
    using True assms by (auto simp: slice_slice_wf [OF assms]) (auto simp: slice_wf_def slice_list_def)
next
  case False
  then show ?thesis by (simp only: slice_slice_wf [OF assms] if_False)
qed

theorem slice_slice_selects_witness:
  "\<exists>s s'. slice_from_iter 32 [0, 1, 2, 3, 4, 5 :: nat] = Some s \<and> slice_slice s 1 3 = Some s'
    \<and> slice_wf 32 s' \<and> slice_list s' = [1, 2] \<and> slice_slice s 2 7 = None"
proof -
  have "length [0, 1, 2, 3, 4, 5 :: nat] < usize_limit" by (simp add: usize_limit_def)
  then obtain s where s: "slice_from_iter 32 [0, 1, 2, 3, 4, 5 :: nat] = Some s" "slice_wf 32 s"
    "slice_list s = [0, 1, 2, 3, 4, 5]"
    using slice_from_iter_wf [of 32 "[0, 1, 2, 3, 4, 5 :: nat]"] by auto
  with slice_slice_selects [OF s(2), of 1 3] slice_slice_selects [OF s(2), of 2 7] show ?thesis by auto
qed

text \<open>
  Iterating over a slice, borrowed or owned, yields exactly the elements of the window.
\<close>

theorem slice_iter_yields_window:
  assumes "valid_branching N" and "slice_wf N s"
  shows "slice_iter N s = Some (slice_list s) \<and> slice_into_iter N s = Some (slice_list s)"
proof -
  have vwf: "vec_wf N (slice_vec s)" using assms(2) by (simp add: slice_wf_def)
  have "slice_start s \<le> length (vec_list (slice_vec s))"
    using assms(2) vec_length_list [OF vwf] by (simp add: slice_wf_def)
  then obtain it where it: "iter_starting_at N (slice_vec s) (slice_start s) = Some it"
    "into_iter_starting_at N (slice_vec s) (slice_start s) = Some it" "iter_ok it"
    "iter_rest it = drop (slice_start s) (vec_list (slice_vec s))"
    using iter_starting_at_ok [OF assms(1) vwf] by blast
  with assms(2) show ?thesis
    by (simp add: slice_iter_def slice_into_iter_def slice_len_def slice_wf_def slice_list_def iter_take_ok)
qed

theorem slice_iter_yields_window_witness:
  "\<exists>s s'. slice_from_iter 4 [0, 1, 2, 3, 4, 5 :: nat] = Some s \<and> slice_slice s 1 5 = Some s'
    \<and> slice_iter 4 s' = Some [1, 2, 3, 4]"
proof -
  have N: "valid_branching 4" by simp
  have "length [0, 1, 2, 3, 4, 5 :: nat] < usize_limit" by (simp add: usize_limit_def)
  then obtain s where s: "slice_from_iter 4 [0, 1, 2, 3, 4, 5 :: nat] = Some s" "slice_wf 4 s"
    "slice_list s = [0, 1, 2, 3, 4, 5]"
    using slice_from_iter_wf [OF N] by blast
  define s' where "s' = s\<lparr>slice_end := slice_start s + 5, slice_start := slice_start s + 1\<rparr>"
  have s': "slice_slice s 1 5 = Some s'"
    using slice_slice_wf [OF s(2), of 1 5] s(3) by (simp add: s'_def)
  have len: "slice_end s - slice_start s = 6" using length_slice_list [OF s(2)] s(3) by simp
  then have wf: "slice_wf 4 s'" using s(2) by (auto simp: s'_def slice_wf_def)
  have "slice_list s' = take 4 (drop 1 (slice_list s))"
    by (simp add: s'_def slice_list_def len drop_take add.commute)
  then have "slice_list s' = [1, 2, 3, 4]" using s(3) by simp
  with slice_iter_yields_window [OF N wf] s(1) s' show ?thesis by simp
qed

text \<open>
  The documentation of \<open>Slice::get\<close> and \<open>Slice::set\<close> promises \<open>None\<close> and a panic for an
  index out of bounds. Neither looks at the end of the window: after \<open>slice(1, 3)\<close> of
  \<open>[0, 1, 2, 3, 4, 5]\<close> the length is 2, yet \<open>get(2)\<close> returns the element 3 outside the window and
  \<open>set(2, 9)\<close> succeeds.
\<close>

theorem slice_get_past_end_some:
  "\<exists>s s'. slice_from_iter 32 [0, 1, 2, 3, 4, 5 :: nat] = Some s \<and> slice_slice s 1 3 = Some s'
    \<and> slice_len s' = Some 2 \<and> slice_get 32 s' 2 = Some (Some 3) \<and> slice_set 32 s' 2 9 \<noteq> None"
proof -
  have N: "valid_branching 32" by simp
  let ?xs = "[0, 1, 2, 3, 4, 5 :: nat]"
  define s where "s = \<lparr>slice_vec = mk_vec 32 ?xs, slice_start = 0, slice_end = 6\<rparr>"
  define s' where "s' = \<lparr>slice_vec = mk_vec 32 ?xs, slice_start = 1, slice_end = 3\<rparr>"
  have "slice_from_iter 32 ?xs = Some s"
    by (simp add: slice_from_iter_def vec_from_iter_def vec_extend_new [OF N] s_def vec_len_def
        mk_vec_def Let_def)
  moreover have "slice_slice s 1 3 = Some s'"
    by (simp add: slice_slice_def slice_len_def panic_simps s_def s'_def)
  moreover have "slice_len s' = Some 2" by (simp add: slice_len_def s'_def)
  moreover have "slice_get 32 s' 2 = Some (Some 3)"
    using vec_get_in_range [OF N vec_wf_mk_vec [OF N], of 3 ?xs]
    by (simp add: slice_get_def s'_def checked_add_def usize_limit_def N del: One_nat_def)
  moreover have "slice_set 32 s' 2 9 \<noteq> None"
    by (simp add: slice_set_def s'_def checked_add_def usize_limit_def vec_set_mk_vec [OF N])
  ultimately show ?thesis by blast
qed

end
