(* ===== verification/Nickel_Value.thy ===== *)
theory Nickel_Value
  imports Nickel_Prelude Complex_Main
begin

text \<open>
  The values, terms and record data the evaluator works on (\<open>core/src/eval/value\<close>,
  \<open>core/src/term/mod.rs\<close>, \<open>core/src/term/record.rs\<close>, \<open>core/src/label.rs\<close> and the metadata of
  \<open>parser/src/ast/mod.rs\<close>), with the operations on contracts, merge priorities, dependencies and
  annotations.

  \<^item> Identifiers are the interned strings themselves. Source positions, which only error messages
    read, are erased; so are the reference counts of \<open>Rc\<close>.
  \<^item> A thunk is a shared mutable cell: a value holds its address in the heap of
    \<open>Thunk_Cache\<close>.
  \<^item> \<open>Let\<close> carries the bindings, the body and the two attributes of \<open>LetAttrs\<close>: the binding type
    and whether the bindings are recursive.
  \<^item> Static types are the trees of \<open>TypeF\<close> with record and enum rows; a contract inside a type is
    a value. The declared type a label displays is a text.
  \<^item> A compiled regular expression is its source, as its \<open>PartialEq\<close> compares it.
\<close>

type_synonym ident = string
type_synonym addr = nat

section \<open>Labels\<close>

datatype merge_kind = StandardMerge | PiecewiseDef

record merge_label =
  ml_span :: nat
  ml_kind :: merge_kind

datatype polarity = Positive | Negative

fun polarity_flip :: "polarity \<Rightarrow> polarity" where
  "polarity_flip Positive = Negative"
| "polarity_flip Negative = Positive"

text \<open>An element of the path of a label into its type.\<close>

datatype path_elem = PathDomain | PathCodomain | PathField ident | PathArray | PathDict

record contract_diagnostic =
  diag_message :: "string option"
  diag_notes :: "string list"

definition diagnostic_new :: contract_diagnostic where
  "diagnostic_new = \<lparr>diag_message = None, diag_notes = []\<rparr>"

definition diagnostic_is_empty :: "contract_diagnostic \<Rightarrow> bool" where
  "diagnostic_is_empty d \<longleftrightarrow>
    (case diag_message d of None \<Rightarrow> True | Some m \<Rightarrow> m = []) \<and> diag_notes d = []"

record label =
  label_typ :: string
  label_diagnostics :: "contract_diagnostic list"
  label_span :: nat
  label_arg_idx :: "addr option"
  label_polarity :: polarity
  label_path :: "path_elem list"
  label_type_environment :: "(int \<times> polarity) list"
  label_field_name :: "ident option"

definition label_default :: label where
  "label_default = \<lparr>label_typ = ''Dyn'', label_diagnostics = [], label_span = 0, label_arg_idx = None,
    label_polarity = Positive, label_path = [], label_type_environment = [], label_field_name = None\<rparr>"

text \<open>The current diagnostic is the last one; the setters push a first one when there is none.\<close>

definition map_current_diagnostic :: "(contract_diagnostic \<Rightarrow> contract_diagnostic) \<Rightarrow> label \<Rightarrow> label" where
  "map_current_diagnostic f l = l\<lparr>label_diagnostics :=
    (if label_diagnostics l = [] then [f diagnostic_new]
     else butlast (label_diagnostics l) @ [f (last (label_diagnostics l))])\<rparr>"

definition set_diagnostic_message :: "string \<Rightarrow> label \<Rightarrow> label" where
  "set_diagnostic_message m = map_current_diagnostic (diag_message_update (\<lambda>_. Some m))"

definition set_diagnostic_notes :: "string list \<Rightarrow> label \<Rightarrow> label" where
  "set_diagnostic_notes notes = map_current_diagnostic (diag_notes_update (\<lambda>_. notes))"

definition append_diagnostic_note :: "string \<Rightarrow> label \<Rightarrow> label" where
  "append_diagnostic_note note = map_current_diagnostic (diag_notes_update (\<lambda>notes. notes @ [note]))"

definition current_diagnostic :: "label \<Rightarrow> contract_diagnostic option" where
  "current_diagnostic l = (if label_diagnostics l = [] then None else Some (last (label_diagnostics l)))"

definition push_diagnostic :: "label \<Rightarrow> label" where
  "push_diagnostic l =
    (case current_diagnostic l of
       Some d \<Rightarrow> if diagnostic_is_empty d then l
         else l\<lparr>label_diagnostics := label_diagnostics l @ [diagnostic_new]\<rparr>
     | None \<Rightarrow> l)"

definition with_field_name :: "ident option \<Rightarrow> label \<Rightarrow> label" where
  "with_field_name x l = l\<lparr>label_field_name := x\<rparr>"

definition can_have_poly_ctrs :: "label \<Rightarrow> bool" where
  "can_have_poly_ctrs l \<longleftrightarrow> label_type_environment l \<noteq> []"

definition has_no_dom :: "path_elem list \<Rightarrow> bool" where
  "has_no_dom p \<longleftrightarrow> \<not> list_ex (\<lambda>x. x = PathDomain) p"

definition has_no_arrow :: "path_elem list \<Rightarrow> bool" where
  "has_no_arrow p \<longleftrightarrow> \<not> list_ex (\<lambda>x. x = PathDomain \<or> x = PathCodomain) p"

definition merge_label_of_label :: "label \<Rightarrow> merge_label" where
  "merge_label_of_label l = \<lparr>ml_span = label_span l, ml_kind = StandardMerge\<rparr>"

section \<open>Merge priorities\<close>

datatype merge_priority = Bottom | Neutral | Numeral rat | Top

datatype ordering = Less | Equal | Greater

definition rat_cmp :: "rat \<Rightarrow> rat \<Rightarrow> ordering" where
  "rat_cmp a b = (if a < b then Less else if a = b then Equal else Greater)"

text \<open>\<open>PartialEq\<close> and \<open>Ord\<close> of \<open>MergePriority\<close>, arm by arm.\<close>

fun priority_eq :: "merge_priority \<Rightarrow> merge_priority \<Rightarrow> bool" where
  "priority_eq Bottom Bottom = True"
| "priority_eq Neutral Neutral = True"
| "priority_eq Top Top = True"
| "priority_eq (Numeral p1) (Numeral p2) = (p1 = p2)"
| "priority_eq Neutral (Numeral p) = (p = 0)"
| "priority_eq (Numeral p) Neutral = (p = 0)"
| "priority_eq _ _ = False"

fun priority_cmp :: "merge_priority \<Rightarrow> merge_priority \<Rightarrow> ordering" where
  "priority_cmp Bottom Bottom = Equal"
| "priority_cmp Top Top = Equal"
| "priority_cmp Neutral Neutral = Equal"
| "priority_cmp (Numeral p1) (Numeral p2) = rat_cmp p1 p2"
| "priority_cmp Bottom _ = Less"
| "priority_cmp _ Top = Less"
| "priority_cmp Top _ = Greater"
| "priority_cmp _ Bottom = Greater"
| "priority_cmp Neutral (Numeral n) = rat_cmp 0 n"
| "priority_cmp (Numeral n) Neutral = rat_cmp n 0"

definition priority_gt :: "merge_priority \<Rightarrow> merge_priority \<Rightarrow> bool" where
  "priority_gt p q \<longleftrightarrow> priority_cmp p q = Greater"

text \<open>\<open>std::cmp::max\<close> returns its second argument when the two compare equal.\<close>

definition priority_max :: "merge_priority \<Rightarrow> merge_priority \<Rightarrow> merge_priority" where
  "priority_max p q = (if priority_cmp p q = Greater then p else q)"

section \<open>Dependencies of recursive fields\<close>

datatype field_deps = Known "ident set" | Unknown

fun deps_union :: "field_deps \<Rightarrow> field_deps \<Rightarrow> field_deps" where
  "deps_union Unknown _ = Unknown"
| "deps_union _ Unknown = Unknown"
| "deps_union (Known d1) (Known d2) = Known (d1 \<union> d2)"

definition deps_empty :: field_deps where
  "deps_empty = Known {}"

fun deps_is_empty :: "field_deps \<Rightarrow> bool" where
  "deps_is_empty (Known d) = (d = {})"
| "deps_is_empty Unknown = False"

datatype binding_type = Normal | Revertible field_deps

section \<open>Static types\<close>

datatype var_kind = TypeVar | EnumRowsVar "ident list" | RecordRowsVar "ident list"

datatype dict_type_flavour = DictType | DictContract

text \<open>\<open>TypeF\<close> with its rows; \<open>'v\<close> is the type of the contracts inside.\<close>

datatype (plugins only: code size) 'v ntype =
    TDyn | TNumber | TBool | TString | TSymbol | TForeignId
  | TContract 'v
  | TArrow "'v ntype" "'v ntype"
  | TVar ident
  | TForall ident var_kind "'v ntype"
  | TEnum "'v enum_rows"
  | TRecord "'v record_rows"
  | TDict "'v ntype" dict_type_flavour
  | TArray "'v ntype"
  | TWildcard nat
and 'v enum_rows =
    ERowsEmpty
  | ERowsExtend ident "'v ntype option" "'v enum_rows"
  | ERowsTailVar ident
and 'v record_rows =
    RRowsEmpty
  | RRowsExtend ident "'v ntype" "'v record_rows"
  | RRowsTailVar ident
  | RRowsTailDyn

section \<open>Annotations and field metadata\<close>

datatype 'v labeled_type = LabeledType (lt_typ: "'v ntype") (lt_label: label)

datatype 'v type_annotation = TypeAnnotation
  (annot_typ: "'v labeled_type option")
  (annot_contracts: "'v labeled_type list")

definition annotation_default :: "'v type_annotation" where
  "annotation_default = TypeAnnotation None []"

definition annotation_is_empty :: "'v type_annotation \<Rightarrow> bool" where
  "annotation_is_empty a \<longleftrightarrow> annot_typ a = None \<and> annot_contracts a = []"

definition annotation_iter :: "'v type_annotation \<Rightarrow> 'v labeled_type list" where
  "annotation_iter a = (case annot_typ a of None \<Rightarrow> [] | Some t \<Rightarrow> [t]) @ annot_contracts a"

definition annotation_first :: "'v type_annotation \<Rightarrow> 'v labeled_type option" where
  "annotation_first a = (case annotation_iter a of [] \<Rightarrow> None | t # _ \<Rightarrow> Some t)"

definition option_or :: "'a option \<Rightarrow> 'a option \<Rightarrow> 'a option" where
  "option_or a b = (case a of None \<Rightarrow> b | Some x \<Rightarrow> Some x)"

definition annotation_combine :: "'v type_annotation \<Rightarrow> 'v type_annotation \<Rightarrow> 'v type_annotation" where
  "annotation_combine left right =
    (let (typ, leftover) =
       (case (annot_typ left, annot_typ right) of
          (Some l, Some r) \<Rightarrow> (Some l, [r])
        | (l, r) \<Rightarrow> (option_or l r, []))
     in TypeAnnotation typ (annot_contracts left @ leftover @ annot_contracts right))"

text \<open>
  \<open>TypeAnnotation::combine_dedup\<close>. The comparison \<open>type_eq_noenv\<close> of \<open>core/src/eval/contract_eq.rs\<close>
  is the parameter \<open>teq\<close>; the loop compares with the first \<open>len1\<close> contracts only.
\<close>

definition annotation_combine_dedup ::
    "('v ntype \<Rightarrow> 'v ntype \<Rightarrow> bool) \<Rightarrow> 'v type_annotation \<Rightarrow> 'v type_annotation \<Rightarrow> 'v type_annotation" where
  "annotation_combine_dedup teq left right =
    (let len1 = length (annot_contracts left);
         (typ, contracts) =
           (case (annot_typ left, annot_typ right) of
              (Some l, Some r) \<Rightarrow> (Some l, annot_contracts left @ [r])
            | (l, r) \<Rightarrow> (option_or l r, annot_contracts left));
         contracts' = foldl (\<lambda>cs ctr.
           if \<exists>c \<in> set (take len1 cs). teq (lt_typ c) (lt_typ ctr) then cs else cs @ [ctr])
           contracts (annot_contracts right)
     in TypeAnnotation typ contracts')"

datatype 'v field_metadata = FieldMetadata
  (fm_doc: "string option")
  (fm_annotation: "'v type_annotation")
  (fm_opt: bool)
  (fm_not_exported: bool)
  (fm_priority: merge_priority)

text \<open>\<open>SharedMetadata\<close>: \<open>None\<close> stands for the default metadata.\<close>

type_synonym 'v shared_metadata = "'v field_metadata option"

section \<open>Values, terms and records\<close>

datatype 'v runtime_contract = RuntimeContract (ctr_contract: 'v) (ctr_label: label)

datatype 'v field = Field
  (field_value: "'v option")
  (field_metadata: "'v shared_metadata")
  (field_pending_contracts: "'v runtime_contract list")

record record_attrs =
  attrs_open :: bool
  attrs_frozen :: bool

datatype 'v sealed_tail = SealedTail
  (tail_sealing_key: int)
  (tail_label: label)
  (tail_term: 'v)
  (tail_fields: "ident list")

datatype 'v record_data = RecordData
  (record_fields: "(ident \<times> 'v field) list")
  (record_attributes: record_attrs)
  (record_sealed_tail: "'v sealed_tail option")

text \<open>Empty arrays and records have an inline representation without an allocated block.\<close>

datatype 'd container = Empty | Alloc 'd

section \<open>Operators\<close>

datatype record_op_kind = IgnoreEmptyOpt | ConsiderAllFields

datatype record_ext_kind = WithValue | WithoutValue

datatype (plugins only: code size) unary_op =
    IfThenElse | Typeof | Cast | BoolAnd | BoolOr | BoolNot | Blame | EnumEmbed ident
  | TagsOnlyMatch bool | RecordAccess ident | ArrayMap | RecordMap | LabelFlipPol | LabelPol
  | LabelGoDom | LabelGoCodom | LabelGoArray | LabelGoDict | Seq | DeepSeq | ArrayLength | ArrayGen
  | ChunksConcat | RecordFields record_op_kind | RecordValues | StringTrim | StringChars
  | StringUppercase | StringLowercase | StringLength | ToString | NumberFromString | EnumFromString
  | StringIsMatch | StringFind | StringFindAll | StringIsMatchCompiled string
  | StringFindCompiled string | StringFindAllCompiled string | Force bool | RecDefault | RecForce
  | RecordEmptyWithTail | RecordFreeze | Trace | LabelPushDiag | EnumGetArg | EnumMakeVariant
  | EnumIsVariant | EnumGetTag | ContractCustom | ContractPostprocessResult
  | ContractAttachDefaultLabel | NumberArcCos | NumberArcSin | NumberArcTan | NumberCos | NumberSin
  | NumberTan

text \<open>
  The binary operators; \<open>RecordInsert\<close>, the only one that carries values, is kept apart from the
  others so that those form a plain enumeration.
\<close>

datatype (plugins only: code size) plain_binary_op =
    Plus | Sub | Mult | Div | Modulo | NumberArcTan2 | NumberLog | Pow | StringConcat | Eq
  | LessThan | LessOrEq | GreaterThan | GreaterOrEq | ContractApply | ContractCheck
  | LabelWithErrorData | Unseal | LabelGoField | RecordRemove record_op_kind | RecordGet
  | RecordHasField record_op_kind | RecordFieldIsDefined record_op_kind | RecordSplitPair
  | RecordDisjointMerge | ArrayConcat | ArrayAt | Merge merge_label | Hash | Serialize | Deserialize
  | StringSplit | StringContains | StringCompare | StringBase64Encode | StringBase64Decode | Seal
  | ContractArrayLazyApp | ContractRecordLazyApp | LabelWithMessage | LabelWithNotes
  | LabelAppendNote | LabelLookupTypeVar

datatype 'v binary_op =
    BinOp plain_binary_op
  | RecordInsert "'v shared_metadata" "'v runtime_contract list" record_ext_kind record_op_kind

datatype nary_op =
    StringReplace | StringReplaceRegex | StringSubstr | MergeContract | RecordSealTail
  | RecordUnsealTail | LabelInsertTypeVar | ArraySlice

definition nary_arity :: "nary_op \<Rightarrow> nat" where
  "nary_arity op = (if op = RecordSealTail then 4 else 3)"

section \<open>Values and terms\<close>

text \<open>Chunks of an interpolated string; an expression carries its indentation level.\<close>

datatype 'v str_chunk = Literal string | Expr 'v nat

record record_deps =
  stat_fields :: "(ident \<times> field_deps) list"
  dyn_fields :: "field_deps list"

text \<open>
  A delayed error: a field without a definition, and the two failures of pattern matching with the
  value that does not match; the others are numbered.
\<close>

datatype 'v runtime_error =
    MissingFieldDefError ident "'v field_metadata"
  | NonExhaustiveMatchError 'v
  | FailedDestructuringError 'v
  | OtherRuntimeError nat

text \<open>
  \<open>RecRecord\<close> carries the static part, the included fields with their metadata, the dynamic fields,
  the dependencies and whether the record has been closurized already.
\<close>

datatype (plugins only: code size) nickel_value =
    Null
  | Bool bool
  | Number rat
  | ArrayV "(nickel_value list \<times> nickel_value runtime_contract list) container"
  | RecordV "nickel_value record_data container"
  | String string
  | Thunk addr
  | TermV nickel_term
  | LabelV label
  | EnumVariant ident "nickel_value option"
  | ForeignId nat
  | SealingKey int
  | CustomContract nickel_value
  | TypeV "nickel_value ntype" nickel_value
and nickel_term =
    StrChunks "nickel_value str_chunk list"
  | Fun ident nickel_value
  | Let "(ident \<times> nickel_value) list" nickel_value binding_type bool
  | App nickel_value nickel_value
  | Var ident
  | RecRecord "nickel_value record_data" "(ident \<times> nickel_value field_metadata) list"
      "(nickel_value \<times> nickel_value field) list" "record_deps option" bool
  | Closurize nickel_value
  | Op1 unary_op nickel_value
  | Op2 "nickel_value binary_op" nickel_value nickel_value
  | OpN nary_op "nickel_value list"
  | Sealed int nickel_value label
  | Annotated "nickel_value type_annotation" nickel_value
  | Import nat
  | ResolvedImport nat
  | ParseError nat
  | RuntimeError "nickel_value runtime_error"

type_synonym nickel_type = "nickel_value ntype"
type_synonym nmetadata = "nickel_value field_metadata"
type_synonym nannotation = "nickel_value type_annotation"
type_synonym contract = "nickel_value runtime_contract"
type_synonym nfield = "nickel_value field"
type_synonym nrecord = "nickel_value record_data"

text \<open>
  The environment of a closure, as the finite map \<open>Environment_Layers\<close> shows the layered
  structure to implement.
\<close>

type_synonym env = "ident \<rightharpoonup> addr"

record closure =
  clo_value :: nickel_value
  clo_env :: env

definition closure_of_value :: "nickel_value \<Rightarrow> closure" where
  "closure_of_value v = \<lparr>clo_value = v, clo_env = Map.empty\<rparr>"

fun is_whnf :: "nickel_value \<Rightarrow> bool" where
  "is_whnf (Thunk _) = False"
| "is_whnf (TermV _) = False"
| "is_whnf _ = True"

fun is_constant :: "nickel_value \<Rightarrow> bool" where
  "is_constant Null = True"
| "is_constant (Bool _) = True"
| "is_constant (ArrayV Empty) = True"
| "is_constant (RecordV Empty) = True"
| "is_constant (Number _) = True"
| "is_constant (LabelV _) = True"
| "is_constant (ForeignId _) = True"
| "is_constant (SealingKey _) = True"
| "is_constant (String _) = True"
| "is_constant (EnumVariant _ arg) = (arg = None)"
| "is_constant _ = False"

section \<open>Contracts\<close>

definition map_contract :: "(nickel_value \<Rightarrow> nickel_value) \<Rightarrow> contract \<Rightarrow> contract" where
  "map_contract f c = RuntimeContract (f (ctr_contract c)) (ctr_label c)"

definition contract_apply :: "contract \<Rightarrow> nickel_value \<Rightarrow> nickel_value" where
  "contract_apply c value =
    TermV (App (TermV (Op2 (BinOp ContractApply) (ctr_contract c) (LabelV (ctr_label c)))) value)"

definition contract_apply_all :: "nickel_value \<Rightarrow> contract list \<Rightarrow> nickel_value" where
  "contract_apply_all value contracts = foldl (\<lambda>acc ctr. contract_apply ctr acc) value contracts"

text \<open>
  Contract equality (\<open>core/src/eval/contract_eq.rs\<close>) is the parameter \<open>ceq\<close>: the first two
  arguments are a contract and its environment, the last two the other ones. Its model is in \<open>Contract_Eq\<close>.
\<close>

type_synonym 'e contract_eq = "nickel_value \<Rightarrow> 'e \<Rightarrow> nickel_value \<Rightarrow> 'e \<Rightarrow> bool"

definition push_dedup ::
    "'e contract_eq \<Rightarrow> contract list \<Rightarrow> 'e \<Rightarrow> contract \<Rightarrow> 'e \<Rightarrow> contract list" where
  "push_dedup ceq contracts env1 ctr env2 =
    (if \<exists>c \<in> set contracts. ceq (ctr_contract c) env1 (ctr_contract ctr) env2
     then contracts else contracts @ [ctr])"

definition combine_dedup ::
    "'e contract_eq \<Rightarrow> contract list \<Rightarrow> 'e \<Rightarrow> contract list \<Rightarrow> 'e \<Rightarrow> contract list" where
  "combine_dedup ceq contracts1 env1 contracts2 env2 =
    (let len1 = length contracts1
     in foldl (\<lambda>result ctr2.
          if \<exists>c \<in> set (take len1 result). ceq (ctr_contract c) env1 (ctr_contract ctr2) env2
          then result else result @ [ctr2]) contracts1 contracts2)"

section \<open>Facts on priorities\<close>

text \<open>The position of a priority on a line: \<open>Neutral\<close> sits at the numeral 0.\<close>

fun priority_rank :: "merge_priority \<Rightarrow> int \<times> rat" where
  "priority_rank Bottom = (-1, 0)"
| "priority_rank Neutral = (0, 0)"
| "priority_rank (Numeral p) = (0, p)"
| "priority_rank Top = (1, 0)"

definition rank_less :: "int \<times> rat \<Rightarrow> int \<times> rat \<Rightarrow> bool" where
  "rank_less a b \<longleftrightarrow> fst a < fst b \<or> fst a = fst b \<and> snd a < snd b"

lemma rank_less_linear: "rank_less a b \<or> a = b \<or> rank_less b a"
  by (cases a; cases b) (auto simp: rank_less_def)

lemma rank_less_asym: "rank_less a b \<Longrightarrow> \<not> rank_less b a"
  by (auto simp: rank_less_def)

lemma rank_less_irrefl [simp]: "\<not> rank_less a a"
  by (simp add: rank_less_def)

lemma rank_less_trans: "rank_less a b \<Longrightarrow> rank_less b c \<Longrightarrow> rank_less a c"
  by (auto simp: rank_less_def)

lemma priority_cmp_rank:
  "priority_cmp p q = (if rank_less (priority_rank p) (priority_rank q) then Less
     else if priority_rank p = priority_rank q then Equal else Greater)"
  by (cases p; cases q) (auto simp: rank_less_def rat_cmp_def)

lemma priority_eq_rank: "priority_eq p q \<longleftrightarrow> priority_rank p = priority_rank q"
  by (cases p; cases q) auto

lemma priority_gt_rank: "priority_gt p q \<longleftrightarrow> rank_less (priority_rank q) (priority_rank p)"
  using rank_less_linear [of "priority_rank p" "priority_rank q"]
  by (auto simp: priority_gt_def priority_cmp_rank dest: rank_less_asym)

lemma priority_total: "priority_eq p q \<or> priority_gt p q \<or> priority_gt q p"
  using rank_less_linear [of "priority_rank p" "priority_rank q"]
  by (auto simp: priority_gt_rank priority_eq_rank)

lemma priority_gt_asym: "priority_gt p q \<Longrightarrow> \<not> priority_gt q p"
  by (auto simp: priority_gt_rank dest: rank_less_asym)

section \<open>Facts on deduplication\<close>

text \<open>The loops of the two deduplicating combinations, as a filter.\<close>

lemma foldl_dedup:
  "length p = n \<Longrightarrow>
   foldl (\<lambda>res y. if \<exists>c \<in> set (take n res). P c y then res else res @ [y]) (p @ q) ys
     = p @ q @ filter (\<lambda>y. \<not> (\<exists>c \<in> set p. P c y)) ys"
  by (induction ys arbitrary: q) auto

lemma combine_dedup_filter:
  "combine_dedup ceq cs1 e1 cs2 e2 =
    cs1 @ filter (\<lambda>c2. \<not> (\<exists>c \<in> set cs1. ceq (ctr_contract c) e1 (ctr_contract c2) e2)) cs2"
  using foldl_dedup [of cs1 "length cs1" "\<lambda>c c2. ceq (ctr_contract c) e1 (ctr_contract c2) e2" "[]" cs2]
  by (simp add: combine_dedup_def)

lemma annotation_iter_combine:
  "annotation_iter (annotation_combine a b) =
     (if annot_typ a = None \<and> annot_typ b \<noteq> None
      then the (annot_typ b) # annot_contracts a @ annot_contracts b
      else annotation_iter a @ annotation_iter b)"
  by (cases "annot_typ a"; cases "annot_typ b")
    (auto simp: annotation_combine_def annotation_iter_def option_or_def)

section \<open>Facts on sizes\<close>

lemma size_value: "field_value f = Some v \<Longrightarrow> size v < size_field size f"
  by (cases f) auto

lemma size_record_field:
  "(x, f) \<in> set (record_fields r) \<Longrightarrow> size_field size f < size_record_data size r"
  by (cases r) (auto dest!: size_list_estimation' [where f = "size_prod (\<lambda>_. 0) (size_field size)", OF _ order_refl])

end
