(* ===== verification/Thunk_Cache.thy ===== *)
theory Thunk_Cache
  imports Nickel_Value
begin

text \<open>
  Thunks and the call-by-need cache, \<open>core/src/eval/cache/lazy.rs\<close> and the trait of
  \<open>core/src/eval/cache/mod.rs\<close>.

  The heap is the list of the allocated thunk cells; an address is an index into it and a value
  \<open>Thunk a\<close> is a pointer to cell \<open>a\<close>. Allocation appends, nothing is freed. Operations take
  the heap and return it updated. \<open>None\<close> is a panic: reading a revertible thunk that has no
  cached value yet, building a cached value twice, or a pointer outside the heap (which safe code
  cannot form). Fields that exist only under the feature \<open>incremental-experimental\<close> are left
  out, as are the dynamic borrow checks of \<open>RefCell\<close>: no modelled operation holds two borrows.
\<close>

datatype thunk_state = Blackholed | Suspended | Evaluated

datatype inner_thunk_data =
    StandardThunk closure
  | RevertibleThunk (rev_orig: closure) (rev_cached: "closure option") (rev_deps: field_deps)

record thunk_data =
  td_inner :: inner_thunk_data
  td_state :: thunk_state
  td_locked :: bool

type_synonym heap = "thunk_data list"

datatype blackholed_error = BlackholedError

section \<open>Thunk data\<close>

definition td_new :: "closure \<Rightarrow> thunk_data" where
  "td_new c = \<lparr>td_inner = StandardThunk c, td_state = Suspended, td_locked = False\<rparr>"

definition td_new_rev :: "closure \<Rightarrow> field_deps \<Rightarrow> thunk_data" where
  "td_new_rev orig deps =
    \<lparr>td_inner = RevertibleThunk orig None deps, td_state = Suspended, td_locked = False\<rparr>"

definition env_extend :: "env \<Rightarrow> (ident \<times> addr) list \<Rightarrow> env" where
  "env_extend e kvs = foldl (\<lambda>e kv. e(fst kv \<mapsto> snd kv)) e kvs"

definition td_init_cached :: "thunk_data \<Rightarrow> (ident \<times> addr) list \<Rightarrow> thunk_data panics" where
  "td_init_cached td rec_env =
    (case td_inner td of
       StandardThunk _ \<Rightarrow> Some td
     | RevertibleThunk orig cached deps \<Rightarrow> do {
         assert_ok (cached = None);
         let new_cached =
           (case deps of
              Known d \<Rightarrow>
                if d = {} then orig
                else orig\<lparr>clo_env := env_extend (clo_env orig) (filter (\<lambda>(x, _). x \<in> d) rec_env)\<rparr>
            | Unknown \<Rightarrow> orig\<lparr>clo_env := env_extend (clo_env orig) rec_env\<rparr>);
         Some (td\<lparr>td_inner := RevertibleThunk orig (Some new_cached) deps\<rparr>)
       })"

definition revthunk_as_explicit_fun :: "thunk_data \<Rightarrow> ident list \<Rightarrow> thunk_data" where
  "revthunk_as_explicit_fun td args =
    (case td_inner td of
       StandardThunk _ \<Rightarrow> td
     | RevertibleThunk orig _ _ \<Rightarrow>
         td_new \<lparr>clo_value = foldr (\<lambda>x built. TermV (Fun x built)) args (clo_value orig),
                 clo_env = clo_env orig\<rparr>)"

definition td_closure :: "thunk_data \<Rightarrow> closure panics" where
  "td_closure td =
    (case td_inner td of StandardThunk c \<Rightarrow> Some c | RevertibleThunk _ cached _ \<Rightarrow> cached)"

definition td_closure_or_orig :: "thunk_data \<Rightarrow> closure" where
  "td_closure_or_orig td =
    (case td_inner td of
       StandardThunk c \<Rightarrow> c
     | RevertibleThunk orig cached _ \<Rightarrow> (case cached of Some c \<Rightarrow> c | None \<Rightarrow> orig))"

text \<open>\<open>closure_mut\<close>, as the function that changes the closure it gives access to.\<close>

definition td_map_closure :: "(closure \<Rightarrow> closure) \<Rightarrow> thunk_data \<Rightarrow> thunk_data" where
  "td_map_closure f td =
    (case td_inner td of
       StandardThunk c \<Rightarrow> td\<lparr>td_inner := StandardThunk (f c)\<rparr>
     | RevertibleThunk orig (Some c) deps \<Rightarrow> td\<lparr>td_inner := RevertibleThunk orig (Some (f c)) deps\<rparr>
     | RevertibleThunk orig None deps \<Rightarrow> td\<lparr>td_inner := RevertibleThunk (f orig) None deps\<rparr>)"

definition td_update :: "closure \<Rightarrow> thunk_data \<Rightarrow> thunk_data" where
  "td_update c td =
    (case td_inner td of
       StandardThunk _ \<Rightarrow> td\<lparr>td_inner := StandardThunk c, td_state := Evaluated\<rparr>
     | RevertibleThunk orig _ deps \<Rightarrow>
         td\<lparr>td_inner := RevertibleThunk orig (Some c) deps, td_state := Evaluated\<rparr>)"

definition td_deps :: "thunk_data \<Rightarrow> field_deps" where
  "td_deps td = (case td_inner td of StandardThunk _ \<Rightarrow> deps_empty | RevertibleThunk _ _ deps \<Rightarrow> deps)"

section \<open>Thunks\<close>

definition heap_read :: "heap \<Rightarrow> addr \<Rightarrow> thunk_data panics" where
  "heap_read h a = (if a < length h then Some (h ! a) else None)"

definition heap_alloc :: "heap \<Rightarrow> thunk_data \<Rightarrow> addr \<times> heap" where
  "heap_alloc h td = (length h, h @ [td])"

definition heap_map :: "(thunk_data \<Rightarrow> thunk_data) \<Rightarrow> heap \<Rightarrow> addr \<Rightarrow> heap panics" where
  "heap_map f h a = do { td \<leftarrow> heap_read h a; Some (h[a := f td]) }"

definition thunk_new :: "heap \<Rightarrow> closure \<Rightarrow> addr \<times> heap" where
  "thunk_new h c = heap_alloc h (td_new c)"

definition thunk_new_rev :: "heap \<Rightarrow> closure \<Rightarrow> field_deps \<Rightarrow> addr \<times> heap" where
  "thunk_new_rev h c deps =
    (if deps_is_empty deps then thunk_new h c else heap_alloc h (td_new_rev c deps))"

definition thunk_get_state :: "heap \<Rightarrow> addr \<Rightarrow> thunk_state panics" where
  "thunk_get_state h a = map_option td_state (heap_read h a)"

definition thunk_set_evaluated :: "heap \<Rightarrow> addr \<Rightarrow> heap panics" where
  "thunk_set_evaluated h a = heap_map (\<lambda>td. td\<lparr>td_state := Evaluated\<rparr>) h a"

definition thunk_lock :: "heap \<Rightarrow> addr \<Rightarrow> (bool \<times> heap) panics" where
  "thunk_lock h a = do {
     td \<leftarrow> heap_read h a;
     if td_locked td then Some (False, h) else Some (True, h[a := td\<lparr>td_locked := True\<rparr>]) }"

definition thunk_unlock :: "heap \<Rightarrow> addr \<Rightarrow> (bool \<times> heap) panics" where
  "thunk_unlock h a = do {
     td \<leftarrow> heap_read h a;
     Some (td_locked td, h[a := td\<lparr>td_locked := False\<rparr>]) }"

definition mk_update_frame :: "heap \<Rightarrow> addr \<Rightarrow> ((blackholed_error + addr) \<times> heap) panics" where
  "mk_update_frame h a = do {
     td \<leftarrow> heap_read h a;
     if td_state td = Blackholed then Some (Inl BlackholedError, h)
     else Some (Inr a, h[a := td\<lparr>td_state := Blackholed\<rparr>]) }"

definition thunk_borrow :: "heap \<Rightarrow> addr \<Rightarrow> closure panics" where
  "thunk_borrow h a = do { td \<leftarrow> heap_read h a; td_closure td }"

definition thunk_borrow_orig :: "heap \<Rightarrow> addr \<Rightarrow> closure panics" where
  "thunk_borrow_orig h a = map_option td_closure_or_orig (heap_read h a)"

definition thunk_get_owned :: "heap \<Rightarrow> addr \<Rightarrow> closure panics" where
  "thunk_get_owned h a = do { td \<leftarrow> heap_read h a; td_closure td }"

definition thunk_revert :: "heap \<Rightarrow> addr \<Rightarrow> (addr \<times> heap) panics" where
  "thunk_revert h a = do {
     td \<leftarrow> heap_read h a;
     case td_inner td of
       StandardThunk _ \<Rightarrow> Some (a, h)
     | RevertibleThunk orig _ deps \<Rightarrow>
         Some (heap_alloc h \<lparr>td_inner = RevertibleThunk orig None deps,
           td_state = Suspended, td_locked = False\<rparr>) }"

definition thunk_build_cached :: "heap \<Rightarrow> addr \<Rightarrow> (ident \<times> addr) list \<Rightarrow> heap panics" where
  "thunk_build_cached h a rec_env = do {
     td \<leftarrow> heap_read h a;
     td' \<leftarrow> td_init_cached td rec_env;
     Some (h[a := td']) }"

definition thunk_deps :: "heap \<Rightarrow> addr \<Rightarrow> field_deps panics" where
  "thunk_deps h a = map_option td_deps (heap_read h a)"

text \<open>
  \<open>saturate\<close> takes the thunk data out of its block, or clones them when the block is shared; a
  pointer the caller keeps still sees the old block, so the model always copies.
\<close>

definition deps_filter :: "field_deps \<Rightarrow> ident \<Rightarrow> bool" where
  "deps_filter deps x = (case deps of Known d \<Rightarrow> x \<in> d | Unknown \<Rightarrow> True)"

definition thunk_saturate :: "heap \<Rightarrow> addr \<Rightarrow> ident list \<Rightarrow> (nickel_value \<times> heap) panics" where
  "thunk_saturate h a flds = do {
     deps \<leftarrow> thunk_deps h a;
     inner \<leftarrow> heap_read h a;
     let args = filter (deps_filter deps) flds;
     let (f, h') = heap_alloc h (revthunk_as_explicit_fun inner args);
     Some (foldl (\<lambda>partial_app arg. TermV (App partial_app arg)) (Thunk f)
             (map (\<lambda>x. TermV (Var x)) args), h') }"

definition thunk_should_update :: "heap \<Rightarrow> addr \<Rightarrow> bool panics" where
  "thunk_should_update h a = do { c \<leftarrow> thunk_borrow h a; Some (\<not> is_whnf (clo_value c)) }"

definition thunk_update :: "heap \<Rightarrow> addr \<Rightarrow> closure \<Rightarrow> heap panics" where
  "thunk_update h a c = heap_map (td_update c) h a"

definition thunk_reset_state :: "heap \<Rightarrow> addr \<Rightarrow> heap panics" where
  "thunk_reset_state h a = heap_map (\<lambda>td. td\<lparr>td_state := Suspended\<rparr>) h a"

section \<open>The cache\<close>

definition cache_get :: "heap \<Rightarrow> addr \<Rightarrow> closure panics" where
  "cache_get h a = thunk_get_owned h a"

definition get_update_index ::
    "heap \<Rightarrow> addr \<Rightarrow> ((blackholed_error + addr option) \<times> heap) panics" where
  "get_update_index h a = do {
     st \<leftarrow> thunk_get_state h a;
     if st = Evaluated then Some (Inr None, h)
     else do {
       upd \<leftarrow> thunk_should_update h a;
       if \<not> upd \<and> st \<noteq> Blackholed then do {
         h' \<leftarrow> thunk_set_evaluated h a;
         Some (Inr None, h') }
       else do {
         (r, h') \<leftarrow> mk_update_frame h a;
         Some (case r of Inl e \<Rightarrow> Inl e | Inr u \<Rightarrow> Inr (Some u), h') } } }"

definition cache_add :: "heap \<Rightarrow> closure \<Rightarrow> binding_type \<Rightarrow> addr \<times> heap" where
  "cache_add h c bty = (case bty of Normal \<Rightarrow> thunk_new h c | Revertible deps \<Rightarrow> thunk_new_rev h c deps)"

definition cache_patch :: "heap \<Rightarrow> addr \<Rightarrow> (closure \<Rightarrow> closure) \<Rightarrow> heap panics" where
  "cache_patch h a f = heap_map (td_map_closure f) h a"

definition cache_get_then :: "heap \<Rightarrow> addr \<Rightarrow> (closure \<Rightarrow> 't) \<Rightarrow> 't panics" where
  "cache_get_then h a f = map_option f (thunk_borrow h a)"

definition cache_deps :: "heap \<Rightarrow> addr \<Rightarrow> field_deps option panics" where
  "cache_deps h a = map_option Some (thunk_deps h a)"

section \<open>Lemmas\<close>

lemma heap_read_in [simp]: "a < length h \<Longrightarrow> heap_read h a = Some (h ! a)"
  by (simp add: heap_read_def)

lemma heap_read_Some_iff: "heap_read h a = Some td \<longleftrightarrow> a < length h \<and> td = h ! a"
  by (auto simp: heap_read_def)

lemma env_extend_eq: "env_extend e kvs = e ++ map_of (rev kvs)"
  unfolding env_extend_def
  by (induction kvs arbitrary: e) (auto simp: map_add_def fun_eq_iff split: option.splits)

lemma deps_is_empty_iff [simp]: "deps_is_empty d \<longleftrightarrow> d = deps_empty"
  by (cases d) (auto simp: deps_empty_def)

text \<open>What a thunk represents apart from memoisation: its original expression and dependencies.\<close>

definition origin :: "thunk_data \<Rightarrow> (closure \<times> field_deps) option" where
  "origin td =
    (case td_inner td of StandardThunk _ \<Rightarrow> None | RevertibleThunk orig _ deps \<Rightarrow> Some (orig, deps))"

lemma origin_inner [simp]:
  "origin (td\<lparr>td_state := s\<rparr>) = origin td" "origin (td\<lparr>td_locked := l\<rparr>) = origin td"
  by (simp_all add: origin_def)

lemma origin_update [simp]: "origin (td_update c td) = origin td"
  by (simp add: origin_def td_update_def split: inner_thunk_data.split)

lemma td_init_cached_cases:
  assumes "td_init_cached td env = Some td'"
  obtains "td' = td"
  | orig c deps where "td_inner td = RevertibleThunk orig None deps"
      "td' = td\<lparr>td_inner := RevertibleThunk orig (Some c) deps\<rparr>"
  using assms by (auto simp: td_init_cached_def Let_def panic_simps split: inner_thunk_data.splits if_splits)

lemma origin_init_cached: "td_init_cached td env = Some td' \<Longrightarrow> origin td' = origin td"
  by (erule td_init_cached_cases) (auto simp: origin_def)

lemma td_closure_update [simp]: "td_closure (td_update c td) = Some c"
  by (simp add: td_closure_def td_update_def split: inner_thunk_data.split)

lemma td_state_update [simp]: "td_state (td_update c td) = Evaluated"
  by (simp add: td_update_def split: inner_thunk_data.split)

lemma td_closure_flags [simp]:
  "td_closure (td\<lparr>td_state := s\<rparr>) = td_closure td" "td_closure (td\<lparr>td_locked := l\<rparr>) = td_closure td"
  by (simp_all add: td_closure_def)

section \<open>Runs of cache operations\<close>

text \<open>
  The operations the evaluator performs on thunks once they are allocated and their environment
  patched, as a step relation on heaps.
\<close>

inductive cache_step :: "heap \<Rightarrow> heap \<Rightarrow> bool" where
  step_add: "cache_add h c bty = (a, h') \<Longrightarrow> cache_step h h'"
| step_enter: "get_update_index h a = Some (r, h') \<Longrightarrow> cache_step h h'"
| step_frame: "mk_update_frame h a = Some (r, h') \<Longrightarrow> cache_step h h'"
| step_update: "thunk_update h a c = Some h' \<Longrightarrow> cache_step h h'"
| step_reset: "thunk_reset_state h a = Some h' \<Longrightarrow> cache_step h h'"
| step_build: "thunk_build_cached h a rec_env = Some h' \<Longrightarrow> cache_step h h'"
| step_saturate: "thunk_saturate h a flds = Some (v, h') \<Longrightarrow> cache_step h h'"
| step_revert: "thunk_revert h a = Some (b, h') \<Longrightarrow> cache_step h h'"
| step_lock: "thunk_lock h a = Some (b, h') \<Longrightarrow> cache_step h h'"
| step_unlock: "thunk_unlock h a = Some (b, h') \<Longrightarrow> cache_step h h'"

inductive_cases cache_stepE: "cache_step h h'"

text \<open>A step changes one cell, keeping its origin, or appends one.\<close>

definition thunk_ok :: "thunk_data \<Rightarrow> bool" where
  "thunk_ok td \<longleftrightarrow>
    (td_state td = Evaluated \<longrightarrow> td_closure td \<noteq> None) \<and>
    (\<forall>orig deps. origin td = Some (orig, deps) \<longrightarrow> deps \<noteq> deps_empty)"

definition heap_ok :: "heap \<Rightarrow> bool" where
  "heap_ok h \<longleftrightarrow> (\<forall>td \<in> set h. thunk_ok td)"

lemma thunk_ok_new [simp]: "thunk_ok (td_new c)"
  by (simp add: thunk_ok_def td_new_def origin_def)

lemma thunk_ok_new_rev [simp]: "d \<noteq> deps_empty \<Longrightarrow> thunk_ok (td_new_rev c d)"
  by (simp add: thunk_ok_def td_new_rev_def origin_def)

lemma cache_add_cases: "cache_add h c bty = (a, h') \<Longrightarrow> \<exists>td. h' = h @ [td] \<and> a = length h \<and> thunk_ok td"
  by (auto simp: cache_add_def thunk_new_def thunk_new_rev_def heap_alloc_def
      split: binding_type.splits if_splits)

lemma get_update_index_cases:
  assumes "get_update_index h a = Some (r, h')" and "thunk_ok (h ! a)"
  shows "h' = h \<or> (a < length h \<and> (\<exists>td. h' = h[a := td] \<and> origin td = origin (h ! a) \<and> thunk_ok td))"
  using assms
  by (auto simp: get_update_index_def thunk_get_state_def thunk_should_update_def thunk_borrow_def
      thunk_set_evaluated_def heap_map_def mk_update_frame_def heap_read_Some_iff bind_eq_Some_conv
      thunk_ok_def split: if_splits)

lemma mk_update_frame_cases:
  assumes "mk_update_frame h a = Some (r, h')" and "thunk_ok (h ! a)"
  shows "h' = h \<or> (a < length h \<and> (\<exists>td. h' = h[a := td] \<and> origin td = origin (h ! a) \<and> thunk_ok td))"
  using assms
  by (auto simp: mk_update_frame_def heap_read_Some_iff bind_eq_Some_conv thunk_ok_def split: if_splits)

lemma thunk_ok_init_cached:
  "td_init_cached td env = Some td' \<Longrightarrow> thunk_ok td \<Longrightarrow> thunk_ok td'"
  by (erule td_init_cached_cases) (auto simp: thunk_ok_def origin_def td_closure_def)

lemma cache_step_shape:
  assumes "cache_step h h'" and "heap_ok h"
  shows "h' = h
    \<or> (\<exists>a td. a < length h \<and> h' = h[a := td] \<and> origin td = origin (h ! a) \<and> thunk_ok td)
    \<or> (\<exists>td. h' = h @ [td] \<and> thunk_ok td)"
proof -
  have ok: "thunk_ok (h ! a)" if "a < length h" for a using assms(2) that by (simp add: heap_ok_def)
  show ?thesis
    using assms(1)
  proof (cases rule: cache_step.cases)
    case (step_add c bty a)
    then show ?thesis using cache_add_cases by blast
  next
    case (step_enter a r)
    then have "a < length h"
      by (auto simp: get_update_index_def thunk_get_state_def heap_read_Some_iff bind_eq_Some_conv)
    with step_enter get_update_index_cases ok show ?thesis by blast
  next
    case (step_frame a r)
    then have "a < length h" by (auto simp: mk_update_frame_def heap_read_Some_iff bind_eq_Some_conv)
    with step_frame mk_update_frame_cases ok show ?thesis by blast
  next
    case (step_update a c)
    then have a: "a < length h" "h' = h[a := td_update c (h ! a)]"
      by (auto simp: thunk_update_def heap_map_def heap_read_Some_iff bind_eq_Some_conv)
    then have "thunk_ok (td_update c (h ! a))" using ok [OF a(1)] by (simp add: thunk_ok_def)
    with a show ?thesis by (metis origin_update)
  next
    case (step_reset a)
    then have a: "a < length h" "h' = h[a := (h ! a)\<lparr>td_state := Suspended\<rparr>]"
      by (auto simp: thunk_reset_state_def heap_map_def heap_read_Some_iff bind_eq_Some_conv)
    then have "thunk_ok ((h ! a)\<lparr>td_state := Suspended\<rparr>)" using ok [OF a(1)] by (simp add: thunk_ok_def)
    with a show ?thesis by (metis origin_inner(1))
  next
    case (step_build a rec_env)
    then obtain td where a: "a < length h" "td_init_cached (h ! a) rec_env = Some td" "h' = h[a := td]"
      by (auto simp: thunk_build_cached_def heap_read_Some_iff bind_eq_Some_conv)
    then show ?thesis using origin_init_cached thunk_ok_init_cached ok by blast
  next
    case (step_saturate a flds v)
    then obtain args where a: "a < length h" "h' = h @ [revthunk_as_explicit_fun (h ! a) args]"
      by (auto simp: thunk_saturate_def thunk_deps_def heap_read_Some_iff bind_eq_Some_conv heap_alloc_def Let_def)
    then have "thunk_ok (revthunk_as_explicit_fun (h ! a) args)"
      using ok [OF a(1)] by (simp add: revthunk_as_explicit_fun_def split: inner_thunk_data.split)
    with a show ?thesis by blast
  next
    case (step_revert a b)
    then have a: "a < length h" by (auto simp: thunk_revert_def heap_read_Some_iff bind_eq_Some_conv)
    show ?thesis
    proof (cases "td_inner (h ! a)")
      case (StandardThunk c)
      then show ?thesis using step_revert a by (simp add: thunk_revert_def)
    next
      case (RevertibleThunk orig cached deps)
      then have "deps \<noteq> deps_empty" using ok [OF a] by (simp add: thunk_ok_def origin_def)
      then show ?thesis using step_revert a RevertibleThunk thunk_ok_new_rev [of deps orig]
        by (auto simp: thunk_revert_def heap_alloc_def td_new_rev_def)
    qed
  next
    case (step_lock a b)
    then have a: "a < length h" by (auto simp: thunk_lock_def heap_read_Some_iff bind_eq_Some_conv)
    have "thunk_ok ((h ! a)\<lparr>td_locked := True\<rparr>)" using ok [OF a] by (simp add: thunk_ok_def)
    with step_lock a show ?thesis
      by (auto simp: thunk_lock_def split: if_splits intro!: exI [of _ a])
  next
    case (step_unlock a b)
    then have a: "a < length h" by (auto simp: thunk_unlock_def heap_read_Some_iff bind_eq_Some_conv)
    have "thunk_ok ((h ! a)\<lparr>td_locked := False\<rparr>)" using ok [OF a] by (simp add: thunk_ok_def)
    with step_unlock a show ?thesis by (auto simp: thunk_unlock_def intro!: exI [of _ a])
  qed
qed

lemma cache_step_invariant:
  assumes "cache_step h h'" and "heap_ok h"
  shows "heap_ok h' \<and> length h \<le> length h' \<and> (\<forall>a < length h. origin (h' ! a) = origin (h ! a))"
  using cache_step_shape [OF assms] assms(2) set_update_subset_insert
  by (fastforce simp: heap_ok_def nth_list_update nth_append)

lemma cache_run_invariant:
  assumes "cache_step\<^sup>*\<^sup>* h h'" and "heap_ok h"
  shows "heap_ok h' \<and> length h \<le> length h' \<and> (\<forall>a < length h. origin (h' ! a) = origin (h ! a))"
  using assms
proof (induction rule: rtranclp_induct)
  case (step h1 h2)
  then show ?case using cache_step_invariant [OF step(2)] by auto
qed simp

end
