(* ===== verification/Eval_Stack.thy ===== *)
theory Eval_Stack
  imports Thunk_Cache "HOL-Library.Word"
begin

text \<open>
  The evaluation stack, \<open>core/src/eval/stack.rs\<close>: items of different types written one after the
  other, as untyped bytes, in one vector. A push writes the memory of the item and then a marker
  byte; a pop reads the marker, decides from it which type to materialise and how many bytes to
  drop.

  \<^item> A byte of memory is either a plain byte or the \<open>i\<close>-th byte of the representation of an item
    (\<open>Fragment\<close>): the compiler chooses the representation, the code only copies it. Materialising
    an item from anything but the full and exact sequence of its bytes, at its own type, is
    undefined behaviour, and so is reading a marker from a byte that is none. Both are
    \<open>None\<close>, like the panics of the checked subtractions.
  \<^item> The size of each item type, \<open>size_of::<T>()\<close>, is the parameter \<open>sz\<close>.
  \<^item> The vector's capacity and the \<open>ManuallyDrop\<close> discipline have no counterpart.
\<close>

section \<open>Markers and items\<close>

datatype marker = MEq | MArg | MTrackedArg | MUpdateIndex | MOp1Cont | MOp2FirstCont
  | MOp2SecondCont | MOpNCont | MStrChunk | MStrAcc

type_synonym pos_idx = nat

record primop_app_info =
  call_stack_size :: nat
  app_pos_idx :: pos_idx


datatype stack_item =
    EqItem closure closure
  | ArgItem closure pos_idx
  | TrackedArgItem addr pos_idx
  | UpdateIndexItem addr
  | Op1ContItem unary_op primop_app_info pos_idx
  | Op2FirstContItem "nickel_value binary_op" primop_app_info closure pos_idx
  | Op2SecondContItem "nickel_value binary_op" primop_app_info closure pos_idx pos_idx
  | OpNContItem nary_op primop_app_info "(closure \<times> pos_idx) list" "closure list" pos_idx
  | StrChunkItem "nickel_value str_chunk"
  | StrAccItem string env nat pos_idx

text \<open>\<open>T::marker()\<close> for the type of an item.\<close>

fun item_marker :: "stack_item \<Rightarrow> marker" where
  "item_marker (EqItem _ _) = MEq"
| "item_marker (ArgItem _ _) = MArg"
| "item_marker (TrackedArgItem _ _) = MTrackedArg"
| "item_marker (UpdateIndexItem _) = MUpdateIndex"
| "item_marker (Op1ContItem _ _ _) = MOp1Cont"
| "item_marker (Op2FirstContItem _ _ _ _) = MOp2FirstCont"
| "item_marker (Op2SecondContItem _ _ _ _ _) = MOp2SecondCont"
| "item_marker (OpNContItem _ _ _ _ _) = MOpNCont"
| "item_marker (StrChunkItem _) = MStrChunk"
| "item_marker (StrAccItem _ _ _ _) = MStrAcc"

definition is_arg :: "marker \<Rightarrow> bool" where
  "is_arg m \<longleftrightarrow> m = MArg \<or> m = MTrackedArg"

definition is_idx :: "marker \<Rightarrow> bool" where
  "is_idx m \<longleftrightarrow> m = MUpdateIndex"

definition is_cont :: "marker \<Rightarrow> bool" where
  "is_cont m \<longleftrightarrow> m \<in> {MOp1Cont, MOp2FirstCont, MOp2SecondCont, MOpNCont}"

text \<open>The representation \<open>repr(u8)\<close> of markers: declaration order.\<close>

definition all_markers :: "marker list" where
  "all_markers = [MEq, MArg, MTrackedArg, MUpdateIndex, MOp1Cont, MOp2FirstCont, MOp2SecondCont,
    MOpNCont, MStrChunk, MStrAcc]"

fun marker_u8 :: "marker \<Rightarrow> 8 word" where
  "marker_u8 MEq = 0" | "marker_u8 MArg = 1" | "marker_u8 MTrackedArg = 2"
| "marker_u8 MUpdateIndex = 3" | "marker_u8 MOp1Cont = 4" | "marker_u8 MOp2FirstCont = 5"
| "marker_u8 MOp2SecondCont = 6" | "marker_u8 MOpNCont = 7" | "marker_u8 MStrChunk = 8"
| "marker_u8 MStrAcc = 9"

definition u8_marker :: "8 word \<Rightarrow> marker panics" where
  "u8_marker b = (if unat b < length all_markers then Some (all_markers ! unat b) else None)"

section \<open>The byte vector\<close>

datatype mem_byte = Plain "8 word" | Fragment stack_item nat

type_synonym bytes = "mem_byte list"
type_synonym sizes = "marker \<Rightarrow> nat"

definition item_bytes :: "sizes \<Rightarrow> stack_item \<Rightarrow> bytes" where
  "item_bytes sz it = map (Fragment it) [0 ..< sz (item_marker it)]"

definition materialize :: "sizes \<Rightarrow> marker \<Rightarrow> bytes \<Rightarrow> stack_item panics" where
  "materialize sz m bs =
    (case bs of
       Fragment it _ # _ \<Rightarrow>
         if item_marker it = m \<and> bs = item_bytes sz it then Some it else None
     | _ \<Rightarrow> None)"

definition stack_new :: bytes where
  "stack_new = []"

definition stack_push :: "sizes \<Rightarrow> stack_item \<Rightarrow> bytes \<Rightarrow> bytes" where
  "stack_push sz it data = data @ item_bytes sz it @ [Plain (marker_u8 (item_marker it))]"

definition top_marker :: "bytes \<Rightarrow> marker option panics" where
  "top_marker data =
    (if data = [] then Some None
     else case last data of
       Plain b \<Rightarrow> map_option Some (u8_marker b)
     | Fragment _ _ \<Rightarrow> None)"

definition read_unchecked :: "sizes \<Rightarrow> marker \<Rightarrow> bytes \<Rightarrow> stack_item panics" where
  "read_unchecked sz m data = do {
     assert_ok (1 \<le> length data);
     assert_ok (sz m \<le> length data - 1);
     let data_offset = length data - 1 - sz m;
     materialize sz m (take (sz m) (drop data_offset data)) }"

definition pop_unchecked :: "sizes \<Rightarrow> marker \<Rightarrow> bytes \<Rightarrow> (stack_item \<times> bytes) panics" where
  "pop_unchecked sz m data = do {
     it \<leftarrow> read_unchecked sz m data;
     Some (it, take (length data - 1 - sz m) data) }"

definition stack_pop :: "sizes \<Rightarrow> marker \<Rightarrow> bytes \<Rightarrow> (stack_item option \<times> bytes) panics" where
  "stack_pop sz m data = do {
     top \<leftarrow> top_marker data;
     case top of
       None \<Rightarrow> Some (None, data)
     | Some t \<Rightarrow>
         if t \<noteq> m then Some (None, data)
         else do { (it, data') \<leftarrow> pop_unchecked sz m data; Some (Some it, data') } }"

text \<open>\<open>drop_top\<close>: every branch of its match pops the type of the marker.\<close>

definition drop_top :: "sizes \<Rightarrow> bytes \<Rightarrow> bytes panics" where
  "drop_top sz data = do {
     top \<leftarrow> top_marker data;
     case top of
       None \<Rightarrow> Some data
     | Some t \<Rightarrow> do { (_, data') \<leftarrow> pop_unchecked sz t data; Some data' } }"

partial_function (option) stack_drop :: "sizes \<Rightarrow> bytes \<Rightarrow> bytes panics" where
  [code]: "stack_drop sz data =
    (if data = [] then Some [] else do { data' \<leftarrow> drop_top sz data; stack_drop sz data' })"

partial_function (option) unwind :: "sizes \<Rightarrow> bytes \<Rightarrow> heap \<Rightarrow> (bytes \<times> heap) panics" where
  [code]: "unwind sz data h =
    (if data = [] then Some ([], h)
     else do {
       top \<leftarrow> top_marker data;
       if top = Some MUpdateIndex then do {
         (it, data') \<leftarrow> pop_unchecked sz MUpdateIndex data;
         case it of
           UpdateIndexItem u \<Rightarrow> do { h' \<leftarrow> thunk_reset_state h u; unwind sz data' h' }
         | _ \<Rightarrow> None }
       else do { data' \<leftarrow> drop_top sz data; unwind sz data' h } })"

text \<open>The iterator over the markers, from the top; \<open>cursor\<close> is one past the current marker.\<close>

partial_function (option) markers_from :: "sizes \<Rightarrow> bytes \<Rightarrow> nat \<Rightarrow> marker list panics" where
  [code]: "markers_from sz data cursor =
    (if cursor = 0 then Some []
     else do {
       m \<leftarrow> (case data ! (cursor - 1) of Plain b \<Rightarrow> u8_marker b | Fragment _ _ \<Rightarrow> None);
       assert_ok (1 + sz m \<le> cursor);
       ms \<leftarrow> markers_from sz data (cursor - (1 + sz m));
       Some (m # ms) })"

definition stack_markers :: "sizes \<Rightarrow> bytes \<Rightarrow> marker list panics" where
  "stack_markers sz data = markers_from sz data (length data)"

definition stack_count :: "sizes \<Rightarrow> (marker \<Rightarrow> bool) \<Rightarrow> bytes \<Rightarrow> nat panics" where
  "stack_count sz P data = map_option (\<lambda>ms. length (takeWhile P ms)) (stack_markers sz data)"

section \<open>The typed operations\<close>

definition push_arg :: "sizes \<Rightarrow> closure \<Rightarrow> pos_idx \<Rightarrow> bytes \<Rightarrow> bytes" where
  "push_arg sz arg pos data = stack_push sz (ArgItem arg pos) data"

definition push_tracked_arg :: "sizes \<Rightarrow> addr \<Rightarrow> pos_idx \<Rightarrow> bytes \<Rightarrow> bytes" where
  "push_tracked_arg sz a pos data = stack_push sz (TrackedArgItem a pos) data"

definition push_update_index :: "sizes \<Rightarrow> addr \<Rightarrow> bytes \<Rightarrow> bytes" where
  "push_update_index sz u data = stack_push sz (UpdateIndexItem u) data"

definition push_eqs :: "sizes \<Rightarrow> (closure \<times> closure) list \<Rightarrow> bytes \<Rightarrow> bytes" where
  "push_eqs sz eqs data = foldl (\<lambda>data (a, b). stack_push sz (EqItem a b) data) data eqs"

definition push_str_chunks :: "sizes \<Rightarrow> nickel_value str_chunk list \<Rightarrow> bytes \<Rightarrow> bytes" where
  "push_str_chunks sz chunks data = foldl (\<lambda>data c. stack_push sz (StrChunkItem c) data) data chunks"

definition pop_arg :: "sizes \<Rightarrow> heap \<Rightarrow> bytes \<Rightarrow> ((closure \<times> pos_idx) option \<times> bytes) panics" where
  "pop_arg sz h data = do {
     top \<leftarrow> top_marker data;
     if top = Some MArg then do {
       (it, data') \<leftarrow> pop_unchecked sz MArg data;
       case it of ArgItem arg pos \<Rightarrow> Some (Some (arg, pos), data') | _ \<Rightarrow> None }
     else if top = Some MTrackedArg then do {
       (it, data') \<leftarrow> pop_unchecked sz MTrackedArg data;
       case it of
         TrackedArgItem a pos \<Rightarrow> do { c \<leftarrow> cache_get h a; Some (Some (c, pos), data') }
       | _ \<Rightarrow> None }
     else Some (None, data) }"

definition pop_arg_as_idx ::
    "sizes \<Rightarrow> heap \<Rightarrow> bytes \<Rightarrow> ((addr \<times> pos_idx) option \<times> bytes \<times> heap) panics" where
  "pop_arg_as_idx sz h data = do {
     top \<leftarrow> top_marker data;
     if top = Some MArg then do {
       (it, data') \<leftarrow> pop_unchecked sz MArg data;
       case it of
         ArgItem arg pos \<Rightarrow> let (a, h') = cache_add h arg Normal in Some (Some (a, pos), data', h')
       | _ \<Rightarrow> None }
     else if top = Some MTrackedArg then do {
       (it, data') \<leftarrow> pop_unchecked sz MTrackedArg data;
       case it of TrackedArgItem a pos \<Rightarrow> Some (Some (a, pos), data', h) | _ \<Rightarrow> None }
     else Some (None, data, h) }"

definition pop_update_index :: "sizes \<Rightarrow> bytes \<Rightarrow> (addr option \<times> bytes) panics" where
  "pop_update_index sz data = do {
     (r, data') \<leftarrow> stack_pop sz MUpdateIndex data;
     case r of
       None \<Rightarrow> Some (None, data')
     | Some (UpdateIndexItem u) \<Rightarrow> Some (Some u, data')
     | _ \<Rightarrow> None }"

definition pop_eq :: "sizes \<Rightarrow> bytes \<Rightarrow> (stack_item option \<times> bytes) panics" where
  "pop_eq sz data = stack_pop sz MEq data"

definition pop_op1_cont :: "sizes \<Rightarrow> bytes \<Rightarrow> (stack_item option \<times> bytes) panics" where
  "pop_op1_cont sz data = stack_pop sz MOp1Cont data"

definition pop_op2_first_cont :: "sizes \<Rightarrow> bytes \<Rightarrow> (stack_item option \<times> bytes) panics" where
  "pop_op2_first_cont sz data = stack_pop sz MOp2FirstCont data"

definition pop_op2_second_cont :: "sizes \<Rightarrow> bytes \<Rightarrow> (stack_item option \<times> bytes) panics" where
  "pop_op2_second_cont sz data = stack_pop sz MOp2SecondCont data"

definition pop_opn_cont :: "sizes \<Rightarrow> bytes \<Rightarrow> (stack_item option \<times> bytes) panics" where
  "pop_opn_cont sz data = stack_pop sz MOpNCont data"

definition pop_str_chunk :: "sizes \<Rightarrow> bytes \<Rightarrow> (nickel_value str_chunk option \<times> bytes) panics" where
  "pop_str_chunk sz data = do {
     (r, data') \<leftarrow> stack_pop sz MStrChunk data;
     case r of
       None \<Rightarrow> Some (None, data')
     | Some (StrChunkItem c) \<Rightarrow> Some (Some c, data')
     | _ \<Rightarrow> None }"

definition pop_str_acc :: "sizes \<Rightarrow> bytes \<Rightarrow> (stack_item option \<times> bytes) panics" where
  "pop_str_acc sz data = stack_pop sz MStrAcc data"

datatype sealed_cont = SealedUnseal | SealedSeq | SealedOther

definition peek_sealed_cont :: "sizes \<Rightarrow> bytes \<Rightarrow> sealed_cont panics" where
  "peek_sealed_cont sz data = do {
     top \<leftarrow> top_marker data;
     if top = Some MOp1Cont then do {
       it \<leftarrow> read_unchecked sz MOp1Cont data;
       case it of
         Op1ContItem op _ _ \<Rightarrow> Some (if op = Seq then SealedSeq else SealedOther)
       | _ \<Rightarrow> None }
     else if top = Some MOp2SecondCont then do {
       it \<leftarrow> read_unchecked sz MOp2SecondCont data;
       case it of
         Op2SecondContItem op _ _ _ _ \<Rightarrow> Some (if op = BinOp Unseal then SealedUnseal else SealedOther)
       | _ \<Rightarrow> None }
     else Some SealedOther }"

definition is_top_idx :: "bytes \<Rightarrow> bool panics" where
  "is_top_idx data = map_option (\<lambda>t. case t of None \<Rightarrow> False | Some m \<Rightarrow> is_idx m) (top_marker data)"

definition is_top_cont :: "bytes \<Rightarrow> bool panics" where
  "is_top_cont data = map_option (\<lambda>t. case t of None \<Rightarrow> False | Some m \<Rightarrow> is_cont m) (top_marker data)"

partial_function (option) clear_eqs :: "sizes \<Rightarrow> bytes \<Rightarrow> bytes panics" where
  [code]: "clear_eqs sz data = do {
     (r, data') \<leftarrow> pop_eq sz data;
     if r \<noteq> None then clear_eqs sz data' else Some data' }"

end
