(* ===== verification/Thunk_Props.thy ===== *)
theory Thunk_Props
  imports Thunk_Cache
begin

text \<open>
  The properties of thunks: the call-by-need protocol, what reverting gives back after any run of
  cache operations, and the safety of reading.
\<close>

lemma get_update_index_table:
  assumes "a < length h" and "td_closure (h ! a) = Some c"
  shows "get_update_index h a = Some
    (case td_state (h ! a) of
       Evaluated \<Rightarrow> (Inr None, h)
     | Blackholed \<Rightarrow> (Inl BlackholedError, h)
     | Suspended \<Rightarrow>
         if is_whnf (clo_value c) then (Inr None, h[a := (h ! a)\<lparr>td_state := Evaluated\<rparr>])
         else (Inr (Some a), h[a := (h ! a)\<lparr>td_state := Blackholed\<rparr>]))"
  using assms
  by (simp add: get_update_index_def thunk_get_state_def thunk_should_update_def thunk_borrow_def
      thunk_set_evaluated_def heap_map_def mk_update_frame_def split: thunk_state.split)

section \<open>Properties\<close>

text \<open>
  C25. The call-by-need protocol. Entering a suspended thunk whose content is not a weak head
  normal form gives an update frame and black-holes the thunk; entering it again before the
  update is an error and changes nothing; updating it makes the new closure readable and later
  entries free of frames; resetting it, as the unwinding of the stack does, restores the heap.
\<close>

theorem thunk_protocol:
  assumes "a < length h" and "td_state (h ! a) = Suspended" and "td_closure (h ! a) = Some c"
    and "\<not> is_whnf (clo_value c)"
  shows "\<exists>h1. get_update_index h a = Some (Inr (Some a), h1)
    \<and> get_update_index h1 a = Some (Inl BlackholedError, h1)
    \<and> (\<exists>h2. thunk_update h1 a c' = Some h2 \<and> cache_get h2 a = Some c'
          \<and> get_update_index h2 a = Some (Inr None, h2))
    \<and> thunk_reset_state h1 a = Some h"
proof -
  define h1 where "h1 = h[a := (h ! a)\<lparr>td_state := Blackholed\<rparr>]"
  define h2 where "h2 = h1[a := td_update c' (h1 ! a)]"
  have in1: "a < length h1" and in2: "a < length h2" using assms(1) by (simp_all add: h1_def h2_def)
  have at1: "h1 ! a = (h ! a)\<lparr>td_state := Blackholed\<rparr>" using assms(1) by (simp add: h1_def)
  have at2: "h2 ! a = td_update c' (h1 ! a)" using in1 by (simp add: h2_def)
  have "get_update_index h a = Some (Inr (Some a), h1)"
    using get_update_index_table [OF assms(1,3)] assms(2,4) by (simp add: h1_def)
  moreover have "get_update_index h1 a = Some (Inl BlackholedError, h1)"
    using get_update_index_table [OF in1, of c] assms(3) by (simp add: at1)
  moreover have "thunk_update h1 a c' = Some h2"
    using in1 by (simp add: thunk_update_def heap_map_def h2_def)
  moreover have "cache_get h2 a = Some c'"
    using in2 by (simp add: cache_get_def thunk_get_owned_def at2)
  moreover have "get_update_index h2 a = Some (Inr None, h2)"
    using get_update_index_table [OF in2, of c'] by (simp add: at2)
  moreover have "h1[a := (h1 ! a)\<lparr>td_state := Suspended\<rparr>] = h"
    using assms(1,2) by (simp add: h1_def) (metis (full_types) list_update_id old.unit.exhaust
        thunk_data.surjective thunk_data.update_convs(2))
  then have "thunk_reset_state h1 a = Some h"
    using in1 by (simp add: thunk_reset_state_def heap_map_def)
  ultimately show ?thesis by blast
qed

theorem thunk_protocol_witness:
  "\<exists>h1. get_update_index [td_new (closure_of_value (TermV (Var ''x'')))] 0 = Some (Inr (Some 0), h1)
    \<and> get_update_index h1 0 = Some (Inl BlackholedError, h1)"
proof -
  let ?h = "[td_new (closure_of_value (TermV (Var ''x'')))]"
  have "0 < length ?h" "td_state (?h ! 0) = Suspended"
    "td_closure (?h ! 0) = Some (closure_of_value (TermV (Var ''x'')))"
    "\<not> is_whnf (clo_value (closure_of_value (TermV (Var ''x''))))"
    by (simp_all add: td_new_def td_closure_def closure_of_value_def)
  from thunk_protocol [OF this] show ?thesis by blast
qed

text \<open>
  Memoisation never loses the original expression: whatever cache operations run after a
  revertible thunk was allocated (updates, builds, resets, locks, reverts, saturations of it or
  of others), reverting it gives a fresh suspended, unlocked thunk with the same original
  expression and the same dependencies, in a new cell.
\<close>

theorem revert_restores_origin:
  assumes "heap_ok h" and "a < length h" and "td_inner (h ! a) = RevertibleThunk orig cached deps"
    and "cache_step\<^sup>*\<^sup>* h h'"
  shows "thunk_revert h' a = Some (length h', h' @ [td_new_rev orig deps])"
proof -
  have "a < length h'" "origin (h' ! a) = origin (h ! a)"
    using cache_run_invariant [OF assms(4,1)] assms(2) by auto
  moreover have "origin (h ! a) = Some (orig, deps)" using assms(3) by (simp add: origin_def)
  ultimately show ?thesis
    by (auto simp: thunk_revert_def origin_def heap_alloc_def td_new_rev_def split: inner_thunk_data.splits)
qed

theorem revert_restores_origin_witness:
  "\<exists>h'. thunk_update [td_new_rev (closure_of_value (TermV (Var ''x''))) Unknown] 0 (closure_of_value Null) = Some h'
    \<and> thunk_revert h' 0 = Some (1, h' @ [td_new_rev (closure_of_value (TermV (Var ''x''))) Unknown])"
proof -
  let ?c = "closure_of_value (TermV (Var ''x''))"
  let ?h = "[td_new_rev ?c Unknown]"
  let ?h' = "[td_update (closure_of_value Null) (td_new_rev ?c Unknown)]"
  have upd: "thunk_update ?h 0 (closure_of_value Null) = Some ?h'"
    by (simp add: thunk_update_def heap_map_def)
  have ok: "heap_ok ?h" by (simp add: heap_ok_def deps_empty_def)
  have "td_inner (?h ! 0) = RevertibleThunk ?c None Unknown" by (simp add: td_new_rev_def)
  from revert_restores_origin [OF ok _ this r_into_rtranclp [of cache_step, OF step_update [OF upd]]] upd
  show ?thesis by simp
qed

text \<open>
  C26. Reading is safe: in every heap reached from the empty one by cache operations, an evaluated
  thunk can be read without a panic, and a revertible thunk has at least one dependency.
\<close>

theorem reachable_heap_safe:
  assumes "cache_step\<^sup>*\<^sup>* [] h" and "a < length h"
  shows "(td_state (h ! a) = Evaluated \<longrightarrow> cache_get h a \<noteq> None)
    \<and> (\<forall>orig cached deps. td_inner (h ! a) = RevertibleThunk orig cached deps \<longrightarrow> deps \<noteq> deps_empty)"
proof -
  have "heap_ok h" using cache_run_invariant [OF assms(1)] by (simp add: heap_ok_def)
  then have "thunk_ok (h ! a)" using assms(2) by (simp add: heap_ok_def)
  then show ?thesis
    using assms(2) by (auto simp: thunk_ok_def origin_def cache_get_def thunk_get_owned_def)
qed

theorem reachable_heap_safe_witness:
  "\<exists>h. cache_step\<^sup>*\<^sup>* [] h \<and> td_state (h ! 0) = Evaluated \<and> cache_get h 0 \<noteq> None"
proof -
  let ?c = "closure_of_value Null"
  have 1: "cache_step [] [td_new ?c]"
    by (rule step_add [of _ ?c Normal 0]) (simp add: cache_add_def thunk_new_def heap_alloc_def)
  have 2: "cache_step [td_new ?c] [td_update ?c (td_new ?c)]"
    by (rule step_update [of _ 0 ?c]) (simp add: thunk_update_def heap_map_def)
  have run: "cache_step\<^sup>*\<^sup>* [] [td_update ?c (td_new ?c)]"
    using 1 2 by (meson converse_rtranclp_into_rtranclp r_into_rtranclp)
  with reachable_heap_safe [OF run, of 0] show ?thesis by (intro exI [of _ "[td_update ?c (td_new ?c)]"]) simp
qed

text \<open>
  The documentation of \<open>saturate\<close> says that on a standard thunk the result is just the
  current thunk. The code copies the thunk data into a new cell instead: saturating a thunk while
  it is being evaluated yields a copy that stays black-holed for ever, so that reading the copy
  after the original has been evaluated is reported as an infinite recursion.
\<close>

theorem saturate_copies_blackholed_thunk:
  "\<exists>h0 h1 h2 h3 b. h0 = [td_new (closure_of_value (TermV (Var ''x'')))]
    \<and> get_update_index h0 0 = Some (Inr (Some 0), h1)
    \<and> thunk_saturate h1 0 [''a''] = Some (Thunk b, h2) \<and> b \<noteq> 0
    \<and> thunk_update h2 0 (closure_of_value Null) = Some h3
    \<and> get_update_index h3 0 = Some (Inr None, h3)
    \<and> get_update_index h3 b = Some (Inl BlackholedError, h3)"
proof -
  let ?c = "closure_of_value (TermV (Var ''x''))"
  let ?bh = "(td_new ?c)\<lparr>td_state := Blackholed\<rparr>"
  let ?ev = "td_update (closure_of_value Null) ?bh"
  have "get_update_index [td_new ?c] 0 = Some (Inr (Some 0), [?bh])"
    using get_update_index_table [of 0 "[td_new ?c]" ?c]
    by (simp add: td_new_def td_closure_def closure_of_value_def)
  moreover have "thunk_saturate [?bh] 0 [''a''] = Some (Thunk 1, [?bh, ?bh])"
    by (simp add: thunk_saturate_def thunk_deps_def td_deps_def td_new_def deps_filter_def deps_empty_def
        heap_alloc_def revthunk_as_explicit_fun_def)
  moreover have "thunk_update [?bh, ?bh] 0 (closure_of_value Null) = Some [?ev, ?bh]"
    by (simp add: thunk_update_def heap_map_def)
  moreover have "get_update_index [?ev, ?bh] 0 = Some (Inr None, [?ev, ?bh])"
    using get_update_index_table [of 0 "[?ev, ?bh]" "closure_of_value Null"] by simp
  moreover have "get_update_index [?ev, ?bh] 1 = Some (Inl BlackholedError, [?ev, ?bh])"
    using get_update_index_table [of 1 "[?ev, ?bh]" ?c] by (simp add: td_new_def td_closure_def)
  ultimately show ?thesis by (metis zero_neq_one)
qed

end
