(* ===== verification/Index_Map.thy ===== *)
theory Index_Map
  imports Nickel_Prelude "HOL-Library.AList"
begin

text \<open>
  Insertion-ordered maps and the splitting of two of them, \<open>core/src/eval/merge.rs\<close>, module
  \<open>split\<close>.

  An \<open>IndexMap\<close> is the list of its bindings in iteration order, with distinct keys (\<open>im_wf\<close>);
  inserting keeps the place of an existing key and appends a new one. Which order is left after
  \<open>swap_remove\<close> is the business of the \<open>indexmap\<close> crate: the operation is the parameter \<open>sr\<close> of
  the two splitting functions. The locale \<open>swap_removal\<close> states what they rely on: the value of
  the key is returned and its binding removed, the others stay in some order.
\<close>

type_synonym ('k, 'v) index_map = "('k \<times> 'v) list"

definition im_wf :: "('k, 'v) index_map \<Rightarrow> bool" where
  "im_wf m \<longleftrightarrow> distinct (map fst m)"

definition im_insert :: "'k \<Rightarrow> 'v \<Rightarrow> ('k, 'v) index_map \<Rightarrow> ('k, 'v) index_map" where
  "im_insert k v m = AList.update k v m"

definition im_extend :: "('k, 'v) index_map \<Rightarrow> ('k \<times> 'v) list \<Rightarrow> ('k, 'v) index_map" where
  "im_extend m kvs = foldl (\<lambda>m kv. im_insert (fst kv) (snd kv) m) m kvs"

definition im_from_iter :: "('k \<times> 'v) list \<Rightarrow> ('k, 'v) index_map" where
  "im_from_iter kvs = im_extend [] kvs"

type_synonym ('k, 'v) swap_remove =
  "'k \<Rightarrow> ('k, 'v) index_map \<Rightarrow> 'v option \<times> ('k, 'v) index_map"

record ('k, 'v) split_result =
  split_left :: "('k, 'v) index_map"
  split_center :: "('k, 'v \<times> 'v) index_map"
  split_right :: "('k, 'v) index_map"

section \<open>Splitting\<close>

definition split_maps ::
    "('k, 'v) swap_remove \<Rightarrow> ('k, 'v) index_map \<Rightarrow> ('k, 'v) index_map \<Rightarrow> ('k, 'v) split_result" where
  "split_maps sr m1 m2 =
    foldl (\<lambda>r kv. case sr (fst kv) (split_right r) of
        (Some v2, right') \<Rightarrow> r\<lparr>split_center := im_insert (fst kv) (snd kv, v2) (split_center r),
                              split_right := right'\<rparr>
      | (None, right') \<Rightarrow> r\<lparr>split_left := im_insert (fst kv) (snd kv) (split_left r),
                            split_right := right'\<rparr>)
      \<lparr>split_left = [], split_center = [], split_right = m2\<rparr> m1"

definition split_ref ::
    "('k, 'v) swap_remove \<Rightarrow> ('k, 'v) index_map \<Rightarrow> ('k, 'v) index_map \<Rightarrow> ('k, 'v) split_result" where
  "split_ref sr m1 m2 =
    (if length m1 < length m2
     then foldl (\<lambda>r kv. case sr (fst kv) (split_left r) of
         (Some v1, left') \<Rightarrow> r\<lparr>split_center := im_insert (fst kv) (v1, snd kv) (split_center r),
                              split_left := left'\<rparr>
       | (None, left') \<Rightarrow> r\<lparr>split_right := im_insert (fst kv) (snd kv) (split_right r),
                            split_left := left'\<rparr>)
       \<lparr>split_left = m1, split_center = [], split_right = []\<rparr> m2
     else foldl (\<lambda>r kv. case sr (fst kv) (split_right r) of
         (Some v2, right') \<Rightarrow> r\<lparr>split_center := im_insert (fst kv) (snd kv, v2) (split_center r),
                               split_right := right'\<rparr>
       | (None, right') \<Rightarrow> r\<lparr>split_left := im_insert (fst kv) (snd kv) (split_left r),
                             split_right := right'\<rparr>)
       \<lparr>split_left = [], split_center = [], split_right = m2\<rparr> m1)"

section \<open>Lemmas on insertion\<close>

lemma map_of_im_insert [simp]: "map_of (im_insert k v m) = (map_of m)(k \<mapsto> v)"
  by (simp add: im_insert_def update_conv')

lemma im_wf_insert [simp]: "im_wf m \<Longrightarrow> im_wf (im_insert k v m)"
  by (simp add: im_wf_def im_insert_def distinct_update)

lemma im_wf_Nil [simp]: "im_wf []"
  by (simp add: im_wf_def)

lemma keys_im_insert [simp]: "fst ` set (im_insert k v m) = insert k (fst ` set m)"
  by (metis dom_map_of_conv_image_fst dom_fun_upd map_of_im_insert option.distinct(1))

lemma im_insert_new: "k \<notin> fst ` set m \<Longrightarrow> im_insert k v m = m @ [(k, v)]"
  unfolding im_insert_def by (induction m) auto

lemma map_of_im_extend [simp]: "map_of (im_extend m kvs) = map_of m ++ map_of (rev kvs)"
  unfolding im_extend_def
  by (induction kvs arbitrary: m) (auto simp: map_add_def fun_eq_iff split: option.splits)

lemma im_wf_extend [simp]: "im_wf m \<Longrightarrow> im_wf (im_extend m kvs)"
  unfolding im_extend_def by (induction kvs arbitrary: m) auto

lemma im_extend_new:
  "im_wf (m @ kvs) \<Longrightarrow> im_extend m kvs = m @ kvs"
  unfolding im_extend_def
proof (induction kvs arbitrary: m)
  case (Cons kv kvs)
  then show ?case by (cases kv) (auto simp: im_insert_new im_wf_def)
qed simp

lemma im_wf_append:
  "im_wf (m1 @ m2) \<longleftrightarrow> im_wf m1 \<and> im_wf m2 \<and> fst ` set m1 \<inter> fst ` set m2 = {}"
  by (auto simp: im_wf_def)

section \<open>What splitting relies on\<close>

locale swap_removal =
  fixes sr :: "('k, 'v) swap_remove"
  assumes sr_value: "im_wf m \<Longrightarrow> fst (sr k m) = map_of m k"
    and sr_rest: "im_wf m \<Longrightarrow> mset (snd (sr k m)) = filter_mset (\<lambda>kv. fst kv \<noteq> k) (mset m)"
begin

lemma sr_wf: "im_wf m \<Longrightarrow> im_wf (snd (sr k m))"
proof -
  assume wf: "im_wf m"
  have "mset (map fst (snd (sr k m))) = mset (map fst (filter (\<lambda>kv. fst kv \<noteq> k) m))"
    using sr_rest [OF wf, of k] by (simp add: mset_map mset_filter)
  moreover have "distinct (map fst (filter (\<lambda>kv. fst kv \<noteq> k) m))"
    using wf by (simp add: im_wf_def distinct_map_filter)
  ultimately show ?thesis using mset_eq_imp_distinct_iff unfolding im_wf_def by blast
qed

lemma sr_map_of: "im_wf m \<Longrightarrow> map_of (snd (sr k m)) = (map_of m)(k := None)"
proof
  fix j
  assume wf: "im_wf m"
  have set_eq: "set (snd (sr k m)) = {kv \<in> set m. fst kv \<noteq> k}"
    using arg_cong [OF sr_rest [OF wf, of k], of set_mset] by auto
  have iff: "map_of (snd (sr k m)) j = Some v \<longleftrightarrow> ((map_of m)(k := None)) j = Some v" for v
    using sr_wf [OF wf, of k] wf set_eq
    by (auto simp: im_wf_def map_of_eq_Some_iff)
  show "map_of (snd (sr k m)) j = ((map_of m)(k := None)) j"
    using iff [of "the (map_of (snd (sr k m)) j)"] iff [of "the (((map_of m)(k := None)) j)"]
    by (cases "map_of (snd (sr k m)) j"; cases "((map_of m)(k := None)) j") auto
qed

lemma sr_unfold:
  assumes "im_wf m"
  obtains m' where "sr k m = (map_of m k, m')" "im_wf m'" "map_of m' = (map_of m)(k := None)"
  using sr_value [OF assms, of k] sr_wf [OF assms, of k] sr_map_of [OF assms, of k]
  by (cases "sr k m") auto

end

text \<open>The three parts of a split, by key. The two functions agree on them.\<close>

definition split_spec ::
    "('k \<rightharpoonup> 'v) \<Rightarrow> ('k \<rightharpoonup> 'v) \<Rightarrow> ('k, 'v) split_result \<Rightarrow> bool" where
  "split_spec f1 f2 r \<longleftrightarrow>
     im_wf (split_left r) \<and> im_wf (split_center r) \<and> im_wf (split_right r) \<and>
     map_of (split_left r) = f1 |` (- dom f2) \<and>
     map_of (split_right r) = f2 |` (- dom f1) \<and>
     map_of (split_center r) =
       (\<lambda>k. case (f1 k, f2 k) of (Some v1, Some v2) \<Rightarrow> Some (v1, v2) | _ \<Rightarrow> None)"

context swap_removal begin

lemma split_right_step:
  assumes "split_spec f1 f2 r" and "k \<notin> dom f1" and "sr k (split_right r) = (o2, right')"
  shows "split_spec (f1(k \<mapsto> v)) f2
    (case o2 of
       Some v2 \<Rightarrow> r\<lparr>split_center := im_insert k (v, v2) (split_center r), split_right := right'\<rparr>
     | None \<Rightarrow> r\<lparr>split_left := im_insert k v (split_left r), split_right := right'\<rparr>)"
proof -
  have wf: "im_wf (split_right r)" using assms(1) by (simp add: split_spec_def)
  from sr_unfold [OF wf, of k] assms(3)
  have o2: "o2 = map_of (split_right r) k" "im_wf right'" "map_of right' = (map_of (split_right r))(k := None)"
    by auto
  have k2: "map_of (split_right r) k = f2 k"
    using assms(1,2) by (auto simp: split_spec_def restrict_map_def)
  show ?thesis
  proof (cases "f2 k")
    case None
    then show ?thesis
      using assms(1) o2 k2
      by (auto simp: split_spec_def restrict_map_def fun_eq_iff split: option.splits)
  next
    case (Some v2)
    then show ?thesis
      using assms(1) o2 k2
      by (auto simp: split_spec_def restrict_map_def fun_eq_iff split: option.splits)
  qed
qed

lemma split_left_step:
  assumes "split_spec f1 f2 r" and "k \<notin> dom f2" and "sr k (split_left r) = (o1, left')"
  shows "split_spec f1 (f2(k \<mapsto> v))
    (case o1 of
       Some v1 \<Rightarrow> r\<lparr>split_center := im_insert k (v1, v) (split_center r), split_left := left'\<rparr>
     | None \<Rightarrow> r\<lparr>split_right := im_insert k v (split_right r), split_left := left'\<rparr>)"
proof -
  have wf: "im_wf (split_left r)" using assms(1) by (simp add: split_spec_def)
  from sr_unfold [OF wf, of k] assms(3)
  have o1: "o1 = map_of (split_left r) k" "im_wf left'" "map_of left' = (map_of (split_left r))(k := None)"
    by auto
  have k1: "map_of (split_left r) k = f1 k"
    using assms(1,2) by (auto simp: split_spec_def restrict_map_def)
  show ?thesis
  proof (cases "f1 k")
    case None
    then show ?thesis
      using assms(1) o1 k1
      by (auto simp: split_spec_def restrict_map_def fun_eq_iff split: option.splits)
  next
    case (Some v1)
    then show ?thesis
      using assms(1) o1 k1
      by (auto simp: split_spec_def restrict_map_def fun_eq_iff split: option.splits)
  qed
qed

lemma split_right_loop:
  "im_wf kvs \<Longrightarrow> split_spec f1 f2 r \<Longrightarrow> fst ` set kvs \<inter> dom f1 = {} \<Longrightarrow>
   split_spec (f1 ++ map_of kvs) f2
    (foldl (\<lambda>r kv. case sr (fst kv) (split_right r) of
        (Some v2, right') \<Rightarrow> r\<lparr>split_center := im_insert (fst kv) (snd kv, v2) (split_center r),
                              split_right := right'\<rparr>
      | (None, right') \<Rightarrow> r\<lparr>split_left := im_insert (fst kv) (snd kv) (split_left r),
                            split_right := right'\<rparr>) r kvs)"
proof (induction kvs arbitrary: f1 r)
  case Nil
  then show ?case by simp
next
  case (Cons kv kvs)
  obtain k v where kv: "kv = (k, v)" by (cases kv)
  obtain o2 right' where sr: "sr k (split_right r) = (o2, right')" by (cases "sr k (split_right r)")
  have k: "k \<notin> dom f1" "k \<notin> fst ` set kvs" "im_wf kvs"
    using Cons.prems(1,3) kv by (auto simp: im_wf_def)
  have add: "f1(k \<mapsto> v) ++ map_of kvs = f1 ++ map_of (kv # kvs)"
    using k(2) kv by (auto simp: fun_eq_iff map_add_def dom_map_of_conv_image_fst split: option.splits
        dest: map_of_SomeD intro: rev_image_eqI)
  have disj: "fst ` set kvs \<inter> dom (f1(k \<mapsto> v)) = {}" using Cons.prems(3) k(2) kv by auto
  show ?case
    using Cons.IH [OF k(3) split_right_step [OF Cons.prems(2) k(1) sr, of v] disj]
    by (cases o2) (simp_all only: foldl.simps kv fst_conv snd_conv sr add [unfolded kv] option.case prod.case)
qed

lemma split_left_loop:
  "im_wf kvs \<Longrightarrow> split_spec f1 f2 r \<Longrightarrow> fst ` set kvs \<inter> dom f2 = {} \<Longrightarrow>
   split_spec f1 (f2 ++ map_of kvs)
    (foldl (\<lambda>r kv. case sr (fst kv) (split_left r) of
        (Some v1, left') \<Rightarrow> r\<lparr>split_center := im_insert (fst kv) (v1, snd kv) (split_center r),
                              split_left := left'\<rparr>
      | (None, left') \<Rightarrow> r\<lparr>split_right := im_insert (fst kv) (snd kv) (split_right r),
                            split_left := left'\<rparr>) r kvs)"
proof (induction kvs arbitrary: f2 r)
  case Nil
  then show ?case by simp
next
  case (Cons kv kvs)
  obtain k v where kv: "kv = (k, v)" by (cases kv)
  obtain o1 left' where sr: "sr k (split_left r) = (o1, left')" by (cases "sr k (split_left r)")
  have k: "k \<notin> dom f2" "k \<notin> fst ` set kvs" "im_wf kvs"
    using Cons.prems(1,3) kv by (auto simp: im_wf_def)
  have add: "f2(k \<mapsto> v) ++ map_of kvs = f2 ++ map_of (kv # kvs)"
    using k(2) kv by (auto simp: fun_eq_iff map_add_def dom_map_of_conv_image_fst split: option.splits
        dest: map_of_SomeD intro: rev_image_eqI)
  have disj: "fst ` set kvs \<inter> dom (f2(k \<mapsto> v)) = {}" using Cons.prems(3) k(2) kv by auto
  show ?case
    using Cons.IH [OF k(3) split_left_step [OF Cons.prems(2) k(1) sr, of v] disj]
    by (cases o1) (simp_all only: foldl.simps kv fst_conv snd_conv sr add [unfolded kv] option.case prod.case)
qed

lemma split_maps_spec:
  assumes "im_wf m1" and "im_wf m2"
  shows "split_spec (map_of m1) (map_of m2) (split_maps sr m1 m2)"
proof -
  have "split_spec Map.empty (map_of m2) \<lparr>split_left = [], split_center = [], split_right = m2\<rparr>"
    using assms by (simp add: split_spec_def restrict_map_def)
  from split_right_loop [OF assms(1) this] show ?thesis by (simp add: split_maps_def)
qed

lemma split_ref_spec:
  assumes "im_wf m1" and "im_wf m2"
  shows "split_spec (map_of m1) (map_of m2) (split_ref sr m1 m2)"
proof (cases "length m1 < length m2")
  case True
  have "split_spec (map_of m1) Map.empty \<lparr>split_left = m1, split_center = [], split_right = []\<rparr>"
    using assms by (simp add: split_spec_def restrict_map_def fun_eq_iff split: option.split)
  from split_left_loop [OF assms(2) this] True show ?thesis by (simp add: split_ref_def)
next
  case False
  then show ?thesis using split_maps_spec [OF assms] by (simp add: split_maps_def split_ref_def)
qed

end

section \<open>The removal as the crate documents it\<close>

text \<open>
  The last binding takes the place of the removed one.
\<close>

fun replace_at :: "'k \<Rightarrow> ('k \<times> 'v) \<Rightarrow> ('k, 'v) index_map \<Rightarrow> ('k, 'v) index_map" where
  "replace_at k kv [] = []"
| "replace_at k kv (x # xs) = (if fst x = k then kv # xs else x # replace_at k kv xs)"

definition swap_remove_last :: "('k, 'v) swap_remove" where
  "swap_remove_last k m =
    (case map_of m k of
       None \<Rightarrow> (None, m)
     | Some v \<Rightarrow> (Some v, if fst (last m) = k then butlast m else replace_at k (last m) (butlast m)))"

lemma replace_at_mset:
  "distinct (map fst xs) \<Longrightarrow> k \<in> fst ` set xs \<Longrightarrow>
    mset (replace_at k kv xs) = add_mset kv (filter_mset (\<lambda>x. fst x \<noteq> k) (mset xs))"
proof (induction xs)
  case (Cons x xs)
  show ?case
  proof (cases "fst x = k")
    case True
    then have "k \<notin> fst ` set xs" using Cons.prems by auto
    then have "filter_mset (\<lambda>x. fst x \<noteq> k) (mset xs) = mset xs"
      by (subst filter_mset_eq_conv) auto
    with True show ?thesis by simp
  next
    case False
    then show ?thesis using Cons by auto
  qed
qed simp

lemma swap_remove_last_mset:
  assumes wf: "im_wf m"
  shows "mset (snd (swap_remove_last k m)) = filter_mset (\<lambda>kv. fst kv \<noteq> k) (mset m)"
proof (cases "map_of m k")
  case None
  then have "k \<notin> fst ` set m" by (simp add: map_of_eq_None_iff)
  then have "filter_mset (\<lambda>kv. fst kv \<noteq> k) (mset m) = mset m"
    by (subst filter_mset_eq_conv) auto
  with None show ?thesis by (simp add: swap_remove_last_def)
next
  case (Some v)
  then have ne: "m \<noteq> []" by auto
  then obtain xs x where m: "m = xs @ [x]" by (cases m rule: rev_cases) auto
  have d: "distinct (map fst xs)" "fst x \<notin> fst ` set xs" using wf by (auto simp: m im_wf_def)
  show ?thesis
  proof (cases "fst x = k")
    case True
    then have "filter_mset (\<lambda>kv. fst kv \<noteq> k) (mset xs) = mset xs"
      using d by (subst filter_mset_eq_conv) (auto intro: rev_image_eqI)
    with True Some show ?thesis by (simp add: m swap_remove_last_def)
  next
    case False
    then have "k \<in> fst ` set xs" using Some by (auto simp: m map_of_eq_None_iff map_add_def
        split: option.splits dest!: map_of_SomeD intro: rev_image_eqI)
    with False Some d show ?thesis by (simp add: m swap_remove_last_def replace_at_mset)
  qed
qed

interpretation index_map_removal: swap_removal swap_remove_last
proof unfold_locales
  fix m :: "('a, 'b) index_map" and k
  show "fst (swap_remove_last k m) = map_of m k"
    by (simp add: swap_remove_last_def split: option.splits)
  show "im_wf m \<Longrightarrow> mset (snd (swap_remove_last k m)) = filter_mset (\<lambda>kv. fst kv \<noteq> k) (mset m)"
    by (rule swap_remove_last_mset)
qed

section \<open>Properties\<close>

text \<open>
  Splitting two maps partitions their keys: the left part has the bindings of the first map
  whose key is not in the second, the right part the dual, the center the pairs of values of the
  common keys. The two variants agree, for any removal that keeps the other bindings.
\<close>

theorem split_ref_partitions:
  assumes "swap_removal sr" and "im_wf m1" and "im_wf m2"
  shows "map_of (split_left (split_ref sr m1 m2)) = map_of m1 |` (- fst ` set m2)
    \<and> map_of (split_right (split_ref sr m1 m2)) = map_of m2 |` (- fst ` set m1)
    \<and> (\<forall>k. map_of (split_center (split_ref sr m1 m2)) k =
        (case (map_of m1 k, map_of m2 k) of (Some v1, Some v2) \<Rightarrow> Some (v1, v2) | _ \<Rightarrow> None))
    \<and> map_of (split_left (split_maps sr m1 m2)) = map_of (split_left (split_ref sr m1 m2))
    \<and> map_of (split_center (split_maps sr m1 m2)) = map_of (split_center (split_ref sr m1 m2))
    \<and> map_of (split_right (split_maps sr m1 m2)) = map_of (split_right (split_ref sr m1 m2))"
  using swap_removal.split_ref_spec [OF assms] swap_removal.split_maps_spec [OF assms]
  by (simp add: split_spec_def dom_map_of_conv_image_fst)

theorem split_ref_partitions_witness:
  "map_of (split_left (split_ref swap_remove_last [(1 :: nat, ''a''), (2, ''b'')] [(1, ''c''), (3, ''d'')])) 2
      = Some ''b''
    \<and> map_of (split_center (split_ref swap_remove_last [(1 :: nat, ''a''), (2, ''b'')] [(1, ''c''), (3, ''d'')])) 1
      = Some (''a'', ''c'')"
proof -
  have wf: "im_wf [(1 :: nat, ''a''), (2, ''b'')]" "im_wf [(1 :: nat, ''c''), (3, ''d'')]"
    by (simp_all add: im_wf_def)
  show ?thesis
    using split_ref_partitions [OF index_map_removal.swap_removal_axioms wf]
    by (simp add: restrict_map_def)
qed

end
