(* ===== verification/Record_Data.thy ===== *)
theory Record_Data
  imports Nickel_Value Index_Map "HOL-Library.List_Lexorder" "HOL-Library.Char_ord"
begin

text \<open>
  Record data, \<open>core/src/term/record.rs\<close>: attributes, field metadata and their sharing, fields,
  records and sealed tails, in the order of the source. A record is well-formed
  (\<open>record_wf\<close>) when its field map has distinct keys.
\<close>

section \<open>Attributes\<close>

definition attrs_new :: record_attrs where
  "attrs_new = \<lparr>attrs_open = False, attrs_frozen = False\<rparr>"

definition attrs_to_frozen :: "record_attrs \<Rightarrow> record_attrs" where
  "attrs_to_frozen a = a\<lparr>attrs_frozen := True\<rparr>"

definition attrs_combine :: "record_attrs \<Rightarrow> record_attrs \<Rightarrow> record_attrs" where
  "attrs_combine left right =
    \<lparr>attrs_open = (attrs_open left \<or> attrs_open right),
     attrs_frozen = (attrs_frozen left \<and> attrs_frozen right)\<rparr>"

section \<open>Metadata\<close>

definition merge_doc :: "'d option \<Rightarrow> 'd option \<Rightarrow> 'd option" where
  "merge_doc doc1 doc2 = option_or doc1 doc2"

definition metadata_default :: nmetadata where
  "metadata_default = FieldMetadata None annotation_default False False Neutral"

definition set_opt :: "bool \<Rightarrow> nmetadata \<Rightarrow> nmetadata" where
  "set_opt b m = FieldMetadata (fm_doc m) (fm_annotation m) b (fm_not_exported m) (fm_priority m)"

definition set_priority :: "merge_priority \<Rightarrow> nmetadata \<Rightarrow> nmetadata" where
  "set_priority p m = FieldMetadata (fm_doc m) (fm_annotation m) (fm_opt m) (fm_not_exported m) p"

definition metadata_is_empty :: "nmetadata \<Rightarrow> bool" where
  "metadata_is_empty m \<longleftrightarrow> fm_doc m = None \<and> annotation_is_empty (fm_annotation m)
    \<and> \<not> fm_opt m \<and> \<not> fm_not_exported m \<and> fm_priority m = Neutral"

definition combine_priority :: "merge_priority \<Rightarrow> merge_priority \<Rightarrow> merge_priority" where
  "combine_priority l r =
    (case (l, r) of (Neutral, p) \<Rightarrow> p | (p, Neutral) \<Rightarrow> p | (p1, p2) \<Rightarrow> priority_max p1 p2)"

definition metadata_combine :: "nmetadata \<Rightarrow> nmetadata \<Rightarrow> nmetadata" where
  "metadata_combine left right =
    FieldMetadata (merge_doc (fm_doc left) (fm_doc right))
     (annotation_combine (fm_annotation left) (fm_annotation right))
     (fm_opt left \<or> fm_opt right)
     (fm_not_exported left \<or> fm_not_exported right)
     (combine_priority (fm_priority left) (fm_priority right))"

definition metadata_of_annotation :: "nannotation \<Rightarrow> nmetadata" where
  "metadata_of_annotation a = FieldMetadata None a False False Neutral"

definition shared_of_metadata :: "nmetadata \<Rightarrow> nickel_value shared_metadata" where
  "shared_of_metadata m = (if metadata_is_empty m then None else Some m)"

definition shared_into_inner :: "nickel_value shared_metadata \<Rightarrow> nmetadata" where
  "shared_into_inner s = (case s of None \<Rightarrow> metadata_default | Some m \<Rightarrow> m)"

definition shared_combine :: "nickel_value shared_metadata \<Rightarrow> nickel_value shared_metadata \<Rightarrow> nickel_value shared_metadata" where
  "shared_combine left right =
    (case (left, right) of
       (None, None) \<Rightarrow> None
     | (None, Some m) \<Rightarrow> Some m
     | (Some m, None) \<Rightarrow> Some m
     | (Some m1, Some m2) \<Rightarrow> shared_of_metadata (metadata_combine m1 m2))"

definition shared_is_empty :: "nickel_value shared_metadata \<Rightarrow> bool" where
  "shared_is_empty s \<longleftrightarrow> (case s of None \<Rightarrow> False | Some m \<Rightarrow> metadata_is_empty m) \<or> s = None"

definition shared_not_exported :: "nickel_value shared_metadata \<Rightarrow> bool" where
  "shared_not_exported s = (case s of None \<Rightarrow> False | Some m \<Rightarrow> fm_not_exported m)"

definition shared_opt :: "nickel_value shared_metadata \<Rightarrow> bool" where
  "shared_opt s = (case s of None \<Rightarrow> False | Some m \<Rightarrow> fm_opt m)"

definition shared_priority :: "nickel_value shared_metadata \<Rightarrow> merge_priority" where
  "shared_priority s = (case s of None \<Rightarrow> Neutral | Some m \<Rightarrow> fm_priority m)"

definition shared_doc :: "nickel_value shared_metadata \<Rightarrow> string option" where
  "shared_doc s = Option.bind s fm_doc"

definition shared_iter_annots :: "nickel_value shared_metadata \<Rightarrow> nickel_value labeled_type list" where
  "shared_iter_annots s = (case s of None \<Rightarrow> [] | Some m \<Rightarrow> annotation_iter (fm_annotation m))"

section \<open>Fields\<close>

definition field_of_value :: "nickel_value \<Rightarrow> nfield" where
  "field_of_value v = Field (Some v) None []"

definition field_of_shared :: "nickel_value shared_metadata \<Rightarrow> nfield" where
  "field_of_shared s = Field None s []"

definition field_of_metadata :: "nmetadata \<Rightarrow> nfield" where
  "field_of_metadata m = field_of_shared (shared_of_metadata m)"

definition field_of_annotation :: "nannotation \<Rightarrow> nfield" where
  "field_of_annotation a = field_of_metadata (metadata_of_annotation a)"

definition field_map_value :: "(nickel_value \<Rightarrow> nickel_value) \<Rightarrow> nfield \<Rightarrow> nfield" where
  "field_map_value f fld =
    Field (map_option f (field_value fld)) (field_metadata fld) (field_pending_contracts fld)"

definition field_try_map_value :: "(nickel_value \<Rightarrow> 'e + nickel_value) \<Rightarrow> nfield \<Rightarrow> 'e + nfield" where
  "field_try_map_value f fld =
    (case field_value fld of
       None \<Rightarrow> Inr fld
     | Some v \<Rightarrow> (case f v of
         Inl e \<Rightarrow> Inl e
       | Inr v' \<Rightarrow> Inr (Field (Some v') (field_metadata fld) (field_pending_contracts fld))))"

definition is_empty_optional :: "nfield \<Rightarrow> bool" where
  "is_empty_optional fld \<longleftrightarrow> field_value fld = None \<and> shared_opt (field_metadata fld)"

definition extension_kind :: "nfield \<Rightarrow> record_ext_kind" where
  "extension_kind fld = (if field_value fld \<noteq> None then WithValue else WithoutValue)"

definition value_with_pending_contracts :: "nfield \<Rightarrow> nickel_value option" where
  "value_with_pending_contracts fld =
    map_option (\<lambda>v. contract_apply_all v (field_pending_contracts fld)) (field_value fld)"

section \<open>Records\<close>

record missing_field_def =
  missing_id :: ident
  missing_metadata :: nmetadata

definition record_new ::
    "(ident, nfield) index_map \<Rightarrow> record_attrs \<Rightarrow> nickel_value sealed_tail option \<Rightarrow> nrecord" where
  "record_new flds attrs tail = RecordData flds attrs tail"

definition record_empty :: nrecord where
  "record_empty = RecordData [] attrs_new None"

definition with_field_values :: "(ident \<times> nickel_value) list \<Rightarrow> nrecord" where
  "with_field_values fvs =
    RecordData (im_from_iter (map (\<lambda>(ident, v). (ident, field_of_value v)) fvs)) attrs_new None"

text \<open>
  The function given to \<open>map_values\<close> may change state of its own, which is threaded through the
  fields in order.
\<close>

fun map_values_loop ::
    "(ident \<Rightarrow> nickel_value option \<Rightarrow> 's \<Rightarrow> nickel_value option \<times> 's) \<Rightarrow> (ident \<times> nfield) list \<Rightarrow> 's \<Rightarrow>
     (ident \<times> nfield) list \<times> 's" where
  "map_values_loop f [] s = ([], s)"
| "map_values_loop f ((ident, fld) # rest) s =
    (let (v, s1) = f ident (field_value fld) s;
         (rest', s2) = map_values_loop f rest s1
     in ((ident, Field v (field_metadata fld) (field_pending_contracts fld)) # rest', s2))"

definition map_values ::
    "(ident \<Rightarrow> nickel_value option \<Rightarrow> 's \<Rightarrow> nickel_value option \<times> 's) \<Rightarrow> nrecord \<Rightarrow> 's \<Rightarrow> nrecord \<times> 's" where
  "map_values f r s =
    (let (flds, s') = map_values_loop f (record_fields r) s
     in (RecordData (im_from_iter flds) (record_attributes r) (record_sealed_tail r), s'))"

definition map_defined_values ::
    "(ident \<Rightarrow> nickel_value \<Rightarrow> 's \<Rightarrow> nickel_value \<times> 's) \<Rightarrow> nrecord \<Rightarrow> 's \<Rightarrow> nrecord \<times> 's" where
  "map_defined_values f r s =
    map_values (\<lambda>ident v s. case v of None \<Rightarrow> (None, s) | Some x \<Rightarrow> (let (y, s') = f ident x s in (Some y, s'))) r s"

definition iter_without_opts :: "nrecord \<Rightarrow> (missing_field_def + ident \<times> nickel_value) list" where
  "iter_without_opts r =
    List.map_filter (\<lambda>(ident, fld).
      case field_value fld of
        Some v \<Rightarrow> Some (Inr (ident, contract_apply_all v (field_pending_contracts fld)))
      | None \<Rightarrow>
          if \<not> shared_opt (field_metadata fld)
          then Some (Inl \<lparr>missing_id = ident, missing_metadata = shared_into_inner (field_metadata fld)\<rparr>)
          else None)
      (record_fields r)"

text \<open>
  \<open>iter_serializable\<close> panics in a debug build when it meets a field with a pending contract. The
  iterator is lazy: the result here is the whole iteration.
\<close>

definition iter_serializable ::
    "nrecord \<Rightarrow> (missing_field_def + ident \<times> nickel_value) list panics" where
  "iter_serializable r =
    (if \<exists>(ident, fld) \<in> set (record_fields r). field_pending_contracts fld \<noteq> [] then None
     else Some (List.map_filter (\<lambda>(ident, fld).
       case field_value fld of
         Some v \<Rightarrow> if \<not> shared_not_exported (field_metadata fld) then Some (Inr (ident, v)) else None
       | None \<Rightarrow>
           if \<not> shared_opt (field_metadata fld) \<and> \<not> shared_not_exported (field_metadata fld)
           then Some (Inl \<lparr>missing_id = ident, missing_metadata = shared_into_inner (field_metadata fld)\<rparr>)
           else None)
       (record_fields r)))"

definition get_value_with_ctrs :: "nrecord \<Rightarrow> ident \<Rightarrow> missing_field_def + nickel_value option" where
  "get_value_with_ctrs r ident =
    (case map_of (record_fields r) ident of
       Some fld \<Rightarrow>
         (case field_value fld of
            None \<Rightarrow>
              if \<not> shared_opt (field_metadata fld)
              then Inl \<lparr>missing_id = ident, missing_metadata = shared_into_inner (field_metadata fld)\<rparr>
              else Inr None
          | Some v \<Rightarrow> Inr (Some (contract_apply_all v (field_pending_contracts fld))))
     | None \<Rightarrow> Inr None)"

definition field_names :: "nrecord \<Rightarrow> record_op_kind \<Rightarrow> ident list" where
  "field_names r op_kind =
    sort (map fst (filter (\<lambda>(_, fld). op_kind = ConsiderAllFields \<or> \<not> is_empty_optional fld)
      (record_fields r)))"

definition record_is_empty :: "nrecord \<Rightarrow> bool" where
  "record_is_empty r \<longleftrightarrow> record_fields r = [] \<and> record_sealed_tail r = None"

definition has_only_empty_opts :: "nrecord \<Rightarrow> bool" where
  "has_only_empty_opts r \<longleftrightarrow>
    list_all (\<lambda>(_, fld). is_empty_optional fld) (record_fields r) \<and> record_sealed_tail r = None"

section \<open>Sealed tails\<close>

definition tail_unseal :: "nickel_value sealed_tail \<Rightarrow> int \<Rightarrow> nickel_value option" where
  "tail_unseal t key = (if key = tail_sealing_key t then Some (tail_term t) else None)"

definition tail_has_field :: "nickel_value sealed_tail \<Rightarrow> ident \<Rightarrow> bool" where
  "tail_has_field t fld \<longleftrightarrow> fld \<in> set (tail_fields t)"

definition tail_has_dyn_field :: "nickel_value sealed_tail \<Rightarrow> string \<Rightarrow> bool" where
  "tail_has_dyn_field t fld \<longleftrightarrow> list_ex (\<lambda>i. i = fld) (tail_fields t)"

section \<open>Well-formedness and lemmas\<close>

definition record_wf :: "nrecord \<Rightarrow> bool" where
  "record_wf r \<longleftrightarrow> im_wf (record_fields r)"

lemma combine_priority_neutral [simp]:
  "combine_priority Neutral p = p" "combine_priority p Neutral = p"
  by (cases p; simp add: combine_priority_def)+

lemma combine_priority_numeral: "p \<noteq> Neutral \<Longrightarrow> q \<noteq> Neutral \<Longrightarrow> combine_priority p q = priority_max p q"
  by (cases p; cases q; simp add: combine_priority_def)

lemma priority_rank_inj: "p \<noteq> Neutral \<Longrightarrow> q \<noteq> Neutral \<Longrightarrow> priority_rank p = priority_rank q \<longleftrightarrow> p = q"
  by (cases p; cases q) auto

lemma priority_max_not_neutral [simp]: "p \<noteq> Neutral \<Longrightarrow> q \<noteq> Neutral \<Longrightarrow> priority_max p q \<noteq> Neutral"
  by (simp add: priority_max_def)

lemma priority_max_assoc:
  "priority_max (priority_max p q) r = priority_max p (priority_max q r)"
  using rank_less_linear [of "priority_rank p" "priority_rank q"]
    rank_less_linear [of "priority_rank q" "priority_rank r"]
  by (auto simp: priority_max_def priority_cmp_rank split: if_splits
      dest: rank_less_asym rank_less_trans)

lemma combine_priority_assoc:
  "combine_priority (combine_priority p q) r = combine_priority p (combine_priority q r)"
  by (cases "p = Neutral"; cases "q = Neutral"; cases "r = Neutral")
    (simp_all add: combine_priority_numeral priority_max_assoc)

lemma annotation_combine_default [simp]:
  "annotation_combine annotation_default a = a" "annotation_combine a annotation_default = a"
  by (cases a; cases "annot_typ a"; simp add: annotation_combine_def annotation_default_def option_or_def)+

lemma option_or_None [simp]: "option_or None a = a" "option_or a None = a"
  by (cases a; simp add: option_or_def)+

lemma option_or_assoc [simp]: "option_or (option_or a b) c = option_or a (option_or b c)"
  by (cases a; simp add: option_or_def)

lemma metadata_combine_default [simp]:
  "metadata_combine metadata_default m = m" "metadata_combine m metadata_default = m"
  by (cases m; simp add: metadata_combine_def metadata_default_def merge_doc_def)+

lemma metadata_is_empty_iff: "metadata_is_empty m \<longleftrightarrow> m = metadata_default"
proof -
  have "annotation_is_empty a \<longleftrightarrow> a = annotation_default" for a
    by (cases a) (auto simp: annotation_is_empty_def annotation_default_def)
  then show ?thesis by (cases m) (auto simp: metadata_is_empty_def metadata_default_def)
qed

lemma shared_into_inner_of [simp]: "shared_into_inner (shared_of_metadata m) = m"
  by (simp add: shared_into_inner_def shared_of_metadata_def metadata_is_empty_iff)

text \<open>The accessors read the metadata that \<open>into_inner\<close> extracts.\<close>

lemma shared_accessors:
  "shared_opt s = fm_opt (shared_into_inner s)"
  "shared_not_exported s = fm_not_exported (shared_into_inner s)"
  "shared_priority s = fm_priority (shared_into_inner s)"
  "shared_doc s = fm_doc (shared_into_inner s)"
  "shared_iter_annots s = annotation_iter (fm_annotation (shared_into_inner s))"
  "shared_is_empty s \<longleftrightarrow> shared_into_inner s = metadata_default"
  by (cases s; simp add: shared_opt_def shared_not_exported_def shared_priority_def shared_doc_def
      shared_iter_annots_def shared_is_empty_def shared_into_inner_def metadata_default_def
      annotation_iter_def annotation_default_def metadata_is_empty_iff)+

lemma set_map_filter: "y \<in> set (List.map_filter f xs) \<longleftrightarrow> (\<exists>x \<in> set xs. f x = Some y)"
  by (induction xs) (auto simp: List.map_filter_simps split: option.splits)

lemma map_of_im_wf: "im_wf m \<Longrightarrow> (k, v) \<in> set m \<longleftrightarrow> map_of m k = Some v"
  by (simp add: im_wf_def)

text \<open>What a field contributes to the iteration, and to a lookup.\<close>

definition field_item :: "ident \<Rightarrow> nfield \<Rightarrow> (missing_field_def + ident \<times> nickel_value) option" where
  "field_item ident fld =
    (case field_value fld of
       Some v \<Rightarrow> Some (Inr (ident, contract_apply_all v (field_pending_contracts fld)))
     | None \<Rightarrow>
         if \<not> shared_opt (field_metadata fld)
         then Some (Inl \<lparr>missing_id = ident, missing_metadata = shared_into_inner (field_metadata fld)\<rparr>)
         else None)"

lemma field_item_Inr [simp]:
  "field_item ident fld = Some (Inr (j, v)) \<longleftrightarrow> j = ident \<and> value_with_pending_contracts fld = Some v"
  by (auto simp: field_item_def value_with_pending_contracts_def split: option.split)

lemma field_item_Inl [simp]:
  "field_item ident fld = Some (Inl e) \<longleftrightarrow> field_value fld = None \<and> \<not> shared_opt (field_metadata fld)
    \<and> e = \<lparr>missing_id = ident, missing_metadata = shared_into_inner (field_metadata fld)\<rparr>"
  by (auto simp: field_item_def split: option.split)

lemma iter_without_opts_items:
  assumes "im_wf (record_fields r)"
  shows "it \<in> set (iter_without_opts r) \<longleftrightarrow>
    (\<exists>ident fld. map_of (record_fields r) ident = Some fld \<and> field_item ident fld = Some it)"
  unfolding iter_without_opts_def set_map_filter field_item_def
  by (simp add: Bex_def split_paired_Ex map_of_im_wf [OF assms] del: ex_simps)

lemma get_value_with_ctrs_item:
  "get_value_with_ctrs r ident = Inr (Some v) \<longleftrightarrow>
    (\<exists>fld. map_of (record_fields r) ident = Some fld \<and> field_item ident fld = Some (Inr (ident, v)))"
  "get_value_with_ctrs r ident = Inl e \<longleftrightarrow>
    (\<exists>fld. map_of (record_fields r) ident = Some fld \<and> field_item ident fld = Some (Inl e))"
  by (auto simp: get_value_with_ctrs_def value_with_pending_contracts_def split: option.split)

lemma map_values_loop_keys: "map fst (fst (map_values_loop f xs s)) = map fst xs"
  by (induction f xs s rule: map_values_loop.induct) (auto split: prod.splits)

lemma map_values_wf: "record_wf r \<Longrightarrow> record_wf (fst (map_values f r s))"
  by (simp add: record_wf_def map_values_def im_from_iter_def split: prod.split)

section \<open>Properties\<close>

text \<open>
  The comparison of merge priorities is a total preorder whose equality is
  \<open>PartialEq\<close>: \<open>Bottom\<close> is least, \<open>Top\<close> greatest, numerals are ordered as numbers and \<open>Neutral\<close>
  sits at the numeral 0.
\<close>

theorem priority_cmp_total_preorder:
  "(priority_cmp p q = Equal \<longleftrightarrow> priority_eq p q)
    \<and> (priority_cmp p q = Less \<longleftrightarrow> priority_cmp q p = Greater)
    \<and> (priority_cmp p q \<noteq> Greater \<and> priority_cmp q r \<noteq> Greater \<longrightarrow> priority_cmp p r \<noteq> Greater)
    \<and> priority_cmp Bottom p \<noteq> Greater \<and> priority_cmp p Top \<noteq> Greater
    \<and> priority_cmp Neutral p = priority_cmp (Numeral 0) p"
proof -
  have "priority_cmp Bottom p \<noteq> Greater \<and> priority_cmp p Top \<noteq> Greater
    \<and> priority_cmp Neutral p = priority_cmp (Numeral 0) p"
    by (cases p) (auto simp: rat_cmp_def)
  moreover have "priority_cmp p q = Equal \<longleftrightarrow> priority_eq p q"
    by (auto simp: priority_cmp_rank priority_eq_rank)
  moreover have "priority_cmp p q = Less \<longleftrightarrow> priority_cmp q p = Greater"
    using rank_less_linear [of "priority_rank p" "priority_rank q"]
    by (auto simp: priority_cmp_rank dest: rank_less_asym)
  moreover have "priority_cmp p q \<noteq> Greater \<and> priority_cmp q r \<noteq> Greater \<longrightarrow> priority_cmp p r \<noteq> Greater"
    by (auto simp: priority_cmp_rank split: if_splits dest: rank_less_trans)
  ultimately show ?thesis by blast
qed

theorem priority_cmp_total_preorder_witness:
  "priority_cmp (Numeral 1) Top \<noteq> Greater \<and> priority_cmp Neutral (Numeral 0) = Equal"
  using priority_cmp_total_preorder [of "Numeral 1" "Numeral 1" Top]
    priority_cmp_total_preorder [of Neutral "Numeral 0" Top]
  by simp

text \<open>
  Sharing is transparent: combining shared metadata, where the default is not allocated,
  gives the combination of the metadata they stand for, and never allocates default metadata
  when its arguments do not. The default is a neutral element.
\<close>

theorem shared_combine_refines:
  "shared_into_inner (shared_combine a b) = metadata_combine (shared_into_inner a) (shared_into_inner b)
    \<and> (a \<noteq> Some metadata_default \<and> b \<noteq> Some metadata_default \<longrightarrow> shared_combine a b \<noteq> Some metadata_default)
    \<and> shared_combine None b = b \<and> shared_combine a None = a"
proof -
  have "shared_into_inner (shared_combine a b) = metadata_combine (shared_into_inner a) (shared_into_inner b)"
    by (cases a; cases b) (simp_all add: shared_combine_def shared_into_inner_def shared_of_metadata_def
        metadata_is_empty_iff)
  moreover have "a \<noteq> Some metadata_default \<and> b \<noteq> Some metadata_default \<longrightarrow> shared_combine a b \<noteq> Some metadata_default"
    by (cases a; cases b) (auto simp: shared_combine_def shared_of_metadata_def metadata_is_empty_iff)
  ultimately show ?thesis by (simp add: shared_combine_def split: option.split)
qed

theorem shared_combine_refines_witness:
  "shared_combine (Some (set_opt True metadata_default)) (Some (set_opt True metadata_default))
    \<noteq> Some metadata_default"
proof -
  have "set_opt True metadata_default \<noteq> metadata_default"
    by (simp add: metadata_default_def set_opt_def)
  then show ?thesis
    using shared_combine_refines [of "Some (set_opt True metadata_default)"
        "Some (set_opt True metadata_default)"] by simp
qed

text \<open>
  \<open>Combine\<close> is documented as a monoid. Combining annotations, and hence field metadata, is
  not associative: when the annotation in the middle has no static type, the type of the last one
  goes before or after the contracts of the middle one depending on the grouping.
\<close>

theorem annotation_combine_not_associative:
  "\<exists>a b c. annotation_combine (annotation_combine a b) c \<noteq> annotation_combine a (annotation_combine b c)
    \<and> metadata_combine (metadata_combine (metadata_of_annotation a) (metadata_of_annotation b)) (metadata_of_annotation c)
      \<noteq> metadata_combine (metadata_of_annotation a) (metadata_combine (metadata_of_annotation b) (metadata_of_annotation c))"
proof -
  define lt :: "nat \<Rightarrow> nickel_value labeled_type" where "lt n = LabeledType (TWildcard n) label_default" for n
  define a where "a = TypeAnnotation (Some (lt 0)) []"
  define b where "b = TypeAnnotation None [lt 1]"
  define c where "c = TypeAnnotation (Some (lt 2)) []"
  have "annotation_combine (annotation_combine a b) c \<noteq> annotation_combine a (annotation_combine b c)"
    by (simp add: a_def b_def c_def annotation_combine_def option_or_def lt_def)
  moreover have "metadata_combine (metadata_combine (metadata_of_annotation a) (metadata_of_annotation b)) (metadata_of_annotation c)
      \<noteq> metadata_combine (metadata_of_annotation a) (metadata_combine (metadata_of_annotation b) (metadata_of_annotation c))"
    using calculation by (auto simp: metadata_combine_def metadata_of_annotation_def)
  ultimately show ?thesis by blast
qed

text \<open>
  Reading one field and iterating over the record agree: on a record with distinct keys,
  looking up a name gives a value exactly when the iteration yields it, the missing-definition
  error exactly when the iteration yields that error, and nothing exactly when the name is
  absent or an optional field without a definition.
\<close>

theorem get_value_agrees_with_iteration:
  assumes "record_wf r"
  shows "(get_value_with_ctrs r ident = Inr (Some v) \<longleftrightarrow> Inr (ident, v) \<in> set (iter_without_opts r))
    \<and> ((\<exists>e. get_value_with_ctrs r ident = Inl e) \<longleftrightarrow> (\<exists>e. Inl e \<in> set (iter_without_opts r) \<and> missing_id e = ident))
    \<and> (get_value_with_ctrs r ident = Inr None \<longleftrightarrow> ident \<notin> set (field_names r IgnoreEmptyOpt))"
proof -
  have wf: "im_wf (record_fields r)" using assms by (simp add: record_wf_def)
  note mem = map_of_im_wf [OF wf]
  note items = iter_without_opts_items [OF wf] get_value_with_ctrs_item
  have val: "get_value_with_ctrs r ident = Inr (Some v) \<longleftrightarrow> Inr (ident, v) \<in> set (iter_without_opts r)"
    by (simp add: items)
  have err: "(\<exists>e. get_value_with_ctrs r ident = Inl e) \<longleftrightarrow> (\<exists>e. Inl e \<in> set (iter_without_opts r) \<and> missing_id e = ident)"
    unfolding items field_item_Inl by (metis missing_field_def.select_convs(1))
  have names: "ident \<in> set (field_names r IgnoreEmptyOpt) \<longleftrightarrow>
      (\<exists>fld. map_of (record_fields r) ident = Some fld \<and> \<not> is_empty_optional fld)"
    by (force simp: field_names_def simp flip: mem)
  have "get_value_with_ctrs r ident = Inr None \<longleftrightarrow> ident \<notin> set (field_names r IgnoreEmptyOpt)"
    unfolding names by (auto simp: get_value_with_ctrs_def is_empty_optional_def split: option.splits if_splits)
  with val err show ?thesis by blast
qed

theorem get_value_agrees_with_iteration_witness:
  "Inr (''a'', Number 1) \<in> set (iter_without_opts (with_field_values [(''a'', Number 1)]))"
proof -
  have r: "with_field_values [(''a'', Number 1)] = RecordData [(''a'', field_of_value (Number 1))] attrs_new None"
    by (simp add: with_field_values_def im_from_iter_def im_extend_def im_insert_def)
  have "record_wf (with_field_values [(''a'', Number 1)])"
    by (simp add: r record_wf_def im_wf_def)
  from get_value_agrees_with_iteration [OF this, of "''a''" "Number 1"] show ?thesis
    by (simp add: r get_value_with_ctrs_def field_of_value_def contract_apply_all_def)
qed

text \<open>
  Combining two deduplicated lists of contracts gives a deduplicated list that starts with
  the first one, and loses no contract: each contract of the second list is kept or equal to one
  of the first.
\<close>

theorem combine_dedup_is_dedup:
  assumes "\<And>i j. i < j \<Longrightarrow> j < length cs1 \<Longrightarrow> \<not> ceq (ctr_contract (cs1 ! i)) e (ctr_contract (cs1 ! j)) e"
    and "\<And>i j. i < j \<Longrightarrow> j < length cs2 \<Longrightarrow> \<not> ceq (ctr_contract (cs2 ! i)) e (ctr_contract (cs2 ! j)) e"
  shows "sorted_wrt (\<lambda>c d. \<not> ceq (ctr_contract c) e (ctr_contract d) e) (combine_dedup ceq cs1 e cs2 e)
    \<and> take (length cs1) (combine_dedup ceq cs1 e cs2 e) = cs1
    \<and> (\<forall>c2 \<in> set cs2. c2 \<in> set (combine_dedup ceq cs1 e cs2 e)
        \<or> (\<exists>c1 \<in> set cs1. ceq (ctr_contract c1) e (ctr_contract c2) e))"
proof -
  have "sorted_wrt (\<lambda>c d. \<not> ceq (ctr_contract c) e (ctr_contract d) e) cs1"
    "sorted_wrt (\<lambda>c d. \<not> ceq (ctr_contract c) e (ctr_contract d) e) cs2"
    using assms by (simp_all add: sorted_wrt_iff_nth_less)
  then show ?thesis
    by (auto simp: combine_dedup_filter sorted_wrt_append sorted_wrt_filter)
qed

theorem combine_dedup_is_dedup_witness:
  "combine_dedup (\<lambda>a _ b _. a = b) [RuntimeContract (Number 1) label_default] ()
     [RuntimeContract (Number 1) label_default, RuntimeContract (Number 2) label_default] ()
   = [RuntimeContract (Number 1) label_default, RuntimeContract (Number 2) label_default]
   \<and> take 1 (combine_dedup (\<lambda>a _ b _. a = b) [RuntimeContract (Number 1) label_default] ()
     [RuntimeContract (Number 1) label_default, RuntimeContract (Number 2) label_default] ())
   = [RuntimeContract (Number 1) label_default]"
proof -
  let ?cs1 = "[RuntimeContract (Number 1) label_default]"
  let ?cs2 = "[RuntimeContract (Number 1) label_default, RuntimeContract (Number 2) label_default]"
  have 1: "\<not> ctr_contract (?cs1 ! i) = ctr_contract (?cs1 ! j)" if "i < j" "j < length ?cs1" for i j
    using that by simp
  have 2: "\<not> ctr_contract (?cs2 ! i) = ctr_contract (?cs2 ! j)" if "i < j" "j < length ?cs2" for i j
    using that by (auto simp: less_Suc_eq numeral_2_eq_2)
  show ?thesis
    using combine_dedup_is_dedup [of ?cs1 "\<lambda>a _ b _. a = b" "()" ?cs2, OF 1 2]
    by (simp add: combine_dedup_filter)
qed

end
