(* ===== verification/Record_Merge.thy ===== *)
theory Record_Merge
  imports Thunk_Props Record_Data
begin

text \<open>
  The merge operator, \<open>core/src/eval/merge.rs\<close>, with the closurization of values it relies on,
  \<open>core/src/closurize.rs\<close>. The functions thread the thunk heap in the order the source does.

  Parameters: \<open>sr\<close> is the removal of \<open>Index_Map\<close>, \<open>ceq\<close> the equality of contracts, which reads
  the heap, and \<open>teq\<close> the syntactic equality of types (both in
  \<open>core/src/eval/contract_eq.rs\<close>); \<open>Primop_Base\<close> instantiates them with the model of that file. Positions are erased, so that the choices of the final position
  leave no trace; the label that the merge of two arrays builds shows its contract as text.
\<close>

section \<open>Closurization\<close>

definition is_generated :: "ident \<Rightarrow> bool" where
  "is_generated x \<longleftrightarrow> (\<exists>xs. x = CHR ''%'' # xs)"

definition closurize_as_btype ::
    "heap \<Rightarrow> nickel_value \<Rightarrow> env \<Rightarrow> binding_type \<Rightarrow> (nickel_value \<times> heap) panics" where
  "closurize_as_btype h v e btype =
    (if is_constant v then Some (v, h)
     else
       (let fresh = (let (a, h') = cache_add h \<lparr>clo_value = v, clo_env = e\<rparr> btype in Some (Thunk a, h'))
        in case v of
          Thunk a \<Rightarrow> do {
            deps \<leftarrow> thunk_deps h a;
            if deps_is_empty deps \<and> btype = Normal then Some (Thunk a, h)
            else do { assert_ok (deps_is_empty deps \<or> btype = Normal); fresh } }
        | TermV (Var x) \<Rightarrow>
            if is_generated x then (case e x of Some a \<Rightarrow> Some (Thunk a, h) | None \<Rightarrow> None)
            else fresh
        | _ \<Rightarrow> fresh))"

definition closurize :: "heap \<Rightarrow> nickel_value \<Rightarrow> env \<Rightarrow> (nickel_value \<times> heap) panics" where
  "closurize h v e = closurize_as_btype h v e Normal"

section \<open>Reverting\<close>

definition revert_value :: "heap \<Rightarrow> nickel_value \<Rightarrow> (nickel_value \<times> heap) panics" where
  "revert_value h v =
    (case v of
       Thunk a \<Rightarrow> do { (b, h') \<leftarrow> thunk_revert h a; Some (Thunk b, h') }
     | _ \<Rightarrow> Some (v, h))"

definition revert_contract :: "heap \<Rightarrow> contract \<Rightarrow> (contract \<times> heap) panics" where
  "revert_contract h c = do {
     (v, h') \<leftarrow> revert_value h (ctr_contract c);
     Some (map_contract (\<lambda>_. v) c, h') }"

fun revert_contracts :: "heap \<Rightarrow> contract list \<Rightarrow> (contract list \<times> heap) panics" where
  "revert_contracts h [] = Some ([], h)"
| "revert_contracts h (c # cs) = do {
     (c', h1) \<leftarrow> revert_contract h c;
     (cs', h2) \<leftarrow> revert_contracts h1 cs;
     Some (c' # cs', h2) }"

fun revert_option :: "heap \<Rightarrow> nickel_value option \<Rightarrow> (nickel_value option \<times> heap) panics" where
  "revert_option h None = Some (None, h)"
| "revert_option h (Some v) = do { (v', h') \<leftarrow> revert_value h v; Some (Some v', h') }"

definition revert_field :: "heap \<Rightarrow> nfield \<Rightarrow> (nfield \<times> heap) panics" where
  "revert_field h fld = do {
     (v, h1) \<leftarrow> revert_option h (field_value fld);
     (cs, h2) \<leftarrow> revert_contracts h1 (field_pending_contracts fld);
     Some (Field v (field_metadata fld) cs, h2) }"

section \<open>Merging two fields\<close>

definition saturate_value :: "heap \<Rightarrow> nickel_value \<Rightarrow> ident list \<Rightarrow> (nickel_value \<times> heap) panics" where
  "saturate_value h v flds =
    (case v of Thunk a \<Rightarrow> thunk_saturate h a flds | _ \<Rightarrow> Some (v, h))"

definition value_field_deps :: "heap \<Rightarrow> nickel_value \<Rightarrow> field_deps panics" where
  "value_field_deps h v =
    (case v of
       Thunk a \<Rightarrow> do { d \<leftarrow> cache_deps h a; Some (case d of None \<Rightarrow> deps_empty | Some d \<Rightarrow> d) }
     | _ \<Rightarrow> Some deps_empty)"

definition fields_merge_closurize ::
    "heap \<Rightarrow> merge_label \<Rightarrow> nickel_value \<Rightarrow> nickel_value \<Rightarrow> ident list \<Rightarrow> (nickel_value \<times> heap) panics" where
  "fields_merge_closurize h ml t1 t2 flds = do {
     d1 \<leftarrow> value_field_deps h t1;
     d2 \<leftarrow> value_field_deps h t2;
     (s1, h1) \<leftarrow> saturate_value h t1 flds;
     (s2, h2) \<leftarrow> saturate_value h1 t2 flds;
     let (a, h3) = cache_add h2 (closure_of_value (TermV (Op2 (BinOp (Merge ml)) s1 s2))) (Revertible (deps_union d1 d2));
     Some (Thunk a, h3) }"

text \<open>The value and the priority of the merged field, arm by arm; the last arm is unreachable.\<close>

definition merge_field_values ::
    "heap \<Rightarrow> merge_label \<Rightarrow> nickel_value option \<Rightarrow> merge_priority \<Rightarrow> nickel_value option \<Rightarrow> merge_priority \<Rightarrow>
     ident list \<Rightarrow> ((nickel_value option \<times> merge_priority) \<times> heap) panics" where
  "merge_field_values h ml value1 p1 value2 p2 flds =
    (if value1 \<noteq> None \<and> value2 \<noteq> None \<and> priority_eq p1 p2 then do {
       (v, h') \<leftarrow> fields_merge_closurize h ml (the value1) (the value2) flds;
       Some ((Some v, p1), h') }
     else if value1 \<noteq> None \<and> priority_gt p1 p2 then do {
       (v, h') \<leftarrow> revert_value h (the value1); Some ((Some v, p1), h') }
     else if value1 \<noteq> None \<and> value2 = None then do {
       (v, h') \<leftarrow> revert_value h (the value1); Some ((Some v, p1), h') }
     else if value2 \<noteq> None \<and> priority_gt p2 p1 then do {
       (v, h') \<leftarrow> revert_value h (the value2); Some ((Some v, p2), h') }
     else if value1 = None \<and> value2 \<noteq> None then do {
       (v, h') \<leftarrow> revert_value h (the value2); Some ((Some v, p2), h') }
     else if value1 = None \<and> value2 = None then Some ((None, Neutral), h)
     else None)"

definition merge_fields ::
    "(heap \<Rightarrow> env contract_eq) \<Rightarrow> (nickel_type \<Rightarrow> nickel_type \<Rightarrow> bool) \<Rightarrow> heap \<Rightarrow> merge_label \<Rightarrow>
     nfield \<Rightarrow> nfield \<Rightarrow> ident list \<Rightarrow> (nfield \<times> heap) panics" where
  "merge_fields ceq teq h ml field1 field2 flds = do {
     let m1 = shared_into_inner (field_metadata field1);
     let m2 = shared_into_inner (field_metadata field2);
     ((value, priority), h1) \<leftarrow>
       merge_field_values h ml (field_value field1) (fm_priority m1) (field_value field2) (fm_priority m2) flds;
     (cs1, h2) \<leftarrow> revert_contracts h1 (field_pending_contracts field1);
     (cs2, h3) \<leftarrow> revert_contracts h2 (field_pending_contracts field2);
     let cs = combine_dedup (ceq h3) cs1 Map.empty cs2 Map.empty;
     Some (Field value
       (shared_of_metadata
         (FieldMetadata (merge_doc (fm_doc m1) (fm_doc m2))
           (annotation_combine_dedup teq (fm_annotation m1) (fm_annotation m2))
           (fm_opt m1 \<and> fm_opt m2)
           (fm_not_exported m1 \<or> fm_not_exported m2)
           priority))
       cs, h3) }"

section \<open>Merging two values\<close>

datatype merge_mode = StandardMode merge_label | ContractMode label

fun mode_label :: "merge_mode \<Rightarrow> merge_label" where
  "mode_label (StandardMode ml) = ml"
| "mode_label (ContractMode l) = merge_label_of_label l"

datatype merge_error =
    MergeIncompatibleArgs nickel_value nickel_value merge_label
  | IllegalPolymorphicTailAccess label

fun revert_fields :: "heap \<Rightarrow> (ident \<times> nfield) list \<Rightarrow> ((ident \<times> nfield) list \<times> heap) panics" where
  "revert_fields h [] = Some ([], h)"
| "revert_fields h ((x, fld) # rest) = do {
     (fld', h1) \<leftarrow> revert_field h fld;
     (rest', h2) \<leftarrow> revert_fields h1 rest;
     Some ((x, fld') # rest', h2) }"

fun merge_center ::
    "(heap \<Rightarrow> env contract_eq) \<Rightarrow> (nickel_type \<Rightarrow> nickel_type \<Rightarrow> bool) \<Rightarrow> merge_label \<Rightarrow> ident list \<Rightarrow>
     (ident \<times> nfield \<times> nfield) list \<Rightarrow> (ident, nfield) index_map \<Rightarrow> heap \<Rightarrow>
     ((ident, nfield) index_map \<times> heap) panics" where
  "merge_center ceq teq ml names [] m h = Some (m, h)"
| "merge_center ceq teq ml names ((x, f1, f2) # rest) m h = do {
     (fld, h') \<leftarrow> merge_fields ceq teq h ml f1 f2 names;
     merge_center ceq teq ml names rest (im_insert x fld m) h' }"

fun join :: "string \<Rightarrow> string list \<Rightarrow> string" where
  "join sep [] = ''''"
| "join sep [x] = x"
| "join sep (x # xs) = x @ sep @ join sep xs"

text \<open>The value \<open>'Error {message, notes}\<close> returned for extra fields.\<close>

definition extra_fields_error :: "ident list \<Rightarrow> nickel_value" where
  "extra_fields_error extra =
    (let plural = (if length extra = 1 then '''' else ''s'');
         quoted = map (\<lambda>x. ''`'' @ x @ ''`'') extra;
         message = ''extra field'' @ plural @ '' '' @ join '', '' quoted;
         notes = [String ''Have you misspelled a field?'',
                  String (''The record contract might also be too strict. By default, '' @
                    ''record contracts exclude any field which is not listed.'' @ [CHR 0x0A] @
                    ''Append `, ..` at the end of the record contract, as in '' @
                    ''`{some_field | SomeContract, ..}`, to make it accept extra fields.'')]
     in EnumVariant ''Error'' (Some (RecordV (Alloc (with_field_values
          [(''message'', String message), (''notes'', ArrayV (Alloc (notes, [])))])))))"

definition merge_records ::
    "(ident, nfield) swap_remove \<Rightarrow> (heap \<Rightarrow> env contract_eq) \<Rightarrow> (nickel_type \<Rightarrow> nickel_type \<Rightarrow> bool) \<Rightarrow>
     heap \<Rightarrow> nrecord \<Rightarrow> nrecord \<Rightarrow> merge_mode \<Rightarrow> ((merge_error + nickel_value + nickel_value) \<times> heap) panics" where
  "merge_records sr ceq teq h r1 r2 mode =
    (case option_or (record_sealed_tail r1) (record_sealed_tail r2) of
       Some tail \<Rightarrow> Some (Inl (IllegalPolymorphicTailAccess (tail_label tail)), h)
     | None \<Rightarrow>
         (let r = split_ref sr (record_fields r1) (record_fields r2);
              left = split_left r; center = split_center r; right = split_right r
          in if (case mode of ContractMode _ \<Rightarrow> \<not> attrs_open (record_attributes r2) \<and> left \<noteq> [] | _ \<Rightarrow> False)
             then Some (Inr (Inl (extra_fields_error (map fst left))), h)
             else do {
               let ml = mode_label mode;
               let names = map fst left @ map fst center @ map fst right;
               (left', h1) \<leftarrow> revert_fields h left;
               (right', h2) \<leftarrow> revert_fields h1 right;
               let m = im_extend (im_extend [] left') right';
               (m', h3) \<leftarrow> merge_center ceq teq ml names center m h2;
               Some (Inr (Inr (TermV (RecRecord
                 (record_new m' (attrs_combine (record_attributes r1) (record_attributes r2)) None) [] [] None True))), h3) }))"

definition is_inline_empty_record :: "nickel_value \<Rightarrow> bool" where
  "is_inline_empty_record v \<longleftrightarrow> v = RecordV Empty"

definition incompatible :: "nickel_value \<Rightarrow> nickel_value \<Rightarrow> merge_mode \<Rightarrow> merge_error + nickel_value + nickel_value" where
  "incompatible v1 v2 mode = Inl (MergeIncompatibleArgs v1 v2 (mode_label mode))"

definition array_equal_label :: "merge_label \<Rightarrow> label" where
  "array_equal_label ml =
    set_diagnostic_notes
      ([''This equality contract was auto-generated from a merge operation on two arrays. '' @
        ''Arrays can only be merged if they are equal.''] @
       (if ml_kind ml = PiecewiseDef
        then [''The arrays were merged because they were assigned to the same record field '' @
              ''piecewise. This is likely to have been a mistake. Check for duplicate '' @
              ''definitions of the same record field.'']
        else []))
      (set_diagnostic_message ''cannot merge unequal arrays''
        (label_default\<lparr>label_typ := ''contract.Equal some_array'', label_span := ml_span ml\<rparr>))"

text \<open>
  The match on the two operands. The result is an error, or a value returned as it is
  (\<open>Inr (Inl v)\<close>, the early return for extra fields), or a value still to be wrapped
  (\<open>Inr (Inr v)\<close>).
\<close>

definition merge_operands ::
    "(ident, nfield) swap_remove \<Rightarrow> (heap \<Rightarrow> env contract_eq) \<Rightarrow> (nickel_type \<Rightarrow> nickel_type \<Rightarrow> bool) \<Rightarrow>
     heap \<Rightarrow> nickel_value \<Rightarrow> env \<Rightarrow> nickel_value \<Rightarrow> env \<Rightarrow> merge_mode \<Rightarrow>
     ((merge_error + nickel_value + nickel_value) \<times> heap) panics" where
  "merge_operands sr ceq teq h v1 env1 v2 env2 mode =
    (case (v1, v2) of
       (Null, Null) \<Rightarrow> Some (Inr (Inr Null), h)
     | (Bool b1, Bool b2) \<Rightarrow>
         if b1 = b2 then Some (Inr (Inr (Bool b1)), h) else Some (incompatible v1 v2 mode, h)
     | (Number n1, Number n2) \<Rightarrow>
         if n1 = n2 then Some (Inr (Inr (Number n1)), h) else Some (incompatible v1 v2 mode, h)
     | (String s1, String s2) \<Rightarrow>
         if s1 = s2 then Some (Inr (Inr (String s1)), h) else Some (incompatible v1 v2 mode, h)
     | (LabelV l1, LabelV l2) \<Rightarrow>
         if l1 = l2 then Some (Inr (Inr (LabelV l1)), h) else Some (incompatible v1 v2 mode, h)
     | (EnumVariant tag1 arg1, EnumVariant tag2 arg2) \<Rightarrow>
         if tag1 = tag2 \<and> arg1 = None \<and> arg2 = None then Some (Inr (Inr (EnumVariant tag1 None)), h)
         else if tag1 = tag2 \<and> arg1 \<noteq> None \<and> arg2 \<noteq> None then do {
           (a1, h1) \<leftarrow> closurize h (the arg1) env1;
           (a2, h2) \<leftarrow> closurize h1 (the arg2) env2;
           (arg, h3) \<leftarrow> closurize h2 (TermV (Op2 (BinOp (Merge (mode_label mode))) a1 a2)) Map.empty;
           Some (Inr (Inr (EnumVariant tag1 (Some arg))), h3) }
         else Some (incompatible v1 v2 mode, h)
     | (ArrayV _, ArrayV _) \<Rightarrow> do {
         (a1, h1) \<leftarrow> closurize h v1 env1;
         (a2, h2) \<leftarrow> closurize h1 v2 env2;
         let eq_contract = TermV (App (TermV (Var ''$stdlib_contract_equal'')) a1);
         Some (Inr (Inr (TermV (App (TermV (Op2 (BinOp ContractApply) eq_contract
           (LabelV (array_equal_label (mode_label mode))))) a2))), h2) }
     | (RecordV c1, RecordV c2) \<Rightarrow>
         (case (c1, c2) of
            (Alloc r1, Alloc r2) \<Rightarrow> merge_records sr ceq teq h r1 r2 mode
          | _ \<Rightarrow> Some (Inr (Inr (if is_inline_empty_record v1 then v2 else v1)), h))
     | _ \<Rightarrow> Some (incompatible v1 v2 mode, h))"

definition merge ::
    "(ident, nfield) swap_remove \<Rightarrow> (heap \<Rightarrow> env contract_eq) \<Rightarrow> (nickel_type \<Rightarrow> nickel_type \<Rightarrow> bool) \<Rightarrow>
     heap \<Rightarrow> nickel_value \<Rightarrow> env \<Rightarrow> nickel_value \<Rightarrow> env \<Rightarrow> merge_mode \<Rightarrow> ((merge_error + closure) \<times> heap) panics" where
  "merge sr ceq teq h v1 env1 v2 env2 mode = do {
     (r, h1) \<leftarrow> merge_operands sr ceq teq h v1 env1 v2 env2 mode;
     case r of
       Inl err \<Rightarrow> Some (Inl err, h1)
     | Inr (Inl early) \<Rightarrow> Some (Inr (closure_of_value early), h1)
     | Inr (Inr value) \<Rightarrow>
         (case mode of
            ContractMode _ \<Rightarrow> do {
              (v, h2) \<leftarrow> closurize h1 value Map.empty;
              Some (Inr (closure_of_value (EnumVariant ''Ok'' (Some v))), h2) }
          | StandardMode _ \<Rightarrow> Some (Inr (closure_of_value value), h1)) }"

end
