(* ===== verification/Term_Make.thy ===== *)
theory Term_Make
  imports Record_Data
begin

text \<open>
  The builders of terms of \<open>core/src/term/mod.rs\<close> (module \<open>make\<close>), the allocation of containers in
  \<open>core/src/eval/value/mod.rs\<close>, the accessors to the internal contracts of
  \<open>core/src/stdlib.rs\<close> and the generated identifiers of \<open>parser/src/identifier.rs\<close>.

  The counter of generated identifiers is global in the source; here a natural number is threaded
  through the functions that generate identifiers.
\<close>

section \<open>Containers\<close>

definition array_value :: "nickel_value list \<Rightarrow> contract list \<Rightarrow> nickel_value" where
  "array_value vs cs = (if vs = [] then ArrayV Empty else ArrayV (Alloc (vs, cs)))"

text \<open>The allocation of a record: a closed empty one is inline. \<open>record_posless\<close> does not look at the openness.\<close>

definition record_value :: "nrecord \<Rightarrow> nickel_value" where
  "record_value r = (if record_is_empty r \<and> \<not> attrs_open (record_attributes r) then RecordV Empty else RecordV (Alloc r))"

definition record_posless :: "nrecord \<Rightarrow> nickel_value" where
  "record_posless r = (if record_is_empty r then RecordV Empty else RecordV (Alloc r))"

definition mk_record :: "(ident \<times> nickel_value) list \<Rightarrow> nickel_value" where
  "mk_record fvs = record_posless (with_field_values (im_from_iter fvs))"

fun polarity_value :: "polarity \<Rightarrow> nickel_value" where
  "polarity_value Positive = EnumVariant ''Positive'' None"
| "polarity_value Negative = EnumVariant ''Negative'' None"

section \<open>Generated identifiers\<close>

text \<open>The prefix and the decimal counter.\<close>

definition digit_char :: "nat \<Rightarrow> char" where
  "digit_char d = char_of (48 + d)"

fun decimal :: "nat \<Rightarrow> string" where
  "decimal n = (if n < 10 then [digit_char n] else decimal (n div 10) @ [digit_char (n mod 10)])"

declare decimal.simps [simp del]

definition gen_ident :: "nat \<Rightarrow> ident" where
  "gen_ident n = CHR ''%'' # decimal n"

section \<open>Builders of terms\<close>

definition mk_app :: "nickel_value \<Rightarrow> nickel_value \<Rightarrow> nickel_value" where
  "mk_app f arg = TermV (App f arg)"

definition mk_apps :: "nickel_value \<Rightarrow> nickel_value list \<Rightarrow> nickel_value" where
  "mk_apps f args = foldl mk_app f args"

definition mk_var :: "ident \<Rightarrow> nickel_value" where
  "mk_var x = TermV (Var x)"

definition mk_fun :: "ident \<Rightarrow> nickel_value \<Rightarrow> nickel_value" where
  "mk_fun x body = TermV (Fun x body)"

definition let_in :: "bool \<Rightarrow> (ident \<times> nickel_value) list \<Rightarrow> nickel_value \<Rightarrow> nickel_value" where
  "let_in is_rec bindings t2 = TermV (Let bindings t2 Normal is_rec)"

definition let_one_in :: "ident \<Rightarrow> nickel_value \<Rightarrow> nickel_value \<Rightarrow> nickel_value" where
  "let_one_in x t1 t2 = let_in False [(x, t1)] t2"

definition mk_op1 :: "unary_op \<Rightarrow> nickel_value \<Rightarrow> nickel_value" where
  "mk_op1 op t = TermV (Op1 op t)"

definition mk_op2 :: "nickel_value binary_op \<Rightarrow> nickel_value \<Rightarrow> nickel_value \<Rightarrow> nickel_value" where
  "mk_op2 op t1 t2 = TermV (Op2 op t1 t2)"

definition mk_opn :: "nary_op \<Rightarrow> nickel_value list \<Rightarrow> nickel_value" where
  "mk_opn op args = TermV (OpN op args)"

definition if_then_else :: "nickel_value \<Rightarrow> nickel_value \<Rightarrow> nickel_value \<Rightarrow> nickel_value" where
  "if_then_else cond t1 t2 = mk_apps (mk_op1 IfThenElse cond) [t1, t2]"

definition static_access :: "nickel_value \<Rightarrow> ident list \<Rightarrow> nickel_value" where
  "static_access record flds = foldl (\<lambda>v fld. mk_op1 (RecordAccess fld) v) record flds"

definition enum_variant :: "ident \<Rightarrow> nickel_value \<Rightarrow> nickel_value" where
  "enum_variant tag arg = EnumVariant tag (Some arg)"

definition enum_tag :: "ident \<Rightarrow> nickel_value" where
  "enum_tag tag = EnumVariant tag None"

definition custom_contract :: "nickel_value \<Rightarrow> nickel_value" where
  "custom_contract ctr = CustomContract ctr"

text \<open>\<open>compat::closurize\<close>: a container literal that evaluation has to closurize.\<close>

definition closurize_literal :: "nickel_value \<Rightarrow> nickel_value" where
  "closurize_literal v = TermV (Closurize v)"

text \<open>The variable of an internal of the standard library.\<close>

definition internal :: "string \<Rightarrow> nickel_value" where
  "internal name = mk_var (CHR ''$'' # name)"

lemmas make_defs = mk_app_def mk_apps_def mk_var_def mk_fun_def let_in_def let_one_in_def mk_op1_def
  mk_op2_def mk_opn_def if_then_else_def static_access_def enum_variant_def enum_tag_def
  custom_contract_def closurize_literal_def internal_def

section \<open>Facts on generated identifiers\<close>

lemma decimal_not_Nil [simp]: "decimal n \<noteq> []" "[] \<noteq> decimal n"
  by (subst decimal.simps, simp)+

lemma digit_char_inj: "a < 10 \<Longrightarrow> b < 10 \<Longrightarrow> digit_char a = digit_char b \<longleftrightarrow> a = b"
proof
  assume b: "a < 10" "b < 10" and "digit_char a = digit_char b"
  then have "of_char (char_of (48 + a) :: char) = (of_char (char_of (48 + b) :: char) :: nat)"
    by (simp add: digit_char_def)
  then show "a = b" using b by simp
qed simp

lemma decimal_inj: "decimal m = decimal n \<Longrightarrow> m = n"
proof (induction m arbitrary: n rule: decimal.induct)
  case (1 m)
  have m: "decimal m = (if m < 10 then [] else decimal (m div 10)) @ [digit_char (m mod 10)]"
    and n: "decimal n = (if n < 10 then [] else decimal (n div 10)) @ [digit_char (n mod 10)]"
    by (subst decimal.simps, simp)+
  have "m mod 10 = n mod 10" using 1(2) digit_char_inj [of "m mod 10" "n mod 10"] unfolding m n by simp
  moreover have "m div 10 = n div 10"
  proof (cases "m < 10 \<or> n < 10")
    case True
    then have "m < 10 \<and> n < 10" using 1(2) unfolding m n by (auto split: if_splits)
    then show ?thesis by simp
  next
    case False
    then show ?thesis using 1(1) [of "n div 10"] 1(2) unfolding m n by simp
  qed
  ultimately show ?case by (metis div_mult_mod_eq)
qed

lemma gen_ident_inj [simp]: "gen_ident m = gen_ident n \<longleftrightarrow> m = n"
  using decimal_inj by (auto simp: gen_ident_def)

end
