(* ===== verification/Fixpoint.thy ===== *)
theory Fixpoint
  imports Record_Merge Term_Make
begin

text \<open>
  Recursive records, \<open>core/src/eval/fixpoint.rs\<close>, and the closurization of the structures that
  contain values, \<open>core/src/closurize.rs\<close>. A recursive record is evaluated by closurizing its fields,
  building the recursive environment, which binds each field name to the field with its pending
  contracts applied, and patching the revertible thunks of the fields with that environment.
\<close>

section \<open>Closurization of structures\<close>

definition should_share :: "nickel_value \<Rightarrow> bool" where
  "should_share v =
    (case v of
       TermV t \<Rightarrow> (case t of Var _ \<Rightarrow> False | Fun _ _ \<Rightarrow> False | _ \<Rightarrow> True)
     | TypeV _ _ \<Rightarrow> True
     | EnumVariant _ arg \<Rightarrow> arg \<noteq> None
     | _ \<Rightarrow> False)"

definition closurize_contract :: "heap \<Rightarrow> contract \<Rightarrow> env \<Rightarrow> binding_type \<Rightarrow> (contract \<times> heap) panics" where
  "closurize_contract h c e bty = do {
     (v, h') \<leftarrow> closurize_as_btype h (ctr_contract c) e bty;
     Some (map_contract (\<lambda>_. v) c, h') }"

text \<open>The \<open>map\<close> over an iterator that threads the cache.\<close>

fun map_heap :: "(heap \<Rightarrow> 'a \<Rightarrow> ('b \<times> heap) panics) \<Rightarrow> heap \<Rightarrow> 'a list \<Rightarrow> ('b list \<times> heap) panics" where
  "map_heap f h [] = Some ([], h)"
| "map_heap f h (x # xs) = do {
     (y, h1) \<leftarrow> f h x;
     (ys, h2) \<leftarrow> map_heap f h1 xs;
     Some (y # ys, h2) }"

definition closurize_contracts :: "heap \<Rightarrow> contract list \<Rightarrow> env \<Rightarrow> binding_type \<Rightarrow> (contract list \<times> heap) panics" where
  "closurize_contracts h cs e bty = map_heap (\<lambda>h c. closurize_contract h c e bty) h cs"

fun closurize_option :: "heap \<Rightarrow> nickel_value option \<Rightarrow> env \<Rightarrow> binding_type \<Rightarrow> (nickel_value option \<times> heap) panics" where
  "closurize_option h None e bty = Some (None, h)"
| "closurize_option h (Some v) e bty = do { (v', h') \<leftarrow> closurize_as_btype h v e bty; Some (Some v', h') }"

definition closurize_field :: "heap \<Rightarrow> nfield \<Rightarrow> env \<Rightarrow> binding_type \<Rightarrow> (nfield \<times> heap) panics" where
  "closurize_field h fld e bty = do {
     (cs, h1) \<leftarrow> closurize_contracts h (field_pending_contracts fld) e bty;
     (v, h2) \<leftarrow> closurize_option h1 (field_value fld) e bty;
     Some (Field v (field_metadata fld) cs, h2) }"

definition closurize_array :: "heap \<Rightarrow> nickel_value list \<Rightarrow> env \<Rightarrow> binding_type \<Rightarrow> (nickel_value list \<times> heap) panics" where
  "closurize_array h vs e bty =
    map_heap (\<lambda>h v. if should_share v then closurize_as_btype h v e bty else Some (v, h)) h vs"

definition closurize_array_data ::
    "heap \<Rightarrow> nickel_value list \<times> contract list \<Rightarrow> env \<Rightarrow> binding_type \<Rightarrow> ((nickel_value list \<times> contract list) \<times> heap) panics" where
  "closurize_array_data h d e bty = do {
     (cs, h1) \<leftarrow> closurize_contracts h (snd d) e bty;
     (vs, h2) \<leftarrow> closurize_array h1 (fst d) e bty;
     Some ((vs, cs), h2) }"

definition closurize_record_data :: "heap \<Rightarrow> nrecord \<Rightarrow> env \<Rightarrow> binding_type \<Rightarrow> (nrecord \<times> heap) panics" where
  "closurize_record_data h r e bty = do {
     (flds, h') \<leftarrow> map_heap (\<lambda>h (x, fld). do { (fld', h1) \<leftarrow> closurize_field h fld e bty; Some ((x, fld'), h1) }) h (record_fields r);
     Some (RecordData flds (record_attributes r) (record_sealed_tail r), h') }"

definition mk_binding_type :: "field_deps option \<Rightarrow> binding_type" where
  "mk_binding_type field_deps =
    (case field_deps of
       None \<Rightarrow> Revertible Unknown
     | Some d \<Rightarrow> if deps_is_empty d then Normal else Revertible d)"

definition closurize_rec_record ::
    "heap \<Rightarrow> nrecord \<Rightarrow> (nickel_value \<times> nfield) list \<Rightarrow> record_deps option \<Rightarrow> env \<Rightarrow>
     ((nrecord \<times> (nickel_value \<times> nfield) list) \<times> heap) panics" where
  "closurize_rec_record h data dyns deps e = do {
     (flds, h1) \<leftarrow> map_heap (\<lambda>h (x, fld). do {
         let field_deps = (case deps of None \<Rightarrow> None | Some d \<Rightarrow> map_of (stat_fields d) x);
         (fld', h') \<leftarrow> closurize_field h fld e (mk_binding_type field_deps);
         Some ((x, fld'), h') }) h (record_fields data);
     (dyns', h2) \<leftarrow> map_heap (\<lambda>h (i, id_t, fld). do {
         let field_deps = (case deps of None \<Rightarrow> None
           | Some d \<Rightarrow> if i < length (dyn_fields d) then Some (dyn_fields d ! i) else None);
         (id_t', h') \<leftarrow> closurize h id_t e;
         (fld', h'') \<leftarrow> closurize_field h' fld e (mk_binding_type field_deps);
         Some ((id_t', fld'), h'') }) h1 (enumerate 0 dyns);
     Some ((RecordData flds (record_attributes data) (record_sealed_tail data), dyns'), h2) }"

section \<open>The recursive environment\<close>

definition patch_value :: "heap \<Rightarrow> nickel_value \<Rightarrow> (ident \<times> addr) list \<Rightarrow> heap panics" where
  "patch_value h v rec_env =
    (case v of
       Thunk a \<Rightarrow> thunk_build_cached h a rec_env
     | _ \<Rightarrow> do { assert_ok (is_constant v); Some h })"

definition rec_env_binding :: "heap \<Rightarrow> ident \<times> nfield \<Rightarrow> ((ident \<times> addr) \<times> heap) panics" where
  "rec_env_binding h b =
    (let (x, fld) = b in
     case field_value fld of
       Some v \<Rightarrow> do {
         (idx, h1) \<leftarrow> (case v of
            Thunk a \<Rightarrow> Some (a, h)
          | _ \<Rightarrow> do { assert_ok (is_constant v); Some (cache_add h (closure_of_value v) Normal) });
         let with_ctr_applied = contract_apply_all (Thunk idx) (field_pending_contracts fld);
         let (a, h2) = cache_add h1 (closure_of_value with_ctr_applied) Normal;
         Some ((x, a), h2) }
     | None \<Rightarrow>
         let err = TermV (RuntimeError (MissingFieldDefError x (shared_into_inner (field_metadata fld))));
             (a, h1) = cache_add h (closure_of_value err) Normal
         in Some ((x, a), h1))"

definition rec_env :: "heap \<Rightarrow> (ident \<times> nfield) list \<Rightarrow> ((ident \<times> addr) list \<times> heap) panics" where
  "rec_env h bindings = map_heap rec_env_binding h bindings"

fun patch_values :: "heap \<Rightarrow> nickel_value list \<Rightarrow> (ident \<times> addr) list \<Rightarrow> heap panics" where
  "patch_values h [] renv = Some h"
| "patch_values h (v # vs) renv = do { h' \<leftarrow> patch_value h v renv; patch_values h' vs renv }"

definition patch_field :: "heap \<Rightarrow> nfield \<Rightarrow> (ident \<times> addr) list \<Rightarrow> heap panics" where
  "patch_field h fld renv = do {
     h1 \<leftarrow> (case field_value fld of Some v \<Rightarrow> patch_value h v renv | None \<Rightarrow> Some h);
     patch_values h1 (map ctr_contract (field_pending_contracts fld)) renv }"

fun patch_fields :: "heap \<Rightarrow> nfield list \<Rightarrow> (ident \<times> addr) list \<Rightarrow> heap panics" where
  "patch_fields h [] renv = Some h"
| "patch_fields h (f # fs) renv = do { h' \<leftarrow> patch_field h f renv; patch_fields h' fs renv }"

text \<open>\<open>revert\<close>: the record as a recursive one again, with its fields reverted.\<close>

definition fixpoint_revert :: "heap \<Rightarrow> nrecord \<Rightarrow> (nickel_term \<times> heap) panics" where
  "fixpoint_revert h r = do {
     (flds, h') \<leftarrow> revert_fields h (record_fields r);
     Some (RecRecord (RecordData (im_from_iter flds) (record_attributes r) (record_sealed_tail r)) [] [] None True, h') }"

section \<open>Evaluation of a recursive record\<close>

text \<open>One dynamic field: the static part extended by an insertion.\<close>

fun extend_dyn :: "heap \<Rightarrow> nickel_value \<Rightarrow> (nickel_value \<times> nfield) list \<Rightarrow> (ident \<times> addr) list \<Rightarrow> (nickel_value \<times> heap) panics" where
  "extend_dyn h acc [] renv = Some (acc, h)"
| "extend_dyn h acc ((name, fld) # dyns) renv = do {
     h1 \<leftarrow> patch_field h fld renv;
     let extend = TermV (Op2 (RecordInsert (field_metadata fld) (field_pending_contracts fld) (extension_kind fld) ConsiderAllFields) name acc);
     extend_dyn h1 (case field_value fld of Some v \<Rightarrow> TermV (App extend v) | None \<Rightarrow> extend) dyns renv }"

definition eval_rec_record ::
    "heap \<Rightarrow> nrecord \<Rightarrow> (nickel_value \<times> nfield) list \<Rightarrow> record_deps option \<Rightarrow> bool \<Rightarrow> env \<Rightarrow> (nickel_value \<times> heap) panics" where
  "eval_rec_record h data dyns deps closurized e = do {
     ((static_part, dyns'), h1) \<leftarrow>
       (if \<not> closurized then closurize_rec_record h data dyns deps e else Some ((data, dyns), h));
     (renv, h2) \<leftarrow> rec_env h1 (record_fields static_part);
     h3 \<leftarrow> patch_fields h2 (map snd (record_fields static_part)) renv;
     extend_dyn h3 (record_value static_part) dyns' renv }"

end
