(* ===== verification/Pattern_Compile.thy ===== *)
theory Pattern_Compile
  imports Term_Make
begin

text \<open>
  Patterns (\<open>parser/src/ast/pattern\<close>) and their compilation to terms without patterns,
  \<open>core/src/term/pattern/compile.rs\<close>: the parts of a pattern in continuation-passing style, match
  expressions with the special case of enum tags, destructuring \<open>let\<close> and destructuring functions.

  \<^item> The default values and the annotations inside a pattern are terms already: the source lowers
    them from the syntax tree with \<open>to_mainline\<close> just before it uses them.
  \<^item> The \<open>HashMap\<close> from pattern variables to generated identifiers is an association list; the order
    in which the source iterates over it is not specified and only orders the bindings of a \<open>let\<close>
    that is not recursive, or the fields of a record.
  \<^item> An index into that map and the \<open>unwrap\<close> on generated contracts can panic (\<open>None\<close>).
  \<^item> The generation of the pending contracts of an annotated field
    (\<open>gen_pending_contracts::transform_one\<close>) is the parameter \<open>gpc\<close>: the generation of contracts
    calls the compilation of patterns itself. \<open>Type_Contract\<close> closes the loop.
\<close>

section \<open>Patterns\<close>

datatype tail_pattern = TailEmpty | TailOpen | TailCapture ident

definition tail_is_open :: "tail_pattern \<Rightarrow> bool" where
  "tail_is_open tail \<longleftrightarrow> (case tail of TailEmpty \<Rightarrow> False | TailOpen \<Rightarrow> True | TailCapture _ \<Rightarrow> True)"

datatype constant_pattern = ConstBool bool | ConstNumber rat | ConstString string | ConstNull

datatype pattern = Pattern (pat_data: pattern_data) (pat_alias: "ident option")
and pattern_data =
    PWildcard
  | PAny ident
  | PRecord "field_pattern list" tail_pattern
  | PArray "pattern list" tail_pattern
  | PEnum ident "pattern option"
  | PConstant constant_pattern
  | POr "pattern list"
and field_pattern = FieldPattern
    (fp_matched_id: ident) (fp_annotation: nannotation) (fp_default: "nickel_value option") (fp_pattern: pattern)

text \<open>The variables of a pattern in the order of \<open>Bindings::bindings\<close>.\<close>

definition alias_ids :: "ident option \<Rightarrow> ident list" where
  "alias_ids alias = (case alias of None \<Rightarrow> [] | Some x \<Rightarrow> [x])"

definition tail_ids :: "tail_pattern \<Rightarrow> ident list" where
  "tail_ids tail = (case tail of TailCapture x \<Rightarrow> [x] | _ \<Rightarrow> [])"

fun pattern_bindings :: "pattern \<Rightarrow> ident list"
and data_bindings :: "pattern_data \<Rightarrow> ident list"
and field_bindings :: "field_pattern \<Rightarrow> ident list" where
  "pattern_bindings (Pattern data alias) = alias_ids alias @ data_bindings data"
| "data_bindings PWildcard = []"
| "data_bindings (PAny x) = [x]"
| "data_bindings (PRecord fps tail) = concat (map field_bindings fps) @ tail_ids tail"
| "data_bindings (PArray ps tail) = concat (map pattern_bindings ps) @ tail_ids tail"
| "data_bindings (PEnum tag p) = (case p of None \<Rightarrow> [] | Some p \<Rightarrow> pattern_bindings p)"
| "data_bindings (PConstant _) = []"
| "data_bindings (POr ps) = concat (map pattern_bindings ps)"
| "field_bindings (FieldPattern x annot def p) = pattern_bindings p"

section \<open>Building blocks\<close>

type_synonym pending_gen = "nickel_value \<Rightarrow> nat \<Rightarrow> (nickel_value \<times> nat) panics"
type_synonym pat_bindings = "(ident \<times> ident) list"

definition record_insert :: "nickel_value binary_op" where
  "record_insert = RecordInsert None [] WithValue ConsiderAllFields"

definition update_with_merge ::
    "pending_gen \<Rightarrow> ident \<Rightarrow> ident \<Rightarrow> nfield \<Rightarrow> nat \<Rightarrow> (nickel_value \<times> nat) panics" where
  "update_with_merge gpc record_id x fld n = do {
     (singleton, n') \<leftarrow> gpc (record_posless (RecordData (im_from_iter [(x, fld)]) attrs_new None)) n;
     let merge_label = \<lparr>ml_span = 0, ml_kind = StandardMerge\<rparr>;
     Some (mk_op2 (BinOp (Merge merge_label)) (mk_var record_id) (TermV (Closurize singleton)), n') }"

definition with_default_value ::
    "pending_gen \<Rightarrow> ident \<Rightarrow> ident \<Rightarrow> nickel_value \<Rightarrow> nat \<Rightarrow> (nickel_value \<times> nat) panics" where
  "with_default_value gpc record_id fld dflt n = do {
     let field_not_defined = mk_op1 BoolNot
       (mk_op2 (BinOp (RecordFieldIsDefined ConsiderAllFields)) (String fld) (mk_var record_id));
     let has_field = mk_op2 (BinOp (RecordHasField ConsiderAllFields)) (String fld) (mk_var record_id);
     let insert = mk_app (mk_op2 record_insert (String fld) (mk_var record_id)) dflt;
     (upd, n') \<leftarrow> update_with_merge gpc record_id fld (field_of_value dflt) n;
     let inner_let_if = if_then_else has_field upd insert;
     Some (if_then_else field_not_defined inner_let_if (mk_var record_id), n') }"

definition typeof_is :: "ident \<Rightarrow> string \<Rightarrow> nickel_value" where
  "typeof_is value_id typ = mk_op2 (BinOp Eq) (mk_op1 Typeof (mk_var value_id)) (enum_tag typ)"

text \<open>The local function \<open>and\<close> of record patterns, with the optimisation on \<open>true\<close>.\<close>

definition and_term :: "nickel_value \<Rightarrow> nickel_value \<Rightarrow> nickel_value" where
  "and_term a b = (if a = Bool True then b else if b = Bool True then a else mk_app (mk_op1 BoolAnd a) b)"

definition compile_constant :: "constant_pattern \<Rightarrow> ident \<Rightarrow> nickel_value \<Rightarrow> nickel_value \<Rightarrow> nickel_value" where
  "compile_constant c value_id match_cont fail_cont =
    (let (nickel_type, v) =
       (case c of
          ConstBool b \<Rightarrow> (''Bool'', Bool b)
        | ConstNumber q \<Rightarrow> (''Number'', Number q)
        | ConstString s \<Rightarrow> (''String'', String s)
        | ConstNull \<Rightarrow> (''Other'', Null));
       value_matches = mk_op2 (BinOp Eq) (mk_var value_id) v;
       if_condition = mk_app (mk_op1 BoolAnd (typeof_is value_id nickel_type)) value_matches
     in if_then_else if_condition match_cont fail_cont)"

text \<open>The eager checks of a record pattern.\<close>

fun has_fields :: "field_pattern list \<Rightarrow> ident \<Rightarrow> nickel_value" where
  "has_fields [] local_value_id = Bool True"
| "has_fields (fp # fps) local_value_id =
    (if fp_default fp \<noteq> None then has_fields fps local_value_id
     else and_term
       (mk_op2 (BinOp (RecordFieldIsDefined ConsiderAllFields)) (String (fp_matched_id fp)) (mk_var local_value_id))
       (has_fields fps local_value_id))"

definition has_right_length :: "field_pattern list \<Rightarrow> tail_pattern \<Rightarrow> ident \<Rightarrow> nickel_value" where
  "has_right_length fps tail local_value_id =
    (if tail_is_open tail then Bool True
     else mk_op2 (BinOp Eq)
       (mk_op1 ArrayLength (mk_op1 (RecordFields IgnoreEmptyOpt) (mk_var local_value_id)))
       (Number (of_nat (length fps))))"

definition record_tail_value :: "field_pattern list \<Rightarrow> ident \<Rightarrow> nickel_value" where
  "record_tail_value fps local_value_id =
    foldl (\<lambda>tail fp. mk_op2 (BinOp (RecordRemove ConsiderAllFields)) (String (fp_matched_id fp)) tail)
      (mk_var local_value_id) fps"

text \<open>The fold that inserts the default values.\<close>

fun with_defaults ::
    "pending_gen \<Rightarrow> field_pattern list \<Rightarrow> ident \<Rightarrow> nickel_value \<Rightarrow> nat \<Rightarrow> (nickel_value \<times> nat) panics" where
  "with_defaults gpc [] local_value_id cont n = Some (cont, n)"
| "with_defaults gpc (fp # fps) local_value_id cont n =
    (case fp_default fp of
       None \<Rightarrow> with_defaults gpc fps local_value_id cont n
     | Some dflt \<Rightarrow> do {
         (v, n') \<leftarrow> with_default_value gpc local_value_id (fp_matched_id fp) dflt n;
         with_defaults gpc fps local_value_id (let_one_in local_value_id v cont) n' })"

section \<open>Compilation of the parts of a pattern\<close>

text \<open>
  \<open>CompilePart::compile_part\<close>: a compiler takes the identifier of the value, the continuations for
  success and failure, the generated names of the variables and the counter. The sub-patterns are
  given to the compilers of composite patterns as compilers. The folds over the reversed sub-patterns
  are the recursive functions \<open>fold_or\<close>, \<open>fold_fields\<close> and \<open>fold_elems\<close>: the last sub-pattern is
  compiled first.
\<close>

type_synonym compiler =
  "ident \<Rightarrow> nickel_value \<Rightarrow> nickel_value \<Rightarrow> pat_bindings \<Rightarrow> nat \<Rightarrow> (nickel_value \<times> nat) panics"

definition compile_alias :: "ident option \<Rightarrow> compiler \<Rightarrow> compiler" where
  "compile_alias alias data value_id match_cont fail_cont bs n =
    (case alias of
       None \<Rightarrow> data value_id match_cont fail_cont bs n
     | Some x \<Rightarrow> do {
         x' \<leftarrow> map_of bs x;
         data value_id (let_one_in x' (mk_var value_id) match_cont) fail_cont bs n })"

definition compile_any :: "ident \<Rightarrow> compiler" where
  "compile_any x value_id match_cont fail_cont bs n = do {
     x' \<leftarrow> map_of bs x;
     Some (let_one_in x' (mk_var value_id) match_cont, n) }"

fun fold_or :: "compiler list \<Rightarrow> compiler" where
  "fold_or [] value_id match_cont fail_cont bs n = Some (fail_cont, n)"
| "fold_or (p # ps) value_id match_cont fail_cont bs n = do {
     (cont, n1) \<leftarrow> fold_or ps value_id match_cont fail_cont bs n;
     p value_id match_cont cont bs n1 }"

text \<open>One step of the fold over the fields of a record pattern; the identifier is the local record.\<close>

definition compile_field_part :: "pending_gen \<Rightarrow> ident \<Rightarrow> nannotation \<Rightarrow> compiler \<Rightarrow> compiler" where
  "compile_field_part gpc fld annot pat local_value_id match_cont fail_cont bs n = do {
     let local_field_id = gen_ident n;
     (match_cont1, n1) \<leftarrow> pat local_field_id match_cont fail_cont bs (Suc n);
     let extracted_value = mk_op1 (RecordAccess fld) (mk_var local_value_id);
     let match_cont2 = let_one_in local_field_id extracted_value match_cont1;
     if annotation_is_empty annot then Some (match_cont2, n1)
     else do {
       (upd, n2) \<leftarrow> update_with_merge gpc local_value_id fld
         (field_of_metadata (FieldMetadata None annot False False Neutral)) n1;
       Some (let_one_in local_value_id upd match_cont2, n2) } }"

fun fold_fields :: "compiler list \<Rightarrow> compiler" where
  "fold_fields [] local_value_id match_cont fail_cont bs n = Some (match_cont, n)"
| "fold_fields (f # fs) local_value_id match_cont fail_cont bs n = do {
     (match_cont1, n1) \<leftarrow> fold_fields fs local_value_id match_cont fail_cont bs n;
     f local_value_id match_cont1 fail_cont bs n1 }"

definition compile_record :: "pending_gen \<Rightarrow> field_pattern list \<Rightarrow> compiler list \<Rightarrow> tail_pattern \<Rightarrow> compiler" where
  "compile_record gpc fps fs tail value_id match_cont fail_cont bs n = do {
     let local_value_id = gen_ident n;
     let matches_shallow = and_term (has_fields fps local_value_id) (has_right_length fps tail local_value_id);
     match_cont1 \<leftarrow> (case tail of
         TailCapture x \<Rightarrow> do {
           x' \<leftarrow> map_of bs x;
           Some (let_one_in x' (record_tail_value fps local_value_id) match_cont) }
       | _ \<Rightarrow> Some match_cont);
     (fold_block, n1) \<leftarrow> fold_fields fs local_value_id match_cont1 fail_cont bs (Suc n);
     let inner_if = if_then_else matches_shallow fold_block fail_cont;
     (defaulted, n2) \<leftarrow> with_defaults gpc fps local_value_id inner_if n1;
     Some (if_then_else (typeof_is value_id ''Record'')
       (let_one_in local_value_id (mk_var value_id) defaulted) fail_cont, n2) }"

fun fold_elems :: "compiler list \<Rightarrow> nat \<Rightarrow> compiler" where
  "fold_elems [] idx value_id match_cont fail_cont bs n = Some (match_cont, n)"
| "fold_elems (p # ps) idx value_id match_cont fail_cont bs n = do {
     (match_cont1, n1) \<leftarrow> fold_elems ps (Suc idx) value_id match_cont fail_cont bs n;
     let local_value_id = gen_ident n1;
     let extracted_value = mk_op2 (BinOp ArrayAt) (mk_var value_id) (Number (of_nat idx));
     (inner, n2) \<leftarrow> p local_value_id match_cont1 fail_cont bs (Suc n1);
     Some (let_one_in local_value_id extracted_value inner, n2) }"

definition compile_array :: "compiler list \<Rightarrow> tail_pattern \<Rightarrow> compiler" where
  "compile_array ps tail value_id match_cont fail_cont bs n = do {
     let value_len_id = gen_ident n;
     let pats_len = Number (of_nat (length ps));
     match_cont1 \<leftarrow> (case tail of
         TailCapture x \<Rightarrow> do {
           x' \<leftarrow> map_of bs x;
           Some (let_one_in x' (mk_opn ArraySlice [pats_len, mk_var value_len_id, mk_var value_id]) match_cont) }
       | _ \<Rightarrow> Some match_cont);
     (fold_block, n1) \<leftarrow> fold_elems ps 0 value_id match_cont1 fail_cont bs (Suc n);
     let comp_op = (if tail_is_open tail then GreaterOrEq else Eq);
     let outer_check = mk_app (mk_op1 BoolAnd (typeof_is value_id ''Array''))
       (mk_op2 (BinOp comp_op) (mk_var value_len_id) pats_len);
     Some (let_one_in value_len_id (mk_op1 ArrayLength (mk_var value_id))
       (if_then_else outer_check fold_block fail_cont), n1) }"

definition compile_enum :: "ident \<Rightarrow> compiler option \<Rightarrow> compiler" where
  "compile_enum tag pat value_id match_cont fail_cont bs n =
    (let tag_matches = mk_op2 (BinOp Eq) (mk_op1 EnumGetTag (mk_var value_id)) (enum_tag tag) in
     case pat of
       Some p \<Rightarrow> do {
         let if_condition = mk_app (mk_op1 BoolAnd (mk_op1 EnumIsVariant (mk_var value_id))) tag_matches;
         let next_value_id = gen_ident n;
         (inner, n1) \<leftarrow> p next_value_id match_cont fail_cont bs (Suc n);
         Some (if_then_else if_condition
           (let_one_in next_value_id (mk_op1 EnumGetArg (mk_var value_id)) inner) fail_cont, n1) }
     | None \<Rightarrow>
         let is_enum_tag = mk_op1 BoolNot (mk_op1 EnumIsVariant (mk_var value_id));
             if_condition = mk_app (mk_op1 BoolAnd (typeof_is value_id ''Enum''))
               (mk_app (mk_op1 BoolAnd is_enum_tag) tag_matches)
         in Some (if_then_else if_condition match_cont fail_cont, n))"

primrec compile_part :: "pending_gen \<Rightarrow> pattern \<Rightarrow> compiler"
and compile_data :: "pending_gen \<Rightarrow> pattern_data \<Rightarrow> compiler"
and compile_field :: "pending_gen \<Rightarrow> field_pattern \<Rightarrow> compiler" where
  "compile_part gpc (Pattern data alias) = compile_alias alias (compile_data gpc data)"
| "compile_data gpc PWildcard = (\<lambda>value_id match_cont fail_cont bs n. Some (match_cont, n))"
| "compile_data gpc (PAny x) = compile_any x"
| "compile_data gpc (PRecord fps tail) = compile_record gpc fps (map (compile_field gpc) fps) tail"
| "compile_data gpc (PArray ps tail) = compile_array (map (compile_part gpc) ps) tail"
| "compile_data gpc (PEnum tag pat) = compile_enum tag (map_option (compile_part gpc) pat)"
| "compile_data gpc (PConstant c) =
    (\<lambda>value_id match_cont fail_cont bs n. Some (compile_constant c value_id match_cont fail_cont, n))"
| "compile_data gpc (POr ps) = fold_or (map (compile_part gpc) ps)"
| "compile_field gpc (FieldPattern fld annot dflt pat) = compile_field_part gpc fld annot (compile_part gpc pat)"

section \<open>Match expressions\<close>

datatype match_branch = MatchBranch
  (branch_pattern: pattern) (branch_guard: "nickel_value option") (branch_body: nickel_value)

text \<open>The specialised match on enum tags.\<close>

definition compile_tags_only ::
    "(ident \<times> nickel_value) list \<Rightarrow> nickel_value option \<Rightarrow> nickel_value \<Rightarrow> nickel_value" where
  "compile_tags_only branches dflt value =
    (let match_op = mk_app (mk_op1 (TagsOnlyMatch (dflt \<noteq> None)) value)
       (record_posless (with_field_values branches))
     in case dflt of None \<Rightarrow> match_op | Some d \<Rightarrow> mk_app match_op d)"

definition is_tag_or_wildcard :: "match_branch \<Rightarrow> bool" where
  "is_tag_or_wildcard br \<longleftrightarrow>
    (case pat_data (branch_pattern br) of PEnum _ p \<Rightarrow> p = None | PWildcard \<Rightarrow> True | _ \<Rightarrow> False)
    \<and> branch_guard br = None"

fun find_wildcard :: "match_branch list \<Rightarrow> nat \<Rightarrow> (nat \<times> nickel_value) option" where
  "find_wildcard [] idx = None"
| "find_wildcard (br # brs) idx =
    (if pat_data (branch_pattern br) = PWildcard \<and> branch_guard br = None then Some (idx, branch_body br)
     else find_wildcard brs (Suc idx))"

definition tag_branch :: "match_branch \<Rightarrow> (ident \<times> nickel_value) option" where
  "tag_branch br =
    (case pat_data (branch_pattern br) of PEnum tag _ \<Rightarrow> Some (tag, branch_body br) | _ \<Rightarrow> None)"

text \<open>Fresh identifiers for the variables of a pattern, collected into a map.\<close>

definition fresh_bindings :: "ident list \<Rightarrow> nat \<Rightarrow> pat_bindings \<times> nat" where
  "fresh_bindings ids n = (im_from_iter (zip ids (map gen_ident [n..<n + length ids])), n + length ids)"

fun compile_branches ::
    "pending_gen \<Rightarrow> match_branch list \<Rightarrow> ident \<Rightarrow> nickel_value \<Rightarrow> nat \<Rightarrow> (nickel_value \<times> nat) panics" where
  "compile_branches gpc [] value_id error_case n = Some (error_case, n)"
| "compile_branches gpc (br # brs) value_id error_case n = do {
     (fail_cont, n1) \<leftarrow> compile_branches gpc brs value_id error_case n;
     let (bs, n2) = fresh_bindings (pattern_bindings (branch_pattern br)) n1;
     let match_cont = (case branch_guard br of
         Some guard \<Rightarrow> if_then_else guard (branch_body br) fail_cont
       | None \<Rightarrow> branch_body br);
     let match_cont1 = let_in False (map (\<lambda>(x, x'). (x, mk_var x')) bs) match_cont;
     compile_part gpc (branch_pattern br) value_id match_cont1 fail_cont bs n2 }"

definition compile_match ::
    "pending_gen \<Rightarrow> match_branch list \<Rightarrow> nickel_value \<Rightarrow> nat \<Rightarrow> (nickel_value \<times> nat) panics" where
  "compile_match gpc branches value n =
    (if list_all is_tag_or_wildcard branches
     then
       let wildcard_pat = find_wildcard branches 0;
           (branches', dflt) = (case wildcard_pat of
               Some (idx, body) \<Rightarrow> (take (idx + 1) branches, Some body)
             | None \<Rightarrow> (branches, None));
           tags_only = List.map_filter tag_branch branches'
       in Some (compile_tags_only tags_only dflt value, n)
     else do {
       let error_case = TermV (RuntimeError (NonExhaustiveMatchError value));
       let value_id = gen_ident n;
       (fold_block, n1) \<leftarrow> compile_branches gpc branches value_id error_case (Suc n);
       Some (let_one_in value_id value fold_block, n1) })"

section \<open>Destructuring\<close>

text \<open>The loop of \<open>compile_let_pattern\<close>: the outer, the middle and the inner bindings.\<close>

fun let_pattern_loop ::
    "pending_gen \<Rightarrow> (pattern \<times> nickel_value) list \<Rightarrow> nat \<Rightarrow>
     (((ident \<times> nickel_value) list \<times> (ident \<times> nickel_value) list \<times> (ident \<times> nickel_value) list) \<times> nat) panics" where
  "let_pattern_loop gpc [] n = Some (([], [], []), n)"
| "let_pattern_loop gpc ((pat, rhs) # rest) n = do {
     let error_case = TermV (RuntimeError (FailedDestructuringError rhs));
     let outer_id = gen_ident n;
     let mid_id = gen_ident (Suc n);
     let ids = pattern_bindings pat;
     let inner = map (\<lambda>x. (x, static_access (mk_var mid_id) [x])) ids;
     let (bs, n1) = fresh_bindings ids (Suc (Suc n));
     let bindings_record = record_posless
       (RecordData (im_from_iter (map (\<lambda>(x, x'). (x, field_of_value (mk_var x'))) bs)) attrs_new None);
     (mid, n2) \<leftarrow> compile_part gpc pat outer_id bindings_record error_case bs n1;
     ((outers, mids, inners), n3) \<leftarrow> let_pattern_loop gpc rest n2;
     Some (((outer_id, rhs) # outers, (mid_id, mid) # mids, inner @ inners), n3) }"

definition compile_let_pattern ::
    "pending_gen \<Rightarrow> (pattern \<times> nickel_value) list \<Rightarrow> nickel_value \<Rightarrow> bool \<Rightarrow> nat \<Rightarrow> (nickel_term \<times> nat) panics" where
  "compile_let_pattern gpc bindings body is_rec n = do {
     ((outers, mids, inners), n') \<leftarrow> let_pattern_loop gpc bindings n;
     let checked_body = foldr (\<lambda>(x, _) acc. mk_app (mk_op1 Seq (mk_var x)) acc) mids body;
     Some (if is_rec then Let (outers @ mids @ inners) checked_body Normal True
       else Let outers (let_in False mids (let_in False inners checked_body)) Normal False, n') }"

definition compile_fun_pattern ::
    "pending_gen \<Rightarrow> pattern \<Rightarrow> nickel_value \<Rightarrow> nat \<Rightarrow> (nickel_term \<times> nat) panics" where
  "compile_fun_pattern gpc pat body n = do {
     let (x, n1) = (case pat_alias pat of Some x \<Rightarrow> (x, n) | None \<Rightarrow> (gen_ident n, Suc n));
     (wrapped_body, n2) \<leftarrow> compile_let_pattern gpc [(pat, mk_var x)] body False n1;
     Some (Fun x (TermV wrapped_body), n2) }"

end
