(* ===== verification/Type_Contract.thy ===== *)
theory Type_Contract
  imports Pattern_Compile
begin

text \<open>
  Types as contracts, \<open>core/src/typ.rs\<close>: the contract generated from a type (\<open>Subcontract\<close>), its
  simplification when the type is a static annotation (\<open>simplify\<close>), the lookup of rows; the contracts
  generated from annotations, \<open>core/src/term/mod.rs\<close>; and the generation of the pending contracts of
  fields, \<open>core/src/transform/gen_pending_contracts.rs\<close>, which closes the loop left open in
  \<open>Pattern_Compile\<close>.

  \<^item> The counter \<open>sy\<close> of sealing keys is an \<open>i32\<close>: incrementing the largest one is a panic.
  \<^item> An unbound type variable is the \<open>Inl\<close> of a result; a \<open>Symbol\<close> type is a panic.
  \<^item> The environment of contracts of type variables is a map, and a \<open>HashSet\<close> of excluded fields is
    a list, whose order the source does not specify.
\<close>

section \<open>Results\<close>

type_synonym 'a gen_result = "((ident + 'a) \<times> nat) panics"
type_synonym 'a ctr_result = "((ident + 'a) \<times> int \<times> nat) panics"
type_synonym ctr_env = "ident \<rightharpoonup> nickel_value"

definition ctr_ok :: "'a \<Rightarrow> int \<Rightarrow> nat \<Rightarrow> 'a ctr_result" where
  "ctr_ok v sy n = Some (Inr v, sy, n)"

definition ctr_bind :: "'a ctr_result \<Rightarrow> ('a \<Rightarrow> int \<Rightarrow> nat \<Rightarrow> 'b ctr_result) \<Rightarrow> 'b ctr_result" where
  "ctr_bind r k =
    (case r of
       None \<Rightarrow> None
     | Some (Inl x, sy, n) \<Rightarrow> Some (Inl x, sy, n)
     | Some (Inr v, sy, n) \<Rightarrow> k v sy n)"

definition gen_bind :: "'a gen_result \<Rightarrow> ('a \<Rightarrow> nat \<Rightarrow> 'b gen_result) \<Rightarrow> 'b gen_result" where
  "gen_bind r k =
    (case r of
       None \<Rightarrow> None
     | Some (Inl x, n) \<Rightarrow> Some (Inl x, n)
     | Some (Inr v, n) \<Rightarrow> k v n)"

section \<open>Contracts of types\<close>

definition i32_max :: int where
  "i32_max = 2 ^ 31 - 1"

definition get_var_contract :: "ctr_env \<Rightarrow> ident \<Rightarrow> int \<Rightarrow> nat \<Rightarrow> nickel_value ctr_result" where
  "get_var_contract vars x sy n =
    (case vars x of None \<Rightarrow> Some (Inl x, sy, n) | Some c \<Rightarrow> ctr_ok c sy n)"

fun is_dyn :: "'v ntype \<Rightarrow> bool" where
  "is_dyn TDyn = True"
| "is_dyn _ = False"

definition excluded_array :: "ident list \<Rightarrow> nickel_value" where
  "excluded_array excluded = array_value (map String excluded) []"

text \<open>The contract bound to the variable of a \<open>forall\<close>.\<close>

definition var_contract :: "var_kind \<Rightarrow> int \<Rightarrow> nickel_value" where
  "var_contract kind sy =
    (case kind of
       TypeVar \<Rightarrow> mk_app (internal ''forall_var'') (SealingKey sy)
     | EnumRowsVar _ \<Rightarrow> internal ''forall_enum_tail''
     | RecordRowsVar excluded \<Rightarrow>
         mk_apps (internal ''forall_record_tail'') [SealingKey sy, excluded_array excluded])"

definition apply_contract_to :: "nickel_value \<Rightarrow> ident \<Rightarrow> ident \<Rightarrow> nickel_value" where
  "apply_contract_to ctr label_arg arg =
    mk_app (mk_op2 (BinOp ContractApply) ctr (mk_var label_arg)) (mk_var arg)"

text \<open>
  The branch of an enum row, and the end of the contract of enum rows. No pattern built here has a
  record pattern inside, so that the generator of pending contracts is never called.
\<close>

definition enum_row_branch :: "ident \<Rightarrow> nickel_value option \<Rightarrow> ident \<Rightarrow> ident \<Rightarrow> ident \<Rightarrow> match_branch" where
  "enum_row_branch tag ctr value_arg label_arg variant_arg =
    (let arg_pattern = map_option (\<lambda>_. Pattern (PAny variant_arg) None) ctr;
         body = (case ctr of
             Some c \<Rightarrow> closurize_literal (enum_variant tag (apply_contract_to c label_arg variant_arg))
           | None \<Rightarrow> mk_var value_arg)
     in MatchBranch (Pattern (PEnum tag arg_pattern) None) None (closurize_literal (enum_variant ''Ok'' body)))"

definition no_pending :: pending_gen where
  "no_pending v n = None"

definition finish_enum ::
    "match_branch list \<Rightarrow> nickel_value \<Rightarrow> ident \<Rightarrow> ident \<Rightarrow> int \<Rightarrow> nat \<Rightarrow> nickel_value ctr_result" where
  "finish_enum branches dflt value_arg label_arg sy n = do {
     (match_expr, n') \<leftarrow> compile_match no_pending
       (branches @ [MatchBranch (Pattern PWildcard None) None dflt]) (mk_var value_arg) n;
     ctr_ok (mk_app (internal ''enum'') (mk_fun label_arg (mk_fun value_arg match_expr))) sy n' }"

definition enum_default :: "ctr_env \<Rightarrow> ident option \<Rightarrow> ident \<Rightarrow> ident \<Rightarrow> int \<Rightarrow> nat \<Rightarrow> nickel_value ctr_result" where
  "enum_default vars tail_var value_arg label_arg sy n =
    (case tail_var of
       Some var \<Rightarrow> ctr_bind (get_var_contract vars var sy n) (\<lambda>c. ctr_ok (apply_contract_to c label_arg value_arg))
     | None \<Rightarrow> ctr_ok (mk_app (internal ''enum_fail'') (mk_var label_arg)) sy n)"

definition record_contract :: "(ident \<times> nickel_value) list \<Rightarrow> nickel_value \<Rightarrow> bool \<Rightarrow> nickel_value" where
  "record_contract fcs tail has_tail =
    mk_apps (internal ''record_type'') [record_posless (with_field_values (im_from_iter fcs)), tail, Bool has_tail]"

text \<open>
  \<open>Subcontract::subcontract\<close>. The loop over enum rows returns the branches and the tail variable, the
  loop over record rows the contracts of the fields, the contract of the tail and whether there is one.
\<close>

primrec subcontract :: "nickel_type \<Rightarrow> ctr_env \<Rightarrow> polarity \<Rightarrow> int \<Rightarrow> nat \<Rightarrow> nickel_value ctr_result"
and erows_branches ::
    "nickel_value enum_rows \<Rightarrow> ctr_env \<Rightarrow> polarity \<Rightarrow> ident \<Rightarrow> ident \<Rightarrow> ident \<Rightarrow> int \<Rightarrow> nat \<Rightarrow>
     (match_branch list \<times> ident option) ctr_result"
and rrows_contracts ::
    "nickel_value record_rows \<Rightarrow> ctr_env \<Rightarrow> polarity \<Rightarrow> int \<Rightarrow> nat \<Rightarrow>
     ((ident \<times> nickel_value) list \<times> nickel_value \<times> bool) ctr_result" where
  "subcontract TDyn vars pol sy n = ctr_ok (custom_contract (internal ''dyn'')) sy n"
| "subcontract TNumber vars pol sy n = ctr_ok (custom_contract (internal ''num'')) sy n"
| "subcontract TBool vars pol sy n = ctr_ok (custom_contract (internal ''bool'')) sy n"
| "subcontract TString vars pol sy n = ctr_ok (custom_contract (internal ''string'')) sy n"
| "subcontract TForeignId vars pol sy n = ctr_ok (custom_contract (internal ''foreign_id'')) sy n"
| "subcontract TSymbol vars pol sy n = None"
| "subcontract (TContract t) vars pol sy n = ctr_ok t sy n"
| "subcontract (TArray ty) vars pol sy n =
    (if is_dyn ty then ctr_ok (custom_contract (internal ''array_dyn'')) sy n
     else ctr_bind (subcontract ty vars pol sy n) (\<lambda>c.
       ctr_ok (custom_contract (mk_app (internal ''array'') c))))"
| "subcontract (TArrow s t) vars pol sy n =
    (if is_dyn s \<and> is_dyn t then ctr_ok (custom_contract (internal ''func_dyn'')) sy n
     else if is_dyn s then ctr_bind (subcontract t vars pol sy n) (\<lambda>c.
       ctr_ok (custom_contract (mk_app (internal ''func_codom'') c)))
     else if is_dyn t then ctr_bind (subcontract s vars (polarity_flip pol) sy n) (\<lambda>c.
       ctr_ok (custom_contract (mk_app (internal ''func_dom'') c)))
     else ctr_bind (subcontract s vars (polarity_flip pol) sy n) (\<lambda>d sy1 n1.
       ctr_bind (subcontract t vars pol sy1 n1) (\<lambda>c.
         ctr_ok (custom_contract (mk_apps (internal ''func'') [d, c])))))"
| "subcontract (TVar x) vars pol sy n =
    ctr_bind (get_var_contract vars x sy n) (\<lambda>c. ctr_ok (custom_contract c))"
| "subcontract (TForall var kind body) vars pol sy n =
    (if i32_max \<le> sy then None
     else ctr_bind (subcontract body (vars(var \<mapsto> var_contract kind sy)) pol (sy + 1) n) (\<lambda>c.
       ctr_ok (custom_contract (mk_apps (internal ''forall'') [SealingKey sy, polarity_value pol, c]))))"
| "subcontract (TEnum erows) vars pol sy n =
    (let value_arg = gen_ident n; label_arg = gen_ident (n + 1); variant_arg = gen_ident (n + 2) in
     ctr_bind (erows_branches erows vars pol value_arg label_arg variant_arg sy (n + 3)) (\<lambda>(branches, tail_var) sy1 n1.
     ctr_bind (enum_default vars tail_var value_arg label_arg sy1 n1) (\<lambda>dflt sy2 n2.
     ctr_bind (finish_enum branches dflt value_arg label_arg sy2 n2) (\<lambda>c. ctr_ok (custom_contract c)))))"
| "subcontract (TRecord rrows) vars pol sy n =
    ctr_bind (rrows_contracts rrows vars pol sy n) (\<lambda>(fcs, tail, has_tail).
      ctr_ok (custom_contract (record_contract fcs tail has_tail)))"
| "subcontract (TDict type_fields flavour) vars pol sy n =
    (if is_dyn type_fields then ctr_ok (custom_contract (internal ''dict_dyn'')) sy n
     else ctr_bind (subcontract type_fields vars pol sy n) (\<lambda>c.
       ctr_ok (custom_contract (mk_app (internal
         (case flavour of DictContract \<Rightarrow> ''dict_contract'' | DictType \<Rightarrow> ''dict_type'')) c))))"
| "subcontract (TWildcard _) vars pol sy n = ctr_ok (custom_contract (internal ''dyn'')) sy n"
| "erows_branches ERowsEmpty vars pol value_arg label_arg variant_arg sy n = ctr_ok ([], None) sy n"
| "erows_branches (ERowsTailVar x) vars pol value_arg label_arg variant_arg sy n = ctr_ok ([], Some x) sy n"
| "erows_branches (ERowsExtend tag ty tail) vars pol value_arg label_arg variant_arg sy n =
    ctr_bind
      (case map_option subcontract ty of
         Some f \<Rightarrow> ctr_bind (f vars pol sy n) (\<lambda>c. ctr_ok (Some c))
       | None \<Rightarrow> ctr_ok None sy n) (\<lambda>ctr sy1 n1.
    ctr_bind (erows_branches tail vars pol value_arg label_arg variant_arg sy1 n1) (\<lambda>(branches, tail_var).
      ctr_ok (enum_row_branch tag ctr value_arg label_arg variant_arg # branches, tail_var)))"
| "rrows_contracts RRowsEmpty vars pol sy n = ctr_ok ([], internal ''empty_tail'', False) sy n"
| "rrows_contracts RRowsTailDyn vars pol sy n = ctr_ok ([], internal ''dyn_tail'', True) sy n"
| "rrows_contracts (RRowsTailVar x) vars pol sy n =
    ctr_bind (get_var_contract vars x sy n) (\<lambda>c. ctr_ok ([], c, True))"
| "rrows_contracts (RRowsExtend x ty tail) vars pol sy n =
    ctr_bind (subcontract ty vars pol sy n) (\<lambda>c sy1 n1.
    ctr_bind (rrows_contracts tail vars pol sy1 n1) (\<lambda>(fcs, t, has_tail).
      ctr_ok ((x, c) # fcs, t, has_tail)))"

section \<open>Rows\<close>

fun find_erow :: "'v enum_rows \<Rightarrow> ident \<Rightarrow> 'v ntype option option" where
  "find_erow ERowsEmpty x = None"
| "find_erow (ERowsTailVar _) x = None"
| "find_erow (ERowsExtend tag ty tail) x = (if tag = x then Some ty else find_erow tail x)"

fun rrow_next :: "'v record_rows \<Rightarrow> ident \<Rightarrow> 'v ntype option" where
  "rrow_next (RRowsExtend y ty tail) x = (if y = x then Some ty else rrow_next tail x)"
| "rrow_next _ x = None"

fun find_path_ref :: "'v record_rows \<Rightarrow> ident list \<Rightarrow> (ident \<times> 'v ntype) option" where
  "find_path_ref rrows [] = None"
| "find_path_ref rrows [x] = map_option (Pair x) (rrow_next rrows x)"
| "find_path_ref rrows (x # y # path) =
    (case rrow_next rrows x of Some (TRecord rrows') \<Rightarrow> find_path_ref rrows' (y # path) | _ \<Rightarrow> None)"

definition find_path :: "'v record_rows \<Rightarrow> ident list \<Rightarrow> (ident \<times> 'v ntype) option" where
  "find_path rrows path = (if path = [] then None else find_path_ref rrows path)"

definition find_row :: "'v record_rows \<Rightarrow> ident \<Rightarrow> (ident \<times> 'v ntype) option" where
  "find_row rrows x = find_path rrows [x]"

section \<open>Simplification of static types\<close>

record simplify_vars =
  type_vars_elide :: "ident set"
  rrows_vars_elide :: "ident \<rightharpoonup> ident list"

definition simplify_vars_new :: simplify_vars where
  "simplify_vars_new = \<lparr>type_vars_elide = {}, rrows_vars_elide = Map.empty\<rparr>"

fun peek_tail :: "'v record_rows \<Rightarrow> simplify_vars \<Rightarrow> ident set \<times> bool" where
  "peek_tail (RRowsExtend x _ tail) sv = (let (flds, can_elide) = peek_tail tail sv in (insert x flds, can_elide))"
| "peek_tail (RRowsTailVar x) sv = ({}, rrows_vars_elide sv x \<noteq> None)"
| "peek_tail _ sv = ({}, True)"

text \<open>The tail variable of a record row type, in the environment of generated contracts.\<close>

definition simplify_tail_var ::
    "ident \<Rightarrow> ctr_env \<Rightarrow> simplify_vars \<Rightarrow> polarity \<Rightarrow> ident set \<Rightarrow> nat \<Rightarrow> nickel_value record_rows \<times> ctr_env \<times> nat" where
  "simplify_tail_var x cenv sv pol flds n =
    (case (rrows_vars_elide sv x, pol) of
       (Some _, Positive) \<Rightarrow> (RRowsTailDyn, cenv, n)
     | (None, _) \<Rightarrow> (RRowsTailVar x, cenv, n)
     | (Some excluded, Negative) \<Rightarrow>
         let excluded' = filter (\<lambda>y. y \<notin> flds) excluded in
         if excluded' = [] then (RRowsTailDyn, cenv, n)
         else
           let fresh_var = gen_ident n in
           (RRowsTailVar fresh_var,
            cenv(fresh_var \<mapsto> mk_app (internal ''forall_record_tail_excluded_only'') (excluded_array excluded')),
            Suc n))"

primrec simplify :: "nickel_type \<Rightarrow> ctr_env \<Rightarrow> simplify_vars \<Rightarrow> polarity \<Rightarrow> nat \<Rightarrow> nickel_type \<times> ctr_env \<times> nat"
and simplify_erows ::
    "nickel_value enum_rows \<Rightarrow> ctr_env \<Rightarrow> simplify_vars \<Rightarrow> polarity \<Rightarrow> nat \<Rightarrow>
     (nickel_value enum_rows \<times> bool) \<times> ctr_env \<times> nat"
and simplify_rrows ::
    "nickel_value record_rows \<Rightarrow> ctr_env \<Rightarrow> simplify_vars \<Rightarrow> polarity \<Rightarrow> ident set \<Rightarrow> bool \<Rightarrow> nat \<Rightarrow>
     nickel_value record_rows \<times> ctr_env \<times> nat" where
  "simplify (TArrow domain codomain) cenv sv pol n =
    (let (domain', cenv1, n1) = simplify domain cenv sv (polarity_flip pol) n;
         (codomain', cenv2, n2) = simplify codomain cenv1 sv pol n1
     in (TArrow domain' codomain', cenv2, n2))"
| "simplify (TForall var kind body) cenv sv pol n =
    (case (kind, pol) of
       (TypeVar, Positive) \<Rightarrow>
         simplify body cenv (sv\<lparr>type_vars_elide := insert var (type_vars_elide sv)\<rparr>) pol n
     | (RecordRowsVar excluded, Positive) \<Rightarrow>
         simplify body cenv (sv\<lparr>rrows_vars_elide := (rrows_vars_elide sv)(var \<mapsto> excluded)\<rparr>) pol n
     | _ \<Rightarrow> (let (body', cenv1, n1) = simplify body cenv sv pol n in (TForall var kind body', cenv1, n1)))"
| "simplify (TVar x) cenv sv pol n = (if x \<in> type_vars_elide sv then TDyn else TVar x, cenv, n)"
| "simplify TNumber cenv sv pol n = (if pol = Positive then TDyn else TNumber, cenv, n)"
| "simplify TString cenv sv pol n = (if pol = Positive then TDyn else TString, cenv, n)"
| "simplify TBool cenv sv pol n = (if pol = Positive then TDyn else TBool, cenv, n)"
| "simplify TSymbol cenv sv pol n = (if pol = Positive then TDyn else TSymbol, cenv, n)"
| "simplify TForeignId cenv sv pol n = (if pol = Positive then TDyn else TForeignId, cenv, n)"
| "simplify (TRecord rrows) cenv sv pol n =
    (let (flds, can_elide) = peek_tail rrows sv;
         (rrows', cenv1, n1) = simplify_rrows rrows cenv sv pol flds can_elide n
     in (if (rrows' = RRowsTailDyn \<or> rrows' = RRowsEmpty) \<and> pol = Positive then TDyn else TRecord rrows', cenv1, n1))"
| "simplify (TEnum erows) cenv sv pol n =
    (let ((erows', elide), cenv1, n1) = simplify_erows erows cenv sv pol n
     in (if elide \<and> pol = Positive then TDyn else TEnum erows', cenv1, n1))"
| "simplify (TDict type_fields flavour) cenv sv pol n =
    (let (type_fields', cenv1, n1) = simplify type_fields cenv sv pol n
     in (if is_dyn type_fields' \<and> pol = Positive then TDyn else TDict type_fields' flavour, cenv1, n1))"
| "simplify (TArray ty) cenv sv pol n =
    (let (ty', cenv1, n1) = simplify ty cenv sv pol n
     in (if is_dyn ty' \<and> pol = Positive then TDyn else TArray ty', cenv1, n1))"
| "simplify TDyn cenv sv pol n = (TDyn, cenv, n)"
| "simplify (TContract t) cenv sv pol n = (TContract t, cenv, n)"
| "simplify (TWildcard i) cenv sv pol n = (TWildcard i, cenv, n)"
| "simplify_erows ERowsEmpty cenv sv pol n = ((ERowsEmpty, True), cenv, n)"
| "simplify_erows (ERowsTailVar x) cenv sv pol n = ((ERowsTailVar x, False), cenv, n)"
| "simplify_erows (ERowsExtend tag ty tail) cenv sv pol n =
    (let ((tail', elide), cenv1, n1) = simplify_erows tail cenv sv pol n
     in case map_option simplify ty of
          None \<Rightarrow> ((ERowsExtend tag None tail', elide), cenv1, n1)
        | Some f \<Rightarrow>
            (let (ty', cenv2, n2) = f cenv1 sv pol n1
             in ((ERowsExtend tag (Some ty') tail', elide \<and> is_dyn ty'), cenv2, n2)))"
| "simplify_rrows RRowsEmpty cenv sv pol flds can_elide n =
    (if pol = Positive then RRowsTailDyn else RRowsEmpty, cenv, n)"
| "simplify_rrows (RRowsExtend x ty tail) cenv sv pol flds can_elide n =
    (let (ty', cenv1, n1) = simplify ty cenv sv pol n;
         elide_field = (is_dyn ty' \<and> pol = Positive \<and> can_elide);
         (tail', cenv2, n2) = simplify_rrows tail cenv1 sv pol flds can_elide n1
     in (if elide_field then tail' else RRowsExtend x ty' tail', cenv2, n2))"
| "simplify_rrows RRowsTailDyn cenv sv pol flds can_elide n = (RRowsTailDyn, cenv, n)"
| "simplify_rrows (RRowsTailVar x) cenv sv pol flds can_elide n = simplify_tail_var x cenv sv pol flds n"

section \<open>Contracts of annotations\<close>

definition gen_of_ctr :: "'a ctr_result \<Rightarrow> 'a gen_result" where
  "gen_of_ctr r = map_option (\<lambda>(v, _, n). (v, n)) r"

definition contract_static :: "nickel_type \<Rightarrow> nat \<Rightarrow> nickel_value gen_result" where
  "contract_static ty n =
    (let (ty', cenv, n') = simplify ty Map.empty simplify_vars_new Positive n
     in gen_of_ctr (subcontract ty' cenv Positive 0 n'))"

definition type_contract :: "nickel_type \<Rightarrow> nat \<Rightarrow> nickel_value gen_result" where
  "type_contract ty n = gen_of_ctr (subcontract ty Map.empty Positive 0 n)"

fun is_function_type :: "'v ntype \<Rightarrow> bool" where
  "is_function_type (TForall _ _ body) = is_function_type body"
| "is_function_type (TArrow _ _) = True"
| "is_function_type _ = False"

definition from_static_type :: "nickel_value labeled_type \<Rightarrow> nat \<Rightarrow> contract gen_result" where
  "from_static_type lt n = gen_bind (contract_static (lt_typ lt) n) (\<lambda>c n. Some (Inr (RuntimeContract c (lt_label lt)), n))"

definition from_type :: "nickel_value labeled_type \<Rightarrow> nat \<Rightarrow> contract gen_result" where
  "from_type lt n = gen_bind (type_contract (lt_typ lt) n) (\<lambda>c n. Some (Inr (RuntimeContract c (lt_label lt)), n))"

fun gen_list :: "('a \<Rightarrow> nat \<Rightarrow> 'b gen_result) \<Rightarrow> 'a list \<Rightarrow> nat \<Rightarrow> 'b list gen_result" where
  "gen_list f [] n = Some (Inr [], n)"
| "gen_list f (x # xs) n = gen_bind (f x n) (\<lambda>y n1. gen_bind (gen_list f xs n1) (\<lambda>ys n2. Some (Inr (y # ys), n2)))"

definition annot_pending_contracts :: "nannotation \<Rightarrow> nat \<Rightarrow> contract list gen_result" where
  "annot_pending_contracts annot n = gen_list from_type (annot_contracts annot) n"

definition annot_all_contracts :: "nannotation \<Rightarrow> nat \<Rightarrow> contract list gen_result" where
  "annot_all_contracts annot n =
    (case annot_typ annot of
       None \<Rightarrow> gen_list from_type (annot_contracts annot) n
     | Some lt \<Rightarrow> gen_bind (from_static_type lt n) (\<lambda>c n1.
         gen_bind (gen_list from_type (annot_contracts annot) n1) (\<lambda>cs n2. Some (Inr (c # cs), n2))))"

text \<open>
  The value of an annotated term: the static contract is generated first, but its error is raised
  after those of the contract annotations.
\<close>

definition annotated_inner :: "nannotation \<Rightarrow> nickel_value \<Rightarrow> nat \<Rightarrow> nickel_value gen_result" where
  "annotated_inner annot inner n = do {
     (static_contract, n1) \<leftarrow> (case annot_typ annot of
         None \<Rightarrow> Some (None, n)
       | Some lt \<Rightarrow> map_option (\<lambda>(r, n'). (Some r, n')) (from_static_type lt n));
     gen_bind (annot_pending_contracts annot n1) (\<lambda>contracts n2.
       case static_contract of
         None \<Rightarrow> Some (Inr (contract_apply_all inner contracts), n2)
       | Some (Inl x) \<Rightarrow> Some (Inl x, n2)
       | Some (Inr c) \<Rightarrow> Some (Inr (contract_apply_all (contract_apply c inner) contracts), n2)) }"

section \<open>Pending contracts of fields\<close>

definition with_pending_contracts :: "nfield \<Rightarrow> nat \<Rightarrow> nfield gen_result" where
  "with_pending_contracts fld n =
    gen_bind (case field_metadata fld of
        None \<Rightarrow> Some (Inr [], n)
      | Some m \<Rightarrow> annot_pending_contracts (fm_annotation m) n) (\<lambda>pending n1.
    gen_bind (case field_value fld of
        None \<Rightarrow> Some (Inr None, n1)
      | Some v \<Rightarrow>
          (case Option.bind (field_metadata fld) (\<lambda>m. annot_typ (fm_annotation m)) of
             Some lt \<Rightarrow> gen_bind (from_static_type lt n1) (\<lambda>c n. Some (Inr (Some (contract_apply c v)), n))
           | None \<Rightarrow> Some (Inr (Some v), n1))) (\<lambda>v n2.
    Some (Inr (Field v (field_metadata fld) pending), n2)))"

definition attach_to_fields :: "(ident, nfield) index_map \<Rightarrow> nat \<Rightarrow> (ident, nfield) index_map gen_result" where
  "attach_to_fields flds n =
    gen_bind (gen_list (\<lambda>(x, fld) n. gen_bind (with_pending_contracts fld n) (\<lambda>fld' n'. Some (Inr (x, fld'), n'))) flds n)
      (\<lambda>flds' n'. Some (Inr (im_from_iter flds'), n'))"

definition transform_one :: "nickel_value \<Rightarrow> nat \<Rightarrow> nickel_value gen_result" where
  "transform_one v n =
    (case v of
       RecordV (Alloc r) \<Rightarrow>
         gen_bind (attach_to_fields (record_fields r) n) (\<lambda>flds n'.
           Some (Inr (record_value (RecordData flds (record_attributes r) (record_sealed_tail r))), n'))
     | TermV (RecRecord r incl dyns deps closurized) \<Rightarrow>
         gen_bind (attach_to_fields (record_fields r) n) (\<lambda>flds n1.
         gen_bind (gen_list (\<lambda>(x, fld) n. gen_bind (with_pending_contracts fld n) (\<lambda>fld' n'. Some (Inr (x, fld'), n'))) dyns n1) (\<lambda>dyns' n2.
           Some (Inr (TermV (RecRecord (RecordData flds (record_attributes r) (record_sealed_tail r)) incl dyns' deps closurized)), n2)))
     | _ \<Rightarrow> Some (Inr v, n))"

text \<open>
  The generator of pending contracts that patterns use: an unbound type variable is a panic
  (\<open>unwrap\<close>).
\<close>

definition gen_pending :: pending_gen where
  "gen_pending v n = (case transform_one v n of Some (Inr v', n') \<Rightarrow> Some (v', n') | _ \<Rightarrow> None)"

definition match_term :: "match_branch list \<Rightarrow> nickel_value \<Rightarrow> nat \<Rightarrow> (nickel_value \<times> nat) panics" where
  "match_term = compile_match gen_pending"

definition let_pattern_term ::
    "(pattern \<times> nickel_value) list \<Rightarrow> nickel_value \<Rightarrow> bool \<Rightarrow> nat \<Rightarrow> (nickel_term \<times> nat) panics" where
  "let_pattern_term = compile_let_pattern gen_pending"

definition fun_pattern_term :: "pattern \<Rightarrow> nickel_value \<Rightarrow> nat \<Rightarrow> (nickel_term \<times> nat) panics" where
  "fun_pattern_term = compile_fun_pattern gen_pending"

end
