(* ===== verification/Eval_Machine.thy ===== *)
theory Eval_Machine
  imports Eval_Stack Fixpoint Type_Contract
begin

text \<open>
  The abstract machine, \<open>core/src/eval/mod.rs\<close>: the main loop with \<open>enter_cache_index\<close>,
  \<open>get_var\<close>, \<open>update_at_indices\<close> and \<open>reset\<close>, on the byte stack and the heap of the previous
  components.

  One iteration of the loop is \<open>eval_step\<close>. It answers with the closure of the next iteration,
  with the final result of the loop, or with \<open>CallOp\<close> where the source calls \<open>continue_op\<close> (the theory
  \<open>Primop_Nary\<close>). Annotated terms and the include expressions of records use the contracts generated
  from static types in \<open>Type_Contract\<close>. The call stack and the positions, which only error reports
  read, are erased.
\<close>

section \<open>Errors\<close>

text \<open>
  The errors of evaluation, \<open>EvalErrorKind\<close>, without positions. A type error carries the expected
  type and the value; messages of \<open>Other\<close> carry their fixed text.
\<close>

datatype export_format = Text | Json | Yaml | YamlDocuments | Toml

text \<open>An export error with the path to the value it is about, \<open>core/src/error/mod.rs\<close>.\<close>

datatype pointer_elem = PointerField ident | PointerIndex nat

datatype export_error_kind =
    UnsupportedNull export_format nickel_value
  | NonSerializable nickel_value
  | NumberOutOfRange nickel_value rat
  | NotAString nickel_value
  | ExportOther string

record export_error =
  export_path :: "pointer_elem list"
  export_kind :: export_error_kind

datatype tail_action = TailFieldAccess ident | TailFieldRemove ident | TailMap | TailMerge | TailFreeze

datatype eval_error =
    InfiniteRecursion
  | UnboundIdentifier ident
  | NotAFunc nickel_value nickel_value
  | NotEnoughArgs nat
  | TypeError string nickel_value
  | UnaryPrimopTypeError string nickel_value
  | NAryPrimopTypeError string nat nickel_value
  | BlameError label "nickel_value option"
  | NonExhaustiveEnumMatch "ident list" nickel_value
  | IllegalTailAccess tail_action label "nickel_value option"
  | FieldMissing ident "ident list"
  | MissingFieldDef ident nmetadata
  | IncomparableValues nickel_value nickel_value
  | MergeFailed merge_error
  | SerializationError export_error
  | DeserializationError string
  | OtherError string
  | InternalError string
  | ParseErrorKind nat
  | DelayedError nat
  | NonExhaustiveMatch nickel_value
  | FailedDestructuring nickel_value

fun error_of_runtime :: "nickel_value runtime_error \<Rightarrow> eval_error" where
  "error_of_runtime (MissingFieldDefError x m) = MissingFieldDef x m"
| "error_of_runtime (NonExhaustiveMatchError v) = NonExhaustiveMatch v"
| "error_of_runtime (FailedDestructuringError v) = FailedDestructuring v"
| "error_of_runtime (OtherRuntimeError n) = DelayedError n"

text \<open>
  The resolver of imports is the function \<open>vm_imports\<close>; \<open>vm_fresh\<close> is the counter of generated
  identifiers, which is global in the source.
\<close>

record vm =
  vm_stack :: bytes
  vm_heap :: heap
  vm_initial_env :: env
  vm_imports :: "nat \<Rightarrow> nickel_value option"
  vm_fresh :: nat

datatype step_result = Continue closure | Finished "eval_error + closure" | CallOp closure

section \<open>Operations\<close>

definition get_var :: "env \<Rightarrow> env \<Rightarrow> ident \<Rightarrow> eval_error + addr" where
  "get_var initial_env e x =
    (case option_or (e x) (initial_env x) of None \<Rightarrow> Inl (UnboundIdentifier x) | Some a \<Rightarrow> Inr a)"

definition enter_cache_index :: "sizes \<Rightarrow> vm \<Rightarrow> addr \<Rightarrow> (step_result \<times> vm) panics" where
  "enter_cache_index sz vm a = do {
     (r, h) \<leftarrow> get_update_index (vm_heap vm) a;
     case r of
       Inl BlackholedError \<Rightarrow> Some (Finished (Inl InfiniteRecursion), vm\<lparr>vm_heap := h\<rparr>)
     | Inr u \<Rightarrow> do {
         let st = (case u of None \<Rightarrow> vm_stack vm | Some u \<Rightarrow> push_update_index sz u (vm_stack vm));
         c \<leftarrow> cache_get h a;
         Some (Continue c, vm\<lparr>vm_heap := h, vm_stack := st\<rparr>) } }"

partial_function (option) update_at_indices ::
    "sizes \<Rightarrow> heap \<Rightarrow> bytes \<Rightarrow> closure \<Rightarrow> (heap \<times> bytes) panics" where
  [code]: "update_at_indices sz h data c = do {
     (r, data') \<leftarrow> pop_update_index sz data;
     case r of
       None \<Rightarrow> Some (h, data')
     | Some u \<Rightarrow> do { h' \<leftarrow> thunk_update h u c; update_at_indices sz h' data' c } }"

text \<open>The loop of the \<open>Let\<close> arm: bind, and remember the indices to patch.\<close>

fun let_bind :: "(ident \<times> nickel_value) list \<Rightarrow> env \<Rightarrow> binding_type \<Rightarrow> env \<Rightarrow> heap \<Rightarrow> addr list \<Rightarrow>
    env \<times> heap \<times> addr list" where
  "let_bind [] init_env bty e h idxs = (e, h, idxs)"
| "let_bind ((x, bound) # bs) init_env bty e h idxs =
    (let (a, h') = cache_add h \<lparr>clo_value = bound, clo_env = init_env\<rparr> bty
     in let_bind bs init_env bty (e(x \<mapsto> a)) h' (idxs @ [a]))"

fun patch_all :: "heap \<Rightarrow> addr list \<Rightarrow> env \<Rightarrow> heap panics" where
  "patch_all h [] e = Some h"
| "patch_all h (a # as) e = do { h' \<leftarrow> cache_patch h a (\<lambda>cl. cl\<lparr>clo_env := e\<rparr>); patch_all h' as e }"

definition no_app_info :: primop_app_info where
  "no_app_info = \<lparr>call_stack_size = 0, app_pos_idx = 0\<rparr>"

text \<open>The last arm of the loop: a weak head normal form.\<close>

definition eval_whnf :: "sizes \<Rightarrow> vm \<Rightarrow> closure \<Rightarrow> (step_result \<times> vm) panics" where
  "eval_whnf sz vm c = do {
     top_idx \<leftarrow> is_top_idx (vm_stack vm);
     top_cont \<leftarrow> is_top_cont (vm_stack vm);
     if top_idx then do {
       (h, st) \<leftarrow> update_at_indices sz (vm_heap vm) (vm_stack vm) c;
       Some (Continue c, vm\<lparr>vm_heap := h, vm_stack := st\<rparr>) }
     else if top_cont then Some (CallOp c, vm)
     else do {
       (r, st) \<leftarrow> pop_arg sz (vm_heap vm) (vm_stack vm);
       case r of
         Some (arg, _) \<Rightarrow> Some (Finished (Inl (NotAFunc (clo_value c) (clo_value arg))), vm\<lparr>vm_stack := st\<rparr>)
       | None \<Rightarrow> Some (Finished (Inr c), vm\<lparr>vm_stack := st\<rparr>) } }"

definition get_evaluated_arg :: "heap \<Rightarrow> label \<Rightarrow> nickel_value option panics" where
  "get_evaluated_arg h l =
    (case label_arg_idx l of None \<Rightarrow> Some None | Some a \<Rightarrow> map_option (\<lambda>c. Some (clo_value c)) (cache_get h a))"

text \<open>A sealed term is a weak head normal form that only \<open>unseal\<close> and \<open>seq\<close> may look at.\<close>

definition eval_sealed :: "sizes \<Rightarrow> vm \<Rightarrow> int \<Rightarrow> nickel_value \<Rightarrow> label \<Rightarrow> env \<Rightarrow> (step_result \<times> vm) panics" where
  "eval_sealed sz vm key inner l e = do {
     let c = \<lparr>clo_value = TermV (Sealed key inner l), clo_env = e\<rparr>;
     (h, st) \<leftarrow> update_at_indices sz (vm_heap vm) (vm_stack vm) c;
     let vm' = vm\<lparr>vm_heap := h, vm_stack := st\<rparr>;
     k \<leftarrow> peek_sealed_cont sz st;
     case k of
       SealedUnseal \<Rightarrow> Some (CallOp c, vm')
     | SealedSeq \<Rightarrow> Some (Continue \<lparr>clo_value = inner, clo_env = e\<rparr>, vm')
     | SealedOther \<Rightarrow> do {
         arg \<leftarrow> get_evaluated_arg h l;
         Some (Finished (Inl (BlameError l arg)), vm') } }"

text \<open>
  An interpolated string, whose chunks are stored in reverse: the remaining chunks and an
  accumulator go on the stack, and the first chunk is evaluated under \<open>ChunksConcat\<close>.
\<close>

definition u32_limit :: nat where
  "u32_limit = 2 ^ 32"

definition chunk_arg :: "nickel_value str_chunk \<Rightarrow> nickel_value \<times> nat" where
  "chunk_arg chunk = (case chunk of Literal t \<Rightarrow> (String t, 0) | Expr v indent \<Rightarrow> (v, indent))"

definition eval_str_chunks :: "sizes \<Rightarrow> vm \<Rightarrow> nickel_value str_chunk list \<Rightarrow> env \<Rightarrow> (step_result \<times> vm) panics" where
  "eval_str_chunks sz vm chunks e =
    (if chunks = [] then Some (Continue (closure_of_value (String [])), vm)
     else do {
       let (arg, indent) = chunk_arg (last chunks);
       assert_ok (indent < u32_limit);
       let st = push_str_chunks sz (butlast chunks) (vm_stack vm);
       Some (Continue \<lparr>clo_value = TermV (Op1 ChunksConcat arg), clo_env = e\<rparr>,
         vm\<lparr>vm_stack := stack_push sz (StrAccItem [] e indent 0) st\<rparr>) })"

text \<open>A container literal whose elements are closurized in the current environment.\<close>

definition eval_closurize :: "heap \<Rightarrow> nickel_value \<Rightarrow> env \<Rightarrow> (nickel_value \<times> heap) panics" where
  "eval_closurize h v e =
    (case v of
       ArrayV Empty \<Rightarrow> Some (v, h)
     | RecordV Empty \<Rightarrow> Some (v, h)
     | ArrayV (Alloc (vs, cs)) \<Rightarrow> do {
         (vs', h1) \<leftarrow> map_heap (\<lambda>h t. closurize h t e) h vs;
         (cs', h2) \<leftarrow> closurize_contracts h1 cs e Normal;
         Some (array_value vs' cs', h2) }
     | RecordV (Alloc r) \<Rightarrow> do {
         (r', h') \<leftarrow> closurize_record_data h r e Normal;
         Some (record_value r', h') }
     | EnumVariant tag arg \<Rightarrow> do {
         (arg', h') \<leftarrow> closurize_option h arg e Normal;
         Some (EnumVariant tag arg', h') }
     | _ \<Rightarrow> None)"

text \<open>
  The include expressions of a recursive record: each takes the variable of its name from the
  environment, with the contracts of its annotation. An unbound type variable is reported as an
  unbound identifier.
\<close>

fun include_fields ::
    "env \<Rightarrow> env \<Rightarrow> (ident \<times> nmetadata) list \<Rightarrow> nat \<Rightarrow> ((eval_error + (ident \<times> nfield) list) \<times> nat) panics" where
  "include_fields init_env e [] n = Some (Inr [], n)"
| "include_fields init_env e ((x, meta) # incls) n =
    (case get_var init_env e x of
       Inl err \<Rightarrow> Some (Inl err, n)
     | Inr a \<Rightarrow> do {
         (r, n1) \<leftarrow> with_pending_contracts (Field (Some (Thunk a)) (shared_of_metadata meta) []) n;
         case r of
           Inl y \<Rightarrow> Some (Inl (UnboundIdentifier y), n1)
         | Inr fld \<Rightarrow> do {
             (rs, n2) \<leftarrow> include_fields init_env e incls n1;
             Some (case rs of Inl err \<Rightarrow> Inl err | Inr flds \<Rightarrow> Inr ((x, fld) # flds), n2) } })"

definition record_with_includes :: "nrecord \<Rightarrow> (ident \<times> nfield) list \<Rightarrow> nrecord" where
  "record_with_includes data flds =
    RecordData (im_extend (record_fields data) flds) (record_attributes data) (record_sealed_tail data)"

definition eval_step :: "sizes \<Rightarrow> vm \<Rightarrow> closure \<Rightarrow> (step_result \<times> vm) panics" where
  "eval_step sz vm c = do {
     top_idx \<leftarrow> is_top_idx (vm_stack vm);
     top_cont \<leftarrow> is_top_cont (vm_stack vm);
     let has_cont_on_stack = top_idx \<or> top_cont;
     let e = clo_env c;
     case clo_value c of
       Thunk a \<Rightarrow> enter_cache_index sz vm a
     | TermV (Var x) \<Rightarrow>
         (case get_var (vm_initial_env vm) e x of
            Inl err \<Rightarrow> Some (Finished (Inl err), vm)
          | Inr a \<Rightarrow> enter_cache_index sz vm a)
     | TermV (App f arg) \<Rightarrow>
         Some (Continue \<lparr>clo_value = f, clo_env = e\<rparr>,
           vm\<lparr>vm_stack := push_arg sz \<lparr>clo_value = arg, clo_env = e\<rparr> 0 (vm_stack vm)\<rparr>)
     | TermV (Let bindings body bty is_rec) \<Rightarrow> do {
         let (e', h, idxs) = let_bind bindings e bty e (vm_heap vm) [];
         h' \<leftarrow> (if is_rec then patch_all h idxs e' else Some h);
         Some (Continue \<lparr>clo_value = body, clo_env = e'\<rparr>, vm\<lparr>vm_heap := h'\<rparr>) }
     | TermV (Op1 op arg) \<Rightarrow>
         Some (Continue \<lparr>clo_value = arg, clo_env = e\<rparr>,
           vm\<lparr>vm_stack := stack_push sz (Op1ContItem op no_app_info 0) (vm_stack vm)\<rparr>)
     | TermV (Op2 op arg1 arg2) \<Rightarrow>
         Some (Continue \<lparr>clo_value = arg1, clo_env = e\<rparr>,
           vm\<lparr>vm_stack := stack_push sz
             (Op2FirstContItem op no_app_info \<lparr>clo_value = arg2, clo_env = e\<rparr> 0) (vm_stack vm)\<rparr>)
     | TermV (OpN op args) \<Rightarrow>
         (case args of
            [] \<Rightarrow> Some (Finished (Inl (NotEnoughArgs (nary_arity op))), vm)
          | fst_arg # rest \<Rightarrow>
              Some (Continue \<lparr>clo_value = fst_arg, clo_env = e\<rparr>,
                vm\<lparr>vm_stack := stack_push sz
                  (OpNContItem op no_app_info []
                     (map (\<lambda>v. \<lparr>clo_value = v, clo_env = e\<rparr>) (rev rest)) 0) (vm_stack vm)\<rparr>))
     | TermV (Fun x body) \<Rightarrow>
         if has_cont_on_stack then eval_whnf sz vm c
         else do {
           (r, st, h) \<leftarrow> pop_arg_as_idx sz (vm_heap vm) (vm_stack vm);
           let vm' = vm\<lparr>vm_stack := st, vm_heap := h\<rparr>;
           case r of
             Some (a, _) \<Rightarrow> Some (Continue \<lparr>clo_value = body, clo_env = e(x \<mapsto> a)\<rparr>, vm')
           | None \<Rightarrow> Some (Finished (Inr c), vm') }
     | TermV (Sealed key inner l) \<Rightarrow> eval_sealed sz vm key inner l e
     | TermV (StrChunks chunks) \<Rightarrow> eval_str_chunks sz vm chunks e
     | TermV (Closurize v) \<Rightarrow> do {
         (v', h) \<leftarrow> eval_closurize (vm_heap vm) v e;
         Some (Continue (closure_of_value v'), vm\<lparr>vm_heap := h\<rparr>) }
     | TermV (RecRecord data incl dyns deps closurized) \<Rightarrow>
         if closurized then do {
           assert_ok (incl = []);
           (v, h) \<leftarrow> eval_rec_record (vm_heap vm) data dyns deps True e;
           Some (Continue (closure_of_value v), vm\<lparr>vm_heap := h\<rparr>) }
         else do {
           (r, n) \<leftarrow> include_fields (vm_initial_env vm) e incl (vm_fresh vm);
           case r of
             Inl err \<Rightarrow> Some (Finished (Inl err), vm\<lparr>vm_fresh := n\<rparr>)
           | Inr flds \<Rightarrow> do {
               (v, h) \<leftarrow> eval_rec_record (vm_heap vm) (record_with_includes data flds) dyns deps False e;
               Some (Continue (closure_of_value v), vm\<lparr>vm_heap := h, vm_fresh := n\<rparr>) } }
     | TermV (ResolvedImport i) \<Rightarrow>
         (case vm_imports vm i of
            Some v \<Rightarrow> Some (Continue (closure_of_value v), vm)
          | None \<Rightarrow> Some (Finished (Inl (InternalError ''Resolved import not found'')), vm))
     | TermV (Import i) \<Rightarrow> Some (Finished (Inl (InternalError ''Unresolved import'')), vm)
     | TermV (ParseError n) \<Rightarrow> Some (Finished (Inl (ParseErrorKind n)), vm)
     | TermV (RuntimeError err) \<Rightarrow> Some (Finished (Inl (error_of_runtime err)), vm)
     | TermV (Annotated annot inner) \<Rightarrow> do {
         (r, n) \<leftarrow> annotated_inner annot inner (vm_fresh vm);
         case r of
           Inl x \<Rightarrow> Some (Finished (Inl (UnboundIdentifier x)), vm\<lparr>vm_fresh := n\<rparr>)
         | Inr v \<Rightarrow> Some (Continue \<lparr>clo_value = v, clo_env = e\<rparr>, vm\<lparr>vm_fresh := n\<rparr>) }
     | _ \<Rightarrow> eval_whnf sz vm c }"

definition vm_reset :: "sizes \<Rightarrow> vm \<Rightarrow> vm panics" where
  "vm_reset sz vm = do {
     (st, h) \<leftarrow> unwind sz (vm_stack vm) (vm_heap vm);
     Some (vm\<lparr>vm_stack := st, vm_heap := h\<rparr>) }"

text \<open>At most \<open>n\<close> iterations of the loop.\<close>

fun eval_steps :: "sizes \<Rightarrow> nat \<Rightarrow> vm \<Rightarrow> closure \<Rightarrow> (step_result \<times> vm) panics" where
  "eval_steps sz 0 vm c = Some (Continue c, vm)"
| "eval_steps sz (Suc n) vm c = do {
     (r, vm') \<leftarrow> eval_step sz vm c;
     case r of Continue c' \<Rightarrow> eval_steps sz n vm' c' | _ \<Rightarrow> Some (r, vm') }"

end
