(* ===== verification/Stack_Props.thy ===== *)
theory Stack_Props
  imports Eval_Stack
begin

text \<open>
  The byte stack implements a stack of typed items. The locale \<open>item_stack\<close> is the contract the
  evaluator relies on, over an encoding of lists of items (top first) into the data: a push adds
  an item, a pop at a kind returns the top item exactly when it has that kind and otherwise leaves
  the data alone. \<open>byte_item_stack\<close> discharges it for every choice of non-zero item sizes.
\<close>

section \<open>The contract\<close>

datatype ('m, 'i) stack_op = PushItem 'i | PopItem 'm

fun run_typed :: "('i \<Rightarrow> 'm) \<Rightarrow> 'i list \<Rightarrow> ('m, 'i) stack_op list \<Rightarrow> 'i option list \<times> 'i list" where
  "run_typed kind s [] = ([], s)"
| "run_typed kind s (PushItem it # ops) = run_typed kind (it # s) ops"
| "run_typed kind s (PopItem m # ops) =
    (case s of
       [] \<Rightarrow> (let (rs, s') = run_typed kind [] ops in (None # rs, s'))
     | it # t \<Rightarrow>
         if kind it = m then (let (rs, s') = run_typed kind t ops in (Some it # rs, s'))
         else (let (rs, s') = run_typed kind s ops in (None # rs, s')))"

fun run_data :: "('i \<Rightarrow> 'd \<Rightarrow> 'd) \<Rightarrow> ('m \<Rightarrow> 'd \<Rightarrow> ('i option \<times> 'd) panics) \<Rightarrow> 'd \<Rightarrow>
    ('m, 'i) stack_op list \<Rightarrow> ('i option list \<times> 'd) panics" where
  "run_data push pop d [] = Some ([], d)"
| "run_data push pop d (PushItem it # ops) = run_data push pop (push it d) ops"
| "run_data push pop d (PopItem m # ops) = do {
     (r, d') \<leftarrow> pop m d;
     (rs, d'') \<leftarrow> run_data push pop d' ops;
     Some (r # rs, d'') }"

locale item_stack =
  fixes enc :: "'i list \<Rightarrow> 'd"
    and push :: "'i \<Rightarrow> 'd \<Rightarrow> 'd"
    and pop :: "'m \<Rightarrow> 'd \<Rightarrow> ('i option \<times> 'd) panics"
    and kind :: "'i \<Rightarrow> 'm"
  assumes push_enc: "push it (enc s) = enc (it # s)"
    and pop_hit: "kind it = m \<Longrightarrow> pop m (enc (it # s)) = Some (Some it, enc s)"
    and pop_miss: "kind it \<noteq> m \<Longrightarrow> pop m (enc (it # s)) = Some (None, enc (it # s))"
    and pop_empty: "pop m (enc []) = Some (None, enc [])"
begin

lemma run_data_refines:
  "run_data push pop (enc s) ops = Some (map_prod id enc (run_typed kind s ops))"
proof (induction ops arbitrary: s)
  case (Cons op ops)
  show ?case
  proof (cases op)
    case (PopItem m)
    then show ?thesis
      using Cons by (cases s) (auto simp: pop_hit pop_miss pop_empty split: prod.splits)
  qed (simp add: push_enc Cons)
qed simp

lemma push_pop: "pop (kind it) (push it (enc s)) = Some (Some it, enc s)"
  by (simp add: push_enc pop_hit)

end

section \<open>The encoding\<close>

fun stack_bytes :: "sizes \<Rightarrow> stack_item list \<Rightarrow> bytes" where
  "stack_bytes sz [] = []"
| "stack_bytes sz (it # s) = stack_push sz it (stack_bytes sz s)"

lemma u8_marker_u8 [simp]: "u8_marker (marker_u8 m) = Some m"
  by (cases m) (simp_all add: u8_marker_def all_markers_def)

lemma length_item_bytes [simp]: "length (item_bytes sz it) = sz (item_marker it)"
  by (simp add: item_bytes_def)

lemma materialize_item_bytes:
  "0 < sz (item_marker it) \<Longrightarrow> materialize sz (item_marker it) (item_bytes sz it) = Some it"
  by (cases "sz (item_marker it)") (simp_all add: materialize_def item_bytes_def upt_conv_Cons del: upt_Suc)

lemma stack_bytes_eq_Nil [simp]: "stack_bytes sz s = [] \<longleftrightarrow> s = []"
  by (cases s) (simp_all add: stack_push_def)

lemma top_marker_bytes [simp]:
  "top_marker (stack_bytes sz s) = Some (case s of [] \<Rightarrow> None | it # _ \<Rightarrow> Some (item_marker it))"
  by (cases s) (simp_all add: top_marker_def stack_push_def)

lemma length_stack_bytes: "length (stack_bytes sz s) = (\<Sum>it \<leftarrow> s. Suc (sz (item_marker it)))"
  by (induction s) (simp_all add: stack_push_def)

lemma top_marker_Nil [simp]: "top_marker [] = Some None"
  by (simp add: top_marker_def)

text \<open>Update frames of a stack, from the top.\<close>

fun frames :: "stack_item list \<Rightarrow> addr list" where
  "frames [] = []"
| "frames (UpdateIndexItem u # s) = u # frames s"
| "frames (_ # s) = frames s"

lemma reset_all:
  "list_all (\<lambda>u. u < length h) us \<Longrightarrow>
   (let h' = foldl (\<lambda>h u. h[u := (h ! u)\<lparr>td_state := Suspended\<rparr>]) h us in
     length h' = length h \<and>
     (\<forall>a < length h. h' ! a = (if a \<in> set us then (h ! a)\<lparr>td_state := Suspended\<rparr> else h ! a)))"
proof (induction us arbitrary: h)
  case (Cons u us)
  define h1 where "h1 = h[u := (h ! u)\<lparr>td_state := Suspended\<rparr>]"
  have "list_all (\<lambda>u. u < length h1) us" using Cons.prems by (simp add: h1_def)
  from Cons.IH [OF this] show ?case
    using Cons.prems by (auto simp: Let_def h1_def nth_list_update)
qed simp

text \<open>No item type is zero-sized.\<close>

locale item_sizes =
  fixes sz :: sizes
  assumes sz_pos: "0 < sz m"
begin

lemma read_unchecked_bytes:
  "read_unchecked sz (item_marker it) (stack_bytes sz (it # s)) = Some it"
  by (simp add: read_unchecked_def stack_push_def assert_ok_bind materialize_item_bytes sz_pos)

lemma pop_unchecked_bytes:
  "pop_unchecked sz (item_marker it) (stack_bytes sz (it # s)) = Some (it, stack_bytes sz s)"
  using read_unchecked_bytes by (simp add: pop_unchecked_def stack_push_def)

lemma stack_pop_bytes:
  "stack_pop sz m (stack_bytes sz s) =
    (case s of
       [] \<Rightarrow> Some (None, stack_bytes sz s)
     | it # t \<Rightarrow> if item_marker it = m then Some (Some it, stack_bytes sz t) else Some (None, stack_bytes sz s))"
proof (cases s)
  case (Cons it t)
  then show ?thesis
    unfolding stack_pop_def top_marker_bytes using pop_unchecked_bytes [of it t]
    by (auto simp del: stack_bytes.simps)
qed (simp add: stack_pop_def)

lemma drop_top_bytes:
  "drop_top sz (stack_bytes sz s) = Some (stack_bytes sz (tl s))"
proof (cases s)
  case (Cons it t)
  then show ?thesis
    unfolding drop_top_def top_marker_bytes using pop_unchecked_bytes [of it t]
    by (simp del: stack_bytes.simps)
qed (simp add: drop_top_def)

lemma stack_drop_bytes: "stack_drop sz (stack_bytes sz s) = Some []"
proof (induction s)
  case (Cons it s)
  then show ?case
    using drop_top_bytes [of "it # s"]
    by (subst stack_drop.simps) (simp del: stack_bytes.simps)
qed (simp add: stack_drop.simps)

lemma pop_update_index_bytes:
  "pop_update_index sz (stack_bytes sz s) =
    (case s of UpdateIndexItem u # t \<Rightarrow> Some (Some u, stack_bytes sz t) | _ \<Rightarrow> Some (None, stack_bytes sz s))"
  unfolding pop_update_index_def stack_pop_bytes
  by (cases s) (auto split: stack_item.split)

lemma pop_arg_as_idx_bytes:
  "pop_arg_as_idx sz h (stack_bytes sz s) =
    (case s of
       ArgItem arg pos # t \<Rightarrow> Some (Some (length h, pos), stack_bytes sz t, h @ [td_new arg])
     | TrackedArgItem a pos # t \<Rightarrow> Some (Some (a, pos), stack_bytes sz t, h)
     | _ \<Rightarrow> Some (None, stack_bytes sz s, h))"
proof (cases s)
  case (Cons it t)
  then show ?thesis
    unfolding pop_arg_as_idx_def top_marker_bytes using pop_unchecked_bytes [of it t]
    by (cases it) (simp_all add: cache_add_def thunk_new_def heap_alloc_def del: stack_bytes.simps)
qed (simp add: pop_arg_as_idx_def)

lemma pop_arg_bytes:
  "pop_arg sz h (stack_bytes sz s) =
    (case s of
       ArgItem arg pos # t \<Rightarrow> Some (Some (arg, pos), stack_bytes sz t)
     | TrackedArgItem a pos # t \<Rightarrow> map_option (\<lambda>c. (Some (c, pos), stack_bytes sz t)) (cache_get h a)
     | _ \<Rightarrow> Some (None, stack_bytes sz s))"
proof (cases s)
  case (Cons it t)
  then show ?thesis
    unfolding pop_arg_def top_marker_bytes using pop_unchecked_bytes [of it t]
    by (cases it) (auto simp: map_conv_bind_option comp_def simp del: stack_bytes.simps)
qed (simp add: pop_arg_def)

lemma peek_sealed_cont_bytes:
  "peek_sealed_cont sz (stack_bytes sz s) =
    Some (case s of
       Op1ContItem op _ _ # _ \<Rightarrow> if op = Seq then SealedSeq else SealedOther
     | Op2SecondContItem op _ _ _ _ # _ \<Rightarrow> if op = BinOp Unseal then SealedUnseal else SealedOther
     | _ \<Rightarrow> SealedOther)"
proof (cases s)
  case (Cons it t)
  then show ?thesis
    unfolding peek_sealed_cont_def top_marker_bytes using read_unchecked_bytes [of it t]
    by (cases it) (simp_all del: stack_bytes.simps)
qed (simp add: peek_sealed_cont_def)

lemma unwind_bytes:
  "list_all (\<lambda>u. u < length h) (frames s) \<Longrightarrow>
   unwind sz (stack_bytes sz s) h =
     Some ([], foldl (\<lambda>h u. h[u := (h ! u)\<lparr>td_state := Suspended\<rparr>]) h (frames s))"
proof (induction s arbitrary: h)
  case Nil
  then show ?case by (simp add: unwind.simps)
next
  case (Cons it s)
  have ne: "stack_bytes sz (it # s) \<noteq> []" by (simp only: stack_bytes_eq_Nil) simp
  show ?case
  proof (cases "item_marker it = MUpdateIndex")
    case True
    then obtain u where it: "it = UpdateIndexItem u" by (cases it) auto
    then have u: "u < length h" and fr: "list_all (\<lambda>u. u < length h) (frames s)"
      using Cons.prems by auto
    define h1 where "h1 = h[u := (h ! u)\<lparr>td_state := Suspended\<rparr>]"
    have "thunk_reset_state h u = Some h1" using u by (simp add: thunk_reset_state_def heap_map_def h1_def)
    moreover have "list_all (\<lambda>u. u < length h1) (frames s)" using fr by (simp add: h1_def)
    from Cons.IH [OF this]
    have "unwind sz (stack_bytes sz s) h1 =
        Some ([], foldl (\<lambda>h u. h[u := (h ! u)\<lparr>td_state := Suspended\<rparr>]) h1 (frames s))" .
    moreover have "pop_unchecked sz MUpdateIndex (stack_bytes sz (it # s)) = Some (it, stack_bytes sz s)"
      using pop_unchecked_bytes [of it s] True by simp
    ultimately show ?thesis
      using ne it by (subst unwind.simps, unfold top_marker_bytes) (simp add: h1_def del: stack_bytes.simps)
  next
    case False
    have "frames (it # s) = frames s" using False by (cases it) auto
    moreover have "drop_top sz (stack_bytes sz (it # s)) = Some (stack_bytes sz s)"
      using drop_top_bytes [of "it # s"] by (simp del: stack_bytes.simps)
    ultimately show ?thesis
      using ne False Cons.IH [of h] Cons.prems
      by (subst unwind.simps, unfold top_marker_bytes) (simp del: stack_bytes.simps)
  qed
qed

lemma unwind_frames:
  assumes "list_all (\<lambda>u. u < length h) (frames s)"
  shows "\<exists>h'. unwind sz (stack_bytes sz s) h = Some ([], h') \<and> length h' = length h
    \<and> (\<forall>a < length h. h' ! a = (if a \<in> set (frames s) then (h ! a)\<lparr>td_state := Suspended\<rparr> else h ! a))"
  using unwind_bytes [OF assms] reset_all [OF assms] by (auto simp: Let_def)

lemma clear_eqs_bytes:
  "clear_eqs sz (stack_bytes sz s) = Some (stack_bytes sz (dropWhile (\<lambda>it. item_marker it = MEq) s))"
proof (induction s)
  case Nil
  then show ?case by (subst clear_eqs.simps) (simp add: pop_eq_def stack_pop_def)
next
  case (Cons it s)
  then show ?case
    by (subst clear_eqs.simps) (simp add: pop_eq_def stack_pop_bytes del: stack_bytes.simps)
qed

lemma markers_from_bytes:
  "markers_from sz (stack_bytes sz s @ rest) (length (stack_bytes sz s)) = Some (map item_marker s)"
proof (induction s arbitrary: rest)
  case Nil
  then show ?case by (simp add: markers_from.simps)
next
  case (Cons it s)
  have ih: "markers_from sz (stack_bytes sz (it # s) @ rest) (length (stack_bytes sz s)) = Some (map item_marker s)"
    using Cons.IH [of "item_bytes sz it @ Plain (marker_u8 (item_marker it)) # rest"] by (simp add: stack_push_def)
  have len: "length (stack_bytes sz (it # s)) = Suc (sz (item_marker it)) + length (stack_bytes sz s)"
    by (simp add: stack_push_def)
  have "(stack_bytes sz (it # s) @ rest) ! (length (stack_bytes sz (it # s)) - 1)
      = Plain (marker_u8 (item_marker it))"
    by (simp add: stack_push_def nth_append)
  with ih len show ?case
    by (subst markers_from.simps) (simp add: assert_ok_bind del: stack_bytes.simps)
qed

lemma stack_count_bytes:
  "stack_count sz P (stack_bytes sz s) = Some (length (takeWhile P (map item_marker s)))"
  using markers_from_bytes [of s "[]"] by (simp add: stack_count_def stack_markers_def)

end

sublocale item_sizes \<subseteq> typed: item_stack "stack_bytes sz" "stack_push sz" "stack_pop sz" item_marker
  by unfold_locales (simp_all add: stack_pop_bytes del: stack_bytes.simps, simp_all)

context item_sizes begin

lemma byte_run_refines:
  "run_data (stack_push sz) (stack_pop sz) (stack_bytes sz s) ops =
    Some (map_prod id (stack_bytes sz) (run_typed item_marker s ops))"
  by (rule typed.run_data_refines)

end

text \<open>
  Sizes on a machine with 8-byte words, one word per component of the item.
\<close>

fun word_sizes :: sizes where
  "word_sizes MEq = 32" | "word_sizes MArg = 24" | "word_sizes MTrackedArg = 16"
| "word_sizes MUpdateIndex = 8" | "word_sizes MOp1Cont = 32" | "word_sizes MOp2FirstCont = 48"
| "word_sizes MOp2SecondCont = 48" | "word_sizes MOpNCont = 64" | "word_sizes MStrChunk = 24"
| "word_sizes MStrAcc = 48"

interpretation word_stack: item_sizes word_sizes
proof
  show "0 < word_sizes m" for m by (cases m) simp_all
qed

section \<open>Properties\<close>

text \<open>
  C27. The byte stack is a stack of typed items: for all non-zero item sizes, any run of pushes
  and typed pops on the bytes returns what the same run returns on a list of items, including the
  pops refused because the top item has another type or the stack is empty; the run never
  materialises an item at a wrong type or from misplaced bytes.
\<close>

theorem stack_run_refines:
  assumes "\<And>m. 0 < sz m"
  shows "run_data (stack_push sz) (stack_pop sz) (stack_bytes sz s) ops =
    Some (map_prod id (stack_bytes sz) (run_typed item_marker s ops))"
proof -
  from assms have "item_sizes sz" by unfold_locales
  then show ?thesis by (rule item_sizes.byte_run_refines)
qed

theorem stack_run_refines_witness:
  "run_data (stack_push word_sizes) (stack_pop word_sizes) stack_new
     [PushItem (UpdateIndexItem 7), PushItem (TrackedArgItem 3 0), PopItem MUpdateIndex, PopItem MTrackedArg,
      PopItem MUpdateIndex, PopItem MEq]
   = Some ([None, Some (TrackedArgItem 3 0), Some (UpdateIndexItem 7), None], stack_new)"
  using stack_run_refines [of word_sizes "[]" "[PushItem (UpdateIndexItem 7), PushItem (TrackedArgItem 3 0),
    PopItem MUpdateIndex, PopItem MTrackedArg, PopItem MUpdateIndex, PopItem MEq]", OF word_stack.sz_pos]
  by (simp add: stack_new_def)

text \<open>
  C28. Unwinding empties the stack, terminates, and puts back to suspended every thunk that has an
  update frame on the stack, leaving all other cells and the content of all cells alone.
\<close>

theorem unwind_resets_frames:
  assumes "\<And>m. 0 < sz m" and "list_all (\<lambda>u. u < length h) (frames s)"
  shows "\<exists>h'. unwind sz (stack_bytes sz s) h = Some ([], h') \<and> length h' = length h
    \<and> (\<forall>a < length h. h' ! a = (if a \<in> set (frames s) then (h ! a)\<lparr>td_state := Suspended\<rparr> else h ! a))"
proof -
  have "item_sizes sz" using assms(1) by unfold_locales
  then show ?thesis using assms(2) by (rule item_sizes.unwind_frames)
qed

theorem unwind_resets_frames_witness:
  "\<exists>h'. unwind word_sizes (stack_bytes word_sizes [UpdateIndexItem 0])
      [(td_new (closure_of_value Null))\<lparr>td_state := Blackholed\<rparr>] = Some ([], h')
    \<and> td_state (h' ! 0) = Suspended"
  using unwind_resets_frames [of word_sizes "[(td_new (closure_of_value Null))\<lparr>td_state := Blackholed\<rparr>]"
    "[UpdateIndexItem 0]", OF word_stack.sz_pos] by auto

end
