(* ===== verification/Merge_Correct.thy ===== *)
theory Merge_Correct
  imports Record_Merge
begin

text \<open>
  What the merge of two records computes, as relations between the operands, the result and the
  heap after the merge. Merging only allocates: every cell of the heap before it is unchanged
  (\<open>heap_le\<close>).
\<close>

section \<open>Heaps grow\<close>

definition heap_le :: "heap \<Rightarrow> heap \<Rightarrow> bool" where
  "heap_le h h' \<longleftrightarrow> (\<exists>ext. h' = h @ ext)"

lemma heap_le_refl [simp, intro]: "heap_le h h"
  by (simp add: heap_le_def)

lemma heap_le_append [simp, intro]: "heap_le h (h @ ext)"
  by (simp add: heap_le_def)

lemma heap_le_trans [trans]: "heap_le h1 h2 \<Longrightarrow> heap_le h2 h3 \<Longrightarrow> heap_le h1 h3"
  by (auto simp: heap_le_def)

lemma heap_le_nth: "heap_le h h' \<Longrightarrow> a < length h \<Longrightarrow> h' ! a = h ! a \<and> a < length h'"
  by (auto simp: heap_le_def nth_append)

lemma heap_le_iff: "heap_le h h' \<longleftrightarrow> length h \<le> length h' \<and> (\<forall>a < length h. h' ! a = h ! a)"
proof
  assume r: "length h \<le> length h' \<and> (\<forall>a < length h. h' ! a = h ! a)"
  then have "take (length h) h' = h" by (intro nth_equalityI) auto
  then show "heap_le h h'" by (metis append_take_drop_id heap_le_def)
qed (auto simp: heap_le_def nth_append)

fun value_ok :: "heap \<Rightarrow> nickel_value \<Rightarrow> bool" where
  "value_ok h (Thunk a) \<longleftrightarrow> a < length h"
| "value_ok h _ \<longleftrightarrow> True"

definition field_ok :: "heap \<Rightarrow> nfield \<Rightarrow> bool" where
  "field_ok h fld \<longleftrightarrow> (\<forall>v. field_value fld = Some v \<longrightarrow> value_ok h v)
    \<and> list_all (\<lambda>c. value_ok h (ctr_contract c)) (field_pending_contracts fld)"

definition record_ok :: "heap \<Rightarrow> nrecord \<Rightarrow> bool" where
  "record_ok h r \<longleftrightarrow> record_wf r \<and> (\<forall>x fld. map_of (record_fields r) x = Some fld \<longrightarrow> field_ok h fld)"

lemma value_ok_mono: "heap_le h h' \<Longrightarrow> value_ok h v \<Longrightarrow> value_ok h' v"
  by (cases v) (auto simp: heap_le_def)

lemma field_ok_mono: "heap_le h h' \<Longrightarrow> field_ok h f \<Longrightarrow> field_ok h' f"
  by (auto simp: field_ok_def list_all_iff intro: value_ok_mono)

section \<open>Reverted values and fields\<close>

definition reverted :: "heap \<Rightarrow> nickel_value \<Rightarrow> nickel_value \<Rightarrow> bool" where
  "reverted h v v' \<longleftrightarrow>
    (case v of
       Thunk a \<Rightarrow> a < length h \<and>
         (case td_inner (h ! a) of
            StandardThunk _ \<Rightarrow> v' = v
          | RevertibleThunk orig _ deps \<Rightarrow>
              (\<exists>b. v' = Thunk b \<and> b < length h \<and> b \<noteq> a \<and> h ! b = td_new_rev orig deps))
     | _ \<Rightarrow> v' = v)"

definition field_reverted :: "heap \<Rightarrow> nfield \<Rightarrow> nfield \<Rightarrow> bool" where
  "field_reverted h f f' \<longleftrightarrow> field_metadata f' = field_metadata f
    \<and> rel_option (reverted h) (field_value f) (field_value f')
    \<and> list_all2 (\<lambda>c c'. ctr_label c' = ctr_label c \<and> reverted h (ctr_contract c) (ctr_contract c'))
        (field_pending_contracts f) (field_pending_contracts f')"

lemma reverted_mono: "heap_le h h' \<Longrightarrow> reverted h v v' \<Longrightarrow> reverted h' v v'"
proof (cases v)
  case (Thunk a)
  assume le: "heap_le h h'" and r: "reverted h v v'"
  then have a: "a < length h" "h' ! a = h ! a" "a < length h'"
    using Thunk heap_le_nth [OF le] by (auto simp: reverted_def)
  then show "reverted h' v v'"
    using r heap_le_nth [OF le] Thunk by (auto simp: reverted_def split: inner_thunk_data.splits)
qed (auto simp: reverted_def)

lemma contracts_reverted_mono:
  assumes "heap_le h h'"
    and "list_all2 (\<lambda>c c'. ctr_label c' = ctr_label c \<and> reverted h (ctr_contract c) (ctr_contract c')) cs cs'"
  shows "list_all2 (\<lambda>c c'. ctr_label c' = ctr_label c \<and> reverted h' (ctr_contract c) (ctr_contract c')) cs cs'"
  using assms(2) by (rule list_all2_mono) (auto intro: reverted_mono [OF assms(1)])

lemma field_reverted_mono: "heap_le h h' \<Longrightarrow> field_reverted h f f' \<Longrightarrow> field_reverted h' f f'"
  by (auto simp: field_reverted_def intro: contracts_reverted_mono option.rel_mono_strong reverted_mono)

lemma revert_value_ok:
  assumes "value_ok h v"
  shows "\<exists>v' h'. revert_value h v = Some (v', h') \<and> heap_le h h' \<and> reverted h' v v'"
proof (cases v)
  case (Thunk a)
  then have a: "a < length h" using assms by simp
  show ?thesis
  proof (cases "td_inner (h ! a)")
    case (StandardThunk c)
    then have "revert_value h v = Some (v, h)" using Thunk a by (simp add: revert_value_def thunk_revert_def)
    moreover have "reverted h v v" using Thunk StandardThunk a by (simp add: reverted_def)
    ultimately show ?thesis by blast
  next
    case (RevertibleThunk orig cached deps)
    then have "revert_value h v = Some (Thunk (length h), h @ [td_new_rev orig deps])"
      using Thunk a by (simp add: revert_value_def thunk_revert_def heap_alloc_def td_new_rev_def)
    moreover have "reverted (h @ [td_new_rev orig deps]) v (Thunk (length h))"
      using Thunk RevertibleThunk a by (simp add: reverted_def nth_append)
    ultimately show ?thesis by blast
  qed
qed (auto simp: revert_value_def reverted_def)

lemma revert_contracts_ok:
  "list_all (\<lambda>c. value_ok h (ctr_contract c)) cs \<Longrightarrow>
   \<exists>cs' h'. revert_contracts h cs = Some (cs', h') \<and> heap_le h h'
     \<and> list_all2 (\<lambda>c c'. ctr_label c' = ctr_label c \<and> reverted h' (ctr_contract c) (ctr_contract c')) cs cs'"
proof (induction cs arbitrary: h)
  case (Cons c cs)
  obtain v' h1 where v: "revert_value h (ctr_contract c) = Some (v', h1)" "heap_le h h1"
      "reverted h1 (ctr_contract c) v'"
    using Cons.prems revert_value_ok by fastforce
  have "list_all (\<lambda>c. value_ok h1 (ctr_contract c)) cs"
    using Cons.prems v(2) by (auto simp: list_all_iff intro: value_ok_mono)
  from Cons.IH [OF this] obtain cs' h2 where cs: "revert_contracts h1 cs = Some (cs', h2)" "heap_le h1 h2"
      "list_all2 (\<lambda>c c'. ctr_label c' = ctr_label c \<and> reverted h2 (ctr_contract c) (ctr_contract c')) cs cs'"
    by blast
  show ?case
    using v cs reverted_mono [OF cs(2) v(3)] heap_le_trans [OF v(2) cs(2)]
    by (auto simp: revert_contract_def map_contract_def)
qed simp

lemma revert_option_ok:
  assumes "\<forall>v. ov = Some v \<longrightarrow> value_ok h v"
  shows "\<exists>ov' h'. revert_option h ov = Some (ov', h') \<and> heap_le h h' \<and> rel_option (reverted h') ov ov'"
  using assms revert_value_ok by (cases ov) fastforce+

lemma revert_field_ok:
  assumes "field_ok h f"
  shows "\<exists>f' h'. revert_field h f = Some (f', h') \<and> heap_le h h' \<and> field_reverted h' f f'"
proof -
  obtain ov h1 where v: "revert_option h (field_value f) = Some (ov, h1)" "heap_le h h1"
      "rel_option (reverted h1) (field_value f) ov"
    using assms revert_option_ok [of "field_value f" h] by (auto simp: field_ok_def)
  have "list_all (\<lambda>c. value_ok h1 (ctr_contract c)) (field_pending_contracts f)"
    using assms v(2) by (auto simp: field_ok_def list_all_iff intro: value_ok_mono)
  from revert_contracts_ok [OF this] obtain cs h2 where cs: "revert_contracts h1 (field_pending_contracts f) = Some (cs, h2)"
      "heap_le h1 h2"
      "list_all2 (\<lambda>c c'. ctr_label c' = ctr_label c \<and> reverted h2 (ctr_contract c) (ctr_contract c')) (field_pending_contracts f) cs"
    by blast
  have "rel_option (reverted h2) (field_value f) ov"
    using v(3) by (rule option.rel_mono_strong) (rule reverted_mono [OF cs(2)])
  with v cs heap_le_trans [OF v(2) cs(2)] show ?thesis
    by (auto simp: revert_field_def field_reverted_def)
qed

lemma revert_fields_ok:
  "list_all (\<lambda>(x, f). field_ok h f) m \<Longrightarrow>
   \<exists>m' h'. revert_fields h m = Some (m', h') \<and> heap_le h h'
     \<and> list_all2 (\<lambda>(x, f) (y, f'). y = x \<and> field_reverted h' f f') m m'"
proof (induction m arbitrary: h)
  case (Cons xf m)
  obtain x f where xf: "xf = (x, f)" by (cases xf)
  have "field_ok h f" using Cons.prems by (simp add: xf)
  from revert_field_ok [OF this]
  obtain f' h1 where f: "revert_field h f = Some (f', h1)" "heap_le h h1" "field_reverted h1 f f'"
    by blast
  have "list_all (\<lambda>(x, f). field_ok h1 f) m"
    using Cons.prems f(2) by (auto simp: list_all_iff intro: field_ok_mono)
  from Cons.IH [OF this] obtain m' h2 where m: "revert_fields h1 m = Some (m', h2)" "heap_le h1 h2"
      "list_all2 (\<lambda>(x, f) (y, f'). y = x \<and> field_reverted h2 f f') m m'"
    by blast
  show ?case
    using f m field_reverted_mono [OF m(2) f(3)] heap_le_trans [OF f(2) m(2)] by (auto simp: xf)
qed simp

section \<open>Saturated and merged values\<close>

definition value_deps :: "heap \<Rightarrow> nickel_value \<Rightarrow> field_deps" where
  "value_deps h v = (case v of Thunk a \<Rightarrow> td_deps (h ! a) | _ \<Rightarrow> deps_empty)"

definition saturated :: "heap \<Rightarrow> ident list \<Rightarrow> nickel_value \<Rightarrow> nickel_value \<Rightarrow> bool" where
  "saturated h names v s \<longleftrightarrow>
    (case v of
       Thunk a \<Rightarrow> (\<exists>f. f < length h \<and>
         (let args = filter (deps_filter (td_deps (h ! a))) names
          in s = foldl (\<lambda>pa x. TermV (App pa x)) (Thunk f) (map (\<lambda>x. TermV (Var x)) args)
            \<and> h ! f = revthunk_as_explicit_fun (h ! a) args))
     | _ \<Rightarrow> s = v)"

lemma saturated_mono: "heap_le h h' \<Longrightarrow> value_ok h v \<Longrightarrow> saturated h names v s \<Longrightarrow> saturated h' names v s"
proof (cases v)
  case (Thunk a)
  assume le: "heap_le h h'" and ok: "value_ok h v" and sat: "saturated h names v s"
  have a: "h' ! a = h ! a" using heap_le_nth [OF le] ok Thunk by simp
  obtain f where "f < length h" "h' ! f = h ! f" "f < length h'"
    "s = foldl (\<lambda>pa x. TermV (App pa x)) (Thunk f) (map (\<lambda>x. TermV (Var x)) (filter (deps_filter (td_deps (h ! a))) names))"
    "h ! f = revthunk_as_explicit_fun (h ! a) (filter (deps_filter (td_deps (h ! a))) names)"
    using sat Thunk heap_le_nth [OF le] by (auto simp: saturated_def Let_def)
  with a Thunk show ?thesis by (auto simp: saturated_def Let_def)
qed (simp_all add: saturated_def)

lemma value_deps_mono: "heap_le h h' \<Longrightarrow> value_ok h v \<Longrightarrow> value_deps h' v = value_deps h v"
  using heap_le_nth by (cases v) (auto simp: value_deps_def)

lemma saturate_value_ok:
  assumes "value_ok h v"
  shows "\<exists>s h'. saturate_value h v names = Some (s, h') \<and> heap_le h h' \<and> saturated h' names v s"
proof (cases v)
  case (Thunk a)
  then have a: "a < length h" using assms by simp
  define args where "args = filter (deps_filter (td_deps (h ! a))) names"
  define h' where "h' = h @ [revthunk_as_explicit_fun (h ! a) args]"
  define s where "s = foldl (\<lambda>pa x. TermV (App pa x)) (Thunk (length h)) (map (\<lambda>x. TermV (Var x)) args)"
  have "saturate_value h v names = Some (s, h')"
    unfolding s_def h'_def args_def
    using Thunk a by (simp add: saturate_value_def thunk_saturate_def thunk_deps_def heap_alloc_def Let_def)
  moreover have "h' ! a = h ! a" "h' ! length h = revthunk_as_explicit_fun (h ! a) args" "length h < length h'"
    using a by (simp_all add: h'_def nth_append)
  then have "saturated h' names v s"
    unfolding saturated_def Thunk nickel_value.case Let_def s_def args_def
    by (intro exI [of _ "length h"]) (simp only: simp_thms)
  ultimately show ?thesis by (auto simp: h'_def)
qed (auto simp: saturate_value_def saturated_def)

lemma value_field_deps_ok: "value_ok h v \<Longrightarrow> value_field_deps h v = Some (value_deps h v)"
  by (cases v) (auto simp: value_field_deps_def value_deps_def cache_deps_def thunk_deps_def)

text \<open>
  The thunk of a merged value: the merge of the two saturated operands, with the union of their
  dependencies.
\<close>

definition merge_thunk :: "heap \<Rightarrow> merge_label \<Rightarrow> ident list \<Rightarrow> nickel_value \<Rightarrow> nickel_value \<Rightarrow> nickel_value \<Rightarrow> bool" where
  "merge_thunk h ml names t1 t2 v \<longleftrightarrow>
    (\<exists>a s1 s2. v = Thunk a \<and> a < length h \<and> td_state (h ! a) = Suspended
      \<and> td_closure_or_orig (h ! a) = closure_of_value (TermV (Op2 (BinOp (Merge ml)) s1 s2))
      \<and> td_deps (h ! a) = deps_union (value_deps h t1) (value_deps h t2)
      \<and> saturated h names t1 s1 \<and> saturated h names t2 s2)"

lemma merge_thunk_mono:
  "heap_le h h' \<Longrightarrow> value_ok h t1 \<Longrightarrow> value_ok h t2 \<Longrightarrow> merge_thunk h ml names t1 t2 v \<Longrightarrow> merge_thunk h' ml names t1 t2 v"
  unfolding merge_thunk_def using heap_le_nth saturated_mono value_deps_mono by fastforce

lemma cache_add_rev:
  "\<exists>td. cache_add h c (Revertible d) = (length h, h @ [td]) \<and> td_state td = Suspended
    \<and> td_closure_or_orig td = c \<and> td_deps td = d"
  by (cases "d = deps_empty")
    (simp_all add: cache_add_def thunk_new_rev_def thunk_new_def heap_alloc_def td_new_def td_new_rev_def
      td_closure_or_orig_def td_deps_def)

lemma fields_merge_closurize_ok:
  assumes "value_ok h t1" and "value_ok h t2"
  shows "\<exists>v h'. fields_merge_closurize h ml t1 t2 names = Some (v, h') \<and> heap_le h h' \<and> merge_thunk h' ml names t1 t2 v"
proof -
  obtain s1 h1 where s1: "saturate_value h t1 names = Some (s1, h1)" "heap_le h h1" "saturated h1 names t1 s1"
    using saturate_value_ok [OF assms(1)] by blast
  have ok: "value_ok h1 t1" "value_ok h1 t2" using assms value_ok_mono [OF s1(2)] by auto
  obtain s2 h2 where s2: "saturate_value h1 t2 names = Some (s2, h2)" "heap_le h1 h2" "saturated h2 names t2 s2"
    using saturate_value_ok [OF ok(2)] by blast
  have ok2: "value_ok h2 t1" "value_ok h2 t2" using ok value_ok_mono [OF s2(2)] by auto
  let ?body = "closure_of_value (TermV (Op2 (BinOp (Merge ml)) s1 s2))"
  let ?d = "deps_union (value_deps h t1) (value_deps h t2)"
  obtain td where td: "cache_add h2 ?body (Revertible ?d) = (length h2, h2 @ [td])"
    "td_state td = Suspended" "td_closure_or_orig td = ?body" "td_deps td = ?d"
    using cache_add_rev by blast
  have le: "heap_le h2 (h2 @ [td])" by simp
  have sat: "saturated (h2 @ [td]) names t1 s1" "saturated (h2 @ [td]) names t2 s2"
    using saturated_mono [OF le ok2(1) saturated_mono [OF s2(2) ok(1) s1(3)]] saturated_mono [OF le ok2(2) s2(3)]
    by auto
  have le': "heap_le h (h2 @ [td])" using heap_le_trans [OF s1(2) heap_le_trans [OF s2(2) le]] .
  have "merge_thunk (h2 @ [td]) ml names t1 t2 (Thunk (length h2))"
    unfolding merge_thunk_def using td sat value_deps_mono [OF le'] assms by auto
  with td s1(1) s2(1) le' assms show ?thesis
    by (auto simp: fields_merge_closurize_def value_field_deps_ok)
qed


section \<open>Merged fields\<close>

text \<open>
  Which value survives: the merge of both at equal priorities, otherwise the one defined or of
  higher priority, reverted; with its priority.
\<close>

definition merged_value :: "heap \<Rightarrow> merge_label \<Rightarrow> ident list \<Rightarrow> nickel_value option \<Rightarrow> merge_priority \<Rightarrow>
    nickel_value option \<Rightarrow> merge_priority \<Rightarrow> nickel_value option \<Rightarrow> merge_priority \<Rightarrow> bool" where
  "merged_value h ml names v1 p1 v2 p2 v p \<longleftrightarrow>
    (if v1 \<noteq> None \<and> v2 \<noteq> None \<and> priority_eq p1 p2
     then p = p1 \<and> (\<exists>w. v = Some w \<and> merge_thunk h ml names (the v1) (the v2) w)
     else if v1 \<noteq> None \<and> (v2 = None \<or> priority_gt p1 p2) then p = p1 \<and> rel_option (reverted h) v1 v
     else if v2 \<noteq> None then p = p2 \<and> rel_option (reverted h) v2 v
     else p = Neutral \<and> v = None)"

lemma merged_value_mono:
  assumes "heap_le h h'" and "\<forall>t. v1 = Some t \<longrightarrow> value_ok h t" and "\<forall>t. v2 = Some t \<longrightarrow> value_ok h t"
    and "merged_value h ml names v1 p1 v2 p2 v p"
  shows "merged_value h' ml names v1 p1 v2 p2 v p"
proof -
  have "rel_option (reverted h) a b \<Longrightarrow> rel_option (reverted h') a b" for a b
    by (erule option.rel_mono_strong) (rule reverted_mono [OF assms(1)])
  moreover have "merge_thunk h ml names (the v1) (the v2) w \<Longrightarrow> v1 \<noteq> None \<Longrightarrow> v2 \<noteq> None \<Longrightarrow>
      merge_thunk h' ml names (the v1) (the v2) w" for w
    using assms(2,3) by (auto intro: merge_thunk_mono [OF assms(1)])
  ultimately show ?thesis using assms(4) unfolding merged_value_def by (auto split: if_splits)
qed

lemma merge_field_values_ok:
  assumes ok: "\<forall>t. v1 = Some t \<longrightarrow> value_ok h t" "\<forall>t. v2 = Some t \<longrightarrow> value_ok h t"
  shows "\<exists>v p h'. merge_field_values h ml v1 p1 v2 p2 names = Some ((v, p), h') \<and> heap_le h h'
    \<and> merged_value h' ml names v1 p1 v2 p2 v p"
proof -
  have rev: "\<exists>w h'. revert_value h t = Some (w, h') \<and> heap_le h h' \<and> reverted h' t w" if "value_ok h t" for t
    using revert_value_ok [OF that] by blast
  show ?thesis
  proof (cases v1)
    case None
    then show ?thesis using ok rev by (cases v2) (fastforce simp: merge_field_values_def merged_value_def)+
  next
    case v1: (Some t1)
    show ?thesis
    proof (cases v2)
      case None
      then show ?thesis using v1 ok rev by (fastforce simp: merge_field_values_def merged_value_def)
    next
      case v2: (Some t2)
      obtain w1 h1 where r1: "revert_value h t1 = Some (w1, h1)" "heap_le h h1" "reverted h1 t1 w1"
        using rev ok v1 by blast
      obtain w2 h2 where r2: "revert_value h t2 = Some (w2, h2)" "heap_le h h2" "reverted h2 t2 w2"
        using rev ok v2 by blast
      obtain w h' where m: "fields_merge_closurize h ml t1 t2 names = Some (w, h')" "heap_le h h'"
          "merge_thunk h' ml names t1 t2 w"
        using fields_merge_closurize_ok ok v1 v2 by blast
      consider "priority_eq p1 p2" | "\<not> priority_eq p1 p2" "priority_gt p1 p2"
        | "\<not> priority_eq p1 p2" "priority_gt p2 p1" "\<not> priority_gt p1 p2"
        using priority_total [of p1 p2] priority_gt_asym [of p1 p2] by blast
      then show ?thesis
        by cases (use v1 v2 r1 r2 m in \<open>simp_all add: merge_field_values_def merged_value_def\<close>)
    qed
  qed
qed

definition merged_metadata ::
    "(nickel_type \<Rightarrow> nickel_type \<Rightarrow> bool) \<Rightarrow> nmetadata \<Rightarrow> nmetadata \<Rightarrow> merge_priority \<Rightarrow> nmetadata" where
  "merged_metadata teq m1 m2 p =
    FieldMetadata (merge_doc (fm_doc m1) (fm_doc m2))
     (annotation_combine_dedup teq (fm_annotation m1) (fm_annotation m2))
     (fm_opt m1 \<and> fm_opt m2)
     (fm_not_exported m1 \<or> fm_not_exported m2)
     p"

definition field_merged ::
    "(heap \<Rightarrow> env contract_eq) \<Rightarrow> (nickel_type \<Rightarrow> nickel_type \<Rightarrow> bool) \<Rightarrow> heap \<Rightarrow> merge_label \<Rightarrow> ident list \<Rightarrow>
     nfield \<Rightarrow> nfield \<Rightarrow> nfield \<Rightarrow> bool" where
  "field_merged ceq teq h ml names f1 f2 f \<longleftrightarrow>
    (\<exists>p cs1 cs2 hc.
      merged_value h ml names
        (field_value f1) (fm_priority (shared_into_inner (field_metadata f1)))
        (field_value f2) (fm_priority (shared_into_inner (field_metadata f2))) (field_value f) p
      \<and> shared_into_inner (field_metadata f) =
          merged_metadata teq (shared_into_inner (field_metadata f1)) (shared_into_inner (field_metadata f2)) p
      \<and> list_all2 (\<lambda>c c'. ctr_label c' = ctr_label c \<and> reverted h (ctr_contract c) (ctr_contract c'))
          (field_pending_contracts f1) cs1
      \<and> list_all2 (\<lambda>c c'. ctr_label c' = ctr_label c \<and> reverted h (ctr_contract c) (ctr_contract c'))
          (field_pending_contracts f2) cs2
      \<and> heap_le hc h \<and> field_pending_contracts f = combine_dedup (ceq hc) cs1 Map.empty cs2 Map.empty)"

lemma field_merged_mono:
  assumes "heap_le h h'" and "field_ok h f1" and "field_ok h f2" and "field_merged ceq teq h ml names f1 f2 f"
  shows "field_merged ceq teq h' ml names f1 f2 f"
proof -
  have ok: "\<forall>t. field_value f1 = Some t \<longrightarrow> value_ok h t" "\<forall>t. field_value f2 = Some t \<longrightarrow> value_ok h t"
    using assms(2,3) by (auto simp: field_ok_def)
  show ?thesis
    using assms(4) merged_value_mono [OF assms(1) ok] contracts_reverted_mono [OF assms(1)] heap_le_trans [OF _ assms(1)]
    unfolding field_merged_def by blast
qed

lemma merge_fields_ok:
  assumes "field_ok h f1" and "field_ok h f2"
  shows "\<exists>f h'. merge_fields ceq teq h ml f1 f2 names = Some (f, h') \<and> heap_le h h'
    \<and> field_merged ceq teq h' ml names f1 f2 f"
proof -
  let ?m1 = "shared_into_inner (field_metadata f1)" and ?m2 = "shared_into_inner (field_metadata f2)"
  have ok: "\<forall>t. field_value f1 = Some t \<longrightarrow> value_ok h t" "\<forall>t. field_value f2 = Some t \<longrightarrow> value_ok h t"
    using assms by (auto simp: field_ok_def)
  obtain v p h1 where v: "merge_field_values h ml (field_value f1) (fm_priority ?m1) (field_value f2) (fm_priority ?m2) names
        = Some ((v, p), h1)" "heap_le h h1"
      "merged_value h1 ml names (field_value f1) (fm_priority ?m1) (field_value f2) (fm_priority ?m2) v p"
    using merge_field_values_ok [OF ok] by blast
  have "list_all (\<lambda>c. value_ok h1 (ctr_contract c)) (field_pending_contracts f1)"
    using assms(1) v(2) by (auto simp: field_ok_def list_all_iff intro: value_ok_mono)
  from revert_contracts_ok [OF this] obtain cs1 h2 where c1: "revert_contracts h1 (field_pending_contracts f1) = Some (cs1, h2)"
      "heap_le h1 h2"
      "list_all2 (\<lambda>c c'. ctr_label c' = ctr_label c \<and> reverted h2 (ctr_contract c) (ctr_contract c')) (field_pending_contracts f1) cs1"
    by blast
  have le2: "heap_le h h2" using v(2) c1(2) heap_le_trans by blast
  have "list_all (\<lambda>c. value_ok h2 (ctr_contract c)) (field_pending_contracts f2)"
    using assms(2) le2 by (auto simp: field_ok_def list_all_iff intro: value_ok_mono)
  from revert_contracts_ok [OF this] obtain cs2 h3 where c2: "revert_contracts h2 (field_pending_contracts f2) = Some (cs2, h3)"
      "heap_le h2 h3"
      "list_all2 (\<lambda>c c'. ctr_label c' = ctr_label c \<and> reverted h3 (ctr_contract c) (ctr_contract c')) (field_pending_contracts f2) cs2"
    by blast
  have le13: "heap_le h1 h3" using c1(2) c2(2) heap_le_trans by blast
  have ok1: "\<forall>t. field_value f1 = Some t \<longrightarrow> value_ok h1 t" "\<forall>t. field_value f2 = Some t \<longrightarrow> value_ok h1 t"
    using ok value_ok_mono [OF v(2)] by auto
  have "field_merged ceq teq h3 ml names f1 f2
      (Field v (shared_of_metadata (merged_metadata teq ?m1 ?m2 p)) (combine_dedup (ceq h3) cs1 Map.empty cs2 Map.empty))"
    unfolding field_merged_def
    using merged_value_mono [OF le13 ok1 v(3)] contracts_reverted_mono [OF c2(2) c1(3)] c2(3) heap_le_refl [of h3]
    by (intro exI conjI) (assumption | simp)+
  moreover have "merge_fields ceq teq h ml f1 f2 names =
      Some (Field v (shared_of_metadata (merged_metadata teq ?m1 ?m2 p)) (combine_dedup (ceq h3) cs1 Map.empty cs2 Map.empty), h3)"
    using v(1) c1(1) c2(1) by (simp add: merge_fields_def merged_metadata_def Let_def)
  moreover have "heap_le h h3" using le2 c2(2) heap_le_trans by blast
  ultimately show ?thesis by blast
qed


section \<open>Merged records\<close>

lemma map_of_list_all2:
  "list_all2 (\<lambda>(x, f) (y, f'). y = x \<and> R f f') m m' \<Longrightarrow>
    rel_option R (map_of m x) (map_of m' x) \<and> map fst m' = map fst m"
  by (induction rule: list_all2_induct) auto

definition record_merged ::
    "(heap \<Rightarrow> env contract_eq) \<Rightarrow> (nickel_type \<Rightarrow> nickel_type \<Rightarrow> bool) \<Rightarrow> heap \<Rightarrow> merge_label \<Rightarrow>
     nrecord \<Rightarrow> nrecord \<Rightarrow> (ident, nfield) index_map \<Rightarrow> bool" where
  "record_merged ceq teq h ml r1 r2 m \<longleftrightarrow> im_wf m \<and>
    (\<exists>names. distinct names \<and> set names = fst ` set (record_fields r1) \<union> fst ` set (record_fields r2) \<and>
      (\<forall>x. case (map_of (record_fields r1) x, map_of (record_fields r2) x) of
             (None, None) \<Rightarrow> map_of m x = None
           | (Some f1, None) \<Rightarrow> (\<exists>f. map_of m x = Some f \<and> field_reverted h f1 f)
           | (None, Some f2) \<Rightarrow> (\<exists>f. map_of m x = Some f \<and> field_reverted h f2 f)
           | (Some f1, Some f2) \<Rightarrow> (\<exists>f. map_of m x = Some f \<and> field_merged ceq teq h ml names f1 f2 f)))"

lemma merge_center_ok:
  "im_wf center \<Longrightarrow> list_all (\<lambda>(x, f1, f2). field_ok h f1 \<and> field_ok h f2) center \<Longrightarrow> im_wf m \<Longrightarrow>
   \<exists>m' h'. merge_center ceq teq ml names center m h = Some (m', h') \<and> heap_le h h' \<and> im_wf m'
     \<and> (\<forall>x. case map_of center x of
           None \<Rightarrow> map_of m' x = map_of m x
         | Some (f1, f2) \<Rightarrow> (\<exists>f. map_of m' x = Some f \<and> field_merged ceq teq h' ml names f1 f2 f))"
proof (induction center arbitrary: m h)
  case (Cons c center)
  obtain x f1 f2 where c: "c = (x, f1, f2)" by (cases c)
  have ok: "field_ok h f1" "field_ok h f2" using Cons.prems(2) by (auto simp: c)
  obtain f h1 where f: "merge_fields ceq teq h ml f1 f2 names = Some (f, h1)" "heap_le h h1"
      "field_merged ceq teq h1 ml names f1 f2 f"
    using merge_fields_ok [OF ok] by blast
  have wf: "im_wf center" and new: "x \<notin> fst ` set center" using Cons.prems(1) by (auto simp: c im_wf_def)
  have "list_all (\<lambda>(x, f1, f2). field_ok h1 f1 \<and> field_ok h1 f2) center"
    using Cons.prems(2) f(2) by (auto simp: list_all_iff intro: field_ok_mono)
  from Cons.IH [OF wf this im_wf_insert [OF Cons.prems(3)]]
  obtain m' h' where m': "merge_center ceq teq ml names center (im_insert x f m) h1 = Some (m', h')" "heap_le h1 h'" "im_wf m'"
    "\<forall>y. case map_of center y of
           None \<Rightarrow> map_of m' y = map_of (im_insert x f m) y
         | Some (f1, f2) \<Rightarrow> (\<exists>f. map_of m' y = Some f \<and> field_merged ceq teq h' ml names f1 f2 f)"
    by blast
  have "map_of center x = None" using new by (simp add: map_of_eq_None_iff)
  then have x: "map_of m' x = Some f" using m'(4) [rule_format, of x] by simp
  have merged: "field_merged ceq teq h' ml names f1 f2 f"
    by (rule field_merged_mono [OF m'(2) field_ok_mono [OF f(2) ok(1)] field_ok_mono [OF f(2) ok(2)] f(3)])
  have all: "case map_of (c # center) y of
           None \<Rightarrow> map_of m' y = map_of m y
         | Some (f1, f2) \<Rightarrow> (\<exists>f. map_of m' y = Some f \<and> field_merged ceq teq h' ml names f1 f2 f)" for y
  proof (cases "y = x")
    case True
    then show ?thesis using x merged by (auto simp: c)
  next
    case False
    then show ?thesis using m'(4) [rule_format, of y] by (cases "map_of center y") (simp_all add: c)
  qed
  have run: "merge_center ceq teq ml names (c # center) m h = Some (m', h')" using f(1) m'(1) by (simp add: c)
  show ?case
    using run heap_le_trans [OF f(2) m'(2)] m'(3) all by (intro exI [of _ m'] exI [of _ h'] conjI allI)
qed simp

lemma split_fields_ok:
  assumes spec: "split_spec (map_of m1) (map_of m2) r"
    and ok1: "\<And>x f. map_of m1 x = Some f \<Longrightarrow> field_ok h f" and ok2: "\<And>x f. map_of m2 x = Some f \<Longrightarrow> field_ok h f"
  shows "list_all (\<lambda>(x, f). field_ok h f) (split_left r)" "list_all (\<lambda>(x, f). field_ok h f) (split_right r)"
    "list_all (\<lambda>(x, f1, f2). field_ok h f1 \<and> field_ok h f2) (split_center r)"
proof -
  have wf: "im_wf (split_left r)" "im_wf (split_right r)" "im_wf (split_center r)"
    and maps: "map_of (split_left r) = map_of m1 |` (- dom (map_of m2))"
      "map_of (split_right r) = map_of m2 |` (- dom (map_of m1))"
      "map_of (split_center r) = (\<lambda>k. case (map_of m1 k, map_of m2 k) of (Some v1, Some v2) \<Rightarrow> Some (v1, v2) | _ \<Rightarrow> None)"
    using spec by (auto simp: split_spec_def)
  show "list_all (\<lambda>(x, f). field_ok h f) (split_left r)" "list_all (\<lambda>(x, f). field_ok h f) (split_right r)"
    using ok1 ok2 by (auto simp: list_all_iff map_of_im_wf [OF wf(1)] map_of_im_wf [OF wf(2)] maps restrict_map_def
        split: if_splits)
  show "list_all (\<lambda>(x, f1, f2). field_ok h f1 \<and> field_ok h f2) (split_center r)"
    using ok1 ok2 by (auto simp: list_all_iff map_of_im_wf [OF wf(3)] maps split: option.splits)
qed


lemma split_keys:
  assumes spec: "split_spec (map_of m1) (map_of m2) r"
  shows "fst ` set (split_left r) = fst ` set m1 - fst ` set m2"
    and "fst ` set (split_right r) = fst ` set m2 - fst ` set m1"
    and "fst ` set (split_center r) = fst ` set m1 \<inter> fst ` set m2"
  using spec by (auto simp: split_spec_def restrict_map_def split: if_splits option.splits
      simp flip: dom_map_of_conv_image_fst)

lemma split_names:
  assumes spec: "split_spec (map_of m1) (map_of m2) r"
    and names: "names = map fst (split_left r) @ map fst (split_center r) @ map fst (split_right r)"
  shows "distinct names" and "set names = fst ` set m1 \<union> fst ` set m2"
proof -
  have "im_wf (split_left r)" "im_wf (split_center r)" "im_wf (split_right r)"
    using spec by (auto simp: split_spec_def)
  then show "distinct names" "set names = fst ` set m1 \<union> fst ` set m2"
    using split_keys [OF spec] by (auto simp: names im_wf_def)
qed

text \<open>The fields of one side only, reverted and collected: the map before the common fields are inserted.\<close>

lemma revert_sides_ok:
  assumes wf: "im_wf left" "im_wf right" and disj: "fst ` set left \<inter> fst ` set right = {}"
    and ok: "list_all (\<lambda>(x, f). field_ok h f) left" "list_all (\<lambda>(x, f). field_ok h f) right"
  shows "\<exists>left' h1 right' h2. revert_fields h left = Some (left', h1) \<and> revert_fields h1 right = Some (right', h2)
    \<and> heap_le h h2 \<and> im_wf (left' @ right') \<and> im_extend (im_extend [] left') right' = left' @ right'
    \<and> (\<forall>x. rel_option (field_reverted h2) (map_of left x) (map_of left' x)
         \<and> rel_option (field_reverted h2) (map_of right x) (map_of right' x))"
proof -
  obtain left' h1 where l: "revert_fields h left = Some (left', h1)" "heap_le h h1"
      "list_all2 (\<lambda>(x, f) (y, f'). y = x \<and> field_reverted h1 f f') left left'"
    using revert_fields_ok [OF ok(1)] by blast
  have "list_all (\<lambda>(x, f). field_ok h1 f) right"
    using ok(2) l(2) by (auto simp: list_all_iff intro: field_ok_mono)
  from revert_fields_ok [OF this] obtain right' h2 where r: "revert_fields h1 right = Some (right', h2)" "heap_le h1 h2"
      "list_all2 (\<lambda>(x, f) (y, f'). y = x \<and> field_reverted h2 f f') right right'"
    by blast
  have keys: "map fst left' = map fst left" "map fst right' = map fst right"
    using map_of_list_all2 [OF l(3)] map_of_list_all2 [OF r(3)] by auto
  have "set (map fst left) \<inter> set (map fst right) = {}" using disj by simp
  then have wf': "im_wf (left' @ right')"
    using wf unfolding im_wf_def map_append keys distinct_append by blast
  have "im_extend (im_extend [] left') right' = left' @ right'"
    using wf' im_extend_new [of "[]" left'] im_extend_new [of left' right'] by (simp add: im_wf_append)
  moreover have "rel_option (field_reverted h2) (map_of left x) (map_of left' x)" for x
    using map_of_list_all2 [OF l(3), of x] field_reverted_mono [OF r(2)] by (auto intro: option.rel_mono_strong)
  moreover have "rel_option (field_reverted h2) (map_of right x) (map_of right' x)" for x
    using map_of_list_all2 [OF r(3)] by auto
  ultimately show ?thesis using l(1) r(1) wf' heap_le_trans [OF l(2) r(2)] by blast
qed

lemma merge_records_ok:
  assumes sr: "swap_removal sr" and r1: "record_ok h r1" and r2: "record_ok h r2"
    and tails: "record_sealed_tail r1 = None" "record_sealed_tail r2 = None"
    and extra: "\<forall>l. mode = ContractMode l \<longrightarrow>
      attrs_open (record_attributes r2) \<or> fst ` set (record_fields r1) \<subseteq> fst ` set (record_fields r2)"
  shows "\<exists>m h'. merge_records sr ceq teq h r1 r2 mode =
      Some (Inr (Inr (TermV (RecRecord
        (RecordData m (attrs_combine (record_attributes r1) (record_attributes r2)) None) [] [] None True))), h')
    \<and> heap_le h h' \<and> record_merged ceq teq h' (mode_label mode) r1 r2 m"
proof -
  let ?m1 = "record_fields r1" and ?m2 = "record_fields r2"
  define r where "r = split_ref sr ?m1 ?m2"
  have spec: "split_spec (map_of ?m1) (map_of ?m2) r"
    using r1 r2 unfolding r_def by (intro swap_removal.split_ref_spec [OF sr]) (auto simp: record_ok_def record_wf_def)
  then have wfs: "im_wf (split_left r)" "im_wf (split_center r)" "im_wf (split_right r)"
    and maps: "map_of (split_left r) = map_of ?m1 |` (- dom (map_of ?m2))"
      "map_of (split_right r) = map_of ?m2 |` (- dom (map_of ?m1))"
      "map_of (split_center r) = (\<lambda>k. case (map_of ?m1 k, map_of ?m2 k) of (Some v1, Some v2) \<Rightarrow> Some (v1, v2) | _ \<Rightarrow> None)"
    by (auto simp: split_spec_def)
  have oks: "list_all (\<lambda>(x, f). field_ok h f) (split_left r)" "list_all (\<lambda>(x, f). field_ok h f) (split_right r)"
    "list_all (\<lambda>(x, f1, f2). field_ok h f1 \<and> field_ok h f2) (split_center r)"
    using split_fields_ok [OF spec, of h] r1 r2 by (auto simp: record_ok_def)
  define names where "names = map fst (split_left r) @ map fst (split_center r) @ map fst (split_right r)"
  note names = split_names [OF spec names_def]
  have "split_left r = []" if "fst ` set ?m1 \<subseteq> fst ` set ?m2"
    using split_keys(1) [OF spec] that by (simp add: Diff_eq_empty_iff [THEN iffD2])
  then have no_error:
    "\<not> (case mode of ContractMode _ \<Rightarrow> \<not> attrs_open (record_attributes r2) \<and> split_left r \<noteq> [] | _ \<Rightarrow> False)"
    using extra by (auto split: merge_mode.splits)
  have "fst ` set (split_left r) \<inter> fst ` set (split_right r) = {}" using split_keys [OF spec] by auto
  from revert_sides_ok [OF wfs(1,3) this oks(1,2)] obtain left' h1 right' h2 where sides:
    "revert_fields h (split_left r) = Some (left', h1)" "revert_fields h1 (split_right r) = Some (right', h2)"
    "heap_le h h2" "im_wf (left' @ right')" "im_extend (im_extend [] left') right' = left' @ right'"
    "\<And>x. rel_option (field_reverted h2) (map_of (split_left r) x) (map_of left' x)"
    "\<And>x. rel_option (field_reverted h2) (map_of (split_right r) x) (map_of right' x)"
    by blast
  have "list_all (\<lambda>(x, f1, f2). field_ok h2 f1 \<and> field_ok h2 f2) (split_center r)"
    using oks(3) sides(3) by (auto simp: list_all_iff intro: field_ok_mono)
  from merge_center_ok [OF wfs(2) this sides(4)]
  obtain m' h3 where c: "merge_center ceq teq (mode_label mode) names (split_center r) (left' @ right') h2 = Some (m', h3)"
      "heap_le h2 h3" "im_wf m'"
      "\<forall>x. case map_of (split_center r) x of
           None \<Rightarrow> map_of m' x = map_of (left' @ right') x
         | Some (f1, f2) \<Rightarrow> (\<exists>f. map_of m' x = Some f \<and> field_merged ceq teq h3 (mode_label mode) names f1 f2 f)"
    by blast
  have fields: "case (map_of ?m1 x, map_of ?m2 x) of
             (None, None) \<Rightarrow> map_of m' x = None
           | (Some f1, None) \<Rightarrow> (\<exists>f. map_of m' x = Some f \<and> field_reverted h3 f1 f)
           | (None, Some f2) \<Rightarrow> (\<exists>f. map_of m' x = Some f \<and> field_reverted h3 f2 f)
           | (Some f1, Some f2) \<Rightarrow> (\<exists>f. map_of m' x = Some f \<and> field_merged ceq teq h3 (mode_label mode) names f1 f2 f)" for x
    using c(4) [rule_format, of x] sides(6,7) [of x] field_reverted_mono [OF c(2)]
    by (cases "map_of ?m1 x"; cases "map_of ?m2 x")
      (auto simp: maps restrict_map_def map_add_def dom_def option_rel_Some1 split: option.splits)
  have "record_merged ceq teq h3 (mode_label mode) r1 r2 m'"
    unfolding record_merged_def using c(3) names fields by blast
  moreover have "merge_records sr ceq teq h r1 r2 mode =
      Some (Inr (Inr (TermV (RecRecord (RecordData m'
        (attrs_combine (record_attributes r1) (record_attributes r2)) None) [] [] None True))), h3)"
    unfolding merge_records_def tails Let_def r_def [symmetric] names_def [symmetric]
    using no_error sides(1,2,5) c(1) by (simp add: option_or_def record_new_def)
  ultimately show ?thesis using heap_le_trans [OF sides(3) c(2)] by blast
qed

end
