(* ===== verification/Fixpoint_Props.thy ===== *)
theory Fixpoint_Props
  imports Fixpoint Merge_Correct
begin

text \<open>
  What the evaluation of a recursive record builds: the recursive environment and the cached values
  of the fields' thunks.
\<close>

section \<open>Fields that can be patched\<close>

definition field_values :: "nfield \<Rightarrow> nickel_value list" where
  "field_values f = (case field_value f of None \<Rightarrow> [] | Some v \<Rightarrow> [v]) @ map ctr_contract (field_pending_contracts f)"

fun thunks :: "nickel_value list \<Rightarrow> addr list" where
  "thunks [] = []"
| "thunks (v # vs) = (case v of Thunk a \<Rightarrow> [a] | _ \<Rightarrow> []) @ thunks vs"

definition is_revertible :: "thunk_data \<Rightarrow> bool" where
  "is_revertible td = (case td_inner td of StandardThunk _ \<Rightarrow> False | RevertibleThunk _ _ _ \<Rightarrow> True)"

definition unbuilt :: "thunk_data \<Rightarrow> bool" where
  "unbuilt td \<longleftrightarrow> (\<exists>orig deps. td_inner td = RevertibleThunk orig None deps)"

definition revs :: "heap \<Rightarrow> nickel_value list \<Rightarrow> addr list" where
  "revs h vs = filter (\<lambda>a. is_revertible (h ! a)) (thunks vs)"

text \<open>
  Each value is a constant or a thunk of the heap; the revertible thunks are pairwise different
  cells without a cached value.
\<close>

definition patchable :: "heap \<Rightarrow> nickel_value list \<Rightarrow> bool" where
  "patchable h vs \<longleftrightarrow> (\<forall>v \<in> set vs. value_ok h v \<and> (is_constant v \<or> (\<exists>a. v = Thunk a)))
    \<and> distinct (revs h vs) \<and> (\<forall>a \<in> set (revs h vs). unbuilt (h ! a))"

text \<open>The cell of a patched thunk.\<close>

definition built :: "thunk_data \<Rightarrow> (ident \<times> addr) list \<Rightarrow> thunk_data" where
  "built td renv =
    (case td_inner td of
       StandardThunk _ \<Rightarrow> td
     | RevertibleThunk orig _ deps \<Rightarrow>
         td\<lparr>td_inner := RevertibleThunk orig (Some (orig\<lparr>clo_env :=
           clo_env orig ++ map_of (rev (filter (\<lambda>(x, _). case deps of Known d \<Rightarrow> x \<in> d | Unknown \<Rightarrow> True) renv))\<rparr>)) deps\<rparr>)"

lemma filter_True': "filter (\<lambda>(x, y). True) xs = xs"
  by (induction xs) auto

lemma env_extend_map_of: "env_extend e kvs = e ++ map_of (rev kvs)"
  by (induction kvs arbitrary: e) (auto simp: env_extend_def map_add_assoc [symmetric])

lemma filter_False': "filter (\<lambda>(x, y). False) xs = []"
  by (induction xs) auto

lemma td_init_cached_built:
  assumes "is_revertible td \<Longrightarrow> unbuilt td"
  shows "td_init_cached td renv = Some (built td renv)"
proof (cases "td_inner td")
  case (StandardThunk c)
  then show ?thesis by (simp add: td_init_cached_def built_def)
next
  case (RevertibleThunk orig cached deps)
  then have "cached = None" using assms by (simp add: unbuilt_def is_revertible_def)
  with RevertibleThunk show ?thesis
    by (cases deps) (auto simp: td_init_cached_def built_def assert_ok_def env_extend_map_of filter_True' filter_False')
qed

lemma is_revertible_built [simp]: "is_revertible (built td renv) \<longleftrightarrow> is_revertible td"
  by (auto simp: built_def is_revertible_def split: inner_thunk_data.split)

lemma built_standard: "\<not> is_revertible td \<Longrightarrow> built td renv = td"
  by (auto simp: built_def is_revertible_def split: inner_thunk_data.splits)

lemma td_closure_built: "td_closure (built td renv) \<noteq> None"
  by (auto simp: built_def td_closure_def split: inner_thunk_data.split)

section \<open>Patching\<close>

lemma patch_values_append:
  "patch_values h (vs @ ws) renv = do { h' \<leftarrow> patch_values h vs renv; patch_values h' ws renv }"
  by (induction vs arbitrary: h) (auto split: bind_split)

lemma patch_field_values: "patch_field h f renv = patch_values h (field_values f) renv"
  by (auto simp: patch_field_def field_values_def split: option.splits bind_split)

lemma patch_fields_values: "patch_fields h fs renv = patch_values h (concat (map field_values fs)) renv"
  by (induction fs arbitrary: h) (auto simp: patch_field_values patch_values_append split: bind_split)

lemma revs_cong: "(\<And>a. a \<in> set (thunks vs) \<Longrightarrow> is_revertible (h ! a) = is_revertible (h' ! a)) \<Longrightarrow> revs h vs = revs h' vs"
  unfolding revs_def by (rule filter_cong) simp_all

lemma patch_values_ok:
  assumes "patchable h vs"
  shows "\<exists>h'. patch_values h vs renv = Some h' \<and> length h' = length h
    \<and> (\<forall>a < length h. h' ! a = (if a \<in> set (thunks vs) then built (h ! a) renv else h ! a))"
  using assms
proof (induction vs arbitrary: h)
  case (Cons v vs)
  show ?case
  proof (cases v)
    case (Thunk a)
    have a: "a < length h" using Cons.prems by (simp add: patchable_def Thunk)
    define h1 where "h1 = h[a := built (h ! a) renv]"
    have unb: "is_revertible (h ! a) \<Longrightarrow> unbuilt (h ! a)"
      using Cons.prems by (simp add: patchable_def revs_def Thunk)
    have step: "patch_value h v renv = Some h1"
      using a td_init_cached_built [of "h ! a" renv, OF unb]
      by (simp add: Thunk patch_value_def thunk_build_cached_def h1_def)
    have revs: "revs h1 vs = revs h vs"
      by (rule revs_cong) (use a in \<open>auto simp: h1_def nth_list_update\<close>)
    have fresh: "a \<notin> set (revs h vs)" if "is_revertible (h ! a)"
      using Cons.prems that by (simp add: patchable_def revs_def Thunk)
    have cell: "h1 ! b = h ! b" if "b \<in> set (revs h vs)" for b
      using that fresh built_standard [of "h ! a" renv] a
      by (cases "b = a") (auto simp: h1_def revs_def)
    have tl: "distinct (revs h vs)" "\<forall>b \<in> set (revs h vs). unbuilt (h ! b)"
      using Cons.prems by (auto simp: patchable_def revs_def Thunk split: if_splits)
    have val: "value_ok h1 w" if "value_ok h w" for w using that by (cases w) (auto simp: h1_def)
    have "patchable h1 vs"
      using Cons.prems tl cell revs val by (auto simp: patchable_def)
    from Cons.IH [OF this] obtain h' where h': "patch_values h1 vs renv = Some h'" "length h' = length h1"
      "\<forall>b < length h1. h' ! b = (if b \<in> set (thunks vs) then built (h1 ! b) renv else h1 ! b)" by blast
    have same: "built (built td renv) renv = built td renv" for td by (auto simp: built_def split: inner_thunk_data.split)
    have "h' ! b = (if b \<in> set (thunks (v # vs)) then built (h ! b) renv else h ! b)" if "b < length h" for b
      using h'(3) that a same by (cases "b = a") (auto simp: Thunk h1_def)
    then show ?thesis using step h' by (simp add: h1_def)
  next
    case (TermV t)
    then show ?thesis using Cons.prems by (simp add: patchable_def)
  qed (use Cons in \<open>auto simp: patchable_def revs_def patch_value_def assert_ok_def\<close>)
qed simp

section \<open>The recursive environment\<close>

text \<open>
  What the recursive environment binds a field to: a new thunk holding the field's value with the
  pending contracts applied, or the error of a field without definition. A constant is first put in
  a thunk of its own.
\<close>

definition binding_ok :: "heap \<Rightarrow> heap \<Rightarrow> ident \<times> nfield \<Rightarrow> ident \<times> addr \<Rightarrow> bool" where
  "binding_ok h h' b xa \<longleftrightarrow>
    (let (x, fld) = b; (y, a) = xa in
     y = x \<and> length h \<le> a \<and> a < length h'
     \<and> (case field_value fld of
          None \<Rightarrow> td_closure (h' ! a) = Some (closure_of_value
            (TermV (RuntimeError (MissingFieldDefError x (shared_into_inner (field_metadata fld))))))
        | Some v \<Rightarrow> (\<exists>i < length h'. td_closure (h' ! a) =
              Some (closure_of_value (contract_apply_all (Thunk i) (field_pending_contracts fld)))
            \<and> (v = Thunk i \<or> is_constant v \<and> length h \<le> i \<and> td_closure (h' ! i) = Some (closure_of_value v)))))"

lemma cache_add_normal:
  "cache_add h c Normal = (length h, h @ [td_new c])"
  by (simp add: cache_add_def thunk_new_def heap_alloc_def)

lemma td_closure_new [simp]: "td_closure (td_new c) = Some c"
  by (simp add: td_closure_def td_new_def)

lemma binding_ok_mono: "binding_ok h h1 b xa \<Longrightarrow> heap_le h1 h2 \<Longrightarrow> binding_ok h h2 b xa"
  by (auto simp: binding_ok_def heap_le_def nth_append Let_def split: prod.splits option.splits intro: less_le_trans)

lemma binding_ok_later: "binding_ok h1 h2 b xa \<Longrightarrow> heap_le h h1 \<Longrightarrow> binding_ok h h2 b xa"
  by (fastforce simp: binding_ok_def heap_le_def Let_def split: prod.splits option.splits)

lemma rec_env_binding_ok:
  assumes "\<forall>v \<in> set (field_values fld). value_ok h v \<and> (is_constant v \<or> (\<exists>a. v = Thunk a))"
  shows "\<exists>xa h'. rec_env_binding h (x, fld) = Some (xa, h') \<and> heap_le h h' \<and> binding_ok h h' (x, fld) xa"
proof (cases "field_value fld")
  case None
  then show ?thesis by (simp add: rec_env_binding_def cache_add_normal binding_ok_def)
next
  case (Some v)
  then have v: "value_ok h v" "is_constant v \<or> (\<exists>a. v = Thunk a)" using assms by (auto simp: field_values_def)
  show ?thesis
  proof (cases "is_constant v")
    case True
    then have "rec_env_binding h (x, fld) = Some ((x, Suc (length h)), h @ [td_new (closure_of_value v)]
        @ [td_new (closure_of_value (contract_apply_all (Thunk (length h)) (field_pending_contracts fld)))])"
      using Some by (cases v) (simp_all add: rec_env_binding_def cache_add_normal assert_ok_def)
    moreover have "binding_ok h (h @ [td_new (closure_of_value v)]
        @ [td_new (closure_of_value (contract_apply_all (Thunk (length h)) (field_pending_contracts fld)))]) (x, fld) (x, Suc (length h))"
      using Some True by (simp add: binding_ok_def nth_append) (rule exI [of _ "length h"], simp)
    ultimately show ?thesis by (auto simp: heap_le_def)
  next
    case False
    then obtain a where "v = Thunk a" using v by blast
    then show ?thesis using Some v by (simp add: rec_env_binding_def cache_add_normal binding_ok_def heap_le_def)
  qed
qed

lemma rec_env_ok:
  assumes "\<forall>v \<in> set (concat (map (field_values \<circ> snd) bs)). value_ok h v \<and> (is_constant v \<or> (\<exists>a. v = Thunk a))"
  shows "\<exists>renv h'. rec_env h bs = Some (renv, h') \<and> heap_le h h' \<and> list_all2 (binding_ok h h') bs renv"
  using assms
proof (induction bs arbitrary: h)
  case Nil
  then show ?case by (simp add: rec_env_def)
next
  case (Cons b bs)
  obtain x fld where b: "b = (x, fld)" by (cases b)
  obtain xa h1 where 1: "rec_env_binding h b = Some (xa, h1)" "heap_le h h1" "binding_ok h h1 b xa"
    using rec_env_binding_ok [of fld h x] Cons.prems by (auto simp: b)
  have "\<forall>v \<in> set (concat (map (field_values \<circ> snd) bs)). value_ok h1 v \<and> (is_constant v \<or> (\<exists>a. v = Thunk a))"
    using Cons.prems value_ok_mono [OF 1(2)] by auto
  from Cons.IH [OF this] obtain renv h2 where 2: "rec_env h1 bs = Some (renv, h2)" "heap_le h1 h2"
    "list_all2 (binding_ok h1 h2) bs renv" by blast
  have "list_all2 (binding_ok h h2) bs renv"
    using 2(3) binding_ok_later [OF _ 1(2)] by (rule list_all2_mono)
  then show ?case using 1 2 binding_ok_mono [OF 1(3) 2(2)] heap_le_trans [OF 1(2) 2(2)]
    by (simp add: rec_env_def)
qed

lemma thunks_iff: "a \<in> set (thunks vs) \<longleftrightarrow> Thunk a \<in> set vs"
  by (induction vs) (auto split: nickel_value.split)

lemma patchable_thunks: "patchable h vs \<Longrightarrow> a \<in> set (thunks vs) \<Longrightarrow> a < length h"
  by (auto simp: patchable_def thunks_iff)

lemma patchable_mono:
  assumes "patchable h vs" "heap_le h h'"
  shows "patchable h' vs"
proof -
  have "is_revertible (h' ! a) = is_revertible (h ! a)" if "a \<in> set (thunks vs)" for a
    using heap_le_nth [OF assms(2) patchable_thunks [OF assms(1) that]] by simp
  then have "revs h' vs = revs h vs" by (rule revs_cong)
  moreover have "h' ! a = h ! a" if "a \<in> set (revs h vs)" for a
    using that patchable_thunks [OF assms(1)] heap_le_nth [OF assms(2)] by (auto simp: revs_def)
  ultimately show ?thesis using assms value_ok_mono [OF assms(2)] by (simp add: patchable_def)
qed


abbreviation record_values :: "nrecord \<Rightarrow> nickel_value list" where
  "record_values r \<equiv> concat (map (field_values \<circ> snd) (record_fields r))"

lemma patched_record:
  assumes "patchable h (record_values r)"
  shows "\<exists>renv h'. eval_rec_record h r [] deps True e = Some (record_value r, h') \<and> length h \<le> length h'
    \<and> list_all2 (binding_ok h h') (record_fields r) renv
    \<and> (\<forall>a < length h. h' ! a = (if Thunk a \<in> set (record_values r) then built (h ! a) renv else h ! a))"
proof -
  let ?vs = "record_values r"
  obtain renv h2 where 2: "rec_env h (record_fields r) = Some (renv, h2)" "heap_le h h2"
    "list_all2 (binding_ok h h2) (record_fields r) renv"
    using rec_env_ok assms unfolding patchable_def by blast
  obtain h3 where 3: "patch_values h2 ?vs renv = Some h3" "length h3 = length h2"
    "\<forall>a < length h2. h3 ! a = (if a \<in> set (thunks ?vs) then built (h2 ! a) renv else h2 ! a)"
    using patch_values_ok [OF patchable_mono [OF assms 2(2)]] by blast
  have "h3 ! a = h2 ! a" if "length h \<le> a" "a < length h2" for a
    using 3(3) patchable_thunks [OF assms, of a] that by auto
  then have cells: "binding_ok h h3 b xa" if "binding_ok h h2 b xa" for b xa
    using that 3(2) by (fastforce simp: binding_ok_def split: option.splits)
  have env: "list_all2 (binding_ok h h3) (record_fields r) renv" using 2(3) cells by (rule list_all2_mono)
  have "h3 ! a = (if Thunk a \<in> set ?vs then built (h ! a) renv else h ! a)" if "a < length h" for a
    using 3(3) heap_le_nth [OF 2(2) that] by (simp add: thunks_iff)
  then show ?thesis using 2 3 env
    by (auto simp: eval_rec_record_def patch_fields_values heap_le_def)
qed

text \<open>
  C8. Evaluating a closurized recursive record without dynamic fields always returns the record
  itself. It allocates one binding per field, in the order of the fields: a new thunk with the
  field's value under its pending contracts, or the missing-definition error. Each revertible thunk
  of a field value or of a pending contract gets the cached value that is its original expression in
  its own environment extended by the bindings of the fields it depends on (all of them when the
  dependencies are unknown); every other cell of the heap is as before.
\<close>

theorem rec_record_fixpoint:
  assumes "patchable h (record_values r)"
  shows "\<exists>renv h'. eval_rec_record h r [] deps True e = Some (record_value r, h') \<and> length h \<le> length h'
    \<and> list_all2 (binding_ok h h') (record_fields r) renv
    \<and> (\<forall>a < length h. h' ! a = (if Thunk a \<in> set (record_values r) then built (h ! a) renv else h ! a))"
  using assms by (rule patched_record)

text \<open>The record \<open>{x = 1, y = x, z}\<close> whose field \<open>y\<close> is a revertible thunk that depends on \<open>x\<close>.\<close>

definition xyz_record :: "nickel_value \<Rightarrow> nrecord" where
  "xyz_record y = RecordData [(''x'', field_of_value (Number 1)), (''y'', field_of_value y),
     (''z'', Field None None [])] attrs_new None"

definition xyz_heap :: heap where
  "xyz_heap = [td_new_rev (closure_of_value (TermV (Var ''x''))) (Known {''x''})]"

theorem rec_record_fixpoint_witness:
  "\<exists>renv h'. eval_rec_record xyz_heap (xyz_record (Thunk 0)) [] None True Map.empty = Some (record_value (xyz_record (Thunk 0)), h')
    \<and> list_all2 (binding_ok xyz_heap h') (record_fields (xyz_record (Thunk 0))) renv
    \<and> h' ! 0 = built (xyz_heap ! 0) renv"
proof -
  have "patchable xyz_heap (record_values (xyz_record (Thunk 0)))"
    by (simp add: patchable_def xyz_record_def field_values_def field_of_value_def xyz_heap_def revs_def is_revertible_def
        unbuilt_def td_new_rev_def)
  from rec_record_fixpoint [OF this, of None Map.empty] obtain renv h' where
    "eval_rec_record xyz_heap (xyz_record (Thunk 0)) [] None True Map.empty = Some (record_value (xyz_record (Thunk 0)), h')"
    "list_all2 (binding_ok xyz_heap h') (record_fields (xyz_record (Thunk 0))) renv"
    "\<forall>a < length xyz_heap. h' ! a = (if Thunk a \<in> set (record_values (xyz_record (Thunk 0))) then built (xyz_heap ! a) renv else xyz_heap ! a)"
    by blast
  then show ?thesis by (auto simp: xyz_heap_def xyz_record_def field_values_def field_of_value_def)
qed

section \<open>Closurization of a record literal\<close>

text \<open>
  The values of a literal as the parser and the transformations leave them: no thunk, and no
  generated variable outside of the environment.
\<close>

definition literal :: "nickel_value \<Rightarrow> bool" where
  "literal v \<longleftrightarrow> (\<forall>a. v \<noteq> Thunk a) \<and> (\<forall>x. v = TermV (Var x) \<longrightarrow> \<not> is_generated x)"

definition fresh_values :: "heap \<Rightarrow> heap \<Rightarrow> nickel_value list \<Rightarrow> bool" where
  "fresh_values h h' vs \<longleftrightarrow> heap_le h h'
    \<and> (\<forall>v \<in> set vs. is_constant v \<or> (\<exists>a. v = Thunk a \<and> length h \<le> a \<and> a < length h'))
    \<and> distinct (thunks vs) \<and> (\<forall>a \<in> set (thunks vs). is_revertible (h' ! a) \<longrightarrow> unbuilt (h' ! a))"

lemma thunks_append [simp]: "thunks (vs @ ws) = thunks vs @ thunks ws"
  by (induction vs) simp_all

lemma fresh_thunk:
  assumes "fresh_values h h' vs" "a \<in> set (thunks vs)"
  shows "length h \<le> a \<and> a < length h'"
proof -
  have "\<not> is_constant (Thunk a)" by simp
  then show ?thesis using assms unfolding fresh_values_def thunks_iff by blast
qed

lemma fresh_append:
  assumes "fresh_values h h1 vs" "fresh_values h1 h2 ws"
  shows "fresh_values h h2 (vs @ ws)" "fresh_values h h2 (ws @ vs)"
proof -
  have le: "heap_le h h1" "heap_le h1 h2" and le': "heap_le h h2"
    using assms heap_le_trans by (auto simp: fresh_values_def)
  have old: "h2 ! a = h1 ! a" if "a \<in> set (thunks vs)" for a
    using fresh_thunk [OF assms(1) that] heap_le_nth [OF le(2)] by auto
  have "set (thunks vs) \<inter> set (thunks ws) = {}"
    using fresh_thunk [OF assms(1)] fresh_thunk [OF assms(2)] by fastforce
  then show "fresh_values h h2 (vs @ ws)" "fresh_values h h2 (ws @ vs)"
    using assms le le' old by (fastforce simp: fresh_values_def heap_le_def)+
qed

lemma is_constant_value_ok: "is_constant v \<Longrightarrow> value_ok h v"
  by (cases v) simp_all

lemma fresh_patchable: "fresh_values h h' vs \<Longrightarrow> patchable h' vs"
  by (fastforce simp: fresh_values_def patchable_def revs_def intro: is_constant_value_ok)

lemma cache_add_unbuilt:
  "\<exists>td. cache_add h c bty = (length h, h @ [td]) \<and> (is_revertible td \<longrightarrow> unbuilt td)"
  by (cases bty) (auto simp: cache_add_def thunk_new_def thunk_new_rev_def heap_alloc_def td_new_def td_new_rev_def
      unbuilt_def is_revertible_def)

lemma closurize_literal:
  assumes "literal v"
  shows "\<exists>v' h'. closurize_as_btype h v e bty = Some (v', h') \<and> fresh_values h h' [v']"
proof (cases "is_constant v")
  case True
  then show ?thesis by (cases v) (auto simp: closurize_as_btype_def fresh_values_def)
next
  case False
  obtain td where add: "cache_add h \<lparr>clo_value = v, clo_env = e\<rparr> bty = (length h, h @ [td])" "is_revertible td \<longrightarrow> unbuilt td"
    using cache_add_unbuilt by blast
  have "closurize_as_btype h v e bty = Some (Thunk (length h), h @ [td])"
  proof (cases v)
    case (TermV t)
    then show ?thesis using assms add(1) by (cases t) (auto simp: closurize_as_btype_def literal_def)
  qed (use False assms add(1) in \<open>auto simp: closurize_as_btype_def literal_def\<close>)
  then show ?thesis using add(2) by (simp add: fresh_values_def)
qed

lemma map_heap_fresh:
  assumes "\<And>h x. x \<in> set xs \<Longrightarrow> \<exists>y h'. f h x = Some (y, h') \<and> fresh_values h h' (vals y) \<and> P x y"
  shows "\<exists>ys h'. map_heap f h xs = Some (ys, h') \<and> fresh_values h h' (concat (map vals ys)) \<and> list_all2 P xs ys"
  using assms
proof (induction xs arbitrary: h)
  case Nil
  then show ?case by (simp add: fresh_values_def)
next
  case (Cons x xs)
  obtain y h1 where 1: "f h x = Some (y, h1)" "fresh_values h h1 (vals y)" "P x y" using Cons.prems [of x h] by auto
  obtain ys h2 where 2: "map_heap f h1 xs = Some (ys, h2)" "fresh_values h1 h2 (concat (map vals ys))" "list_all2 P xs ys"
    using Cons.IH [of h1] Cons.prems by auto
  then show ?case using 1 fresh_append(1) [OF 1(2) 2(2)] by simp
qed

lemma closurize_contracts_literal:
  assumes "list_all (\<lambda>c. literal (ctr_contract c)) cs"
  shows "\<exists>cs' h'. closurize_contracts h cs e bty = Some (cs', h') \<and> fresh_values h h' (concat (map (\<lambda>c. [ctr_contract c]) cs'))"
proof -
  have "\<exists>y h'. closurize_contract h c e bty = Some (y, h') \<and> fresh_values h h' [ctr_contract y] \<and> ctr_label y = ctr_label c"
    if "c \<in> set cs" for h c
  proof -
    have "literal (ctr_contract c)" using assms that by (auto simp: list_all_iff)
    then obtain v h' where "closurize_as_btype h (ctr_contract c) e bty = Some (v, h')" "fresh_values h h' [v]"
      using closurize_literal by blast
    then show ?thesis by (simp add: closurize_contract_def map_contract_def)
  qed
  from map_heap_fresh [where f = "\<lambda>h c. closurize_contract h c e bty" and vals = "\<lambda>c. [ctr_contract c]"
      and P = "\<lambda>c y. ctr_label y = ctr_label c", OF this]
  show ?thesis unfolding closurize_contracts_def by blast
qed

lemma closurize_field_fresh:
  assumes "list_all literal (field_values fld)"
  shows "\<exists>fld' h'. closurize_field h fld e bty = Some (fld', h') \<and> fresh_values h h' (field_values fld')
    \<and> field_metadata fld' = field_metadata fld"
proof -
  have "list_all (\<lambda>c. literal (ctr_contract c)) (field_pending_contracts fld)"
    using assms by (auto simp: field_values_def list_all_iff)
  then obtain cs h1 where 1: "closurize_contracts h (field_pending_contracts fld) e bty = Some (cs, h1)"
    "fresh_values h h1 (concat (map (\<lambda>c. [ctr_contract c]) cs))" using closurize_contracts_literal by blast
  obtain v h2 where 2: "closurize_option h1 (field_value fld) e bty = Some (v, h2)"
    "fresh_values h1 h2 (case v of None \<Rightarrow> [] | Some v \<Rightarrow> [v])"
  proof (cases "field_value fld")
    case None
    then show ?thesis using that by (simp add: fresh_values_def)
  next
    case (Some w)
    then show ?thesis using that closurize_literal [of w h1 e bty] assms by (auto simp: field_values_def)
  qed
  then show ?thesis using 1 fresh_append(2) [OF 1(2) 2(2)]
    by (simp add: closurize_field_def field_values_def concat_map_singleton)
qed

text \<open>The fields of a record, with a binding type for each name.\<close>

abbreviation same_shape :: "(ident \<times> nfield) list \<Rightarrow> (ident \<times> nfield) list \<Rightarrow> bool" where
  "same_shape \<equiv> list_all2 (\<lambda>b b'. fst b' = fst b \<and> field_metadata (snd b') = field_metadata (snd b))"

lemma closurize_fields_fresh:
  assumes "list_all literal (concat (map (field_values \<circ> snd) bs))"
  shows "\<exists>flds h'. map_heap (\<lambda>h (x, fld). do { (fld', h') \<leftarrow> closurize_field h fld e (bty x); Some ((x, fld'), h') }) h bs
      = Some (flds, h')
    \<and> fresh_values h h' (concat (map (field_values \<circ> snd) flds)) \<and> same_shape bs flds"
proof (rule map_heap_fresh)
  fix h b
  assume "b \<in> set bs"
  obtain x fld where b: "b = (x, fld)" by (cases b)
  then have "list_all literal (field_values fld)" using assms \<open>b \<in> set bs\<close> by (force simp: list_all_iff)
  then obtain fld' h' where "closurize_field h fld e (bty x) = Some (fld', h')" "fresh_values h h' (field_values fld')"
    "field_metadata fld' = field_metadata fld" using closurize_field_fresh by blast
  then show "\<exists>y h'. (case b of (x, fld) \<Rightarrow> do { (fld', h') \<leftarrow> closurize_field h fld e (bty x); Some ((x, fld'), h') }) = Some (y, h')
      \<and> fresh_values h h' ((field_values \<circ> snd) y) \<and> fst y = fst b \<and> field_metadata (snd y) = field_metadata (snd b)"
    by (simp add: b)
qed

lemma closurize_record_data_literal:
  assumes "list_all literal (record_values r)"
  shows "\<exists>r' h'. closurize_record_data h r e bty = Some (r', h')"
proof -
  obtain flds h' where "map_heap (\<lambda>h (x, fld). do { (fld', h') \<leftarrow> closurize_field h fld e bty; Some ((x, fld'), h') }) h
      (record_fields r) = Some (flds, h')"
    using closurize_fields_fresh [OF assms, where bty = "\<lambda>_. bty"] by blast
  then show ?thesis by (simp add: closurize_record_data_def)
qed

lemma closurize_rec_record_fresh:
  assumes "list_all literal (record_values r)"
  shows "\<exists>flds h'. closurize_rec_record h r [] deps e =
      Some ((RecordData flds (record_attributes r) (record_sealed_tail r), []), h')
    \<and> fresh_values h h' (concat (map (field_values \<circ> snd) flds)) \<and> same_shape (record_fields r) flds"
proof -
  let ?bty = "\<lambda>x. mk_binding_type (case deps of None \<Rightarrow> None | Some d \<Rightarrow> map_of (stat_fields d) x)"
  obtain flds h' where "map_heap (\<lambda>h (x, fld). do { (fld', h') \<leftarrow> closurize_field h fld e (?bty x); Some ((x, fld'), h') })
      h (record_fields r) = Some (flds, h')" "fresh_values h h' (concat (map (field_values \<circ> snd) flds))"
    "same_shape (record_fields r) flds"
    using closurize_fields_fresh [OF assms, where bty = ?bty] by blast
  then show ?thesis by (simp add: closurize_rec_record_def)
qed

lemma literal_record:
  assumes "list_all literal (record_values r)"
  shows "\<exists>flds h'. eval_rec_record h r [] deps False e =
      Some (record_value (RecordData flds (record_attributes r) (record_sealed_tail r)), h')
    \<and> same_shape (record_fields r) flds
    \<and> heap_le h h'
    \<and> (\<forall>v \<in> set (concat (map (field_values \<circ> snd) flds)).
        is_constant v \<or> (\<exists>a. v = Thunk a \<and> length h \<le> a \<and> thunk_get_owned h' a \<noteq> None))"
proof -
  obtain flds h1 where 1: "closurize_rec_record h r [] deps e =
      Some ((RecordData flds (record_attributes r) (record_sealed_tail r), []), h1)"
    "fresh_values h h1 (concat (map (field_values \<circ> snd) flds))"
    "same_shape (record_fields r) flds"
    using closurize_rec_record_fresh [OF assms] by blast
  let ?r = "RecordData flds (record_attributes r) (record_sealed_tail r)" and ?vs = "concat (map (field_values \<circ> snd) flds)"
  obtain renv h2 where 2: "eval_rec_record h1 ?r [] deps True e = Some (record_value ?r, h2)" "length h1 \<le> length h2"
    "\<forall>a < length h1. h2 ! a = (if Thunk a \<in> set ?vs then built (h1 ! a) renv else h1 ! a)"
    using patched_record [of h1 ?r deps e] fresh_patchable [OF 1(2)] by auto
  have le: "heap_le h h1" using 1(2) by (simp add: fresh_values_def)
  have "h2 ! a = h ! a" if "a < length h" for a
    using 2(3) heap_le_nth [OF le that] fresh_thunk [OF 1(2), of a] that by (auto simp: thunks_iff)
  then have "heap_le h h2"
    using le 2(2) unfolding heap_le_iff by (auto dest: le_trans)
  moreover have "thunk_get_owned h2 a \<noteq> None" if "Thunk a \<in> set ?vs" for a
    using fresh_thunk [OF 1(2), of a] 2(2,3) that td_closure_built [of "h1 ! a" renv]
    by (auto simp: thunks_iff thunk_get_owned_def)
  moreover have "eval_rec_record h r [] deps False e = Some (record_value ?r, h2)"
    using 1(1) 2(1) by (simp add: eval_rec_record_def)
  ultimately show ?thesis using 1(2,3) unfolding fresh_values_def by blast
qed



end
