(* ===== verification/Heap_Growth.thy ===== *)
theory Heap_Growth
  imports Eval_Machine Fixpoint_Props
begin

text \<open>
  How operations change the heap. The locale \<open>heap_growth\<close> is the contract of a relation between the
  heap before and after: reflexive, transitive, and it allows the allocation of a thunk that is not
  black-holed and the change of a cell that keeps its state. Everything that closurizes values or
  evaluates records satisfies every such relation. The instance here is \<open>same_holes\<close>, the black holes are
  the same; \<open>Machine_Safety\<close> extends the contract for merging, which may copy a black-holed thunk.
\<close>

section \<open>The contract\<close>

locale heap_growth =
  fixes R :: "heap \<Rightarrow> heap \<Rightarrow> bool"
  assumes refl [simp, intro]: "R h h"
    and trans: "R h1 h2 \<Longrightarrow> R h2 h3 \<Longrightarrow> R h1 h3"
    and alloc: "td_state td \<noteq> Blackholed \<Longrightarrow> R h (h @ [td])"
    and change: "a < length h \<Longrightarrow> td_state td = td_state (h ! a) \<Longrightarrow> R h (h[a := td])"
begin

lemma cache_add_R: "cache_add h c bty = (a, h') \<Longrightarrow> R h h'"
  by (auto simp: cache_add_def thunk_new_def thunk_new_rev_def heap_alloc_def td_new_def td_new_rev_def
      intro!: alloc split: binding_type.splits if_splits)

lemma closurize_as_btype_R: "closurize_as_btype h v e bty = Some (v', h') \<Longrightarrow> R h h'"
proof -
  assume run: "closurize_as_btype h v e bty = Some (v', h')"
  obtain a h1 where add: "cache_add h \<lparr>clo_value = v, clo_env = e\<rparr> bty = (a, h1)"
    by (cases "cache_add h \<lparr>clo_value = v, clo_env = e\<rparr> bty")
  have "h' = h \<or> h' = h1"
    using run add by (auto simp: closurize_as_btype_def assert_ok_bind Let_def
        split: if_splits nickel_value.splits nickel_term.splits option.splits bind_splits)
  then show ?thesis using cache_add_R [OF add] by auto
qed

lemma closurize_R: "closurize h v e = Some (v', h') \<Longrightarrow> R h h'"
  unfolding closurize_def by (rule closurize_as_btype_R)

lemma map_heap_R:
  assumes step: "\<And>h x y h'. f h x = Some (y, h') \<Longrightarrow> R h h'"
  shows "map_heap f h xs = Some (ys, h') \<Longrightarrow> R h h'"
proof (induction xs arbitrary: h ys)
  case (Cons x xs)
  then obtain y h1 ys' where "f h x = Some (y, h1)" "map_heap f h1 xs = Some (ys', h')"
    by (auto split: bind_splits)
  then show ?case using Cons.IH step trans by blast
qed simp

lemma closurize_contracts_R: "closurize_contracts h cs e bty = Some (cs', h') \<Longrightarrow> R h h'"
  unfolding closurize_contracts_def
  by (rule map_heap_R) (auto simp: closurize_contract_def split: bind_splits dest: closurize_as_btype_R)

lemma closurize_option_R: "closurize_option h v e bty = Some (v', h') \<Longrightarrow> R h h'"
  by (cases v) (auto split: bind_splits dest: closurize_as_btype_R)

lemma closurize_field_R: "closurize_field h fld e bty = Some (fld', h') \<Longrightarrow> R h h'"
  by (auto simp: closurize_field_def split: bind_splits dest!: closurize_contracts_R closurize_option_R intro: trans)

lemma closurize_record_data_R: "closurize_record_data h r e bty = Some (r', h') \<Longrightarrow> R h h'"
  unfolding closurize_record_data_def
  by (auto split: bind_splits elim!: map_heap_R [rotated] dest: closurize_field_R)

lemma closurize_rec_record_R:
  assumes "closurize_rec_record h r dyns deps e = Some (x, h')"
  shows "R h h'"
proof -
  let ?f = "\<lambda>h (x, fld). do {
         let field_deps = (case deps of None \<Rightarrow> None | Some d \<Rightarrow> map_of (stat_fields d) x);
         (fld', h') \<leftarrow> closurize_field h fld e (mk_binding_type field_deps);
         Some ((x, fld'), h') }"
  let ?g = "\<lambda>h (i, id_t, fld). do {
         let field_deps = (case deps of None \<Rightarrow> None
           | Some d \<Rightarrow> if i < length (dyn_fields d) then Some (dyn_fields d ! i) else None);
         (id_t', h') \<leftarrow> closurize h id_t e;
         (fld', h'') \<leftarrow> closurize_field h' fld e (mk_binding_type field_deps);
         Some ((id_t', fld'), h'') }"
  obtain flds h1 dyns' where run: "map_heap ?f h (record_fields r) = Some (flds, h1)" "map_heap ?g h1 (enumerate 0 dyns) = Some (dyns', h')"
    using assms unfolding closurize_rec_record_def by (auto split: bind_splits)
  have f: "?f h x = Some (y, h') \<Longrightarrow> R h h'" for h x y h'
    by (auto split: bind_splits prod.splits dest: closurize_field_R)
  have g: "?g h x = Some (y, h') \<Longrightarrow> R h h'" for h x y h'
    by (auto simp: Let_def split: bind_splits prod.splits dest!: closurize_field_R closurize_R intro: trans)
  have "R h h1" by (rule map_heap_R [OF _ run(1)]) (erule f)
  moreover have "R h1 h'" by (rule map_heap_R [OF _ run(2)]) (erule g)
  ultimately show ?thesis by (rule trans)
qed

lemma eval_closurize_R: "eval_closurize h v e = Some (v', h') \<Longrightarrow> R h h'"
proof (cases v)
  case (ArrayV d)
  assume run: "eval_closurize h v e = Some (v', h')"
  show ?thesis
  proof (cases d)
    case (Alloc vc)
    then obtain vs' h1 cs' where a: "map_heap (\<lambda>h t. closurize h t e) h (fst vc) = Some (vs', h1)"
      "closurize_contracts h1 (snd vc) e Normal = Some (cs', h')"
      using run ArrayV by (cases vc) (auto simp: eval_closurize_def split: bind_splits)
    have "R h h1" by (rule map_heap_R [OF _ a(1)]) (erule closurize_R)
    then show ?thesis using closurize_contracts_R [OF a(2)] by (rule trans)
  qed (use run ArrayV in \<open>auto simp: eval_closurize_def\<close>)
next
  case (RecordV d)
  assume "eval_closurize h v e = Some (v', h')"
  with RecordV show ?thesis
    by (cases d) (auto simp: eval_closurize_def split: bind_splits dest: closurize_record_data_R)
qed (auto simp: eval_closurize_def split: bind_splits dest: closurize_option_R)

subsection \<open>Recursive records\<close>

lemma patch_value_R: "patch_value h v renv = Some h' \<Longrightarrow> R h h'"
proof (cases v)
  case (Thunk a)
  assume "patch_value h v renv = Some h'"
  then obtain td where "a < length h" "td_init_cached (h ! a) renv = Some td" "h' = h[a := td]"
    using Thunk by (auto simp: patch_value_def thunk_build_cached_def heap_read_Some_iff split: bind_splits)
  moreover from this(2) have "td_state td = td_state (h ! a)"
    by (auto simp: td_init_cached_def assert_ok_bind split: inner_thunk_data.splits if_splits)
  ultimately show ?thesis using change by blast
qed (auto simp: patch_value_def assert_ok_bind split: if_splits)

lemma patch_values_R: "patch_values h vs renv = Some h' \<Longrightarrow> R h h'"
proof (induction vs arbitrary: h)
  case (Cons v vs)
  then obtain h1 where "patch_value h v renv = Some h1" "patch_values h1 vs renv = Some h'" by (auto split: bind_splits)
  then show ?case using Cons.IH patch_value_R trans by blast
qed simp

lemma rec_env_binding_R: "rec_env_binding h b = Some (y, h') \<Longrightarrow> R h h'"
proof -
  assume run: "rec_env_binding h b = Some (y, h')"
  obtain x fld where b: "b = (x, fld)" by (cases b)
  have new: "R h (h @ [td_new c])" for h c by (rule alloc) (simp add: td_new_def)
  show ?thesis
  proof (cases "field_value fld")
    case None
    then show ?thesis using run new by (auto simp: b rec_env_binding_def cache_add_normal)
  next
    case (Some v)
    then obtain i h1 where 1: "(case v of Thunk a \<Rightarrow> Some (a, h)
        | _ \<Rightarrow> do { assert_ok (is_constant v); Some (cache_add h (closure_of_value v) Normal) }) = Some (i, h1)"
      "h' = h1 @ [td_new (closure_of_value (contract_apply_all (Thunk i) (field_pending_contracts fld)))]"
      using run by (auto simp: b rec_env_binding_def cache_add_normal Let_def split: bind_splits)
    have "h1 = h \<or> h1 = h @ [td_new (closure_of_value v)]"
      using 1(1) by (cases v) (auto simp: assert_ok_bind cache_add_normal split: if_splits)
    then have "R h h1" using new by auto
    then show ?thesis unfolding 1(2) using new by (rule trans)
  qed
qed

lemma rec_env_R: "rec_env h bs = Some (renv, h') \<Longrightarrow> R h h'"
  unfolding rec_env_def by (rule map_heap_R [OF rec_env_binding_R])

lemma extend_dyn_R: "extend_dyn h acc dyns renv = Some (v, h') \<Longrightarrow> R h h'"
proof (induction dyns arbitrary: h acc)
  case (Cons d dyns)
  obtain name fld where d: "d = (name, fld)" by (cases d)
  obtain h1 acc' where "patch_values h (field_values fld) renv = Some h1" "extend_dyn h1 acc' dyns renv = Some (v, h')"
    using Cons.prems by (auto simp: d patch_field_values Let_def split: bind_splits)
  then show ?case using Cons.IH patch_values_R trans by blast
qed simp

lemma eval_rec_record_R: "eval_rec_record h r dyns deps closurized e = Some (v, h') \<Longrightarrow> R h h'"
proof -
  assume "eval_rec_record h r dyns deps closurized e = Some (v, h')"
  then obtain sp dyns' h1 renv h2 h3 where run:
    "(if \<not> closurized then closurize_rec_record h r dyns deps e else Some ((r, dyns), h)) = Some ((sp, dyns'), h1)"
    "rec_env h1 (record_fields sp) = Some (renv, h2)"
    "patch_values h2 (concat (map field_values (map snd (record_fields sp)))) renv = Some h3"
    "extend_dyn h3 (record_value sp) dyns' renv = Some (v, h')"
    by (auto simp: eval_rec_record_def patch_fields_values split: bind_splits)
  have "R h h1" using run(1) closurize_rec_record_R by (auto split: if_splits)
  then show ?thesis using rec_env_R [OF run(2)] patch_values_R [OF run(3)] extend_dyn_R [OF run(4)] trans by metis
qed

end

section \<open>Instances\<close>

text \<open>A change of the heap that black-holes nothing and releases nothing.\<close>

definition same_holes :: "heap \<Rightarrow> heap \<Rightarrow> bool" where
  "same_holes h h' \<longleftrightarrow> length h \<le> length h' \<and>
    (\<forall>a < length h'. td_state (h' ! a) = Blackholed \<longleftrightarrow> a < length h \<and> td_state (h ! a) = Blackholed)"

lemma same_holes_refl [simp]: "same_holes h h"
  by (simp add: same_holes_def)

lemma same_holes_trans: "same_holes h1 h2 \<Longrightarrow> same_holes h2 h3 \<Longrightarrow> same_holes h1 h3"
  by (auto simp: same_holes_def)

lemma same_holes_append: "td_state td \<noteq> Blackholed \<Longrightarrow> same_holes h (h @ [td])"
  by (auto simp: same_holes_def nth_append less_Suc_eq)

interpretation holes: heap_growth same_holes
  by unfold_locales (auto intro: same_holes_trans same_holes_append, auto simp: same_holes_def nth_list_update)

lemma cache_add_same_holes: "cache_add h c bty = (a, h') \<Longrightarrow> same_holes h h' \<and> a < length h'"
  using holes.cache_add_R [of h c bty a h'] by (auto simp: cache_add_def thunk_new_def thunk_new_rev_def heap_alloc_def
      split: binding_type.splits if_splits)

end
