(* ===== verification/Type_Totality.thy ===== *)
theory Type_Totality
  imports Type_Contract
begin

text \<open>
  When the generation of contracts from types returns, and when it succeeds. A result is described by
  \<open>ctr_spec\<close>: no panic, a bound on the sealing keys used, and an error exactly when the set \<open>U\<close> of
  unbound variables is not empty, which then contains the variable of the error. The description
  follows the sequencing of the generators.
\<close>

section \<open>Measures of types\<close>

text \<open>The quantifiers of a type, each of which takes a sealing key.\<close>

primrec foralls :: "'v ntype \<Rightarrow> nat"
and erows_foralls :: "'v enum_rows \<Rightarrow> nat"
and rrows_foralls :: "'v record_rows \<Rightarrow> nat" where
  "foralls TDyn = 0" | "foralls TNumber = 0" | "foralls TBool = 0" | "foralls TString = 0"
| "foralls TSymbol = 0" | "foralls TForeignId = 0" | "foralls (TContract _) = 0" | "foralls (TVar _) = 0"
| "foralls (TWildcard _) = 0"
| "foralls (TArrow s t) = foralls s + foralls t"
| "foralls (TForall _ _ body) = Suc (foralls body)"
| "foralls (TEnum erows) = erows_foralls erows"
| "foralls (TRecord rrows) = rrows_foralls rrows"
| "foralls (TDict ty _) = foralls ty"
| "foralls (TArray ty) = foralls ty"
| "erows_foralls ERowsEmpty = 0" | "erows_foralls (ERowsTailVar _) = 0"
| "erows_foralls (ERowsExtend _ ty tail) =
    (case map_option foralls ty of None \<Rightarrow> 0 | Some k \<Rightarrow> k) + erows_foralls tail"
| "rrows_foralls RRowsEmpty = 0" | "rrows_foralls RRowsTailDyn = 0" | "rrows_foralls (RRowsTailVar _) = 0"
| "rrows_foralls (RRowsExtend _ ty tail) = foralls ty + rrows_foralls tail"

primrec symbol_free :: "'v ntype \<Rightarrow> bool"
and erows_symbol_free :: "'v enum_rows \<Rightarrow> bool"
and rrows_symbol_free :: "'v record_rows \<Rightarrow> bool" where
  "symbol_free TDyn = True" | "symbol_free TNumber = True" | "symbol_free TBool = True"
| "symbol_free TString = True" | "symbol_free TSymbol = False" | "symbol_free TForeignId = True"
| "symbol_free (TContract _) = True" | "symbol_free (TVar _) = True" | "symbol_free (TWildcard _) = True"
| "symbol_free (TArrow s t) \<longleftrightarrow> symbol_free s \<and> symbol_free t"
| "symbol_free (TForall _ _ body) = symbol_free body"
| "symbol_free (TEnum erows) = erows_symbol_free erows"
| "symbol_free (TRecord rrows) = rrows_symbol_free rrows"
| "symbol_free (TDict ty _) = symbol_free ty"
| "symbol_free (TArray ty) = symbol_free ty"
| "erows_symbol_free ERowsEmpty = True" | "erows_symbol_free (ERowsTailVar _) = True"
| "erows_symbol_free (ERowsExtend _ ty tail) \<longleftrightarrow>
    (case map_option symbol_free ty of None \<Rightarrow> True | Some b \<Rightarrow> b) \<and> erows_symbol_free tail"
| "rrows_symbol_free RRowsEmpty = True" | "rrows_symbol_free RRowsTailDyn = True"
| "rrows_symbol_free (RRowsTailVar _) = True"
| "rrows_symbol_free (RRowsExtend _ ty tail) \<longleftrightarrow> symbol_free ty \<and> rrows_symbol_free tail"

text \<open>The free variables of a type, of every kind.\<close>

primrec tvars :: "'v ntype \<Rightarrow> ident set"
and erows_tvars :: "'v enum_rows \<Rightarrow> ident set"
and rrows_tvars :: "'v record_rows \<Rightarrow> ident set" where
  "tvars TDyn = {}" | "tvars TNumber = {}" | "tvars TBool = {}" | "tvars TString = {}"
| "tvars TSymbol = {}" | "tvars TForeignId = {}" | "tvars (TContract _) = {}" | "tvars (TVar x) = {x}"
| "tvars (TWildcard _) = {}"
| "tvars (TArrow s t) = tvars s \<union> tvars t"
| "tvars (TForall var _ body) = tvars body - {var}"
| "tvars (TEnum erows) = erows_tvars erows"
| "tvars (TRecord rrows) = rrows_tvars rrows"
| "tvars (TDict ty _) = tvars ty"
| "tvars (TArray ty) = tvars ty"
| "erows_tvars ERowsEmpty = {}" | "erows_tvars (ERowsTailVar x) = {x}"
| "erows_tvars (ERowsExtend _ ty tail) =
    (case map_option tvars ty of None \<Rightarrow> {} | Some s \<Rightarrow> s) \<union> erows_tvars tail"
| "rrows_tvars RRowsEmpty = {}" | "rrows_tvars RRowsTailDyn = {}" | "rrows_tvars (RRowsTailVar x) = {x}"
| "rrows_tvars (RRowsExtend _ ty tail) = tvars ty \<union> rrows_tvars tail"

lemma is_dyn_iff [simp]: "is_dyn t \<longleftrightarrow> t = TDyn"
  by (cases t) auto

section \<open>Describing results\<close>

definition ctr_spec :: "'a ctr_result \<Rightarrow> int \<Rightarrow> nat \<Rightarrow> ident set \<Rightarrow> bool" where
  "ctr_spec r sy k U \<longleftrightarrow> (\<exists>v sy' n'. r = Some (v, sy', n') \<and> sy \<le> sy' \<and> sy' \<le> sy + int k \<and>
    (case v of Inl x \<Rightarrow> x \<in> U | Inr _ \<Rightarrow> U = {}))"

lemma ctr_spec_ok [simp]: "ctr_spec (ctr_ok v sy n) sy k {}"
  by (auto simp: ctr_spec_def ctr_ok_def)

lemma ctr_spec_done [simp]: "ctr_spec (Some (Inr v, sy, n)) sy k {}"
  by (auto simp: ctr_spec_def)

lemma ctr_spec_bind:
  assumes "ctr_spec r sy k U"
    and "\<And>v sy' n'. sy \<le> sy' \<Longrightarrow> sy' \<le> sy + int k \<Longrightarrow> ctr_spec (f v sy' n') sy' k' U'"
    and "k + k' \<le> m" and "U \<union> U' = W"
  shows "ctr_spec (ctr_bind r f) sy m W"
proof -
  obtain v sy' n' where r: "r = Some (v, sy', n')" "sy \<le> sy'" "sy' \<le> sy + int k"
    and v: "case v of Inl x \<Rightarrow> x \<in> U | Inr _ \<Rightarrow> U = {}" using assms(1) by (auto simp: ctr_spec_def)
  show ?thesis
  proof (cases v)
    case (Inl x)
    then show ?thesis using r v assms(3,4) by (auto simp: ctr_spec_def ctr_bind_def)
  next
    case (Inr w)
    with assms(2) [OF r(2,3), of w n'] show ?thesis using r v assms(3,4)
      by (fastforce simp: ctr_spec_def ctr_bind_def)
  qed
qed

lemma ctr_spec_map:
  assumes "ctr_spec r sy k U" and "k \<le> m"
  shows "ctr_spec (ctr_bind r (\<lambda>v. ctr_ok (f v))) sy m U"
  by (rule ctr_spec_bind [OF assms(1), where k' = 0 and U' = "{}"]) (use assms in auto)

lemma ctr_spec_map_prod:
  assumes "ctr_spec r sy k U" and "k \<le> m"
  shows "ctr_spec (ctr_bind r (\<lambda>(v, w). ctr_ok (f v w))) sy m U"
proof -
  have "(\<lambda>(v, w). ctr_ok (f v w)) = (\<lambda>x. ctr_ok (case x of (v, w) \<Rightarrow> f v w))" by auto
  then show ?thesis using ctr_spec_map [OF assms] by metis
qed

lemma get_var_contract_spec: "ctr_spec (get_var_contract vars x sy n) sy k ({x} - dom vars)"
  by (auto simp: ctr_spec_def get_var_contract_def ctr_ok_def domIff split: option.split)

lemma ctr_spec_map_triple:
  assumes "ctr_spec r sy k U" and "k \<le> m"
  shows "ctr_spec (ctr_bind r (\<lambda>(v, w, z). ctr_ok (f v w z))) sy m U"
proof -
  have "(\<lambda>(v, w, z). ctr_ok (f v w z)) = (\<lambda>x. ctr_ok (case x of (v, w, z) \<Rightarrow> f v w z))" by auto
  then show ?thesis using ctr_spec_map [OF assms] by metis
qed

section \<open>The match of an enum contract\<close>

text \<open>
  The branches of an enum contract: a tag, possibly with one variable. Their compilation never
  reaches the generator of pending contracts.
\<close>

definition simple_branch :: "match_branch \<Rightarrow> bool" where
  "simple_branch br \<longleftrightarrow> (\<exists>tag arg. branch_pattern br = Pattern (PEnum tag arg) None \<and> (\<forall>p. arg = Some p \<longrightarrow> (\<exists>x. p = Pattern (PAny x) None)))
    \<or> branch_pattern br = Pattern PWildcard None"

lemma simple_branch_row [simp]: "simple_branch (enum_row_branch tag c v l x)"
  by (auto simp: simple_branch_def enum_row_branch_def Let_def)

lemma simple_branch_wildcard [simp]: "simple_branch (MatchBranch (Pattern PWildcard None) g d)"
  by (simp add: simple_branch_def)

lemma compile_branches_simple:
  "list_all simple_branch brs \<Longrightarrow> \<exists>v n'. compile_branches gpc brs value_id err n = Some (v, n')"
proof (induction brs)
  case (Cons br brs)
  then obtain v n' where IH: "compile_branches gpc brs value_id err n = Some (v, n')" by auto
  note defs = compile_alias_def compile_enum_def compile_any_def fresh_bindings_def im_from_iter_def
    im_extend_def im_insert_def alias_ids_def Let_def
  have "simple_branch br" using Cons.prems by simp
  then consider "branch_pattern br = Pattern PWildcard None"
    | tag where "branch_pattern br = Pattern (PEnum tag None) None"
    | tag x where "branch_pattern br = Pattern (PEnum tag (Some (Pattern (PAny x) None))) None"
    unfolding simple_branch_def by (metis option.exhaust)
  then show ?case using IH by cases (simp_all add: defs)
qed simp

lemma compile_match_simple:
  "list_all simple_branch brs \<Longrightarrow> \<exists>v n'. compile_match gpc brs value n = Some (v, n')"
  using compile_branches_simple [of brs gpc "gen_ident n" "TermV (RuntimeError (NonExhaustiveMatchError value))" "Suc n"]
  by (auto simp: compile_match_def Let_def split: prod.split option.split)

lemma finish_enum_spec: "list_all simple_branch brs \<Longrightarrow> ctr_spec (finish_enum brs dflt v l sy n) sy k {}"
  using compile_match_simple [of "brs @ [MatchBranch (Pattern PWildcard None) None dflt]" no_pending "mk_var v" n]
  by (auto simp: finish_enum_def ctr_spec_def ctr_ok_def)

lemma enum_default_spec:
  "ctr_spec (enum_default vars tail_var v l sy n) sy k (set_option tail_var - dom vars)"
proof (cases tail_var)
  case (Some x)
  then show ?thesis using ctr_spec_map [OF get_var_contract_spec, of 0 k] by (simp add: enum_default_def)
qed (simp add: enum_default_def)

section \<open>Contracts of types\<close>

text \<open>The rows of an enum type, with the variable of the tail left to the default branch.\<close>

fun erows_tail :: "'v enum_rows \<Rightarrow> ident option" where
  "erows_tail ERowsEmpty = None"
| "erows_tail (ERowsTailVar x) = Some x"
| "erows_tail (ERowsExtend _ _ tail) = erows_tail tail"

definition rows_spec :: "(match_branch list \<times> ident option) ctr_result \<Rightarrow> int \<Rightarrow> nat \<Rightarrow> ident set \<Rightarrow> ident option \<Rightarrow> bool" where
  "rows_spec r sy k U tail \<longleftrightarrow> ctr_spec r sy k U \<and>
    (\<forall>brs tv sy' n'. r = Some (Inr (brs, tv), sy', n') \<longrightarrow> list_all simple_branch brs \<and> tv = tail)"

primrec erows_arg_tvars :: "'v enum_rows \<Rightarrow> ident set" where
  "erows_arg_tvars ERowsEmpty = {}"
| "erows_arg_tvars (ERowsTailVar x) = {}"
| "erows_arg_tvars (ERowsExtend _ ty tail) = (case ty of None \<Rightarrow> {} | Some t \<Rightarrow> tvars t) \<union> erows_arg_tvars tail"

lemma erows_tvars_split: "erows_tvars erows = erows_arg_tvars erows \<union> set_option (erows_tail erows)"
  by (induction erows rule: erows_tail.induct) (auto split: option.split)

lemma rows_spec_extend:
  assumes "ctr_spec r sy k U" and "\<And>c sy' n'. sy \<le> sy' \<Longrightarrow> sy' \<le> sy + int k \<Longrightarrow> rows_spec (f sy' n') sy' k' U' tail"
  shows "rows_spec (ctr_bind r (\<lambda>c sy1 n1. ctr_bind (f sy1 n1) (\<lambda>(brs, tv). ctr_ok (enum_row_branch t c v l x # brs, tv))))
    sy (k + k') (U \<union> U') tail"
proof -
  have spec: "ctr_spec (ctr_bind r (\<lambda>c sy1 n1. ctr_bind (f sy1 n1) (\<lambda>(brs, tv). ctr_ok (enum_row_branch t c v l x # brs, tv)))) sy (k + k') (U \<union> U')"
    using assms by (intro ctr_spec_bind [OF assms(1) ctr_spec_map_prod]) (auto simp: rows_spec_def)
  obtain w sy1 n1 where r: "r = Some (w, sy1, n1)" "sy \<le> sy1" "sy1 \<le> sy + int k" using assms(1) by (auto simp: ctr_spec_def)
  have "list_all simple_branch brs \<and> tv = tail"
    if "f sy1 n1 = Some (Inr (brs, tv), sy', n')" for brs tv sy' n'
    using assms(2) [OF r(2,3), of n1] that by (auto simp: rows_spec_def)
  with spec r show ?thesis
    by (fastforce simp: rows_spec_def ctr_bind_def ctr_ok_def split: option.splits sum.splits prod.splits)
qed

lemma enum_contract_spec:
  assumes "rows_spec r sy k U tail"
  shows "ctr_spec (ctr_bind r (\<lambda>(branches, tail_var) sy1 n1.
     ctr_bind (enum_default vars tail_var v l sy1 n1) (\<lambda>dflt sy2 n2.
     ctr_bind (finish_enum branches dflt v l sy2 n2) (\<lambda>c. ctr_ok (custom_contract c))))) sy k (U \<union> (set_option tail - dom vars))"
proof -
  obtain w sy1 n1 where r: "r = Some (w, sy1, n1)" "sy \<le> sy1" "sy1 \<le> sy + int k"
    and w: "case w of Inl x \<Rightarrow> x \<in> U | Inr _ \<Rightarrow> U = {}" using assms by (auto simp: rows_spec_def ctr_spec_def)
  show ?thesis
  proof (cases w)
    case (Inl x)
    then show ?thesis using r w by (auto simp: ctr_spec_def ctr_bind_def)
  next
    case (Inr p)
    obtain brs tv where p: "p = (brs, tv)" by (cases p)
    have ok: "list_all simple_branch brs" "tv = tail" using assms r(1) Inr p by (auto simp: rows_spec_def)
    have "ctr_spec (ctr_bind (enum_default vars tail v l sy1 n1) (\<lambda>dflt sy2 n2.
        ctr_bind (finish_enum brs dflt v l sy2 n2) (\<lambda>c. ctr_ok (custom_contract c)))) sy1 0 (set_option tail - dom vars)"
      by (rule ctr_spec_bind [OF enum_default_spec ctr_spec_map [OF finish_enum_spec [OF ok(1), where k = 0]], where k = 0 and k' = 0]) auto
    then show ?thesis using r w Inr p ok(2) by (fastforce simp: ctr_spec_def ctr_bind_def)
  qed
qed

lemma subcontract_spec:
  fixes ty :: nickel_type and erows :: "nickel_value enum_rows" and rrows :: "nickel_value record_rows"
  shows "symbol_free ty \<Longrightarrow> sy + int (foralls ty) \<le> i32_max \<Longrightarrow>
      ctr_spec (subcontract ty vars pol sy n) sy (foralls ty) (tvars ty - dom vars)"
    and "erows_symbol_free erows \<Longrightarrow> sy + int (erows_foralls erows) \<le> i32_max \<Longrightarrow>
      rows_spec (erows_branches erows vars pol v l x sy n) sy (erows_foralls erows) (erows_arg_tvars erows - dom vars) (erows_tail erows)"
    and "rrows_symbol_free rrows \<Longrightarrow> sy + int (rrows_foralls rrows) \<le> i32_max \<Longrightarrow>
      ctr_spec (rrows_contracts rrows vars pol sy n) sy (rrows_foralls rrows) (rrows_tvars rrows - dom vars)"
proof (induction ty and erows and rrows arbitrary: vars pol sy n and vars pol sy n v l x and vars pol sy n
    rule: ntype.induct enum_rows.induct record_rows.induct)
  case (TArrow s t)
  have s: "ctr_spec (subcontract s vars (polarity_flip pol) sy n) sy (foralls s) (tvars s - dom vars)"
    using TArrow.IH(1) TArrow.prems by simp
  have t: "ctr_spec (subcontract t vars pol sy' n') sy' (foralls t) (tvars t - dom vars)"
    if "sy' \<le> sy + int (foralls s)" for sy' n' using TArrow.IH(2) TArrow.prems that by simp
  have both: "ctr_spec (ctr_bind (subcontract s vars (polarity_flip pol) sy n) (\<lambda>d sy1 n1.
       ctr_bind (subcontract t vars pol sy1 n1) (\<lambda>c. ctr_ok (f d c)))) sy (foralls s + foralls t) (tvars s \<union> tvars t - dom vars)"
    for f by (rule ctr_spec_bind [OF s ctr_spec_map [OF t]]) auto
  note one = ctr_spec_map [OF s le_refl, of "\<lambda>c. custom_contract (mk_app (internal ''func_dom'') c)"]
    ctr_spec_map [OF t [of sy n] le_refl, of "\<lambda>c. custom_contract (mk_app (internal ''func_codom'') c)"]
  show ?case using both [of "\<lambda>d c. custom_contract (mk_apps (internal ''func'') [d, c])"] one by simp
next
  case (TForall var kind body)
  define vars' where "vars' = vars(var \<mapsto> var_contract kind sy)"
  have "tvars body - dom vars' = tvars body - {var} - dom vars" by (auto simp: vars'_def)
  then have "ctr_spec (subcontract body vars' pol (sy + 1) n) (sy + 1) (foralls body) (tvars body - {var} - dom vars)"
    using TForall.IH [of "sy + 1" vars' pol n] TForall.prems by simp
  from ctr_spec_map [OF this, of "foralls body"] TForall.prems(2) show ?case by (fastforce simp: ctr_spec_def vars'_def)
next
  case (TEnum erows)
  note rows = TEnum.IH [of sy vars pol "gen_ident n" "gen_ident (n + 1)" "gen_ident (n + 2)" "n + 3"]
  have "ctr_spec (subcontract (TEnum erows) vars pol sy n) sy (erows_foralls erows)
      ((erows_arg_tvars erows - dom vars) \<union> (set_option (erows_tail erows) - dom vars))"
    using enum_contract_spec [OF rows] TEnum.prems by (simp add: Let_def)
  then show ?case by (simp add: erows_tvars_split Un_Diff)
next
  case (TRecord rrows)
  have "ctr_spec (ctr_bind (rrows_contracts rrows vars pol sy n) (\<lambda>(fcs, tail, has_tail).
      ctr_ok (custom_contract (record_contract fcs tail has_tail)))) sy (rrows_foralls rrows) (rrows_tvars rrows - dom vars)"
    using TRecord by (intro ctr_spec_map_triple [OF _ le_refl]) simp
  then show ?case by simp
next
  case (TVar x)
  show ?case using ctr_spec_map [OF get_var_contract_spec, of 0 0] by simp
next
  case (RRowsTailVar x)
  show ?case using ctr_spec_map [OF get_var_contract_spec, of 0 0] by simp
next
  case (ERowsExtend tag ty tail)
  let ?k = "case map_option foralls ty of None \<Rightarrow> 0 | Some k \<Rightarrow> k" and ?U = "(case ty of None \<Rightarrow> {} | Some t \<Rightarrow> tvars t) - dom vars"
  have head: "ctr_spec (case map_option subcontract ty of
         Some f \<Rightarrow> ctr_bind (f vars pol sy n) (\<lambda>c. ctr_ok (Some c))
       | None \<Rightarrow> ctr_ok None sy n) sy ?k ?U"
    using ERowsExtend by (cases ty) (auto intro!: ctr_spec_map [OF _ le_refl])
  have "rows_spec (erows_branches tail vars pol v l x sy' n') sy' (erows_foralls tail) (erows_arg_tvars tail - dom vars) (erows_tail tail)"
    if "sy' \<le> sy + int ?k" for sy' n' using ERowsExtend that by (simp split: option.splits)
  from rows_spec_extend [OF head this] show ?case by (simp add: Un_Diff)
next
  case (RRowsExtend x ty tail)
  have ty: "ctr_spec (subcontract ty vars pol sy n) sy (foralls ty) (tvars ty - dom vars)"
    using RRowsExtend.IH(1) RRowsExtend.prems by simp
  have tail: "ctr_spec (rrows_contracts tail vars pol sy' n') sy' (rrows_foralls tail) (rrows_tvars tail - dom vars)"
    if "sy' \<le> sy + int (foralls ty)" for sy' n' using RRowsExtend.IH(2) RRowsExtend.prems that by simp
  have "ctr_spec (ctr_bind (subcontract ty vars pol sy n) (\<lambda>c sy1 n1.
      ctr_bind (rrows_contracts tail vars pol sy1 n1) (\<lambda>(fcs, t, has_tail). ctr_ok ((x, c) # fcs, t, has_tail))))
    sy (foralls ty + rrows_foralls tail) (tvars ty - dom vars \<union> (rrows_tvars tail - dom vars))"
    by (rule ctr_spec_bind [OF ty ctr_spec_map_triple [OF tail]]) auto
  then show ?case by (simp add: Un_Diff)
qed (auto simp: rows_spec_def ctr_ok_def [of "([], _)"] intro!: ctr_spec_map [OF _ le_refl])

section \<open>Simplification\<close>

text \<open>
  A well-scoped type: each variable is bound to the kind of its occurrence. The scope of a variable is
  lexical, an inner quantifier hides an outer one.
\<close>

datatype tkind = KType | KEnumRows | KRecordRows

fun kind_of :: "var_kind \<Rightarrow> tkind" where
  "kind_of TypeVar = KType" | "kind_of (EnumRowsVar _) = KEnumRows" | "kind_of (RecordRowsVar _) = KRecordRows"

primrec well_scoped :: "'v ntype \<Rightarrow> (ident \<rightharpoonup> tkind) \<Rightarrow> bool"
and erows_scoped :: "'v enum_rows \<Rightarrow> (ident \<rightharpoonup> tkind) \<Rightarrow> bool"
and rrows_scoped :: "'v record_rows \<Rightarrow> (ident \<rightharpoonup> tkind) \<Rightarrow> bool" where
  "well_scoped TDyn \<Gamma> = True" | "well_scoped TNumber \<Gamma> = True" | "well_scoped TBool \<Gamma> = True"
| "well_scoped TString \<Gamma> = True" | "well_scoped TSymbol \<Gamma> = True" | "well_scoped TForeignId \<Gamma> = True"
| "well_scoped (TContract _) \<Gamma> = True" | "well_scoped (TWildcard _) \<Gamma> = True"
| "well_scoped (TVar x) \<Gamma> = (\<Gamma> x = Some KType)"
| "well_scoped (TArrow s t) \<Gamma> = (well_scoped s \<Gamma> \<and> well_scoped t \<Gamma>)"
| "well_scoped (TForall var kind body) \<Gamma> = well_scoped body (\<Gamma>(var \<mapsto> kind_of kind))"
| "well_scoped (TEnum erows) \<Gamma> = erows_scoped erows \<Gamma>"
| "well_scoped (TRecord rrows) \<Gamma> = rrows_scoped rrows \<Gamma>"
| "well_scoped (TDict ty _) \<Gamma> = well_scoped ty \<Gamma>"
| "well_scoped (TArray ty) \<Gamma> = well_scoped ty \<Gamma>"
| "erows_scoped ERowsEmpty \<Gamma> = True" | "erows_scoped (ERowsTailVar x) \<Gamma> = (\<Gamma> x = Some KEnumRows)"
| "erows_scoped (ERowsExtend _ ty tail) \<Gamma> =
    ((case map_option well_scoped ty of None \<Rightarrow> True | Some f \<Rightarrow> f \<Gamma>) \<and> erows_scoped tail \<Gamma>)"
| "rrows_scoped RRowsEmpty \<Gamma> = True" | "rrows_scoped RRowsTailDyn \<Gamma> = True"
| "rrows_scoped (RRowsTailVar x) \<Gamma> = (\<Gamma> x = Some KRecordRows)"
| "rrows_scoped (RRowsExtend _ ty tail) \<Gamma> = (well_scoped ty \<Gamma> \<and> rrows_scoped tail \<Gamma>)"

lemma well_scoped_tvars:
  fixes ty :: "'v ntype" and erows :: "'v enum_rows" and rrows :: "'v record_rows"
  shows "well_scoped ty \<Gamma> \<Longrightarrow> tvars ty \<subseteq> dom \<Gamma>"
    and "erows_scoped erows \<Gamma> \<Longrightarrow> erows_tvars erows \<subseteq> dom \<Gamma>"
    and "rrows_scoped rrows \<Gamma> \<Longrightarrow> rrows_tvars rrows \<subseteq> dom \<Gamma>"
proof (induction ty and erows and rrows arbitrary: \<Gamma> and \<Gamma> and \<Gamma> rule: ntype.induct enum_rows.induct record_rows.induct)
  case (TForall var kind body)
  then show ?case by fastforce
qed (auto split: option.splits)

text \<open>
  Simplification keeps \<open>Symbol\<close> away, adds no quantifier and grows the environment of contracts; a
  variable of the result is bound by a quantifier that was kept (the set \<open>B\<close>) or by the environment.
\<close>

definition covered :: "(ident \<rightharpoonup> tkind) \<Rightarrow> simplify_vars \<Rightarrow> ident set \<Rightarrow> bool" where
  "covered \<Gamma> sv B \<longleftrightarrow> (\<forall>x k. \<Gamma> x = Some k \<longrightarrow>
    k = KType \<and> x \<in> type_vars_elide sv \<or> k = KRecordRows \<and> rrows_vars_elide sv x \<noteq> None \<or> x \<in> B)"

lemma covered_keep: "covered \<Gamma> sv B \<Longrightarrow> covered (\<Gamma>(x \<mapsto> k)) sv (insert x B)"
  by (auto simp: covered_def)

lemma covered_elide_type: "covered \<Gamma> sv B \<Longrightarrow> covered (\<Gamma>(x \<mapsto> KType)) (sv\<lparr>type_vars_elide := insert x (type_vars_elide sv)\<rparr>) B"
  by (auto simp: covered_def)

lemma covered_elide_rrows: "covered \<Gamma> sv B \<Longrightarrow> covered (\<Gamma>(x \<mapsto> KRecordRows)) (sv\<lparr>rrows_vars_elide := (rrows_vars_elide sv)(x \<mapsto> ex)\<rparr>) B"
  by (auto simp: covered_def)

lemma simplify_tail_var_spec:
  assumes "simplify_tail_var x cenv sv pol flds n = (rrows', cenv', n')"
  shows "rrows_symbol_free rrows'" "rrows_foralls rrows' = 0" "dom cenv \<subseteq> dom cenv'"
    "rrows_tvars rrows' \<subseteq> dom cenv' \<or> rrows' = RRowsTailVar x \<and> rrows_vars_elide sv x = None"
  using assms by (auto simp: simplify_tail_var_def Let_def split: option.splits polarity.splits if_splits)

lemma simplify_env:
  fixes ty :: nickel_type and erows :: "nickel_value enum_rows" and rrows :: "nickel_value record_rows"
  shows "simplify ty cenv sv pol n = (ty', cenv', n') \<Longrightarrow> dom cenv \<subseteq> dom cenv'"
    and "simplify_erows erows cenv sv pol n = (er', cenv', n') \<Longrightarrow> dom cenv \<subseteq> dom cenv'"
    and "simplify_rrows rrows cenv sv pol flds ce n = (rrows', cenv', n') \<Longrightarrow> dom cenv \<subseteq> dom cenv'"
proof (induction ty and erows and rrows arbitrary: cenv sv pol n ty' cenv' n' and cenv sv pol n er' cenv' n'
    and cenv sv pol flds ce n rrows' cenv' n' rule: ntype.induct enum_rows.induct record_rows.induct)
  case (TForall var kind body)
  then show ?case by (cases kind; cases pol) (auto split: prod.splits)
next
  case (RRowsTailVar x)
  then show ?case using simplify_tail_var_spec(3) by auto
next
  case (ERowsExtend tag ty tail)
  then show ?case by (cases ty) (fastforce split: prod.splits)+
qed (fastforce simp: Let_def split: prod.splits if_splits)+

lemma simplify_small:
  fixes ty :: nickel_type and erows :: "nickel_value enum_rows" and rrows :: "nickel_value record_rows"
  shows "simplify ty cenv sv pol n = (ty', cenv', n') \<Longrightarrow> foralls ty' \<le> foralls ty \<and> (symbol_free ty \<longrightarrow> symbol_free ty')"
    and "simplify_erows erows cenv sv pol n = ((erows', b), cenv', n') \<Longrightarrow>
      erows_foralls erows' \<le> erows_foralls erows \<and> (erows_symbol_free erows \<longrightarrow> erows_symbol_free erows')"
    and "simplify_rrows rrows cenv sv pol flds ce n = (rrows', cenv', n') \<Longrightarrow>
      rrows_foralls rrows' \<le> rrows_foralls rrows \<and> (rrows_symbol_free rrows \<longrightarrow> rrows_symbol_free rrows')"
proof (induction ty and erows and rrows arbitrary: cenv sv pol n ty' cenv' n' and cenv sv pol n erows' b cenv' n'
    and cenv sv pol flds ce n rrows' cenv' n' rule: ntype.induct enum_rows.induct record_rows.induct)
  case (TForall var kind body)
  then show ?case by (cases kind; cases pol) (auto split: prod.splits simp: le_SucI)
next
  case (RRowsTailVar x)
  then show ?case using simplify_tail_var_spec(1,2) by auto
next
  case (ERowsExtend tag ty tail)
  then show ?case by (cases ty) (fastforce split: prod.splits)+
qed (fastforce simp: Let_def split: prod.splits if_splits)+

lemma simplify_scoped:
  fixes ty :: nickel_type and erows :: "nickel_value enum_rows" and rrows :: "nickel_value record_rows"
  shows "simplify ty cenv sv pol n = (ty', cenv', n') \<Longrightarrow> well_scoped ty \<Gamma> \<Longrightarrow> covered \<Gamma> sv B \<Longrightarrow> tvars ty' \<subseteq> B \<union> dom cenv'"
    and "simplify_erows erows cenv sv pol n = ((erows', b), cenv', n') \<Longrightarrow> erows_scoped erows \<Gamma> \<Longrightarrow> covered \<Gamma> sv B \<Longrightarrow>
      erows_tvars erows' \<subseteq> B \<union> dom cenv'"
    and "simplify_rrows rrows cenv sv pol flds ce n = (rrows', cenv', n') \<Longrightarrow> rrows_scoped rrows \<Gamma> \<Longrightarrow> covered \<Gamma> sv B \<Longrightarrow>
      rrows_tvars rrows' \<subseteq> B \<union> dom cenv'"
proof (induction ty and erows and rrows arbitrary: cenv sv pol n ty' cenv' n' \<Gamma> B and cenv sv pol n erows' b cenv' n' \<Gamma> B
    and cenv sv pol flds ce n rrows' cenv' n' \<Gamma> B rule: ntype.induct enum_rows.induct record_rows.induct)
  case (TArrow s t)
  then obtain s' t' c1 n1 where 1: "simplify s cenv sv (polarity_flip pol) n = (s', c1, n1)" "simplify t c1 sv pol n1 = (t', cenv', n')"
    and ty': "ty' = TArrow s' t'" by (auto split: prod.splits)
  have "tvars s' \<subseteq> B \<union> dom c1" "tvars t' \<subseteq> B \<union> dom cenv'" using TArrow.IH(1) [OF 1(1), of \<Gamma> B] TArrow.IH(2) [OF 1(2), of \<Gamma> B] TArrow.prems by simp_all
  then show ?case using simplify_env(1) [OF 1(2)] ty' by simp blast
next
  case (TForall var kind body)
  consider (elide_type) "kind = TypeVar" "pol = Positive" | (elide_rows) ex where "kind = RecordRowsVar ex" "pol = Positive"
    | (keep) body' where "simplify body cenv sv pol n = (body', cenv', n')" "ty' = TForall var kind body'"
    using TForall.prems(1) by (cases kind; cases pol) (auto split: prod.splits)
  then show ?case
  proof cases
    case elide_type
    then show ?thesis using TForall.prems by (intro TForall.IH [OF _ _ covered_elide_type]) (simp_all add: fun_upd_def)
  next
    case elide_rows
    then show ?thesis using TForall.prems by (intro TForall.IH [OF _ _ covered_elide_rrows]) (simp_all add: fun_upd_def)
  next
    case keep
    then show ?thesis using TForall.IH [OF keep(1) _ covered_keep] TForall.prems by fastforce
  qed
next
  case (TVar x)
  then show ?case by (fastforce simp: covered_def split: if_splits)
next
  case (TEnum erows)
  then obtain er' b where "simplify_erows erows cenv sv pol n = ((er', b), cenv', n')" "ty' = TDyn \<or> ty' = TEnum er'"
    by (auto split: prod.splits if_splits)
  then show ?case using TEnum.IH [of _ _ _ _ _ _ _ _ \<Gamma> B] TEnum.prems by fastforce
next
  case (TRecord rrows)
  then obtain rr' flds ce where "simplify_rrows rrows cenv sv pol flds ce n = (rr', cenv', n')" "ty' = TDyn \<or> ty' = TRecord rr'"
    by (auto split: prod.splits if_splits)
  then show ?case using TRecord.IH [of _ _ _ _ _ _ _ _ _ \<Gamma> B] TRecord.prems by fastforce
next
  case (TDict ty flavour)
  then obtain t' where "simplify ty cenv sv pol n = (t', cenv', n')" "ty' = TDyn \<or> ty' = TDict t' flavour"
    by (auto split: prod.splits if_splits)
  then show ?case using TDict.IH [of _ _ _ _ _ _ _ \<Gamma> B] TDict.prems by fastforce
next
  case (TArray ty)
  then obtain t' where "simplify ty cenv sv pol n = (t', cenv', n')" "ty' = TDyn \<or> ty' = TArray t'"
    by (auto split: prod.splits if_splits)
  then show ?case using TArray.IH [of _ _ _ _ _ _ _ \<Gamma> B] TArray.prems by fastforce
next
  case (ERowsTailVar x)
  then show ?case by (fastforce simp: covered_def)
next
  case (RRowsTailVar x)
  then have "rrows_tvars rrows' \<subseteq> dom cenv' \<or> rrows' = RRowsTailVar x \<and> rrows_vars_elide sv x = None"
    using simplify_tail_var_spec(4) by simp
  then show ?case using RRowsTailVar.prems(2,3) by (fastforce simp: covered_def)
next
  case (ERowsExtend tag ty tail)
  then obtain tail' el c1 n1 where 1: "simplify_erows tail cenv sv pol n = ((tail', el), c1, n1)" by (auto split: prod.splits)
  have tail: "erows_tvars tail' \<subseteq> B \<union> dom c1" using ERowsExtend.IH(2) [OF 1, of \<Gamma> B] ERowsExtend.prems(2,3) by simp
  show ?case
  proof (cases ty)
    case None
    then show ?thesis using ERowsExtend.prems(1) 1 tail by auto
  next
    case (Some t)
    obtain t' c2 n2 where 2: "simplify t c1 sv pol n1 = (t', c2, n2)" by (cases "simplify t c1 sv pol n1") auto
    have "tvars t' \<subseteq> B \<union> dom c2" using ERowsExtend.IH(1) [OF _ 2, of \<Gamma> B] Some ERowsExtend.prems(2,3) by simp
    moreover have "erows' = ERowsExtend tag (Some t') tail'" "c2 = cenv'" using ERowsExtend.prems(1) 1 2 Some by auto
    ultimately show ?thesis using tail simplify_env(1) [OF 2] by simp blast
  qed
next
  case (RRowsExtend x ty tail)
  then obtain ty1 t' c1 n1 where 1: "simplify ty cenv sv pol n = (ty1, c1, n1)" "simplify_rrows tail c1 sv pol flds ce n1 = (t', cenv', n')"
    and r: "rrows' = RRowsExtend x ty1 t' \<or> rrows' = t'" by (auto split: prod.splits if_splits)
  have "tvars ty1 \<subseteq> B \<union> dom c1" "rrows_tvars t' \<subseteq> B \<union> dom cenv'" using RRowsExtend.IH(1) [OF 1(1), of \<Gamma> B] RRowsExtend.IH(2) [OF 1(2), of \<Gamma> B] RRowsExtend.prems by simp_all
  then show ?case using simplify_env(3) [OF 1(2)] r by (elim disjE; simp; blast)
qed (auto split: if_splits)

section \<open>Contracts of annotations\<close>

text \<open>The types contracts are generated from: no \<open>Symbol\<close> and not more quantifiers than sealing keys.\<close>

definition generable :: "'v ntype \<Rightarrow> bool" where
  "generable ty \<longleftrightarrow> symbol_free ty \<and> int (foralls ty) \<le> i32_max"

lemma type_contract_spec:
  assumes "generable ty"
  shows "\<exists>r n'. type_contract ty n = Some (r, n') \<and> (case r of Inl x \<Rightarrow> x \<in> tvars ty | Inr _ \<Rightarrow> tvars ty = {})"
  using subcontract_spec(1) [of ty 0 Map.empty Positive n] assms
  by (auto simp: generable_def ctr_spec_def type_contract_def gen_of_ctr_def)

lemma contract_static_returns:
  assumes "generable ty"
  shows "\<exists>r n'. contract_static ty n = Some (r, n') \<and> (well_scoped ty Map.empty \<longrightarrow> (\<exists>c. r = Inr c))"
proof -
  obtain ty' cenv n1 where s: "simplify ty Map.empty simplify_vars_new Positive n = (ty', cenv, n1)"
    by (cases "simplify ty Map.empty simplify_vars_new Positive n") auto
  have "symbol_free ty'" "0 + int (foralls ty') \<le> i32_max" using simplify_small(1) [OF s] assms by (auto simp: generable_def)
  from subcontract_spec(1) [OF this, of cenv Positive n1] obtain r sy n' where r: "subcontract ty' cenv Positive 0 n1 = Some (r, sy, n')"
    "case r of Inl x \<Rightarrow> x \<in> tvars ty' - dom cenv | Inr _ \<Rightarrow> tvars ty' - dom cenv = {}" by (auto simp: ctr_spec_def)
  have "tvars ty' \<subseteq> {} \<union> dom cenv" if "well_scoped ty Map.empty"
    using simplify_scoped(1) [OF s that, of "{}"] by (simp add: covered_def)
  with r s show ?thesis by (auto simp: contract_static_def gen_of_ctr_def split: sum.splits)
qed

lemma gen_bind_returns:
  assumes "\<exists>r n'. m = Some (r, n')" and "\<And>v n. \<exists>r n'. k v n = Some (r, n')"
  shows "\<exists>r n'. gen_bind m k = Some (r, n')"
proof -
  obtain r n where "m = Some (r, n)" using assms(1) by blast
  then show ?thesis using assms(2) by (cases r) (auto simp: gen_bind_def)
qed

lemma gen_list_returns:
  assumes "\<And>x n. x \<in> set xs \<Longrightarrow> \<exists>r n'. f x n = Some (r, n')"
  shows "\<exists>r n'. gen_list f xs n = Some (r, n')"
  using assms
proof (induction xs arbitrary: n)
  case (Cons x xs)
  have "\<exists>r n'. gen_list f xs n1 = Some (r, n')" for n1 using Cons by simp
  then show ?case using Cons.prems [of x n] by (auto intro!: gen_bind_returns)
qed simp

definition annot_generable :: "'v type_annotation \<Rightarrow> bool" where
  "annot_generable annot \<longleftrightarrow> list_all (\<lambda>lt. generable (lt_typ lt)) (annotation_iter annot)"

lemma from_type_returns: "generable (lt_typ lt) \<Longrightarrow> \<exists>r n'. from_type lt n = Some (r, n')"
  unfolding from_type_def using type_contract_spec [of "lt_typ lt" n] by (intro gen_bind_returns) auto

lemma from_static_type_returns: "generable (lt_typ lt) \<Longrightarrow> \<exists>r n'. from_static_type lt n = Some (r, n')"
  unfolding from_static_type_def using contract_static_returns [of "lt_typ lt" n] by (intro gen_bind_returns) auto

lemma annot_pending_contracts_returns:
  assumes "annot_generable annot"
  shows "\<exists>r n'. annot_pending_contracts annot n = Some (r, n')"
  using gen_list_returns [of "annot_contracts annot" from_type n] from_type_returns assms
  by (auto simp: annot_pending_contracts_def annot_generable_def annotation_iter_def list_all_iff)

lemma annotated_inner_returns:
  assumes "annot_generable annot"
  shows "\<exists>r n'. annotated_inner annot inner n = Some (r, n')"
proof -
  obtain s n1 where s: "(case annot_typ annot of None \<Rightarrow> Some (None, n)
      | Some lt \<Rightarrow> map_option (\<lambda>(r, n'). (Some r, n')) (from_static_type lt n)) = Some (s, n1)"
    using from_static_type_returns assms
    by (cases "annot_typ annot") (fastforce simp: annot_generable_def annotation_iter_def)+
  obtain r n2 where "annot_pending_contracts annot n1 = Some (r, n2)" using annot_pending_contracts_returns [OF assms] by blast
  with s show ?thesis by (cases r; cases s) (auto simp: annotated_inner_def gen_bind_def split: sum.splits)
qed

end
