(* ===== verification/Machine_Inv.thy ===== *)
theory Machine_Inv
  imports Eval_Machine Stack_Props Thunk_Props Heap_Growth Type_Totality
begin

text \<open>
  The invariant of the abstract machine between the stack and the heap, that each iteration of the
  loop keeps it, and the run of an application of a saturated thunk.
\<close>

section \<open>The invariant\<close>

declare stack_bytes.simps [simp del]

text \<open>
  The stack holds the typed items \<open>s\<close>, and the black-holed thunks are exactly those with an update
  frame on it.
\<close>

definition vm_inv :: "sizes \<Rightarrow> stack_item list \<Rightarrow> vm \<Rightarrow> bool" where
  "vm_inv sz s vm \<longleftrightarrow> vm_stack vm = stack_bytes sz s \<and>
    distinct (frames s) \<and> list_all (\<lambda>u. u < length (vm_heap vm)) (frames s) \<and>
    (\<forall>a < length (vm_heap vm). td_state (vm_heap vm ! a) = Blackholed \<longleftrightarrow> a \<in> set (frames s))"

lemma vm_invD:
  assumes "vm_inv sz s vm"
  shows "vm_stack vm = stack_bytes sz s" "list_all (\<lambda>u. u < length (vm_heap vm)) (frames s)"
    "a < length (vm_heap vm) \<Longrightarrow> td_state (vm_heap vm ! a) = Blackholed \<longleftrightarrow> a \<in> set (frames s)"
  using assms by (simp_all add: vm_inv_def)

lemma frames_push [simp]:
  "item_marker it \<noteq> MUpdateIndex \<Longrightarrow> frames (it # s) = frames s"
  by (cases it) auto

lemma frames_append: "frames (s @ t) = frames s @ frames t"
  by (induction s rule: frames.induct) auto

lemma frames_Cons: "set (frames (it # s)) = (case it of UpdateIndexItem u \<Rightarrow> {u} | _ \<Rightarrow> {}) \<union> set (frames s)"
  by (cases it) auto

lemma is_top_bytes [simp]:
  "is_top_idx (stack_bytes sz s) = Some (case s of [] \<Rightarrow> False | it # _ \<Rightarrow> item_marker it = MUpdateIndex)"
  "is_top_cont (stack_bytes sz s) = Some (case s of [] \<Rightarrow> False | it # _ \<Rightarrow> is_cont (item_marker it))"
  by (cases s; simp only: is_top_idx_def is_top_cont_def top_marker_bytes is_idx_def option.map
      option.case list.case)+

context item_sizes begin

lemma update_at_indices_bytes:
  "list_all (\<lambda>u. u < length h) (frames s) \<Longrightarrow>
   \<exists>h'. update_at_indices sz h (stack_bytes sz s) c =
      Some (h', stack_bytes sz (dropWhile (\<lambda>it. item_marker it = MUpdateIndex) s))
     \<and> length h' = length h
     \<and> (\<forall>a < length h. a \<in> set (frames (takeWhile (\<lambda>it. item_marker it = MUpdateIndex) s)) \<longrightarrow>
          td_state (h' ! a) = Evaluated \<and> td_closure (h' ! a) \<noteq> None)
     \<and> (\<forall>a < length h. a \<notin> set (frames (takeWhile (\<lambda>it. item_marker it = MUpdateIndex) s)) \<longrightarrow> h' ! a = h ! a)"
proof (induction s arbitrary: h)
  case Nil
  then show ?case using pop_update_index_bytes [of "[]"] by (subst update_at_indices.simps) simp
next
  case (Cons it s)
  show ?case
  proof (cases "item_marker it = MUpdateIndex")
    case False
    then have "pop_update_index sz (stack_bytes sz (it # s)) = Some (None, stack_bytes sz (it # s))"
      using pop_update_index_bytes [of "it # s"] by (cases it) auto
    with False show ?thesis by (subst update_at_indices.simps) simp
  next
    case True
    then obtain u where it: "it = UpdateIndexItem u" by (cases it) auto
    define h1 where "h1 = h[u := td_update c (h ! u)]"
    have u: "u < length h" "list_all (\<lambda>u. u < length h1) (frames s)"
      using Cons.prems by (auto simp: it h1_def)
    from Cons.IH [OF u(2)] obtain h' where h': "update_at_indices sz h1 (stack_bytes sz s) c =
        Some (h', stack_bytes sz (dropWhile (\<lambda>it. item_marker it = MUpdateIndex) s))"
      "length h' = length h1"
      "\<forall>a < length h1. a \<in> set (frames (takeWhile (\<lambda>it. item_marker it = MUpdateIndex) s)) \<longrightarrow>
          td_state (h' ! a) = Evaluated \<and> td_closure (h' ! a) \<noteq> None"
      "\<forall>a < length h1. a \<notin> set (frames (takeWhile (\<lambda>it. item_marker it = MUpdateIndex) s)) \<longrightarrow> h' ! a = h1 ! a"
      by blast
    have pop: "pop_update_index sz (stack_bytes sz (it # s)) = Some (Some u, stack_bytes sz s)"
      using pop_update_index_bytes [of "it # s"] it by simp
    have "thunk_update h u c = Some h1" using u by (simp add: thunk_update_def heap_map_def h1_def)
    with pop h'(1) have run: "update_at_indices sz h (stack_bytes sz (it # s)) c =
        Some (h', stack_bytes sz (dropWhile (\<lambda>it. item_marker it = MUpdateIndex) s))"
      by (subst update_at_indices.simps) simp
    have len: "length h1 = length h" by (simp add: h1_def)
    have "td_state (h' ! u) = Evaluated \<and> td_closure (h' ! u) \<noteq> None"
      using h'(3,4) u(1) len by (cases "u \<in> set (frames (takeWhile (\<lambda>it. item_marker it = MUpdateIndex) s))")
        (auto simp: h1_def)
    with run h' len show ?thesis
      by (intro exI [of _ h']) (auto simp: it h1_def nth_list_update)
  qed
qed

end


section \<open>Steps keep the invariant\<close>

lemma vm_inv_heap:
  assumes "vm_inv sz s vm" and "same_holes (vm_heap vm) h'"
  shows "vm_inv sz s (vm\<lparr>vm_heap := h'\<rparr>)"
  using assms unfolding vm_inv_def same_holes_def by (auto simp: list_all_iff)

lemma vm_inv_push:
  assumes "vm_inv sz s vm" and "item_marker it \<noteq> MUpdateIndex"
  shows "vm_inv sz (it # s) (vm\<lparr>vm_stack := stack_push sz it (vm_stack vm)\<rparr>)"
  using assms by (simp add: vm_inv_def stack_bytes.simps)

lemma vm_inv_pop:
  assumes "vm_inv sz (it # s) vm" and "item_marker it \<noteq> MUpdateIndex"
  shows "vm_inv sz s (vm\<lparr>vm_stack := stack_bytes sz s\<rparr>)"
  using assms by (simp add: vm_inv_def)

lemma vm_inv_fresh: "vm_inv sz s vm \<Longrightarrow> vm_inv sz s (vm\<lparr>vm_fresh := n\<rparr>)"
  by (simp add: vm_inv_def)

lemma vm_fresh_same [simp]: "vm\<lparr>vm_heap := h, vm_fresh := vm_fresh vm\<rparr> = vm\<lparr>vm_heap := h\<rparr>"
  by simp

lemma record_with_includes_Nil [simp]: "record_with_includes data [] = data"
  by (simp add: record_with_includes_def im_extend_def)

definition readable :: "heap \<Rightarrow> addr \<Rightarrow> bool" where
  "readable h a \<longleftrightarrow> a < length h \<and> td_closure (h ! a) \<noteq> None"

text \<open>The elements of a container literal.\<close>

definition container_literal :: "nickel_value \<Rightarrow> bool" where
  "container_literal v \<longleftrightarrow>
    (case v of
       ArrayV Empty \<Rightarrow> True
     | RecordV Empty \<Rightarrow> True
     | ArrayV (Alloc (vs, cs)) \<Rightarrow> list_all literal vs \<and> list_all (\<lambda>c. literal (ctr_contract c)) cs
     | RecordV (Alloc r) \<Rightarrow> list_all literal (record_values r)
     | EnumVariant tag arg \<Rightarrow> (\<forall>v. arg = Some v \<longrightarrow> literal v)
     | _ \<Rightarrow> False)"

text \<open>
  What a step reads: the thunk it enters, the argument a label tracks and the tracked argument it
  reports must have a cached closure; a container and a recursive record without dynamic fields
  and includes are literals or, for a record that has been closurized, have thunks without a cached
  value; the types of an annotation must be ones contracts can be generated from.
\<close>

fun term_ready :: "vm \<Rightarrow> env \<Rightarrow> nickel_term \<Rightarrow> bool" where
  "term_ready vm e (Var x) \<longleftrightarrow> (\<forall>a. get_var (vm_initial_env vm) e x = Inr a \<longrightarrow> readable (vm_heap vm) a)"
| "term_ready vm e (Sealed key inner l) \<longleftrightarrow> (\<forall>a. label_arg_idx l = Some a \<longrightarrow> readable (vm_heap vm) a)"
| "term_ready vm e (StrChunks chunks) \<longleftrightarrow> list_all (\<lambda>c. snd (chunk_arg c) < u32_limit) chunks"
| "term_ready vm e (Closurize v) \<longleftrightarrow> container_literal v"
| "term_ready vm e (RecRecord data incl dyns deps closurized) \<longleftrightarrow> dyns = [] \<and> incl = [] \<and>
    (if closurized then patchable (vm_heap vm) (record_values data)
     else list_all literal (record_values data))"
| "term_ready vm e (Annotated annot inner) \<longleftrightarrow> annot_generable annot"
| "term_ready vm e _ \<longleftrightarrow> True"

definition step_ready :: "stack_item list \<Rightarrow> vm \<Rightarrow> closure \<Rightarrow> bool" where
  "step_ready s vm c \<longleftrightarrow>
    (case clo_value c of
       Thunk a \<Rightarrow> readable (vm_heap vm) a
     | TermV t \<Rightarrow> term_ready vm (clo_env c) t
     | _ \<Rightarrow> True) \<and>
    (\<forall>a pos t. s = TrackedArgItem a pos # t \<longrightarrow> readable (vm_heap vm) a)"

text \<open>The same along a run of at most \<open>n\<close> iterations.\<close>

fun run_ready :: "sizes \<Rightarrow> nat \<Rightarrow> vm \<Rightarrow> closure \<Rightarrow> bool" where
  "run_ready sz 0 vm c \<longleftrightarrow> True"
| "run_ready sz (Suc n) vm c \<longleftrightarrow>
    (\<forall>s. vm_inv sz s vm \<longrightarrow> step_ready s vm c) \<and>
    (\<forall>c' vm'. eval_step sz vm c = Some (Continue c', vm') \<longrightarrow> run_ready sz n vm' c')"

lemma let_bind_same_holes:
  assumes "let_bind bs e0 bty e h idxs = (e', h', idxs')" and "list_all (\<lambda>a. a < length h) idxs"
  shows "same_holes h h' \<and> list_all (\<lambda>a. a < length h') idxs'"
  using assms
proof (induction bs arbitrary: e h idxs)
  case (Cons b bs)
  obtain x bound where b: "b = (x, bound)" by (cases b)
  obtain a h1 where add: "cache_add h \<lparr>clo_value = bound, clo_env = e0\<rparr> bty = (a, h1)"
    by (cases "cache_add h \<lparr>clo_value = bound, clo_env = e0\<rparr> bty")
  then have h1: "same_holes h h1" "a < length h1" using cache_add_same_holes by auto
  then have "list_all (\<lambda>a. a < length h1) (idxs @ [a])"
    using Cons.prems(2) by (auto simp: list_all_iff same_holes_def)
  moreover have "let_bind bs e0 bty (e(x \<mapsto> a)) h1 (idxs @ [a]) = (e', h', idxs')"
    using Cons.prems(1) add by (simp add: b)
  ultimately show ?case using Cons.IH h1(1) same_holes_trans by blast
qed simp

lemma td_map_closure_state [simp]: "td_state (td_map_closure f td) = td_state td"
  by (simp add: td_map_closure_def split: inner_thunk_data.split option.split)

lemma patch_all_same_holes:
  "list_all (\<lambda>a. a < length h) idxs \<Longrightarrow> \<exists>h'. patch_all h idxs e = Some h' \<and> same_holes h h'"
proof (induction idxs arbitrary: h)
  case (Cons a idxs)
  define h1 where "h1 = h[a := td_map_closure (\<lambda>cl. cl\<lparr>clo_env := e\<rparr>) (h ! a)]"
  have "cache_patch h a (\<lambda>cl. cl\<lparr>clo_env := e\<rparr>) = Some h1"
    using Cons.prems by (simp add: cache_patch_def heap_map_def h1_def)
  moreover have "same_holes h h1" using Cons.prems by (auto simp: same_holes_def h1_def nth_list_update)
  moreover have "list_all (\<lambda>a. a < length h1) idxs" using Cons.prems by (simp add: h1_def)
  ultimately show ?case using Cons.IH [of h1] same_holes_trans by fastforce
qed simp

lemma enter_cache_index_inv:
  assumes inv: "vm_inv sz s vm" and r: "readable (vm_heap vm) a"
  shows "\<exists>res vm' s'. enter_cache_index sz vm a = Some (res, vm') \<and> vm_inv sz s' vm'"
proof -
  let ?h = "vm_heap vm"
  obtain c where c: "a < length ?h" "td_closure (?h ! a) = Some c" using r by (auto simp: readable_def)
  note table = get_update_index_table [OF c]
  consider (ev) "td_state (?h ! a) = Evaluated" | (bh) "td_state (?h ! a) = Blackholed"
    | (whnf) "td_state (?h ! a) = Suspended" "is_whnf (clo_value c)"
    | (susp) "td_state (?h ! a) = Suspended" "\<not> is_whnf (clo_value c)"
    by (cases "td_state (?h ! a)") auto
  then show ?thesis
  proof cases
    case ev
    then show ?thesis using table c inv by (auto simp: enter_cache_index_def cache_get_def thunk_get_owned_def)
  next
    case bh
    then show ?thesis using table inv by (auto simp: enter_cache_index_def)
  next
    case whnf
    let ?h1 = "?h[a := (?h ! a)\<lparr>td_state := Evaluated\<rparr>]"
    have "same_holes ?h ?h1" using whnf c by (auto simp: same_holes_def nth_list_update)
    from vm_inv_heap [OF inv this] whnf table c show ?thesis
      by (auto simp: enter_cache_index_def cache_get_def thunk_get_owned_def)
  next
    case susp
    let ?h1 = "?h[a := (?h ! a)\<lparr>td_state := Blackholed\<rparr>]"
    let ?vm1 = "vm\<lparr>vm_heap := ?h1, vm_stack := push_update_index sz a (vm_stack vm)\<rparr>"
    have "a \<notin> set (frames s)" using inv susp c by (auto simp: vm_inv_def)
    then have "vm_inv sz (UpdateIndexItem a # s) ?vm1"
      using inv c by (auto simp: vm_inv_def push_update_index_def nth_list_update list_all_iff stack_bytes.simps)
    moreover have "enter_cache_index sz vm a = Some (Continue c, ?vm1)"
      using susp table c by (simp add: enter_cache_index_def cache_get_def thunk_get_owned_def)
    ultimately show ?thesis by blast
  qed
qed


context item_sizes begin

lemma update_frames_inv:
  assumes inv: "vm_inv sz s vm"
  shows "\<exists>h'. update_at_indices sz (vm_heap vm) (vm_stack vm) c =
      Some (h', stack_bytes sz (dropWhile (\<lambda>it. item_marker it = MUpdateIndex) s))
    \<and> (\<forall>a. readable (vm_heap vm) a \<longrightarrow> readable h' a)
    \<and> vm_inv sz (dropWhile (\<lambda>it. item_marker it = MUpdateIndex) s)
        (vm\<lparr>vm_heap := h', vm_stack := stack_bytes sz (dropWhile (\<lambda>it. item_marker it = MUpdateIndex) s)\<rparr>)"
proof -
  let ?p = "\<lambda>it. item_marker it = MUpdateIndex"
  have st: "vm_stack vm = stack_bytes sz s" and fr: "list_all (\<lambda>u. u < length (vm_heap vm)) (frames s)"
    using inv by (auto simp: vm_inv_def)
  obtain h' where h': "update_at_indices sz (vm_heap vm) (vm_stack vm) c =
      Some (h', stack_bytes sz (dropWhile ?p s))" "length h' = length (vm_heap vm)"
    "\<forall>a < length (vm_heap vm). a \<in> set (frames (takeWhile ?p s)) \<longrightarrow> td_state (h' ! a) = Evaluated \<and> td_closure (h' ! a) \<noteq> None"
    "\<forall>a < length (vm_heap vm). a \<notin> set (frames (takeWhile ?p s)) \<longrightarrow> h' ! a = vm_heap vm ! a"
    using update_at_indices_bytes [OF fr, of c] st by auto
  have app: "frames s = frames (takeWhile ?p s) @ frames (dropWhile ?p s)"
    by (metis frames_append takeWhile_dropWhile_id)
  have "vm_inv sz (dropWhile ?p s) (vm\<lparr>vm_heap := h', vm_stack := stack_bytes sz (dropWhile ?p s)\<rparr>)"
    using inv h'(2-4) app unfolding vm_inv_def
    by (simp add: list_all_iff) (metis IntI UnE empty_iff thunk_state.distinct(3))
  moreover have "readable h' a" if "readable (vm_heap vm) a" for a
    using that h'(2-4) unfolding readable_def by metis
  ultimately show ?thesis using h'(1) by blast
qed

lemma eval_whnf_inv:
  assumes inv: "vm_inv sz s vm"
    and r: "\<forall>a pos t. s = TrackedArgItem a pos # t \<longrightarrow> readable (vm_heap vm) a"
  shows "\<exists>res vm' s'. eval_whnf sz vm c = Some (res, vm') \<and> vm_inv sz s' vm'"
proof -
  have st: "vm_stack vm = stack_bytes sz s" and fr: "list_all (\<lambda>u. u < length (vm_heap vm)) (frames s)"
    using inv by (auto simp: vm_inv_def)
  show ?thesis
  proof (cases s)
    case Nil
    moreover have "vm_inv sz [] (vm\<lparr>vm_stack := stack_bytes sz []\<rparr>)"
      using inv st Nil by (simp add: vm_inv_def)
    ultimately show ?thesis using st pop_arg_bytes [of "vm_heap vm" "[]"]
      by (auto simp: eval_whnf_def)
  next
    case (Cons it t)
    show ?thesis
    proof (cases "item_marker it = MUpdateIndex")
      case True
      then show ?thesis using update_frames_inv [OF inv, of c] Cons st by (auto simp: eval_whnf_def)
    next
      case False
      show ?thesis
      proof (cases "is_cont (item_marker it)")
        case True
        then show ?thesis using inv st False Cons by (auto simp: eval_whnf_def)
      next
        case noncont: False
        have pop: "\<exists>r. pop_arg sz (vm_heap vm) (stack_bytes sz s) = Some r
            \<and> snd r \<in> {stack_bytes sz s, stack_bytes sz t}"
          using pop_arg_bytes [of "vm_heap vm" s] r Cons
          by (cases it) (auto simp: readable_def cache_get_def thunk_get_owned_def)
        have "vm_inv sz t (vm\<lparr>vm_stack := stack_bytes sz t\<rparr>)"
          using inv vm_inv_pop [of sz it t vm] False Cons by simp
        moreover have "vm_inv sz s (vm\<lparr>vm_stack := stack_bytes sz s\<rparr>)" using inv by (simp add: vm_inv_def)
        ultimately show ?thesis
          using pop False noncont Cons st by (fastforce simp: eval_whnf_def split: option.splits)
      qed
    qed
  qed
qed


lemma pop_arg_as_idx_inv:
  assumes inv: "vm_inv sz s vm" and top: "s = [] \<or> item_marker (hd s) \<noteq> MUpdateIndex"
  shows "\<exists>r h' s'. pop_arg_as_idx sz (vm_heap vm) (stack_bytes sz s) = Some (r, stack_bytes sz s', h')
    \<and> vm_inv sz s' (vm\<lparr>vm_stack := stack_bytes sz s', vm_heap := h'\<rparr>)"
proof -
  have same: "vm_inv sz s (vm\<lparr>vm_stack := stack_bytes sz s, vm_heap := vm_heap vm\<rparr>)"
    using inv by (simp add: vm_inv_def)
  consider (arg) arg pos t where "s = ArgItem arg pos # t" | (tracked) a pos t where "s = TrackedArgItem a pos # t"
    | (other) "pop_arg_as_idx sz (vm_heap vm) (stack_bytes sz s) = Some (None, stack_bytes sz s, vm_heap vm)"
    using pop_arg_as_idx_bytes [of "vm_heap vm" s] by (cases s) (auto split: stack_item.splits)
  then show ?thesis
  proof cases
    case (arg arg pos t)
    have "vm_inv sz t (vm\<lparr>vm_stack := stack_bytes sz t\<rparr>)" using inv vm_inv_pop arg by fastforce
    from vm_inv_heap [OF this, of "vm_heap vm @ [td_new arg]"]
    have "vm_inv sz t (vm\<lparr>vm_stack := stack_bytes sz t, vm_heap := vm_heap vm @ [td_new arg]\<rparr>)"
      by (simp add: same_holes_append td_new_def)
    then show ?thesis using pop_arg_as_idx_bytes [of "vm_heap vm" s] arg by auto
  next
    case (tracked a pos t)
    have "vm_inv sz t (vm\<lparr>vm_stack := stack_bytes sz t, vm_heap := vm_heap vm\<rparr>)"
      using inv vm_inv_pop [of sz "TrackedArgItem a pos" t vm] tracked by simp
    then show ?thesis using pop_arg_as_idx_bytes [of "vm_heap vm" s] tracked by auto
  next
    case other
    with same show ?thesis by blast
  qed
qed

lemma push_str_chunks_inv:
  "vm_inv sz s vm \<Longrightarrow> \<exists>s'. vm_inv sz s' (vm\<lparr>vm_stack := push_str_chunks sz cs (vm_stack vm)\<rparr>)"
proof (induction cs arbitrary: s vm)
  case (Cons c cs)
  from vm_inv_push [OF Cons.prems, of "StrChunkItem c"]
  have "vm_inv sz (StrChunkItem c # s) (vm\<lparr>vm_stack := stack_push sz (StrChunkItem c) (vm_stack vm)\<rparr>)" by simp
  from Cons.IH [OF this] show ?case by (simp add: push_str_chunks_def)
qed (auto simp: push_str_chunks_def)

lemma eval_str_chunks_inv:
  assumes inv: "vm_inv sz s vm" and "list_all (\<lambda>c. snd (chunk_arg c) < u32_limit) chunks"
  shows "\<exists>res vm'. eval_str_chunks sz vm chunks e = Some (res, vm') \<and> (\<exists>s'. vm_inv sz s' vm')"
proof (cases "chunks = []")
  case False
  obtain arg indent where c: "chunk_arg (last chunks) = (arg, indent)" by (cases "chunk_arg (last chunks)")
  then have "indent < u32_limit" using assms(2) False by (auto simp: list_all_iff dest!: bspec [OF _ last_in_set])
  moreover obtain s' where "vm_inv sz s' (vm\<lparr>vm_stack := push_str_chunks sz (butlast chunks) (vm_stack vm)\<rparr>)"
    using push_str_chunks_inv [OF inv] by blast
  from vm_inv_push [OF this, of "StrAccItem [] e indent 0"]
  have "vm_inv sz (StrAccItem [] e indent 0 # s') (vm\<lparr>vm_stack := stack_push sz (StrAccItem [] e indent 0)
      (push_str_chunks sz (butlast chunks) (vm_stack vm))\<rparr>)" by simp
  ultimately show ?thesis using False c by (auto simp: eval_str_chunks_def assert_ok_def)
qed (use inv in \<open>auto simp: eval_str_chunks_def\<close>)

lemma eval_sealed_inv:
  assumes inv: "vm_inv sz s vm" and "\<forall>a. label_arg_idx l = Some a \<longrightarrow> readable (vm_heap vm) a"
  shows "\<exists>res vm'. eval_sealed sz vm key inner l e = Some (res, vm') \<and> (\<exists>s'. vm_inv sz s' vm')"
proof -
  let ?s = "dropWhile (\<lambda>it. item_marker it = MUpdateIndex) s"
  obtain h' where u: "update_at_indices sz (vm_heap vm) (vm_stack vm) \<lparr>clo_value = TermV (Sealed key inner l), clo_env = e\<rparr> =
      Some (h', stack_bytes sz ?s)" "\<forall>a. readable (vm_heap vm) a \<longrightarrow> readable h' a"
    "vm_inv sz ?s (vm\<lparr>vm_heap := h', vm_stack := stack_bytes sz ?s\<rparr>)"
    using update_frames_inv [OF inv] by blast
  have "get_evaluated_arg h' l \<noteq> None"
  proof (cases "label_arg_idx l")
    case (Some a)
    then have "readable h' a" using assms(2) u(2) by blast
    then show ?thesis using Some by (auto simp: get_evaluated_arg_def cache_get_def thunk_get_owned_def readable_def)
  qed (simp add: get_evaluated_arg_def)
  then obtain arg where "get_evaluated_arg h' l = Some arg" by blast
  then show ?thesis using u peek_sealed_cont_bytes [of ?s]
    by (auto simp: eval_sealed_def Let_def split: sealed_cont.split)
qed

lemma eval_closurize_literal:
  assumes "container_literal v"
  shows "\<exists>v' h'. eval_closurize h v e = Some (v', h')"
proof (cases v)
  case (ArrayV d)
  show ?thesis
  proof (cases d)
    case (Alloc vc)
    obtain vs cs where vc: "vc = (vs, cs)" by (cases vc)
    have lit: "\<And>x. x \<in> set vs \<Longrightarrow> literal x" "list_all (\<lambda>c. literal (ctr_contract c)) cs"
      using assms ArrayV Alloc vc by (auto simp: container_literal_def list_all_iff)
    have "\<exists>ys h'. map_heap (\<lambda>h t. closurize h t e) h vs = Some (ys, h') \<and> fresh_values h h' (concat (map (\<lambda>v. [v]) ys))
        \<and> list_all2 (\<lambda>_ _. True) vs ys"
      by (rule map_heap_fresh) (use lit(1) closurize_literal in \<open>auto simp: closurize_def\<close>)
    then obtain vs' h1 where "map_heap (\<lambda>h t. closurize h t e) h vs = Some (vs', h1)" by blast
    moreover obtain cs' h2 where "closurize_contracts h1 cs e Normal = Some (cs', h2)"
      using closurize_contracts_literal [OF lit(2)] by blast
    ultimately show ?thesis using ArrayV Alloc vc by (simp add: eval_closurize_def)
  qed (use ArrayV in \<open>auto simp: eval_closurize_def\<close>)
next
  case (RecordV d)
  show ?thesis
  proof (cases d)
    case (Alloc r)
    then obtain r' h' where "closurize_record_data h r e Normal = Some (r', h')"
      using closurize_record_data_literal [of r h e Normal] assms RecordV by (auto simp: container_literal_def)
    then show ?thesis using RecordV Alloc by (simp add: eval_closurize_def)
  qed (use RecordV in \<open>simp add: eval_closurize_def\<close>)
next
  case (EnumVariant tag arg)
  show ?thesis
  proof (cases arg)
    case (Some w)
    then obtain w' h' where "closurize_as_btype h w e Normal = Some (w', h')"
      using closurize_literal [of w h e Normal] assms EnumVariant by (auto simp: container_literal_def)
    then show ?thesis using EnumVariant Some by (simp add: eval_closurize_def)
  qed (use EnumVariant in \<open>simp add: eval_closurize_def\<close>)
qed (use assms in \<open>auto simp: eval_closurize_def container_literal_def\<close>)

lemma rec_record_step_inv:
  assumes inv: "vm_inv sz s vm"
    and "if closurized then patchable (vm_heap vm) (record_values data) else list_all literal (record_values data)"
  shows "\<exists>v h. eval_rec_record (vm_heap vm) data [] deps closurized e = Some (v, h) \<and> vm_inv sz s (vm\<lparr>vm_heap := h\<rparr>)"
proof -
  have "\<exists>v h. eval_rec_record (vm_heap vm) data [] deps closurized e = Some (v, h)"
  proof (cases closurized)
    case True
    then show ?thesis using patched_record [of "vm_heap vm" data deps e] assms(2) by auto
  next
    case False
    then show ?thesis using literal_record [of data "vm_heap vm" deps e] assms(2) by auto
  qed
  then obtain v h where "eval_rec_record (vm_heap vm) data [] deps closurized e = Some (v, h)" by blast
  then show ?thesis using vm_inv_heap [OF inv holes.eval_rec_record_R] by blast
qed

lemma eval_step_inv:
  assumes inv: "vm_inv sz s vm" and ready: "step_ready s vm c"
  shows "\<exists>res vm' s'. eval_step sz vm c = Some (res, vm') \<and> vm_inv sz s' vm'"
proof -
  have st: "vm_stack vm = stack_bytes sz s" using inv by (simp add: vm_inv_def)
  have whnf: "\<exists>res vm' s'. eval_whnf sz vm c = Some (res, vm') \<and> vm_inv sz s' vm'"
    using eval_whnf_inv [OF inv] ready by (auto simp: step_ready_def)
  note push = vm_inv_push [OF inv]
  show ?thesis
  proof (cases "clo_value c")
    case (Thunk a)
    then have "readable (vm_heap vm) a" using ready by (simp add: step_ready_def)
    from enter_cache_index_inv [OF inv this] Thunk st show ?thesis by (auto simp: eval_step_def)
  next
    case (TermV t)
    show ?thesis
    proof (cases t)
      case (Var x)
      then have "\<forall>a. get_var (vm_initial_env vm) (clo_env c) x = Inr a \<longrightarrow> readable (vm_heap vm) a"
        using ready TermV by (simp add: step_ready_def)
      with enter_cache_index_inv [OF inv] TermV Var st inv show ?thesis
        by (cases "get_var (vm_initial_env vm) (clo_env c) x") (simp_all add: eval_step_def, blast+)
    next
      case (Fun x body)
      show ?thesis
      proof (cases "s \<noteq> [] \<and> (item_marker (hd s) = MUpdateIndex \<or> is_cont (item_marker (hd s)))")
        case True
        then show ?thesis using whnf TermV Fun st by (cases s) (auto simp: eval_step_def)
      next
        case False
        then have "s = [] \<or> item_marker (hd s) \<noteq> MUpdateIndex" by auto
        from pop_arg_as_idx_inv [OF inv this]
        show ?thesis
          using False TermV Fun st by (cases s) (auto simp: eval_step_def Let_def split: option.split)
      qed
    next
      case (Let bs body bty is_rec)
      obtain e' h' idxs where lb: "let_bind bs (clo_env c) bty (clo_env c) (vm_heap vm) [] = (e', h', idxs)"
        by (cases "let_bind bs (clo_env c) bty (clo_env c) (vm_heap vm) []")
      have h': "same_holes (vm_heap vm) h'" "list_all (\<lambda>a. a < length h') idxs"
        using let_bind_same_holes [OF lb] by auto
      obtain h'' where "patch_all h' idxs e' = Some h''" "same_holes h' h''"
        using patch_all_same_holes [OF h'(2)] by blast
      moreover then have "vm_inv sz s (vm\<lparr>vm_heap := h'\<rparr>)" "vm_inv sz s (vm\<lparr>vm_heap := h''\<rparr>)"
        using vm_inv_heap [OF inv] h'(1) same_holes_trans by blast+
      ultimately show ?thesis
        using TermV Let st lb by (cases is_rec) (auto simp: eval_step_def)
    next
      case (App f arg)
      then show ?thesis using TermV st push [of "ArgItem \<lparr>clo_value = arg, clo_env = clo_env c\<rparr> 0"]
        by (auto simp: eval_step_def push_arg_def Let_def)
    next
      case (Op1 op arg)
      then show ?thesis using TermV st push [of "Op1ContItem op no_app_info 0"]
        by (auto simp: eval_step_def push_arg_def Let_def)
    next
      case (Op2 op arg1 arg2)
      then show ?thesis using TermV st push [of "Op2FirstContItem op no_app_info \<lparr>clo_value = arg2, clo_env = clo_env c\<rparr> 0"]
        by (auto simp: eval_step_def push_arg_def Let_def)
    next
      case (OpN op args)
      then show ?thesis
        using TermV st inv push [of "OpNContItem op no_app_info []
          (map (\<lambda>v. \<lparr>clo_value = v, clo_env = clo_env c\<rparr>) (rev (tl args))) 0"]
        by (cases args) (auto simp: eval_step_def Let_def)
    next
      case (StrChunks chunks)
      then show ?thesis using eval_str_chunks_inv [OF inv] ready TermV st by (auto simp: eval_step_def step_ready_def)
    next
      case (Sealed key inner l)
      then show ?thesis using eval_sealed_inv [OF inv] ready TermV st by (auto simp: eval_step_def step_ready_def)
    next
      case (Closurize v)
      then obtain v' h where "eval_closurize (vm_heap vm) v (clo_env c) = Some (v', h)"
        using eval_closurize_literal ready TermV by (fastforce simp: step_ready_def)
      then show ?thesis using vm_inv_heap [OF inv holes.eval_closurize_R] TermV Closurize st
        by (fastforce simp: eval_step_def)
    next
      case (RecRecord data incl dyns deps closurized)
      then have "dyns = []" "incl = []"
        and ok: "if closurized then patchable (vm_heap vm) (record_values data) else list_all literal (record_values data)"
        using ready TermV by (auto simp: step_ready_def split: if_splits)
      then show ?thesis using rec_record_step_inv [OF inv ok, of deps "clo_env c"] TermV RecRecord st inv
        by (cases closurized) (auto simp: eval_step_def assert_ok_def vm_fresh_same)
    next
      case (Annotated annot inner)
      then obtain r n where "annotated_inner annot inner (vm_fresh vm) = Some (r, n)"
        using annotated_inner_returns ready TermV by (fastforce simp: step_ready_def)
      then show ?thesis using TermV Annotated st vm_inv_fresh [OF inv] by (cases r) (auto simp: eval_step_def)
    next
      case (ResolvedImport i)
      then show ?thesis using TermV st inv by (cases "vm_imports vm i") (auto simp: eval_step_def)
    qed (use TermV st inv in \<open>auto simp: eval_step_def\<close>)
  qed (use whnf st in \<open>auto simp: eval_step_def\<close>)
qed

lemma eval_steps_inv:
  "vm_inv sz s vm \<Longrightarrow> run_ready sz n vm c \<Longrightarrow>
    \<exists>res vm' s'. eval_steps sz n vm c = Some (res, vm') \<and> vm_inv sz s' vm'"
proof (induction n arbitrary: s vm c)
  case (Suc n)
  have "step_ready s vm c" using Suc.prems by simp
  then obtain r vm1 s1 where step: "eval_step sz vm c = Some (r, vm1)" "vm_inv sz s1 vm1"
    using eval_step_inv [OF Suc.prems(1)] by blast
  then show ?case
    using Suc.IH [OF step(2)] Suc.prems(2) by (cases r) auto
qed auto

end

section \<open>Application of a saturated thunk\<close>

fun env_binds :: "env \<Rightarrow> ident list \<Rightarrow> addr list \<Rightarrow> env" where
  "env_binds e (x # xs) (n # ns) = env_binds (e(x \<mapsto> n)) xs ns"
| "env_binds e _ _ = e"

lemma env_binds_other: "y \<notin> set xs \<Longrightarrow> env_binds e xs ns y = e y"
  by (induction e xs ns rule: env_binds.induct) auto

lemma env_binds_nth:
  "distinct xs \<Longrightarrow> length ns = length xs \<Longrightarrow> i < length xs \<Longrightarrow> env_binds e xs ns (xs ! i) = Some (ns ! i)"
proof (induction e xs ns arbitrary: i rule: env_binds.induct)
  case (1 e x xs n ns)
  then show ?case by (cases i) (simp_all add: env_binds_other fun_upd_def)
qed auto

lemma vm_stack_same: "vm_stack vm = st \<Longrightarrow> vm\<lparr>vm_stack := st\<rparr> = vm"
  by auto

context item_sizes begin

text \<open>The spine of applications pushes the arguments, the first one on top.\<close>

lemma eval_steps_spine:
  "vm_stack vm = stack_bytes sz s \<Longrightarrow>
   eval_steps sz (length args + n) vm \<lparr>clo_value = foldl (\<lambda>pa x. TermV (App pa x)) f args, clo_env = e\<rparr>
    = eval_steps sz n
        (vm\<lparr>vm_stack := stack_bytes sz (map (\<lambda>x. ArgItem \<lparr>clo_value = x, clo_env = e\<rparr> 0) args @ s)\<rparr>)
        \<lparr>clo_value = f, clo_env = e\<rparr>"
proof (induction args arbitrary: vm s n rule: rev_induct)
  case (snoc x args)
  let ?it = "ArgItem \<lparr>clo_value = x, clo_env = e\<rparr> 0"
  have "eval_steps sz (length (args @ [x]) + n) vm
      \<lparr>clo_value = foldl (\<lambda>pa x. TermV (App pa x)) f (args @ [x]), clo_env = e\<rparr>
    = eval_steps sz (length args + n) (vm\<lparr>vm_stack := stack_bytes sz (?it # s)\<rparr>)
        \<lparr>clo_value = foldl (\<lambda>pa x. TermV (App pa x)) f args, clo_env = e\<rparr>"
    using snoc.prems by (simp add: eval_step_def push_arg_def stack_bytes.simps)
  then show ?case using snoc.IH [of "vm\<lparr>vm_stack := stack_bytes sz (?it # s)\<rparr>" "?it # s" n] by simp
qed (simp add: vm_stack_same)

text \<open>Nested functions consume the arguments, allocating one thunk for each.\<close>

lemma eval_steps_beta:
  "vm_stack vm = stack_bytes sz (map (\<lambda>v. ArgItem \<lparr>clo_value = v, clo_env = e\<rparr> 0) vs @ s) \<Longrightarrow> length vs = length xs \<Longrightarrow>
   eval_steps sz (length xs) vm \<lparr>clo_value = foldr (\<lambda>x b. TermV (Fun x b)) xs body, clo_env = e0\<rparr>
    = Some (Continue \<lparr>clo_value = body,
          clo_env = env_binds e0 xs [length (vm_heap vm) ..< length (vm_heap vm) + length xs]\<rparr>,
        vm\<lparr>vm_stack := stack_bytes sz s,
           vm_heap := vm_heap vm @ map (\<lambda>v. td_new \<lparr>clo_value = v, clo_env = e\<rparr>) vs\<rparr>)"
proof (induction xs arbitrary: vm vs e0)
  case Nil
  then show ?case by (simp add: vm_stack_same)
next
  case (Cons x xs)
  then obtain v vs' where vs: "vs = v # vs'" by (cases vs) auto
  define vm1 where "vm1 = vm\<lparr>vm_stack := stack_bytes sz (map (\<lambda>v. ArgItem \<lparr>clo_value = v, clo_env = e\<rparr> 0) vs' @ s),
    vm_heap := vm_heap vm @ [td_new \<lparr>clo_value = v, clo_env = e\<rparr>]\<rparr>"
  have "eval_step sz vm \<lparr>clo_value = foldr (\<lambda>x b. TermV (Fun x b)) (x # xs) body, clo_env = e0\<rparr>
      = Some (Continue \<lparr>clo_value = foldr (\<lambda>x b. TermV (Fun x b)) xs body,
          clo_env = e0(x \<mapsto> length (vm_heap vm))\<rparr>, vm1)"
    using Cons.prems(1) by (simp add: eval_step_def vs pop_arg_as_idx_bytes is_cont_def vm1_def)
  moreover have "length (vm_heap vm1) = Suc (length (vm_heap vm))" by (simp add: vm1_def)
  moreover have "vm_stack vm1 = stack_bytes sz (map (\<lambda>v. ArgItem \<lparr>clo_value = v, clo_env = e\<rparr> 0) vs' @ s)"
    "length vs' = length xs"
    using Cons.prems(2) by (simp_all add: vm1_def vs)
  note Cons.IH [OF this, of "e0(x \<mapsto> length (vm_heap vm))"]
  ultimately show ?case by (simp add: vs vm1_def upt_conv_Cons fun_upd_def del: upt_Suc)
qed

end

end
