(* ===== verification/Machine_Props.thy ===== *)
theory Machine_Props
  imports Machine_Inv
begin

text \<open>
  The properties of the abstract machine: black-holing follows the stack, resetting after any
  run clears it, and a saturated revertible thunk evaluates to what building its cached value
  computes directly.
\<close>

lemma map_of_filter_key: "map_of (filter (\<lambda>(x, _). P x) kvs) x = (if P x then map_of kvs x else None)"
  by (induction kvs) auto

lemma init_cached_new_rev:
  "td_init_cached (td_new_rev orig deps) renv =
    Some ((td_new_rev orig deps)\<lparr>td_inner := RevertibleThunk orig
      (Some (orig\<lparr>clo_env := clo_env orig ++ map_of (rev (filter (\<lambda>(x, _). deps_filter deps x) renv))\<rparr>)) deps\<rparr>)"
  by (cases deps) (auto simp: td_init_cached_def td_new_rev_def deps_filter_def env_extend_eq assert_ok_bind)

lemma map_of_rev_distinct: "distinct (map fst kvs) \<Longrightarrow> map_of (rev kvs) = map_of kvs"
  by (subst map_of_inject_set) (simp_all flip: rev_map)

context item_sizes begin

lemma eval_steps_fun_thunk:
  assumes st: "vm_stack vm = stack_bytes sz s" and top: "s \<noteq> []" "item_marker (hd s) = MArg"
    and f: "f < length (vm_heap vm)" "vm_heap vm ! f = td_new \<lparr>clo_value = TermV (Fun x b), clo_env = e0\<rparr>"
  shows "eval_steps sz (Suc (Suc n)) vm \<lparr>clo_value = Thunk f, clo_env = e\<rparr> =
    eval_steps sz n (vm\<lparr>vm_heap := (vm_heap vm)[f := td_update \<lparr>clo_value = TermV (Fun x b), clo_env = e0\<rparr>
        (td_new \<lparr>clo_value = TermV (Fun x b), clo_env = e0\<rparr>)]\<rparr>)
      \<lparr>clo_value = TermV (Fun x b), clo_env = e0\<rparr>"
proof -
  let ?c = "\<lparr>clo_value = TermV (Fun x b), clo_env = e0\<rparr>"
  let ?h1 = "(vm_heap vm)[f := (td_new ?c)\<lparr>td_state := Blackholed\<rparr>]"
  let ?vm1 = "vm\<lparr>vm_heap := ?h1, vm_stack := stack_bytes sz (UpdateIndexItem f # s)\<rparr>"
  have c: "td_closure (vm_heap vm ! f) = Some ?c" using f by (simp add: td_new_def td_closure_def)
  have enter: "eval_step sz vm \<lparr>clo_value = Thunk f, clo_env = e\<rparr> = Some (Continue ?c, ?vm1)"
    using get_update_index_table [OF f(1) c] f st
    by (simp add: eval_step_def enter_cache_index_def cache_get_def thunk_get_owned_def td_new_def
        td_closure_def push_update_index_def stack_bytes.simps)
  have upd: "update_at_indices sz ?h1 (stack_bytes sz (UpdateIndexItem f # s)) ?c
      = Some (?h1[f := td_update ?c (?h1 ! f)], stack_bytes sz s)"
  proof -
    have "pop_update_index sz (stack_bytes sz s) = Some (None, stack_bytes sz s)"
      using top pop_update_index_bytes [of s] by (cases s) (auto split: stack_item.splits)
    then show ?thesis
      using pop_update_index_bytes [of "UpdateIndexItem f # s"] f(1)
      by (subst update_at_indices.simps, simp add: thunk_update_def heap_map_def,
          subst update_at_indices.simps, simp)
  qed
  have "?h1[f := td_update ?c (?h1 ! f)] = (vm_heap vm)[f := td_update ?c (td_new ?c)]"
    using f(1) by (simp add: td_update_def td_new_def)
  with upd have "eval_step sz ?vm1 ?c = Some (Continue ?c, vm\<lparr>vm_heap := (vm_heap vm)[f := td_update ?c (td_new ?c)],
      vm_stack := stack_bytes sz s\<rparr>)"
    by (simp add: eval_step_def eval_whnf_def)
  moreover have "vm\<lparr>vm_heap := h, vm_stack := stack_bytes sz s\<rparr> = vm\<lparr>vm_heap := h\<rparr>" for h
    using st by auto
  ultimately show ?thesis using enter by simp
qed

lemma saturated_run:
  assumes st: "vm_stack vm = stack_bytes sz s" and args: "args \<noteq> []" "distinct args"
    and heap: "vm_heap vm = h @ [td_new \<lparr>clo_value = foldr (\<lambda>x b. TermV (Fun x b)) args body, clo_env = e0\<rparr>]"
  shows "\<exists>n vm' c. eval_steps sz n vm
      \<lparr>clo_value = foldl (\<lambda>pa x. TermV (App pa x)) (Thunk (length h)) (map (\<lambda>x. TermV (Var x)) args), clo_env = e\<rparr>
      = Some (Continue c, vm') \<and> vm_stack vm' = vm_stack vm \<and> clo_value c = body
    \<and> (\<forall>x \<in> set args. \<exists>p. clo_env c x = Some p \<and> p < length (vm_heap vm')
        \<and> vm_heap vm' ! p = td_new \<lparr>clo_value = TermV (Var x), clo_env = e\<rparr>)
    \<and> (\<forall>x. x \<notin> set args \<longrightarrow> clo_env c x = e0 x)"
proof -
  let ?vs = "map (\<lambda>x. TermV (Var x)) args" and ?f = "length h"
  let ?expl = "\<lparr>clo_value = foldr (\<lambda>x b. TermV (Fun x b)) args body, clo_env = e0\<rparr>"
  let ?s = "map (\<lambda>v. ArgItem \<lparr>clo_value = v, clo_env = e\<rparr> 0) ?vs @ s"
  define vm1 where "vm1 = vm\<lparr>vm_stack := stack_bytes sz ?s\<rparr>"
  define vm2 where "vm2 = vm1\<lparr>vm_heap := (vm_heap vm1)[?f := td_update ?expl (td_new ?expl)]\<rparr>"
  define H where "H = length (vm_heap vm2)"
  obtain y ys where args_eq: "args = y # ys" using args(1) by (cases args) auto
  have 1: "eval_steps sz (length ?vs + m) vm
      \<lparr>clo_value = foldl (\<lambda>pa x. TermV (App pa x)) (Thunk ?f) ?vs, clo_env = e\<rparr>
      = eval_steps sz m vm1 \<lparr>clo_value = Thunk ?f, clo_env = e\<rparr>" for m
    unfolding vm1_def by (rule eval_steps_spine [OF st])
  have 2: "eval_steps sz (Suc (Suc m)) vm1 \<lparr>clo_value = Thunk ?f, clo_env = e\<rparr> = eval_steps sz m vm2 ?expl" for m
    using eval_steps_fun_thunk [of vm1 ?s ?f y "foldr (\<lambda>x b. TermV (Fun x b)) ys body" e0] heap args_eq
    by (simp add: vm1_def vm2_def nth_append)
  have len2: "length args = length ?vs" by simp
  have st2: "vm_stack vm2 = stack_bytes sz ?s" by (simp add: vm1_def vm2_def)
  have 3: "eval_steps sz (length args) vm2 ?expl =
      Some (Continue \<lparr>clo_value = body, clo_env = env_binds e0 args [H ..< H + length args]\<rparr>,
        vm2\<lparr>vm_stack := stack_bytes sz s,
           vm_heap := vm_heap vm2 @ map (\<lambda>v. td_new \<lparr>clo_value = v, clo_env = e\<rparr>) ?vs\<rparr>)"
    unfolding H_def by (rule eval_steps_beta [OF st2]) simp
  have bound: "\<exists>p. env_binds e0 args [H ..< H + length args] x = Some p \<and> p < H + length args
      \<and> (vm_heap vm2 @ map (\<lambda>v. td_new \<lparr>clo_value = v, clo_env = e\<rparr>) ?vs) ! p
        = td_new \<lparr>clo_value = TermV (Var x), clo_env = e\<rparr>"
    if x: "x \<in> set args" for x
  proof -
    obtain i where i: "i < length args" "args ! i = x" using x by (auto simp: in_set_conv_nth)
    then have "env_binds e0 args [H ..< H + length args] x = Some (H + i)"
      using env_binds_nth [OF args(2), of "[H ..< H + length args]" i e0] by simp
    with i show ?thesis by (simp add: H_def nth_append)
  qed
  show ?thesis
    by (rule exI [of _ "length ?vs + Suc (Suc (length args))"], rule exI, rule exI, intro conjI,
        subst 1, subst 2, rule 3)
      (use bound env_binds_other st in \<open>auto simp: H_def\<close>)
qed

end

section \<open>Properties\<close>

text \<open>
  Iterations of the loop keep the correspondence between the stack and the heap: starting
  with black-holed thunks exactly those that have an update frame on the stack, and with the
  thunk about to be entered readable, an iteration completes without a panic or a misread item and
  ends in such a state again.
\<close>

theorem eval_step_keeps_blackhole_frames:
  assumes "\<And>m. 0 < sz m" and "vm_inv sz s vm" and "step_ready s vm c"
  shows "\<exists>res vm' s'. eval_step sz vm c = Some (res, vm') \<and> vm_inv sz s' vm'"
proof -
  have "item_sizes sz" using assms(1) by unfold_locales
  then show ?thesis using assms(2,3) by (rule item_sizes.eval_step_inv)
qed

theorem eval_step_keeps_blackhole_frames_witness:
  "\<exists>res vm' s'. eval_step word_sizes \<lparr>vm_stack = [], vm_heap = [td_new (closure_of_value (TermV (Var ''x'')))],
      vm_initial_env = Map.empty, vm_imports = Map.empty, vm_fresh = 0\<rparr> (closure_of_value (Thunk 0)) = Some (res, vm') \<and> vm_inv word_sizes s' vm'"
proof -
  let ?vm = "\<lparr>vm_stack = [], vm_heap = [td_new (closure_of_value (TermV (Var ''x'')))], vm_initial_env = Map.empty, vm_imports = Map.empty, vm_fresh = 0\<rparr>"
  have inv: "vm_inv word_sizes [] ?vm" by (simp add: vm_inv_def stack_bytes.simps td_new_def)
  have ready: "step_ready [] ?vm (closure_of_value (Thunk 0))"
    by (simp add: step_ready_def closure_of_value_def readable_def td_new_def td_closure_def)
  show ?thesis using eval_step_keeps_blackhole_frames [OF word_stack.sz_pos inv ready] by blast
qed

text \<open>
  Resetting the machine after a run, whether it stopped on a result, on an error or in the
  middle, empties the stack and leaves no thunk black-holed, so the next evaluation does not
  report spurious infinite recursions.
\<close>

theorem vm_reset_clears_blackholes:
  assumes "\<And>m. 0 < sz m" and "vm_inv sz s vm" and "run_ready sz n vm c"
  shows "\<exists>res vm' vm''. eval_steps sz n vm c = Some (res, vm') \<and> vm_reset sz vm' = Some vm''
    \<and> vm_stack vm'' = [] \<and> (\<forall>td \<in> set (vm_heap vm''). td_state td \<noteq> Blackholed)"
proof -
  have sizes: "item_sizes sz" using assms(1) by unfold_locales
  obtain res vm' s' where run: "eval_steps sz n vm c = Some (res, vm')" and inv: "vm_inv sz s' vm'"
    using item_sizes.eval_steps_inv [OF sizes assms(2,3)] by blast
  note st = vm_invD(1) [OF inv] and fr = vm_invD(2) [OF inv] and bh = vm_invD(3) [OF inv]
  obtain h' where h': "unwind sz (stack_bytes sz s') (vm_heap vm') = Some ([], h')"
    "length h' = length (vm_heap vm')"
    "\<forall>a < length (vm_heap vm'). h' ! a = (if a \<in> set (frames s') then (vm_heap vm' ! a)\<lparr>td_state := Suspended\<rparr> else vm_heap vm' ! a)"
    using item_sizes.unwind_frames [OF sizes fr] by blast
  have "td_state td \<noteq> Blackholed" if td: "td \<in> set h'" for td
  proof -
    obtain i where i: "i < length (vm_heap vm')" "td = h' ! i" using td h'(2) by (auto simp: in_set_conv_nth)
    have "td = (if i \<in> set (frames s') then (vm_heap vm' ! i)\<lparr>td_state := Suspended\<rparr> else vm_heap vm' ! i)"
      unfolding i(2) by (rule h'(3) [rule_format, OF i(1)])
    moreover have "td_state (vm_heap vm' ! i) = Blackholed \<longleftrightarrow> i \<in> set (frames s')" by (rule bh [OF i(1)])
    ultimately show ?thesis by (cases "i \<in> set (frames s')") simp_all
  qed
  moreover have "vm_reset sz vm' = Some (vm'\<lparr>vm_stack := [], vm_heap := h'\<rparr>)"
    using h'(1) st by (simp add: vm_reset_def)
  ultimately have "vm_reset sz vm' = Some (vm'\<lparr>vm_stack := [], vm_heap := h'\<rparr>)
    \<and> vm_stack (vm'\<lparr>vm_stack := [], vm_heap := h'\<rparr>) = []
    \<and> (\<forall>td \<in> set (vm_heap (vm'\<lparr>vm_stack := [], vm_heap := h'\<rparr>)). td_state td \<noteq> Blackholed)"
    by simp
  with run show ?thesis by metis
qed

theorem vm_reset_clears_blackholes_witness:
  "\<exists>res vm' vm''. eval_steps word_sizes 1 \<lparr>vm_stack = [], vm_heap = [td_new (closure_of_value (TermV (Var ''x'')))],
      vm_initial_env = Map.empty, vm_imports = Map.empty, vm_fresh = 0\<rparr> (closure_of_value (Thunk 0)) = Some (res, vm')
    \<and> vm_reset word_sizes vm' = Some vm'' \<and> (\<forall>td \<in> set (vm_heap vm''). td_state td \<noteq> Blackholed)"
proof -
  let ?vm = "\<lparr>vm_stack = [], vm_heap = [td_new (closure_of_value (TermV (Var ''x'')))], vm_initial_env = Map.empty, vm_imports = Map.empty, vm_fresh = 0\<rparr>"
  have inv: "vm_inv word_sizes [] ?vm" by (simp add: vm_inv_def stack_bytes.simps td_new_def)
  have "s = []" if "vm_inv word_sizes s ?vm" for s
    using that stack_bytes_eq_Nil [of word_sizes s] by (simp add: vm_inv_def del: stack_bytes_eq_Nil)
  then have "run_ready word_sizes 1 ?vm (closure_of_value (Thunk 0))"
    by (auto simp: step_ready_def closure_of_value_def readable_def td_new_def td_closure_def)
  from vm_reset_clears_blackholes [OF word_stack.sz_pos inv this] show ?thesis by blast
qed

text \<open>
  Saturation computes what building the cached value computes. For a revertible thunk with a
  dependency among the fields, the machine evaluates the application that \<open>saturate\<close> returns to
  the original body, in the original environment where each dependency among the fields is bound
  to a thunk of the variable of that name in the environment of the application, with the stack
  unchanged. \<open>init_cached\<close> gives the same body in the same environment, with each dependency
  bound directly to its value in the recursive environment.
\<close>

theorem saturate_agrees_with_init_cached:
  assumes "\<And>m. 0 < sz m" and "a < length h" and "td_inner (h ! a) = RevertibleThunk orig cached deps"
    and "distinct (map fst renv)" and "args = filter (deps_filter deps) (map fst renv)" and "args \<noteq> []"
    and "thunk_saturate h a (map fst renv) = Some (v, h1)"
    and "vm_heap vm = h1" and "vm_stack vm = stack_bytes sz s"
  shows "\<exists>n vm' c td c2. eval_steps sz n vm \<lparr>clo_value = v, clo_env = e\<rparr> = Some (Continue c, vm')
    \<and> vm_stack vm' = vm_stack vm \<and> clo_value c = clo_value orig
    \<and> (\<forall>x \<in> set args. \<exists>p. clo_env c x = Some p \<and> p < length (vm_heap vm')
        \<and> vm_heap vm' ! p = td_new \<lparr>clo_value = TermV (Var x), clo_env = e\<rparr>)
    \<and> td_init_cached (td_new_rev orig deps) renv = Some td \<and> td_closure td = Some c2
    \<and> clo_value c2 = clo_value c
    \<and> (\<forall>x. clo_env c2 x = (if x \<in> set args then map_of renv x else clo_env c x))"
proof -
  have sizes: "item_sizes sz" using assms(1) by unfold_locales
  have sat: "v = foldl (\<lambda>pa x. TermV (App pa x)) (Thunk (length h)) (map (\<lambda>x. TermV (Var x)) args)"
    "h1 = h @ [td_new \<lparr>clo_value = foldr (\<lambda>x b. TermV (Fun x b)) args (clo_value orig), clo_env = clo_env orig\<rparr>]"
    using assms(2,3,5,7)
    by (auto simp: thunk_saturate_def thunk_deps_def td_deps_def heap_alloc_def revthunk_as_explicit_fun_def Let_def)
  have "distinct args" using assms(4,5) by simp
  then obtain n vm' c where run: "eval_steps sz n vm \<lparr>clo_value = v, clo_env = e\<rparr> = Some (Continue c, vm')"
    "vm_stack vm' = vm_stack vm" "clo_value c = clo_value orig"
    "\<forall>x \<in> set args. \<exists>p. clo_env c x = Some p \<and> p < length (vm_heap vm')
        \<and> vm_heap vm' ! p = td_new \<lparr>clo_value = TermV (Var x), clo_env = e\<rparr>"
    "\<forall>x. x \<notin> set args \<longrightarrow> clo_env c x = clo_env orig x"
    using item_sizes.saturated_run [OF sizes assms(9) assms(6), of h "clo_value orig" "clo_env orig" e] sat assms(8)
    by auto
  let ?flt = "filter (\<lambda>(x, _). deps_filter deps x) renv"
  let ?c2 = "orig\<lparr>clo_env := clo_env orig ++ map_of (rev ?flt)\<rparr>"
  have "map_of (rev ?flt) = map_of ?flt"
    by (rule map_of_rev_distinct) (use assms(4) distinct_map_filter in fast)
  then have "clo_env ?c2 x = (if x \<in> set args then map_of renv x else clo_env c x)" for x
    using run(5) assms(5)
    by (cases "map_of renv x") (auto simp: map_of_filter_key map_add_def map_of_eq_None_iff
        split: option.splits dest: map_of_SomeD intro: rev_image_eqI)
  moreover have "td_closure ((td_new_rev orig deps)\<lparr>td_inner := RevertibleThunk orig (Some ?c2) deps\<rparr>) = Some ?c2"
    by (simp add: td_closure_def)
  moreover have "clo_value ?c2 = clo_value c" using run(3) by simp
  ultimately show ?thesis
    using run(1-4) init_cached_new_rev [of orig deps renv] by blast
qed

theorem saturate_agrees_with_init_cached_witness:
  "\<exists>n vm' c. eval_steps word_sizes n
      \<lparr>vm_stack = [], vm_heap =
         [td_new_rev (closure_of_value (TermV (Var ''x''))) Unknown,
          td_new (closure_of_value (TermV (Fun ''x'' (TermV (Var ''x'')))))],
       vm_initial_env = Map.empty, vm_imports = Map.empty, vm_fresh = 0\<rparr>
      \<lparr>clo_value = TermV (App (Thunk 1) (TermV (Var ''x''))), clo_env = [''x'' \<mapsto> 0]\<rparr> = Some (Continue c, vm')
    \<and> vm_stack vm' = [] \<and> clo_value c = TermV (Var ''x'')"
proof -
  let ?h = "[td_new_rev (closure_of_value (TermV (Var ''x''))) Unknown]"
  let ?h1 = "[td_new_rev (closure_of_value (TermV (Var ''x''))) Unknown,
    td_new (closure_of_value (TermV (Fun ''x'' (TermV (Var ''x'')))))]"
  let ?vm = "\<lparr>vm_stack = [], vm_heap = ?h1, vm_initial_env = Map.empty, vm_imports = Map.empty, vm_fresh = 0\<rparr>"
  have inner: "td_inner (?h ! 0) = RevertibleThunk (closure_of_value (TermV (Var ''x''))) None Unknown"
    by (simp add: td_new_rev_def)
  have args: "[''x''] = filter (deps_filter Unknown) (map fst [(''x'', 0 :: addr)])"
    by (simp add: deps_filter_def)
  have sat: "thunk_saturate ?h 0 (map fst [(''x'', 0 :: addr)]) = Some (TermV (App (Thunk 1) (TermV (Var ''x''))), ?h1)"
    by (simp add: thunk_saturate_def thunk_deps_def td_deps_def td_new_rev_def deps_filter_def heap_alloc_def
        revthunk_as_explicit_fun_def closure_of_value_def)
  show ?thesis
    using saturate_agrees_with_init_cached [of word_sizes 0 ?h, OF word_stack.sz_pos _ inner _ args _ sat,
        of ?vm "[]" "[''x'' \<mapsto> 0]"]
    by (auto simp: stack_bytes.simps closure_of_value_def)
qed

end
