(* ===== verification/Merge_Props.thy ===== *)
theory Merge_Props
  imports Merge_Correct
begin

text \<open>
  The properties of the merge operator: what the merge of two records contains, when it fails, the
  verdict of a record contract, and the algebra of priorities. The facts come from
  \<open>Merge_Correct\<close>; the concrete records below serve as inputs of the witnesses.
\<close>

section \<open>When a merge succeeds\<close>

text \<open>
  The specification of success: equal constants, enum variants of one tag and shape, two arrays,
  or two records neither of which hides fields behind a polymorphic tail. An inline empty record
  merges with every record.
\<close>

definition mergeable :: "nickel_value \<Rightarrow> nickel_value \<Rightarrow> bool" where
  "mergeable v1 v2 \<longleftrightarrow>
    (case v1 of
       Null \<Rightarrow> v2 = Null | Bool b \<Rightarrow> v2 = Bool b | Number n \<Rightarrow> v2 = Number n
     | String s \<Rightarrow> v2 = String s | LabelV l \<Rightarrow> v2 = LabelV l
     | EnumVariant tag arg1 \<Rightarrow> (\<exists>arg2. v2 = EnumVariant tag arg2 \<and> (arg1 = None \<longleftrightarrow> arg2 = None))
     | ArrayV _ \<Rightarrow> (\<exists>c. v2 = ArrayV c)
     | RecordV c1 \<Rightarrow> (\<exists>c2. v2 = RecordV c2 \<and>
         (\<forall>r1 r2. c1 = Alloc r1 \<and> c2 = Alloc r2 \<longrightarrow> record_sealed_tail r1 = None \<and> record_sealed_tail r2 = None))
     | _ \<Rightarrow> False)"

lemma mergeable_sym: "mergeable v1 v2 \<longleftrightarrow> mergeable v2 v1"
  by (cases v1; cases v2) (auto simp: mergeable_def)

text \<open>
  What closurizing a value relies on: a thunk is in the heap, and a generated variable is bound.
\<close>

definition closurizable :: "heap \<Rightarrow> env \<Rightarrow> nickel_value \<Rightarrow> bool" where
  "closurizable h e v \<longleftrightarrow> value_ok h v \<and> (\<forall>x. v = TermV (Var x) \<and> is_generated x \<longrightarrow> e x \<noteq> None)"

definition operand_ok :: "heap \<Rightarrow> env \<Rightarrow> nickel_value \<Rightarrow> bool" where
  "operand_ok h e v \<longleftrightarrow>
    (case v of
       RecordV (Alloc r) \<Rightarrow> record_ok h r
     | EnumVariant _ (Some arg) \<Rightarrow> closurizable h e arg
     | _ \<Rightarrow> True)"

lemma closurize_ok:
  assumes "closurizable h e v"
  shows "\<exists>v' h'. closurize h v e = Some (v', h') \<and> heap_le h h'"
proof -
  obtain a where fresh: "cache_add h \<lparr>clo_value = v, clo_env = e\<rparr> Normal = (length h, h @ [a])"
    by (simp add: cache_add_def thunk_new_def heap_alloc_def)
  show ?thesis
  proof (cases v)
    case (Thunk a)
    then show ?thesis using assms fresh
      by (auto simp: closurizable_def closurize_def closurize_as_btype_def thunk_deps_def assert_ok_def)
  next
    case (TermV t)
    then show ?thesis using assms fresh
      by (cases t) (auto simp: closurizable_def closurize_def closurize_as_btype_def split: option.splits)
  qed (use fresh in \<open>auto simp: closurize_def closurize_as_btype_def\<close>)
qed

lemma closurizable_mono: "heap_le h h' \<Longrightarrow> closurizable h e v \<Longrightarrow> closurizable h' e v"
  by (auto simp: closurizable_def intro: value_ok_mono)

lemma closurize_plain:
  assumes "\<not> is_constant v" and "\<forall>a. v \<noteq> Thunk a" and "\<forall>x. v \<noteq> TermV (Var x)"
  shows "closurize h v e = Some (Thunk (length h), h @ [td_new \<lparr>clo_value = v, clo_env = e\<rparr>])"
proof (cases v)
  case (TermV t)
  then show ?thesis using assms
    by (cases t) (auto simp: closurize_def closurize_as_btype_def cache_add_def thunk_new_def heap_alloc_def)
qed (use assms in \<open>auto simp: closurize_def closurize_as_btype_def cache_add_def thunk_new_def heap_alloc_def\<close>)

lemma merge_enum_ok:
  assumes "closurizable h env1 a1" and "closurizable h env2 a2"
  shows "\<exists>arg h'. merge_operands sr ceq teq h (EnumVariant tag (Some a1)) env1 (EnumVariant tag (Some a2)) env2 mode
      = Some (Inr (Inr (EnumVariant tag (Some arg))), h') \<and> heap_le h h'"
proof -
  obtain v1 h1 where c1: "closurize h a1 env1 = Some (v1, h1)" "heap_le h h1"
    using closurize_ok [OF assms(1)] by blast
  obtain v2 h2 where c2: "closurize h1 a2 env2 = Some (v2, h2)" "heap_le h1 h2"
    using closurize_ok [OF closurizable_mono [OF c1(2) assms(2)]] by blast
  let ?t = "TermV (Op2 (BinOp (Merge (mode_label mode))) v1 v2)"
  have c3: "closurize h2 ?t Map.empty = Some (Thunk (length h2), h2 @ [td_new \<lparr>clo_value = ?t, clo_env = Map.empty\<rparr>])"
    by (rule closurize_plain) simp_all
  show ?thesis
    using c1(1) c2(1) c3 heap_le_trans [OF c1(2) heap_le_trans [OF c2(2) heap_le_append]]
    by (simp add: merge_operands_def)
qed

lemma merge_arrays_ok:
  "\<exists>f v2 h'. merge_operands sr ceq teq h (ArrayV c1) env1 (ArrayV c2) env2 mode =
      Some (Inr (Inr (TermV (App f v2))), h') \<and> heap_le h h'"
proof -
  have ok: "closurizable h' e (ArrayV c)" for h' e c by (simp add: closurizable_def)
  obtain v1 h1 where v1: "closurize h (ArrayV c1) env1 = Some (v1, h1)" "heap_le h h1" using closurize_ok [OF ok] by blast
  obtain v2 h2 where v2: "closurize h1 (ArrayV c2) env2 = Some (v2, h2)" "heap_le h1 h2" using closurize_ok [OF ok] by blast
  show ?thesis using v1(1) v2(1) heap_le_trans [OF v1(2) v2(2)] by (simp add: merge_operands_def)
qed

text \<open>Records: every outcome of \<open>merge_records\<close>.\<close>

lemma merge_records_sealed:
  assumes "record_sealed_tail r1 \<noteq> None \<or> record_sealed_tail r2 \<noteq> None"
  shows "\<exists>tail. option_or (record_sealed_tail r1) (record_sealed_tail r2) = Some tail
    \<and> merge_records sr ceq teq h r1 r2 mode = Some (Inl (IllegalPolymorphicTailAccess (tail_label tail)), h)"
  using assms by (auto simp: merge_records_def option_or_def split: option.splits)

lemma merge_records_extra:
  assumes sr: "swap_removal sr" and wf: "record_wf r1" "record_wf r2"
    and tails: "record_sealed_tail r1 = None" "record_sealed_tail r2 = None"
    and closed: "\<not> attrs_open (record_attributes r2)"
    and extra: "\<not> fst ` set (record_fields r1) \<subseteq> fst ` set (record_fields r2)"
  shows "\<exists>names. merge_records sr ceq teq h r1 r2 (ContractMode l) = Some (Inr (Inl (extra_fields_error names)), h)
    \<and> distinct names \<and> set names = fst ` set (record_fields r1) - fst ` set (record_fields r2)"
proof -
  let ?r = "split_ref sr (record_fields r1) (record_fields r2)"
  have spec: "split_spec (map_of (record_fields r1)) (map_of (record_fields r2)) ?r"
    using wf by (intro swap_removal.split_ref_spec [OF sr]) (auto simp: record_wf_def)
  have "split_left ?r \<noteq> []" using split_keys(1) [OF spec] extra by auto
  then have "merge_records sr ceq teq h r1 r2 (ContractMode l) =
      Some (Inr (Inl (extra_fields_error (map fst (split_left ?r)))), h)"
    using tails closed by (simp add: merge_records_def option_or_def Let_def)
  moreover have "distinct (map fst (split_left ?r))" using spec by (simp add: split_spec_def im_wf_def)
  moreover have "set (map fst (split_left ?r)) = fst ` set (record_fields r1) - fst ` set (record_fields r2)"
    using split_keys(1) [OF spec] by simp
  ultimately show ?thesis by blast
qed

text \<open>Every pair of operands, with the two kinds of success told apart by what is left to do.\<close>

lemma merge_operands_records:
  assumes "swap_removal sr" and "record_ok h r1" and "record_ok h r2"
  shows "\<exists>r h'. merge_records sr ceq teq h r1 r2 mode = Some (r, h') \<and> heap_le h h'
    \<and> (isl r \<longleftrightarrow> record_sealed_tail r1 \<noteq> None \<or> record_sealed_tail r2 \<noteq> None)
    \<and> (\<forall>v. r = Inr (Inr v) \<longrightarrow> closurizable h' Map.empty v)"
proof (cases "record_sealed_tail r1 = None \<and> record_sealed_tail r2 = None")
  case False
  then have "record_sealed_tail r1 \<noteq> None \<or> record_sealed_tail r2 \<noteq> None" by auto
  from merge_records_sealed [OF this, of sr ceq teq h mode]
  obtain l where "merge_records sr ceq teq h r1 r2 mode = Some (Inl (IllegalPolymorphicTailAccess l), h)"
    by auto
  with False show ?thesis by (simp add: heap_le_refl)
next
  case tails: True
  show ?thesis
  proof (cases "\<exists>l. mode = ContractMode l \<and> \<not> attrs_open (record_attributes r2)
      \<and> \<not> fst ` set (record_fields r1) \<subseteq> fst ` set (record_fields r2)")
    case True
    then obtain l where l: "mode = ContractMode l" "\<not> attrs_open (record_attributes r2)"
      "\<not> fst ` set (record_fields r1) \<subseteq> fst ` set (record_fields r2)" by blast
    have "record_wf r1" "record_wf r2" using assms(2,3) by (simp_all add: record_ok_def)
    from merge_records_extra [OF assms(1) this tails [THEN conjunct1] tails [THEN conjunct2] l(2,3), of ceq teq h l]
    obtain names where "merge_records sr ceq teq h r1 r2 mode = Some (Inr (Inl (extra_fields_error names)), h)"
      unfolding l(1) by blast
    with tails show ?thesis by simp
  next
    case False
    then have "\<forall>l. mode = ContractMode l \<longrightarrow>
        attrs_open (record_attributes r2) \<or> fst ` set (record_fields r1) \<subseteq> fst ` set (record_fields r2)"
      by blast
    from merge_records_ok [OF assms tails [THEN conjunct1] tails [THEN conjunct2] this, of ceq teq]
    obtain m h' where "merge_records sr ceq teq h r1 r2 mode = Some (Inr (Inr (TermV (RecRecord
        (RecordData m (attrs_combine (record_attributes r1) (record_attributes r2)) None) [] [] None True))), h')" "heap_le h h'"
      by blast
    with tails show ?thesis by (simp add: closurizable_def)
  qed
qed


text \<open>The arms of the match, by the shape of the first operand.\<close>

lemma merge_operands_cases:
  "merge_operands sr ceq teq h Null env1 v2 env2 mode =
     (if v2 = Null then Some (Inr (Inr Null), h) else Some (incompatible Null v2 mode, h))"
  "merge_operands sr ceq teq h (Bool b) env1 v2 env2 mode =
     (if v2 = Bool b then Some (Inr (Inr (Bool b)), h) else Some (incompatible (Bool b) v2 mode, h))"
  "merge_operands sr ceq teq h (Number n) env1 v2 env2 mode =
     (if v2 = Number n then Some (Inr (Inr (Number n)), h) else Some (incompatible (Number n) v2 mode, h))"
  "merge_operands sr ceq teq h (String s) env1 v2 env2 mode =
     (if v2 = String s then Some (Inr (Inr (String s)), h) else Some (incompatible (String s) v2 mode, h))"
  "merge_operands sr ceq teq h (LabelV l) env1 v2 env2 mode =
     (if v2 = LabelV l then Some (Inr (Inr (LabelV l)), h) else Some (incompatible (LabelV l) v2 mode, h))"
  "merge_operands sr ceq teq h (Thunk a) env1 v2 env2 mode = Some (incompatible (Thunk a) v2 mode, h)"
  "merge_operands sr ceq teq h (TermV t) env1 v2 env2 mode = Some (incompatible (TermV t) v2 mode, h)"
  "merge_operands sr ceq teq h (ForeignId i) env1 v2 env2 mode = Some (incompatible (ForeignId i) v2 mode, h)"
  "merge_operands sr ceq teq h (SealingKey k) env1 v2 env2 mode = Some (incompatible (SealingKey k) v2 mode, h)"
  "merge_operands sr ceq teq h (CustomContract v) env1 v2 env2 mode = Some (incompatible (CustomContract v) v2 mode, h)"
  "merge_operands sr ceq teq h (TypeV ty ctr) env1 v2 env2 mode = Some (incompatible (TypeV ty ctr) v2 mode, h)"
  by (cases v2; simp add: merge_operands_def)+

lemma merge_operands_records_cases:
  "merge_operands sr ceq teq h (RecordV c1) env1 v2 env2 mode =
    (case v2 of
       RecordV c2 \<Rightarrow>
         (case (c1, c2) of
            (Alloc r1, Alloc r2) \<Rightarrow> merge_records sr ceq teq h r1 r2 mode
          | (Empty, _) \<Rightarrow> Some (Inr (Inr v2), h)
          | (_, Empty) \<Rightarrow> Some (Inr (Inr (RecordV c1)), h))
     | _ \<Rightarrow> Some (incompatible (RecordV c1) v2 mode, h))"
  by (cases v2; cases c1; simp add: merge_operands_def is_inline_empty_record_def split: container.splits)

lemma merge_operands_enum_error:
  assumes "\<not> mergeable (EnumVariant tag1 arg1) v2"
  shows "merge_operands sr ceq teq h (EnumVariant tag1 arg1) env1 v2 env2 mode =
    Some (incompatible (EnumVariant tag1 arg1) v2 mode, h)"
proof (cases v2)
  case (EnumVariant tag2 arg2)
  then show ?thesis using assms by (cases arg1; cases arg2) (auto simp: merge_operands_def mergeable_def)
qed (simp_all add: merge_operands_def)

lemma merge_operands_array_error:
  assumes "\<not> mergeable (ArrayV c) v2"
  shows "merge_operands sr ceq teq h (ArrayV c) env1 v2 env2 mode = Some (incompatible (ArrayV c) v2 mode, h)"
  using assms by (cases v2; simp add: merge_operands_def mergeable_def)

lemma merge_operands_enum_tag:
  "merge_operands sr ceq teq h (EnumVariant tag None) env1 (EnumVariant tag None) env2 mode =
    Some (Inr (Inr (EnumVariant tag None)), h)"
  by (simp add: merge_operands_def)


lemma operands_incompatible:
  assumes "\<not> mergeable v1 v2"
    and "\<not> (\<exists>r1 r2. v1 = RecordV (Alloc r1) \<and> v2 = RecordV (Alloc r2))"
  shows "merge_operands sr ceq teq h v1 env1 v2 env2 mode = Some (incompatible v1 v2 mode, h)"
proof (cases v1)
  case (RecordV c)
  with assms show ?thesis
    by (cases v2; cases c) (auto simp: merge_operands_records_cases mergeable_def split: container.splits)
qed (use assms(1) in \<open>auto simp: merge_operands_cases merge_operands_enum_error merge_operands_array_error mergeable_def\<close>)

lemma operands_compatible:
  assumes "mergeable v1 v2"
    and records: "\<not> (\<exists>r1 r2. v1 = RecordV (Alloc r1) \<and> v2 = RecordV (Alloc r2))"
    and "operand_ok h env1 v1" and "operand_ok h env2 v2"
  shows "\<exists>v h'. merge_operands sr ceq teq h v1 env1 v2 env2 mode = Some (Inr (Inr v), h') \<and> heap_le h h'
    \<and> closurizable h' Map.empty v"
proof (cases v1)
  case (EnumVariant tag arg)
  then obtain arg2 where v2: "v2 = EnumVariant tag arg2" "arg = None \<longleftrightarrow> arg2 = None"
    using assms(1) by (auto simp: mergeable_def)
  show ?thesis
  proof (cases arg)
    case None
    then show ?thesis using EnumVariant v2 by (simp add: merge_operands_enum_tag closurizable_def)
  next
    case (Some a1)
    then obtain a2 where a2: "arg2 = Some a2" using v2 by auto
    have "closurizable h env1 a1" "closurizable h env2 a2"
      using assms(3,4) by (simp_all add: operand_ok_def EnumVariant Some v2 a2)
    from merge_enum_ok [OF this, of sr ceq teq tag mode] show ?thesis
      unfolding EnumVariant v2 Some a2 by (auto simp: closurizable_def)
  qed
next
  case (ArrayV c1)
  then obtain c2 where v2: "v2 = ArrayV c2" using assms(1) by (auto simp: mergeable_def)
  show ?thesis
    using merge_arrays_ok [of sr ceq teq h c1 env1 c2 env2 mode] unfolding ArrayV v2 by (auto simp: closurizable_def)
next
  case (RecordV c1)
  then obtain c2 where "v2 = RecordV c2" using assms(1) by (auto simp: mergeable_def)
  with RecordV records show ?thesis
    by (cases c1; cases c2) (auto simp: merge_operands_records_cases closurizable_def)
qed (use assms(1) in \<open>auto simp: merge_operands_cases mergeable_def closurizable_def\<close>)


lemma merge_operands_total:
  assumes "swap_removal sr" and "operand_ok h env1 v1" and "operand_ok h env2 v2"
  shows "\<exists>r h'. merge_operands sr ceq teq h v1 env1 v2 env2 mode = Some (r, h') \<and> heap_le h h'
      \<and> (isl r \<longleftrightarrow> \<not> mergeable v1 v2) \<and> (\<forall>v. r = Inr (Inr v) \<longrightarrow> closurizable h' Map.empty v)"
proof (cases "\<exists>r1 r2. v1 = RecordV (Alloc r1) \<and> v2 = RecordV (Alloc r2)")
  case True
  then obtain r1 r2 where v: "v1 = RecordV (Alloc r1)" "v2 = RecordV (Alloc r2)" by blast
  have "record_ok h r1" "record_ok h r2" using assms(2,3) by (simp_all add: v operand_ok_def)
  from merge_operands_records [OF assms(1) this, of ceq teq mode] show ?thesis
    by (simp add: v merge_operands_records_cases mergeable_def)
next
  case no_records: False
  show ?thesis
  proof (cases "mergeable v1 v2")
    case True
    from operands_compatible [OF True no_records assms(2,3)] show ?thesis by (fastforce simp: True)
  next
    case False
    show ?thesis using operands_incompatible [OF False no_records] by (simp add: False incompatible_def)
  qed
qed

text \<open>
  The outcome of a contract merge once its result is closurized: the record term sits in a fresh
  thunk.
\<close>

lemma closurize_rec_record:
  "closurize h (TermV (RecRecord r i d dp b)) Map.empty =
    Some (Thunk (length h), h @ [td_new (closure_of_value (TermV (RecRecord r i d dp b)))])"
  by (simp add: closurize_plain closure_of_value_def)

lemma record_merged_mono:
  assumes "heap_le h h'" and "record_ok h r1" and "record_ok h r2" and "record_merged ceq teq h ml r1 r2 m"
  shows "record_merged ceq teq h' ml r1 r2 m"
proof -
  have ok: "map_of (record_fields r1) x = Some f \<Longrightarrow> field_ok h f" "map_of (record_fields r2) x = Some f \<Longrightarrow> field_ok h f" for x f
    using assms(2,3) by (auto simp: record_ok_def)
  obtain names where names: "distinct names"
      "set names = fst ` set (record_fields r1) \<union> fst ` set (record_fields r2)" and wf: "im_wf m"
    and fields: "\<And>x. case (map_of (record_fields r1) x, map_of (record_fields r2) x) of
             (None, None) \<Rightarrow> map_of m x = None
           | (Some f1, None) \<Rightarrow> (\<exists>f. map_of m x = Some f \<and> field_reverted h f1 f)
           | (None, Some f2) \<Rightarrow> (\<exists>f. map_of m x = Some f \<and> field_reverted h f2 f)
           | (Some f1, Some f2) \<Rightarrow> (\<exists>f. map_of m x = Some f \<and> field_merged ceq teq h ml names f1 f2 f)"
    using assms(4) unfolding record_merged_def by blast
  have "case (map_of (record_fields r1) x, map_of (record_fields r2) x) of
             (None, None) \<Rightarrow> map_of m x = None
           | (Some f1, None) \<Rightarrow> (\<exists>f. map_of m x = Some f \<and> field_reverted h' f1 f)
           | (None, Some f2) \<Rightarrow> (\<exists>f. map_of m x = Some f \<and> field_reverted h' f2 f)
           | (Some f1, Some f2) \<Rightarrow> (\<exists>f. map_of m x = Some f \<and> field_merged ceq teq h' ml names f1 f2 f)" for x
    using fields [of x] field_reverted_mono [OF assms(1)] field_merged_mono [OF assms(1) ok(1) ok(2)]
    by (cases "map_of (record_fields r1) x"; cases "map_of (record_fields r2) x") fastforce+
  then show ?thesis unfolding record_merged_def using wf names by blast
qed

section \<open>The records of the witnesses\<close>

text \<open>
  \<open>{a | default = b, b = 1}\<close>, whose field \<open>a\<close> is a recursive thunk, and \<open>{a = 2}\<close>. No two
  contracts are equal under \<open>no_contract_eq\<close>.
\<close>

definition example_heap :: heap where
  "example_heap = [td_new_rev (closure_of_value (TermV (Var ''b''))) (Known {''b''})]"

definition example_left :: nrecord where
  "example_left = RecordData
    [(''a'', Field (Some (Thunk 0)) (Some (set_priority Bottom metadata_default)) []),
     (''b'', field_of_value (Number 1))] attrs_new None"

definition example_right :: nrecord where
  "example_right = RecordData [(''a'', field_of_value (Number 2))] attrs_new None"

definition no_contract_eq :: "heap \<Rightarrow> env contract_eq" where
  "no_contract_eq h c1 e1 c2 e2 = False"

definition example_mode :: merge_mode where
  "example_mode = StandardMode \<lparr>ml_span = 0, ml_kind = StandardMerge\<rparr>"

lemma example_ok: "record_ok example_heap example_left" "record_ok example_heap example_right"
  by (auto simp: record_ok_def record_wf_def im_wf_def field_ok_def example_left_def example_right_def
      example_heap_def field_of_value_def)

lemmas example_removal = index_map_removal.swap_removal_axioms

section \<open>Properties\<close>

text \<open>
  C23. Merging two well-formed operands never panics, only allocates, and fails exactly when the
  operands cannot be merged: constants that differ, enum variants of different tags or shapes,
  values of different kinds, and records of which one has a sealed tail. The condition is symmetric,
  so that swapping the operands never turns a success into an error.
\<close>

theorem merge_fails_iff:
  assumes "swap_removal sr" and "operand_ok h env1 v1" and "operand_ok h env2 v2"
  shows "(\<exists>r h'. merge sr ceq teq h v1 env1 v2 env2 mode = Some (r, h') \<and> heap_le h h' \<and> (isl r \<longleftrightarrow> \<not> mergeable v1 v2))
    \<and> (mergeable v1 v2 \<longleftrightarrow> mergeable v2 v1)"
proof -
  obtain r h' where r: "merge_operands sr ceq teq h v1 env1 v2 env2 mode = Some (r, h')" "heap_le h h'"
    "isl r \<longleftrightarrow> \<not> mergeable v1 v2" "\<forall>v. r = Inr (Inr v) \<longrightarrow> closurizable h' Map.empty v"
    using merge_operands_total [OF assms] by blast
  have "\<exists>r h'. merge sr ceq teq h v1 env1 v2 env2 mode = Some (r, h') \<and> heap_le h h' \<and> (isl r \<longleftrightarrow> \<not> mergeable v1 v2)"
  proof (cases "\<exists>v. r = Inr (Inr v)")
    case True
    then obtain v where v: "r = Inr (Inr v)" by blast
    obtain w h2 where "closurize h' v Map.empty = Some (w, h2)" "heap_le h' h2"
      using closurize_ok r(4) v by blast
    with r v heap_le_trans [OF r(2) this(2)] show ?thesis by (cases mode) (simp_all add: merge_def)
  next
    case False
    then show ?thesis using r by (cases r) (auto simp: merge_def split: sum.splits)
  qed
  with mergeable_sym [of v1 v2] show ?thesis by blast
qed

theorem merge_fails_iff_witness:
  "\<exists>r h'. merge swap_remove_last no_contract_eq (=) example_heap
      (RecordV (Alloc example_left)) Map.empty (RecordV (Alloc example_right)) Map.empty example_mode = Some (r, h')
      \<and> heap_le example_heap h' \<and> \<not> isl r"
  using merge_fails_iff [OF example_removal, of example_heap Map.empty "RecordV (Alloc example_left)"
      Map.empty "RecordV (Alloc example_right)" no_contract_eq "(=)" example_mode] example_ok
  by (simp add: operand_ok_def mergeable_def example_left_def example_right_def)

text \<open>
  C1. Merging two records in standard mode gives a recursive record with exactly the fields of
  either operand. A field of one side only is reverted; a common field is merged: its value is the
  lazy merge of both at equal priorities and otherwise the one that is defined or of higher
  priority, its metadata are combined, its pending contracts are those of both sides reverted and
  deduplicated. The cells of the heap before the merge are unchanged.
\<close>

theorem merge_records_correct:
  assumes "swap_removal sr" and "record_ok h r1" and "record_ok h r2"
    and "record_sealed_tail r1 = None" and "record_sealed_tail r2 = None"
  shows "\<exists>m h'. merge sr ceq teq h (RecordV (Alloc r1)) env1 (RecordV (Alloc r2)) env2 (StandardMode ml) =
      Some (Inr (closure_of_value (TermV (RecRecord
        (RecordData m (attrs_combine (record_attributes r1) (record_attributes r2)) None) [] [] None True))), h')
    \<and> heap_le h h' \<and> record_merged ceq teq h' ml r1 r2 m"
proof -
  have "\<forall>l. StandardMode ml = ContractMode l \<longrightarrow>
      attrs_open (record_attributes r2) \<or> fst ` set (record_fields r1) \<subseteq> fst ` set (record_fields r2)" by simp
  from merge_records_ok [OF assms this, of ceq teq] show ?thesis
    by (fastforce simp: merge_def merge_operands_records_cases)
qed

theorem merge_records_correct_witness:
  "\<exists>m h'. merge swap_remove_last no_contract_eq (=) example_heap (RecordV (Alloc example_left)) Map.empty
      (RecordV (Alloc example_right)) Map.empty (StandardMode \<lparr>ml_span = 0, ml_kind = StandardMerge\<rparr>) =
      Some (Inr (closure_of_value (TermV (RecRecord
        (RecordData m (attrs_combine (record_attributes example_left) (record_attributes example_right)) None) [] [] None True))), h')
    \<and> heap_le example_heap h'
    \<and> record_merged no_contract_eq (=) h' \<lparr>ml_span = 0, ml_kind = StandardMerge\<rparr> example_left example_right m"
  using merge_records_correct [OF example_removal example_ok]
  by (simp add: example_left_def example_right_def)

text \<open>
  C22. The verdict of a record contract. Merging a record in contract mode with a record contract
  gives \<open>'Error\<close>, listing each extra field once, when the contract is closed and the value has a
  field the contract does not list; otherwise it gives \<open>'Ok\<close> with a suspended thunk of the merged
  record. (Both records are allocated: the inline empty record is the subject of
  \<open>inline_empty_contract_accepts_extra\<close>.)
\<close>

theorem record_contract_verdict:
  assumes "swap_removal sr" and "record_ok h r1" and "record_ok h r2"
    and "record_sealed_tail r1 = None" and "record_sealed_tail r2 = None"
  shows "if \<not> attrs_open (record_attributes r2) \<and> \<not> fst ` set (record_fields r1) \<subseteq> fst ` set (record_fields r2)
    then \<exists>extra. merge sr ceq teq h (RecordV (Alloc r1)) env1 (RecordV (Alloc r2)) env2 (ContractMode l) =
        Some (Inr (closure_of_value (extra_fields_error extra)), h)
      \<and> distinct extra \<and> set extra = fst ` set (record_fields r1) - fst ` set (record_fields r2)
    else \<exists>a m h'. merge sr ceq teq h (RecordV (Alloc r1)) env1 (RecordV (Alloc r2)) env2 (ContractMode l) =
        Some (Inr (closure_of_value (EnumVariant ''Ok'' (Some (Thunk a)))), h')
      \<and> heap_le h h' \<and> a < length h'
      \<and> h' ! a = td_new (closure_of_value (TermV (RecRecord
          (RecordData m (attrs_combine (record_attributes r1) (record_attributes r2)) None) [] [] None True)))
      \<and> record_merged ceq teq h' (merge_label_of_label l) r1 r2 m"
proof (cases "\<not> attrs_open (record_attributes r2) \<and> \<not> fst ` set (record_fields r1) \<subseteq> fst ` set (record_fields r2)")
  case True
  have "record_wf r1" "record_wf r2" using assms(2,3) by (simp_all add: record_ok_def)
  from merge_records_extra [OF assms(1) this assms(4,5), of ceq teq h l] True show ?thesis
    by (auto simp: merge_def merge_operands_records_cases)
next
  case False
  then have "\<forall>l'. ContractMode l = ContractMode l' \<longrightarrow>
      attrs_open (record_attributes r2) \<or> fst ` set (record_fields r1) \<subseteq> fst ` set (record_fields r2)" by blast
  from merge_records_ok [OF assms this, of ceq teq] obtain m h' where
    m: "merge_records sr ceq teq h r1 r2 (ContractMode l) = Some (Inr (Inr (TermV (RecRecord
        (RecordData m (attrs_combine (record_attributes r1) (record_attributes r2)) None) [] [] None True))), h')"
      "heap_le h h'" "record_merged ceq teq h' (mode_label (ContractMode l)) r1 r2 m" by blast
  let ?td = "td_new (closure_of_value (TermV (RecRecord
        (RecordData m (attrs_combine (record_attributes r1) (record_attributes r2)) None) [] [] None True)))"
  have "record_ok h' r1" "record_ok h' r2"
    using assms(2,3) field_ok_mono [OF m(2)] by (auto simp: record_ok_def)
  from record_merged_mono [OF heap_le_append this m(3)]
  have "record_merged ceq teq (h' @ [?td]) (merge_label_of_label l) r1 r2 m" by simp
  moreover have "merge sr ceq teq h (RecordV (Alloc r1)) env1 (RecordV (Alloc r2)) env2 (ContractMode l) =
        Some (Inr (closure_of_value (EnumVariant ''Ok'' (Some (Thunk (length h'))))), h' @ [?td])"
    using m(1) by (simp add: merge_def merge_operands_records_cases closurize_rec_record)
  moreover have "(h' @ [?td]) ! length h' = ?td" "length h' < length (h' @ [?td])" by simp_all
  ultimately show ?thesis
    unfolding if_not_P [OF False] using heap_le_trans [OF m(2) heap_le_append] by blast
qed


theorem record_contract_verdict_witness:
  "(\<exists>extra. merge swap_remove_last no_contract_eq (=) example_heap (RecordV (Alloc example_left)) Map.empty
      (RecordV (Alloc example_right)) Map.empty (ContractMode label_default) =
        Some (Inr (closure_of_value (extra_fields_error extra)), example_heap) \<and> distinct extra \<and> set extra = {''b''})
   \<and> (\<exists>a h'. merge swap_remove_last no_contract_eq (=) example_heap (RecordV (Alloc example_right)) Map.empty
      (RecordV (Alloc example_left)) Map.empty (ContractMode label_default) =
        Some (Inr (closure_of_value (EnumVariant ''Ok'' (Some (Thunk a)))), h'))"
proof -
  have tails: "record_sealed_tail example_left = None" "record_sealed_tail example_right = None"
    and closed: "\<not> attrs_open (record_attributes example_left)" "\<not> attrs_open (record_attributes example_right)"
    and keys: "fst ` set (record_fields example_left) = {''a'', ''b''}" "fst ` set (record_fields example_right) = {''a''}"
    by (simp_all add: example_left_def example_right_def attrs_new_def)
  have diff: "{''a'', ''b''} - {''a''} = {''b''}" by auto
  show ?thesis
    using record_contract_verdict [OF example_removal example_ok tails, of no_contract_eq "(=)" Map.empty Map.empty label_default]
      record_contract_verdict [OF example_removal example_ok(2,1) tails(2,1), of no_contract_eq "(=)" Map.empty Map.empty label_default]
    unfolding keys diff by (auto simp: closed)
qed

text \<open>
  The level of a field: nothing while it has no definition, otherwise its priority on the line of
  priorities. \<open>level_max\<close> is the maximum of two levels, with an undefined field at the bottom.
\<close>

definition field_level :: "nfield \<Rightarrow> (int \<times> rat) option" where
  "field_level f = (case field_value f of None \<Rightarrow> None
    | Some _ \<Rightarrow> Some (priority_rank (fm_priority (shared_into_inner (field_metadata f)))))"

fun level_max :: "(int \<times> rat) option \<Rightarrow> (int \<times> rat) option \<Rightarrow> (int \<times> rat) option" where
  "level_max None b = b"
| "level_max a None = a"
| "level_max (Some a) (Some b) = Some (if rank_less a b then b else a)"

lemma level_max_laws:
  "level_max a b = level_max b a" "level_max (level_max a b) c = level_max a (level_max b c)" "level_max a a = a"
  by (cases a; cases b; cases c; auto simp: rank_less_def prod_eq_iff)+

text \<open>
  The priorities of merged fields form a join semilattice: merging two fields never reaches the
  unreachable arm, and the level of the result is the maximum of the two levels. The maximum is
  commutative, associative and idempotent, so neither the order nor the grouping of merges decides
  at which priority a field ends up. The optional flag survives only on both sides,
  \<open>not_exported\<close> on either.
\<close>

theorem merge_fields_join:
  assumes "field_ok h f1" and "field_ok h f2"
  shows "\<exists>f h'. merge_fields ceq teq h ml f1 f2 names = Some (f, h')
    \<and> field_level f = level_max (field_level f1) (field_level f2)
    \<and> fm_opt (shared_into_inner (field_metadata f)) =
        (fm_opt (shared_into_inner (field_metadata f1)) \<and> fm_opt (shared_into_inner (field_metadata f2)))
    \<and> fm_not_exported (shared_into_inner (field_metadata f)) =
        (fm_not_exported (shared_into_inner (field_metadata f1)) \<or> fm_not_exported (shared_into_inner (field_metadata f2)))
    \<and> (\<forall>a b c. level_max a b = level_max b a \<and> level_max (level_max a b) c = level_max a (level_max b c)
        \<and> level_max a a = a)"
proof -
  let ?m = "\<lambda>f. shared_into_inner (field_metadata f)"
  obtain f h' where run: "merge_fields ceq teq h ml f1 f2 names = Some (f, h')"
    and merged: "field_merged ceq teq h' ml names f1 f2 f"
    using merge_fields_ok [OF assms] by blast
  obtain p where v: "merged_value h' ml names (field_value f1) (fm_priority (?m f1)) (field_value f2) (fm_priority (?m f2)) (field_value f) p"
    and meta: "?m f = merged_metadata teq (?m f1) (?m f2) p"
    using merged unfolding field_merged_def by blast
  have "field_level f = level_max (field_level f1) (field_level f2)"
    using v rank_less_linear rank_less_asym
    by (cases "field_value f1"; cases "field_value f2")
      (auto simp: merged_value_def field_level_def meta merged_metadata_def priority_eq_rank priority_gt_def
        priority_cmp_rank option_rel_Some1 split: if_splits)
  then show ?thesis using run level_max_laws by (auto simp: meta merged_metadata_def)
qed

theorem merge_fields_join_witness:
  "\<exists>f h'. merge_fields no_contract_eq (=) example_heap \<lparr>ml_span = 0, ml_kind = StandardMerge\<rparr>
      (Field (Some (Thunk 0)) (Some (set_priority Bottom metadata_default)) [])
      (field_of_value (Number 2)) [''a'', ''b''] = Some (f, h')
    \<and> field_level f = Some (0, 0)"
proof -
  let ?f1 = "Field (Some (Thunk 0)) (Some (set_priority Bottom metadata_default)) []" and ?f2 = "field_of_value (Number 2)"
  have ok: "field_ok example_heap ?f1" "field_ok example_heap ?f2"
    by (simp_all add: field_ok_def example_heap_def field_of_value_def)
  have "level_max (field_level ?f1) (field_level ?f2) = Some (0, 0)"
    by (simp add: field_level_def field_of_value_def set_priority_def shared_into_inner_def metadata_default_def rank_less_def)
  then show ?thesis
    using merge_fields_join [OF ok, of no_contract_eq "(=)" "\<lparr>ml_span = 0, ml_kind = StandardMerge\<rparr>" "[''a'', ''b'']"]
    by auto
qed

text \<open>
  C24. A closed empty record contract is enforced or not depending on its representation. Every
  value with a field and without a sealed tail is rejected by an allocated closed record without fields, the error
  listing each of its fields once, and is accepted unchanged by the inline empty record, the
  representation of every closed empty record literal.
\<close>

theorem inline_empty_contract_accepts_extra:
  assumes "swap_removal sr" and "record_ok h r1" and "record_sealed_tail r1 = None" and "record_fields r1 \<noteq> []"
    and "record_fields r2 = []" and "record_sealed_tail r2 = None" and "\<not> attrs_open (record_attributes r2)"
  shows "(\<exists>extra. merge sr ceq teq h (RecordV (Alloc r1)) env1 (RecordV (Alloc r2)) env2 (ContractMode l) =
        Some (Inr (closure_of_value (extra_fields_error extra)), h)
      \<and> distinct extra \<and> set extra = fst ` set (record_fields r1))
    \<and> merge sr ceq teq h (RecordV (Alloc r1)) env1 (RecordV Empty) env2 (ContractMode l) =
        Some (Inr (closure_of_value (EnumVariant ''Ok'' (Some (Thunk (length h))))),
          h @ [td_new (closure_of_value (RecordV (Alloc r1)))])"
proof
  have wf: "record_wf r1" "record_wf r2" using assms(2,5) by (simp_all add: record_ok_def record_wf_def)
  show "\<exists>extra. merge sr ceq teq h (RecordV (Alloc r1)) env1 (RecordV (Alloc r2)) env2 (ContractMode l) =
        Some (Inr (closure_of_value (extra_fields_error extra)), h)
      \<and> distinct extra \<and> set extra = fst ` set (record_fields r1)"
    using merge_records_extra [OF assms(1) wf assms(3,6), of ceq teq h l] assms(4,5,7)
    by (auto simp: merge_def merge_operands_records_cases)
  show "merge sr ceq teq h (RecordV (Alloc r1)) env1 (RecordV Empty) env2 (ContractMode l) =
        Some (Inr (closure_of_value (EnumVariant ''Ok'' (Some (Thunk (length h))))),
          h @ [td_new (closure_of_value (RecordV (Alloc r1)))])"
    by (simp add: merge_def merge_operands_records_cases closurize_plain closure_of_value_def)
qed

theorem inline_empty_contract_accepts_extra_witness:
  "(\<exists>extra. merge swap_remove_last no_contract_eq (=) example_heap (RecordV (Alloc example_right)) Map.empty
      (RecordV (Alloc record_empty)) Map.empty (ContractMode label_default) =
        Some (Inr (closure_of_value (extra_fields_error extra)), example_heap) \<and> set extra = {''a''})
   \<and> merge swap_remove_last no_contract_eq (=) example_heap (RecordV (Alloc example_right)) Map.empty
      (RecordV Empty) Map.empty (ContractMode label_default) =
        Some (Inr (closure_of_value (EnumVariant ''Ok'' (Some (Thunk (length example_heap))))),
          example_heap @ [td_new (closure_of_value (RecordV (Alloc example_right)))])"
proof -
  have r1: "record_sealed_tail example_right = None" "record_fields example_right \<noteq> []"
    "fst ` set (record_fields example_right) = {''a''}"
    and r2: "record_fields record_empty = []" "record_sealed_tail record_empty = None"
    "\<not> attrs_open (record_attributes record_empty)"
    by (simp_all add: example_right_def record_empty_def record_new_def attrs_new_def)
  show ?thesis
    using inline_empty_contract_accepts_extra [OF example_removal example_ok(2) r1(1,2) r2, of no_contract_eq "(=)"
      Map.empty Map.empty label_default] unfolding r1(3) by blast
qed

end
