(* ===== verification/Contract_Eq.thy ===== *)
theory Contract_Eq
  imports Thunk_Cache Record_Data
begin

text \<open>
  Contract equality, \<open>core/src/eval/contract_eq.rs\<close>, which the evaluator uses to deduplicate the
  pending contracts of a field: a comparison of two contracts in their environments that follows
  variables and thunks while the gas lasts.

  \<^item> Physical equality of two values and of their environments is the argument \<open>phys\<close>: the model
    has no addresses for immutable blocks.
  \<^item> The gas is threaded in the order the source threads its \<open>State\<close>.
  \<^item> The recursion goes through three functions of the source and is bounded here by an explicit
    depth; \<open>OutOfDepth\<close> is the answer when it is exhausted. \<open>Contract_Eq_Props\<close> proves that
    \<open>eq_depth\<close> is enough for all arguments, because a comparison either moves to smaller values or
    uses gas.
\<close>

section \<open>The state and its sequencing\<close>

definition MAX_GAS :: nat where
  "MAX_GAS = 12"

text \<open>The answer with the gas left, a panic (a thunk without a cached value), or no answer.\<close>

datatype eq_outcome = Answer bool nat | Panicked | OutOfDepth

definition use_gas :: "nat \<Rightarrow> bool \<times> nat" where
  "use_gas gas = (if gas = 0 then (False, gas) else (True, gas - 1))"

fun and_then :: "eq_outcome \<Rightarrow> (bool \<Rightarrow> nat \<Rightarrow> eq_outcome) \<Rightarrow> eq_outcome" where
  "and_then (Answer b gas) k = k b gas"
| "and_then Panicked k = Panicked"
| "and_then OutOfDepth k = OutOfDepth"

text \<open>Short-circuit conjunction, \<open>x && y\<close>, and \<open>Iterator::all\<close>.\<close>

definition and_also :: "eq_outcome \<Rightarrow> (nat \<Rightarrow> eq_outcome) \<Rightarrow> eq_outcome" where
  "and_also x y = and_then x (\<lambda>b gas. if b then y gas else Answer False gas)"

fun all_eq :: "('a \<Rightarrow> nat \<Rightarrow> eq_outcome) \<Rightarrow> 'a list \<Rightarrow> nat \<Rightarrow> eq_outcome" where
  "all_eq f [] gas = Answer True gas"
| "all_eq f (x # xs) gas = and_also (f x gas) (all_eq f xs)"

definition map_eq :: "('v \<Rightarrow> 'v \<Rightarrow> nat \<Rightarrow> eq_outcome) \<Rightarrow> (ident \<times> 'v) list \<Rightarrow> (ident \<times> 'v) list \<Rightarrow> nat \<Rightarrow> eq_outcome" where
  "map_eq f m1 m2 gas =
    (if length m1 = length m2
     then all_eq (\<lambda>(x, v1) gas. case map_of m2 x of Some v2 \<Rightarrow> f v1 v2 gas | None \<Rightarrow> Answer False gas) m1 gas
     else Answer False gas)"

section \<open>Rows\<close>

fun record_rows_items :: "'v record_rows \<Rightarrow> (ident \<times> 'v ntype) list option" where
  "record_rows_items RRowsEmpty = Some []"
| "record_rows_items (RRowsExtend x t rows) = map_option (\<lambda>xs. (x, t) # xs) (record_rows_items rows)"
| "record_rows_items (RRowsTailVar _) = None"
| "record_rows_items RRowsTailDyn = None"

fun enum_rows_items :: "'v enum_rows \<Rightarrow> (ident \<times> 'v ntype option) list option" where
  "enum_rows_items ERowsEmpty = Some []"
| "enum_rows_items (ERowsExtend x t rows) = map_option (\<lambda>xs. (x, t) # xs) (enum_rows_items rows)"
| "enum_rows_items (ERowsTailVar _) = None"

definition rrows_as_map :: "'v record_rows \<Rightarrow> (ident \<times> 'v ntype) list option" where
  "rrows_as_map rows = map_option im_from_iter (record_rows_items rows)"

definition erows_as_map :: "'v enum_rows \<Rightarrow> (ident \<times> 'v ntype option) list option" where
  "erows_as_map rows = map_option im_from_iter (enum_rows_items rows)"

section \<open>One level of the comparison\<close>

text \<open>The recursive calls are the arguments \<open>veq\<close> (values) and \<open>teq\<close> (types).\<close>

type_synonym 'a env_eq = "'a \<Rightarrow> env \<Rightarrow> 'a \<Rightarrow> env \<Rightarrow> nat \<Rightarrow> eq_outcome"

fun option_eq :: "'a env_eq \<Rightarrow> 'a option env_eq" where
  "option_eq f (Some x) env1 (Some y) env2 gas = f x env1 y env2 gas"
| "option_eq f None env1 None env2 gas = Answer True gas"
| "option_eq f _ env1 _ env2 gas = Answer False gas"

definition contract_eq_fields :: "nickel_value env_eq \<Rightarrow> nickel_type env_eq \<Rightarrow> nfield env_eq" where
  "contract_eq_fields veq teq field1 env1 field2 env2 gas =
    and_then (all_eq (\<lambda>(c1, c2) gas.
        if label_type_environment (ctr_label c1) = label_type_environment (ctr_label c2)
        then veq (ctr_contract c1) env1 (ctr_contract c2) env2 gas else Answer False gas)
      (zip (field_pending_contracts field1) (field_pending_contracts field2)) gas) (\<lambda>pending_contracts_eq gas.
    and_then (all_eq (\<lambda>(t1, t2) gas.
        if label_type_environment (lt_label t1) = label_type_environment (lt_label t2)
        then teq (lt_typ t1) env1 (lt_typ t2) env2 gas else Answer False gas)
      (zip (shared_iter_annots (field_metadata field1)) (shared_iter_annots (field_metadata field2))) gas)
      (\<lambda>annotations_eq gas.
    (let scalar_metadata_eq =
           (shared_opt (field_metadata field1) = shared_opt (field_metadata field2)
            \<and> shared_not_exported (field_metadata field1) = shared_not_exported (field_metadata field2)
            \<and> priority_eq (shared_priority (field_metadata field1)) (shared_priority (field_metadata field2)))
     in and_then (option_eq veq (field_value field1) env1 (field_value field2) env2 gas) (\<lambda>value_eq gas.
          Answer (pending_contracts_eq \<and> annotations_eq \<and> scalar_metadata_eq \<and> value_eq) gas))))"

definition record_fields_eq :: "nickel_value env_eq \<Rightarrow> nickel_type env_eq \<Rightarrow> nrecord env_eq" where
  "record_fields_eq veq teq r1 env1 r2 env2 gas =
    and_also (map_eq (\<lambda>f1 f2. contract_eq_fields veq teq f1 env1 f2 env2) (record_fields r1) (record_fields r2) gas)
      (\<lambda>gas. Answer (attrs_open (record_attributes r1) = attrs_open (record_attributes r2)) gas)"

definition terms_eq :: "nickel_value env_eq \<Rightarrow> nickel_type env_eq \<Rightarrow> nickel_term env_eq" where
  "terms_eq veq teq term1 env1 term2 env2 gas =
    (case term1 of
       StrChunks scs1 \<Rightarrow>
         (case term2 of
            StrChunks scs2 \<Rightarrow> Answer (length scs1 = length scs2 \<and>
              list_all (\<lambda>(c1, c2). case (c1, c2) of (Literal s1, Literal s2) \<Rightarrow> s1 = s2 | _ \<Rightarrow> False) (zip scs1 scs2)) gas
          | _ \<Rightarrow> Answer False gas)
     | App head1 arg1 \<Rightarrow>
         (case term2 of
            App head2 arg2 \<Rightarrow> and_also (veq head1 env1 head2 env2 gas) (veq arg1 env1 arg2 env2)
          | _ \<Rightarrow> Answer False gas)
     | RecRecord record1 includes1 dyn1 _ _ \<Rightarrow>
         (case term2 of
            RecRecord record2 includes2 dyn2 _ _ \<Rightarrow>
              if dyn1 = [] \<and> dyn2 = [] \<and> includes1 = [] \<and> includes2 = []
              then record_fields_eq veq teq record1 env1 record2 env2 gas else Answer False gas
          | _ \<Rightarrow> Answer False gas)
     | Annotated annot1 inner1 \<Rightarrow>
         (case term2 of
            Annotated annot2 inner2 \<Rightarrow>
              and_then (veq inner1 env1 inner2 env2 gas) (\<lambda>value_eq gas.
              and_then (option_eq teq (map_option lt_typ (annotation_first annot1)) env1
                          (map_option lt_typ (annotation_first annot2)) env2 gas) (\<lambda>ty_eq gas.
                Answer (value_eq \<and> ty_eq) gas))
          | _ \<Rightarrow> Answer False gas)
     | Op1 op1 arg1 \<Rightarrow>
         (case (op1, term2) of
            (RecordAccess id1, Op1 (RecordAccess id2) arg2) \<Rightarrow>
              if id1 = id2 then veq arg1 env1 arg2 env2 gas else Answer False gas
          | _ \<Rightarrow> Answer False gas)
     | Sealed key1 inner1 _ \<Rightarrow>
         (case term2 of
            Sealed key2 inner2 _ \<Rightarrow>
              if key1 = key2 then veq inner1 env1 inner2 env2 gas else Answer False gas
          | _ \<Rightarrow> Answer False gas)
     | Closurize value1 \<Rightarrow>
         (case term2 of Closurize value2 \<Rightarrow> veq value1 env1 value2 env2 gas | _ \<Rightarrow> Answer False gas)
     | _ \<Rightarrow> Answer False gas)"

text \<open>
  The last arms of the match compare a recursive record with an evaluated one. They pass the fields
  of the evaluated record first, whichever operand it is, with \<open>env1\<close>.
\<close>

definition rec_record_eq :: "nickel_value env_eq \<Rightarrow> nickel_type env_eq \<Rightarrow> nickel_term \<Rightarrow> nrecord container \<Rightarrow>
    env \<Rightarrow> env \<Rightarrow> nat \<Rightarrow> eq_outcome" where
  "rec_record_eq veq teq rec_trm container env1 env2 gas =
    (case rec_trm of
       RecRecord rec_data includes dyn _ _ \<Rightarrow>
         if dyn = [] \<and> includes = [] then
           (case container of
              Empty \<Rightarrow> Answer (record_fields rec_data = [] \<and> \<not> attrs_open (record_attributes rec_data)) gas
            | Alloc record \<Rightarrow> record_fields_eq veq teq record env1 rec_data env2 gas)
         else Answer False gas
     | _ \<Rightarrow> Answer False gas)"

definition values_eq :: "nickel_value env_eq \<Rightarrow> nickel_type env_eq \<Rightarrow> nickel_value env_eq" where
  "values_eq veq teq v1 env1 v2 env2 gas =
    (case v1 of
       Null \<Rightarrow> Answer (v2 = Null) gas
     | Bool b1 \<Rightarrow> Answer (v2 = Bool b1) gas
     | SealingKey k1 \<Rightarrow> Answer (v2 = SealingKey k1) gas
     | EnumVariant tag1 arg1 \<Rightarrow>
         (case v2 of
            EnumVariant tag2 arg2 \<Rightarrow>
              if (arg1 = None) = (arg2 = None) \<and> tag1 = tag2 then option_eq veq arg1 env1 arg2 env2 gas
              else Answer False gas
          | _ \<Rightarrow> Answer False gas)
     | RecordV c1 \<Rightarrow>
         (case v2 of
            RecordV c2 \<Rightarrow>
              (case (c1, c2) of
                 (Empty, Empty) \<Rightarrow> Answer True gas
               | (Alloc r1, Alloc r2) \<Rightarrow> record_fields_eq veq teq r1 env1 r2 env2 gas
               | _ \<Rightarrow> Answer False gas)
          | TermV term2 \<Rightarrow> rec_record_eq veq teq term2 c1 env1 env2 gas
          | _ \<Rightarrow> Answer False gas)
     | ArrayV c1 \<Rightarrow>
         (case v2 of
            ArrayV c2 \<Rightarrow>
              (case (c1, c2) of
                 (Empty, Empty) \<Rightarrow> Answer True gas
               | (Alloc (vs1, cs1), Alloc (vs2, cs2)) \<Rightarrow>
                   if length vs1 = length vs2
                   then and_also (all_eq (\<lambda>(w1, w2). veq w1 env1 w2 env2) (zip vs1 vs2) gas)
                          (\<lambda>gas. Answer (cs1 = [] \<and> cs2 = []) gas)
                   else Answer False gas
               | _ \<Rightarrow> Answer False gas)
          | _ \<Rightarrow> Answer False gas)
     | TypeV ty1 _ \<Rightarrow> (case v2 of TypeV ty2 _ \<Rightarrow> teq ty1 env1 ty2 env2 gas | _ \<Rightarrow> Answer False gas)
     | TermV term1 \<Rightarrow>
         (case v2 of
            TermV term2 \<Rightarrow> terms_eq veq teq term1 env1 term2 env2 gas
          | RecordV c2 \<Rightarrow> rec_record_eq veq teq term1 c2 env1 env2 gas
          | _ \<Rightarrow> Answer False gas)
     | _ \<Rightarrow> Answer False gas)"

definition types_eq :: "nickel_value env_eq \<Rightarrow> nickel_type env_eq \<Rightarrow> nickel_type env_eq" where
  "types_eq veq teq ty1 env1 ty2 env2 gas =
    (case ty1 of
       TWildcard id1 \<Rightarrow> Answer (ty2 = TWildcard id1) gas
     | TDyn \<Rightarrow> Answer (ty2 = TDyn) gas
     | TNumber \<Rightarrow> Answer (ty2 = TNumber) gas
     | TBool \<Rightarrow> Answer (ty2 = TBool) gas
     | TSymbol \<Rightarrow> Answer (ty2 = TSymbol) gas
     | TString \<Rightarrow> Answer (ty2 = TString) gas
     | TDict uty1 attrs1 \<Rightarrow>
         (case ty2 of
            TDict uty2 attrs2 \<Rightarrow> if attrs1 = attrs2 then teq uty1 env1 uty2 env2 gas else Answer False gas
          | _ \<Rightarrow> Answer False gas)
     | TArray uty1 \<Rightarrow> (case ty2 of TArray uty2 \<Rightarrow> teq uty1 env1 uty2 env2 gas | _ \<Rightarrow> Answer False gas)
     | TArrow s1 t1 \<Rightarrow>
         (case ty2 of
            TArrow s2 t2 \<Rightarrow> and_also (teq s1 env1 s2 env2 gas) (teq t1 env1 t2 env2)
          | _ \<Rightarrow> Answer False gas)
     | TEnum rows1 \<Rightarrow>
         (case ty2 of
            TEnum rows2 \<Rightarrow>
              (case (erows_as_map rows1, erows_as_map rows2) of
                 (Some m1, Some m2) \<Rightarrow> map_eq (\<lambda>t1 t2. option_eq teq t1 env1 t2 env2) m1 m2 gas
               | _ \<Rightarrow> Answer False gas)
          | _ \<Rightarrow> Answer False gas)
     | TRecord rows1 \<Rightarrow>
         (case ty2 of
            TRecord rows2 \<Rightarrow>
              (case (rrows_as_map rows1, rrows_as_map rows2) of
                 (Some m1, Some m2) \<Rightarrow> map_eq (\<lambda>t1 t2. teq t1 env1 t2 env2) m1 m2 gas
               | _ \<Rightarrow> Answer False gas)
          | _ \<Rightarrow> Answer False gas)
     | TContract v1 \<Rightarrow> (case ty2 of TContract v2 \<Rightarrow> veq v1 env1 v2 env2 gas | _ \<Rightarrow> Answer False gas)
     | _ \<Rightarrow> Answer False gas)"

section \<open>The recursion\<close>

fun as_var :: "nickel_value \<Rightarrow> ident option" where
  "as_var (TermV t) = (case t of Var x \<Rightarrow> Some x | _ \<Rightarrow> None)"
| "as_var _ = None"

fun as_thunk :: "nickel_value \<Rightarrow> addr option" where
  "as_thunk (Thunk a) = Some a"
| "as_thunk _ = None"

text \<open>Read a closure, or panic.\<close>

definition borrowed :: "closure panics \<Rightarrow> (nickel_value \<Rightarrow> env \<Rightarrow> eq_outcome) \<Rightarrow> eq_outcome" where
  "borrowed c k = (case c of None \<Rightarrow> Panicked | Some cl \<Rightarrow> k (clo_value cl) (clo_env cl))"

type_synonym phys_eq = "nickel_value \<Rightarrow> env \<Rightarrow> nickel_value \<Rightarrow> env \<Rightarrow> bool"

text \<open>The arms for variables and thunks, in the order of the source.\<close>

definition follow_eq :: "heap \<Rightarrow> nickel_value env_eq \<Rightarrow> nickel_type env_eq \<Rightarrow> nickel_value env_eq" where
  "follow_eq h veq teq v1 env1 v2 env2 gas =
    (let (has_gas, gas') = use_gas gas in
     case (as_var v1, as_var v2) of
       (Some id1, Some id2) \<Rightarrow>
         (case (env1 id1, env2 id2) of
            (Some idx1, Some idx2) \<Rightarrow>
              if \<not> has_gas then Answer False gas'
              else borrowed (thunk_borrow h idx1) (\<lambda>w1 e1. borrowed (thunk_borrow h idx2) (\<lambda>w2 e2.
                     veq w1 e1 w2 e2 gas'))
          | (None, None) \<Rightarrow> Answer (id1 = id2) gas
          | _ \<Rightarrow> Answer False gas)
     | (Some x, None) \<Rightarrow>
         if \<not> has_gas then Answer False gas'
         else (case env1 x of
                 None \<Rightarrow> Answer False gas'
               | Some idx \<Rightarrow> borrowed (thunk_borrow h idx) (\<lambda>w1 e1. veq w1 e1 v2 env2 gas'))
     | (None, Some x) \<Rightarrow>
         if \<not> has_gas then Answer False gas'
         else (case env2 x of
                 None \<Rightarrow> Answer False gas'
               | Some idx \<Rightarrow> borrowed (thunk_borrow h idx) (\<lambda>w2 e2. veq v1 env1 w2 e2 gas'))
     | (None, None) \<Rightarrow>
         (case (as_thunk v1, as_thunk v2) of
            (Some a, Some b) \<Rightarrow>
              if a = b then Answer True gas
              else if \<not> has_gas then Answer False gas'
              else borrowed (thunk_borrow_orig h a) (\<lambda>w1 e1. borrowed (thunk_borrow_orig h b) (\<lambda>w2 e2.
                     veq w1 e1 w2 e2 gas'))
          | (Some a, None) \<Rightarrow>
              borrowed (thunk_borrow_orig h a) (\<lambda>w1 e1.
                if has_gas then veq w1 e1 v2 env2 gas' else Answer False gas')
          | (None, Some b) \<Rightarrow>
              borrowed (thunk_borrow_orig h b) (\<lambda>w2 e2.
                if has_gas then veq v1 env1 w2 e2 gas' else Answer False gas')
          | (None, None) \<Rightarrow> values_eq veq teq v1 env1 v2 env2 gas))"

fun contract_eq_bounded :: "phys_eq \<Rightarrow> heap \<Rightarrow> nat \<Rightarrow> nickel_value env_eq"
  and type_eq_bounded :: "phys_eq \<Rightarrow> heap \<Rightarrow> nat \<Rightarrow> nickel_type env_eq" where
  "contract_eq_bounded phys h 0 t1 env1 t2 env2 gas = OutOfDepth"
| "contract_eq_bounded phys h (Suc d) t1 env1 t2 env2 gas =
    (if phys t1 env1 t2 env2 then Answer True gas
     else follow_eq h (contract_eq_bounded phys h d) (type_eq_bounded phys h d) t1 env1 t2 env2 gas)"
| "type_eq_bounded phys h 0 ty1 env1 ty2 env2 gas = OutOfDepth"
| "type_eq_bounded phys h (Suc d) ty1 env1 ty2 env2 gas =
    types_eq (contract_eq_bounded phys h d) (type_eq_bounded phys h d) ty1 env1 ty2 env2 gas"

text \<open>The depth that suffices: the sizes of the operands and, for each unit of gas, of the values in the heap.\<close>

definition thunk_size :: "thunk_data \<Rightarrow> nat" where
  "thunk_size td = size (clo_value (td_closure_or_orig td))
    + (case td_closure td of None \<Rightarrow> 0 | Some c \<Rightarrow> size (clo_value c))"

definition heap_size :: "heap \<Rightarrow> nat" where
  "heap_size h = sum_list (map thunk_size h)"

definition eq_depth :: "heap \<Rightarrow> nat \<Rightarrow> nat \<Rightarrow> nat" where
  "eq_depth h gas n = Suc (n + gas * Suc (2 * heap_size h))"

definition contract_eq :: "phys_eq \<Rightarrow> heap \<Rightarrow> nickel_value \<Rightarrow> env \<Rightarrow> nickel_value \<Rightarrow> env \<Rightarrow> eq_outcome" where
  "contract_eq phys h t1 env1 t2 env2 =
    contract_eq_bounded phys h (eq_depth h MAX_GAS (size t1 + size t2)) t1 env1 t2 env2 MAX_GAS"

definition type_eq_noenv :: "phys_eq \<Rightarrow> heap \<Rightarrow> nickel_type \<Rightarrow> nickel_type \<Rightarrow> eq_outcome" where
  "type_eq_noenv phys h t1 t2 =
    type_eq_bounded phys h (eq_depth h MAX_GAS (size_ntype size t1 + size_ntype size t2)) t1 Map.empty t2 Map.empty MAX_GAS"

end
