(* ===== verification/Contract_Eq_Props.thy ===== *)
theory Contract_Eq_Props
  imports Contract_Eq
begin

text \<open>
  Contract equality ends: the depth \<open>eq_depth\<close> is enough, because the gas never grows and a
  recursive call without gas is on smaller operands. Then what it equates: the findings on fields
  with a different number of annotations and on the environments of recursive records.
\<close>

section \<open>Answers\<close>

definition answered :: "nat \<Rightarrow> eq_outcome \<Rightarrow> bool" where
  "answered gas x \<longleftrightarrow> x \<noteq> OutOfDepth \<and> (\<forall>b g. x = Answer b g \<longrightarrow> g \<le> gas)"

named_theorems answered_intros \<open>introduction rules for answers\<close>

lemma answered_Answer [answered_intros]: "g \<le> gas \<Longrightarrow> answered gas (Answer b g)"
  by (simp add: answered_def)

lemma answered_Panicked [answered_intros]: "answered gas Panicked"
  by (simp add: answered_def)

lemma answered_mono: "answered g x \<Longrightarrow> g \<le> gas \<Longrightarrow> answered gas x"
  by (auto simp: answered_def)

lemma answered_and_then [answered_intros]:
  "answered gas x \<Longrightarrow> (\<And>b g. g \<le> gas \<Longrightarrow> answered gas (k b g)) \<Longrightarrow> answered gas (and_then x k)"
  by (cases x) (auto simp: answered_def)

lemma answered_and_also [answered_intros]:
  "answered gas x \<Longrightarrow> (\<And>g. g \<le> gas \<Longrightarrow> answered gas (y g)) \<Longrightarrow> answered gas (and_also x y)"
  unfolding and_also_def by (rule answered_and_then) (auto intro: answered_intros)

lemma answered_all_eq:
  "(\<And>x g. x \<in> set xs \<Longrightarrow> g \<le> gas \<Longrightarrow> answered gas (f x g)) \<Longrightarrow> g \<le> gas \<Longrightarrow> answered gas (all_eq f xs g)"
  by (induction xs arbitrary: g) (auto intro!: answered_intros)

lemma answered_map_eq:
  assumes "\<And>x y v1 v2 g. (x, v1) \<in> set m1 \<Longrightarrow> (y, v2) \<in> set m2 \<Longrightarrow> g \<le> gas \<Longrightarrow> answered gas (f v1 v2 g)"
    and "g \<le> gas"
  shows "answered gas (map_eq f m1 m2 g)"
  unfolding map_eq_def
  using assms(2) by (auto intro!: answered_intros answered_all_eq assms(1) dest!: map_of_SomeD split: option.split)

lemma answered_option_eq:
  "(\<And>x y. a = Some x \<Longrightarrow> b = Some y \<Longrightarrow> answered gas (f x e1 y e2 g)) \<Longrightarrow> g \<le> gas \<Longrightarrow>
    answered gas (option_eq f a e1 b e2 g)"
  by (cases a; cases b) (auto intro: answered_intros)

section \<open>Sizes\<close>

text \<open>What the recursive calls of one level may be made on.\<close>

definition calls_ok :: "nat \<Rightarrow> nat \<Rightarrow> nickel_value env_eq \<Rightarrow> nickel_type env_eq \<Rightarrow> bool" where
  "calls_ok n gas veq teq \<longleftrightarrow>
    (\<forall>v1 e1 v2 e2 g. size v1 + size v2 < n \<longrightarrow> g \<le> gas \<longrightarrow> answered g (veq v1 e1 v2 e2 g)) \<and>
    (\<forall>t1 e1 t2 e2 g. size_ntype size t1 + size_ntype size t2 < n \<longrightarrow> g \<le> gas \<longrightarrow> answered g (teq t1 e1 t2 e2 g))"

lemma calls_okD:
  assumes "calls_ok n gas veq teq" and "g \<le> gas"
  shows "size v1 + size v2 < n \<Longrightarrow> answered gas (veq v1 e1 v2 e2 g)"
    and "size_ntype size t1 + size_ntype size t2 < n \<Longrightarrow> answered gas (teq t1 e1 t2 e2 g)"
  using assms answered_mono unfolding calls_ok_def by blast+

lemma size_contract: "c \<in> set (field_pending_contracts f) \<Longrightarrow> size (ctr_contract c) < size_field size f"
  by (cases f; cases c) (auto dest: size_list_estimation' [where f = "size_runtime_contract size", OF _ order_refl])

lemma size_annot:
  assumes "t \<in> set (shared_iter_annots (field_metadata f))"
  shows "size_ntype size (lt_typ t) < size_field size f"
proof -
  obtain m where m: "field_metadata f = Some m" "t \<in> set (annotation_iter (fm_annotation m))"
    using assms by (cases "field_metadata f") (auto simp: shared_iter_annots_def)
  then show ?thesis
    by (cases f; cases m; cases "fm_annotation m"; cases t)
      (auto simp: annotation_iter_def split: option.splits
        dest!: size_list_estimation' [where f = "size_labeled_type size", OF _ order_refl])
qed

lemma size_im_insert: "y \<in> set (im_insert k v m) \<Longrightarrow> y = (k, v) \<or> y \<in> set m"
  by (induction m) (auto simp: im_insert_def split: if_splits)

lemma set_im_from_iter: "set (im_from_iter kvs) \<subseteq> set kvs"
proof -
  have "set (foldl (\<lambda>m kv. im_insert (fst kv) (snd kv) m) m kvs) \<subseteq> set m \<union> set kvs" for m
  proof (induction kvs arbitrary: m)
    case (Cons kv kvs)
    have "set (im_insert (fst kv) (snd kv) m) \<subseteq> insert kv (set m)" using size_im_insert by fastforce
    then show ?case using Cons.IH [of "im_insert (fst kv) (snd kv) m"] by auto
  qed simp
  from this [of "[]"] show ?thesis by (simp add: im_from_iter_def im_extend_def)
qed

lemma size_record_row:
  "rrows_as_map rows = Some m \<Longrightarrow> (x, t) \<in> set m \<Longrightarrow> size_ntype size t < size_record_rows size rows"
proof -
  have "record_rows_items rows = Some xs \<Longrightarrow> (x, t) \<in> set xs \<Longrightarrow> size_ntype size t < size_record_rows size rows" for xs
    by (induction rows arbitrary: xs rule: record_rows_items.induct) fastforce+
  then show "rrows_as_map rows = Some m \<Longrightarrow> (x, t) \<in> set m \<Longrightarrow> size_ntype size t < size_record_rows size rows"
    using set_im_from_iter by (fastforce simp: rrows_as_map_def)
qed

lemma size_enum_row:
  "erows_as_map rows = Some m \<Longrightarrow> (x, Some t) \<in> set m \<Longrightarrow> size_ntype size t < size_enum_rows size rows"
proof -
  have "enum_rows_items rows = Some xs \<Longrightarrow> (x, Some t) \<in> set xs \<Longrightarrow> size_ntype size t < size_enum_rows size rows" for xs
    by (induction rows arbitrary: xs rule: enum_rows_items.induct) fastforce+
  then show "erows_as_map rows = Some m \<Longrightarrow> (x, Some t) \<in> set m \<Longrightarrow> size_ntype size t < size_enum_rows size rows"
    using set_im_from_iter by (fastforce simp: erows_as_map_def)
qed

section \<open>Every level answers\<close>

lemma zip_mem: "p \<in> set (zip xs ys) \<Longrightarrow> fst p \<in> set xs \<and> snd p \<in> set ys"
  by (cases p) (auto dest: set_zip_leftD set_zip_rightD)

lemma contract_eq_fields_answered:
  assumes calls: "calls_ok n gas veq teq" and n: "size_field size f1 + size_field size f2 \<le> n" and "g \<le> gas"
  shows "answered gas (contract_eq_fields veq teq f1 e1 f2 e2 g)"
proof -
  have ctr: "answered gas (veq (ctr_contract c1) e1 (ctr_contract c2) e2 g)"
    if "(c1, c2) \<in> set (zip (field_pending_contracts f1) (field_pending_contracts f2))" "g \<le> gas" for c1 c2 g
    using zip_mem [OF that(1)] size_contract [of c1 f1] size_contract [of c2 f2] n
    by (intro calls_okD(1) [OF calls that(2)]) simp
  have annot: "answered gas (teq (lt_typ t1) e1 (lt_typ t2) e2 g)"
    if "(t1, t2) \<in> set (zip (shared_iter_annots (field_metadata f1)) (shared_iter_annots (field_metadata f2)))" "g \<le> gas" for t1 t2 g
    using zip_mem [OF that(1)] size_annot [of t1 f1] size_annot [of t2 f2] n
    by (intro calls_okD(2) [OF calls that(2)]) simp
  have val: "answered gas (veq x e1 y e2 g)" if "field_value f1 = Some x" "field_value f2 = Some y" "g \<le> gas" for x y g
    using size_value [OF that(1)] size_value [OF that(2)] n by (intro calls_okD(1) [OF calls that(3)]) simp
  show ?thesis
    unfolding contract_eq_fields_def Let_def
    using assms(3) by (intro answered_and_then answered_all_eq answered_option_eq answered_Answer)
      (auto split: prod.split intro: answered_Answer val ctr annot)
qed


lemma record_fields_eq_answered:
  assumes "calls_ok n gas veq teq" and "size_record_data size r1 + size_record_data size r2 \<le> n" and "g \<le> gas"
  shows "answered gas (record_fields_eq veq teq r1 e1 r2 e2 g)"
  unfolding record_fields_eq_def using assms
  by (intro answered_and_also answered_map_eq contract_eq_fields_answered)
    (auto intro: answered_Answer dest!: size_record_field)

lemma terms_eq_answered:
  assumes calls: "calls_ok (size t1 + size t2) gas veq teq"
  shows "answered gas (terms_eq veq teq t1 e1 t2 e2 gas)"
proof -
  note veq = calls_okD(1) [OF calls] and teq = calls_okD(2) [OF calls]
  show ?thesis
  proof (cases t1)
    case (App f a)
    then show ?thesis by (cases t2) (auto simp: terms_eq_def intro!: answered_and_also answered_Answer veq)
  next
    case (RecRecord r i d dp b)
    then show ?thesis
      by (cases t2) (auto simp: terms_eq_def intro!: answered_Answer record_fields_eq_answered [OF calls])
  next
    case (Annotated a v)
    show ?thesis
    proof (cases t2)
      case (Annotated a' v')
      have first: "annotation_first x = Some l \<Longrightarrow> size_ntype size (lt_typ l) < size_type_annotation size x" for x l
        by (cases x; cases l) (auto simp: annotation_first_def annotation_iter_def split: option.splits list.splits
            dest!: size_list_estimation' [where f = "size_labeled_type size", OF _ order_refl])
      show ?thesis using Annotated \<open>t1 = Annotated a v\<close>
        by (auto simp: terms_eq_def intro!: answered_and_then answered_option_eq answered_Answer veq teq dest!: first)
    qed (auto simp: terms_eq_def Annotated intro: answered_Answer)
  next
    case (Op1 op a)
    then show ?thesis
      by (cases t2) (auto simp: terms_eq_def intro!: answered_Answer veq split: unary_op.split)
  next
    case (Sealed k v l)
    then show ?thesis by (cases t2) (auto simp: terms_eq_def intro!: answered_Answer veq)
  next
    case (Closurize v)
    then show ?thesis by (cases t2) (auto simp: terms_eq_def intro!: answered_Answer veq)
  next
    case (StrChunks scs)
    then show ?thesis by (cases t2) (auto simp: terms_eq_def intro!: answered_Answer)
  qed (auto simp: terms_eq_def intro: answered_Answer)
qed


lemma rec_record_eq_answered:
  assumes calls: "calls_ok (size t + size_container (size_record_data size) c) gas veq teq"
  shows "answered gas (rec_record_eq veq teq t c e1 e2 gas)"
  by (cases t; cases c) (auto simp: rec_record_eq_def intro!: answered_Answer record_fields_eq_answered [OF calls])

lemma calls_ok_mono: "calls_ok n gas veq teq \<Longrightarrow> m \<le> n \<Longrightarrow> calls_ok m gas veq teq"
  by (auto simp: calls_ok_def)

lemma size_zip_values:
  "(w1, w2) \<in> set (zip vs1 vs2) \<Longrightarrow> size w1 \<le> size_list size vs1 \<and> size w2 \<le> size_list size vs2"
  using zip_mem [of "(w1, w2)"] by (auto intro: size_list_estimation' less_imp_le)

lemma values_eq_answered:
  assumes calls: "calls_ok (size v1 + size v2) gas veq teq"
  shows "answered gas (values_eq veq teq v1 e1 v2 e2 gas)"
proof -
  note veq = calls_okD(1) [OF calls] and teq = calls_okD(2) [OF calls]
  show ?thesis
  proof (cases v1)
    case (EnumVariant tag arg)
    then show ?thesis
      by (cases v2) (auto simp: values_eq_def intro!: answered_Answer answered_option_eq veq)
  next
    case (RecordV c)
    show ?thesis
    proof (cases v2)
      case (RecordV c')
      then show ?thesis using \<open>v1 = RecordV c\<close>
        by (cases c; cases c') (auto simp: values_eq_def intro!: answered_Answer record_fields_eq_answered [OF calls])
    next
      case (TermV t)
      then show ?thesis using RecordV
        by (auto simp: values_eq_def intro!: rec_record_eq_answered calls_ok_mono [OF calls])
    qed (auto simp: values_eq_def RecordV intro: answered_Answer)
  next
    case (ArrayV c)
    show ?thesis
    proof (cases v2)
      case (ArrayV c')
      show ?thesis
      proof (cases "\<exists>vs cs vs' cs'. c = Alloc (vs, cs) \<and> c' = Alloc (vs', cs')")
        case True
        then obtain vs cs vs' cs' where c: "c = Alloc (vs, cs)" "c' = Alloc (vs', cs')" by blast
        have "answered gas (veq w1 e1 w2 e2 g)" if "(w1, w2) \<in> set (zip vs vs')" "g \<le> gas" for w1 w2 g
          using size_zip_values [OF that(1)] \<open>v1 = ArrayV c\<close> ArrayV c by (intro veq that) simp
        then show ?thesis using \<open>v1 = ArrayV c\<close> ArrayV c
          by (auto simp: values_eq_def intro!: answered_Answer answered_and_also answered_all_eq)
      next
        case False
        then show ?thesis using \<open>v1 = ArrayV c\<close> ArrayV
          by (cases c; cases c') (auto simp: values_eq_def intro!: answered_Answer)
      qed
    qed (auto simp: values_eq_def ArrayV intro: answered_Answer)
  next
    case (TypeV t c)
    then show ?thesis by (cases v2) (auto simp: values_eq_def intro!: answered_Answer teq)
  next
    case (TermV t)
    then show ?thesis
      by (cases v2) (auto simp: values_eq_def intro!: answered_Answer terms_eq_answered rec_record_eq_answered calls_ok_mono [OF calls])
  qed (auto simp: values_eq_def intro: answered_Answer)
qed

lemma types_eq_answered:
  assumes calls: "calls_ok (size_ntype size t1 + size_ntype size t2) gas veq teq"
  shows "answered gas (types_eq veq teq t1 e1 t2 e2 gas)"
proof -
  note veq = calls_okD(1) [OF calls] and teq = calls_okD(2) [OF calls]
  show ?thesis
  proof (cases t1)
    case (TArrow s t)
    then show ?thesis by (cases t2) (auto simp: types_eq_def intro!: answered_Answer answered_and_also teq)
  next
    case (TEnum rows)
    show ?thesis
    proof (cases t2)
      case (TEnum rows2)
      have "answered gas (map_eq (\<lambda>t1 t2. option_eq teq t1 e1 t2 e2) m1 m2 gas)"
        if "erows_as_map rows = Some m1" "erows_as_map rows2 = Some m2" for m1 m2
      proof (intro answered_map_eq answered_option_eq teq)
        fix x y o1 o2 a b
        assume "(x, o1) \<in> set m1" "(y, o2) \<in> set m2" "o1 = Some a" "o2 = Some b"
        then show "size_ntype size a + size_ntype size b < size_ntype size t1 + size_ntype size t2"
          using size_enum_row [OF that(1), of x a] size_enum_row [OF that(2), of y b] \<open>t1 = TEnum rows\<close> TEnum by simp
      qed simp_all
      then show ?thesis using \<open>t1 = TEnum rows\<close> TEnum by (auto simp: types_eq_def intro: answered_Answer split: option.split)
    qed (auto simp: types_eq_def TEnum intro: answered_Answer)
  next
    case (TRecord rows)
    show ?thesis
    proof (cases t2)
      case (TRecord rows2)
      have "answered gas (map_eq (\<lambda>t1 t2. teq t1 e1 t2 e2) m1 m2 gas)"
        if "rrows_as_map rows = Some m1" "rrows_as_map rows2 = Some m2" for m1 m2
      proof (intro answered_map_eq teq)
        fix x y a b
        assume "(x, a) \<in> set m1" "(y, b) \<in> set m2"
        then show "size_ntype size a + size_ntype size b < size_ntype size t1 + size_ntype size t2"
          using size_record_row [OF that(1), of x a] size_record_row [OF that(2), of y b] \<open>t1 = TRecord rows\<close> TRecord by simp
      qed simp_all
      then show ?thesis using \<open>t1 = TRecord rows\<close> TRecord by (auto simp: types_eq_def intro: answered_Answer split: option.split)
    qed (auto simp: types_eq_def TRecord intro: answered_Answer)
  next
    case (TDict t a)
    then show ?thesis by (cases t2) (auto simp: types_eq_def intro!: answered_Answer teq)
  next
    case (TArray t)
    then show ?thesis by (cases t2) (auto simp: types_eq_def intro!: answered_Answer teq)
  next
    case (TContract v)
    then show ?thesis by (cases t2) (auto simp: types_eq_def intro!: answered_Answer veq)
  qed (auto simp: types_eq_def intro: answered_Answer)
qed

section \<open>Following variables and thunks\<close>

lemma size_borrow:
  "thunk_borrow h a = Some c \<Longrightarrow> size (clo_value c) \<le> heap_size h"
  "thunk_borrow_orig h a = Some c \<Longrightarrow> size (clo_value c) \<le> heap_size h"
proof -
  have sum: "thunk_size (h ! a) \<le> heap_size h" if "a < length h"
    using that elem_le_sum_list [of a "map thunk_size h"] by (simp add: heap_size_def)
  show "thunk_borrow h a = Some c \<Longrightarrow> size (clo_value c) \<le> heap_size h"
    using sum by (auto simp: thunk_borrow_def heap_read_Some_iff bind_eq_Some_conv thunk_size_def)
  show "thunk_borrow_orig h a = Some c \<Longrightarrow> size (clo_value c) \<le> heap_size h"
    using sum by (auto simp: thunk_borrow_orig_def heap_read_Some_iff thunk_size_def)
qed

lemma answered_borrowed:
  "(\<And>cl. c = Some cl \<Longrightarrow> answered gas (k (clo_value cl) (clo_env cl))) \<Longrightarrow> answered gas (borrowed c k)"
  by (cases c) (auto simp: borrowed_def intro: answered_Panicked)

lemma follow_eq_answered:
  assumes calls: "calls_ok (size v1 + size v2) gas veq teq"
    and more: "\<And>w1 e1 w2 e2. 0 < gas \<Longrightarrow> size w1 + size w2 \<le> size v1 + size v2 + 2 * heap_size h \<Longrightarrow>
      answered (gas - 1) (veq w1 e1 w2 e2 (gas - 1))"
  shows "answered gas (follow_eq h veq teq v1 e1 v2 e2 gas)"
proof -
  have more': "answered gas (veq w1 d1 w2 d2 (gas - Suc 0))"
    if "0 < gas" "size w1 + size w2 \<le> size v1 + size v2 + 2 * heap_size h" for w1 d1 w2 d2
    using answered_mono [OF more [OF that]] by simp
  have vals: "answered gas (values_eq veq teq v1 e1 v2 e2 gas)" by (rule values_eq_answered [OF calls])
  show ?thesis
  proof (cases "gas = 0")
    case True
    then show ?thesis using vals
      by (auto simp: follow_eq_def use_gas_def split: option.split intro!: answered_Answer answered_borrowed)
  next
    case False
    then show ?thesis using vals
      by (auto simp: follow_eq_def use_gas_def split: option.split intro!: answered_Answer answered_borrowed more'
          dest!: size_borrow)
  qed
qed

lemma eq_depth_less:
  assumes "g \<le> gas" "m < n" "eq_depth h gas n \<le> Suc d"
  shows "eq_depth h g m \<le> d"
proof -
  have "g * Suc (2 * heap_size h) \<le> gas * Suc (2 * heap_size h)" using assms(1) by (rule mult_le_mono1)
  then show ?thesis using assms(2,3) by (simp add: eq_depth_def)
qed

lemma eq_depth_gas:
  assumes "0 < gas" "m \<le> n + 2 * heap_size h" "eq_depth h gas n \<le> Suc d"
  shows "eq_depth h (gas - 1) m \<le> d"
proof -
  obtain g where g: "gas = Suc g" using assms(1) gr0_conv_Suc by blast
  show ?thesis using assms(2,3) by (simp add: eq_depth_def g)
qed

lemma bounded_answered:
  "(\<forall>gas v1 e1 v2 e2. eq_depth h gas (size v1 + size v2) \<le> d \<longrightarrow>
      answered gas (contract_eq_bounded phys h d v1 e1 v2 e2 gas)) \<and>
   (\<forall>gas t1 e1 t2 e2. eq_depth h gas (size_ntype size t1 + size_ntype size t2) \<le> d \<longrightarrow>
      answered gas (type_eq_bounded phys h d t1 e1 t2 e2 gas))"
proof (induction d)
  case (Suc d)
  have calls: "calls_ok n gas (contract_eq_bounded phys h d) (type_eq_bounded phys h d)" if "eq_depth h gas n \<le> Suc d" for n gas
    unfolding calls_ok_def using Suc.IH eq_depth_less [OF _ _ that] by simp
  have "answered gas (contract_eq_bounded phys h (Suc d) v1 e1 v2 e2 gas)"
    if d: "eq_depth h gas (size v1 + size v2) \<le> Suc d" for gas v1 e1 v2 e2
  proof -
    have "answered gas (follow_eq h (contract_eq_bounded phys h d) (type_eq_bounded phys h d) v1 e1 v2 e2 gas)"
    proof (rule follow_eq_answered [OF calls [OF d]])
      fix w1 w2 :: nickel_value and d1 d2
      assume "0 < gas" "size w1 + size w2 \<le> size v1 + size v2 + 2 * heap_size h"
      from eq_depth_gas [OF this d] show "answered (gas - 1) (contract_eq_bounded phys h d w1 d1 w2 d2 (gas - 1))"
        using Suc.IH by blast
    qed
    then show ?thesis by (simp add: answered_Answer)
  qed
  moreover have "answered gas (type_eq_bounded phys h (Suc d) t1 e1 t2 e2 gas)"
    if d: "eq_depth h gas (size_ntype size t1 + size_ntype size t2) \<le> Suc d" for gas t1 e1 t2 e2
    using types_eq_answered [OF calls [OF d]] by simp
  ultimately show ?case by blast
qed (simp add: eq_depth_def)


section \<open>The depth does not change an answer\<close>

definition deeper :: "eq_outcome \<Rightarrow> eq_outcome \<Rightarrow> bool" where
  "deeper x y \<longleftrightarrow> x = OutOfDepth \<or> x = y"

lemma deeper_refl [simp, intro]: "deeper x x"
  by (simp add: deeper_def)

lemma deeper_and_then [intro]:
  "deeper x x' \<Longrightarrow> (\<And>b g. deeper (k b g) (k' b g)) \<Longrightarrow> deeper (and_then x k) (and_then x' k')"
  by (cases x) (fastforce simp: deeper_def)+

lemma deeper_and_also [intro]:
  "deeper x x' \<Longrightarrow> (\<And>g. deeper (y g) (y' g)) \<Longrightarrow> deeper (and_also x y) (and_also x' y')"
  unfolding and_also_def by (rule deeper_and_then) auto

lemma deeper_all_eq [intro]:
  "(\<And>x g. deeper (f x g) (f' x g)) \<Longrightarrow> deeper (all_eq f xs g) (all_eq f' xs g)"
  by (induction xs arbitrary: g) auto

lemma deeper_map_eq [intro]:
  "(\<And>v1 v2 g. deeper (f v1 v2 g) (f' v1 v2 g)) \<Longrightarrow> deeper (map_eq f m1 m2 g) (map_eq f' m1 m2 g)"
  unfolding map_eq_def by (auto split: option.split)

lemma deeper_option_eq [intro]:
  "(\<And>x y. deeper (f x e1 y e2 g) (f' x e1 y e2 g)) \<Longrightarrow> deeper (option_eq f a e1 b e2 g) (option_eq f' a e1 b e2 g)"
  by (cases a; cases b) auto

lemma deeper_borrowed [intro]:
  "(\<And>w e. deeper (k w e) (k' w e)) \<Longrightarrow> deeper (borrowed c k) (borrowed c k')"
  by (cases c) (auto simp: borrowed_def)

definition calls_deeper :: "nickel_value env_eq \<Rightarrow> nickel_type env_eq \<Rightarrow> nickel_value env_eq \<Rightarrow> nickel_type env_eq \<Rightarrow> bool" where
  "calls_deeper veq teq veq' teq' \<longleftrightarrow>
    (\<forall>v1 e1 v2 e2 g. deeper (veq v1 e1 v2 e2 g) (veq' v1 e1 v2 e2 g)) \<and>
    (\<forall>t1 e1 t2 e2 g. deeper (teq t1 e1 t2 e2 g) (teq' t1 e1 t2 e2 g))"

lemma calls_deeperD:
  assumes "calls_deeper veq teq veq' teq'"
  shows "deeper (veq v1 e1 v2 e2 g) (veq' v1 e1 v2 e2 g)" and "deeper (teq t1 e1 t2 e2 g) (teq' t1 e1 t2 e2 g)"
  using assms by (simp_all add: calls_deeper_def)

lemma fields_deeper:
  assumes calls: "calls_deeper veq teq veq' teq'"
  shows "deeper (contract_eq_fields veq teq f1 e1 f2 e2 g) (contract_eq_fields veq' teq' f1 e1 f2 e2 g)"
  unfolding contract_eq_fields_def Let_def
  by (intro deeper_and_then deeper_all_eq deeper_option_eq deeper_refl) (auto intro: calls_deeperD [OF calls])

lemma records_deeper:
  assumes calls: "calls_deeper veq teq veq' teq'"
  shows "deeper (record_fields_eq veq teq r1 e1 r2 e2 g) (record_fields_eq veq' teq' r1 e1 r2 e2 g)"
  unfolding record_fields_eq_def by (intro deeper_and_also deeper_map_eq fields_deeper [OF calls] deeper_refl)

lemma terms_deeper:
  assumes calls: "calls_deeper veq teq veq' teq'"
  shows "deeper (terms_eq veq teq t1 e1 t2 e2 g) (terms_eq veq' teq' t1 e1 t2 e2 g)"
  by (cases t1) (auto simp: terms_eq_def split: nickel_term.split unary_op.split
      intro!: calls_deeperD [OF calls] records_deeper [OF calls])

lemma rec_records_deeper:
  assumes calls: "calls_deeper veq teq veq' teq'"
  shows "deeper (rec_record_eq veq teq t c e1 e2 g) (rec_record_eq veq' teq' t c e1 e2 g)"
  unfolding rec_record_eq_def by (cases t; cases c) (auto intro: records_deeper [OF calls])

lemma values_deeper:
  assumes calls: "calls_deeper veq teq veq' teq'"
  shows "deeper (values_eq veq teq v1 e1 v2 e2 g) (values_eq veq' teq' v1 e1 v2 e2 g)"
  by (cases v1) (auto simp: values_eq_def split: nickel_value.split container.split
      intro!: calls_deeperD [OF calls] records_deeper [OF calls] rec_records_deeper [OF calls] terms_deeper [OF calls])

lemma types_deeper:
  assumes calls: "calls_deeper veq teq veq' teq'"
  shows "deeper (types_eq veq teq t1 e1 t2 e2 g) (types_eq veq' teq' t1 e1 t2 e2 g)"
  by (cases t1) (auto simp: types_eq_def split: ntype.split option.split intro!: calls_deeperD [OF calls])

lemma follow_deeper:
  assumes calls: "calls_deeper veq teq veq' teq'"
  shows "deeper (follow_eq h veq teq v1 e1 v2 e2 g) (follow_eq h veq' teq' v1 e1 v2 e2 g)"
  unfolding follow_eq_def use_gas_def Let_def by (auto intro!: calls_deeperD [OF calls] values_deeper [OF calls] split: option.split)

lemma deeper_step:
  "(\<forall>v1 e1 v2 e2 g. deeper (contract_eq_bounded phys h d v1 e1 v2 e2 g) (contract_eq_bounded phys h (Suc d) v1 e1 v2 e2 g)) \<and>
   (\<forall>t1 e1 t2 e2 g. deeper (type_eq_bounded phys h d t1 e1 t2 e2 g) (type_eq_bounded phys h (Suc d) t1 e1 t2 e2 g))"
proof (induction d)
  case 0
  then show ?case by (simp add: deeper_def)
next
  case (Suc d)
  then have calls: "calls_deeper (contract_eq_bounded phys h d) (type_eq_bounded phys h d)
      (contract_eq_bounded phys h (Suc d)) (type_eq_bounded phys h (Suc d))"
    by (simp only: calls_deeper_def simp_thms)
  show ?case
    using follow_deeper [OF calls] types_deeper [OF calls]
    by (simp del: contract_eq_bounded.simps type_eq_bounded.simps
        add: contract_eq_bounded.simps(2) [of _ _ d] contract_eq_bounded.simps(2) [of _ _ "Suc d"]
          type_eq_bounded.simps(2) [of _ _ d] type_eq_bounded.simps(2) [of _ _ "Suc d"])
qed

lemma deeper_bounded:
  assumes "d \<le> d'"
  shows "deeper (contract_eq_bounded phys h d v1 e1 v2 e2 g) (contract_eq_bounded phys h d' v1 e1 v2 e2 g)"
  using assms
proof (induction rule: dec_induct)
  case (step n)
  have "deeper (contract_eq_bounded phys h n v1 e1 v2 e2 g) (contract_eq_bounded phys h (Suc n) v1 e1 v2 e2 g)"
    using deeper_step by blast
  with step.IH show ?case by (auto simp: deeper_def)
qed simp


section \<open>Properties\<close>

text \<open>
  For every heap, cyclic or not, and all operands, \<open>contract_eq\<close> ends: it never runs out of depth, it uses at most
  \<open>MAX_GAS\<close> units of gas, and comparing with any larger depth gives the same outcome. \<open>Contract_Eq_Total\<close> shows when
  the outcome is an answer.
\<close>

lemma contract_eq_ends:
  "contract_eq phys h t1 env1 t2 env2 \<noteq> OutOfDepth
    \<and> (\<forall>b gas. contract_eq phys h t1 env1 t2 env2 = Answer b gas \<longrightarrow> gas \<le> MAX_GAS)
    \<and> (\<forall>d \<ge> eq_depth h MAX_GAS (size t1 + size t2).
         contract_eq_bounded phys h d t1 env1 t2 env2 MAX_GAS = contract_eq phys h t1 env1 t2 env2)"
proof -
  have "answered MAX_GAS (contract_eq phys h t1 env1 t2 env2)"
    unfolding contract_eq_def using bounded_answered [of h "eq_depth h MAX_GAS (size t1 + size t2)" phys] by blast
  then show ?thesis
    using deeper_bounded [of "eq_depth h MAX_GAS (size t1 + size t2)" _ phys h t1 env1 t2 env2 MAX_GAS]
    unfolding answered_def contract_eq_def [symmetric] deeper_def by metis
qed

text \<open>The record contracts \<open>{foo}\<close> and \<open>{foo | Number}\<close>.\<close>

definition foo_field :: "nickel_type list \<Rightarrow> nfield" where
  "foo_field tys = Field None
    (Some (FieldMetadata None (TypeAnnotation None (map (\<lambda>t. LabeledType t label_default) tys)) False False Neutral))
    (map (\<lambda>t. RuntimeContract (TypeV t Null) label_default) tys)"

definition foo_contract :: "nickel_type list \<Rightarrow> nickel_value" where
  "foo_contract tys = TermV (RecRecord (RecordData [(''foo'', foo_field tys)] attrs_new None) [] [] None False)"

text \<open>
  Fields are compared annotation by annotation up to the shorter list: \<open>{foo}\<close> and
  \<open>{foo | Number}\<close> are equal contracts, for every heap, environment and physical equality. Merging
  a field with the first contract pending and a field with the second one drops the second.
\<close>

theorem contract_eq_ignores_extra_annotations:
  "contract_eq phys h (foo_contract []) env1 (foo_contract [TNumber]) env2 = Answer True MAX_GAS
    \<and> foo_contract [] \<noteq> foo_contract [TNumber]
    \<and> combine_dedup (\<lambda>c1 e1 c2 e2. \<exists>gas. contract_eq phys h c1 e1 c2 e2 = Answer True gas)
        [RuntimeContract (foo_contract []) label_default] env1
        [RuntimeContract (foo_contract [TNumber]) label_default] env2
      = [RuntimeContract (foo_contract []) label_default]"
proof -
  obtain d where d: "eq_depth h MAX_GAS (size (foo_contract []) + size (foo_contract [TNumber])) = Suc d"
    by (simp add: eq_depth_def)
  have eq: "contract_eq phys h (foo_contract []) env1 (foo_contract [TNumber]) env2 = Answer True MAX_GAS"
    unfolding contract_eq_def d
    by (simp add: foo_contract_def foo_field_def follow_eq_def use_gas_def values_eq_def terms_eq_def record_fields_eq_def
        map_eq_def and_also_def contract_eq_fields_def shared_iter_annots_def annotation_iter_def shared_opt_def
        shared_not_exported_def shared_priority_def)
  then show ?thesis by (simp add: combine_dedup_def) (simp add: foo_contract_def foo_field_def)
qed

text \<open>The contracts \<open>{foo = C}\<close> as a recursive record in an environment, and \<open>{foo = 'a}\<close>, evaluated.\<close>

definition rec_contract :: nickel_value where
  "rec_contract = TermV (RecRecord (RecordData [(''foo'', Field (Some (TermV (Var ''C''))) None [])] attrs_new None) [] [] None False)"

definition tag_contract :: nickel_value where
  "tag_contract = RecordV (Alloc (RecordData [(''foo'', Field (Some (EnumVariant ''a'' None)) None [])] attrs_new None))"

text \<open>
  C31. Comparing a recursive record with an evaluated one, when the recursive record comes first, reads each in the
  environment of the other. For every recursive record and every evaluated record that are not physically
  equal, in every heap, comparing the recursive record in \<open>env1\<close> with the evaluated one in \<open>env2\<close> has the
  outcome of comparing the evaluated record in \<open>env1\<close> with the recursive one in \<open>env2\<close>; if both are allocated and the
  recursive record has no dynamic field and no include, that outcome compares the fields of the evaluated record in
  \<open>env1\<close> with those of the recursive one in \<open>env2\<close>. With the evaluated record first the environments are right.
\<close>

theorem contract_eq_swaps_environments:
  assumes "\<not> phys (TermV (RecRecord rec_data incl dyn deps closurized)) env1 (RecordV c) env2"
    and "\<not> phys (RecordV c) env1 (TermV (RecRecord rec_data incl dyn deps closurized)) env2"
  shows "contract_eq phys h (TermV (RecRecord rec_data incl dyn deps closurized)) env1 (RecordV c) env2
      = contract_eq phys h (RecordV c) env1 (TermV (RecRecord rec_data incl dyn deps closurized)) env2
    \<and> (\<forall>r. c = Alloc r \<and> dyn = [] \<and> incl = [] \<longrightarrow>
        (\<exists>d. contract_eq phys h (TermV (RecRecord rec_data incl dyn deps closurized)) env1 (RecordV c) env2
          = record_fields_eq (contract_eq_bounded phys h d) (type_eq_bounded phys h d) r env1 rec_data env2 MAX_GAS))"
proof -
  let ?rec = "TermV (RecRecord rec_data incl dyn deps closurized)" and ?ev = "RecordV c"
  obtain d where d: "eq_depth h MAX_GAS (size ?rec + size ?ev) = Suc d" by (simp add: eq_depth_def)
  then have d': "eq_depth h MAX_GAS (size ?ev + size ?rec) = Suc d" by (simp only: add.commute)
  have "contract_eq phys h ?rec env1 ?ev env2
      = rec_record_eq (contract_eq_bounded phys h d) (type_eq_bounded phys h d)
          (RecRecord rec_data incl dyn deps closurized) c env1 env2 MAX_GAS"
    using assms unfolding contract_eq_def d by (simp add: follow_eq_def use_gas_def values_eq_def)
  moreover have "contract_eq phys h ?ev env1 ?rec env2
      = rec_record_eq (contract_eq_bounded phys h d) (type_eq_bounded phys h d)
          (RecRecord rec_data incl dyn deps closurized) c env1 env2 MAX_GAS"
    using assms unfolding contract_eq_def d' by (simp add: follow_eq_def use_gas_def values_eq_def)
  ultimately show ?thesis by (auto simp: rec_record_eq_def)
qed

text \<open>
  The recursive record \<open>{foo = C}\<close> with \<open>C\<close> bound to \<open>'b\<close> is found equal to \<open>{foo = 'a}\<close> whose environment binds
  \<open>C\<close> to \<open>'a\<close>; with the operands swapped it is not.
\<close>

theorem contract_eq_swaps_environments_witness:
  "let h = [td_new (closure_of_value (EnumVariant ''a'' None)), td_new (closure_of_value (EnumVariant ''b'' None))];
       e_a = [''C'' \<mapsto> 0]; e_b = [''C'' \<mapsto> 1]
   in contract_eq (\<lambda>_ _ _ _. False) h rec_contract e_b tag_contract e_a = Answer True (MAX_GAS - 1)
     \<and> contract_eq (\<lambda>_ _ _ _. False) h tag_contract e_a rec_contract e_b = Answer False (MAX_GAS - 1)"
proof -
  let ?h = "[td_new (closure_of_value (EnumVariant ''a'' None)), td_new (closure_of_value (EnumVariant ''b'' None))]"
  obtain d where d: "eq_depth ?h MAX_GAS (size tag_contract + size rec_contract) = Suc (Suc (Suc d))"
    by (simp add: eq_depth_def MAX_GAS_def)
  have ev_first: "contract_eq (\<lambda>_ _ _ _. False) ?h tag_contract [''C'' \<mapsto> i] rec_contract [''C'' \<mapsto> j]
      = Answer (j = 0) (MAX_GAS - 1)" if "j \<le> 1" for i j
    unfolding contract_eq_def d using that
    by (auto simp add: rec_contract_def tag_contract_def follow_eq_def use_gas_def values_eq_def rec_record_eq_def
        record_fields_eq_def map_eq_def and_also_def contract_eq_fields_def shared_iter_annots_def shared_opt_def
        shared_not_exported_def shared_priority_def borrowed_def thunk_borrow_def heap_read_def td_new_def td_closure_def
        closure_of_value_def MAX_GAS_def le_Suc_eq)
  have "contract_eq (\<lambda>_ _ _ _. False) ?h rec_contract [''C'' \<mapsto> 1] tag_contract [''C'' \<mapsto> 0]
      = contract_eq (\<lambda>_ _ _ _. False) ?h tag_contract [''C'' \<mapsto> 1] rec_contract [''C'' \<mapsto> 0]"
    unfolding rec_contract_def tag_contract_def
    by (rule contract_eq_swaps_environments [THEN conjunct1]) simp_all
  then show ?thesis by (simp add: Let_def ev_first)
qed

end
