(* ===== verification/Contract_Eq_Total.thy ===== *)
theory Contract_Eq_Total
  imports Contract_Eq_Props
begin

text \<open>
  When contract equality answers. \<open>Contract_Eq_Props\<close> shows that the comparison ends; it can still panic, on a thunk
  that is not in the heap or, following a variable, on a revertible thunk whose cached value is not built. Here: a heap without
  dangling thunks, whose environments only reach built thunks, gives an answer to every comparison.
\<close>

section \<open>Comparable closures\<close>

text \<open>The thunks that occur in a value.\<close>

primrec addrs :: "nickel_value \<Rightarrow> addr set"
and addrs_term :: "nickel_term \<Rightarrow> addr set" where
  "addrs Null = {}" | "addrs (Bool b) = {}" | "addrs (Number q) = {}" | "addrs (String s) = {}" | "addrs (ForeignId i) = {}"
| "addrs (SealingKey k) = {}" | "addrs (LabelV l) = {}" | "addrs (Thunk a) = {a}"
| "addrs (ArrayV d) =
    (case map_container (map_prod (map addrs) (map (map_runtime_contract addrs))) d of
       Empty \<Rightarrow> {} | Alloc (vs, cs) \<Rightarrow> \<Union> (set vs) \<union> \<Union> (ctr_contract ` set cs))"
| "addrs (RecordV d) =
    (case map_container (map_record_data addrs) d of Empty \<Rightarrow> {} | Alloc r \<Rightarrow> \<Union> (set_record_data r))"
| "addrs (EnumVariant tag arg) = \<Union> (set_option (map_option addrs arg))"
| "addrs (CustomContract v) = addrs v"
| "addrs (TypeV t v) = \<Union> (set_ntype (map_ntype addrs t)) \<union> addrs v"
| "addrs (TermV t) = addrs_term t"
| "addrs_term (Var x) = {}"
| "addrs_term (ParseError n) = {}" | "addrs_term (Import i) = {}" | "addrs_term (ResolvedImport i) = {}"
| "addrs_term (RuntimeError err) = \<Union> (set_runtime_error (map_runtime_error addrs err))"
| "addrs_term (StrChunks chunks) = \<Union> (\<Union> (set (map set_str_chunk (map (map_str_chunk addrs) chunks))))"
| "addrs_term (Fun x body) = addrs body"
| "addrs_term (Let bindings body bty is_rec) = \<Union> (snd ` set (map (map_prod id addrs) bindings)) \<union> addrs body"
| "addrs_term (App f arg) = addrs f \<union> addrs arg"
| "addrs_term (RecRecord data incl dyns deps closurized) =
    \<Union> (set_record_data (map_record_data addrs data))
      \<union> (\<Union>(x, m) \<in> set (map (map_prod id (map_field_metadata addrs)) incl). \<Union> (set_field_metadata m))
      \<union> (\<Union>(t, fld) \<in> set (map (map_prod addrs (map_field addrs)) dyns). t \<union> \<Union> (set_field fld))"
| "addrs_term (Closurize v) = addrs v"
| "addrs_term (Op1 op v) = addrs v"
| "addrs_term (Op2 op v1 v2) = \<Union> (set_binary_op (map_binary_op addrs op)) \<union> addrs v1 \<union> addrs v2"
| "addrs_term (OpN op args) = \<Union> (set (map addrs args))"
| "addrs_term (Sealed k v l) = addrs v"
| "addrs_term (Annotated annot v) = \<Union> (set_type_annotation (map_type_annotation addrs annot)) \<union> addrs v"

text \<open>
  A value and an environment that can be compared in a heap: no thunk of the value dangles, and every thunk the environment
  binds can be read. \<open>comparable_heap\<close> asks it of what the heap holds, as \<open>borrow_orig\<close> reads it.
\<close>

definition comparable :: "heap \<Rightarrow> nickel_value \<Rightarrow> env \<Rightarrow> bool" where
  "comparable h v e \<longleftrightarrow> (\<forall>a \<in> addrs v. a < length h) \<and> (\<forall>a \<in> ran e. thunk_borrow h a \<noteq> None)"

definition comparable_heap :: "heap \<Rightarrow> bool" where
  "comparable_heap h \<longleftrightarrow>
    (\<forall>td \<in> set h. comparable h (clo_value (td_closure_or_orig td)) (clo_env (td_closure_or_orig td)))"

section \<open>Quiet outcomes\<close>

definition quiet :: "eq_outcome \<Rightarrow> bool" where
  "quiet x \<longleftrightarrow> x \<noteq> Panicked"

lemma quiet_simps [simp]: "quiet (Answer b g)" "quiet OutOfDepth" "\<not> quiet Panicked"
  by (simp_all add: quiet_def)

lemma quiet_and_then: "quiet x \<Longrightarrow> (\<And>b g. quiet (k b g)) \<Longrightarrow> quiet (and_then x k)"
  by (cases x) auto

lemma quiet_and_also: "quiet x \<Longrightarrow> (\<And>g. quiet (y g)) \<Longrightarrow> quiet (and_also x y)"
  unfolding and_also_def by (rule quiet_and_then) auto

lemma quiet_all_eq: "(\<And>x g. x \<in> set xs \<Longrightarrow> quiet (f x g)) \<Longrightarrow> quiet (all_eq f xs g)"
  by (induction xs arbitrary: g) (auto intro: quiet_and_also)

lemma quiet_map_eq:
  assumes "\<And>x y v1 v2 g. (x, v1) \<in> set m1 \<Longrightarrow> (y, v2) \<in> set m2 \<Longrightarrow> quiet (f v1 v2 g)"
  shows "quiet (map_eq f m1 m2 g)"
  unfolding map_eq_def by (auto intro!: quiet_all_eq assms dest!: map_of_SomeD split: option.split)

lemma quiet_option_eq:
  "(\<And>x y. a = Some x \<Longrightarrow> b = Some y \<Longrightarrow> quiet (f x e1 y e2 g)) \<Longrightarrow> quiet (option_eq f a e1 b e2 g)"
  by (cases a; cases b) auto

lemmas quiet_intros = quiet_and_then quiet_and_also quiet_all_eq quiet_map_eq quiet_option_eq

text \<open>Calls on values without thunks outside \<open>A\<close>, in environments of \<open>E\<close>, do not panic.\<close>

definition inside :: "addr set \<Rightarrow> nickel_value set \<Rightarrow> bool" where
  "inside A vs \<longleftrightarrow> (\<forall>v \<in> vs. addrs v \<subseteq> A)"

definition calls_quiet :: "addr set \<Rightarrow> env set \<Rightarrow> nickel_value env_eq \<Rightarrow> nickel_type env_eq \<Rightarrow> bool" where
  "calls_quiet A E veq teq \<longleftrightarrow> (\<forall>e1 \<in> E. \<forall>e2 \<in> E.
    (\<forall>v1 v2 g. addrs v1 \<subseteq> A \<longrightarrow> addrs v2 \<subseteq> A \<longrightarrow> quiet (veq v1 e1 v2 e2 g)) \<and>
    (\<forall>t1 t2 g. inside A (set_ntype t1) \<longrightarrow> inside A (set_ntype t2) \<longrightarrow> quiet (teq t1 e1 t2 e2 g)))"

lemma calls_quietD:
  assumes "calls_quiet A E veq teq" and "e1 \<in> E" and "e2 \<in> E"
  shows "addrs v1 \<subseteq> A \<Longrightarrow> addrs v2 \<subseteq> A \<Longrightarrow> quiet (veq v1 e1 v2 e2 g)"
    and "inside A (set_ntype t1) \<Longrightarrow> inside A (set_ntype t2) \<Longrightarrow> quiet (teq t1 e1 t2 e2 g)"
  using assms unfolding calls_quiet_def by blast+

lemma insideD: "inside A vs \<Longrightarrow> v \<in> vs \<Longrightarrow> addrs v \<subseteq> A"
  by (simp add: inside_def)

lemma inside_mono: "inside A vs \<Longrightarrow> ws \<subseteq> vs \<Longrightarrow> inside A ws"
  by (auto simp: inside_def)

section \<open>One level\<close>

lemma field_members:
  "c \<in> set (field_pending_contracts f) \<Longrightarrow> ctr_contract c \<in> set_field f"
  "field_value f = Some v \<Longrightarrow> v \<in> set_field f"
  "t \<in> set (shared_iter_annots (field_metadata f)) \<Longrightarrow> set_ntype (lt_typ t) \<subseteq> set_field f"
proof -
  show "c \<in> set (field_pending_contracts f) \<Longrightarrow> ctr_contract c \<in> set_field f"
    by (cases f; cases c) force
  show "field_value f = Some v \<Longrightarrow> v \<in> set_field f" by (cases f) auto
  show "set_ntype (lt_typ t) \<subseteq> set_field f" if t: "t \<in> set (shared_iter_annots (field_metadata f))"
  proof -
    obtain m where m: "field_metadata f = Some m" "t \<in> set (annotation_iter (fm_annotation m))"
      using t by (cases "field_metadata f") (auto simp: shared_iter_annots_def)
    then have "set_ntype (lt_typ t) \<subseteq> set_type_annotation (fm_annotation m)"
      by (cases "fm_annotation m"; cases t) (auto simp: annotation_iter_def split: option.splits; force)
    with m(1) show ?thesis by (cases f; cases m) auto
  qed
qed

lemma contract_eq_fields_quiet:
  assumes calls: "calls_quiet A E veq teq" "e1 \<in> E" "e2 \<in> E" and f: "inside A (set_field f1)" "inside A (set_field f2)"
  shows "quiet (contract_eq_fields veq teq f1 e1 f2 e2 g)"
proof -
  note f1 = insideD [OF f(1)] inside_mono [OF f(1)] and f2 = insideD [OF f(2)] inside_mono [OF f(2)]
  have ctr: "quiet (veq (ctr_contract c1) e1 (ctr_contract c2) e2 g)"
    if "(c1, c2) \<in> set (zip (field_pending_contracts f1) (field_pending_contracts f2))" for c1 c2 g
    using zip_mem [OF that] by (intro calls_quietD [OF calls] f1(1) f2(1) field_members) simp_all
  have annot: "quiet (teq (lt_typ t1) e1 (lt_typ t2) e2 g)"
    if "(t1, t2) \<in> set (zip (shared_iter_annots (field_metadata f1)) (shared_iter_annots (field_metadata f2)))" for t1 t2 g
    using zip_mem [OF that] by (intro calls_quietD [OF calls] f1(2) f2(2) field_members) simp_all
  have val: "quiet (veq x e1 y e2 g)" if "field_value f1 = Some x" "field_value f2 = Some y" for x y g
    using that by (intro calls_quietD [OF calls] f1(1) f2(1) field_members)
  show ?thesis
    unfolding contract_eq_fields_def Let_def
    by (intro quiet_and_then quiet_all_eq quiet_option_eq quiet_simps) (auto split: prod.split intro: val ctr annot)
qed

lemma record_fields_eq_quiet:
  assumes calls: "calls_quiet A E veq teq" "e1 \<in> E" "e2 \<in> E" and r: "inside A (set_record_data r1)" "inside A (set_record_data r2)"
  shows "quiet (record_fields_eq veq teq r1 e1 r2 e2 g)"
proof -
  have "(x, f) \<in> set (record_fields r) \<Longrightarrow> set_field f \<subseteq> set_record_data r" for x f and r :: nrecord
    by (cases r) force
  then show ?thesis unfolding record_fields_eq_def
    by (intro quiet_intros quiet_simps contract_eq_fields_quiet [OF calls] inside_mono [OF r(1)] inside_mono [OF r(2)]) auto
qed

lemma addrs_parts:
  "addrs (RecordV (Alloc r)) = \<Union> (addrs ` set_record_data r)"
  "addrs (ArrayV (Alloc (vs, cs))) = \<Union> (addrs ` set vs) \<union> \<Union> ((addrs \<circ> ctr_contract) ` set cs)"
  "addrs (TypeV t v) = \<Union> (addrs ` set_ntype t) \<union> addrs v"
  "addrs (EnumVariant tag arg) = \<Union> (addrs ` set_option arg)"
  "addrs_term (Annotated annot v) = \<Union> (addrs ` set_type_annotation annot) \<union> addrs v"
  "\<Union> (addrs ` set_record_data r) \<subseteq> addrs_term (RecRecord r i d dp b)"
  by (auto simp: record_data.set_map ntype.set_map option.set_map type_annotation.set_map image_image
    runtime_contract.map_sel)

lemma terms_eq_quiet:
  assumes calls: "calls_quiet A E veq teq" "e1 \<in> E" "e2 \<in> E" and t: "addrs_term t1 \<subseteq> A" "addrs_term t2 \<subseteq> A"
  shows "quiet (terms_eq veq teq t1 e1 t2 e2 g)"
proof -
  note veq = calls_quietD(1) [OF calls] and teq = calls_quietD(2) [OF calls]
  show ?thesis
  proof (cases t1)
    case (RecRecord r i d dp b)
    show ?thesis
    proof (cases t2)
      case (RecRecord r' i' d' dp' b')
      have "inside A (set_record_data r)" "inside A (set_record_data r')"
        using t addrs_parts(6) [of r i d dp b] addrs_parts(6) [of r' i' d' dp' b']
        unfolding \<open>t1 = _\<close> RecRecord inside_def by blast+
      then show ?thesis by (simp add: terms_eq_def RecRecord \<open>t1 = _\<close> record_fields_eq_quiet [OF calls])
    qed (simp_all add: terms_eq_def RecRecord)
  next
    case (Annotated a v)
    show ?thesis
    proof (cases t2)
      case (Annotated a' v')
      have first: "annotation_first x = Some l \<Longrightarrow> set_ntype (lt_typ l) \<subseteq> set_type_annotation x" for x :: nannotation and l
        by (cases x; cases l) (auto simp: annotation_first_def annotation_iter_def split: option.splits list.splits)
      have "inside A (set_type_annotation a)" "inside A (set_type_annotation a')" "addrs v \<subseteq> A" "addrs v' \<subseteq> A"
        using t unfolding \<open>t1 = _\<close> Annotated addrs_parts inside_def by blast+
      then show ?thesis unfolding \<open>t1 = _\<close> Annotated terms_eq_def nickel_term.case
        by (intro quiet_and_then quiet_option_eq quiet_simps veq teq) (auto dest!: first intro: inside_mono)
    qed (simp_all add: terms_eq_def Annotated)
  next
    case (App f a)
    then show ?thesis using t by (cases t2) (auto simp: terms_eq_def intro!: quiet_and_also veq)
  next
    case (Op1 op a)
    then show ?thesis using t by (cases t2) (auto simp: terms_eq_def intro!: veq split: unary_op.split)
  next
    case (Sealed k v l)
    then show ?thesis using t by (cases t2) (auto simp: terms_eq_def intro!: veq)
  next
    case (Closurize v)
    then show ?thesis using t by (cases t2) (auto simp: terms_eq_def intro!: veq)
  next
    case (StrChunks scs)
    then show ?thesis by (cases t2) (auto simp: terms_eq_def)
  qed (simp_all add: terms_eq_def)
qed

lemma rec_record_eq_quiet:
  assumes calls: "calls_quiet A E veq teq" "e1 \<in> E" "e2 \<in> E" and "addrs_term t \<subseteq> A" and "addrs (RecordV c) \<subseteq> A"
  shows "quiet (rec_record_eq veq teq t c e1 e2 g)"
proof (cases "\<exists>r i d dp b r'. t = RecRecord r i d dp b \<and> c = Alloc r'")
  case True
  then obtain r i d dp b r' where tc: "t = RecRecord r i d dp b" "c = Alloc r'" by blast
  have "inside A (set_record_data r)" "inside A (set_record_data r')"
    using assms(4,5) addrs_parts(6) [of r i d dp b] unfolding tc addrs_parts inside_def by blast+
  then show ?thesis by (simp add: tc rec_record_eq_def record_fields_eq_quiet [OF calls])
next
  case False
  then show ?thesis by (cases t; cases c) (simp_all add: rec_record_eq_def)
qed

lemma values_eq_quiet:
  assumes calls: "calls_quiet A E veq teq" "e1 \<in> E" "e2 \<in> E" and v: "addrs v1 \<subseteq> A" "addrs v2 \<subseteq> A"
  shows "quiet (values_eq veq teq v1 e1 v2 e2 g)"
proof -
  note veq = calls_quietD(1) [OF calls] and teq = calls_quietD(2) [OF calls]
  show ?thesis
  proof (cases v1)
    case (EnumVariant tag arg)
    then show ?thesis using v
      by (cases v2) (auto simp: values_eq_def addrs_parts simp del: addrs.simps(11) intro!: quiet_option_eq veq)
  next
    case (RecordV c)
    show ?thesis
    proof (cases v2)
      case (RecordV c')
      have "inside A (set_record_data r)" "inside A (set_record_data r')" if "c = Alloc r" "c' = Alloc r'" for r r'
        using v unfolding \<open>v1 = _\<close> RecordV that addrs_parts inside_def by blast+
      then show ?thesis unfolding \<open>v1 = _\<close> RecordV
        by (cases c; cases c') (auto simp: values_eq_def intro!: record_fields_eq_quiet [OF calls])
    next
      case (TermV t)
      then show ?thesis using RecordV v by (simp add: values_eq_def rec_record_eq_quiet [OF calls])
    qed (simp_all add: values_eq_def RecordV)
  next
    case (ArrayV c)
    show ?thesis
    proof (cases v2)
      case (ArrayV c')
      have "quiet (veq w1 e1 w2 e2 g)" if "c = Alloc (vs, cs)" "c' = Alloc (vs', cs')" "(w1, w2) \<in> set (zip vs vs')"
        for vs cs vs' cs' w1 w2 g
        using v zip_mem [OF that(3)] unfolding \<open>v1 = _\<close> ArrayV that(1,2) addrs_parts by (intro veq) auto
      then show ?thesis unfolding \<open>v1 = _\<close> ArrayV
        by (cases c; cases c') (auto simp: values_eq_def intro!: quiet_and_also quiet_all_eq)
    qed (simp_all add: values_eq_def ArrayV)
  next
    case (TypeV t c)
    show ?thesis
    proof (cases v2)
      case (TypeV t' c')
      have "inside A (set_ntype t)" "inside A (set_ntype t')"
        using v unfolding \<open>v1 = _\<close> TypeV addrs_parts inside_def by blast+
      then show ?thesis by (simp add: values_eq_def TypeV \<open>v1 = _\<close> teq)
    qed (simp_all add: values_eq_def TypeV)
  next
    case (TermV t)
    then show ?thesis using v
      by (cases v2) (simp_all add: values_eq_def terms_eq_quiet [OF calls] rec_record_eq_quiet [OF calls])
  qed (simp_all add: values_eq_def)
qed

lemma rows_members:
  "rrows_as_map rows = Some m \<Longrightarrow> (x, t) \<in> set m \<Longrightarrow> set_ntype t \<subseteq> set_record_rows rows"
  "erows_as_map erows = Some em \<Longrightarrow> (x, Some t) \<in> set em \<Longrightarrow> set_ntype t \<subseteq> set_enum_rows erows"
proof -
  have r: "record_rows_items rows = Some xs \<Longrightarrow> (x, t) \<in> set xs \<Longrightarrow> set_ntype t \<subseteq> set_record_rows rows" for xs
    by (induction rows arbitrary: xs rule: record_rows_items.induct) fastforce+
  have e: "enum_rows_items erows = Some xs \<Longrightarrow> (x, Some t) \<in> set xs \<Longrightarrow> set_ntype t \<subseteq> set_enum_rows erows" for xs
    by (induction erows arbitrary: xs rule: enum_rows_items.induct) fastforce+
  show "rrows_as_map rows = Some m \<Longrightarrow> (x, t) \<in> set m \<Longrightarrow> set_ntype t \<subseteq> set_record_rows rows"
    using r set_im_from_iter by (fastforce simp: rrows_as_map_def)
  show "erows_as_map erows = Some em \<Longrightarrow> (x, Some t) \<in> set em \<Longrightarrow> set_ntype t \<subseteq> set_enum_rows erows"
    using e set_im_from_iter by (fastforce simp: erows_as_map_def)
qed

lemma types_eq_quiet:
  assumes calls: "calls_quiet A E veq teq" "e1 \<in> E" "e2 \<in> E" and t: "inside A (set_ntype t1)" "inside A (set_ntype t2)"
  shows "quiet (types_eq veq teq t1 e1 t2 e2 g)"
proof -
  note veq = calls_quietD(1) [OF calls] and teq = calls_quietD(2) [OF calls]
  show ?thesis
  proof (cases t1)
    case (TEnum rows)
    show ?thesis
    proof (cases t2)
      case (TEnum rows2)
      have "inside A (set_enum_rows rows)" "inside A (set_enum_rows rows2)" using t \<open>t1 = _\<close> TEnum by simp_all
      note sub = inside_mono [OF this(1) rows_members(2)] inside_mono [OF this(2) rows_members(2)]
      have "quiet (map_eq (\<lambda>t1 t2. option_eq teq t1 e1 t2 e2) m1 m2 g)"
        if "erows_as_map rows = Some m1" "erows_as_map rows2 = Some m2" for m1 m2
        by (intro quiet_map_eq quiet_option_eq teq) (auto intro: sub that)
      then show ?thesis unfolding \<open>t1 = _\<close> TEnum by (auto simp: types_eq_def split: option.split)
    qed (simp_all add: types_eq_def TEnum)
  next
    case (TRecord rows)
    show ?thesis
    proof (cases t2)
      case (TRecord rows2)
      have "inside A (set_record_rows rows)" "inside A (set_record_rows rows2)" using t \<open>t1 = _\<close> TRecord by simp_all
      note sub = inside_mono [OF this(1) rows_members(1)] inside_mono [OF this(2) rows_members(1)]
      have "quiet (map_eq (\<lambda>t1 t2. teq t1 e1 t2 e2) m1 m2 g)"
        if "rrows_as_map rows = Some m1" "rrows_as_map rows2 = Some m2" for m1 m2
        by (intro quiet_map_eq teq) (auto intro: sub that)
      then show ?thesis unfolding \<open>t1 = _\<close> TRecord by (auto simp: types_eq_def split: option.split)
    qed (simp_all add: types_eq_def TRecord)
  next
    case (TArrow s u)
    then show ?thesis using t by (cases t2) (auto simp: types_eq_def inside_def intro!: quiet_and_also teq)
  next
    case (TDict s a)
    then show ?thesis using t by (cases t2) (auto simp: types_eq_def intro!: teq)
  next
    case (TArray s)
    then show ?thesis using t by (cases t2) (auto simp: types_eq_def intro!: teq)
  next
    case (TContract v)
    then show ?thesis using t by (cases t2) (auto simp: types_eq_def inside_def intro!: veq)
  qed (simp_all add: types_eq_def)
qed

section \<open>Following variables and thunks\<close>

definition readable_envs :: "heap \<Rightarrow> env set" where
  "readable_envs h = {e. \<forall>a \<in> ran e. thunk_borrow h a \<noteq> None}"

lemma comparable_iff: "comparable h v e \<longleftrightarrow> addrs v \<subseteq> {..<length h} \<and> e \<in> readable_envs h"
  by (auto simp: comparable_def readable_envs_def)

lemma borrow_orig_comparable:
  assumes "comparable_heap h" and "a < length h"
  shows "\<exists>c. thunk_borrow_orig h a = Some c \<and> comparable h (clo_value c) (clo_env c)"
  using assms by (auto simp: comparable_heap_def thunk_borrow_orig_def heap_read_def)

lemma borrow_comparable:
  assumes "comparable_heap h" and "e \<in> readable_envs h" and "e x = Some a"
  shows "\<exists>c. thunk_borrow h a = Some c \<and> comparable h (clo_value c) (clo_env c)"
proof -
  obtain c where c: "thunk_borrow h a = Some c" using assms(2) ranI [of e x a] assms(3) by (fastforce simp: readable_envs_def)
  then have a: "a < length h" "td_closure (h ! a) = Some c"
    by (auto simp: thunk_borrow_def bind_eq_Some_conv heap_read_Some_iff)
  then have "td_closure_or_orig (h ! a) = c"
    by (auto simp: td_closure_def td_closure_or_orig_def split: inner_thunk_data.splits)
  with assms(1) a(1) c show ?thesis by (auto simp: comparable_heap_def)
qed

lemma as_thunk_addrs: "as_thunk v = Some a \<Longrightarrow> addrs v = {a}"
  by (cases v) auto

lemma quiet_borrowed:
  assumes "\<exists>cl. c = Some cl \<and> comparable h (clo_value cl) (clo_env cl)"
    and "\<And>w e. addrs w \<subseteq> {..<length h} \<Longrightarrow> e \<in> readable_envs h \<Longrightarrow> quiet (k w e)"
  shows "quiet (borrowed c k)"
  using assms by (auto simp: borrowed_def comparable_iff)

lemma follow_eq_quiet:
  assumes heap: "comparable_heap h" and calls: "calls_quiet {..<length h} (readable_envs h) veq teq"
    and e: "e1 \<in> readable_envs h" "e2 \<in> readable_envs h"
    and v: "addrs v1 \<subseteq> {..<length h}" "addrs v2 \<subseteq> {..<length h}"
  shows "quiet (follow_eq h veq teq v1 e1 v2 e2 g)"
proof -
  have orig: "\<exists>c. thunk_borrow_orig h a = Some c \<and> comparable h (clo_value c) (clo_env c)"
    if "as_thunk w = Some a" "addrs w \<subseteq> {..<length h}" for w a
    using borrow_orig_comparable [OF heap, of a] that by (simp add: as_thunk_addrs)
  show ?thesis
    unfolding follow_eq_def use_gas_def Let_def
    by (auto split: option.split intro!: quiet_borrowed borrow_comparable [OF heap] orig
      calls_quietD(1) [OF calls] values_eq_quiet [OF calls e v] e v)
qed

lemma bounded_quiet:
  assumes heap: "comparable_heap h"
  shows "calls_quiet {..<length h} (readable_envs h) (contract_eq_bounded phys h d) (type_eq_bounded phys h d)"
proof (induction d)
  case 0
  then show ?case by (simp add: calls_quiet_def)
next
  case (Suc d)
  from follow_eq_quiet [OF heap Suc] types_eq_quiet [OF Suc] show ?case by (simp add: calls_quiet_def)
qed

section \<open>Theorem\<close>

text \<open>
  C30. Contract equality ends, and answers on every pair of contracts of a well-built heap. For every heap, cyclic or
  not, and all operands, \<open>contract_eq\<close> never runs out of depth, uses at most \<open>MAX_GAS\<close> units of gas, and
  gives the same outcome with any larger depth. When no thunk dangles and every thunk bound in an environment
  of the operands or of the heap can be read, the outcome is an answer; otherwise it may be the panic of \<open>borrow\<close> on a
  revertible thunk whose cached value is not built.
\<close>

theorem contract_eq_answers:
  "contract_eq phys h t1 env1 t2 env2 \<noteq> OutOfDepth
    \<and> (\<forall>b gas. contract_eq phys h t1 env1 t2 env2 = Answer b gas \<longrightarrow> gas \<le> MAX_GAS)
    \<and> (\<forall>d \<ge> eq_depth h MAX_GAS (size t1 + size t2).
         contract_eq_bounded phys h d t1 env1 t2 env2 MAX_GAS = contract_eq phys h t1 env1 t2 env2)
    \<and> (comparable_heap h \<and> comparable h t1 env1 \<and> comparable h t2 env2 \<longrightarrow>
         (\<exists>b gas. contract_eq phys h t1 env1 t2 env2 = Answer b gas))"
proof -
  have "contract_eq phys h t1 env1 t2 env2 \<noteq> Panicked"
    if "comparable_heap h" "comparable h t1 env1" "comparable h t2 env2"
    using that bounded_quiet [OF that(1), of phys "eq_depth h MAX_GAS (size t1 + size t2)"]
    by (simp add: calls_quiet_def quiet_def contract_eq_def comparable_iff)
  then show ?thesis
    using contract_eq_ends [of phys h t1 env1 t2 env2] by (cases "contract_eq phys h t1 env1 t2 env2") auto
qed

text \<open>Two contracts \<open>Foo\<close> and \<open>Bar\<close> that are aliases of each other, as in \<open>{Foo = Bar, Bar = Foo}\<close>.\<close>

definition alias_env :: env where
  "alias_env = [''Foo'' \<mapsto> 0, ''Bar'' \<mapsto> 1]"

definition alias_heap :: heap where
  "alias_heap =
    [td_new \<lparr>clo_value = TermV (Var ''Bar''), clo_env = alias_env\<rparr>,
     td_new \<lparr>clo_value = TermV (Var ''Foo''), clo_env = alias_env\<rparr>]"

theorem contract_eq_answers_witness:
  "comparable_heap alias_heap \<and> comparable alias_heap (TermV (Var ''Foo'')) alias_env
   \<and> comparable alias_heap (TermV (Var ''Bar'')) alias_env
   \<and> (\<exists>b gas. contract_eq (\<lambda>_ _ _ _. False) alias_heap (TermV (Var ''Foo'')) alias_env (TermV (Var ''Bar'')) alias_env
        = Answer b gas \<and> gas \<le> MAX_GAS)"
proof -
  have "ran alias_env = {1, 0}" unfolding alias_env_def by (simp add: ran_map_upd)
  then have c: "comparable_heap alias_heap" "comparable alias_heap (TermV (Var ''Foo'')) alias_env"
    "comparable alias_heap (TermV (Var ''Bar'')) alias_env"
    by (auto simp: alias_heap_def comparable_heap_def comparable_def td_closure_or_orig_def td_closure_def td_new_def
      thunk_borrow_def heap_read_def)
  note ans = contract_eq_answers [of "\<lambda>_ _ _ _. False" alias_heap "TermV (Var ''Foo'')" alias_env "TermV (Var ''Bar'')" alias_env]
  obtain b gas where "contract_eq (\<lambda>_ _ _ _. False) alias_heap (TermV (Var ''Foo'')) alias_env (TermV (Var ''Bar'')) alias_env
      = Answer b gas"
    using ans [THEN conjunct2, THEN conjunct2, THEN conjunct2, THEN mp] c by auto
  then show ?thesis using ans [THEN conjunct2, THEN conjunct1] c by auto
qed

end
