(* ===== verification/Environment_Layers.thy ===== *)
theory Environment_Layers
  imports Nickel_Prelude "HOL-Library.AList"
begin

text \<open>
  Environments, \<open>core/src/environment.rs\<close> (and its copy \<open>parser/src/environment.rs\<close>): a linked list
  of layers of which only the current one may change, with the "split-on-write" of \<open>insert\<close> and
  \<open>extend\<close>.

  Whether a layer may be mutated depends on its reference count, so that the sharing is explicit
  here. The store holds the hash maps; an environment is the address of its current layer and its
  previous environment, which never changes once it is built; the world has one slot for each
  environment variable of the program, empty once the variable is dropped. The reference count of
  a layer is the number of environments of the world that point to it: a node of a chain that
  several environments share is counted once for each of them, which does not change whether the
  count is one for a layer that is the current one of a variable.

  A hash map is an association list with distinct keys.
\<close>

section \<open>Layers and worlds\<close>

datatype environment = Environment (env_current: nat) (env_previous: "environment option")

record ('k, 'v) world =
  w_maps :: "('k \<times> 'v) list list"
  w_slots :: "environment option list"

fun env_addrs :: "environment \<Rightarrow> nat list" where
  "env_addrs (Environment a None) = [a]"
| "env_addrs (Environment a (Some p)) = a # env_addrs p"

definition slot_addrs :: "environment option \<Rightarrow> nat list" where
  "slot_addrs s = (case s of None \<Rightarrow> [] | Some e \<Rightarrow> env_addrs e)"

definition strong_count :: "('k, 'v) world \<Rightarrow> nat \<Rightarrow> nat" where
  "strong_count w a = length (filter (\<lambda>b. b = a) (concat (map slot_addrs (w_slots w))))"

definition map_extend :: "('k \<times> 'v) list \<Rightarrow> ('k \<times> 'v) list \<Rightarrow> ('k \<times> 'v) list" where
  "map_extend m kvs = foldl (\<lambda>m kv. AList.update (fst kv) (snd kv) m) m kvs"

section \<open>Operations\<close>

definition alloc_map :: "('k \<times> 'v) list \<Rightarrow> ('k, 'v) world \<Rightarrow> nat \<times> ('k, 'v) world" where
  "alloc_map m w = (length (w_maps w), w\<lparr>w_maps := w_maps w @ [m]\<rparr>)"

definition env_new :: "('k, 'v) world \<Rightarrow> ('k, 'v) world" where
  "env_new w = (let (a, w') = alloc_map [] w in w'\<lparr>w_slots := w_slots w' @ [Some (Environment a None)]\<rparr>)"

definition env_from_iter :: "('k \<times> 'v) list \<Rightarrow> ('k, 'v) world \<Rightarrow> ('k, 'v) world" where
  "env_from_iter kvs w =
    (let (a, w') = alloc_map (map_extend [] kvs) w in w'\<lparr>w_slots := w_slots w' @ [Some (Environment a None)]\<rparr>)"

definition env_clone :: "nat \<Rightarrow> ('k, 'v) world \<Rightarrow> ('k, 'v) world panics" where
  "env_clone i w = (if i < length (w_slots w) \<and> w_slots w ! i \<noteq> None
     then Some (w\<lparr>w_slots := w_slots w @ [w_slots w ! i]\<rparr>) else None)"

definition env_drop :: "nat \<Rightarrow> ('k, 'v) world \<Rightarrow> ('k, 'v) world panics" where
  "env_drop i w = (if i < length (w_slots w) \<and> w_slots w ! i \<noteq> None
     then Some (w\<lparr>w_slots := (w_slots w)[i := None]\<rparr>) else None)"

definition set_current :: "nat \<Rightarrow> environment \<Rightarrow> ('k \<times> 'v) list \<Rightarrow> ('k, 'v) world \<Rightarrow> ('k, 'v) world" where
  "set_current i e new_current w =
    (let (a, w') = alloc_map new_current w;
         previous = (if w_maps w ! env_current e \<noteq> []
                     then Some (Environment (env_current e) (env_previous e)) else env_previous e)
     in w'\<lparr>w_slots := (w_slots w')[i := Some (Environment a previous)]\<rparr>)"

text \<open>\<open>Rc::get_mut\<close> succeeds exactly when the layer has no other owner.\<close>

definition env_extend_layers :: "nat \<Rightarrow> ('k \<times> 'v) list \<Rightarrow> ('k, 'v) world \<Rightarrow> ('k, 'v) world panics" where
  "env_extend_layers i kvs w =
    (if i < length (w_slots w)
     then (case w_slots w ! i of
             None \<Rightarrow> None
           | Some e \<Rightarrow>
               Some (if strong_count w (env_current e) = 1
                 then w\<lparr>w_maps := (w_maps w)[env_current e := map_extend (w_maps w ! env_current e) kvs]\<rparr>
                 else set_current i e (map_extend [] kvs) w))
     else None)"

definition env_insert :: "nat \<Rightarrow> 'k \<Rightarrow> 'v \<Rightarrow> ('k, 'v) world \<Rightarrow> ('k, 'v) world panics" where
  "env_insert i k v w =
    (if i < length (w_slots w)
     then (case w_slots w ! i of
             None \<Rightarrow> None
           | Some e \<Rightarrow>
               Some (if strong_count w (env_current e) = 1
                 then w\<lparr>w_maps := (w_maps w)[env_current e := AList.update k v (w_maps w ! env_current e)]\<rparr>
                 else set_current i e (AList.update k v []) w))
     else None)"

fun iter_layers :: "('k \<times> 'v) list list \<Rightarrow> environment \<Rightarrow> ('k \<times> 'v) list list" where
  "iter_layers ms (Environment a None) = [ms ! a]"
| "iter_layers ms (Environment a (Some p)) = (ms ! a) # iter_layers ms p"

fun find_map :: "('a \<Rightarrow> 'b option) \<Rightarrow> 'a list \<Rightarrow> 'b option" where
  "find_map f [] = None"
| "find_map f (x # xs) = (case f x of None \<Rightarrow> find_map f xs | Some y \<Rightarrow> Some y)"

definition env_get :: "('k, 'v) world \<Rightarrow> environment \<Rightarrow> 'k \<Rightarrow> 'v option" where
  "env_get w e k = find_map (\<lambda>m. map_of m k) (iter_layers (w_maps w) e)"

definition iter_elems :: "('k, 'v) world \<Rightarrow> environment \<Rightarrow> ('k \<times> 'v) list" where
  "iter_elems w e = concat (rev (iter_layers (w_maps w) e))"

definition env_is_empty :: "('k, 'v) world \<Rightarrow> environment \<Rightarrow> bool" where
  "env_is_empty w e \<longleftrightarrow> w_maps w ! env_current e = [] \<and> env_previous e = None"

text \<open>
  \<open>ptr_eq\<close>: the comparison of the two \<open>previous\<close> pointers is the argument \<open>same\<close>, since the model
  has no addresses for chain nodes.
\<close>

definition env_ptr_eq :: "(environment \<Rightarrow> environment \<Rightarrow> bool) \<Rightarrow> ('k, 'v) world \<Rightarrow> environment \<Rightarrow> environment \<Rightarrow> bool" where
  "env_ptr_eq same w this that \<longleftrightarrow>
    (case (env_previous this, env_previous that) of
       (Some p, Some q) \<Rightarrow> same p q
     | (None, None) \<Rightarrow> True
     | _ \<Rightarrow> False) \<and>
    (w_maps w ! env_current this = [] \<and> w_maps w ! env_current that = [] \<or> env_current this = env_current that)"

section \<open>The contract of an environment\<close>

text \<open>
  What the evaluator relies on: each variable holds a finite map of its own. The operations of a
  program on its environments, and their meaning on such maps.
\<close>

datatype ('k, 'v) env_op =
    OpNew | OpFromIter "('k \<times> 'v) list" | OpClone nat | OpDrop nat
  | OpInsert nat 'k 'v | OpExtend nat "('k \<times> 'v) list"

type_synonym ('k, 'v) env_vars = "('k \<rightharpoonup> 'v) option list"

fun env_op_spec :: "('k, 'v) env_op \<Rightarrow> ('k, 'v) env_vars \<Rightarrow> ('k, 'v) env_vars panics" where
  "env_op_spec OpNew vs = Some (vs @ [Some Map.empty])"
| "env_op_spec (OpFromIter kvs) vs = Some (vs @ [Some (map_of (rev kvs))])"
| "env_op_spec (OpClone i) vs = (if i < length vs \<and> vs ! i \<noteq> None then Some (vs @ [vs ! i]) else None)"
| "env_op_spec (OpDrop i) vs = (if i < length vs \<and> vs ! i \<noteq> None then Some (vs[i := None]) else None)"
| "env_op_spec (OpInsert i k v) vs =
     (if i < length vs \<and> vs ! i \<noteq> None then Some (vs[i := Some ((the (vs ! i))(k \<mapsto> v))]) else None)"
| "env_op_spec (OpExtend i kvs) vs =
     (if i < length vs \<and> vs ! i \<noteq> None then Some (vs[i := Some (the (vs ! i) ++ map_of (rev kvs))]) else None)"

fun run_ops :: "('o \<Rightarrow> 's \<Rightarrow> 's panics) \<Rightarrow> 'o list \<Rightarrow> 's \<Rightarrow> 's panics" where
  "run_ops step [] s = Some s"
| "run_ops step (op # ops) s = do { s' \<leftarrow> step op s; run_ops step ops s' }"

locale environment_store =
  fixes step :: "('k, 'v) env_op \<Rightarrow> 'w \<Rightarrow> 'w panics"
    and inv :: "'w \<Rightarrow> bool"
    and vars :: "'w \<Rightarrow> ('k, 'v) env_vars"
  assumes step_refines: "inv w \<Longrightarrow> map_option vars (step op w) = env_op_spec op (vars w)"
    and step_inv: "inv w \<Longrightarrow> step op w = Some w' \<Longrightarrow> inv w'"
begin

lemma run_refines:
  assumes "inv w"
  shows "map_option vars (run_ops step ops w) = run_ops env_op_spec ops (vars w)
    \<and> (\<forall>w'. run_ops step ops w = Some w' \<longrightarrow> inv w')"
  using assms
proof (induction ops arbitrary: w)
  case (Cons op ops)
  show ?case
  proof (cases "step op w")
    case None
    then show ?thesis using step_refines [OF Cons.prems, of op] by simp
  next
    case (Some w1)
    then have "env_op_spec op (vars w) = Some (vars w1)" using step_refines [OF Cons.prems, of op] by simp
    then show ?thesis using Some Cons.IH [OF step_inv [OF Cons.prems Some]] by simp
  qed
qed simp

end

section \<open>Lemmas\<close>

text \<open>
  Well-formedness: addresses are in range, the keys of a layer are distinct, and only non-empty
  layers are pushed down the chain.
\<close>

fun chain_ok :: "('k \<times> 'v) list list \<Rightarrow> environment \<Rightarrow> bool" where
  "chain_ok ms (Environment a None) \<longleftrightarrow> a < length ms"
| "chain_ok ms (Environment a (Some p)) \<longleftrightarrow> a < length ms \<and> ms ! env_current p \<noteq> [] \<and> chain_ok ms p"

definition world_wf :: "('k, 'v) world \<Rightarrow> bool" where
  "world_wf w \<longleftrightarrow> (\<forall>e. Some e \<in> set (w_slots w) \<longrightarrow> chain_ok (w_maps w) e)
    \<and> (\<forall>m \<in> set (w_maps w). distinct (map fst m))"

definition world_vars :: "('k, 'v) world \<Rightarrow> ('k, 'v) env_vars" where
  "world_vars w = map (map_option (env_get w)) (w_slots w)"

definition world_step :: "('k, 'v) env_op \<Rightarrow> ('k, 'v) world \<Rightarrow> ('k, 'v) world panics" where
  "world_step op w =
    (case op of
       OpNew \<Rightarrow> Some (env_new w)
     | OpFromIter kvs \<Rightarrow> Some (env_from_iter kvs w)
     | OpClone i \<Rightarrow> env_clone i w
     | OpDrop i \<Rightarrow> env_drop i w
     | OpInsert i k v \<Rightarrow> env_insert i k v w
     | OpExtend i kvs \<Rightarrow> env_extend_layers i kvs w)"

lemma map_of_map_extend [simp]: "map_of (map_extend m kvs) = map_of m ++ map_of (rev kvs)"
  by (induction kvs arbitrary: m) (auto simp: map_extend_def update_conv' map_add_assoc [symmetric])

lemma distinct_map_extend: "distinct (map fst m) \<Longrightarrow> distinct (map fst (map_extend m kvs))"
  by (induction kvs arbitrary: m) (auto simp: map_extend_def distinct_update)

lemma env_get_rec:
  "env_get w (Environment a p) =
    (case p of None \<Rightarrow> Map.empty | Some e \<Rightarrow> env_get w e) ++ map_of (w_maps w ! a)"
  by (auto simp: env_get_def map_add_def fun_eq_iff split: option.splits)

lemma iter_layers_cong:
  "(\<And>b. b \<in> set (env_addrs e) \<Longrightarrow> ms ! b = ms' ! b) \<Longrightarrow> iter_layers ms e = iter_layers ms' e"
  by (induction ms e rule: iter_layers.induct) auto

lemma env_get_cong:
  "(\<And>b. b \<in> set (env_addrs e) \<Longrightarrow> w_maps w ! b = w_maps w' ! b) \<Longrightarrow> env_get w e = env_get w' e"
  using iter_layers_cong [of e "w_maps w" "w_maps w'"] by (simp add: env_get_def fun_eq_iff)

lemma chain_ok_addrs: "chain_ok ms e \<Longrightarrow> b \<in> set (env_addrs e) \<Longrightarrow> b < length ms"
  by (induction ms e rule: chain_ok.induct) auto

lemma chain_ok_cong:
  "chain_ok ms e \<Longrightarrow> length ms \<le> length ms' \<Longrightarrow>
    (\<And>b. b \<in> set (env_addrs e) \<Longrightarrow> ms ! b \<noteq> [] \<Longrightarrow> ms' ! b \<noteq> []) \<Longrightarrow> chain_ok ms' e"
proof (induction ms e rule: chain_ok.induct)
  case (2 ms a p)
  have "env_current p \<in> set (env_addrs p)" by (cases p rule: env_addrs.cases) auto
  with 2 show ?case by auto
qed simp

lemma chain_ok_cases:
  "chain_ok ms e \<longleftrightarrow> env_current e < length ms \<and>
    (\<forall>p. env_previous e = Some p \<longrightarrow> ms ! env_current p \<noteq> [] \<and> chain_ok ms p)"
  by (cases e; cases "env_previous e") auto


lemma sum_list_two_le:
  fixes xs :: "nat list"
  assumes "i < length xs" "j < length xs" "i \<noteq> j"
  shows "xs ! i + xs ! j \<le> sum_list xs"
proof -
  have "xs ! j \<le> sum_list (xs[i := 0])"
    using assms elem_le_sum_list [of j "xs[i := 0]"] by simp
  then show ?thesis using assms sum_list_update [of i xs 0] elem_le_sum_list [of i xs] by simp
qed

lemma strong_count_sum:
  "strong_count w a = sum_list (map (\<lambda>s. length (filter (\<lambda>b. b = a) (slot_addrs s))) (w_slots w))"
  by (simp add: strong_count_def filter_concat length_concat comp_def)

text \<open>A layer with one owner is in no other chain, nor further down its own.\<close>

lemma unique_layer:
  assumes "strong_count w (env_current e) = 1" and "i < length (w_slots w)" and "w_slots w ! i = Some e"
  shows "j < length (w_slots w) \<Longrightarrow> j \<noteq> i \<Longrightarrow> env_current e \<notin> set (slot_addrs (w_slots w ! j))"
    and "env_previous e = Some p \<Longrightarrow> env_current e \<notin> set (env_addrs p)"
proof -
  let ?a = "env_current e" and ?n = "\<lambda>s. length (filter (\<lambda>b. b = env_current e) (slot_addrs s))"
  let ?xs = "map ?n (w_slots w)"
  have addrs: "slot_addrs (Some e) = ?a # (case env_previous e of None \<Rightarrow> [] | Some p \<Rightarrow> env_addrs p)"
    by (cases e; cases "env_previous e") (auto simp: slot_addrs_def)
  have total: "sum_list ?xs = 1" using assms(1) by (simp add: strong_count_sum)
  have ni: "?xs ! i \<ge> 1" using assms(2,3) by (simp add: addrs)
  show "?a \<notin> set (slot_addrs (w_slots w ! j))" if "j < length (w_slots w)" "j \<noteq> i"
  proof -
    have "?xs ! i + ?xs ! j \<le> 1" using sum_list_two_le [of i ?xs j] assms(2) that total by simp
    then have "?xs ! j = 0" using ni by linarith
    then show ?thesis using that by (auto simp: filter_empty_conv)
  qed
  show "?a \<notin> set (env_addrs p)" if "env_previous e = Some p"
  proof -
    have "?xs ! i \<le> 1" using elem_le_sum_list [of i ?xs] assms(2) total by simp
    then show ?thesis using assms(2,3) that by (auto simp: addrs filter_empty_conv)
  qed
qed

definition env_below :: "('k, 'v) world \<Rightarrow> environment \<Rightarrow> ('k \<rightharpoonup> 'v)" where
  "env_below w e = (case env_previous e of None \<Rightarrow> Map.empty | Some p \<Rightarrow> env_get w p)"

lemma env_get_below: "env_get w e = env_below w e ++ map_of (w_maps w ! env_current e)"
  by (cases e) (simp add: env_get_rec env_below_def)

lemma slot_wf: "world_wf w \<Longrightarrow> i < length (w_slots w) \<Longrightarrow> w_slots w ! i = Some e \<Longrightarrow> chain_ok (w_maps w) e"
  unfolding world_wf_def by (metis nth_mem)

lemma mutate_layer:
  assumes wf: "world_wf w" and i: "i < length (w_slots w)" "w_slots w ! i = Some e"
    and unique: "strong_count w (env_current e) = 1" and m: "distinct (map fst m)"
  defines "w' \<equiv> w\<lparr>w_maps := (w_maps w)[env_current e := m]\<rparr>"
  shows "world_wf w' \<and> world_vars w' = (world_vars w)[i := Some (env_below w e ++ map_of m)]"
proof -
  have other: "w_maps w' ! b = w_maps w ! b" if "b \<noteq> env_current e" for b using that by (simp add: w'_def)
  have ok: "chain_ok (w_maps w) e" using slot_wf [OF wf i] .
  have here: "w_maps w' ! env_current e = m" using ok by (simp add: w'_def chain_ok_cases [of _ e])
  have slots: "w_slots w' = w_slots w" by (simp add: w'_def)
  have get: "env_get w' d = env_get w d" "chain_ok (w_maps w') d"
    if "j < length (w_slots w)" "j \<noteq> i" "w_slots w ! j = Some d" for j d
  proof -
    have a: "env_current e \<notin> set (env_addrs d)" using unique_layer(1) [OF unique i that(1,2)] that(3) by (simp add: slot_addrs_def)
    then have o: "w_maps w' ! b = w_maps w ! b" if "b \<in> set (env_addrs d)" for b using that by (intro other) blast
    show "env_get w' d = env_get w d" by (rule env_get_cong [OF o])
    show "chain_ok (w_maps w') d" by (rule chain_ok_cong [OF slot_wf [OF wf that(1,3)]]) (simp_all add: o, simp add: w'_def)
  qed
  have below: "env_below w' e = env_below w e"
  proof (cases "env_previous e")
    case (Some p)
    then have "env_get w' p = env_get w p" using unique_layer(2) [OF unique i Some] by (intro env_get_cong other) blast
    with Some show ?thesis by (simp add: env_below_def)
  qed (simp add: env_below_def)
  have "chain_ok (w_maps w') p" "w_maps w' ! env_current p \<noteq> []" if "env_previous e = Some p" for p
  proof -
    have p: "chain_ok (w_maps w) p" "w_maps w ! env_current p \<noteq> []" using ok that chain_ok_cases [of _ e] by auto
    have a: "env_current e \<notin> set (env_addrs p)" using unique_layer(2) [OF unique i that] .
    then have o: "w_maps w' ! b = w_maps w ! b" if "b \<in> set (env_addrs p)" for b using that by (intro other) blast
    show "chain_ok (w_maps w') p" by (rule chain_ok_cong [OF p(1)]) (simp_all add: o, simp add: w'_def)
    have "env_current p \<in> set (env_addrs p)" by (cases p rule: env_addrs.cases) auto
    then show "w_maps w' ! env_current p \<noteq> []" using p(2) o by simp
  qed
  then have e: "chain_ok (w_maps w') e" using ok by (simp add: chain_ok_cases [of _ e]) (simp add: w'_def)
  have "world_wf w'"
    unfolding world_wf_def slots
  proof (intro conjI allI impI)
    fix d assume "Some d \<in> set (w_slots w)"
    then obtain j where "j < length (w_slots w)" "w_slots w ! j = Some d" by (auto simp: in_set_conv_nth)
    then show "chain_ok (w_maps w') d" using get(2) e i(2) by (cases "j = i") auto
  next
    have "set (w_maps w') \<subseteq> insert m (set (w_maps w))" unfolding w'_def by (simp add: set_update_subset_insert)
    then show "\<forall>m\<in>set (w_maps w'). distinct (map fst m)" using wf m unfolding world_wf_def by blast
  qed
  moreover have "world_vars w' = (world_vars w)[i := Some (env_below w e ++ map_of m)]"
  proof (rule nth_equalityI)
    fix j assume "j < length (world_vars w')"
    then have j: "j < length (w_slots w)" by (simp add: world_vars_def slots)
    show "world_vars w' ! j = (world_vars w)[i := Some (env_below w e ++ map_of m)] ! j"
    proof (cases "j = i")
      case True
      then show ?thesis using j i below here env_get_below [of w' e] by (simp add: world_vars_def slots)
    next
      case False
      then show ?thesis using j get(1) [OF j] by (cases "w_slots w ! j") (simp_all add: world_vars_def slots)
    qed
  qed (simp add: world_vars_def slots)
  ultimately show ?thesis ..
qed


lemma append_map:
  assumes "chain_ok (w_maps w) e"
  shows "env_get (w\<lparr>w_maps := w_maps w @ ms, w_slots := ss\<rparr>) e = env_get w e"
    and "chain_ok (w_maps w @ ms) e"
proof -
  have same: "(w_maps w @ ms) ! b = w_maps w ! b" if "b \<in> set (env_addrs e)" for b
    using chain_ok_addrs [OF assms that] by (simp add: nth_append)
  then show "env_get (w\<lparr>w_maps := w_maps w @ ms, w_slots := ss\<rparr>) e = env_get w e" by (intro env_get_cong) simp
  show "chain_ok (w_maps w @ ms) e" using same by (intro chain_ok_cong [OF assms]) simp_all
qed

lemma world_vars_append_map:
  assumes "world_wf w"
  shows "map (map_option (env_get (w\<lparr>w_maps := w_maps w @ ms, w_slots := ss\<rparr>))) (w_slots w) = world_vars w"
proof -
  have "map_option (env_get (w\<lparr>w_maps := w_maps w @ ms, w_slots := ss\<rparr>)) s = map_option (env_get w) s"
    if "s \<in> set (w_slots w)" for s
  proof (cases s)
    case (Some e)
    then have "chain_ok (w_maps w) e" using that assms unfolding world_wf_def by blast
    with Some show ?thesis by (simp add: append_map(1))
  qed simp
  then show ?thesis by (simp add: world_vars_def)
qed

text \<open>A new variable with a layer of its own.\<close>

lemma add_slot:
  assumes "world_wf w" and "distinct (map fst m)"
  defines "w' \<equiv> w\<lparr>w_maps := w_maps w @ [m], w_slots := w_slots w @ [Some (Environment (length (w_maps w)) None)]\<rparr>"
  shows "world_wf w' \<and> world_vars w' = world_vars w @ [Some (map_of m)]"
proof -
  have "env_get w' (Environment (length (w_maps w)) None) = map_of m" by (simp add: env_get_rec w'_def)
  then have "world_vars w' = world_vars w @ [Some (map_of m)]"
    using world_vars_append_map [OF assms(1)] unfolding world_vars_def [of w'] by (simp add: w'_def)
  moreover have "world_wf w'" using assms append_map(2) by (auto simp: world_wf_def)
  ultimately show ?thesis by blast
qed

lemma replace_layer:
  assumes wf: "world_wf w" and i: "i < length (w_slots w)" "w_slots w ! i = Some e" and m: "distinct (map fst m)"
  shows "world_wf (set_current i e m w) \<and> world_vars (set_current i e m w) = (world_vars w)[i := Some (env_get w e ++ map_of m)]"
proof -
  define prev where "prev = (if w_maps w ! env_current e \<noteq> [] then Some e else env_previous e)"
  define new where "new = Environment (length (w_maps w)) prev"
  define w' where "w' = w\<lparr>w_maps := w_maps w @ [m], w_slots := (w_slots w)[i := Some new]\<rparr>"
  have run: "set_current i e m w = w'"
    by (simp add: set_current_def alloc_map_def w'_def new_def prev_def)
  have ok: "chain_ok (w_maps w) e" by (rule slot_wf [OF wf i])
  have below: "(case prev of None \<Rightarrow> Map.empty | Some p \<Rightarrow> env_get w' p) = env_get w e"
  proof (cases "w_maps w ! env_current e = []")
    case True
    then show ?thesis using ok append_map(1) [of w] env_get_below [of w e] chain_ok_cases [of _ e]
      by (auto simp: prev_def env_below_def w'_def split: option.splits)
  next
    case False
    then show ?thesis using append_map(1) [OF ok] by (simp add: prev_def w'_def)
  qed
  have get: "env_get w' new = env_get w e ++ map_of m"
    unfolding new_def env_get_rec below by (simp add: w'_def)
  have vars: "world_vars w' = (world_vars w)[i := Some (env_get w e ++ map_of m)]"
  proof -
    have "map (map_option (env_get w')) (w_slots w) = world_vars w"
      unfolding w'_def by (rule world_vars_append_map [OF wf])
    then show ?thesis unfolding world_vars_def [of w'] by (simp add: w'_def map_update get [unfolded w'_def])
  qed
  have "chain_ok (w_maps w @ [m]) p \<and> (w_maps w @ [m]) ! env_current p \<noteq> []" if "prev = Some p" for p
  proof (cases "w_maps w ! env_current e = []")
    case True
    then have p: "chain_ok (w_maps w) p" "w_maps w ! env_current p \<noteq> []"
      using that ok chain_ok_cases [of _ e] by (auto simp: prev_def)
    then show ?thesis using append_map(2) chain_ok_cases [of _ p] by (auto simp: nth_append)
  next
    case False
    then show ?thesis using that ok append_map(2) [OF ok] chain_ok_cases [of "w_maps w" e] by (auto simp: prev_def nth_append)
  qed
  then have "chain_ok (w_maps w') new" by (simp add: chain_ok_cases [of _ new]) (simp add: w'_def new_def)
  moreover have "chain_ok (w_maps w') d" if "Some d \<in> set (w_slots w)" for d
    using that wf append_map(2) by (auto simp: world_wf_def w'_def)
  ultimately have "world_wf w'"
    using wf m set_update_subset_insert [of "w_slots w" i "Some new"] by (auto simp: world_wf_def w'_def)
  with vars run show ?thesis by simp
qed

lemma world_vars_nth:
  "length (world_vars w) = length (w_slots w)"
  "i < length (w_slots w) \<Longrightarrow> world_vars w ! i = map_option (env_get w) (w_slots w ! i)"
  by (simp_all add: world_vars_def)

lemma env_extend_refines:
  assumes wf: "world_wf w"
  shows "map_option world_vars (env_extend_layers i kvs w) = env_op_spec (OpExtend i kvs) (world_vars w)
    \<and> (\<forall>w'. env_extend_layers i kvs w = Some w' \<longrightarrow> world_wf w')"
proof (cases "i < length (w_slots w) \<and> w_slots w ! i \<noteq> None")
  case True
  then obtain e where i: "i < length (w_slots w)" "w_slots w ! i = Some e" by auto
  have cur: "distinct (map fst (w_maps w ! env_current e))"
    using wf slot_wf [OF wf i] chain_ok_cases [of "w_maps w" e] nth_mem unfolding world_wf_def by blast
  show ?thesis
    using i mutate_layer [OF wf i _ distinct_map_extend [OF cur], of kvs]
      replace_layer [OF wf i distinct_map_extend [of "[]"], of kvs] env_get_below [of w e]
    by (auto simp: env_extend_layers_def world_vars_nth)
next
  case False
  then show ?thesis by (auto simp: env_extend_layers_def world_vars_nth split: option.splits)
qed

lemma env_insert_extend: "env_insert i k v w = env_extend_layers i [(k, v)] w"
  by (simp add: env_insert_def env_extend_layers_def map_extend_def split: option.split)

lemma world_step_wf:
  assumes wf: "world_wf w" and step: "world_step op w = Some w'"
  shows "world_wf w'"
proof (cases op)
  case (OpClone i)
  then have i: "i < length (w_slots w)" and w': "w' = w\<lparr>w_slots := w_slots w @ [w_slots w ! i]\<rparr>"
    using step by (auto simp: world_step_def env_clone_def split: if_splits)
  from i have "w_slots w ! i \<in> set (w_slots w)" by simp
  then have "Some e \<in> set (w_slots w')  \<Longrightarrow> Some e \<in> set (w_slots w)" for e by (auto simp: w')
  then show ?thesis using wf by (auto simp: world_wf_def w')
next
  case (OpDrop i)
  then show ?thesis using step wf set_update_subset_insert [of "w_slots w" i None]
    by (auto simp: world_step_def env_drop_def world_wf_def split: if_splits)
next
  case (OpFromIter kvs)
  then show ?thesis using step add_slot [OF wf distinct_map_extend [of "[]"], of kvs]
    by (auto simp: world_step_def env_from_iter_def alloc_map_def)
qed (use step add_slot [OF wf, of "[]"] env_extend_refines [OF wf] in
    \<open>auto simp: world_step_def env_new_def alloc_map_def env_insert_extend\<close>)

interpretation layered: environment_store world_step world_wf world_vars
proof unfold_locales
  fix w :: "('k, 'v) world" and op
  assume wf: "world_wf w"
  have get: "env_get (w\<lparr>w_slots := ss\<rparr>) = env_get w" for ss by (simp add: env_get_def fun_eq_iff)
  show "map_option world_vars (world_step op w) = env_op_spec op (world_vars w)"
    using wf add_slot [OF wf, of "[]"] add_slot [OF wf distinct_map_extend [of "[]"]]
      env_extend_refines [OF wf]
    by (cases op) (auto simp: world_step_def env_new_def env_from_iter_def alloc_map_def env_clone_def env_drop_def
        env_insert_extend world_vars_nth, auto simp: world_vars_def get map_update)
qed (rule world_step_wf)

section \<open>Iteration and the quick tests\<close>

lemma map_of_iter_elems: "map_of (rev (iter_elems w e)) = env_get w e"
  if "\<forall>m \<in> set (iter_layers (w_maps w) e). distinct (map fst m)"
proof -
  have dist: "map_of (rev m) = map_of m" if "distinct (map fst m)" for m :: "('a \<times> 'b) list"
    using map_of_inject_set [of "rev m" m] that by (simp add: rev_map [symmetric] distinct_rev)
  have "map_of (concat (map rev ms)) k = find_map (\<lambda>m. map_of m k) ms"
    if "\<forall>m \<in> set ms. distinct (map fst m)" for ms :: "('a \<times> 'b) list list" and k
    using that by (induction ms) (auto simp: map_add_def dist split: option.splits)
  then show ?thesis using that by (simp add: iter_elems_def env_get_def fun_eq_iff rev_concat rev_map)
qed

text \<open>The pointer comparison never equates environments with different bindings.\<close>

lemma env_ptr_eq_sound:
  assumes "\<And>p q. same p q \<Longrightarrow> p = q" and "env_ptr_eq same w this that"
  shows "env_get w this = env_get w that"
  using assms(2) env_get_below [of w this] env_get_below [of w that]
  by (auto simp: env_ptr_eq_def env_below_def split: option.splits dest!: assms(1))

lemma iter_layers_subset: "chain_ok ms e \<Longrightarrow> set (iter_layers ms e) \<subseteq> set ms"
  by (induction ms e rule: chain_ok.induct) auto

text \<open>
  C7. Sharing is invisible. In every world reached by creating, cloning, collecting, extending,
  inserting into and dropping environments, each variable behaves as a finite map of its own: a
  run of such operations succeeds exactly when it does on plain maps, and afterwards every variable
  looks up what its map holds; writing to one clone never shows in another, although they share
  layers. Collecting \<open>iter_elems\<close> gives the same map, and \<open>is_empty\<close> holds exactly for the empty map.
\<close>

theorem environment_run_refines:
  "map_option world_vars (run_ops world_step ops \<lparr>w_maps = [], w_slots = []\<rparr>) = run_ops env_op_spec ops []
    \<and> (\<forall>w e. run_ops world_step ops \<lparr>w_maps = [], w_slots = []\<rparr> = Some w \<and> Some e \<in> set (w_slots w) \<longrightarrow>
         map_of (rev (iter_elems w e)) = env_get w e \<and> (env_is_empty w e \<longleftrightarrow> env_get w e = Map.empty))"
proof -
  let ?w0 = "\<lparr>w_maps = [], w_slots = []\<rparr> :: ('a, 'b) world"
  have "world_wf ?w0" by (simp add: world_wf_def)
  note run = layered.run_refines [OF this, of ops]
  have "map_of (rev (iter_elems w e)) = env_get w e" "env_is_empty w e \<longleftrightarrow> env_get w e = Map.empty"
    if "run_ops world_step ops ?w0 = Some w" "Some e \<in> set (w_slots w)" for w e
  proof -
    have wf: "world_wf w" using run that(1) by blast
    then have ok: "chain_ok (w_maps w) e" using that(2) by (simp add: world_wf_def)
    show "map_of (rev (iter_elems w e)) = env_get w e"
      using wf iter_layers_subset [OF ok] by (intro map_of_iter_elems) (auto simp: world_wf_def)
    have below: "env_below w e \<noteq> Map.empty" if "env_previous e = Some p" for p
      using ok that chain_ok_cases [of _ e] env_get_below [of w p] by (auto simp: env_below_def)
    show "env_is_empty w e \<longleftrightarrow> env_get w e = Map.empty"
      using below env_get_below [of w e] by (cases "env_previous e") (auto simp: env_is_empty_def env_below_def)
  qed
  moreover have "world_vars ?w0 = []" by (simp add: world_vars_def)
  ultimately show ?thesis using run by auto
qed

theorem environment_run_refines_witness:
  "map_option world_vars (run_ops world_step
      [OpNew, OpInsert 0 ''x'' (1::nat), OpClone 0, OpInsert 1 ''x'' 2, OpInsert 0 ''y'' 3] \<lparr>w_maps = [], w_slots = []\<rparr>)
    = Some [Some [''x'' \<mapsto> 1, ''y'' \<mapsto> 3], Some [''x'' \<mapsto> 2]]"
  using environment_run_refines [of "[OpNew, OpInsert 0 ''x'' (1::nat), OpClone 0, OpInsert 1 ''x'' 2, OpInsert 0 ''y'' 3]"]
  by simp

end
