(* ===== verification/Nickel_String.thy ===== *)
theory Nickel_String
  imports Nickel_Prelude Complex_Main "HOL-Library.Sublist"
begin

text \<open>
  Strings, \<open>core/src/term/string.rs\<close>: the operations that never cut an extended grapheme cluster
  (length, characters, split, contains, replace, substring), and the search iterator they are built
  on.

  \<^item> A string is the list of its UTF-8 bytes; offsets are byte offsets, as in the source.
  \<^item> The segmentation into clusters is the crate \<open>unicode-segmentation\<close>: the record
    \<open>segmenter\<close> holds the iterator \<open>graphemes\<close> and the two methods of \<open>GraphemeCursor\<close> the source
    calls. \<open>segmenter_ok\<close> states what their documentation promises.
  \<^item> The search loop ends because boundaries advance, which is a promise of the segmenter; it is a
    partial function, and that it returns is part of the theorems.
\<close>

section \<open>The segmenter\<close>

record segmenter =
  graphemes :: "string \<Rightarrow> string list"
  next_boundary :: "string \<Rightarrow> nat \<Rightarrow> nat option"
  is_boundary :: "string \<Rightarrow> nat \<Rightarrow> bool"

text \<open>The offsets at which a list of clusters is cut.\<close>

fun offsets :: "nat \<Rightarrow> string list \<Rightarrow> nat list" where
  "offsets n [] = [n]"
| "offsets n (c # cs) = n # offsets (n + length c) cs"

definition segmenter_ok :: "segmenter \<Rightarrow> bool" where
  "segmenter_ok g \<longleftrightarrow> (\<forall>s. concat (graphemes g s) = s \<and> [] \<notin> set (graphemes g s)
    \<and> (\<forall>i. is_boundary g s i \<longleftrightarrow> i \<in> set (offsets 0 (graphemes g s)))
    \<and> (\<forall>i \<in> set (offsets 0 (graphemes g s)).
        next_boundary g s i = List.find (\<lambda>j. i < j) (offsets 0 (graphemes g s))))"

text \<open>Consecutive clusters of a string are segmented into themselves.\<close>

definition segmenter_stable :: "segmenter \<Rightarrow> bool" where
  "segmenter_stable g \<longleftrightarrow> (\<forall>s j k. graphemes g (concat (take k (drop j (graphemes g s)))) = take k (drop j (graphemes g s)))"

section \<open>The search iterator\<close>

datatype search_event = Match string | LastNonMatch string

record search_iter =
  it_cursor :: nat
  current_split_start :: nat
  last_boundary :: nat

definition search_new :: search_iter where
  "search_new = \<lparr>it_cursor = 0, current_split_start = 0, last_boundary = 0\<rparr>"

definition slice_from :: "nat \<Rightarrow> nat \<Rightarrow> string \<Rightarrow> string" where
  "slice_from i j s = take (j - i) (drop i s)"

definition does_match :: "segmenter \<Rightarrow> string \<Rightarrow> string \<Rightarrow> nat \<Rightarrow> bool" where
  "does_match g haystack needle i \<longleftrightarrow>
    prefix needle (drop i haystack) \<and> is_boundary g haystack (i + length needle)"

text \<open>\<open>SearchIter::next\<close>: \<open>next_boundary\<close> moves the cursor.\<close>

partial_function (option) search_next ::
    "segmenter \<Rightarrow> string \<Rightarrow> string \<Rightarrow> search_iter \<Rightarrow> (search_event option \<times> search_iter) option" where
  [code]: "search_next g haystack needle it =
    (case next_boundary g haystack (it_cursor it) of
       Some nb \<Rightarrow>
         if does_match g haystack needle (last_boundary it) then
           (let match_end = last_boundary it + length needle
            in Some (Some (Match (slice_from (current_split_start it) (last_boundary it) haystack)),
                 \<lparr>it_cursor = match_end, current_split_start = match_end, last_boundary = match_end\<rparr>))
         else search_next g haystack needle (it\<lparr>it_cursor := nb, last_boundary := nb\<rparr>)
     | None \<Rightarrow>
         if current_split_start it < length haystack then
           Some (Some (LastNonMatch (drop (current_split_start it) haystack)),
             it\<lparr>current_split_start := length haystack\<rparr>)
         else Some (None, it))"

text \<open>All the events of an iterator.\<close>

partial_function (option) search_events ::
    "segmenter \<Rightarrow> string \<Rightarrow> string \<Rightarrow> search_iter \<Rightarrow> search_event list option" where
  [code]: "search_events g haystack needle it = do {
     (r, it') \<leftarrow> search_next g haystack needle it;
     case r of
       None \<Rightarrow> Some []
     | Some e \<Rightarrow> do { es \<leftarrow> search_events g haystack needle it'; Some (e # es) } }"

definition search :: "segmenter \<Rightarrow> string \<Rightarrow> string \<Rightarrow> search_event list option" where
  "search g haystack needle = search_events g haystack needle search_new"

section \<open>The operations\<close>

definition string_length :: "segmenter \<Rightarrow> string \<Rightarrow> nat" where
  "string_length g s = length (graphemes g s)"

definition characters :: "segmenter \<Rightarrow> string \<Rightarrow> string list" where
  "characters g s = graphemes g s"

fun event_text :: "search_event \<Rightarrow> string" where
  "event_text (Match since_last_match) = since_last_match"
| "event_text (LastNonMatch non_match) = non_match"

fun is_match :: "search_event \<Rightarrow> bool" where
  "is_match (Match _) = True"
| "is_match (LastNonMatch _) = False"

definition string_split :: "segmenter \<Rightarrow> string \<Rightarrow> string \<Rightarrow> string list option" where
  "string_split g s separator =
    (if separator = [] then Some (graphemes g s)
     else do { es \<leftarrow> search g s separator; Some (map event_text es) })"

definition string_contains :: "segmenter \<Rightarrow> string \<Rightarrow> string \<Rightarrow> bool option" where
  "string_contains g s needle =
    (if needle = [] then Some True
     else do { es \<leftarrow> search g s needle; Some (list_ex is_match es) })"

definition string_replace :: "segmenter \<Rightarrow> string \<Rightarrow> string \<Rightarrow> string \<Rightarrow> string option" where
  "string_replace g s from to =
    (if from = [] then Some (to @ concat (map (\<lambda>c. c @ to) (graphemes g s)))
     else do {
       es \<leftarrow> search g s from;
       Some (concat (map (\<lambda>e. case e of Match t \<Rightarrow> t @ to | LastNonMatch t \<Rightarrow> t) es)) })"

text \<open>\<open>usize::try_from\<close> on a rational.\<close>

definition usize_try_from :: "rat \<Rightarrow> nat option" where
  "usize_try_from r = (if r \<in> \<int> \<and> 0 \<le> r \<and> r < of_nat usize_limit then Some (nat \<lfloor>r\<rfloor>) else None)"

datatype substring_error =
    NonIntStart rat
  | NonIntEnd rat
  | StartOutOfBounds rat nat
  | EndOutOfBounds rat rat nat

definition substring :: "segmenter \<Rightarrow> string \<Rightarrow> rat \<Rightarrow> rat \<Rightarrow> substring_error + string" where
  "substring g s start stop =
    (case usize_try_from start of
       None \<Rightarrow> Inl (NonIntStart start)
     | Some start_usize \<Rightarrow>
        (case usize_try_from stop of
           None \<Rightarrow> Inl (NonIntEnd stop)
         | Some stop_usize \<Rightarrow>
            (let from_start = drop start_usize (graphemes g s)
             in if from_start = [] then Inl (StartOutOfBounds start (string_length g s))
                else if stop_usize < start_usize then Inl (EndOutOfBounds start stop (string_length g s))
                else
                  (let wanted_substr_len = stop_usize - start_usize;
                       substr = concat (take wanted_substr_len from_start)
                   in if string_length g substr \<noteq> wanted_substr_len
                      then Inl (EndOutOfBounds start stop (string_length g s))
                      else Inr substr))))"

section \<open>Regular expressions\<close>

text \<open>
  A compiled regular expression of the crate \<open>regex\<close> is the function from a haystack to its matches,
  as byte ranges; for captures, the range of the whole match comes first and a group that does not
  take part is \<open>None\<close>.
\<close>

type_synonym byte_range = "nat \<times> nat"

definition on_boundary :: "segmenter \<Rightarrow> string \<Rightarrow> byte_range \<Rightarrow> bool" where
  "on_boundary g haystack m \<longleftrightarrow> is_boundary g haystack (fst m) \<and> is_boundary g haystack (snd m)"

definition regex_find_iter :: "segmenter \<Rightarrow> (string \<Rightarrow> byte_range list) \<Rightarrow> string \<Rightarrow> byte_range list" where
  "regex_find_iter g re haystack = filter (on_boundary g haystack) (re haystack)"

definition regex_captures_iter ::
    "segmenter \<Rightarrow> (string \<Rightarrow> byte_range option list list) \<Rightarrow> string \<Rightarrow> byte_range option list list" where
  "regex_captures_iter g re haystack =
    filter (list_all (\<lambda>m. case m of None \<Rightarrow> True | Some r \<Rightarrow> on_boundary g haystack r)) (re haystack)"

definition matches_regex :: "segmenter \<Rightarrow> (string \<Rightarrow> byte_range list) \<Rightarrow> string \<Rightarrow> bool" where
  "matches_regex g re s \<longleftrightarrow> regex_find_iter g re s \<noteq> []"

fun replace_matches :: "string \<Rightarrow> string \<Rightarrow> nat \<Rightarrow> byte_range list \<Rightarrow> string" where
  "replace_matches s replacement prev_match_end [] = drop prev_match_end s"
| "replace_matches s replacement prev_match_end (m # ms) =
    slice_from prev_match_end (fst m) s @ replacement @ replace_matches s replacement (snd m) ms"

definition replace_regex :: "segmenter \<Rightarrow> (string \<Rightarrow> byte_range list) \<Rightarrow> string \<Rightarrow> string \<Rightarrow> string" where
  "replace_regex g re s replacement = replace_matches s replacement 0 (regex_find_iter g re s)"

record regex_find_result =
  rf_matched :: string
  rf_index :: nat
  rf_groups :: "string option list"

text \<open>The number of the cluster that starts at a byte offset, or of the end of the string.\<close>

definition cluster_index :: "segmenter \<Rightarrow> string \<Rightarrow> nat \<Rightarrow> nat panics" where
  "cluster_index g s start =
    map_option fst (List.find (\<lambda>(_, byte_offset). byte_offset = start) (enumerate 0 (offsets 0 (graphemes g s))))"

definition find_result :: "segmenter \<Rightarrow> string \<Rightarrow> byte_range option list \<Rightarrow> regex_find_result panics" where
  "find_result g s capt =
    (case capt of
       Some first_match # groups \<Rightarrow> do {
         adjusted_index \<leftarrow> cluster_index g s (fst first_match);
         Some \<lparr>rf_matched = slice_from (fst first_match) (snd first_match) s, rf_index = adjusted_index,
           rf_groups = map (map_option (\<lambda>m. slice_from (fst m) (snd m) s)) groups\<rparr> }
     | _ \<Rightarrow> None)"

fun find_results :: "segmenter \<Rightarrow> string \<Rightarrow> byte_range option list list \<Rightarrow> regex_find_result list panics" where
  "find_results g s [] = Some []"
| "find_results g s (c # cs) = do { r \<leftarrow> find_result g s c; rs \<leftarrow> find_results g s cs; Some (r # rs) }"

definition find_all_regex ::
    "segmenter \<Rightarrow> (string \<Rightarrow> byte_range option list list) \<Rightarrow> string \<Rightarrow> regex_find_result list panics" where
  "find_all_regex g re s = find_results g s (regex_captures_iter g re s)"

end
