(* ===== verification/Nickel_String_Props.thy ===== *)
theory Nickel_String_Props
  imports Nickel_String
begin

text \<open>
  The search iterator against a scan over the list of clusters, and what follows for the operations
  of strings.
\<close>

section \<open>The reference scan\<close>

text \<open>The clusters that spell a needle, cut off a list of clusters.\<close>

fun strip_clusters :: "string \<Rightarrow> string list \<Rightarrow> string list option" where
  "strip_clusters [] cs = Some cs"
| "strip_clusters (x # n) [] = None"
| "strip_clusters (x # n) (c # cs) =
    (if prefix c (x # n) then strip_clusters (drop (length c) (x # n)) cs else None)"

lemma strip_clusters_length: "strip_clusters n cs = Some rest \<Longrightarrow> length rest \<le> length cs \<and> (n \<noteq> [] \<longrightarrow> length rest < length cs)"
  by (induction n cs rule: strip_clusters.induct) (fastforce split: if_splits)+

text \<open>Scan the clusters from the left; \<open>acc\<close> is the text since the last match.\<close>

function scan :: "string \<Rightarrow> string \<Rightarrow> string list \<Rightarrow> search_event list" where
  "scan needle acc [] = (if acc = [] then [] else [LastNonMatch acc])"
| "scan needle acc (c # cs) =
    (if needle = [] then []
     else case strip_clusters needle (c # cs) of
       Some rest \<Rightarrow> Match acc # scan needle [] rest
     | None \<Rightarrow> scan needle (acc @ c) cs)"
  by pat_completeness auto
termination
  by (relation "measure (\<lambda>(n, a, cs). length cs)") (auto dest: strip_clusters_length)

section \<open>Boundaries\<close>

lemma offsets_head: "\<exists>t. offsets n cs = n # t"
  by (cases cs) auto

lemma offsets_iff: "i \<in> set (offsets n cs) \<longleftrightarrow> (\<exists>k \<le> length cs. i = n + length (concat (take k cs)))"
proof (induction cs arbitrary: n)
  case (Cons c cs)
  have "(\<exists>k \<le> length (c # cs). Q k) \<longleftrightarrow> Q 0 \<or> (\<exists>k \<le> length cs. Q (Suc k))" for Q :: "nat \<Rightarrow> bool"
    by (metis Suc_le_mono length_Cons less_eq_nat.simps(1) not0_implies_Suc)
  then show ?case using Cons.IH by (simp add: add.assoc)
qed simp

lemma find_offset:
  "[] \<notin> set post \<Longrightarrow> List.find (\<lambda>j. n + length (concat pre) < j) (offsets n (pre @ post)) =
    (case post of [] \<Rightarrow> None | c # _ \<Rightarrow> Some (n + length (concat pre) + length c))"
proof (induction pre arbitrary: n)
  case Nil
  show ?case
  proof (cases post)
    case (Cons c cs)
    then show ?thesis using Nil offsets_head [of "n + length c" cs] by auto
  qed simp
next
  case (Cons c pre)
  from Cons.IH [OF Cons.prems, of "n + length c"] show ?case
    by (simp add: add.assoc split: list.split)
qed

lemma strip_clusters_Some: "strip_clusters n cs = Some rest \<Longrightarrow> \<exists>mid. cs = mid @ rest \<and> concat mid = n"
proof (induction n cs rule: strip_clusters.induct)
  case (3 x n c cs)
  then have c: "prefix c (x # n)" "strip_clusters (drop (length c) (x # n)) cs = Some rest"
    by (auto split: if_splits)
  with "3.IH" obtain mid where "cs = mid @ rest" "concat mid = drop (length c) (x # n)" by blast
  then show ?case using c(1) by (intro exI [of _ "c # mid"]) (auto simp: prefix_def)
qed simp_all

lemma strip_clusters_mid: "[] \<notin> set mid \<Longrightarrow> strip_clusters (concat mid) (mid @ rest) = Some rest"
proof (induction mid)
  case (Cons c mid)
  then obtain x n where "concat (c # mid) = x # n" by (cases c) auto
  with Cons show ?case by (auto simp: prefix_def) (metis append_eq_conv_conj)
qed simp

lemma does_match_strip:
  assumes ok: "segmenter_ok g" and s: "graphemes g s = pre @ post" and n: "needle \<noteq> []"
  shows "does_match g s needle (length (concat pre)) \<longleftrightarrow> strip_clusters needle post \<noteq> None"
proof -
  have cat: "s = concat pre @ concat post" and ne: "[] \<notin> set pre" "[] \<notin> set post"
    using ok s unfolding segmenter_ok_def by (metis concat_append, metis Un_iff set_append, metis Un_iff set_append)
  have bnd: "is_boundary g s i \<longleftrightarrow> (\<exists>k \<le> length (pre @ post). i = length (concat (take k (pre @ post))))" for i
    using ok s offsets_iff [of i 0 "pre @ post"] unfolding segmenter_ok_def by simp
  show ?thesis
  proof
    assume m: "does_match g s needle (length (concat pre))"
    then have pfx: "prefix needle (concat post)" by (simp add: does_match_def cat)
    obtain k where k: "length (concat pre) + length needle = length (concat (take k (pre @ post)))"
      using m bnd by (auto simp: does_match_def)
    have "length pre < k"
    proof (rule ccontr)
      assume "\<not> length pre < k"
      then have "take k (pre @ post) = take k pre" by simp
      then have "length (concat (take k (pre @ post))) \<le> length (concat pre)"
        by (metis append_take_drop_id concat_append length_append le_add1)
      with k n show False by (metis add_le_cancel_left le_zero_eq length_0_conv add.right_neutral)
    qed
    then have "length (concat (take (k - length pre) post)) = length needle" using k by simp
    moreover have "prefix (concat (take (k - length pre) post)) (concat post)"
      by (metis append_take_drop_id concat_append prefixI)
    ultimately have "concat (take (k - length pre) post) = needle"
      using pfx by (metis append_eq_append_conv prefix_def)
    then have "strip_clusters needle (take (k - length pre) post @ drop (k - length pre) post) = Some (drop (k - length pre) post)"
      using strip_clusters_mid ne(2) in_set_takeD by metis
    then show "strip_clusters needle post \<noteq> None" by simp
  next
    assume "strip_clusters needle post \<noteq> None"
    then obtain mid rest where p: "post = mid @ rest" "concat mid = needle" using strip_clusters_Some by blast
    then have "length (concat (take (length pre + length mid) (pre @ post))) = length (concat pre) + length needle"
      by simp
    then show "does_match g s needle (length (concat pre))"
      using p bnd by (auto simp: does_match_def cat prefix_def intro!: exI [of _ "length pre + length mid"])
  qed
qed

lemma next_boundary_post:
  assumes "segmenter_ok g" and s: "graphemes g s = pre @ post"
  shows "next_boundary g s (length (concat pre)) =
    (case post of [] \<Rightarrow> None | c # _ \<Rightarrow> Some (length (concat (pre @ [c]))))"
proof -
  have "length (concat pre) \<in> set (offsets 0 (graphemes g s))"
    unfolding s offsets_iff by (intro exI [of _ "length pre"]) simp
  moreover have "[] \<notin> set post" using assms unfolding segmenter_ok_def by (metis Un_iff set_append)
  ultimately show ?thesis
    using assms find_offset [of post 0 pre] unfolding segmenter_ok_def by (auto split: list.split)
qed

section \<open>The iterator is the scan\<close>

text \<open>The state of the iterator after the clusters \<open>pre\<close>.\<close>

definition iter_at :: "string list \<Rightarrow> nat \<Rightarrow> search_iter" where
  "iter_at pre i = \<lparr>it_cursor = length (concat pre), current_split_start = i, last_boundary = length (concat pre)\<rparr>"

lemma search_events_scan:
  assumes ok: "segmenter_ok g" and n: "needle \<noteq> []" and s: "graphemes g s = pre @ post" and i: "i \<le> length (concat pre)"
  shows "search_events g s needle (iter_at pre i) = Some (scan needle (slice_from i (length (concat pre)) s) post)"
  using s i
proof (induction "length post" arbitrary: pre post i rule: less_induct)
  case less
  have cat: "s = concat (pre @ post)" using ok less.prems(1) unfolding segmenter_ok_def by metis
  note nb = next_boundary_post [OF ok less.prems(1)]
  note dm = does_match_strip [OF ok less.prems(1) n]
  show ?case
  proof (cases post)
    case Nil
    have "search_next g s needle (iter_at pre (length s)) = Some (None, iter_at pre (length s))"
      using nb Nil by (subst search_next.simps) (simp add: iter_at_def)
    then have fin: "search_events g s needle (iter_at pre (length s)) = Some []"
      by (subst search_events.simps) simp
    show ?thesis
    proof (cases "i < length s")
      case True
      then have "search_next g s needle (iter_at pre i) = Some (Some (LastNonMatch (drop i s)), iter_at pre (length s))"
        using nb Nil by (subst search_next.simps) (simp add: iter_at_def)
      with fin show ?thesis using True Nil cat
        by (subst search_events.simps) (simp add: slice_from_def)
    next
      case False
      then have "i = length s" using less.prems(2) cat Nil by simp
      then show ?thesis using fin Nil by (simp add: slice_from_def)
    qed
  next
    case (Cons c cs)
    show ?thesis
    proof (cases "strip_clusters needle post")
      case None
      have step: "search_next g s needle (iter_at pre i) = search_next g s needle (iter_at (pre @ [c]) i)"
        using nb dm None Cons by (subst search_next.simps) (simp add: iter_at_def)
      then have "search_events g s needle (iter_at pre i) = search_events g s needle (iter_at (pre @ [c]) i)"
        by (subst (1 2) search_events.simps) simp
      also have "\<dots> = Some (scan needle (slice_from i (length (concat (pre @ [c]))) s) cs)"
        using less.prems by (intro less.hyps) (simp_all add: Cons)
      also have "slice_from i (length (concat (pre @ [c]))) s = slice_from i (length (concat pre)) s @ c"
        using less.prems(2) by (simp add: cat Cons slice_from_def)
      finally show ?thesis using None n by (simp add: Cons)
    next
      case (Some rest)
      then obtain mid where mid: "post = mid @ rest" "concat mid = needle" using strip_clusters_Some by blast
      have len: "length (concat (pre @ mid)) = length (concat pre) + length needle" using mid by simp
      have "search_next g s needle (iter_at pre i) = Some (Some (Match (slice_from i (length (concat pre)) s)),
          iter_at (pre @ mid) (length (concat (pre @ mid))))"
        using nb dm Some Cons len by (subst search_next.simps) (simp add: iter_at_def Let_def)
      moreover have "search_events g s needle (iter_at (pre @ mid) (length (concat (pre @ mid)))) =
          Some (scan needle (slice_from (length (concat (pre @ mid))) (length (concat (pre @ mid))) s) rest)"
        using less.prems mid n strip_clusters_length [OF Some] by (intro less.hyps) auto
      ultimately show ?thesis using Some n Cons
        by (subst search_events.simps) (simp add: slice_from_def)
    qed
  qed
qed

lemma search_scan:
  assumes "segmenter_ok g" and "needle \<noteq> []"
  shows "search g s needle = Some (scan needle [] (graphemes g s))"
  using search_events_scan [OF assms, of s "[]" "graphemes g s" 0]
  by (simp add: search_def search_new_def iter_at_def slice_from_def)

section \<open>Lemmas on the scan\<close>

text \<open>The text between two separators, and the texts joined by a separator.\<close>

fun join_with :: "string \<Rightarrow> string list \<Rightarrow> string" where
  "join_with sep [] = []"
| "join_with sep [p] = p"
| "join_with sep (p # q # ps) = p @ sep @ join_with sep (q # ps)"

lemma join_with_Cons: "ps \<noteq> [] \<Longrightarrow> join_with sep (p # ps) = p @ sep @ join_with sep ps"
  by (cases ps) auto

definition ends_with_match :: "search_event list \<Rightarrow> bool" where
  "ends_with_match es \<longleftrightarrow> es \<noteq> [] \<and> is_match (last es)"

fun replaced :: "string \<Rightarrow> search_event \<Rightarrow> string" where
  "replaced to (Match t) = t @ to"
| "replaced to (LastNonMatch t) = t"

lemma scan_no_late_end: "list_all is_match (butlast (scan needle acc cs))"
  by (induction needle acc cs rule: scan.induct) (auto split: option.split)

lemma concat_replaced:
  "list_all is_match (butlast es) \<Longrightarrow>
   concat (map (replaced to) es) = join_with to (map event_text es) @ (if ends_with_match es then to else [])"
proof (induction es)
  case (Cons e es)
  show ?case
  proof (cases "es = []")
    case True
    then show ?thesis by (cases e) (auto simp: ends_with_match_def)
  next
    case False
    with Cons have "is_match e" by simp
    then obtain t where "e = Match t" by (cases e) auto
    with False Cons show ?thesis by (auto simp: ends_with_match_def join_with_Cons)
  qed
qed (simp add: ends_with_match_def)

lemma scan_concat: "needle \<noteq> [] \<Longrightarrow> concat (map (replaced needle) (scan needle acc cs)) = acc @ concat cs"
proof (induction needle acc cs rule: scan.induct)
  case (2 needle acc c cs)
  show ?case
  proof (cases "strip_clusters needle (c # cs)")
    case None
    with 2 show ?thesis by simp
  next
    case (Some rest)
    then obtain mid where "c # cs = mid @ rest" "concat mid = needle" using strip_clusters_Some by blast
    then have "needle @ concat rest = concat (c # cs)" by (metis concat_append)
    then show ?thesis using 2 Some by simp
  qed
qed simp

lemma scan_finds:
  "needle \<noteq> [] \<Longrightarrow> list_ex is_match (scan needle acc cs) \<longleftrightarrow> (\<exists>k. strip_clusters needle (drop k cs) \<noteq> None)"
proof (induction needle acc cs rule: scan.induct)
  case (1 needle acc)
  then show ?case by (cases needle) auto
next
  case (2 needle acc c cs)
  have "(\<exists>k. strip_clusters needle (drop k (c # cs)) \<noteq> None) \<longleftrightarrow>
      strip_clusters needle (c # cs) \<noteq> None \<or> (\<exists>k. strip_clusters needle (drop k cs) \<noteq> None)"
    by (metis drop0 drop_Suc_Cons not0_implies_Suc)
  then show ?case using 2 by (auto split: option.split)
qed

section \<open>Properties\<close>

text \<open>
  C33. A string contains a needle exactly when the needle is spelt by consecutive clusters of the
  string: an occurrence that starts or ends inside of a cluster does not count. The search always
  ends.
\<close>

theorem string_contains_clusters:
  assumes "segmenter_ok g"
  shows "string_contains g s needle = Some (\<exists>pre mid post. graphemes g s = pre @ mid @ post \<and> concat mid = needle)"
proof (cases "needle = []")
  case True
  then show ?thesis by (force simp: string_contains_def)
next
  case False
  have ne: "[] \<notin> set (graphemes g s)" using assms by (simp add: segmenter_ok_def)
  have "(\<exists>k. strip_clusters needle (drop k (graphemes g s)) \<noteq> None) \<longleftrightarrow>
      (\<exists>pre mid post. graphemes g s = pre @ mid @ post \<and> concat mid = needle)"
  proof
    assume "\<exists>k. strip_clusters needle (drop k (graphemes g s)) \<noteq> None"
    then obtain k mid rest where "drop k (graphemes g s) = mid @ rest" "concat mid = needle"
      using strip_clusters_Some by blast
    then show "\<exists>pre mid post. graphemes g s = pre @ mid @ post \<and> concat mid = needle"
      by (metis append_take_drop_id)
  next
    assume "\<exists>pre mid post. graphemes g s = pre @ mid @ post \<and> concat mid = needle"
    then obtain pre mid post where c: "graphemes g s = pre @ mid @ post" "concat mid = needle" by blast
    then have "strip_clusters needle (drop (length pre) (graphemes g s)) = Some post"
      using strip_clusters_mid [of mid post] ne by auto
    then show "\<exists>k. strip_clusters needle (drop k (graphemes g s)) \<noteq> None" by blast
  qed
  then show ?thesis using search_scan [OF assms False] scan_finds [OF False] False by (simp add: string_contains_def)
qed

text \<open>The segmenter of plain ASCII text without line breaks: each byte is a cluster.\<close>

definition ascii_segmenter :: segmenter where
  "ascii_segmenter = \<lparr>graphemes = map (\<lambda>c. [c]), next_boundary = (\<lambda>s i. if i < length s then Some (Suc i) else None),
     is_boundary = (\<lambda>s i. i \<le> length s)\<rparr>"

lemma offsets_singletons: "offsets n (map (\<lambda>c. [c]) s) = [n ..< Suc (n + length s)]"
  by (induction s arbitrary: n) (auto simp: upt_rec)

lemma find_append: "List.find P (xs @ ys) = (case List.find P xs of None \<Rightarrow> List.find P ys | Some x \<Rightarrow> Some x)"
  by (induction xs) auto

lemma ascii_segmenter_ok: "segmenter_ok ascii_segmenter"
proof -
  have "List.find (\<lambda>j. i < j) [0 ..< Suc n] = (if i < n then Some (Suc i) else None)" for i n :: nat
  proof (induction n)
    case (Suc n)
    have "List.find (\<lambda>j. i < j) [0 ..< Suc (Suc n)] = (case List.find (\<lambda>j. i < j) [0 ..< Suc n] of
        None \<Rightarrow> List.find (\<lambda>j. i < j) [Suc n] | Some x \<Rightarrow> Some x)"
      unfolding find_append [symmetric] by simp
    then show ?case unfolding Suc by (auto simp: less_Suc_eq)
  qed simp
  then show ?thesis by (auto simp: segmenter_ok_def ascii_segmenter_def offsets_singletons simp del: upt_Suc)
qed

theorem string_contains_clusters_witness:
  "string_contains ascii_segmenter ''a,b'' '','' = Some True"
  using string_contains_clusters [OF ascii_segmenter_ok, of "''a,b''" "'',''"]
proof -
  have "graphemes ascii_segmenter ''a,b'' = [''a''] @ ['',''] @ [''b''] \<and> concat ['',''] = '',''"
    by (simp add: ascii_segmenter_def)
  then have "\<exists>pre mid post. graphemes ascii_segmenter ''a,b'' = pre @ mid @ post \<and> concat mid = '',''" by blast
  then show ?thesis using string_contains_clusters [OF ascii_segmenter_ok, of "''a,b''" "'',''"] by simp
qed

text \<open>
  C32. Splitting and joining are inverse up to one separator at the end: for a separator that is not
  empty the split always ends, the string is the parts joined by the separator, followed by the
  separator when the string ends with an occurrence of it; and replacing the separator by a text is
  joining the same parts with that text.
\<close>

theorem string_split_round_trip:
  assumes "segmenter_ok g" and "sep \<noteq> []"
  shows "\<exists>parts trailing. string_split g s sep = Some parts
    \<and> s = join_with sep parts @ (if trailing then sep else [])
    \<and> (\<forall>to. string_replace g s sep to = Some (join_with to parts @ (if trailing then to else [])))"
proof -
  let ?es = "scan sep [] (graphemes g s)"
  have run: "search g s sep = Some ?es" using assms by (rule search_scan)
  have joined: "concat (map (replaced to) ?es) = join_with to (map event_text ?es) @ (if ends_with_match ?es then to else [])" for to
    by (rule concat_replaced [OF scan_no_late_end])
  have "(\<lambda>e. case e of Match t \<Rightarrow> t @ to | LastNonMatch t \<Rightarrow> t) = replaced to" for to
    by (rule ext) (simp split: search_event.split)
  then have "string_replace g s sep to = Some (join_with to (map event_text ?es) @ (if ends_with_match ?es then to else []))" for to
    using assms(2) run joined by (simp add: string_replace_def)
  moreover have "s = join_with sep (map event_text ?es) @ (if ends_with_match ?es then sep else [])"
    using joined [of sep] scan_concat [OF assms(2), of "[]" "graphemes g s"] assms(1) by (simp add: segmenter_ok_def)
  ultimately show ?thesis using assms(2) run
    by (intro exI [of _ "map event_text ?es"] exI [of _ "ends_with_match ?es"]) (simp add: string_split_def)
qed

theorem string_split_round_trip_witness:
  "\<exists>parts trailing. string_split ascii_segmenter ''a,b,'' '','' = Some parts
    \<and> ''a,b,'' = join_with '','' parts @ (if trailing then '','' else [])
    \<and> string_replace ascii_segmenter ''a,b,'' '','' ''; '' = Some (join_with ''; '' parts @ (if trailing then ''; '' else []))"
proof -
  have "'','' \<noteq> ([] :: string)" by simp
  from string_split_round_trip [OF ascii_segmenter_ok this, of "''a,b,''"] show ?thesis by blast
qed

text \<open>
  C34. \<open>substring\<close> selects the clusters from \<open>start\<close> up to \<open>stop\<close>. It fails exactly when an index is not
  a \<open>usize\<close>, when \<open>start\<close> is not strictly below the length, or when \<open>stop\<close> is below \<open>start\<close> or past
  the length; in particular the empty substring at the end of a string is an error.
\<close>

theorem substring_selects:
  assumes "segmenter_stable g"
  shows "substring g s start stop =
    (if \<not> (start \<in> \<int> \<and> 0 \<le> start \<and> start < 2 ^ 64) then Inl (NonIntStart start)
     else if \<not> (stop \<in> \<int> \<and> 0 \<le> stop \<and> stop < 2 ^ 64) then Inl (NonIntEnd stop)
     else if of_nat (string_length g s) \<le> start then Inl (StartOutOfBounds start (string_length g s))
     else if stop < start \<or> of_nat (string_length g s) < stop then Inl (EndOutOfBounds start stop (string_length g s))
     else Inr (concat (take (nat \<lfloor>stop\<rfloor> - nat \<lfloor>start\<rfloor>) (drop (nat \<lfloor>start\<rfloor>) (graphemes g s)))))"
proof (cases "usize_try_from start = None \<or> usize_try_from stop = None")
  case True
  then show ?thesis by (auto simp: substring_def usize_try_from_def usize_limit_def)
next
  case False
  then have r: "start \<in> \<int>" "0 \<le> start" "start < 2 ^ 64" "stop \<in> \<int>" "0 \<le> stop" "stop < 2 ^ 64"
    by (auto simp: usize_try_from_def usize_limit_def split: if_splits)
  obtain i j where "start = of_int i" "stop = of_int j" using r(1,4) by (auto elim!: Ints_cases)
  with r have ij: "start = of_nat (nat i)" "stop = of_nat (nat j)" by simp_all
  define k l where "k = nat i" and "l = nat j"
  have kl: "start = of_nat k" "stop = of_nat l" using ij by (simp_all add: k_def l_def)
  have u: "usize_try_from start = Some k" "usize_try_from stop = Some l"
    using r by (simp_all add: usize_try_from_def usize_limit_def kl)
  have len: "string_length g (concat (take (l - k) (drop k (graphemes g s)))) = min (string_length g s - k) (l - k)"
    using assms by (simp add: segmenter_stable_def string_length_def min.commute)
  show ?thesis using r unfolding kl
    by (simp add: substring_def u [unfolded kl] Let_def len) (auto simp: string_length_def)
qed

lemma ascii_segmenter_stable: "segmenter_stable ascii_segmenter"
  by (simp add: segmenter_stable_def ascii_segmenter_def take_map drop_map comp_def map_concat [symmetric])

theorem substring_selects_witness:
  "substring ascii_segmenter ''abcdef'' 3 5 = Inr ''de'' \<and> substring ascii_segmenter ''abc'' 3 3 = Inl (StartOutOfBounds 3 3)"
  using substring_selects [OF ascii_segmenter_stable, of "''abcdef''" 3 5]
    substring_selects [OF ascii_segmenter_stable, of "''abc''" 3 3]
  by (simp add: ascii_segmenter_def string_length_def)

section \<open>Matches of regular expressions\<close>

lemma offsets_nth: "k \<le> length cs \<Longrightarrow> offsets n cs ! k = n + length (concat (take k cs)) \<and> length (offsets n cs) = Suc (length cs)"
  by (induction cs arbitrary: n k) (auto simp: nth_Cons split: nat.split)

lemma concat_take_less: "[] \<notin> set cs \<Longrightarrow> j < k \<Longrightarrow> k \<le> length cs \<Longrightarrow> length (concat (take j cs)) < length (concat (take k cs))"
proof (induction cs arbitrary: j k)
  case (Cons c cs)
  then show ?case by (cases j; cases k) auto
qed simp

text \<open>
  The index of a match is the number of clusters before it: a match that starts on a boundary has
  one, so that the search for it never panics.
\<close>

lemma cluster_index_counts:
  assumes ok: "segmenter_ok g" and k: "k \<le> string_length g s"
  shows "cluster_index g s (length (concat (take k (graphemes g s)))) = Some k"
proof -
  let ?cs = "graphemes g s" and ?os = "offsets 0 (graphemes g s)"
  have ne: "[] \<notin> set ?cs" using ok by (simp add: segmenter_ok_def)
  have len: "length ?os = Suc (length ?cs)" and nth: "\<And>j. j \<le> length ?cs \<Longrightarrow> ?os ! j = length (concat (take j ?cs))"
    using offsets_nth [of _ ?cs 0] by auto
  have k': "k \<le> length ?cs" using k by (simp add: string_length_def)
  have less: "length (concat (take j ?cs)) \<noteq> length (concat (take k ?cs))" if "j < k" for j
    using concat_take_less [OF ne that k'] by simp
  have "List.find (\<lambda>(_, b). b = length (concat (take k ?cs))) (enumerate 0 ?os) = Some (k, length (concat (take k ?cs)))"
    unfolding find_Some_iff
    using len nth k' less by (intro exI [of _ k]) (auto simp: nth_enumerate_eq)
  then show ?thesis by (simp add: cluster_index_def)
qed

end
