(* ===== verification/Primop_Base.thy ===== *)
theory Primop_Base
  imports Eval_Machine Contract_Eq Nickel_String
begin

text \<open>
  What the primitive operations share: the library functions they call, the results, the accessors
  of values and containers (\<open>core/src/eval/value/mod.rs\<close>), the substitution of variables
  (\<open>subst\<close> of \<open>core/src/eval/mod.rs\<close>) and the helpers of \<open>core/src/eval/operation.rs\<close>.

  The record \<open>host\<close> holds the functions of other crates: segmentation and regular expressions,
  Unicode case mapping, the printing and parsing of numbers, floating-point functions (from the
  rational argument to the rational result, \<open>None\<close> when the result is not a number), the exact power of
  a rational, hashes, base64, and the serializers, with the physical equality and the removal from an \<open>IndexMap\<close>.
\<close>

section \<open>Library functions\<close>

record host =
  host_segmenter :: segmenter
  host_regex_new :: "string \<Rightarrow> string option"
  host_find_iter :: "string \<Rightarrow> string \<Rightarrow> byte_range list"
  host_captures_iter :: "string \<Rightarrow> string \<Rightarrow> byte_range option list list"
  host_trim :: "string \<Rightarrow> string"
  host_uppercase :: "string \<Rightarrow> string"
  host_lowercase :: "string \<Rightarrow> string"
  host_to_sci :: "rat \<Rightarrow> string"
  host_parse_number :: "string \<Rightarrow> rat option"
  host_float1 :: "unary_op \<Rightarrow> rat \<Rightarrow> rat option"
  host_atan2 :: "rat \<Rightarrow> rat \<Rightarrow> rat option"
  host_log2 :: "rat \<Rightarrow> rat option"
  host_log10 :: "rat \<Rightarrow> rat option"
  host_log :: "rat \<Rightarrow> rat \<Rightarrow> rat option"
  host_powf :: "rat \<Rightarrow> rat \<Rightarrow> rat option"
  host_pow :: "rat \<Rightarrow> int \<Rightarrow> rat panics"
  host_md5 :: "string \<Rightarrow> 8 word list"
  host_sha1 :: "string \<Rightarrow> 8 word list"
  host_sha256 :: "string \<Rightarrow> 8 word list"
  host_sha512 :: "string \<Rightarrow> 8 word list"
  host_base64_encode :: "string \<Rightarrow> string \<Rightarrow> string"
  host_base64_decode :: "string \<Rightarrow> string \<Rightarrow> string + string"
  host_serialize :: "export_format \<Rightarrow> nickel_value \<Rightarrow> string + string"
  host_deserialize :: "string \<Rightarrow> string \<Rightarrow> string + nickel_value"
  host_phys_eq :: phys_eq
  host_swap_remove :: "(ident, nfield) swap_remove"

text \<open>
  The answer of a comparison. The comparison can panic, on an address outside the heap or, following a variable, on a revertible
  thunk whose cached value is not built; a panic is read as \<open>False\<close> here. \<open>Contract_Eq_Total\<close> gives the
  condition on the heap under which there is none.
\<close>

fun is_answer_true :: "eq_outcome \<Rightarrow> bool" where
  "is_answer_true (Answer b _) = b"
| "is_answer_true _ = False"

definition contracts_equal :: "host \<Rightarrow> heap \<Rightarrow> env contract_eq" where
  "contracts_equal host h t1 env1 t2 env2 = is_answer_true (contract_eq (host_phys_eq host) h t1 env1 t2 env2)"

definition types_equal :: "host \<Rightarrow> heap \<Rightarrow> nickel_type \<Rightarrow> nickel_type \<Rightarrow> bool" where
  "types_equal host h t1 t2 = is_answer_true (type_eq_noenv (host_phys_eq host) h t1 t2)"

section \<open>Results\<close>

type_synonym op_result = "((eval_error + closure) \<times> vm) panics"

definition op_ok :: "vm \<Rightarrow> nickel_value \<Rightarrow> env \<Rightarrow> op_result" where
  "op_ok vm v e = Some (Inr \<lparr>clo_value = v, clo_env = e\<rparr>, vm)"

definition op_value :: "vm \<Rightarrow> nickel_value \<Rightarrow> op_result" where
  "op_value vm v = Some (Inr (closure_of_value v), vm)"

definition op_err :: "vm \<Rightarrow> eval_error \<Rightarrow> op_result" where
  "op_err vm err = Some (Inl err, vm)"

text \<open>The argument on top of the stack, or an error, or a panic (\<open>expect\<close>).\<close>

definition with_arg :: "sizes \<Rightarrow> vm \<Rightarrow> op_result \<Rightarrow> (vm \<Rightarrow> closure \<Rightarrow> op_result) \<Rightarrow> op_result" where
  "with_arg sz vm missing k = do {
     (r, st) \<leftarrow> pop_arg sz (vm_heap vm) (vm_stack vm);
     case r of
       None \<Rightarrow> missing
     | Some (c, _) \<Rightarrow> k (vm\<lparr>vm_stack := st\<rparr>) c }"

definition arg_or_error :: "sizes \<Rightarrow> vm \<Rightarrow> nat \<Rightarrow> (vm \<Rightarrow> closure \<Rightarrow> op_result) \<Rightarrow> op_result" where
  "arg_or_error sz vm n k = with_arg sz vm (op_err vm (NotEnoughArgs n)) k"

definition expect_arg :: "sizes \<Rightarrow> vm \<Rightarrow> (vm \<Rightarrow> closure \<Rightarrow> op_result) \<Rightarrow> op_result" where
  "expect_arg sz vm k = with_arg sz vm None k"

definition missing_def :: "missing_field_def \<Rightarrow> eval_error" where
  "missing_def err = MissingFieldDef (missing_id err) (missing_metadata err)"

definition illegal_tail_access :: "vm \<Rightarrow> tail_action \<Rightarrow> label \<Rightarrow> op_result" where
  "illegal_tail_access vm action l = do {
     arg \<leftarrow> get_evaluated_arg (vm_heap vm) l;
     op_err vm (IllegalTailAccess action l arg) }"

section \<open>Values\<close>

fun as_bool :: "nickel_value \<Rightarrow> bool option" where
  "as_bool (Bool b) = Some b" | "as_bool _ = None"

fun as_number :: "nickel_value \<Rightarrow> rat option" where
  "as_number (Number n) = Some n" | "as_number _ = None"

fun as_string :: "nickel_value \<Rightarrow> string option" where
  "as_string (String s) = Some s" | "as_string _ = None"

fun as_array :: "nickel_value \<Rightarrow> (nickel_value list \<times> contract list) container option" where
  "as_array (ArrayV d) = Some d" | "as_array _ = None"

fun as_record :: "nickel_value \<Rightarrow> nrecord container option" where
  "as_record (RecordV d) = Some d" | "as_record _ = None"

fun as_label :: "nickel_value \<Rightarrow> label option" where
  "as_label (LabelV l) = Some l" | "as_label _ = None"

fun as_enum_variant :: "nickel_value \<Rightarrow> (ident \<times> nickel_value option) option" where
  "as_enum_variant (EnumVariant tag arg) = Some (tag, arg)" | "as_enum_variant _ = None"

fun as_enum_tag :: "nickel_value \<Rightarrow> ident option" where
  "as_enum_tag (EnumVariant tag None) = Some tag" | "as_enum_tag _ = None"

fun as_sealing_key :: "nickel_value \<Rightarrow> int option" where
  "as_sealing_key (SealingKey k) = Some k" | "as_sealing_key _ = None"

definition is_inline_empty_array :: "nickel_value \<Rightarrow> bool" where
  "is_inline_empty_array v \<longleftrightarrow> v = ArrayV Empty"

definition empty_array_block :: nickel_value where
  "empty_array_block = ArrayV (Alloc ([], []))"

definition empty_record_block :: nickel_value where
  "empty_record_block = RecordV (Alloc record_empty)"

fun type_of :: "nickel_value \<Rightarrow> string option" where
  "type_of Null = Some ''Other''"
| "type_of (Bool _) = Some ''Bool''"
| "type_of (Number _) = Some ''Number''"
| "type_of (ArrayV _) = Some ''Array''"
| "type_of (RecordV _) = Some ''Record''"
| "type_of (String _) = Some ''String''"
| "type_of (TermV (Closurize v)) = type_of v"
| "type_of (TermV (RecRecord _ _ _ _ _)) = Some ''Record''"
| "type_of (TermV (Fun _ _)) = Some ''Function''"
| "type_of (TermV (Sealed _ _ _)) = Some ''Sealed''"
| "type_of (TermV (Annotated _ _)) = Some ''Annotated''"
| "type_of (TermV _) = None"
| "type_of (LabelV _) = Some ''Label''"
| "type_of (EnumVariant _ None) = Some ''EnumTag''"
| "type_of (EnumVariant _ (Some _)) = Some ''EnumVariant''"
| "type_of (ForeignId _) = Some ''ForeignId''"
| "type_of (SealingKey _) = Some ''SealingKey''"
| "type_of (CustomContract _) = Some ''CustomContract''"
| "type_of (TypeV _ _) = Some ''Type''"
| "type_of (Thunk _) = None"

definition to_nickel_string :: "host \<Rightarrow> nickel_value \<Rightarrow> string option" where
  "to_nickel_string host v =
    (case v of
       Null \<Rightarrow> Some ''null''
     | Bool b \<Rightarrow> Some (if b then ''true'' else ''false'')
     | String s \<Rightarrow> Some s
     | EnumVariant tag None \<Rightarrow> Some tag
     | Number n \<Rightarrow> Some (host_to_sci host n)
     | _ \<Rightarrow> None)"

subsection \<open>Containers\<close>

fun into_opt :: "'d container \<Rightarrow> 'd option" where
  "into_opt Empty = None" | "into_opt (Alloc d) = Some d"

definition container_fields :: "nrecord container \<Rightarrow> (ident, nfield) index_map" where
  "container_fields c = (case c of Empty \<Rightarrow> [] | Alloc r \<Rightarrow> record_fields r)"

definition container_get :: "nrecord container \<Rightarrow> ident \<Rightarrow> nfield option" where
  "container_get c x = map_of (container_fields c) x"

definition container_field_names :: "nrecord container \<Rightarrow> record_op_kind \<Rightarrow> ident list" where
  "container_field_names c k = (case c of Empty \<Rightarrow> [] | Alloc r \<Rightarrow> field_names r k)"

definition container_has_only_empty_opts :: "nrecord container \<Rightarrow> bool" where
  "container_has_only_empty_opts c = (case c of Empty \<Rightarrow> True | Alloc r \<Rightarrow> has_only_empty_opts r)"

definition array_elems :: "(nickel_value list \<times> contract list) container \<Rightarrow> nickel_value list" where
  "array_elems c = (case c of Empty \<Rightarrow> [] | Alloc d \<Rightarrow> fst d)"

definition array_is_empty :: "(nickel_value list \<times> contract list) container \<Rightarrow> bool" where
  "array_is_empty c \<longleftrightarrow> (case c of Empty \<Rightarrow> True | Alloc d \<Rightarrow> fst d = [])"

definition iter_with_pending_contracts :: "nickel_value list \<times> contract list \<Rightarrow> nickel_value list" where
  "iter_with_pending_contracts d = map (\<lambda>v. contract_apply_all v (snd d)) (fst d)"

text \<open>Collecting an iterator of results: the first error wins.\<close>

fun collect_results :: "('e + 'a) list \<Rightarrow> 'e + 'a list" where
  "collect_results [] = Inr []"
| "collect_results (Inl e # rs) = Inl e"
| "collect_results (Inr x # rs) = (case collect_results rs of Inl e \<Rightarrow> Inl e | Inr xs \<Rightarrow> Inr (x # xs))"

section \<open>Identifiers and helpers\<close>

definition fresh_ident :: "vm \<Rightarrow> ident \<times> vm" where
  "fresh_ident vm = (gen_ident (vm_fresh vm), vm\<lparr>vm_fresh := Suc (vm_fresh vm)\<rparr>)"

definition eta_expand :: "vm \<Rightarrow> unary_op \<Rightarrow> nickel_term \<times> vm" where
  "eta_expand vm op = (let (param, vm') = fresh_ident vm in (Fun param (TermV (Op1 op (TermV (Var param)))), vm'))"

definition closurize_container :: "nickel_value \<Rightarrow> nickel_value" where
  "closurize_container v = TermV (Closurize v)"

definition id_fun :: nickel_value where
  "id_fun = TermV (Fun ''x'' (TermV (Var ''x'')))"

definition closurize_all :: "heap \<Rightarrow> nickel_value list \<Rightarrow> env \<Rightarrow> (nickel_value list \<times> heap) panics" where
  "closurize_all h vs e = map_heap (\<lambda>h v. closurize h v e) h vs"

fun map_values_closurize ::
    "heap \<Rightarrow> env \<Rightarrow> (ident \<Rightarrow> nickel_value \<Rightarrow> nickel_value) \<Rightarrow> (ident \<times> nfield) list \<Rightarrow>
     ((missing_field_def + (ident \<times> nfield) list) \<times> heap) panics" where
  "map_values_closurize h e f [] = Some (Inr [], h)"
| "map_values_closurize h e f ((x, fld) # rest) =
    (case value_with_pending_contracts fld of
       None \<Rightarrow> Some (Inl \<lparr>missing_id = x, missing_metadata = shared_into_inner (field_metadata fld)\<rparr>, h)
     | Some v \<Rightarrow> do {
         (fld', h1) \<leftarrow> closurize_field h (Field (Some (f x v)) (field_metadata fld) []) e Normal;
         (r, h2) \<leftarrow> map_values_closurize h1 e f rest;
         Some (case r of Inl err \<Rightarrow> Inl err | Inr flds \<Rightarrow> Inr ((x, fld') # flds), h2) })"

definition hex_digit :: "nat \<Rightarrow> char" where
  "hex_digit d = (if d < 10 then char_of (48 + d) else char_of (87 + d))"

definition hex_encode :: "8 word list \<Rightarrow> string" where
  "hex_encode bytes = concat (map (\<lambda>b. [hex_digit (unat b div 16), hex_digit (unat b mod 16)]) bytes)"

definition polarity_try_from :: "nickel_value \<Rightarrow> polarity option" where
  "polarity_try_from v =
    (case as_enum_tag v of
       None \<Rightarrow> None
     | Some tag \<Rightarrow> if tag = ''Positive'' then Some Positive else if tag = ''Negative'' then Some Negative else None)"

definition type_var_data_value :: "polarity \<Rightarrow> nickel_value" where
  "type_var_data_value p = record_posless (RecordData [(''polarity'', field_of_value (polarity_value p))] attrs_new None)"

definition type_tag :: "nickel_value \<Rightarrow> string" where
  "type_tag v =
    (case v of
       Null \<Rightarrow> ''Other'' | Bool _ \<Rightarrow> ''Bool'' | Number _ \<Rightarrow> ''Number'' | ArrayV _ \<Rightarrow> ''Array''
     | RecordV _ \<Rightarrow> ''Record'' | String _ \<Rightarrow> ''String''
     | TermV t \<Rightarrow> (case t of RecRecord _ _ _ _ _ \<Rightarrow> ''Record'' | Fun _ _ \<Rightarrow> ''Function'' | _ \<Rightarrow> ''Other'')
     | LabelV _ \<Rightarrow> ''Label'' | EnumVariant _ _ \<Rightarrow> ''Enum'' | ForeignId _ \<Rightarrow> ''ForeignId''
     | CustomContract _ \<Rightarrow> ''CustomContract'' | TypeV _ _ \<Rightarrow> ''Type'' | _ \<Rightarrow> ''Other'')"

section \<open>Substitution\<close>

text \<open>
  \<open>subst\<close> replaces each variable by its value. It follows thunks, so that it may not return on a
  cyclic heap: no result is \<open>None\<close>, as for a panic. A variable is looked up with the two environments
  in the order of the source, which passes the local one where \<open>get_var\<close> expects the initial one.
\<close>

fun map_panics :: "('a \<Rightarrow> 'b panics) \<Rightarrow> 'a list \<Rightarrow> 'b list panics" where
  "map_panics f [] = Some []"
| "map_panics f (x # xs) = do { y \<leftarrow> f x; ys \<leftarrow> map_panics f xs; Some (y # ys) }"

lemma map_panics_mono [partial_function_mono]:
  assumes "\<And>x. mono_option (\<lambda>g. B x g)"
  shows "mono_option (\<lambda>g. map_panics (\<lambda>x. B x g) xs)"
  by (induction xs) (auto intro!: bind_mono assms option.const_mono partial_function_mono)

definition subst_field :: "(nickel_value \<Rightarrow> nickel_value panics) \<Rightarrow> nfield \<Rightarrow> nfield panics" where
  "subst_field f fld =
    (case field_value fld of
       None \<Rightarrow> Some fld
     | Some v \<Rightarrow> do { v' \<leftarrow> f v; Some (Field (Some v') (field_metadata fld) (field_pending_contracts fld)) })"

definition subst_record :: "(nickel_value \<Rightarrow> nickel_value panics) \<Rightarrow> nrecord \<Rightarrow> nrecord panics" where
  "subst_record f r = do {
     flds \<leftarrow> map_panics (\<lambda>xf. do { fld \<leftarrow> subst_field f (snd xf); Some (fst xf, fld) }) (record_fields r);
     Some (RecordData (im_from_iter flds) (record_attributes r) (record_sealed_tail r)) }"

definition subst_chunk :: "(nickel_value \<Rightarrow> nickel_value panics) \<Rightarrow> nickel_value str_chunk \<Rightarrow> nickel_value str_chunk panics" where
  "subst_chunk f chunk =
    (case chunk of Literal s \<Rightarrow> Some (Literal s) | Expr v n \<Rightarrow> do { v' \<leftarrow> f v; Some (Expr v' n) })"

lemma subst_parts_mono [partial_function_mono]:
  assumes "\<And>x. mono_option (\<lambda>g. B x g)"
  shows "mono_option (\<lambda>g. subst_field (\<lambda>x. B x g) fld)"
    and "mono_option (\<lambda>g. subst_record (\<lambda>x. B x g) r)"
    and "mono_option (\<lambda>g. subst_chunk (\<lambda>x. B x g) chunk)"
proof -
  show fld: "mono_option (\<lambda>g. subst_field (\<lambda>x. B x g) fld)" for fld
    unfolding subst_field_def by (cases "field_value fld") (auto intro!: bind_mono assms option.const_mono)
  show "mono_option (\<lambda>g. subst_record (\<lambda>x. B x g) r)"
    unfolding subst_record_def by (intro bind_mono map_panics_mono fld option.const_mono)
  show "mono_option (\<lambda>g. subst_chunk (\<lambda>x. B x g) chunk)"
    unfolding subst_chunk_def by (cases chunk) (auto intro!: bind_mono assms option.const_mono)
qed

text \<open>One level of \<open>subst\<close>, with the recursive call as an argument.\<close>

definition subst_term :: "(nickel_value \<Rightarrow> nickel_value panics) \<Rightarrow> nickel_term \<Rightarrow> nickel_term panics" where
  "subst_term f t =
    (case t of
       Let bindings body bty is_rec \<Rightarrow> do {
         bs \<leftarrow> map_panics (\<lambda>b. do { v \<leftarrow> f (snd b); Some (fst b, v) }) bindings;
         body' \<leftarrow> f body;
         Some (Let bs body' bty is_rec) }
     | App head arg \<Rightarrow> do { head' \<leftarrow> f head; arg' \<leftarrow> f arg; Some (App head' arg') }
     | Op1 op arg \<Rightarrow> do { arg' \<leftarrow> f arg; Some (Op1 op arg') }
     | Op2 op arg1 arg2 \<Rightarrow> do { arg1' \<leftarrow> f arg1; arg2' \<leftarrow> f arg2; Some (Op2 op arg1' arg2') }
     | OpN op args \<Rightarrow> do { args' \<leftarrow> map_panics (\<lambda>v. f v) args; Some (OpN op args') }
     | Sealed key inner l \<Rightarrow> do { inner' \<leftarrow> f inner; Some (Sealed key inner' l) }
     | RecRecord r incl dyns deps closurized \<Rightarrow> do {
         r' \<leftarrow> subst_record (\<lambda>v. f v) r;
         dyns' \<leftarrow> map_panics (\<lambda>d. do {
             name \<leftarrow> f (fst d);
             fld \<leftarrow> subst_field (\<lambda>v. f v) (snd d);
             Some (name, fld) }) dyns;
         Some (RecRecord r' incl dyns' deps closurized) }
     | StrChunks chunks \<Rightarrow> do { chunks' \<leftarrow> map_panics (\<lambda>c. subst_chunk (\<lambda>v. f v) c) chunks; Some (StrChunks chunks') }
     | Annotated annot inner \<Rightarrow> do { inner' \<leftarrow> f inner; Some (Annotated annot inner') }
     | Closurize v \<Rightarrow> do { v' \<leftarrow> f v; Some (Closurize v') }
     | _ \<Rightarrow> Some t)"

definition subst_value :: "(nickel_value \<Rightarrow> nickel_value panics) \<Rightarrow> nickel_value \<Rightarrow> nickel_value panics" where
  "subst_value f value =
    (case value of
       RecordV (Alloc r) \<Rightarrow> do { r' \<leftarrow> subst_record (\<lambda>v. f v) r; Some (record_value r') }
     | ArrayV (Alloc d) \<Rightarrow> do { vs \<leftarrow> map_panics (\<lambda>v. f v) (fst d); Some (array_value vs (snd d)) }
     | EnumVariant tag (Some arg) \<Rightarrow> do { arg' \<leftarrow> f arg; Some (EnumVariant tag (Some arg')) }
     | TermV t \<Rightarrow> do { t' \<leftarrow> subst_term (\<lambda>v. f v) t; Some (TermV t') }
     | _ \<Rightarrow> Some value)"

text \<open>The closure to go on with, when the value is a thunk or a bound variable.\<close>

definition subst_target :: "nickel_value \<Rightarrow> env \<Rightarrow> env \<Rightarrow> addr option" where
  "subst_target value initial_env e =
    (case value of
       Thunk a \<Rightarrow> Some a
     | TermV (Var x) \<Rightarrow> (case get_var e initial_env x of Inr a \<Rightarrow> Some a | Inl _ \<Rightarrow> None)
     | _ \<Rightarrow> None)"

lemma subst_term_mono [partial_function_mono]:
  assumes "\<And>x. mono_option (\<lambda>g. B x g)"
  shows "mono_option (\<lambda>g. subst_term (\<lambda>x. B x g) t)"
  unfolding subst_term_def
  by (cases t; simp only: nickel_term.case; intro bind_mono map_panics_mono subst_parts_mono assms option.const_mono)

lemma subst_value_mono [partial_function_mono]:
  assumes "\<And>x. mono_option (\<lambda>g. B x g)"
  shows "mono_option (\<lambda>g. subst_value (\<lambda>x. B x g) w)"
proof -
  note intros = bind_mono map_panics_mono subst_parts_mono subst_term_mono assms option.const_mono
  show ?thesis
  proof (cases w)
    case (ArrayV d)
    then show ?thesis unfolding subst_value_def by (cases d) (simp_all, (intro intros)+)
  next
    case (RecordV d)
    then show ?thesis unfolding subst_value_def by (cases d) (simp_all, (intro intros)+)
  next
    case (EnumVariant tag arg)
    then show ?thesis unfolding subst_value_def by (cases arg) (simp_all, (intro intros)+)
  qed (unfold subst_value_def, simp_all only: nickel_value.case, (intro intros)+)
qed

partial_function (option) subst :: "heap \<Rightarrow> nickel_value \<Rightarrow> env \<Rightarrow> env \<Rightarrow> nickel_value panics" where
  [code]: "subst h value initial_env e =
    (case subst_target value initial_env e of
       Some a \<Rightarrow> do { c \<leftarrow> cache_get h a; subst h (clo_value c) initial_env (clo_env c) }
     | None \<Rightarrow> subst_value (\<lambda>v. subst h v initial_env e) value)"

end
