(* ===== verification/Primop_Unary.thy ===== *)
theory Primop_Unary
  imports Primop_Base
begin

text \<open>
  The unary primitive operations, \<open>eval_op1\<close> and \<open>number_op1\<close> of
  \<open>core/src/eval/operation.rs\<close>: one definition per arm or group of similar arms, composed by
  \<open>eval_op1\<close>. The argument is the evaluated value \<open>v\<close> in its environment \<open>e\<close>. The output of
  \<open>Trace\<close> is erased; \<open>RecDefault\<close> and \<open>RecForce\<close> are not implemented in the source and panic.
\<close>

definition unary_type_error :: "vm \<Rightarrow> string \<Rightarrow> nickel_value \<Rightarrow> op_result" where
  "unary_type_error vm expected v = op_err vm (UnaryPrimopTypeError expected v)"

definition nary_type_error :: "vm \<Rightarrow> string \<Rightarrow> nat \<Rightarrow> nickel_value \<Rightarrow> op_result" where
  "nary_type_error vm expected n v = op_err vm (NAryPrimopTypeError expected n v)"

section \<open>Booleans and enums\<close>

definition op_if_then_else :: "sizes \<Rightarrow> vm \<Rightarrow> nickel_value \<Rightarrow> op_result" where
  "op_if_then_else sz vm v =
    (case as_bool v of
       Some b \<Rightarrow> expect_arg sz vm (\<lambda>vm fst_arg. expect_arg sz vm (\<lambda>vm snd_arg.
         Some (Inr (if b then fst_arg else snd_arg), vm)))
     | None \<Rightarrow> op_err vm (TypeError ''Bool'' v))"

definition op_bool_and :: "sizes \<Rightarrow> vm \<Rightarrow> nickel_value \<Rightarrow> op_result" where
  "op_bool_and sz vm v = arg_or_error sz vm 2 (\<lambda>vm next.
     case as_bool v of
       Some b \<Rightarrow> if b then Some (Inr next, vm) else op_value vm v
     | None \<Rightarrow> nary_type_error vm ''Bool'' 1 v)"

definition op_bool_or :: "sizes \<Rightarrow> vm \<Rightarrow> nickel_value \<Rightarrow> op_result" where
  "op_bool_or sz vm v = arg_or_error sz vm 2 (\<lambda>vm next.
     case as_bool v of
       Some b \<Rightarrow> if b then op_value vm v else Some (Inr next, vm)
     | None \<Rightarrow> nary_type_error vm ''Bool'' 1 v)"

definition op_bool_not :: "vm \<Rightarrow> nickel_value \<Rightarrow> op_result" where
  "op_bool_not vm v =
    (case as_bool v of Some b \<Rightarrow> op_value vm (Bool (\<not> b)) | None \<Rightarrow> unary_type_error vm ''Bool'' v)"

definition op_blame :: "vm \<Rightarrow> nickel_value \<Rightarrow> op_result" where
  "op_blame vm v =
    (case as_label v of
       None \<Rightarrow> unary_type_error vm ''Label'' v
     | Some l \<Rightarrow> do { arg \<leftarrow> get_evaluated_arg (vm_heap vm) l; op_err vm (BlameError l arg) })"

definition op_enum_embed :: "vm \<Rightarrow> nickel_value \<Rightarrow> op_result" where
  "op_enum_embed vm v = (if as_enum_variant v \<noteq> None then op_value vm v else unary_type_error vm ''Enum'' v)"

text \<open>The match on enum tags: the cases are a record on the stack, with an optional default.\<close>

definition match_tag :: "vm \<Rightarrow> nickel_value \<Rightarrow> closure \<Rightarrow> closure option \<Rightarrow> op_result" where
  "match_tag vm v cases dflt =
    (case as_enum_tag v of
       Some tag \<Rightarrow> do {
         cont \<leftarrow> as_record (clo_value cases);
         case container_get cont tag of
           Some fld \<Rightarrow> do { body \<leftarrow> field_value fld; op_ok vm body (clo_env cases) }
         | None \<Rightarrow>
             (case dflt of
                Some c \<Rightarrow> Some (Inr c, vm)
              | None \<Rightarrow> op_err vm (NonExhaustiveEnumMatch (container_field_names cont IgnoreEmptyOpt) v)) }
     | None \<Rightarrow>
         (case dflt of
            Some c \<Rightarrow> Some (Inr c, vm)
          | None \<Rightarrow> nary_type_error vm ''Enum'' 2 v))"

definition op_tags_only_match :: "sizes \<Rightarrow> vm \<Rightarrow> bool \<Rightarrow> nickel_value \<Rightarrow> op_result" where
  "op_tags_only_match sz vm has_default v = expect_arg sz vm (\<lambda>vm cases.
     if has_default then expect_arg sz vm (\<lambda>vm dflt. match_tag vm v cases (Some dflt))
     else match_tag vm v cases None)"

definition op_enum_get_arg :: "vm \<Rightarrow> nickel_value \<Rightarrow> env \<Rightarrow> op_result" where
  "op_enum_get_arg vm v e =
    (case as_enum_variant v of
       Some (_, Some arg) \<Rightarrow> op_ok vm arg e
     | _ \<Rightarrow> unary_type_error vm ''Enum variant'' v)"

definition op_enum_make_variant :: "sizes \<Rightarrow> vm \<Rightarrow> nickel_value \<Rightarrow> op_result" where
  "op_enum_make_variant sz vm v =
    (case as_string v of
       None \<Rightarrow> unary_type_error vm ''String'' v
     | Some tag \<Rightarrow> arg_or_error sz vm 2 (\<lambda>vm arg.
         let (a, h) = thunk_new (vm_heap vm) arg
         in op_value (vm\<lparr>vm_heap := h\<rparr>) (EnumVariant tag (Some (Thunk a)))))"

definition op_enum_get_tag :: "vm \<Rightarrow> nickel_value \<Rightarrow> op_result" where
  "op_enum_get_tag vm v =
    (case as_enum_variant v of
       Some (tag, _) \<Rightarrow> op_value vm (EnumVariant tag None)
     | None \<Rightarrow> unary_type_error vm ''Enum'' v)"

definition op_enum_is_variant :: "vm \<Rightarrow> nickel_value \<Rightarrow> op_result" where
  "op_enum_is_variant vm v =
    op_value vm (Bool (case as_enum_variant v of Some (_, Some _) \<Rightarrow> True | _ \<Rightarrow> False))"

section \<open>Labels\<close>

definition op_label :: "vm \<Rightarrow> (label \<Rightarrow> label) \<Rightarrow> nickel_value \<Rightarrow> op_result" where
  "op_label vm f v =
    (case as_label v of Some l \<Rightarrow> op_value vm (LabelV (f l)) | None \<Rightarrow> unary_type_error vm ''Label'' v)"

definition label_flip_pol :: "label \<Rightarrow> label" where
  "label_flip_pol l = l\<lparr>label_polarity := polarity_flip (label_polarity l)\<rparr>"

definition label_push_path :: "path_elem \<Rightarrow> label \<Rightarrow> label" where
  "label_push_path p l = l\<lparr>label_path := label_path l @ [p]\<rparr>"

definition op_label_pol :: "vm \<Rightarrow> nickel_value \<Rightarrow> op_result" where
  "op_label_pol vm v =
    (case as_label v of
       Some l \<Rightarrow> op_value vm (polarity_value (label_polarity l))
     | None \<Rightarrow> unary_type_error vm ''Label'' v)"

definition op_label_push_diag :: "vm \<Rightarrow> nickel_value \<Rightarrow> env \<Rightarrow> op_result" where
  "op_label_push_diag vm v e =
    (case as_label v of
       Some l \<Rightarrow> op_ok vm (LabelV (push_diagnostic l)) e
     | None \<Rightarrow> unary_type_error vm ''Label'' v)"

section \<open>Records\<close>

definition op_record_access :: "vm \<Rightarrow> ident \<Rightarrow> nickel_value \<Rightarrow> env \<Rightarrow> op_result" where
  "op_record_access vm x v e =
    (case as_record v of
       Some (Alloc r) \<Rightarrow>
         (case get_value_with_ctrs r x of
            Inl err \<Rightarrow> op_err vm (missing_def err)
          | Inr (Some w) \<Rightarrow> op_ok vm w e
          | Inr None \<Rightarrow>
              (case record_sealed_tail r of
                 Some t \<Rightarrow>
                   if tail_has_field t x then illegal_tail_access vm (TailFieldAccess x) (tail_label t)
                   else op_err vm (FieldMissing x (field_names r IgnoreEmptyOpt))
               | None \<Rightarrow> op_err vm (FieldMissing x (field_names r IgnoreEmptyOpt))))
     | Some Empty \<Rightarrow> op_err vm (FieldMissing x [])
     | None \<Rightarrow> op_err vm (TypeError ''Record'' v))"

definition op_record_fields :: "vm \<Rightarrow> record_op_kind \<Rightarrow> nickel_value \<Rightarrow> env \<Rightarrow> op_result" where
  "op_record_fields vm op_kind v e =
    (case as_record v of
       Some cont \<Rightarrow> op_ok vm (array_value (map String (container_field_names cont op_kind)) []) e
     | None \<Rightarrow> unary_type_error vm ''Record'' v)"

definition op_record_values :: "vm \<Rightarrow> nickel_value \<Rightarrow> env \<Rightarrow> op_result" where
  "op_record_values vm v e =
    (case as_record v of
       Some cont \<Rightarrow>
         (case collect_results (case into_opt cont of None \<Rightarrow> [] | Some r \<Rightarrow> iter_without_opts r) of
            Inl err \<Rightarrow> op_err vm (missing_def err)
          | Inr vals \<Rightarrow> op_ok vm (array_value (map snd (sort_key fst vals)) []) e)
     | None \<Rightarrow> unary_type_error vm ''Record'' v)"

definition op_record_map :: "sizes \<Rightarrow> vm \<Rightarrow> nickel_value \<Rightarrow> env \<Rightarrow> op_result" where
  "op_record_map sz vm v e = arg_or_error sz vm 2 (\<lambda>vm f.
     case as_record v of
       None \<Rightarrow> unary_type_error vm ''Record'' v
     | Some Empty \<Rightarrow> op_value vm v
     | Some (Alloc r) \<Rightarrow>
         (case record_sealed_tail r of
            Some t \<Rightarrow> illegal_tail_access vm TailMap (tail_label t)
          | None \<Rightarrow> do {
              (f', h1) \<leftarrow> closurize (vm_heap vm) (clo_value f) (clo_env f);
              (res, h2) \<leftarrow> map_values_closurize h1 e (\<lambda>x t. TermV (App (TermV (App f' (String x))) t))
                (filter (\<lambda>(_, fld). \<not> is_empty_optional fld) (record_fields r));
              let vm' = vm\<lparr>vm_heap := h2\<rparr>;
              case res of
                Inl err \<Rightarrow> op_err vm' (missing_def err)
              | Inr flds \<Rightarrow> op_value vm' (record_value
                  (RecordData (im_from_iter flds) (attrs_to_frozen (record_attributes r)) (record_sealed_tail r))) }))"

definition op_record_empty_with_tail :: "vm \<Rightarrow> nickel_value \<Rightarrow> env \<Rightarrow> op_result" where
  "op_record_empty_with_tail vm v e =
    (case as_record v of
       None \<Rightarrow> unary_type_error vm ''Record'' v
     | Some cont \<Rightarrow> op_ok vm (record_value
         (RecordData [] attrs_new (case into_opt cont of None \<Rightarrow> None | Some r \<Rightarrow> record_sealed_tail r))) e)"

definition freeze_field :: "env \<Rightarrow> heap \<Rightarrow> ident \<times> nfield \<Rightarrow> ((ident \<times> nfield) \<times> heap) panics" where
  "freeze_field e h xf = do {
     (fld, h') \<leftarrow> closurize_field h
       (Field (value_with_pending_contracts (snd xf)) (field_metadata (snd xf)) []) e Normal;
     Some ((fst xf, fld), h') }"

definition op_record_freeze :: "vm \<Rightarrow> nickel_value \<Rightarrow> env \<Rightarrow> op_result" where
  "op_record_freeze vm v e =
    (case as_record v of
       None \<Rightarrow> unary_type_error vm ''Record'' v
     | Some Empty \<Rightarrow> op_value vm v
     | Some (Alloc r) \<Rightarrow>
         if attrs_frozen (record_attributes r)
         then do { assert_ok (record_sealed_tail r = None); op_ok vm v e }
         else
           (case record_sealed_tail r of
              Some t \<Rightarrow> illegal_tail_access vm TailFreeze (tail_label t)
            | None \<Rightarrow> do {
                (flds, h) \<leftarrow> map_heap (freeze_field e) (vm_heap vm) (record_fields r);
                op_ok (vm\<lparr>vm_heap := h\<rparr>) (record_value
                  (RecordData (im_from_iter flds) (attrs_to_frozen (record_attributes r)) None)) e }))"

section \<open>Arrays\<close>

definition op_array_map :: "sizes \<Rightarrow> vm \<Rightarrow> nickel_value \<Rightarrow> env \<Rightarrow> op_result" where
  "op_array_map sz vm v e = arg_or_error sz vm 2 (\<lambda>vm f.
     case as_array v of
       None \<Rightarrow> unary_type_error vm ''Array'' v
     | Some Empty \<Rightarrow> op_value vm v
     | Some (Alloc d) \<Rightarrow> do {
         (f', h1) \<leftarrow> closurize (vm_heap vm) (clo_value f) (clo_env f);
         (ts, h2) \<leftarrow> closurize_all h1 (map (\<lambda>t. TermV (App f' t)) (iter_with_pending_contracts d)) e;
         op_value (vm\<lparr>vm_heap := h2\<rparr>) (array_value ts []) })"

definition u32_try_from :: "rat \<Rightarrow> nat option" where
  "u32_try_from r = (if r \<in> \<int> \<and> 0 \<le> r \<and> r < of_nat u32_limit then Some (nat \<lfloor>r\<rfloor>) else None)"

definition op_array_gen :: "sizes \<Rightarrow> vm \<Rightarrow> nickel_value \<Rightarrow> env \<Rightarrow> op_result" where
  "op_array_gen sz vm v e = arg_or_error sz vm 2 (\<lambda>vm f.
     case as_number v of
       None \<Rightarrow> unary_type_error vm ''Number'' v
     | Some n \<Rightarrow>
         if n < 0 then op_err vm (OtherError ''array/generate expects its first argument to be a positive number'')
         else
           (case u32_try_from n of
              None \<Rightarrow> op_err vm (OtherError ''array/generate expects its first argument to be an integer smaller than u32::MAX'')
            | Some n_int \<Rightarrow> do {
                (f', h1) \<leftarrow> closurize (vm_heap vm) (clo_value f) (clo_env f);
                (ts, h2) \<leftarrow> closurize_all h1 (map (\<lambda>i. TermV (App f' (Number (of_nat i)))) [0 ..< n_int]) e;
                op_value (vm\<lparr>vm_heap := h2\<rparr>) (array_value ts []) }))"

definition op_array_length :: "vm \<Rightarrow> nickel_value \<Rightarrow> op_result" where
  "op_array_length vm v =
    (case as_array v of
       Some cont \<Rightarrow> op_value vm (Number (of_nat (length (array_elems cont))))
     | None \<Rightarrow> unary_type_error vm ''Array'' v)"

section \<open>Forcing\<close>

definition op_seq :: "sizes \<Rightarrow> vm \<Rightarrow> op_result" where
  "op_seq sz vm = arg_or_error sz vm 2 (\<lambda>vm next. Some (Inr next, vm))"

text \<open>The chain of \<open>deep_seq\<close>; the empty chain is a panic.\<close>

definition deep_seq_terms :: "nickel_value list \<Rightarrow> nickel_value panics" where
  "deep_seq_terms ts =
    (case ts of
       [] \<Rightarrow> None
     | t # ts \<Rightarrow> Some (foldl (\<lambda>acc t. TermV (App (TermV (Op1 DeepSeq t)) acc)) (TermV (Op1 DeepSeq t)) ts))"

definition op_deep_seq :: "sizes \<Rightarrow> vm \<Rightarrow> nickel_value \<Rightarrow> env \<Rightarrow> op_result" where
  "op_deep_seq sz vm v e =
    (let next = arg_or_error sz vm 2 (\<lambda>vm next. Some (Inr next, vm))
     in case v of
       RecordV (Alloc r) \<Rightarrow>
         if record_fields r \<noteq> [] then
           (case collect_results (iter_without_opts r) of
              Inl err \<Rightarrow> op_err vm (missing_def err)
            | Inr defined \<Rightarrow> do { t \<leftarrow> deep_seq_terms (map snd defined); op_ok vm t e })
         else next
     | ArrayV (Alloc d) \<Rightarrow>
         if fst d \<noteq> [] then do {
           (ts, h) \<leftarrow> closurize_all (vm_heap vm) (iter_with_pending_contracts d) e;
           t \<leftarrow> deep_seq_terms ts;
           op_value (vm\<lparr>vm_heap := h\<rparr>) t }
         else next
     | EnumVariant _ (Some arg) \<Rightarrow> do { t \<leftarrow> deep_seq_terms [arg]; op_ok vm t e }
     | _ \<Rightarrow> next)"

definition seq_terms :: "nickel_value list \<Rightarrow> nickel_value \<Rightarrow> nickel_value" where
  "seq_terms ts cont = foldl (\<lambda>acc t. TermV (App (TermV (Op1 Seq t)) acc)) cont ts"

definition op_force :: "vm \<Rightarrow> bool \<Rightarrow> nickel_value \<Rightarrow> env \<Rightarrow> op_result" where
  "op_force vm ignore_not_exported v e =
    (case v of
       RecordV (Alloc r) \<Rightarrow> do {
         (res, h) \<leftarrow> map_values_closurize (vm_heap vm) e (\<lambda>_ w. TermV (Op1 (Force ignore_not_exported) w))
           (filter (\<lambda>(_, fld). \<not> (is_empty_optional fld \<or> ignore_not_exported \<and> shared_not_exported (field_metadata fld)))
             (record_fields r));
         let vm' = vm\<lparr>vm_heap := h\<rparr>;
         case res of
           Inl err \<Rightarrow> op_err vm' (missing_def err)
         | Inr flds \<Rightarrow> do {
             let flds' = im_from_iter flds;
             terms \<leftarrow> map_panics (\<lambda>(_, fld). field_value fld) flds';
             op_value vm' (seq_terms terms
               (record_value (RecordData flds' (record_attributes r) (record_sealed_tail r)))) } }
     | ArrayV (Alloc d) \<Rightarrow> do {
         (ts, h) \<leftarrow> closurize_all (vm_heap vm)
           (map (\<lambda>t. TermV (Op1 (Force ignore_not_exported) t)) (iter_with_pending_contracts d)) e;
         op_value (vm\<lparr>vm_heap := h\<rparr>) (seq_terms ts (array_value ts [])) }
     | EnumVariant tag (Some arg) \<Rightarrow> do {
         (arg', h) \<leftarrow> closurize (vm_heap vm) (TermV (Op1 (Force ignore_not_exported) arg)) e;
         op_ok (vm\<lparr>vm_heap := h\<rparr>) (seq_terms [arg'] (EnumVariant tag (Some arg'))) e }
     | _ \<Rightarrow> op_ok vm v e)"

definition op_trace :: "sizes \<Rightarrow> vm \<Rightarrow> nickel_value \<Rightarrow> op_result" where
  "op_trace sz vm v =
    (case as_string v of
       Some s \<Rightarrow> arg_or_error sz vm 2 (\<lambda>vm next. Some (Inr next, vm))
     | None \<Rightarrow> unary_type_error vm ''String'' v)"

section \<open>Strings and numbers\<close>

text \<open>The literal chunks after the one just evaluated, up to the next expression.\<close>

partial_function (option) pop_literals ::
    "sizes \<Rightarrow> bytes \<Rightarrow> string \<Rightarrow> ((nickel_value \<times> nat) option \<times> string \<times> bytes) panics" where
  [code]: "pop_literals sz data acc = do {
     (r, data') \<leftarrow> pop_str_chunk sz data;
     case r of
       Some (Literal s) \<Rightarrow> pop_literals sz data' (acc @ s)
     | Some (Expr v indent) \<Rightarrow> Some (Some (v, indent), acc, data')
     | None \<Rightarrow> Some (None, acc, data') }"

definition indent_lines :: "nat \<Rightarrow> string \<Rightarrow> string" where
  "indent_lines n s =
    (if n \<noteq> 0 then concat (map (\<lambda>c. if c = CHR 0x0A then c # replicate n (CHR '' '') else [c]) s) else s)"

definition op_chunks_concat :: "host \<Rightarrow> sizes \<Rightarrow> vm \<Rightarrow> nickel_value \<Rightarrow> op_result" where
  "op_chunks_concat host sz vm v = do {
     (r, st) \<leftarrow> pop_str_acc sz (vm_stack vm);
     case r of
       Some (StrAccItem acc acc_env curr_indent _) \<Rightarrow>
         (case to_nickel_string host v of
            Some s \<Rightarrow> do {
              (next_chunk, acc', st') \<leftarrow> pop_literals sz st (acc @ indent_lines curr_indent s);
              case next_chunk of
                Some (arg, indent) \<Rightarrow> do {
                  assert_ok (indent < u32_limit);
                  op_ok (vm\<lparr>vm_stack := stack_push sz (StrAccItem acc' acc_env indent 0) st'\<rparr>)
                    (TermV (Op1 ChunksConcat arg)) acc_env }
              | None \<Rightarrow> op_value (vm\<lparr>vm_stack := st'\<rparr>) (String acc') }
          | None \<Rightarrow> op_err (vm\<lparr>vm_stack := st\<rparr>) (TypeError ''Stringable'' v))
     | _ \<Rightarrow> None }"

definition op_string1 :: "vm \<Rightarrow> (string \<Rightarrow> nickel_value) \<Rightarrow> nickel_value \<Rightarrow> op_result" where
  "op_string1 vm f v =
    (case as_string v of Some s \<Rightarrow> op_value vm (f s) | None \<Rightarrow> unary_type_error vm ''String'' v)"

definition string_array :: "string list \<Rightarrow> nickel_value" where
  "string_array ss = array_value (map String ss) []"

definition op_to_string :: "host \<Rightarrow> vm \<Rightarrow> nickel_value \<Rightarrow> op_result" where
  "op_to_string host vm v =
    (case to_nickel_string host v of
       Some s \<Rightarrow> op_value vm (String s)
     | None \<Rightarrow> do {
         ty \<leftarrow> type_of v;
         op_err vm (OtherError (''to_string: cannot convert an argument of type '' @ ty @ '' to string'')) })"

definition op_number_from_string :: "host \<Rightarrow> vm \<Rightarrow> nickel_value \<Rightarrow> op_result" where
  "op_number_from_string host vm v =
    (case as_string v of
       None \<Rightarrow> unary_type_error vm ''String'' v
     | Some s \<Rightarrow>
        (case host_parse_number host s of
           None \<Rightarrow> op_err vm (OtherError (''number/from_string: invalid number literal '' @ s))
         | Some n \<Rightarrow> op_value vm (Number n)))"

text \<open>A regular expression is compiled once, and the result is a function that applies it.\<close>

definition op_regex_compile :: "host \<Rightarrow> vm \<Rightarrow> (string \<Rightarrow> unary_op) \<Rightarrow> nickel_value \<Rightarrow> op_result" where
  "op_regex_compile host vm mk v =
    (case as_string v of
       None \<Rightarrow> nary_type_error vm ''String'' 1 v
     | Some s \<Rightarrow>
        (case host_regex_new host s of
           Some err \<Rightarrow> op_err vm (OtherError err)
         | None \<Rightarrow> (let (matcher, vm') = eta_expand vm (mk s) in op_value vm' (TermV matcher))))"

definition op_is_match :: "host \<Rightarrow> vm \<Rightarrow> string \<Rightarrow> nickel_value \<Rightarrow> op_result" where
  "op_is_match host vm regex v =
    op_string1 vm (\<lambda>s. Bool (matches_regex (host_segmenter host) (host_find_iter host regex) s)) v"

definition find_result_value :: "regex_find_result \<Rightarrow> nickel_value" where
  "find_result_value found = closurize_container (mk_record
    [(''matched'', String (rf_matched found)), (''index'', Number (of_nat (rf_index found))),
     (''groups'', array_value (map (\<lambda>s. String (case s of None \<Rightarrow> [] | Some t \<Rightarrow> t)) (rf_groups found)) [])])"

definition op_find :: "host \<Rightarrow> vm \<Rightarrow> string \<Rightarrow> nickel_value \<Rightarrow> op_result" where
  "op_find host vm regex v =
    (case as_string v of
       None \<Rightarrow> unary_type_error vm ''String'' v
     | Some s \<Rightarrow>
        (case regex_captures_iter (host_segmenter host) (host_captures_iter host regex) s of
           [] \<Rightarrow> op_value vm (mk_record [(''matched'', String []), (''index'', Number (-1)), (''groups'', ArrayV Empty)])
         | capt # _ \<Rightarrow> do {
             found \<leftarrow> find_result (host_segmenter host) s capt;
             op_value vm (find_result_value found) }))"

definition op_find_all :: "host \<Rightarrow> vm \<Rightarrow> string \<Rightarrow> nickel_value \<Rightarrow> op_result" where
  "op_find_all host vm regex v =
    (case as_string v of
       None \<Rightarrow> unary_type_error vm ''String'' v
     | Some s \<Rightarrow> do {
         found \<leftarrow> find_all_regex (host_segmenter host) (host_captures_iter host regex) s;
         op_value vm (array_value (map find_result_value found) []) })"

definition number_op1 :: "host \<Rightarrow> vm \<Rightarrow> unary_op \<Rightarrow> nickel_value \<Rightarrow> op_result" where
  "number_op1 host vm op v =
    (case as_number v of
       None \<Rightarrow> unary_type_error vm ''Number'' v
     | Some n \<Rightarrow>
        (case host_float1 host op n of
           Some r \<Rightarrow> op_value vm (Number r)
         | None \<Rightarrow> op_err vm (OtherError ''invalid arithmetic operation'')))"

section \<open>Contracts\<close>

definition op_contract_custom :: "vm \<Rightarrow> nickel_value \<Rightarrow> env \<Rightarrow> op_result" where
  "op_contract_custom vm v e =
    (case v of
       TermV (Fun _ _) \<Rightarrow> do {
         (contract, h) \<leftarrow> closurize (vm_heap vm) v e;
         op_value (vm\<lparr>vm_heap := h\<rparr>) (CustomContract contract) }
     | _ \<Rightarrow> unary_type_error vm ''Function or MatchExpression'' v)"

text \<open>
  The result of a custom contract: \<open>Ok value\<close> goes on with the value; \<open>Error data\<close> sets the stack up
  to force the data, attach it to the label and blame.
\<close>

definition op_contract_postprocess_result :: "sizes \<Rightarrow> vm \<Rightarrow> nickel_value \<Rightarrow> env \<Rightarrow> op_result" where
  "op_contract_postprocess_result sz vm v e =
    (case as_enum_variant v of
       Some (tag, Some arg) \<Rightarrow> expect_arg sz vm (\<lambda>vm label_closure.
         if tag = ''Ok'' then op_ok vm arg e
         else if tag = ''Error'' then
           op_ok (vm\<lparr>vm_stack :=
               stack_push sz (Op1ContItem (Force False) no_app_info 0)
                 (stack_push sz (Op2FirstContItem (BinOp LabelWithErrorData) no_app_info label_closure 0)
                   (stack_push sz (Op1ContItem Blame no_app_info 0) (vm_stack vm)))\<rparr>) arg e
         else unary_type_error vm ''[| Ok, Error {..} |]'' v)
     | _ \<Rightarrow> unary_type_error vm ''[| Ok, Error _ |]'' v)"

definition op_contract_attach_default_label :: "sizes \<Rightarrow> vm \<Rightarrow> nickel_value \<Rightarrow> env \<Rightarrow> op_result" where
  "op_contract_attach_default_label sz vm v e =
    (case as_enum_variant v of
       Some (_, Some _) \<Rightarrow>
         op_ok (vm\<lparr>vm_stack := push_arg sz \<lparr>clo_value = v, clo_env = e\<rparr> 0 (vm_stack vm)\<rparr>)
           (TermV (Var ''$add_default_check_label'')) Map.empty
     | _ \<Rightarrow> unary_type_error vm ''[| Ok, Error _ |]'' v)"

section \<open>The dispatch\<close>

definition eval_op1 :: "host \<Rightarrow> sizes \<Rightarrow> vm \<Rightarrow> unary_op \<Rightarrow> closure \<Rightarrow> op_result" where
  "eval_op1 host sz vm op arg =
    (let v = clo_value arg; e = clo_env arg
     in case op of
       IfThenElse \<Rightarrow> op_if_then_else sz vm v
     | Typeof \<Rightarrow> op_value vm (EnumVariant (type_tag v) None)
     | Cast \<Rightarrow> op_value vm (EnumVariant (type_tag v) (Some v))
     | BoolAnd \<Rightarrow> op_bool_and sz vm v
     | BoolOr \<Rightarrow> op_bool_or sz vm v
     | BoolNot \<Rightarrow> op_bool_not vm v
     | Blame \<Rightarrow> op_blame vm v
     | EnumEmbed _ \<Rightarrow> op_enum_embed vm v
     | TagsOnlyMatch has_default \<Rightarrow> op_tags_only_match sz vm has_default v
     | LabelFlipPol \<Rightarrow> op_label vm label_flip_pol v
     | LabelPol \<Rightarrow> op_label_pol vm v
     | LabelGoDom \<Rightarrow> op_label vm (label_push_path PathDomain) v
     | LabelGoCodom \<Rightarrow> op_label vm (label_push_path PathCodomain) v
     | LabelGoArray \<Rightarrow> op_label vm (label_push_path PathArray) v
     | LabelGoDict \<Rightarrow> op_label vm (label_push_path PathDict) v
     | RecordAccess x \<Rightarrow> op_record_access vm x v e
     | RecordFields op_kind \<Rightarrow> op_record_fields vm op_kind v e
     | RecordValues \<Rightarrow> op_record_values vm v e
     | ArrayMap \<Rightarrow> op_array_map sz vm v e
     | ArrayGen \<Rightarrow> op_array_gen sz vm v e
     | RecordMap \<Rightarrow> op_record_map sz vm v e
     | Seq \<Rightarrow> op_seq sz vm
     | DeepSeq \<Rightarrow> op_deep_seq sz vm v e
     | ArrayLength \<Rightarrow> op_array_length vm v
     | ChunksConcat \<Rightarrow> op_chunks_concat host sz vm v
     | StringTrim \<Rightarrow> op_string1 vm (\<lambda>s. String (host_trim host s)) v
     | StringChars \<Rightarrow> op_string1 vm (\<lambda>s. string_array (characters (host_segmenter host) s)) v
     | StringUppercase \<Rightarrow> op_string1 vm (\<lambda>s. String (host_uppercase host s)) v
     | StringLowercase \<Rightarrow> op_string1 vm (\<lambda>s. String (host_lowercase host s)) v
     | StringLength \<Rightarrow> op_string1 vm (\<lambda>s. Number (of_nat (string_length (host_segmenter host) s))) v
     | ToString \<Rightarrow> op_to_string host vm v
     | NumberFromString \<Rightarrow> op_number_from_string host vm v
     | EnumFromString \<Rightarrow> op_string1 vm (\<lambda>s. EnumVariant s None) v
     | StringIsMatch \<Rightarrow> op_regex_compile host vm StringIsMatchCompiled v
     | StringFind \<Rightarrow> op_regex_compile host vm StringFindCompiled v
     | StringFindAll \<Rightarrow> op_regex_compile host vm StringFindAllCompiled v
     | StringIsMatchCompiled regex \<Rightarrow> op_is_match host vm regex v
     | StringFindCompiled regex \<Rightarrow> op_find host vm regex v
     | StringFindAllCompiled regex \<Rightarrow> op_find_all host vm regex v
     | Force ignore_not_exported \<Rightarrow> op_force vm ignore_not_exported v e
     | RecordEmptyWithTail \<Rightarrow> op_record_empty_with_tail vm v e
     | RecordFreeze \<Rightarrow> op_record_freeze vm v e
     | Trace \<Rightarrow> op_trace sz vm v
     | LabelPushDiag \<Rightarrow> op_label_push_diag vm v e
     | EnumGetArg \<Rightarrow> op_enum_get_arg vm v e
     | EnumMakeVariant \<Rightarrow> op_enum_make_variant sz vm v
     | EnumGetTag \<Rightarrow> op_enum_get_tag vm v
     | EnumIsVariant \<Rightarrow> op_enum_is_variant vm v
     | ContractCustom \<Rightarrow> op_contract_custom vm v e
     | ContractPostprocessResult \<Rightarrow> op_contract_postprocess_result sz vm v e
     | ContractAttachDefaultLabel \<Rightarrow> op_contract_attach_default_label sz vm v e
     | NumberArcCos \<Rightarrow> number_op1 host vm op v
     | NumberArcSin \<Rightarrow> number_op1 host vm op v
     | NumberArcTan \<Rightarrow> number_op1 host vm op v
     | NumberCos \<Rightarrow> number_op1 host vm op v
     | NumberSin \<Rightarrow> number_op1 host vm op v
     | NumberTan \<Rightarrow> number_op1 host vm op v
     | RecDefault \<Rightarrow> None
     | RecForce \<Rightarrow> None)"

end
