(* ===== verification/Serialize_Validate.thy ===== *)
theory Serialize_Validate
  imports Primop_Base
begin

text \<open>
  The check that a value can be exported, \<open>validate\<close> of \<open>core/src/serialize/mod.rs\<close>, with the path
  that locates an error. The path is built from the inside out, each level adding its element at
  the end, and reversed once. \<open>None\<close> is the panic on a field without a definition, which a fully
  evaluated value does not have, and on a field with pending contracts (a debug assertion).
\<close>

definition export_error_of :: "export_error_kind \<Rightarrow> export_error" where
  "export_error_of k = \<lparr>export_path = [], export_kind = k\<rparr>"

definition with_elem :: "pointer_elem \<Rightarrow> export_error \<Rightarrow> export_error" where
  "with_elem p err = err\<lparr>export_path := export_path err @ [p]\<rparr>"

text \<open>The largest finite \<open>f64\<close>; the smallest is its opposite.\<close>

definition NUMBER_MAX :: rat where
  "NUMBER_MAX = (2 ^ 53 - 1) * 2 ^ 971"

definition NUMBER_MIN :: rat where
  "NUMBER_MIN = - NUMBER_MAX"

text \<open>\<open>try_for_each\<close>: the first error stops the iteration.\<close>

fun try_for_each :: "('a \<Rightarrow> ('e + unit) panics) \<Rightarrow> 'a list \<Rightarrow> ('e + unit) panics" where
  "try_for_each f [] = Some (Inr ())"
| "try_for_each f (x # xs) = do {
     r \<leftarrow> f x;
     case r of Inl e \<Rightarrow> Some (Inl e) | Inr _ \<Rightarrow> try_for_each f xs }"

lemma try_for_each_cong [fundef_cong]:
  "xs = ys \<Longrightarrow> (\<And>x. x \<in> set ys \<Longrightarrow> f x = g x) \<Longrightarrow> try_for_each f xs = try_for_each g ys"
proof (induction xs arbitrary: ys)
  case (Cons x xs)
  then show ?case by (cases ys) (auto intro!: bind_option_cong split: sum.split)
qed simp

definition at_elem :: "pointer_elem \<Rightarrow> (export_error + unit) panics \<Rightarrow> (export_error + unit) panics" where
  "at_elem p r = map_option (map_sum (with_elem p) id) r"

text \<open>The values of the fields \<open>iter_serializable\<close> yields, in order.\<close>

definition serializable_field :: "ident \<times> nfield \<Rightarrow> bool" where
  "serializable_field xf \<longleftrightarrow> \<not> shared_not_exported (field_metadata (snd xf))
    \<and> (field_value (snd xf) \<noteq> None \<or> \<not> shared_opt (field_metadata (snd xf)))"

function (sequential) do_validate :: "export_format \<Rightarrow> nickel_value \<Rightarrow> (export_error + unit) panics" where
  "do_validate fmt Null =
    Some (if fmt = Json \<or> fmt = Yaml then Inr () else Inl (export_error_of (UnsupportedNull fmt Null)))"
| "do_validate fmt (Bool b) = Some (Inr ())"
| "do_validate fmt (RecordV Empty) = Some (Inr ())"
| "do_validate fmt (ArrayV Empty) = Some (Inr ())"
| "do_validate fmt (String s) = Some (Inr ())"
| "do_validate fmt (EnumVariant tag None) = Some (Inr ())"
| "do_validate fmt (EnumVariant tag (Some arg)) = Some (Inl (export_error_of (NonSerializable (EnumVariant tag (Some arg)))))"
| "do_validate fmt (Number n) =
    Some (if NUMBER_MIN \<le> n \<and> n \<le> NUMBER_MAX then Inr () else Inl (export_error_of (NumberOutOfRange (Number n) n)))"
| "do_validate fmt (RecordV (Alloc r)) =
    try_for_each (\<lambda>xf. do {
        assert_ok (field_pending_contracts (snd xf) = []);
        if \<not> serializable_field xf then Some (Inr ())
        else case field_value (snd xf) of
          None \<Rightarrow> None
        | Some v \<Rightarrow> at_elem (PointerField (fst xf)) (do_validate fmt v) })
      (record_fields r)"
| "do_validate fmt (ArrayV (Alloc d)) =
    try_for_each (\<lambda>(i, v). at_elem (PointerIndex i) (do_validate fmt v)) (enumerate 0 (fst d))"
| "do_validate fmt v = Some (Inl (export_error_of (NonSerializable v)))"
  by pat_completeness auto
termination
proof (relation "measure (\<lambda>(_, v). size v)")
  fix fmt :: export_format and r :: nrecord and xf and v :: nickel_value
  assume xf: "xf \<in> set (record_fields r)" and v: "field_value (snd xf) = Some v"
  have "size v < size_field size (snd xf)" by (rule size_value [OF v])
  also have "size_field size (snd xf) < size_record_data size r"
    using size_record_field [of "fst xf" "snd xf" r] xf by simp
  finally show "((fmt, v), (fmt, RecordV (Alloc r))) \<in> measure (\<lambda>(_, v). size v)" by simp
next
  fix fmt :: export_format and d :: "nickel_value list \<times> contract list" and iv i v
  assume "iv \<in> set (enumerate 0 (fst d))" and "(i, v) = iv"
  then have "v \<in> set (fst d)" by (auto simp: enumerate_eq_zip dest: set_zip_rightD)
  then have "size v \<le> size_list size (fst d)" by (rule size_list_estimation') simp
  then show "((fmt, v), (fmt, ArrayV (Alloc d))) \<in> measure (\<lambda>(_, v). size v)" by (cases d) simp
qed simp

definition validate :: "export_format \<Rightarrow> nickel_value \<Rightarrow> (export_error + unit) panics" where
  "validate fmt v =
    (if fmt = Text then
       Some (if as_string v \<noteq> None then Inr () else Inl (export_error_of (NotAString v)))
     else map_option (map_sum (export_path_update rev) id) (do_validate fmt v))"

end
