(* ===== verification/Primop_Binary.thy ===== *)
theory Primop_Binary
  imports Primop_Unary Serialize_Validate
begin

text \<open>
  The binary primitive operations, \<open>eval_op2\<close> with \<open>number_fn2\<close>, \<open>number_op2\<close>,
  \<open>number_cmp2\<close>, \<open>string_fn2\<close>, and the comparison \<open>eq\<close>, of
  \<open>core/src/eval/operation.rs\<close>. The arguments are the evaluated values \<open>v1\<close> and \<open>v2\<close> in their
  environments. Warnings are erased.
\<close>

section \<open>Equality\<close>

text \<open>
  One step of the comparison gives an answer, or a first pair to compare and the pairs to push on the
  stack.
\<close>

datatype eq_result = EqBool bool | Eqs nickel_value nickel_value "(closure \<times> closure) list"

definition gen_eqs :: "heap \<Rightarrow> (nickel_value \<times> nickel_value) list \<Rightarrow> env \<Rightarrow> env \<Rightarrow> (eq_result \<times> heap) panics" where
  "gen_eqs h eqs env1 env2 =
    (case eqs of
       [] \<Rightarrow> Some (EqBool True, h)
     | (v1, v2) # rest \<Rightarrow> do {
         (v1', h1) \<leftarrow> closurize h v1 env1;
         (v2', h2) \<leftarrow> closurize h1 v2 env2;
         Some (Eqs v1' v2'
           (map (\<lambda>(w1, w2). (\<lparr>clo_value = w1, clo_env = env1\<rparr>, \<lparr>clo_value = w2, clo_env = env2\<rparr>)) rest), h2) })"

text \<open>The two fields of a name both records have: a pair, nothing, or an error.\<close>

definition eq_fields :: "ident \<times> nfield \<times> nfield \<Rightarrow> (eval_error + nickel_value \<times> nickel_value) option" where
  "eq_fields idf =
    (case idf of (x, field1, field2) \<Rightarrow>
      (case (field_value field1, field_value field2) of
         (Some v1, Some v2) \<Rightarrow>
           Some (Inr (contract_apply_all v1 (field_pending_contracts field1),
                      contract_apply_all v2 (field_pending_contracts field2)))
       | (None, None) \<Rightarrow> None
       | (None, Some _) \<Rightarrow> Some (Inl (MissingFieldDef x (shared_into_inner (field_metadata field1))))
       | (Some _, None) \<Rightarrow> Some (Inl (MissingFieldDef x (shared_into_inner (field_metadata field2))))))"

definition eq_records ::
    "(ident, nfield) swap_remove \<Rightarrow> heap \<Rightarrow> nrecord \<Rightarrow> env \<Rightarrow> nrecord \<Rightarrow> env \<Rightarrow>
     ((eval_error + eq_result) \<times> heap) panics" where
  "eq_records sr h r1 env1 r2 env2 =
    (let s = split_ref sr (record_fields r1) (record_fields r2)
     in if \<not> list_all (\<lambda>(_, fld). is_empty_optional fld) (split_left s)
          \<or> \<not> list_all (\<lambda>(_, fld). is_empty_optional fld) (split_right s)
        then Some (Inr (EqBool False), h)
        else if split_center s = [] then Some (Inr (EqBool True), h)
        else
          (case collect_results (List.map_filter eq_fields (split_center s)) of
             Inl err \<Rightarrow> Some (Inl err, h)
           | Inr eqs \<Rightarrow> do { (r, h') \<leftarrow> gen_eqs h eqs env1 env2; Some (Inr r, h') }))"

definition eq_arrays ::
    "heap \<Rightarrow> nickel_value list \<times> contract list \<Rightarrow> env \<Rightarrow> nickel_value list \<times> contract list \<Rightarrow> env \<Rightarrow>
     (eq_result \<times> heap) panics" where
  "eq_arrays h d1 env1 d2 env2 = do {
     (vs1, h1) \<leftarrow> closurize_all h (iter_with_pending_contracts d1) env1;
     (vs2, h2) \<leftarrow> closurize_all h1 (iter_with_pending_contracts d2) env2;
     let eqs = zip vs1 vs2;
     if eqs = [] then Some (EqBool True, h2)
     else Some (Eqs (fst (last eqs)) (snd (last eqs))
       (map (\<lambda>(w1, w2). (closure_of_value w1, closure_of_value w2)) (butlast eqs)), h2) }"

definition eq ::
    "(ident, nfield) swap_remove \<Rightarrow> heap \<Rightarrow> closure \<Rightarrow> closure \<Rightarrow> ((eval_error + eq_result) \<times> heap) panics" where
  "eq sr h c1 c2 =
    (let v1 = clo_value c1; env1 = clo_env c1; v2 = clo_value c2; env2 = clo_env c2
     in case (v1, v2) of
       (Null, Null) \<Rightarrow> Some (Inr (EqBool True), h)
     | (Bool b1, Bool b2) \<Rightarrow> Some (Inr (EqBool (b1 = b2)), h)
     | (Number n1, Number n2) \<Rightarrow> Some (Inr (EqBool (n1 = n2)), h)
     | (String s1, String s2) \<Rightarrow> Some (Inr (EqBool (s1 = s2)), h)
     | (LabelV l1, LabelV l2) \<Rightarrow> Some (Inr (EqBool (l1 = l2)), h)
     | (SealingKey k1, SealingKey k2) \<Rightarrow> Some (Inr (EqBool (k1 = k2)), h)
     | (EnumVariant tag1 None, EnumVariant tag2 None) \<Rightarrow> Some (Inr (EqBool (tag1 = tag2)), h)
     | (EnumVariant tag1 (Some arg1), EnumVariant tag2 (Some arg2)) \<Rightarrow>
         if tag1 = tag2 then do { (r, h') \<leftarrow> gen_eqs h [(arg1, arg2)] env1 env2; Some (Inr r, h') }
         else Some (Inr (EqBool False), h)
     | (RecordV cont1, RecordV cont2) \<Rightarrow>
         if container_has_only_empty_opts cont1 \<and> container_has_only_empty_opts cont2
         then Some (Inr (EqBool True), h)
         else
           (case (cont1, cont2) of
              (Alloc r1, Alloc r2) \<Rightarrow> eq_records sr h r1 env1 r2 env2
            | _ \<Rightarrow> Some (Inr (EqBool False), h))
     | (ArrayV cont1, ArrayV cont2) \<Rightarrow>
         if array_is_empty cont1 \<and> array_is_empty cont2 then Some (Inr (EqBool True), h)
         else
           (case (cont1, cont2) of
              (Alloc d1, Alloc d2) \<Rightarrow>
                if length (fst d1) = length (fst d2)
                then do { (r, h') \<leftarrow> eq_arrays h d1 env1 d2 env2; Some (Inr r, h') }
                else Some (Inr (EqBool False), h)
            | _ \<Rightarrow> Some (Inr (EqBool False), h))
     | (ForeignId _, ForeignId _) \<Rightarrow> Some (Inl (IncomparableValues v1 v2), h)
     | (CustomContract _, CustomContract _) \<Rightarrow> Some (Inl (IncomparableValues v1 v2), h)
     | (TermV (Fun _ _), TermV (Fun _ _)) \<Rightarrow> Some (Inl (IncomparableValues v1 v2), h)
     | _ \<Rightarrow> Some (Inr (EqBool False), h))"

text \<open>An answer: false drops the pending pairs, true takes the next one from the stack.\<close>

definition eq_answer :: "sizes \<Rightarrow> vm \<Rightarrow> bool \<Rightarrow> op_result" where
  "eq_answer sz vm b = do {
     (it, st) \<leftarrow> pop_eq sz (vm_stack vm);
     if \<not> b then do {
       st' \<leftarrow> clear_eqs sz st;
       op_value (vm\<lparr>vm_stack := st'\<rparr>) (Bool False) }
     else
       (case it of
          None \<Rightarrow> op_value (vm\<lparr>vm_stack := st\<rparr>) (Bool True)
        | Some (EqItem arg1 arg2) \<Rightarrow> do {
            (w1, h1) \<leftarrow> closurize (vm_heap vm) (clo_value arg1) (clo_env arg1);
            (w2, h2) \<leftarrow> closurize h1 (clo_value arg2) (clo_env arg2);
            op_value (vm\<lparr>vm_stack := st, vm_heap := h2\<rparr>) (TermV (Op2 (BinOp Eq) w1 w2)) }
        | _ \<Rightarrow> None) }"

definition op_eq :: "host \<Rightarrow> sizes \<Rightarrow> vm \<Rightarrow> closure \<Rightarrow> closure \<Rightarrow> op_result" where
  "op_eq host sz vm c1 c2 = do {
     (r, h) \<leftarrow> eq (host_swap_remove host) (vm_heap vm) c1 c2;
     let vm' = vm\<lparr>vm_heap := h\<rparr>;
     case r of
       Inl err \<Rightarrow> op_err vm' err
     | Inr (EqBool b) \<Rightarrow> eq_answer sz vm' b
     | Inr (Eqs w1 w2 subeqs) \<Rightarrow>
         op_value (vm'\<lparr>vm_stack := push_eqs sz subeqs (vm_stack vm)\<rparr>) (TermV (Op2 (BinOp Eq) w1 w2)) }"

section \<open>Numbers\<close>

definition number_fn2 :: "vm \<Rightarrow> (rat \<Rightarrow> rat \<Rightarrow> op_result) \<Rightarrow> nickel_value \<Rightarrow> nickel_value \<Rightarrow> op_result" where
  "number_fn2 vm f v1 v2 =
    (case as_number v1 of
       None \<Rightarrow> nary_type_error vm ''Number'' 1 v1
     | Some n1 \<Rightarrow>
        (case as_number v2 of
           None \<Rightarrow> nary_type_error vm ''Number'' 2 v2
         | Some n2 \<Rightarrow> f n1 n2))"

definition number_op2 :: "vm \<Rightarrow> (rat \<Rightarrow> rat \<Rightarrow> rat) \<Rightarrow> nickel_value \<Rightarrow> nickel_value \<Rightarrow> op_result" where
  "number_op2 vm f v1 v2 = number_fn2 vm (\<lambda>n1 n2. op_value vm (Number (f n1 n2))) v1 v2"

definition number_cmp2 :: "vm \<Rightarrow> (rat \<Rightarrow> rat \<Rightarrow> bool) \<Rightarrow> nickel_value \<Rightarrow> nickel_value \<Rightarrow> op_result" where
  "number_cmp2 vm f v1 v2 = number_fn2 vm (\<lambda>n1 n2. op_value vm (Bool (f n1 n2))) v1 v2"

definition op_div :: "vm \<Rightarrow> nickel_value \<Rightarrow> nickel_value \<Rightarrow> op_result" where
  "op_div vm v1 v2 = number_fn2 vm (\<lambda>n1 n2.
     if n2 = 0 then op_err vm (OtherError ''division by zero'') else op_value vm (Number (n1 / n2))) v1 v2"

text \<open>\<open>RoundingMode::Down\<close> rounds towards zero.\<close>

definition round_down :: "rat \<Rightarrow> int" where
  "round_down r = (if 0 \<le> r then \<lfloor>r\<rfloor> else \<lceil>r\<rceil>)"

definition op_modulo :: "vm \<Rightarrow> nickel_value \<Rightarrow> nickel_value \<Rightarrow> op_result" where
  "op_modulo vm v1 v2 = number_fn2 vm (\<lambda>n1 n2.
     if n2 = 0 then op_err vm (OtherError ''division by zero (%)'')
     else (let quotient = of_int (round_down (n1 / n2)) in op_value vm (Number (n1 - quotient * n2)))) v1 v2"

definition float_result :: "vm \<Rightarrow> rat option \<Rightarrow> op_result" where
  "float_result vm r =
    (case r of Some n \<Rightarrow> op_value vm (Number n) | None \<Rightarrow> op_err vm (OtherError ''invalid arithmetic operation''))"

definition op_arctan2 :: "host \<Rightarrow> vm \<Rightarrow> nickel_value \<Rightarrow> nickel_value \<Rightarrow> op_result" where
  "op_arctan2 host vm v1 v2 = number_fn2 vm (\<lambda>n1 n2. float_result vm (host_atan2 host n1 n2)) v1 v2"

definition op_log :: "host \<Rightarrow> vm \<Rightarrow> nickel_value \<Rightarrow> nickel_value \<Rightarrow> op_result" where
  "op_log host vm v1 v2 = number_fn2 vm (\<lambda>n1 n2. float_result vm
     (if n2 = 2 then host_log2 host n1 else if n2 = 10 then host_log10 host n1 else host_log host n1 n2)) v1 v2"

definition i64_try_from :: "rat \<Rightarrow> int option" where
  "i64_try_from r = (if r \<in> \<int> \<and> - (2 ^ 63) \<le> r \<and> r < 2 ^ 63 then Some \<lfloor>r\<rfloor> else None)"

definition op_pow :: "host \<Rightarrow> vm \<Rightarrow> nickel_value \<Rightarrow> nickel_value \<Rightarrow> op_result" where
  "op_pow host vm v1 v2 = number_fn2 vm (\<lambda>n1 n2.
     case i64_try_from n2 of
       Some k \<Rightarrow> do { r \<leftarrow> host_pow host n1 k; op_value vm (Number r) }
     | None \<Rightarrow> float_result vm (host_powf host n1 n2)) v1 v2"

section \<open>Strings\<close>

definition string_fn2 :: "vm \<Rightarrow> (string \<Rightarrow> string \<Rightarrow> op_result) \<Rightarrow> nickel_value \<Rightarrow> nickel_value \<Rightarrow> op_result" where
  "string_fn2 vm f v1 v2 =
    (case as_string v1 of
       None \<Rightarrow> nary_type_error vm ''String'' 1 v1
     | Some s1 \<Rightarrow>
        (case as_string v2 of
           None \<Rightarrow> nary_type_error vm ''String'' 2 v2
         | Some s2 \<Rightarrow> f s1 s2))"

definition op_string_concat :: "vm \<Rightarrow> nickel_value \<Rightarrow> nickel_value \<Rightarrow> op_result" where
  "op_string_concat vm v1 v2 = string_fn2 vm (\<lambda>s1 s2. op_value vm (String (s1 @ s2))) v1 v2"

definition op_string_split :: "host \<Rightarrow> vm \<Rightarrow> nickel_value \<Rightarrow> nickel_value \<Rightarrow> op_result" where
  "op_string_split host vm v1 v2 = string_fn2 vm (\<lambda>input sep. do {
     parts \<leftarrow> string_split (host_segmenter host) input sep;
     op_value vm (string_array parts) }) v1 v2"

definition op_string_contains :: "host \<Rightarrow> vm \<Rightarrow> nickel_value \<Rightarrow> nickel_value \<Rightarrow> op_result" where
  "op_string_contains host vm v1 v2 = string_fn2 vm (\<lambda>s1 s2. do {
     b \<leftarrow> string_contains (host_segmenter host) s1 s2;
     op_value vm (Bool b) }) v1 v2"

definition op_string_compare :: "vm \<Rightarrow> nickel_value \<Rightarrow> nickel_value \<Rightarrow> op_result" where
  "op_string_compare vm v1 v2 = string_fn2 vm (\<lambda>s1 s2. op_value vm (EnumVariant
     (if s1 < s2 then ''Lesser'' else if s1 = s2 then ''Equal'' else ''Greater'') None)) v1 v2"

text \<open>The operations whose first argument is an enum tag and whose second one is a string.\<close>

definition tag_fn2 ::
    "vm \<Rightarrow> string \<Rightarrow> (string \<Rightarrow> string \<Rightarrow> op_result option) \<Rightarrow> nickel_value \<Rightarrow> nickel_value \<Rightarrow> op_result" where
  "tag_fn2 vm expected f v1 v2 =
    (case as_enum_tag v1 of
       None \<Rightarrow> nary_type_error vm expected 1 v1
     | Some tag \<Rightarrow>
        (case as_string v2 of
           None \<Rightarrow> nary_type_error vm ''String'' 2 v2
         | Some s \<Rightarrow> (case f tag s of None \<Rightarrow> nary_type_error vm expected 1 v1 | Some r \<Rightarrow> r)))"

definition op_hash :: "host \<Rightarrow> vm \<Rightarrow> nickel_value \<Rightarrow> nickel_value \<Rightarrow> op_result" where
  "op_hash host vm v1 v2 = tag_fn2 vm ''[| Md5, Sha1, Sha256, Sha512 |]'' (\<lambda>tag s.
     let result = (\<lambda>digest. Some (op_value vm (String (hex_encode (digest s)))))
     in if tag = ''Md5'' then result (host_md5 host)
        else if tag = ''Sha1'' then result (host_sha1 host)
        else if tag = ''Sha256'' then result (host_sha256 host)
        else if tag = ''Sha512'' then result (host_sha512 host)
        else None) v1 v2"

definition base64_variants :: "string list" where
  "base64_variants = [''Standard'', ''UrlSafe'', ''NoPad'', ''UrlSafeNoPad'']"

definition op_base64_encode :: "host \<Rightarrow> vm \<Rightarrow> nickel_value \<Rightarrow> nickel_value \<Rightarrow> op_result" where
  "op_base64_encode host vm v1 v2 = tag_fn2 vm ''[| Standard, UrlSafe, NoPad, UrlSafeNoPad |]'' (\<lambda>tag s.
     if tag \<in> set base64_variants then Some (op_value vm (String (host_base64_encode host tag s))) else None) v1 v2"

definition op_base64_decode :: "host \<Rightarrow> vm \<Rightarrow> nickel_value \<Rightarrow> nickel_value \<Rightarrow> op_result" where
  "op_base64_decode host vm v1 v2 = tag_fn2 vm ''[| Standard, UrlSafe, NoPad, UrlSafeNoPad |]'' (\<lambda>tag s.
     if tag \<in> set base64_variants then Some
       (case host_base64_decode host tag s of
          Inr decoded \<Rightarrow> op_value vm (EnumVariant ''Ok'' (Some (String decoded)))
        | Inl err \<Rightarrow> op_value vm (EnumVariant ''Error'' (Some (mk_record [(''message'', String err)]))))
     else None) v1 v2"

definition ENUM_FORMAT :: string where
  "ENUM_FORMAT = ''[| Json, Toml, Yaml, YamlDocuments |]''"

definition export_format_of :: "string \<Rightarrow> export_format option" where
  "export_format_of tag =
    (if tag = ''Json'' then Some Json
     else if tag = ''Yaml'' then Some Yaml
     else if tag = ''YamlDocuments'' then Some YamlDocuments
     else if tag = ''Toml'' then Some Toml
     else None)"

definition op_serialize :: "host \<Rightarrow> vm \<Rightarrow> nickel_value \<Rightarrow> nickel_value \<Rightarrow> env \<Rightarrow> op_result" where
  "op_serialize host vm v1 v2 env2 =
    (case as_enum_tag v1 of
       None \<Rightarrow> nary_type_error vm ENUM_FORMAT 1 v1
     | Some tag \<Rightarrow> do {
         v2_subst \<leftarrow> subst (vm_heap vm) v2 Map.empty env2;
         case export_format_of tag of
           None \<Rightarrow> nary_type_error vm ENUM_FORMAT 1 v1
         | Some fmt \<Rightarrow> do {
             ok \<leftarrow> validate fmt v2_subst;
             case ok of
               Inl err \<Rightarrow> op_err vm (SerializationError err)
             | Inr _ \<Rightarrow>
                (case host_serialize host fmt v2_subst of
                   Inl err \<Rightarrow> op_err vm (SerializationError (export_error_of (ExportOther err)))
                 | Inr s \<Rightarrow> op_value vm (String s)) } })"

definition op_deserialize :: "host \<Rightarrow> vm \<Rightarrow> nickel_value \<Rightarrow> nickel_value \<Rightarrow> op_result" where
  "op_deserialize host vm v1 v2 = tag_fn2 vm ENUM_FORMAT (\<lambda>tag s.
     if export_format_of tag = None then None
     else Some
       (case host_deserialize host tag s of
          Inl err \<Rightarrow> op_err vm (DeserializationError err)
        | Inr v \<Rightarrow> op_value vm v)) v1 v2"

section \<open>Labels\<close>

definition op_label_go_field :: "vm \<Rightarrow> nickel_value \<Rightarrow> nickel_value \<Rightarrow> op_result" where
  "op_label_go_field vm v1 v2 =
    (case as_string v1 of
       None \<Rightarrow> nary_type_error vm ''String'' 1 v1
     | Some fld \<Rightarrow>
        (case as_label v2 of
           None \<Rightarrow> nary_type_error vm ''Label'' 2 v2
         | Some l \<Rightarrow> op_value vm (LabelV (label_push_path (PathField fld) l))))"

definition op_label_with :: "vm \<Rightarrow> (string \<Rightarrow> label \<Rightarrow> label) \<Rightarrow> nickel_value \<Rightarrow> nickel_value \<Rightarrow> op_result" where
  "op_label_with vm f v1 v2 =
    (case as_string v1 of
       None \<Rightarrow> nary_type_error vm ''String'' 1 v1
     | Some s \<Rightarrow>
        (case as_label v2 of
           None \<Rightarrow> nary_type_error vm ''Label'' 2 v2
         | Some l \<Rightarrow> op_value vm (LabelV (f s l))))"

text \<open>The strings of an array, or the first element that is not one.\<close>

definition collect_strings :: "string \<Rightarrow> nickel_value list \<Rightarrow> eval_error + string list" where
  "collect_strings expected vs =
    collect_results (map (\<lambda>v. case as_string v of Some s \<Rightarrow> Inr s | None \<Rightarrow> Inl (NAryPrimopTypeError expected 1 v)) vs)"

definition op_label_with_notes :: "vm \<Rightarrow> nickel_value \<Rightarrow> env \<Rightarrow> nickel_value \<Rightarrow> op_result" where
  "op_label_with_notes vm v1 env1 v2 = do {
     v1_subst \<leftarrow> subst (vm_heap vm) v1 Map.empty env1;
     case as_array v1_subst of
       None \<Rightarrow> nary_type_error vm ''Array'' 1 v1
     | Some cont \<Rightarrow>
        (case as_label v2 of
           None \<Rightarrow> nary_type_error vm ''Label'' 2 v2
         | Some l \<Rightarrow>
            (case collect_strings ''String'' (array_elems cont) of
               Inl err \<Rightarrow> op_err vm err
             | Inr notes \<Rightarrow> op_value vm (LabelV (set_diagnostic_notes notes l)))) }"

definition record_item :: "nrecord \<Rightarrow> ident \<Rightarrow> (nickel_value \<Rightarrow> 'a option) \<Rightarrow> 'a option" where
  "record_item r x f = do { fld \<leftarrow> map_of (record_fields r) x; v \<leftarrow> field_value fld; f v }"

text \<open>The error data of a contract: a label to blame instead, a message and notes.\<close>

definition attach_error_data :: "nrecord \<Rightarrow> label \<Rightarrow> eval_error + label" where
  "attach_error_data r l =
    (let l1 = (case record_item r ''blame_location'' as_label of Some user_label \<Rightarrow> user_label | None \<Rightarrow> l);
         l2 = (case record_item r ''message'' as_string of Some msg \<Rightarrow> set_diagnostic_message msg l1 | None \<Rightarrow> l1)
     in case record_item r ''notes'' (\<lambda>v. Option.bind (as_array v) into_opt) of
          None \<Rightarrow> Inr l2
        | Some d \<Rightarrow>
           (case collect_strings ''String (notes)'' (fst d) of
              Inl err \<Rightarrow> Inl err
            | Inr notes \<Rightarrow> Inr (set_diagnostic_notes notes l2)))"

definition op_label_with_error_data :: "vm \<Rightarrow> nickel_value \<Rightarrow> env \<Rightarrow> nickel_value \<Rightarrow> op_result" where
  "op_label_with_error_data vm v1 env1 v2 = do {
     v1_subst \<leftarrow> subst (vm_heap vm) v1 (vm_initial_env vm) env1;
     case as_label v2 of
       None \<Rightarrow> nary_type_error vm ''Label'' 2 v2
     | Some l \<Rightarrow>
        (case as_record v1_subst of
           Some Empty \<Rightarrow> op_value vm (LabelV l)
         | Some (Alloc r) \<Rightarrow>
            (case attach_error_data r l of
               Inl err \<Rightarrow> op_err vm err
             | Inr l' \<Rightarrow> op_value vm (LabelV l'))
         | None \<Rightarrow> nary_type_error vm ''Record'' 1 v1_subst) }"

definition op_label_lookup_type_var :: "vm \<Rightarrow> nickel_value \<Rightarrow> nickel_value \<Rightarrow> op_result" where
  "op_label_lookup_type_var vm v1 v2 =
    (case as_sealing_key v1 of
       None \<Rightarrow> nary_type_error vm ''SealingKey'' 1 v1
     | Some key \<Rightarrow>
        (case as_label v2 of
           None \<Rightarrow> nary_type_error vm ''Label'' 2 v2
         | Some l \<Rightarrow> do {
             p \<leftarrow> map_of (rev (label_type_environment l)) key;
             op_value vm (type_var_data_value p) }))"

section \<open>Sealing\<close>

definition op_seal :: "vm \<Rightarrow> nickel_value \<Rightarrow> nickel_value \<Rightarrow> op_result" where
  "op_seal vm v1 v2 =
    (case as_sealing_key v1 of
       None \<Rightarrow> nary_type_error vm ''SealingKey'' 1 v1
     | Some key \<Rightarrow>
        (case as_label v2 of
           None \<Rightarrow> nary_type_error vm ''Label'' 2 v2
         | Some l \<Rightarrow> op_value vm (TermV (Fun ''x'' (TermV (Sealed key (TermV (Var ''x'')) l))))))"

text \<open>
  \<open>Unseal\<close> returns a constant function, which drops the expression raising blame on the stack, when the
  keys match, and the identity, which goes on with it, otherwise.
\<close>

definition op_unseal :: "vm \<Rightarrow> nickel_value \<Rightarrow> nickel_value \<Rightarrow> env \<Rightarrow> op_result" where
  "op_unseal vm v1 v2 env2 =
    (case as_sealing_key v1 of
       None \<Rightarrow> nary_type_error vm ''SealingKey'' 1 v1
     | Some key \<Rightarrow>
        (case v2 of
           TermV (Sealed key' inner l) \<Rightarrow>
             if key = key' then
               (let (x, vm') = fresh_ident vm in op_ok vm' (TermV (Fun x inner)) env2)
             else op_value vm id_fun
         | _ \<Rightarrow> op_value vm id_fun))"

section \<open>Records\<close>

definition op_record_get :: "vm \<Rightarrow> nickel_value \<Rightarrow> nickel_value \<Rightarrow> env \<Rightarrow> op_result" where
  "op_record_get vm v1 v2 env2 =
    (case as_string v1 of
       None \<Rightarrow> nary_type_error vm ''String'' 1 v1
     | Some x \<Rightarrow>
        (case as_record v2 of
           None \<Rightarrow> op_err vm (TypeError ''Record'' v2)
         | Some Empty \<Rightarrow> op_err vm (FieldMissing x [])
         | Some (Alloc r) \<Rightarrow>
            (case get_value_with_ctrs r x of
               Inl err \<Rightarrow> op_err vm (missing_def err)
             | Inr (Some w) \<Rightarrow> op_ok vm w env2
             | Inr None \<Rightarrow>
                (case record_sealed_tail r of
                   Some t \<Rightarrow>
                     if tail_has_dyn_field t x then illegal_tail_access vm (TailFieldAccess x) (tail_label t)
                     else op_err vm (FieldMissing x (field_names r IgnoreEmptyOpt))
                 | None \<Rightarrow> op_err vm (FieldMissing x (field_names r IgnoreEmptyOpt))))))"

text \<open>The record to be changed: an inline empty record is allocated first.\<close>

definition as_record_mut :: "nickel_value \<Rightarrow> nrecord option" where
  "as_record_mut v =
    (case (if is_inline_empty_record v then empty_record_block else v) of
       RecordV (Alloc r) \<Rightarrow> Some r
     | _ \<Rightarrow> None)"

definition op_record_insert ::
    "sizes \<Rightarrow> vm \<Rightarrow> nickel_value shared_metadata \<Rightarrow> contract list \<Rightarrow> record_ext_kind \<Rightarrow> record_op_kind \<Rightarrow>
     nickel_value \<Rightarrow> nickel_value \<Rightarrow> env \<Rightarrow> op_result" where
  "op_record_insert sz vm metadata pending ext_kind op_kind v1 v2 env2 =
    (case as_string v1 of
       None \<Rightarrow> nary_type_error vm ''String'' 1 v1
     | Some x \<Rightarrow>
        (case as_record_mut v2 of
           None \<Rightarrow> nary_type_error vm ''Record'' 2 v2
         | Some r \<Rightarrow>
            (let insert = (\<lambda>vm v.
               if (case map_of (record_fields r) x of
                     Some t \<Rightarrow> op_kind = ConsiderAllFields \<or> \<not> is_empty_optional t
                   | None \<Rightarrow> False)
               then op_err vm (OtherError (''tried to extend a record with the field '' @ x @ '', but it already exists''))
               else op_ok vm (RecordV (Alloc (RecordData (im_insert x (Field v metadata pending) (record_fields r))
                 (record_attributes r) (record_sealed_tail r)))) env2)
             in case ext_kind of
                  WithValue \<Rightarrow> arg_or_error sz vm 3 (\<lambda>vm c. do {
                    (v, h) \<leftarrow> closurize (vm_heap vm) (clo_value c) (clo_env c);
                    insert (vm\<lparr>vm_heap := h\<rparr>) (Some v) })
                | WithoutValue \<Rightarrow> insert vm None)))"

definition op_record_remove :: "host \<Rightarrow> vm \<Rightarrow> record_op_kind \<Rightarrow> nickel_value \<Rightarrow> nickel_value \<Rightarrow> env \<Rightarrow> op_result" where
  "op_record_remove host vm op_kind v1 v2 env2 =
    (case as_string v1 of
       None \<Rightarrow> nary_type_error vm ''String'' 1 v1
     | Some x \<Rightarrow>
        (case as_record_mut v2 of
           None \<Rightarrow> nary_type_error vm ''Record'' 2 v2
         | Some r \<Rightarrow>
            (let (fetched, flds) = host_swap_remove host x (record_fields r);
                 r' = RecordData flds (record_attributes r) (record_sealed_tail r)
             in if (case fetched of
                      None \<Rightarrow> True
                    | Some fld \<Rightarrow> op_kind = IgnoreEmptyOpt \<and> field_value fld = None \<and> shared_opt (field_metadata fld))
                then
                  (case record_sealed_tail r of
                     Some t \<Rightarrow>
                       if tail_has_dyn_field t x then illegal_tail_access vm (TailFieldRemove x) (tail_label t)
                       else op_err vm (FieldMissing x (field_names r' op_kind))
                   | None \<Rightarrow> op_err vm (FieldMissing x (field_names r' op_kind)))
                else op_ok vm (RecordV (Alloc r')) env2)))"

text \<open>\<open>RecordHasField\<close> and \<open>RecordFieldIsDefined\<close>, which also asks for a value.\<close>

definition op_record_test :: "vm \<Rightarrow> (nfield \<Rightarrow> bool) \<Rightarrow> record_op_kind \<Rightarrow> nickel_value \<Rightarrow> nickel_value \<Rightarrow> op_result" where
  "op_record_test vm P op_kind v1 v2 =
    (case as_string v1 of
       None \<Rightarrow> nary_type_error vm ''String'' 1 v1
     | Some x \<Rightarrow>
        (case as_record v2 of
           None \<Rightarrow> nary_type_error vm ''Record'' 2 v2
         | Some cont \<Rightarrow> op_value vm (Bool
            (case container_get cont x of
               Some fld \<Rightarrow> P fld \<and> (op_kind = ConsiderAllFields \<or> \<not> is_empty_optional fld)
             | None \<Rightarrow> False))))"

definition op_record_has_field :: "vm \<Rightarrow> record_op_kind \<Rightarrow> nickel_value \<Rightarrow> nickel_value \<Rightarrow> op_result" where
  "op_record_has_field vm op_kind v1 v2 = op_record_test vm (\<lambda>_. True) op_kind v1 v2"

definition op_record_field_is_defined :: "vm \<Rightarrow> record_op_kind \<Rightarrow> nickel_value \<Rightarrow> nickel_value \<Rightarrow> op_result" where
  "op_record_field_is_defined vm op_kind v1 v2 = op_record_test vm (\<lambda>fld. field_value fld \<noteq> None) op_kind v1 v2"

definition container_part :: "nrecord container \<Rightarrow> (ident, nfield) index_map \<Rightarrow> nickel_value" where
  "container_part c flds = record_posless
    (RecordData flds (case c of Empty \<Rightarrow> attrs_new | Alloc r \<Rightarrow> record_attributes r)
      (case c of Empty \<Rightarrow> None | Alloc r \<Rightarrow> record_sealed_tail r))"

definition op_record_split_pair :: "host \<Rightarrow> vm \<Rightarrow> nickel_value \<Rightarrow> nickel_value \<Rightarrow> op_result" where
  "op_record_split_pair host vm v1 v2 =
    (case as_record v1 of
       None \<Rightarrow> nary_type_error vm ''Record'' 1 v1
     | Some cont1 \<Rightarrow>
        (case as_record v2 of
           None \<Rightarrow> nary_type_error vm ''Record'' 2 v2
         | Some cont2 \<Rightarrow>
            (let s = split_ref (host_swap_remove host) (container_fields cont1) (container_fields cont2);
                 center1 = im_from_iter (map (\<lambda>(x, l, _). (x, l)) (split_center s));
                 center2 = im_from_iter (map (\<lambda>(x, _, r). (x, r)) (split_center s))
             in op_value vm (closurize_container (record_value (RecordData
                  [(''left_only'', field_of_value (container_part cont1 (split_left s))),
                   (''left_center'', field_of_value (record_posless (RecordData center1 attrs_new None))),
                   (''right_center'', field_of_value (record_posless (RecordData center2 attrs_new None))),
                   (''right_only'', field_of_value (container_part cont2 (split_right s)))]
                  attrs_new None))))))"

definition op_record_disjoint_merge :: "vm \<Rightarrow> nickel_value \<Rightarrow> env \<Rightarrow> nickel_value \<Rightarrow> env \<Rightarrow> op_result" where
  "op_record_disjoint_merge vm v1 env1 v2 env2 =
    (case as_record v1 of
       None \<Rightarrow> nary_type_error vm ''Record'' 1 v1
     | Some cont1 \<Rightarrow>
        (case as_record v2 of
           None \<Rightarrow> nary_type_error vm ''Record'' 2 v2
         | Some cont2 \<Rightarrow>
            (case (cont1, cont2) of
               (Alloc r1, Alloc r2) \<Rightarrow>
                 (case (record_sealed_tail r1, record_sealed_tail r2) of
                    (Some t1, Some _) \<Rightarrow> illegal_tail_access vm TailMerge (tail_label t1)
                  | (t1, t2) \<Rightarrow> op_value vm (record_value (RecordData
                      (im_extend (im_extend [] (record_fields r1)) (record_fields r2))
                      (attrs_combine (record_attributes r1) (record_attributes r2)) (option_or t1 t2))))
             | (Empty, _) \<Rightarrow> op_ok vm v2 env2
             | (_, Empty) \<Rightarrow> op_ok vm v1 env1)))"

section \<open>Arrays\<close>

definition array_concat ::
    "host \<Rightarrow> vm \<Rightarrow> nickel_value list \<times> contract list \<Rightarrow> env \<Rightarrow> nickel_value list \<times> contract list \<Rightarrow> env \<Rightarrow> op_result" where
  "array_concat host vm d1 env1 d2 env2 =
    (if length (snd d1) = length (snd d2)
        \<and> list_all (\<lambda>(c1, c2). \<not> can_have_poly_ctrs (ctr_label c1)
            \<and> contracts_equal host (vm_heap vm) (ctr_contract c1) env1 (ctr_contract c2) env2) (zip (snd d1) (snd d2))
     then op_value vm (array_value (fst d1 @ fst d2) (snd d1))
     else do {
       (vs1, h1) \<leftarrow> closurize_all (vm_heap vm) (iter_with_pending_contracts d1) env1;
       (vs2, h2) \<leftarrow> closurize_all h1 (iter_with_pending_contracts d2) env2;
       op_value (vm\<lparr>vm_heap := h2\<rparr>) (array_value (vs1 @ vs2) []) })"

definition op_array_concat :: "host \<Rightarrow> vm \<Rightarrow> nickel_value \<Rightarrow> env \<Rightarrow> nickel_value \<Rightarrow> env \<Rightarrow> op_result" where
  "op_array_concat host vm v1 env1 v2 env2 =
    (case as_array v1 of
       None \<Rightarrow> nary_type_error vm ''Array'' 1 v1
     | Some cont1 \<Rightarrow>
        (case as_array v2 of
           None \<Rightarrow> nary_type_error vm ''Array'' 2 v2
         | Some cont2 \<Rightarrow>
            (case (cont1, cont2) of
               (Empty, _) \<Rightarrow> op_value vm v2
             | (_, Empty) \<Rightarrow> op_value vm v1
             | (Alloc d1, Alloc d2) \<Rightarrow> array_concat host vm d1 env1 d2 env2)))"

definition op_array_at :: "vm \<Rightarrow> nickel_value \<Rightarrow> env \<Rightarrow> nickel_value \<Rightarrow> op_result" where
  "op_array_at vm v1 env1 v2 =
    (case as_array v1 of
       None \<Rightarrow> nary_type_error vm ''Array'' 1 v1
     | Some cont \<Rightarrow>
        (case as_number v2 of
           None \<Rightarrow> nary_type_error vm ''Number'' 2 v2
         | Some n \<Rightarrow>
            (case usize_try_from n of
               None \<Rightarrow> op_err vm (OtherError ''array/at expects its second argument to be a positive integer smaller than usize::MAX'')
             | Some i \<Rightarrow>
                (case cont of
                   Empty \<Rightarrow> op_err vm (OtherError ''array/at: index out of bounds. Cannot index into an empty array.'')
                 | Alloc d \<Rightarrow>
                     if length (fst d) \<le> i then op_err vm (OtherError ''array/at: index out of bounds'')
                     else op_ok vm (contract_apply_all (fst d ! i) (snd d)) env1))))"

section \<open>Contracts\<close>

text \<open>
  Contract application. A static type goes on with its generated contract. Otherwise the value is
  popped and recorded in the label, the post-processing is pushed below the value and the label, and
  the contract is converted to something that applies to them.
\<close>

definition is_apply :: "plain_binary_op \<Rightarrow> bool" where
  "is_apply op \<longleftrightarrow> op = ContractApply"

definition contract_frames :: "sizes \<Rightarrow> plain_binary_op \<Rightarrow> nickel_value \<Rightarrow> nickel_value \<Rightarrow> bytes \<Rightarrow> bytes" where
  "contract_frames sz op v1 new_label st =
    (let st1 =
       (if (case v1 of CustomContract _ \<Rightarrow> True | RecordV _ \<Rightarrow> True | _ \<Rightarrow> False) \<and> is_apply op
        then stack_push sz (Op1ContItem ContractPostprocessResult no_app_info 0)
          (push_arg sz (closure_of_value new_label) 0 st)
        else st)
     in if \<not> is_apply op
        then stack_push sz (Op1ContItem ContractAttachDefaultLabel no_app_info 0)
          (push_arg sz (closure_of_value new_label) 0 st1)
        else st1)"

definition functoid :: "sizes \<Rightarrow> vm \<Rightarrow> plain_binary_op \<Rightarrow> nickel_value \<Rightarrow> env \<Rightarrow> op_result" where
  "functoid sz vm op v1 env1 =
    (let c1 = \<lparr>clo_value = v1, clo_env = env1\<rparr>;
         apply_to = (\<lambda>f. op_value (vm\<lparr>vm_stack := push_arg sz c1 0 (vm_stack vm)\<rparr>) (TermV (Var f)))
     in case v1 of
       TermV (Fun _ _) \<Rightarrow> if is_apply op then Some (Inr c1, vm) else apply_to ''$naked_to_custom''
     | CustomContract ctr \<Rightarrow> op_ok vm ctr env1
     | RecordV _ \<Rightarrow> apply_to ''$record_contract''
     | _ \<Rightarrow> nary_type_error vm ''Contract'' 1 v1)"

definition op_contract_apply ::
    "sizes \<Rightarrow> vm \<Rightarrow> plain_binary_op \<Rightarrow> nickel_value \<Rightarrow> env \<Rightarrow> nickel_value \<Rightarrow> env \<Rightarrow> op_result" where
  "op_contract_apply sz vm op v1 env1 v2 env2 =
    (case v1 of
       TypeV _ contract \<Rightarrow>
         op_ok (vm\<lparr>vm_stack := stack_push sz
           (Op2FirstContItem (BinOp op) no_app_info \<lparr>clo_value = v2, clo_env = env2\<rparr> 0) (vm_stack vm)\<rparr>) contract env1
     | _ \<Rightarrow>
        (case as_label v2 of
           None \<Rightarrow> nary_type_error vm ''Label'' 2 v2
         | Some l \<Rightarrow> do {
             (r, st, h) \<leftarrow> pop_arg_as_idx sz (vm_heap vm) (vm_stack vm);
             case r of
               None \<Rightarrow> op_err (vm\<lparr>vm_stack := st, vm_heap := h\<rparr>) (NotEnoughArgs 3)
             | Some (a, pos) \<Rightarrow> do {
                 _ \<leftarrow> cache_get_then h a clo_value;
                 let new_label = LabelV (l\<lparr>label_arg_idx := Some a\<rparr>);
                 let st' = push_arg sz (closure_of_value new_label) 0
                   (push_tracked_arg sz a pos (contract_frames sz op v1 new_label st));
                 functoid sz (vm\<lparr>vm_stack := st', vm_heap := h\<rparr>) op v1 env1 } }))"

text \<open>The array or record to be changed by a lazy contract.\<close>

definition as_array_mut :: "nickel_value \<Rightarrow> (nickel_value list \<times> contract list) option" where
  "as_array_mut v =
    (case (if is_inline_empty_array v then empty_array_block else v) of
       ArrayV (Alloc d) \<Rightarrow> Some d
     | _ \<Rightarrow> None)"

definition op_contract_array_lazy_app :: "host \<Rightarrow> sizes \<Rightarrow> vm \<Rightarrow> nickel_value \<Rightarrow> nickel_value \<Rightarrow> env \<Rightarrow> op_result" where
  "op_contract_array_lazy_app host sz vm v1 v2 env2 = arg_or_error sz vm 3 (\<lambda>vm ctr.
     case as_label v1 of
       None \<Rightarrow> nary_type_error vm ''Label'' 1 v1
     | Some l \<Rightarrow>
        (case as_array_mut v2 of
           None \<Rightarrow> nary_type_error vm ''Array'' 2 v2
         | Some d \<Rightarrow> do {
             (contract, h) \<leftarrow> closurize (vm_heap vm) (clo_value ctr) (clo_env ctr);
             let pending = push_dedup (contracts_equal host h) (snd d) env2 (RuntimeContract contract l) Map.empty;
             op_ok (vm\<lparr>vm_heap := h\<rparr>) (ArrayV (Alloc (fst d, pending))) env2 }))"

definition lazy_app_field ::
    "host \<Rightarrow> closure \<Rightarrow> label \<Rightarrow> env \<Rightarrow> heap \<Rightarrow> ident \<times> nfield \<Rightarrow> ((ident \<times> nfield) \<times> heap) panics" where
  "lazy_app_field host ctr l env2 h xf = do {
     (contract, h') \<leftarrow> closurize h (TermV (App (clo_value ctr) (String (fst xf)))) (clo_env ctr);
     Some ((fst xf, Field (field_value (snd xf)) (field_metadata (snd xf))
       (push_dedup (contracts_equal host h') (field_pending_contracts (snd xf)) env2
         (RuntimeContract contract l) (clo_env ctr))), h') }"

definition op_contract_record_lazy_app :: "host \<Rightarrow> sizes \<Rightarrow> vm \<Rightarrow> nickel_value \<Rightarrow> nickel_value \<Rightarrow> env \<Rightarrow> op_result" where
  "op_contract_record_lazy_app host sz vm v1 v2 env2 = arg_or_error sz vm 3 (\<lambda>vm ctr.
     case as_label v1 of
       None \<Rightarrow> nary_type_error vm ''Label'' 1 v1
     | Some l \<Rightarrow>
        (case as_record v2 of
           None \<Rightarrow> nary_type_error vm ''Record'' 2 v2
         | Some Empty \<Rightarrow> op_value vm (RecordV Empty)
         | Some (Alloc r) \<Rightarrow> do {
             (flds, h1) \<leftarrow> map_heap (lazy_app_field host ctr l env2) (vm_heap vm) (record_fields r);
             (reverted, h2) \<leftarrow> fixpoint_revert h1
               (RecordData flds ((record_attributes r)\<lparr>attrs_frozen := False\<rparr>) (record_sealed_tail r));
             op_value (vm\<lparr>vm_heap := h2\<rparr>) (TermV reverted) }))"

definition op_merge :: "host \<Rightarrow> vm \<Rightarrow> merge_mode \<Rightarrow> nickel_value \<Rightarrow> env \<Rightarrow> nickel_value \<Rightarrow> env \<Rightarrow> op_result" where
  "op_merge host vm mode v1 env1 v2 env2 = do {
     (r, h) \<leftarrow> merge (host_swap_remove host) (contracts_equal host) (types_equal host (vm_heap vm))
       (vm_heap vm) v1 env1 v2 env2 mode;
     Some (map_sum MergeFailed id r, vm\<lparr>vm_heap := h\<rparr>) }"

section \<open>The dispatch\<close>

definition eval_op2 :: "host \<Rightarrow> sizes \<Rightarrow> vm \<Rightarrow> nickel_value binary_op \<Rightarrow> closure \<Rightarrow> closure \<Rightarrow> op_result" where
  "eval_op2 host sz vm op arg1 arg2 =
    (let v1 = clo_value arg1; env1 = clo_env arg1; v2 = clo_value arg2; env2 = clo_env arg2
     in case op of
       RecordInsert metadata pending ext_kind op_kind \<Rightarrow>
         op_record_insert sz vm metadata pending ext_kind op_kind v1 v2 env2
     | BinOp op \<Rightarrow>
        (case op of
           Seal \<Rightarrow> op_seal vm v1 v2
         | Plus \<Rightarrow> number_op2 vm (+) v1 v2
         | Sub \<Rightarrow> number_op2 vm (-) v1 v2
         | Mult \<Rightarrow> number_op2 vm (*) v1 v2
         | Div \<Rightarrow> op_div vm v1 v2
         | Modulo \<Rightarrow> op_modulo vm v1 v2
         | NumberArcTan2 \<Rightarrow> op_arctan2 host vm v1 v2
         | NumberLog \<Rightarrow> op_log host vm v1 v2
         | Pow \<Rightarrow> op_pow host vm v1 v2
         | StringConcat \<Rightarrow> op_string_concat vm v1 v2
         | ContractApply \<Rightarrow> op_contract_apply sz vm op v1 env1 v2 env2
         | ContractCheck \<Rightarrow> op_contract_apply sz vm op v1 env1 v2 env2
         | LabelWithErrorData \<Rightarrow> op_label_with_error_data vm v1 env1 v2
         | Unseal \<Rightarrow> op_unseal vm v1 v2 env2
         | Eq \<Rightarrow> op_eq host sz vm arg1 arg2
         | LessThan \<Rightarrow> number_cmp2 vm (<) v1 v2
         | LessOrEq \<Rightarrow> number_cmp2 vm (\<le>) v1 v2
         | GreaterThan \<Rightarrow> number_cmp2 vm (>) v1 v2
         | GreaterOrEq \<Rightarrow> number_cmp2 vm (\<ge>) v1 v2
         | LabelGoField \<Rightarrow> op_label_go_field vm v1 v2
         | RecordGet \<Rightarrow> op_record_get vm v1 v2 env2
         | RecordRemove op_kind \<Rightarrow> op_record_remove host vm op_kind v1 v2 env2
         | RecordHasField op_kind \<Rightarrow> op_record_has_field vm op_kind v1 v2
         | RecordFieldIsDefined op_kind \<Rightarrow> op_record_field_is_defined vm op_kind v1 v2
         | ArrayConcat \<Rightarrow> op_array_concat host vm v1 env1 v2 env2
         | ArrayAt \<Rightarrow> op_array_at vm v1 env1 v2
         | Merge merge_label \<Rightarrow> op_merge host vm (StandardMode merge_label) v1 env1 v2 env2
         | Hash \<Rightarrow> op_hash host vm v1 v2
         | Serialize \<Rightarrow> op_serialize host vm v1 v2 env2
         | Deserialize \<Rightarrow> op_deserialize host vm v1 v2
         | StringSplit \<Rightarrow> op_string_split host vm v1 v2
         | StringContains \<Rightarrow> op_string_contains host vm v1 v2
         | StringCompare \<Rightarrow> op_string_compare vm v1 v2
         | StringBase64Encode \<Rightarrow> op_base64_encode host vm v1 v2
         | StringBase64Decode \<Rightarrow> op_base64_decode host vm v1 v2
         | ContractArrayLazyApp \<Rightarrow> op_contract_array_lazy_app host sz vm v1 v2 env2
         | ContractRecordLazyApp \<Rightarrow> op_contract_record_lazy_app host sz vm v1 v2 env2
         | LabelWithMessage \<Rightarrow> op_label_with vm set_diagnostic_message v1 v2
         | LabelWithNotes \<Rightarrow> op_label_with_notes vm v1 env1 v2
         | LabelAppendNote \<Rightarrow> op_label_with vm append_diagnostic_note v1 v2
         | LabelLookupTypeVar \<Rightarrow> op_label_lookup_type_var vm v1 v2
         | RecordSplitPair \<Rightarrow> op_record_split_pair host vm v1 v2
         | RecordDisjointMerge \<Rightarrow> op_record_disjoint_merge vm v1 env1 v2 env2))"

end
