(* ===== verification/Primop_Nary.thy ===== *)
theory Primop_Nary
  imports Primop_Binary
begin

text \<open>
  The n-ary primitive operations, \<open>eval_opn\<close>, the continuation of an operation whose next argument
  has been evaluated, \<open>continue_op\<close>, of \<open>core/src/eval/operation.rs\<close>, and the whole evaluation loop
  that alternates \<open>eval_step\<close> with it.
\<close>

section \<open>N-ary operations\<close>

definition op_string_replace :: "host \<Rightarrow> vm \<Rightarrow> nary_op \<Rightarrow> nickel_value \<Rightarrow> nickel_value \<Rightarrow> nickel_value \<Rightarrow> op_result" where
  "op_string_replace host vm op v1 v2 v3 =
    (case as_string v1 of
       None \<Rightarrow> nary_type_error vm ''String'' 1 v1
     | Some s \<Rightarrow>
        (case as_string v2 of
           None \<Rightarrow> nary_type_error vm ''String'' 2 v2
         | Some from \<Rightarrow>
            (case as_string v3 of
               None \<Rightarrow> nary_type_error vm ''String'' 3 v3
             | Some to \<Rightarrow>
                 if op = StringReplace then do {
                   r \<leftarrow> string_replace (host_segmenter host) s from to;
                   op_value vm (String r) }
                 else
                   (case host_regex_new host from of
                      Some err \<Rightarrow> op_err vm (OtherError err)
                    | None \<Rightarrow> op_value vm (String (replace_regex (host_segmenter host) (host_find_iter host from) s to))))))"

definition op_string_substr :: "host \<Rightarrow> vm \<Rightarrow> nickel_value \<Rightarrow> nickel_value \<Rightarrow> nickel_value \<Rightarrow> op_result" where
  "op_string_substr host vm v1 v2 v3 =
    (case as_string v1 of
       None \<Rightarrow> nary_type_error vm ''String'' 1 v1
     | Some s \<Rightarrow>
        (case as_number v2 of
           None \<Rightarrow> nary_type_error vm ''Number'' 2 v2
         | Some start \<Rightarrow>
            (case as_number v3 of
               None \<Rightarrow> nary_type_error vm ''Number'' 3 v3
             | Some stop \<Rightarrow>
                (case substring (host_segmenter host) s start stop of
                   Inl _ \<Rightarrow> op_err vm (OtherError ''substring'')
                 | Inr substr \<Rightarrow> op_value vm (String substr)))))"

definition op_merge_contract :: "host \<Rightarrow> vm \<Rightarrow> nickel_value \<Rightarrow> closure \<Rightarrow> closure \<Rightarrow> op_result" where
  "op_merge_contract host vm v1 c2 c3 =
    (case as_label v1 of
       None \<Rightarrow> op_err vm (InternalError ''The merge_contract operator was expecting a first argument of type Label'')
     | Some l \<Rightarrow> op_merge host vm (ContractMode l) (clo_value c2) (clo_env c2) (clo_value c3) (clo_env c3))"

definition op_record_seal_tail ::
    "vm \<Rightarrow> nickel_value \<Rightarrow> nickel_value \<Rightarrow> closure \<Rightarrow> closure \<Rightarrow> op_result" where
  "op_record_seal_tail vm v1 v2 c3 c4 =
    (case as_sealing_key v1 of
       None \<Rightarrow> nary_type_error vm ''SealingKey'' 1 v1
     | Some s \<Rightarrow>
        (case as_label v2 of
           None \<Rightarrow> nary_type_error vm ''Label'' 2 v2
         | Some l \<Rightarrow>
            (case as_record_mut (clo_value c3) of
               None \<Rightarrow> nary_type_error vm ''Record'' 3 (clo_value c3)
             | Some r \<Rightarrow>
                (case as_record (clo_value c4) of
                   None \<Rightarrow> nary_type_error vm ''Record'' 4 (clo_value c4)
                 | Some tail \<Rightarrow> do {
                     (tail_closurized, h) \<leftarrow> closurize (vm_heap vm) (clo_value c4) (clo_env c4);
                     op_ok (vm\<lparr>vm_heap := h\<rparr>) (RecordV (Alloc (RecordData (record_fields r) (record_attributes r)
                       (Some (SealedTail s l tail_closurized (map fst (container_fields tail))))))) (clo_env c3) }))))"

definition op_record_unseal_tail :: "vm \<Rightarrow> nickel_value \<Rightarrow> nickel_value \<Rightarrow> closure \<Rightarrow> op_result" where
  "op_record_unseal_tail vm v1 v2 c3 =
    (case as_sealing_key v1 of
       None \<Rightarrow> nary_type_error vm ''SealingKey'' 1 v1
     | Some s \<Rightarrow>
        (case as_label v2 of
           None \<Rightarrow> nary_type_error vm ''Label'' 2 v2
         | Some l \<Rightarrow>
            (case as_record (clo_value c3) of
               None \<Rightarrow> nary_type_error vm ''Record'' 3 (clo_value c3)
             | Some cont \<Rightarrow>
                (case do { r \<leftarrow> into_opt cont; t \<leftarrow> record_sealed_tail r; tail_unseal t s } of
                   Some tail \<Rightarrow> op_ok vm tail (clo_env c3)
                 | None \<Rightarrow> do {
                     arg \<leftarrow> get_evaluated_arg (vm_heap vm) l;
                     op_err vm (BlameError l arg) }))))"

definition op_label_insert_type_var :: "vm \<Rightarrow> nickel_value \<Rightarrow> nickel_value \<Rightarrow> nickel_value \<Rightarrow> op_result" where
  "op_label_insert_type_var vm v1 v2 v3 =
    (case as_sealing_key v1 of
       None \<Rightarrow> nary_type_error vm ''SealingKey'' 1 v1
     | Some key \<Rightarrow>
        (case polarity_try_from v2 of
           None \<Rightarrow> nary_type_error vm ''Polarity'' 2 v2
         | Some p \<Rightarrow>
            (case as_label v3 of
               None \<Rightarrow> nary_type_error vm ''Label'' 3 v3
             | Some l \<Rightarrow> op_value vm (LabelV (l\<lparr>label_type_environment := label_type_environment l @ [(key, p)]\<rparr>)))))"

text \<open>The slice keeps the pending contracts and stays allocated, also when it is empty.\<close>

definition op_array_slice :: "vm \<Rightarrow> nickel_value \<Rightarrow> nickel_value \<Rightarrow> closure \<Rightarrow> op_result" where
  "op_array_slice vm v1 v2 c3 =
    (case as_number v1 of
       None \<Rightarrow> nary_type_error vm ''Number'' 1 v1
     | Some start \<Rightarrow>
        (case as_number v2 of
           None \<Rightarrow> nary_type_error vm ''Number'' 2 v2
         | Some stop \<Rightarrow>
            (case as_array_mut (clo_value c3) of
               None \<Rightarrow> nary_type_error vm ''Array'' 3 (clo_value c3)
             | Some d \<Rightarrow>
                (case usize_try_from start of
                   None \<Rightarrow> op_err vm (OtherError ''array/slice expects its first argument (start) to be a positive integer smaller than usize::MAX'')
                 | Some i \<Rightarrow>
                    (case usize_try_from stop of
                       None \<Rightarrow> op_err vm (OtherError ''array/slice expects its second argument (end) to be a positive integer smaller than usize::MAX'')
                     | Some j \<Rightarrow>
                         if j < i \<or> length (fst d) < j then op_err vm (OtherError ''array/slice: index out of bounds'')
                         else op_ok vm (ArrayV (Alloc (take (j - i) (drop i (fst d)), snd d))) (clo_env c3))))))"

text \<open>The parser ensures the number of arguments; another number is a panic.\<close>

definition eval_opn :: "host \<Rightarrow> vm \<Rightarrow> nary_op \<Rightarrow> closure list \<Rightarrow> op_result" where
  "eval_opn host vm op args =
    (case args of
       [c1, c2, c3] \<Rightarrow>
         (case op of
            StringReplace \<Rightarrow> op_string_replace host vm op (clo_value c1) (clo_value c2) (clo_value c3)
          | StringReplaceRegex \<Rightarrow> op_string_replace host vm op (clo_value c1) (clo_value c2) (clo_value c3)
          | StringSubstr \<Rightarrow> op_string_substr host vm (clo_value c1) (clo_value c2) (clo_value c3)
          | MergeContract \<Rightarrow> op_merge_contract host vm (clo_value c1) c2 c3
          | RecordUnsealTail \<Rightarrow> op_record_unseal_tail vm (clo_value c1) (clo_value c2) c3
          | LabelInsertTypeVar \<Rightarrow> op_label_insert_type_var vm (clo_value c1) (clo_value c2) (clo_value c3)
          | ArraySlice \<Rightarrow> op_array_slice vm (clo_value c1) (clo_value c2) c3
          | RecordSealTail \<Rightarrow> None)
     | [c1, c2, c3, c4] \<Rightarrow>
         if op = RecordSealTail then op_record_seal_tail vm (clo_value c1) (clo_value c2) c3 c4 else None
     | _ \<Rightarrow> None)"

section \<open>Continuing an operation\<close>

definition continue_op :: "host \<Rightarrow> sizes \<Rightarrow> vm \<Rightarrow> closure \<Rightarrow> op_result" where
  "continue_op host sz vm c = do {
     (r1, st1) \<leftarrow> pop_op1_cont sz (vm_stack vm);
     case r1 of
       Some (Op1ContItem op _ _) \<Rightarrow> eval_op1 host sz (vm\<lparr>vm_stack := st1\<rparr>) op c
     | Some _ \<Rightarrow> None
     | None \<Rightarrow> do {
         (r2, st2) \<leftarrow> pop_op2_first_cont sz st1;
         case r2 of
           Some (Op2FirstContItem op info arg2 pos1) \<Rightarrow>
             Some (Inr arg2, vm\<lparr>vm_stack := stack_push sz (Op2SecondContItem op info c pos1 0) st2\<rparr>)
         | Some _ \<Rightarrow> None
         | None \<Rightarrow> do {
             (r3, st3) \<leftarrow> pop_op2_second_cont sz st2;
             case r3 of
               Some (Op2SecondContItem op _ arg1 _ _) \<Rightarrow> eval_op2 host sz (vm\<lparr>vm_stack := st3\<rparr>) op arg1 c
             | Some _ \<Rightarrow> None
             | None \<Rightarrow> do {
                 (r4, st4) \<leftarrow> pop_opn_cont sz st3;
                 case r4 of
                   Some (OpNContItem op info evaluated pending pos) \<Rightarrow>
                     if pending \<noteq> [] then
                       Some (Inr (last pending), vm\<lparr>vm_stack := stack_push sz
                         (OpNContItem op info (evaluated @ [(c, pos)]) (butlast pending) 0) st4\<rparr>)
                     else eval_opn host (vm\<lparr>vm_stack := st4\<rparr>) op (map fst (evaluated @ [(c, pos)]))
                 | _ \<Rightarrow> None } } } }"

section \<open>The evaluation loop\<close>

text \<open>
  One iteration with the primitive operations: an error of an operation ends the loop, its closure is
  the next one.
\<close>

definition machine_step :: "host \<Rightarrow> sizes \<Rightarrow> vm \<Rightarrow> closure \<Rightarrow> (step_result \<times> vm) panics" where
  "machine_step host sz vm c = do {
     (r, vm') \<leftarrow> eval_step sz vm c;
     case r of
       CallOp c' \<Rightarrow> do {
         (res, vm'') \<leftarrow> continue_op host sz vm' c';
         Some (case res of Inl err \<Rightarrow> Finished (Inl err) | Inr c'' \<Rightarrow> Continue c'', vm'') }
     | _ \<Rightarrow> Some (r, vm') }"

fun machine_steps :: "host \<Rightarrow> sizes \<Rightarrow> nat \<Rightarrow> vm \<Rightarrow> closure \<Rightarrow> (step_result \<times> vm) panics" where
  "machine_steps host sz 0 vm c = Some (Continue c, vm)"
| "machine_steps host sz (Suc n) vm c = do {
     (r, vm') \<leftarrow> machine_step host sz vm c;
     case r of Continue c' \<Rightarrow> machine_steps host sz n vm' c' | _ \<Rightarrow> Some (r, vm') }"

end
