(* ===== verification/Machine_Runs.thy ===== *)
theory Machine_Runs
  imports Primop_Nary Machine_Inv Nickel_String_Props
begin

text \<open>
  Runs of the whole machine. \<open>runs\<close> relates two states of the loop when some number of iterations
  leads from the first to the second; the lemmas give the iterations that proofs about whole
  expressions compose: the arms that push a continuation, and the evaluation of an argument under a
  continuation on the typed stack.
\<close>

section \<open>Composition\<close>

definition runs :: "host \<Rightarrow> sizes \<Rightarrow> vm \<times> closure \<Rightarrow> vm \<times> closure \<Rightarrow> bool" where
  "runs host sz x y \<longleftrightarrow> (\<exists>n. machine_steps host sz n (fst x) (snd x) = Some (Continue (snd y), fst y))"

lemma machine_steps_add:
  "machine_steps host sz m vm c = Some (Continue c', vm') \<Longrightarrow>
   machine_steps host sz (m + n) vm c = machine_steps host sz n vm' c'"
proof (induction m arbitrary: vm c)
  case (Suc m)
  then obtain r vm1 where step: "machine_step host sz vm c = Some (r, vm1)" by (auto split: bind_splits)
  show ?case using Suc step by (cases r) auto
qed simp

lemma runs_refl [simp, intro]: "runs host sz x x"
  unfolding runs_def by (rule exI [of _ 0]) simp

lemma runs_trans: "runs host sz x y \<Longrightarrow> runs host sz y z \<Longrightarrow> runs host sz x z"
  unfolding runs_def using machine_steps_add by metis

lemma runs_step:
  assumes "machine_step host sz vm c = Some (Continue c', vm')" and "runs host sz (vm', c') z"
  shows "runs host sz (vm, c) z"
proof -
  obtain n where "machine_steps host sz n vm' c' = Some (Continue (snd z), fst z)" using assms(2) by (auto simp: runs_def)
  then have "machine_steps host sz (Suc n) vm c = Some (Continue (snd z), fst z)" using assms(1) by simp
  then show ?thesis unfolding runs_def by (metis fst_conv snd_conv)
qed

lemma runs_steps:
  "runs host sz (vm, c) (vm', c') \<Longrightarrow> \<exists>m. \<forall>n. machine_steps host sz (m + n) vm c = machine_steps host sz n vm' c'"
  unfolding runs_def using machine_steps_add by fastforce

section \<open>Single iterations\<close>

lemma machine_step_plain:
  "eval_step sz vm c = Some (Continue c', vm') \<Longrightarrow> machine_step host sz vm c = Some (Continue c', vm')"
  by (simp add: machine_step_def)

lemma machine_step_call:
  "eval_step sz vm c = Some (CallOp c', vm') \<Longrightarrow> machine_step host sz vm c =
    do { (res, vm'') \<leftarrow> continue_op host sz vm' c';
         Some (case res of Inl err \<Rightarrow> Finished (Inl err) | Inr c'' \<Rightarrow> Continue c'', vm'') }"
  by (simp add: machine_step_def)

lemma closure_eta [simp]: "\<lparr>clo_value = clo_value c, clo_env = clo_env c\<rparr> = c"
  by simp

lemma stack_push_bytes: "stack_push sz it (stack_bytes sz s) = stack_bytes sz (it # s)"
  by (simp add: stack_bytes.simps)

context item_sizes begin

lemma eval_step_op2:
  "vm_stack vm = stack_bytes sz s \<Longrightarrow>
   eval_step sz vm \<lparr>clo_value = TermV (Op2 op a1 a2), clo_env = e\<rparr> = Some (Continue \<lparr>clo_value = a1, clo_env = e\<rparr>,
     vm\<lparr>vm_stack := stack_bytes sz (Op2FirstContItem op no_app_info \<lparr>clo_value = a2, clo_env = e\<rparr> 0 # s)\<rparr>)"
  by (simp add: eval_step_def stack_bytes.simps)

lemma eval_step_op1:
  "vm_stack vm = stack_bytes sz s \<Longrightarrow>
   eval_step sz vm \<lparr>clo_value = TermV (Op1 op a), clo_env = e\<rparr> = Some (Continue \<lparr>clo_value = a, clo_env = e\<rparr>,
     vm\<lparr>vm_stack := stack_bytes sz (Op1ContItem op no_app_info 0 # s)\<rparr>)"
  by (simp add: eval_step_def stack_bytes.simps)

lemma eval_step_app:
  "vm_stack vm = stack_bytes sz s \<Longrightarrow>
   eval_step sz vm \<lparr>clo_value = TermV (App f a), clo_env = e\<rparr> = Some (Continue \<lparr>clo_value = f, clo_env = e\<rparr>,
     vm\<lparr>vm_stack := stack_bytes sz (ArgItem \<lparr>clo_value = a, clo_env = e\<rparr> 0 # s)\<rparr>)"
  by (simp add: eval_step_def push_arg_def stack_bytes.simps)

text \<open>A value under a continuation is handed to it.\<close>

lemma eval_step_value:
  assumes "vm_stack vm = stack_bytes sz (it # s)" and "is_cont (item_marker it)" and "is_whnf v"
  shows "eval_step sz vm \<lparr>clo_value = v, clo_env = e\<rparr> = Some (CallOp \<lparr>clo_value = v, clo_env = e\<rparr>, vm)"
proof -
  have "item_marker it \<noteq> MUpdateIndex" using assms(2) by (auto simp: is_cont_def)
  then have "eval_whnf sz vm \<lparr>clo_value = v, clo_env = e\<rparr> = Some (CallOp \<lparr>clo_value = v, clo_env = e\<rparr>, vm)"
    using assms(1,2) by (simp add: eval_whnf_def)
  then show ?thesis using assms(1,3) by (cases v) (auto simp: eval_step_def)
qed

lemma continue_op2_first:
  "vm_stack vm = stack_bytes sz (Op2FirstContItem op info arg2 pos # s) \<Longrightarrow>
   continue_op host sz vm c = Some (Inr arg2, vm\<lparr>vm_stack := stack_bytes sz (Op2SecondContItem op info c pos 0 # s)\<rparr>)"
  by (simp add: continue_op_def pop_op1_cont_def pop_op2_first_cont_def stack_pop_bytes) (simp add: stack_bytes.simps)

lemma continue_op2_second:
  "vm_stack vm = stack_bytes sz (Op2SecondContItem op info arg1 p1 p2 # s) \<Longrightarrow>
   continue_op host sz vm c = eval_op2 host sz (vm\<lparr>vm_stack := stack_bytes sz s\<rparr>) op arg1 c"
  by (simp add: continue_op_def pop_op1_cont_def pop_op2_first_cont_def pop_op2_second_cont_def stack_pop_bytes)

lemma continue_op1:
  "vm_stack vm = stack_bytes sz (Op1ContItem op info pos # s) \<Longrightarrow>
   continue_op host sz vm c = eval_op1 host sz (vm\<lparr>vm_stack := stack_bytes sz s\<rparr>) op c"
  by (simp add: continue_op_def pop_op1_cont_def stack_pop_bytes)

text \<open>The result of an operation, as an iteration of the machine.\<close>

lemma machine_step_op:
  assumes "eval_step sz vm c = Some (CallOp c', vm')" and "continue_op host sz vm' c' = Some (Inr c'', vm'')"
  shows "machine_step host sz vm c = Some (Continue c'', vm'')"
  using assms by (simp add: machine_step_def)

end


section \<open>An instance of the library functions\<close>

text \<open>
  The simplest functions with the types of \<open>host\<close>, at which the theorems that quantify over the
  library functions are applied: clusters of one byte, no regular expression, floating-point
  functions without a result.
\<close>

definition plain_host :: host where
  "plain_host = \<lparr>host_segmenter = ascii_segmenter, host_regex_new = (\<lambda>s. None), host_find_iter = (\<lambda>r s. []),
     host_captures_iter = (\<lambda>r s. []), host_trim = id, host_uppercase = id, host_lowercase = id,
     host_to_sci = (\<lambda>n. ''''), host_parse_number = (\<lambda>s. None), host_float1 = (\<lambda>op n. None),
     host_atan2 = (\<lambda>m n. None), host_log2 = (\<lambda>n. None), host_log10 = (\<lambda>n. None), host_log = (\<lambda>m n. None),
     host_powf = (\<lambda>m n. None), host_pow = (\<lambda>b n. if b = 0 \<and> n < 0 then None else Some (b powi n)),
     host_md5 = (\<lambda>s. []), host_sha1 = (\<lambda>s. []), host_sha256 = (\<lambda>s. []), host_sha512 = (\<lambda>s. []),
     host_base64_encode = (\<lambda>a s. s), host_base64_decode = (\<lambda>a s. Inr s), host_serialize = (\<lambda>f v. Inr ''''),
     host_deserialize = (\<lambda>f s. Inl ''''), host_phys_eq = (\<lambda>v e w e'. v = w \<and> e = e'),
     host_swap_remove = swap_remove_last\<rparr>"

end
