(* ===== verification/Primop_Equality.thy ===== *)
theory Primop_Equality
  imports Machine_Runs
begin

text \<open>
  The equality operator on data. The comparison is a loop of the machine: each step of \<open>==\<close> answers or
  pushes pairs of sub-values on the stack. The theorem says what the loop computes on evaluated data:
  structural equality, with the stack as it was. Data are trees (\<open>ndata\<close>); \<open>represents\<close> relates them
  to values, whose elements and fields are constants or thunks.
\<close>

section \<open>Data\<close>

datatype ndata =
    DNull
  | DBool bool
  | DNumber rat
  | DString string
  | DTag ident
  | DVariant ident ndata
  | DArray "ndata list"
  | DRecord "(ident \<times> ndata) list"

text \<open>Structural equality: arrays element by element, records by field name in any order.\<close>

fun data_eq :: "ndata \<Rightarrow> ndata \<Rightarrow> bool" where
  "data_eq DNull d2 \<longleftrightarrow> d2 = DNull"
| "data_eq (DBool b) d2 \<longleftrightarrow> d2 = DBool b"
| "data_eq (DNumber n) d2 \<longleftrightarrow> d2 = DNumber n"
| "data_eq (DString s) d2 \<longleftrightarrow> d2 = DString s"
| "data_eq (DTag t) d2 \<longleftrightarrow> d2 = DTag t"
| "data_eq (DVariant t d) d2 \<longleftrightarrow> (case d2 of DVariant t' d' \<Rightarrow> t = t' \<and> data_eq d d' | _ \<Rightarrow> False)"
| "data_eq (DArray ds) d2 \<longleftrightarrow> (case d2 of DArray ds' \<Rightarrow> list_all2 data_eq ds ds' | _ \<Rightarrow> False)"
| "data_eq (DRecord fs) d2 \<longleftrightarrow> (case d2 of
     DRecord gs \<Rightarrow> fst ` set fs = fst ` set gs
       \<and> (\<forall>(x, d) \<in> set fs. \<forall>(y, d') \<in> set gs. x = y \<longrightarrow> data_eq d d')
   | _ \<Rightarrow> False)"

text \<open>
  The values that represent data: no pending contract, every field defined, and thunks hold a value,
  or point to a thunk that does, as closurizing a field with dependencies leaves them.
\<close>

definition holds_value :: "heap \<Rightarrow> addr \<Rightarrow> closure \<Rightarrow> bool" where
  "holds_value h a c \<longleftrightarrow> a < length h \<and> td_closure (h ! a) = Some c \<and> is_whnf (clo_value c) \<and> td_state (h ! a) \<noteq> Blackholed"

definition points_to :: "heap \<Rightarrow> addr \<Rightarrow> addr \<Rightarrow> bool" where
  "points_to h b a \<longleftrightarrow> b < length h \<and> td_state (h ! b) = Suspended
    \<and> (\<exists>e. td_inner (h ! b) = StandardThunk \<lparr>clo_value = Thunk a, clo_env = e\<rparr>)"

inductive represents :: "heap \<Rightarrow> nickel_value \<Rightarrow> ndata \<Rightarrow> bool" for h where
  rep_null: "represents h Null DNull"
| rep_bool: "represents h (Bool b) (DBool b)"
| rep_number: "represents h (Number n) (DNumber n)"
| rep_string: "represents h (String s) (DString s)"
| rep_tag: "represents h (EnumVariant t None) (DTag t)"
| rep_variant: "represents h v d \<Longrightarrow> represents h (EnumVariant t (Some v)) (DVariant t d)"
| rep_no_array: "represents h (ArrayV Empty) (DArray [])"
| rep_array: "list_all2 (represents h) vs ds \<Longrightarrow> represents h (ArrayV (Alloc (vs, []))) (DArray ds)"
| rep_no_record: "represents h (RecordV Empty) (DRecord [])"
| rep_record: "list_all2 (\<lambda>xf yd. fst xf = fst yd \<and> (\<exists>v m. snd xf = Field (Some v) m [] \<and> represents h v (snd yd))) flds ds \<Longrightarrow>
    distinct (map fst ds) \<Longrightarrow> represents h (RecordV (Alloc (RecordData flds attrs None))) (DRecord ds)"
| rep_thunk: "holds_value h a c \<Longrightarrow> represents h (clo_value c) d \<Longrightarrow> represents h (Thunk a) d"
| rep_pointer: "points_to h b a \<Longrightarrow> holds_value h a c \<Longrightarrow> represents h (clo_value c) d \<Longrightarrow> represents h (Thunk b) d"

inductive_cases represents_ThunkE: "represents h (Thunk a) d"
inductive_cases represents_ArrayE: "represents h (ArrayV c) d"
inductive_cases represents_RecordE: "represents h (RecordV c) d"
inductive_cases represents_VariantE: "represents h (EnumVariant t arg) d"

definition keeps_data :: "heap \<Rightarrow> heap \<Rightarrow> bool" where
  "keeps_data h h' \<longleftrightarrow> (\<forall>v d. represents h v d \<longrightarrow> represents h' v d)"

lemma keeps_data_refl [simp, intro]: "keeps_data h h"
  by (simp add: keeps_data_def)

lemma keeps_data_trans: "keeps_data h1 h2 \<Longrightarrow> keeps_data h2 h3 \<Longrightarrow> keeps_data h1 h3"
  by (simp add: keeps_data_def)

lemma keeps_dataD: "keeps_data h h' \<Longrightarrow> represents h v d \<Longrightarrow> represents h' v d"
  by (simp add: keeps_data_def)

text \<open>Data survive every change that lets a thunk hold its value, or the value it points to.\<close>

lemma keeps_dataI:
  assumes hold: "\<And>a c. holds_value h a c \<Longrightarrow> holds_value h' a c"
    and point: "\<And>b a c. points_to h b a \<Longrightarrow> holds_value h a c \<Longrightarrow> points_to h' b a \<or> holds_value h' b c"
  shows "keeps_data h h'"
proof -
  have "represents h' v d" if "represents h v d" for v d
    using that
  proof (induction rule: represents.induct)
    case (rep_array vs ds)
    then show ?case by (intro represents.rep_array) (auto elim: list_all2_mono)
  next
    case (rep_record flds ds attrs)
    then show ?case by (intro represents.rep_record) (auto elim: list_all2_mono)
  next
    case (rep_thunk a c d)
    then show ?case using hold represents.rep_thunk by blast
  next
    case (rep_pointer b a c d)
    then show ?case using hold point represents.rep_pointer represents.rep_thunk by metis
  qed (simp_all add: represents.intros)
  then show ?thesis by (simp add: keeps_data_def)
qed

lemma keeps_data_append: "keeps_data h (h @ [td])"
  by (rule keeps_dataI) (auto simp: holds_value_def points_to_def nth_append)

lemma keeps_data_evaluated:
  assumes "holds_value h a c"
  shows "keeps_data h (h[a := (h ! a)\<lparr>td_state := Evaluated\<rparr>])"
proof (rule keeps_dataI)
  fix b c'
  assume "holds_value h b c'"
  then show "holds_value (h[a := (h ! a)\<lparr>td_state := Evaluated\<rparr>]) b c'"
    by (cases "b = a") (auto simp: holds_value_def td_closure_def)
next
  fix b a' c'
  assume "points_to h b a'"
  moreover have "b \<noteq> a" using assms calculation by (auto simp: holds_value_def points_to_def td_closure_def)
  ultimately show "points_to (h[a := (h ! a)\<lparr>td_state := Evaluated\<rparr>]) b a' \<or>
      holds_value (h[a := (h ! a)\<lparr>td_state := Evaluated\<rparr>]) b c'"
    by (auto simp: points_to_def)
qed

lemma keeps_data_update:
  assumes b: "points_to h b a" and a: "holds_value h a c"
  shows "keeps_data h (h[b := td_update c (h ! b)]) \<and> holds_value (h[b := td_update c (h ! b)]) b c"
proof -
  let ?h = "h[b := td_update c (h ! b)]"
  have here: "holds_value ?h b c"
    using a b by (auto simp: holds_value_def points_to_def td_update_def td_closure_def)
  have "keeps_data h ?h"
  proof (rule keeps_dataI)
    fix a' c'
    assume h: "holds_value h a' c'"
    then have "a' \<noteq> b" using b by (auto simp: holds_value_def points_to_def td_closure_def)
    with h show "holds_value ?h a' c'" by (auto simp: holds_value_def)
  next
    fix b' a' c'
    assume h: "points_to h b' a'" "holds_value h a' c'"
    show "points_to ?h b' a' \<or> holds_value ?h b' c'"
    proof (cases "b' = b")
      case True
      then have "a' = a" using h(1) b by (auto simp: points_to_def)
      then show ?thesis using True here h(2) a by (auto simp: holds_value_def)
    next
      case False
      then show ?thesis using h(1) by (auto simp: points_to_def)
    qed
  qed
  with here show ?thesis by blast
qed

section \<open>Evaluation of an operand\<close>

lemma holds_value_evaluated:
  "holds_value h a c \<Longrightarrow> holds_value (h[b := (h ! b)\<lparr>td_state := Evaluated\<rparr>]) a c"
  by (cases "b = a") (auto simp: holds_value_def td_closure_def)

lemma represents_whnf: "represents h v d \<Longrightarrow> (\<forall>a. v \<noteq> Thunk a) \<Longrightarrow> is_whnf v"
  by (auto elim: represents.cases)

context item_sizes begin

lemma enter_value:
  assumes "holds_value (vm_heap vm) a c" and "vm_stack vm = stack_bytes sz s"
  shows "\<exists>h'. eval_step sz vm \<lparr>clo_value = Thunk a, clo_env = e\<rparr> = Some (Continue c, vm\<lparr>vm_heap := h'\<rparr>)
    \<and> (h' = vm_heap vm \<or> h' = (vm_heap vm)[a := (vm_heap vm ! a)\<lparr>td_state := Evaluated\<rparr>])"
proof -
  let ?h = "vm_heap vm" and ?h' = "(vm_heap vm)[a := (vm_heap vm ! a)\<lparr>td_state := Evaluated\<rparr>]"
  have a: "a < length ?h" "td_closure (?h ! a) = Some c" "is_whnf (clo_value c)" "td_state (?h ! a) \<noteq> Blackholed"
    using assms(1) by (auto simp: holds_value_def)
  have same: "vm\<lparr>vm_heap := ?h\<rparr> = vm" by simp
  have get: "cache_get h a = Some c" if "h = ?h \<or> h = ?h'" for h
    using that a by (auto simp: cache_get_def thunk_get_owned_def td_closure_def)
  show ?thesis
  proof (cases "td_state (?h ! a)")
    case Suspended
    then have "get_update_index ?h a = Some (Inr None, ?h')" using get_update_index_table [OF a(1,2)] a(3) by simp
    then have "enter_cache_index sz vm a = Some (Continue c, vm\<lparr>vm_heap := ?h'\<rparr>)"
      using get by (simp add: enter_cache_index_def)
    then show ?thesis using assms(2) by (intro exI [of _ ?h']) (simp add: eval_step_def)
  next
    case Evaluated
    then have "get_update_index ?h a = Some (Inr None, ?h)" using get_update_index_table [OF a(1,2)] by simp
    then have "enter_cache_index sz vm a = Some (Continue c, vm)"
      using get same by (simp add: enter_cache_index_def)
    then show ?thesis using assms(2) same by (intro exI [of _ ?h]) (simp add: eval_step_def)
  qed (use a in simp)
qed

lemma eval_thunk_value:
  assumes "holds_value (vm_heap vm) a c" and "vm_stack vm = stack_bytes sz s"
  shows "\<exists>h'. runs host sz (vm, \<lparr>clo_value = Thunk a, clo_env = e\<rparr>) (vm\<lparr>vm_heap := h'\<rparr>, c)
    \<and> keeps_data (vm_heap vm) h' \<and> holds_value h' a c"
proof -
  obtain h' where h': "eval_step sz vm \<lparr>clo_value = Thunk a, clo_env = e\<rparr> = Some (Continue c, vm\<lparr>vm_heap := h'\<rparr>)"
    "h' = vm_heap vm \<or> h' = (vm_heap vm)[a := (vm_heap vm ! a)\<lparr>td_state := Evaluated\<rparr>]"
    using enter_value [OF assms] by blast
  have "keeps_data (vm_heap vm) h' \<and> holds_value h' a c"
    using h'(2) assms(1) keeps_data_evaluated [OF assms(1)] holds_value_evaluated [OF assms(1)] by auto
  then show ?thesis using runs_step [OF machine_step_plain [OF h'(1)] runs_refl] by blast
qed

text \<open>Entering a thunk that points to another one pushes an update frame, which the value then pops.\<close>

lemma update_one_frame:
  assumes "item_marker it \<noteq> MUpdateIndex" and "u < length h"
  shows "update_at_indices sz h (stack_bytes sz (UpdateIndexItem u # it # s)) c
    = Some (h[u := td_update c (h ! u)], stack_bytes sz (it # s))"
proof -
  have "pop_update_index sz (stack_bytes sz (it # s)) = Some (None, stack_bytes sz (it # s))"
    using assms(1) pop_update_index_bytes [of "it # s"] by (cases it) auto
  then show ?thesis
    using assms(2) pop_update_index_bytes [of "UpdateIndexItem u # it # s"]
    by (subst update_at_indices.simps, simp add: thunk_update_def heap_map_def, subst update_at_indices.simps, simp)
qed

lemma eval_pointer:
  assumes b: "points_to (vm_heap vm) b a" and a: "holds_value (vm_heap vm) a c"
    and st: "vm_stack vm = stack_bytes sz (it # s)" and it: "is_cont (item_marker it)"
  shows "\<exists>h'. runs host sz (vm, \<lparr>clo_value = Thunk b, clo_env = e\<rparr>) (vm\<lparr>vm_heap := h'\<rparr>, c) \<and> keeps_data (vm_heap vm) h'"
proof -
  let ?h = "vm_heap vm"
  let ?h1 = "?h[b := (?h ! b)\<lparr>td_state := Blackholed\<rparr>]"
  let ?vm1 = "vm\<lparr>vm_heap := ?h1, vm_stack := stack_bytes sz (UpdateIndexItem b # it # s)\<rparr>"
  obtain e0 where inner: "td_inner (?h ! b) = StandardThunk \<lparr>clo_value = Thunk a, clo_env = e0\<rparr>"
    and sb: "b < length ?h" "td_state (?h ! b) = Suspended"
    using b by (auto simp: points_to_def)
  let ?c = "\<lparr>clo_value = Thunk a, clo_env = e0\<rparr>"
  have cb: "td_closure (?h ! b) = Some ?c" using inner by (simp add: td_closure_def)
  have ab: "a \<noteq> b" using a cb by (auto simp: holds_value_def)
  have nidx: "item_marker it \<noteq> MUpdateIndex" using it by (auto simp: is_cont_def)
  have "get_update_index ?h b = Some (Inr (Some b), ?h1)" using get_update_index_table [OF sb(1) cb] sb(2) by simp
  moreover have "cache_get ?h1 b = Some ?c" using sb inner by (simp add: cache_get_def thunk_get_owned_def td_closure_def)
  ultimately have 1: "eval_step sz vm \<lparr>clo_value = Thunk b, clo_env = e\<rparr> = Some (Continue ?c, ?vm1)"
    using st by (simp add: eval_step_def enter_cache_index_def push_update_index_def stack_push_bytes)
  have a1: "holds_value ?h1 a c" using a ab by (auto simp: holds_value_def)
  obtain h2 where 2: "eval_step sz ?vm1 ?c = Some (Continue c, ?vm1\<lparr>vm_heap := h2\<rparr>)"
    "h2 = ?h1 \<or> h2 = ?h1[a := (?h1 ! a)\<lparr>td_state := Evaluated\<rparr>]"
    using enter_value [of ?vm1 a c "UpdateIndexItem b # it # s" e0] a1 by auto
  let ?vm2 = "?vm1\<lparr>vm_heap := h2\<rparr>"
  define h3 where "h3 = h2[b := td_update c (h2 ! b)]"
  have len: "b < length h2" using 2(2) sb(1) by auto
  have top: "is_whnf (clo_value c)" using a by (simp add: holds_value_def)
  have upd: "update_at_indices sz h2 (stack_bytes sz (UpdateIndexItem b # it # s)) c = Some (h3, stack_bytes sz (it # s))"
    using update_one_frame [OF nidx len] by (simp add: h3_def)
  have "eval_whnf sz ?vm2 c = Some (Continue c, vm\<lparr>vm_heap := h3\<rparr>)"
    using upd st by (simp add: eval_whnf_def)
  then have 3: "eval_step sz ?vm2 c = Some (Continue c, vm\<lparr>vm_heap := h3\<rparr>)"
    using top by (cases "clo_value c") (auto simp: eval_step_def)
  have run: "runs host sz (vm, \<lparr>clo_value = Thunk b, clo_env = e\<rparr>) (vm\<lparr>vm_heap := h3\<rparr>, c)"
    by (rule runs_step [OF machine_step_plain [OF 1]], rule runs_step [OF machine_step_plain [OF 2(1)]],
        rule runs_step [OF machine_step_plain [OF 3]]) (rule runs_refl)
  define g where "g = (if h2 = ?h1 then ?h else ?h[a := (?h ! a)\<lparr>td_state := Evaluated\<rparr>])"
  have g: "keeps_data ?h g" "holds_value g a c" "points_to g b a"
    using a b ab keeps_data_evaluated [OF a] holds_value_evaluated [OF a] by (auto simp: g_def points_to_def)
  have "h3 = g[b := td_update c (g ! b)]"
    using 2(2) ab sb inner by (auto simp: h3_def g_def td_update_def list_update_swap [of a b])
  then have "keeps_data ?h h3" using keeps_data_update [OF g(3,2)] g(1) keeps_data_trans by metis
  with run show ?thesis by blast
qed

lemma eval_operand:
  assumes "represents (vm_heap vm) v d" and "vm_stack vm = stack_bytes sz (it # s)" and "is_cont (item_marker it)"
  shows "\<exists>c h'. runs host sz (vm, \<lparr>clo_value = v, clo_env = e\<rparr>) (vm\<lparr>vm_heap := h'\<rparr>, c)
    \<and> is_whnf (clo_value c) \<and> represents h' (clo_value c) d \<and> keeps_data (vm_heap vm) h'"
proof (cases "\<exists>a. v = Thunk a")
  case False
  then show ?thesis using assms(1) represents_whnf
    by (intro exI [of _ "\<lparr>clo_value = v, clo_env = e\<rparr>"] exI [of _ "vm_heap vm"]) auto
next
  case True
  then obtain a where v: "v = Thunk a" by blast
  from assms(1) [unfolded v] consider
    (holds) c where "holds_value (vm_heap vm) a c" "represents (vm_heap vm) (clo_value c) d"
  | (points) a' c where "points_to (vm_heap vm) a a'" "holds_value (vm_heap vm) a' c" "represents (vm_heap vm) (clo_value c) d"
    by (auto elim: represents_ThunkE)
  then show ?thesis
  proof cases
    case holds
    then show ?thesis using eval_thunk_value [OF holds(1) assms(2)] v keeps_dataD by (metis holds_value_def)
  next
    case points
    then show ?thesis using eval_pointer [OF points(1,2) assms(2,3)] v keeps_dataD by (metis holds_value_def)
  qed
qed

end

section \<open>One step of the comparison\<close>

lemma closurize_represents:
  assumes "represents h v d"
  shows "\<exists>w h'. closurize h v e = Some (w, h') \<and> represents h' w d \<and> keeps_data h h'"
proof -
  have fresh: "\<exists>w h'. Some (Thunk (length h), h @ [td_new \<lparr>clo_value = v, clo_env = e\<rparr>]) = Some (w, h')
      \<and> represents h' w d \<and> keeps_data h h'" if "is_whnf v"
  proof -
    let ?h = "h @ [td_new \<lparr>clo_value = v, clo_env = e\<rparr>]"
    have "holds_value ?h (length h) \<lparr>clo_value = v, clo_env = e\<rparr>"
      using that by (simp add: holds_value_def td_new_def td_closure_def)
    moreover have "represents ?h v d" using assms keeps_data_append keeps_dataD by blast
    ultimately have "represents ?h (Thunk (length h)) d" by (auto intro: rep_thunk)
    then show ?thesis using keeps_data_append by auto
  qed
  show ?thesis
  proof (cases "is_constant v")
    case True
    then show ?thesis using assms by (auto simp: closurize_def closurize_as_btype_def)
  next
    case False
    show ?thesis using assms
    proof (cases rule: represents.cases)
      case (rep_thunk a c)
      let ?h = "h @ [td_new \<lparr>clo_value = v, clo_env = e\<rparr>]"
      have a: "a < length h" using rep_thunk(2) by (simp add: holds_value_def)
      have "points_to ?h (length h) a" "holds_value ?h a c"
        using rep_thunk by (auto simp: points_to_def holds_value_def td_new_def nth_append)
      moreover have "represents ?h (clo_value c) d" using rep_thunk(3) keeps_data_append keeps_dataD by blast
      ultimately have "represents ?h (Thunk (length h)) d" by (auto intro: rep_pointer)
      then show ?thesis using rep_thunk(1) a assms keeps_data_append [of h]
        by (cases "deps_is_empty (td_deps (h ! a))")
          (auto simp: closurize_def closurize_as_btype_def thunk_deps_def cache_add_normal assert_ok_bind)
    next
      case (rep_pointer b a c)
      then have "td_deps (h ! b) = deps_empty" "b < length h" by (auto simp: points_to_def td_deps_def)
      then show ?thesis using rep_pointer(1) assms by (auto simp: closurize_def closurize_as_btype_def thunk_deps_def)
    qed (use False fresh in \<open>auto simp: closurize_def closurize_as_btype_def cache_add_normal\<close>)
  qed
qed

lemma closurize_all_represents:
  "list_all2 (represents h) vs ds \<Longrightarrow>
    \<exists>ws h'. closurize_all h vs e = Some (ws, h') \<and> list_all2 (represents h') ws ds \<and> keeps_data h h'"
proof (induction vs arbitrary: ds h)
  case Nil
  then show ?case by (auto simp: closurize_all_def)
next
  case (Cons v vs)
  then obtain d ds' where ds: "ds = d # ds'" "represents h v d" "list_all2 (represents h) vs ds'"
    by (auto simp: list_all2_Cons1)
  obtain w h1 where 1: "closurize h v e = Some (w, h1)" "represents h1 w d" "keeps_data h h1"
    using closurize_represents [OF ds(2)] by blast
  have "list_all2 (represents h1) vs ds'" using ds(3) 1(3) by (auto elim: list_all2_mono dest: keeps_dataD)
  then obtain ws h2 where 2: "closurize_all h1 vs e = Some (ws, h2)" "list_all2 (represents h2) ws ds'" "keeps_data h1 h2"
    using Cons.IH by blast
  then show ?case using 1 ds(1) keeps_dataD keeps_data_trans by (auto simp: closurize_all_def)
qed

text \<open>What a step of the comparison answers for the data behind its operands.\<close>

definition pair_represents :: "heap \<Rightarrow> closure \<times> closure \<Rightarrow> ndata \<times> ndata \<Rightarrow> bool" where
  "pair_represents h cs ds \<longleftrightarrow>
    represents h (clo_value (fst cs)) (fst ds) \<and> represents h (clo_value (snd cs)) (snd ds)"

definition eq_result_ok :: "heap \<Rightarrow> ndata \<Rightarrow> ndata \<Rightarrow> eq_result \<Rightarrow> bool" where
  "eq_result_ok h d1 d2 r \<longleftrightarrow>
    (case r of
       EqBool b \<Rightarrow> b = data_eq d1 d2
     | Eqs w1 w2 subs \<Rightarrow> \<exists>p ps. represents h w1 (fst p) \<and> represents h w2 (snd p) \<and> list_all2 (pair_represents h) subs ps
         \<and> (\<forall>q \<in> set (p # ps). size (fst q) < size d1)
         \<and> (data_eq d1 d2 \<longleftrightarrow> list_all (\<lambda>(x, y). data_eq x y) (p # ps)))"

lemma pair_represents_keeps:
  "keeps_data h h' \<Longrightarrow> list_all2 (pair_represents h) subs ps \<Longrightarrow> list_all2 (pair_represents h') subs ps"
  by (auto simp: pair_represents_def elim!: list_all2_mono dest: keeps_dataD)

lemma gen_eqs_ok:
  assumes vs: "list_all2 (\<lambda>(v1, v2) (x, y). represents h v1 x \<and> represents h v2 y) eqs ps"
    and smaller: "\<forall>q \<in> set ps. size (fst q) < size d1"
    and eq: "data_eq d1 d2 \<longleftrightarrow> list_all (\<lambda>(x, y). data_eq x y) ps"
  shows "\<exists>r h'. gen_eqs h eqs e1 e2 = Some (r, h') \<and> eq_result_ok h' d1 d2 r \<and> keeps_data h h'"
proof (cases eqs)
  case Nil
  then show ?thesis using vs eq by (auto simp: gen_eqs_def eq_result_ok_def)
next
  case (Cons vv rest)
  obtain v1 v2 where vv: "vv = (v1, v2)" by (cases vv)
  obtain p qs where ps: "ps = p # qs" "represents h v1 (fst p)" "represents h v2 (snd p)"
    "list_all2 (\<lambda>(v1, v2) (x, y). represents h v1 x \<and> represents h v2 y) rest qs"
    using vs Cons vv by (auto simp: list_all2_Cons1)
  obtain w1 h1 where 1: "closurize h v1 e1 = Some (w1, h1)" "represents h1 w1 (fst p)" "keeps_data h h1"
    using closurize_represents [OF ps(2)] by blast
  obtain w2 h2 where 2: "closurize h1 v2 e2 = Some (w2, h2)" "represents h2 w2 (snd p)" "keeps_data h1 h2"
    using closurize_represents [OF keeps_dataD [OF 1(3) ps(3)]] by blast
  have k: "keeps_data h h2" using 1(3) 2(3) by (rule keeps_data_trans)
  have "list_all2 (pair_represents h2)
      (map (\<lambda>(w1, w2). (\<lparr>clo_value = w1, clo_env = e1\<rparr>, \<lparr>clo_value = w2, clo_env = e2\<rparr>)) rest) qs"
    using ps(4) k by (auto simp: list_all2_map1 pair_represents_def elim!: list_all2_mono dest: keeps_dataD)
  moreover have "represents h2 w1 (fst p)" using 1(2) 2(3) by (rule keeps_dataD [rotated])
  ultimately have "eq_result_ok h2 d1 d2 (Eqs w1 w2
      (map (\<lambda>(w1, w2). (\<lparr>clo_value = w1, clo_env = e1\<rparr>, \<lparr>clo_value = w2, clo_env = e2\<rparr>)) rest))"
    unfolding eq_result_ok_def eq_result.case using 2(2) ps(1) smaller eq by (intro exI [of _ p] exI [of _ qs]) simp
  then show ?thesis using Cons vv 1 2 k by (auto simp: gen_eqs_def)
qed

lemma apply_no_contract [simp]: "contract_apply_all v [] = v" "iter_with_pending_contracts (vs, []) = vs"
  by (simp_all add: contract_apply_all_def iter_with_pending_contracts_def)

lemma eq_arrays_ok:
  assumes "list_all2 (represents h) vs1 ds1" and "list_all2 (represents h) vs2 ds2" and "length vs1 = length vs2"
  shows "\<exists>r h'. eq_arrays h (vs1, []) e1 (vs2, []) e2 = Some (r, h') \<and> eq_result_ok h' (DArray ds1) (DArray ds2) r
    \<and> keeps_data h h'"
proof -
  obtain ws1 h1 where 1: "closurize_all h vs1 e1 = Some (ws1, h1)" "list_all2 (represents h1) ws1 ds1" "keeps_data h h1"
    using closurize_all_represents [OF assms(1)] by blast
  have "list_all2 (represents h1) vs2 ds2" using assms(2) 1(3) by (auto elim: list_all2_mono dest: keeps_dataD)
  then obtain ws2 h2 where 2: "closurize_all h1 vs2 e2 = Some (ws2, h2)" "list_all2 (represents h2) ws2 ds2" "keeps_data h1 h2"
    using closurize_all_represents by blast
  have k: "keeps_data h h2" using 1(3) 2(3) by (rule keeps_data_trans)
  have len: "length ds1 = length ds2" "length ws1 = length ds1" "length ws2 = length ds2"
    using list_all2_lengthD [OF assms(1)] list_all2_lengthD [OF assms(2)] list_all2_lengthD [OF 1(2)]
      list_all2_lengthD [OF 2(2)] assms(3) by simp_all
  have ws1: "list_all2 (represents h2) ws1 ds1" using 1(2) 2(3) by (auto elim: list_all2_mono dest: keeps_dataD)
  define ps where "ps = zip ds1 ds2"
  define eqs where "eqs = zip ws1 ws2"
  have pairs: "list_all2 (\<lambda>(w1, w2) (x, y). represents h2 w1 x \<and> represents h2 w2 y) eqs ps"
    using ws1 2(2) len by (auto simp: eqs_def ps_def list_all2_conv_all_nth)
  have eq: "data_eq (DArray ds1) (DArray ds2) \<longleftrightarrow> list_all (\<lambda>(x, y). data_eq x y) ps"
    using len by (simp add: ps_def list_all2_iff list_all_iff)
  show ?thesis
  proof (cases "eqs = []")
    case True
    then have "ps = []" using len by (auto simp: eqs_def ps_def)
    moreover have "ws1 = [] \<or> ws2 = []" using True by (auto simp: eqs_def zip_eq_Nil_iff)
    ultimately show ?thesis using 1 2 k eq
      by (auto simp: eq_arrays_def eq_result_ok_def simp del: data_eq.simps)
  next
    case False
    then have ne: "ps \<noteq> []" using len by (auto simp: eqs_def ps_def)
    obtain p qs where ps: "ps = qs @ [p]" using ne by (metis append_butlast_last_id)
    obtain w1 w2 rest where ws: "eqs = rest @ [(w1, w2)]" using False by (metis append_butlast_last_id prod.exhaust)
    have rep: "represents h2 w1 (fst p)" "represents h2 w2 (snd p)"
      "list_all2 (\<lambda>(w1, w2) (x, y). represents h2 w1 x \<and> represents h2 w2 y) rest qs"
      using pairs by (cases p; auto simp: ps ws list_all2_append2 list_all2_Cons2 dest: list_all2_lengthD split: prod.splits)+
    have small: "size (fst q) < size (DArray ds1)" if "q \<in> set ps" for q
    proof -
      have "fst q \<in> set ds1" using that unfolding ps_def by (metis in_set_zipE prod.collapse)
      then have "size (fst q) \<le> size_list size ds1" by (rule size_list_estimation') simp
      then show ?thesis by simp
    qed
    have "list_all2 (pair_represents h2) (map (\<lambda>(w1, w2). (closure_of_value w1, closure_of_value w2)) rest) qs"
      using rep(3) by (auto simp: list_all2_map1 pair_represents_def closure_of_value_def elim!: list_all2_mono)
    then have "eq_result_ok h2 (DArray ds1) (DArray ds2) (Eqs w1 w2
        (map (\<lambda>(w1, w2). (closure_of_value w1, closure_of_value w2)) rest))"
      unfolding eq_result_ok_def eq_result.case eq using rep(1,2) small
      by (intro exI [of _ p] exI [of _ qs]) (auto simp: ps)
    moreover have "ws1 \<noteq> []" "ws2 \<noteq> []" using False by (auto simp: eqs_def)
    ultimately show ?thesis using 1 2 k ws by (simp add: eq_arrays_def Let_def eqs_def [symmetric])
  qed
qed

subsection \<open>Records\<close>

definition fields_represent :: "heap \<Rightarrow> (ident \<times> nfield) list \<Rightarrow> (ident \<times> ndata) list \<Rightarrow> bool" where
  "fields_represent h flds ds \<longleftrightarrow> distinct (map fst ds) \<and>
    list_all2 (\<lambda>xf yd. fst xf = fst yd \<and> (\<exists>v m. snd xf = Field (Some v) m [] \<and> represents h v (snd yd))) flds ds"

lemma fields_represent_keys: "fields_represent h flds ds \<Longrightarrow> map fst flds = map fst ds"
  unfolding fields_represent_def by (auto simp: list_all2_conv_all_nth intro: nth_equalityI)

lemma fields_represent_wf: "fields_represent h flds ds \<Longrightarrow> im_wf flds"
  using fields_represent_keys by (fastforce simp: im_wf_def fields_represent_def)

lemma fields_represent_map_of:
  assumes "fields_represent h flds ds"
  shows "(map_of flds x = None \<and> map_of ds x = None) \<or>
    (\<exists>v m d. map_of flds x = Some (Field (Some v) m []) \<and> map_of ds x = Some d \<and> represents h v d)"
proof -
  have "list_all2 (\<lambda>xf yd. fst xf = fst yd \<and> (\<exists>v m. snd xf = Field (Some v) m [] \<and> represents h v (snd yd))) flds ds"
    using assms by (simp add: fields_represent_def)
  then show ?thesis by (induction rule: list_all2_induct) auto
qed

lemma fields_represent_dom: "fields_represent h flds ds \<Longrightarrow> dom (map_of flds) = fst ` set ds"
  by (metis dom_map_of_conv_image_fst fields_represent_keys image_set)

lemma no_optional:
  assumes "fields_represent h flds ds" and "im_wf part" and "map_of part = map_of flds |` A"
  shows "list_all (\<lambda>(_, fld). is_empty_optional fld) part \<longleftrightarrow> dom (map_of flds) \<inter> A = {}"
proof
  assume opt: "list_all (\<lambda>(_, fld). is_empty_optional fld) part"
  show "dom (map_of flds) \<inter> A = {}"
  proof (rule ccontr)
    assume "dom (map_of flds) \<inter> A \<noteq> {}"
    then obtain x fld where "x \<in> A" "map_of flds x = Some fld" by blast
    then have x: "map_of part x = Some fld" "map_of flds x = Some fld" using assms(3) by simp_all
    then have "is_empty_optional fld" using opt by (auto simp: list_all_iff dest!: map_of_SomeD)
    then show False using fields_represent_map_of [OF assms(1), of x] x(2) by (auto simp: is_empty_optional_def)
  qed
next
  assume "dom (map_of flds) \<inter> A = {}"
  then have "map_of part = Map.empty" using assms(3) by (auto simp: fun_eq_iff restrict_map_def)
  then show "list_all (\<lambda>(_, fld). is_empty_optional fld) part" by simp
qed

text \<open>The pairs of fields both records have.\<close>

definition center_pair :: "(ident \<times> ndata) list \<Rightarrow> (ident \<times> ndata) list \<Rightarrow> ident \<Rightarrow> ndata \<times> ndata" where
  "center_pair ds1 ds2 x = (the (map_of ds1 x), the (map_of ds2 x))"

lemma center_eqs:
  assumes "\<forall>(x, f1, f2) \<in> set center. \<exists>v1 m1 v2 m2. f1 = Field (Some v1) m1 [] \<and> f2 = Field (Some v2) m2 []
      \<and> represents h v1 (fst (g x)) \<and> represents h v2 (snd (g x))"
  shows "\<exists>eqs. collect_results (List.map_filter eq_fields center) = Inr eqs
    \<and> list_all2 (\<lambda>(v1, v2) (x, y). represents h v1 x \<and> represents h v2 y) eqs (map (\<lambda>e. g (fst e)) center)"
  using assms
proof (induction center)
  case (Cons e center)
  obtain x f1 f2 where e: "e = (x, f1, f2)" by (cases e)
  obtain v1 m1 v2 m2 where f: "f1 = Field (Some v1) m1 []" "f2 = Field (Some v2) m2 []"
      "represents h v1 (fst (g x))" "represents h v2 (snd (g x))"
    using Cons.prems e by auto
  obtain eqs where "collect_results (List.map_filter eq_fields center) = Inr eqs"
    "list_all2 (\<lambda>(v1, v2) (x, y). represents h v1 x \<and> represents h v2 y) eqs (map (\<lambda>e. g (fst e)) center)"
    using Cons by auto
  moreover have "eq_fields e = Some (Inr (v1, v2))" using e f by (simp add: eq_fields_def)
  ultimately show ?case using e f by (auto simp: List.map_filter_simps split: prod.split)
qed (simp add: List.map_filter_simps)

lemma data_eq_records:
  assumes "distinct (map fst ds1)" and "distinct (map fst ds2)"
  shows "data_eq (DRecord ds1) (DRecord ds2) \<longleftrightarrow> fst ` set ds1 = fst ` set ds2
    \<and> (\<forall>x \<in> fst ` set ds1 \<inter> fst ` set ds2. data_eq (fst (center_pair ds1 ds2 x)) (snd (center_pair ds1 ds2 x)))"
proof -
  have "(\<forall>(x, d) \<in> set ds1. \<forall>(y, d') \<in> set ds2. x = y \<longrightarrow> data_eq d d') \<longleftrightarrow>
    (\<forall>x \<in> fst ` set ds1 \<inter> fst ` set ds2. data_eq (fst (center_pair ds1 ds2 x)) (snd (center_pair ds1 ds2 x)))"
    using assms by (force simp: center_pair_def)
  then show ?thesis by simp
qed

lemma center_of_split:
  assumes "split_spec (map_of flds1) (map_of flds2) s" and "fields_represent h flds1 ds1" and "fields_represent h flds2 ds2"
  shows "fst ` set (split_center s) = fst ` set ds1 \<inter> fst ` set ds2"
    and "\<forall>(x, f1, f2) \<in> set (split_center s). \<exists>v1 m1 v2 m2. f1 = Field (Some v1) m1 [] \<and> f2 = Field (Some v2) m2 []
      \<and> represents h v1 (fst (center_pair ds1 ds2 x)) \<and> represents h v2 (snd (center_pair ds1 ds2 x))"
proof -
  have wf: "im_wf (split_center s)" and mo: "map_of (split_center s) =
       (\<lambda>k. case (map_of flds1 k, map_of flds2 k) of (Some v1, Some v2) \<Rightarrow> Some (v1, v2) | _ \<Rightarrow> None)"
    using assms(1) by (simp_all add: split_spec_def)
  have "dom (map_of (split_center s)) = dom (map_of flds1) \<inter> dom (map_of flds2)"
    unfolding mo by (auto split: option.splits)
  then show "fst ` set (split_center s) = fst ` set ds1 \<inter> fst ` set ds2"
    using fields_represent_dom [OF assms(2)] fields_represent_dom [OF assms(3)] by (metis dom_map_of_conv_image_fst)
  show "\<forall>(x, f1, f2) \<in> set (split_center s). \<exists>v1 m1 v2 m2. f1 = Field (Some v1) m1 [] \<and> f2 = Field (Some v2) m2 []
      \<and> represents h v1 (fst (center_pair ds1 ds2 x)) \<and> represents h v2 (snd (center_pair ds1 ds2 x))"
  proof clarify
    fix x f1 f2
    assume "(x, f1, f2) \<in> set (split_center s)"
    then have "map_of (split_center s) x = Some (f1, f2)" using wf by (simp add: map_of_im_wf)
    then have "map_of flds1 x = Some f1" "map_of flds2 x = Some f2" by (auto simp: mo split: option.splits)
    then show "\<exists>v1 m1 v2 m2. f1 = Field (Some v1) m1 [] \<and> f2 = Field (Some v2) m2 []
      \<and> represents h v1 (fst (center_pair ds1 ds2 x)) \<and> represents h v2 (snd (center_pair ds1 ds2 x))"
      using fields_represent_map_of [OF assms(2), of x] fields_represent_map_of [OF assms(3), of x]
      by (auto simp: center_pair_def)
  qed
qed

lemma center_pair_smaller:
  "distinct (map fst ds1) \<Longrightarrow> x \<in> fst ` set ds1 \<Longrightarrow> size (fst (center_pair ds1 ds2 x)) < size (DRecord ds1)"
proof -
  assume "distinct (map fst ds1)" "x \<in> fst ` set ds1"
  then obtain d where d: "(x, d) \<in> set ds1" "map_of ds1 x = Some d" by (auto simp: image_iff)
  have "size_prod (\<lambda>_. 0) size (x, d) \<le> size_list (size_prod (\<lambda>_. 0) size) ds1"
    using d(1) by (rule size_list_estimation') simp
  then show ?thesis using d(2) by (simp add: center_pair_def)
qed

lemma eq_records_ok:
  assumes "swap_removal sr" and r1: "fields_represent h flds1 ds1" and r2: "fields_represent h flds2 ds2"
  shows "\<exists>r h'. eq_records sr h (RecordData flds1 at1 None) e1 (RecordData flds2 at2 None) e2 = Some (Inr r, h')
    \<and> eq_result_ok h' (DRecord ds1) (DRecord ds2) r \<and> keeps_data h h'"
proof -
  define s where "s = split_ref sr flds1 flds2"
  have spec: "split_spec (map_of flds1) (map_of flds2) s"
    unfolding s_def by (rule swap_removal.split_ref_spec [OF assms(1)]) (use r1 r2 fields_represent_wf in blast)+
  note center = center_of_split [OF spec r1 r2]
  have dist: "distinct (map fst ds1)" "distinct (map fst ds2)" using r1 r2 by (simp_all add: fields_represent_def)
  have dom: "dom (map_of flds1) = fst ` set ds1" "dom (map_of flds2) = fst ` set ds2"
    using fields_represent_dom [OF r1] fields_represent_dom [OF r2] by simp_all
  have left: "list_all (\<lambda>(_, fld). is_empty_optional fld) (split_left s) \<longleftrightarrow> fst ` set ds1 \<subseteq> fst ` set ds2"
    using no_optional [OF r1, of "split_left s" "- dom (map_of flds2)"] spec dom by (auto simp: split_spec_def)
  have right: "list_all (\<lambda>(_, fld). is_empty_optional fld) (split_right s) \<longleftrightarrow> fst ` set ds2 \<subseteq> fst ` set ds1"
    using no_optional [OF r2, of "split_right s" "- dom (map_of flds1)"] spec dom by (auto simp: split_spec_def)
  note eq = data_eq_records [OF dist]
  show ?thesis
  proof (cases "fst ` set ds1 = fst ` set ds2")
    case False
    then have "\<not> data_eq (DRecord ds1) (DRecord ds2)" using eq by blast
    then show ?thesis using False left right
      by (auto simp: eq_records_def s_def [symmetric] eq_result_ok_def simp del: data_eq.simps)
  next
    case True
    let ?g = "center_pair ds1 ds2"
    let ?ps = "map (\<lambda>e. ?g (fst e)) (split_center s)"
    obtain eqs where eqs: "collect_results (List.map_filter eq_fields (split_center s)) = Inr eqs"
      "list_all2 (\<lambda>(v1, v2) (x, y). represents h v1 x \<and> represents h v2 y) eqs ?ps"
      using center_eqs [OF center(2)] by blast
    have all: "data_eq (DRecord ds1) (DRecord ds2) \<longleftrightarrow> list_all (\<lambda>(x, y). data_eq x y) ?ps"
    proof -
      have "list_all (\<lambda>(x, y). data_eq x y) ?ps \<longleftrightarrow> (\<forall>x \<in> fst ` set (split_center s). data_eq (fst (?g x)) (snd (?g x)))"
        by (auto simp: list_all_iff case_prod_unfold)
      then show ?thesis unfolding eq center(1) using True by blast
    qed
    have small: "\<forall>q \<in> set ?ps. size (fst q) < size (DRecord ds1)"
    proof
      fix q
      assume "q \<in> set ?ps"
      then obtain x where "x \<in> fst ` set (split_center s)" "q = ?g x" by auto
      then show "size (fst q) < size (DRecord ds1)" using center_pair_smaller [OF dist(1)] center(1) by blast
    qed
    obtain r h' where g: "gen_eqs h eqs e1 e2 = Some (r, h')" "eq_result_ok h' (DRecord ds1) (DRecord ds2) r" "keeps_data h h'"
      using gen_eqs_ok [OF eqs(2) small all] by blast
    show ?thesis
    proof (cases "split_center s = []")
      case True
      with all have "data_eq (DRecord ds1) (DRecord ds2)" by simp
      then show ?thesis using True left right \<open>fst ` set ds1 = fst ` set ds2\<close>
        by (simp add: eq_records_def s_def [symmetric] eq_result_ok_def del: data_eq.simps)
    next
      case nonempty: False
      have "list_all (\<lambda>(_, fld). is_empty_optional fld) (split_left s)"
        "list_all (\<lambda>(_, fld). is_empty_optional fld) (split_right s)" using left right True by simp_all
      then show ?thesis using nonempty g eqs(1) by (simp add: eq_records_def s_def [symmetric] Let_def)
    qed
  qed
qed

lemma has_only_empty_opts_iff:
  "fields_represent h flds ds \<Longrightarrow> has_only_empty_opts (RecordData flds attrs None) \<longleftrightarrow> ds = []"
  by (auto simp: has_only_empty_opts_def fields_represent_def is_empty_optional_def list_all2_conv_all_nth list_all_length
      split: prod.splits) (metis field.sel(1) length_greater_0_conv option.distinct(1) prod.collapse snd_conv)

lemma eq_ok:
  assumes sr: "swap_removal sr" and r1: "represents h v1 d1" and r2: "represents h v2 d2"
    and w: "is_whnf v1" "is_whnf v2"
  shows "\<exists>r h'. eq sr h \<lparr>clo_value = v1, clo_env = e1\<rparr> \<lparr>clo_value = v2, clo_env = e2\<rparr> = Some (Inr r, h')
    \<and> eq_result_ok h' d1 d2 r \<and> keeps_data h h'"
  using r1
proof (cases rule: represents.cases)
  case (rep_variant v d t)
  show ?thesis using r2
  proof (cases rule: represents.cases)
    case (rep_variant v' d' t')
    have p: "list_all2 (\<lambda>(v1, v2) (x, y). represents h v1 x \<and> represents h v2 y) [(v, v')] [(d, d')]"
      using rep_variant \<open>represents h v d\<close> by simp
    have "t = t' \<Longrightarrow> \<exists>r h'. gen_eqs h [(v, v')] e1 e2 = Some (r, h') \<and> eq_result_ok h' d1 d2 r \<and> keeps_data h h'"
      by (rule gen_eqs_ok [OF p]) (use rep_variant \<open>d1 = DVariant t d\<close> in simp_all)
    then show ?thesis using rep_variant \<open>v1 = EnumVariant t (Some v)\<close> \<open>d1 = DVariant t d\<close>
      by (auto simp: eq_def eq_result_ok_def)
  qed (use rep_variant w in \<open>auto simp: eq_def eq_result_ok_def\<close>)
next
  case rep_no_array
  show ?thesis using r2
    by (cases rule: represents.cases) (use rep_no_array w in \<open>auto simp: eq_def eq_result_ok_def array_is_empty_def dest: list_all2_lengthD\<close>)
next
  case (rep_array vs ds)
  show ?thesis using r2
  proof (cases rule: represents.cases)
    case (rep_array vs' ds')
    have len: "length vs = length ds" "length vs' = length ds'"
      using rep_array(3) \<open>list_all2 (represents h) vs ds\<close> by (auto dest: list_all2_lengthD)
    show ?thesis
    proof (cases "length vs = length vs'")
      case True
      then obtain r h' where "eq_arrays h (vs, []) e1 (vs', []) e2 = Some (r, h')" "eq_result_ok h' (DArray ds) (DArray ds') r" "keeps_data h h'"
        using eq_arrays_ok [OF \<open>list_all2 (represents h) vs ds\<close> rep_array(3)] by blast
      then show ?thesis using True len rep_array(1,2) \<open>v1 = ArrayV (Alloc (vs, []))\<close> \<open>d1 = DArray ds\<close>
        by (cases "vs = []") (auto simp: eq_def array_is_empty_def eq_result_ok_def)
    next
      case False
      then show ?thesis using len rep_array(1,2) \<open>v1 = ArrayV (Alloc (vs, []))\<close> \<open>d1 = DArray ds\<close>
        by (auto simp: eq_def array_is_empty_def eq_result_ok_def dest: list_all2_lengthD)
    qed
  qed (use rep_array w in \<open>auto simp: eq_def eq_result_ok_def array_is_empty_def dest: list_all2_lengthD\<close>)
next
  case rep_no_record
  show ?thesis using r2
  proof (cases rule: represents.cases)
    case (rep_record flds ds attrs)
    then have "fields_represent h flds ds" by (simp add: fields_represent_def)
    then show ?thesis using has_only_empty_opts_iff [of h flds ds attrs] rep_no_record rep_record(1,2)
      by (cases "ds = []") (auto simp: eq_def eq_result_ok_def container_has_only_empty_opts_def image_iff)
  qed (use rep_no_record w in \<open>auto simp: eq_def eq_result_ok_def container_has_only_empty_opts_def\<close>)
next
  case (rep_record flds ds attrs)
  then have f1: "fields_represent h flds ds" by (simp add: fields_represent_def)
  show ?thesis using r2
  proof (cases rule: represents.cases)
    case rep_no_record
    then show ?thesis using has_only_empty_opts_iff [OF f1, of attrs] rep_record(1,2)
      by (cases "ds = []") (auto simp: eq_def eq_result_ok_def container_has_only_empty_opts_def image_iff)
  next
    case (rep_record flds' ds' attrs')
    then have f2: "fields_represent h flds' ds'" by (simp add: fields_represent_def)
    obtain r h' where "eq_records sr h (RecordData flds attrs None) e1 (RecordData flds' attrs' None) e2 = Some (Inr r, h')"
      "eq_result_ok h' (DRecord ds) (DRecord ds') r" "keeps_data h h'"
      using eq_records_ok [OF sr f1 f2] by blast
    then show ?thesis
      using has_only_empty_opts_iff [OF f1, of attrs] has_only_empty_opts_iff [OF f2, of attrs'] rep_record(1,2)
        \<open>v1 = RecordV (Alloc (RecordData flds attrs None))\<close> \<open>d1 = DRecord ds\<close>
      by (cases "ds = [] \<and> ds' = []") (auto simp: eq_def eq_result_ok_def container_has_only_empty_opts_def)
  qed (use rep_record w in \<open>auto simp: eq_def eq_result_ok_def\<close>)
qed (use r2 w in \<open>auto simp: eq_def eq_result_ok_def elim!: represents.cases [of h v2 d2]\<close>)

section \<open>The loop\<close>

lemma push_eqs_bytes:
  "push_eqs sz subs (stack_bytes sz s) = stack_bytes sz (rev (map (\<lambda>(c1, c2). EqItem c1 c2) subs) @ s)"
  by (induction subs arbitrary: s) (auto simp: push_eqs_def stack_push_bytes)

context item_sizes begin

lemma eq_answer_false:
  "vm_stack vm = stack_bytes sz s \<Longrightarrow> eq_answer sz vm False =
    Some (Inr (closure_of_value (Bool False)), vm\<lparr>vm_stack := stack_bytes sz (dropWhile (\<lambda>it. item_marker it = MEq) s)\<rparr>)"
  by (cases s) (simp_all add: eq_answer_def pop_eq_def stack_pop_bytes clear_eqs_bytes op_value_def)

lemma eq_answer_end:
  "vm_stack vm = stack_bytes sz s \<Longrightarrow> s = [] \<or> item_marker (hd s) \<noteq> MEq \<Longrightarrow>
    eq_answer sz vm b = Some (Inr (closure_of_value (Bool b)), vm)"
  by (cases b; cases s)
    (auto simp: eq_answer_def pop_eq_def stack_pop_bytes clear_eqs_bytes op_value_def vm_stack_same)

text \<open>A run of the comparison of a pair of data ends in the answer for it.\<close>

definition decides :: "host \<Rightarrow> ndata \<Rightarrow> ndata \<Rightarrow> bool" where
  "decides host d1 d2 \<longleftrightarrow> (\<forall>vm s w1 w2 e. represents (vm_heap vm) w1 d1 \<longrightarrow> represents (vm_heap vm) w2 d2 \<longrightarrow>
    vm_stack vm = stack_bytes sz s \<longrightarrow>
    (\<exists>h'. keeps_data (vm_heap vm) h' \<and> (\<forall>c vm'. eq_answer sz (vm\<lparr>vm_heap := h'\<rparr>) (data_eq d1 d2) = Some (Inr c, vm') \<longrightarrow>
      runs host sz (vm, \<lparr>clo_value = TermV (Op2 (BinOp Eq) w1 w2), clo_env = e\<rparr>) (vm', c))))"

lemma decidesD:
  assumes "decides host d1 d2" "represents (vm_heap vm) w1 d1" "represents (vm_heap vm) w2 d2" "vm_stack vm = stack_bytes sz s"
  shows "\<exists>h'. keeps_data (vm_heap vm) h' \<and> (\<forall>c vm'. eq_answer sz (vm\<lparr>vm_heap := h'\<rparr>) (data_eq d1 d2) = Some (Inr c, vm') \<longrightarrow>
      runs host sz (vm, closure_of_value (TermV (Op2 (BinOp Eq) w1 w2))) (vm', c))"
  using assms unfolding decides_def closure_of_value_def by blast

text \<open>The pending pairs are compared one after the other.\<close>

lemma eq_pending:
  assumes "list_all2 (pair_represents (vm_heap vm)) subs ps" and "\<forall>p \<in> set ps. decides host (fst p) (snd p)"
    and "vm_stack vm = stack_bytes sz (map (\<lambda>(c1, c2). EqItem c1 c2) subs @ s)"
  shows "\<exists>h'. keeps_data (vm_heap vm) h' \<and>
    (\<forall>c vm'. eq_answer sz (vm\<lparr>vm_heap := h', vm_stack := stack_bytes sz s\<rparr>) (list_all (\<lambda>(x, y). data_eq x y) ps) = Some (Inr c, vm') \<longrightarrow>
      (\<exists>c1 vm1. eq_answer sz vm True = Some (Inr c1, vm1) \<and> runs host sz (vm1, c1) (vm', c)))"
  using assms
proof (induction subs arbitrary: ps vm)
  case Nil
  have "vm\<lparr>vm_heap := vm_heap vm, vm_stack := stack_bytes sz s\<rparr> = vm" using Nil.prems(3) by simp
  then show ?case using Nil.prems(1) by (intro exI [of _ "vm_heap vm"]) auto
next
  case (Cons cc subs)
  obtain a1 a2 where cc: "cc = (a1, a2)" by (cases cc)
  obtain p qs where ps: "ps = p # qs" "represents (vm_heap vm) (clo_value a1) (fst p)"
    "represents (vm_heap vm) (clo_value a2) (snd p)" "list_all2 (pair_represents (vm_heap vm)) subs qs"
    using Cons.prems(1) cc by (auto simp: list_all2_Cons1 pair_represents_def [of _ "(a1, a2)"])
  obtain w1 h1 where 1: "closurize (vm_heap vm) (clo_value a1) (clo_env a1) = Some (w1, h1)" "represents h1 w1 (fst p)"
    "keeps_data (vm_heap vm) h1" using closurize_represents [OF ps(2)] by blast
  obtain w2 h2 where 2: "closurize h1 (clo_value a2) (clo_env a2) = Some (w2, h2)" "represents h2 w2 (snd p)"
    "keeps_data h1 h2" using closurize_represents [OF keeps_dataD [OF 1(3) ps(3)]] by blast
  have k2: "keeps_data (vm_heap vm) h2" and w1: "represents h2 w1 (fst p)"
    using 1 2 keeps_data_trans keeps_dataD by blast+
  let ?pend = "map (\<lambda>(c1, c2). EqItem c1 c2) subs @ s"
  let ?vm2 = "vm\<lparr>vm_stack := stack_bytes sz ?pend, vm_heap := h2\<rparr>"
  let ?t = "closure_of_value (TermV (Op2 (BinOp Eq) w1 w2))"
  have ans: "eq_answer sz vm True = Some (Inr ?t, ?vm2)"
    using Cons.prems(3) cc 1(1) 2(1) by (simp add: eq_answer_def pop_eq_def stack_pop_bytes op_value_def)
  have dec: "decides host (fst p) (snd p)" using Cons.prems(2) ps(1) by simp
  have "represents (vm_heap ?vm2) w1 (fst p)" "represents (vm_heap ?vm2) w2 (snd p)" "vm_stack ?vm2 = stack_bytes sz ?pend"
    using w1 2(2) by simp_all
  from decidesD [OF dec this] obtain h3 where 3: "keeps_data h2 h3"
    "\<And>c vm'. eq_answer sz (?vm2\<lparr>vm_heap := h3\<rparr>) (data_eq (fst p) (snd p)) = Some (Inr c, vm') \<Longrightarrow> runs host sz (?vm2, ?t) (vm', c)"
    by auto
  let ?vm3 = "?vm2\<lparr>vm_heap := h3\<rparr>"
  have k3: "keeps_data (vm_heap vm) h3" using k2 3(1) by (rule keeps_data_trans)
  show ?case
  proof (cases "data_eq (fst p) (snd p)")
    case False
    have "dropWhile (\<lambda>it. item_marker it = MEq) ?pend = dropWhile (\<lambda>it. item_marker it = MEq) s"
      by (rule dropWhile_append2) auto
    then have same: "eq_answer sz ?vm3 False = eq_answer sz (vm\<lparr>vm_heap := h3, vm_stack := stack_bytes sz s\<rparr>) False"
      by (simp add: eq_answer_false)
    have "\<not> list_all (\<lambda>(x, y). data_eq x y) ps" using False ps(1) by (auto split: prod.splits)
    then show ?thesis using ans 3(2) False same k3 by (intro exI [of _ h3]) auto
  next
    case True
    have "list_all2 (pair_represents (vm_heap ?vm3)) subs qs" using ps(4) k3 pair_represents_keeps by auto
    moreover have "\<forall>q \<in> set qs. decides host (fst q) (snd q)" using Cons.prems(2) ps(1) by simp
    ultimately obtain h4 where 4: "keeps_data h3 h4"
      "\<And>c vm'. eq_answer sz (?vm3\<lparr>vm_heap := h4, vm_stack := stack_bytes sz s\<rparr>) (list_all (\<lambda>(x, y). data_eq x y) qs) = Some (Inr c, vm') \<Longrightarrow>
        \<exists>c1 vm1. eq_answer sz ?vm3 True = Some (Inr c1, vm1) \<and> runs host sz (vm1, c1) (vm', c)"
      using Cons.IH [of ?vm3 qs] by auto
    have eq: "list_all (\<lambda>(x, y). data_eq x y) ps = list_all (\<lambda>(x, y). data_eq x y) qs"
      using True ps(1) by (auto split: prod.splits)
    have "runs host sz (?vm2, ?t) (vm', c)"
      if ans4: "eq_answer sz (vm\<lparr>vm_heap := h4, vm_stack := stack_bytes sz s\<rparr>) (list_all (\<lambda>(x, y). data_eq x y) qs) = Some (Inr c, vm')" for c vm'
    proof -
      obtain c1 vm1 where "eq_answer sz ?vm3 True = Some (Inr c1, vm1)" "runs host sz (vm1, c1) (vm', c)"
        using 4(2) ans4 by auto
      then show ?thesis using 3(2) True runs_trans by auto
    qed
    then show ?thesis using ans eq 4(1) k3 keeps_data_trans by (intro exI [of _ h4]) auto
  qed
qed

text \<open>Both operands are evaluated before the step of the comparison.\<close>

lemma eq_operands:
  assumes "represents (vm_heap vm) w1 d1" and "represents (vm_heap vm) w2 d2" and st: "vm_stack vm = stack_bytes sz s"
  shows "\<exists>c1 c2 h. keeps_data (vm_heap vm) h \<and> represents h (clo_value c1) d1 \<and> represents h (clo_value c2) d2
    \<and> is_whnf (clo_value c1) \<and> is_whnf (clo_value c2)
    \<and> (\<forall>c vm'. op_eq host sz (vm\<lparr>vm_heap := h\<rparr>) c1 c2 = Some (Inr c, vm') \<longrightarrow>
        runs host sz (vm, \<lparr>clo_value = TermV (Op2 (BinOp Eq) w1 w2), clo_env = e\<rparr>) (vm', c))"
proof -
  let ?first = "Op2FirstContItem (BinOp Eq) no_app_info \<lparr>clo_value = w2, clo_env = e\<rparr> 0"
  let ?vm1 = "vm\<lparr>vm_stack := stack_bytes sz (?first # s)\<rparr>"
  note step1 = machine_step_plain [OF eval_step_op2 [OF st, of "BinOp Eq" w1 w2 e], of host]
  obtain c1 h1 where 1: "runs host sz (?vm1, \<lparr>clo_value = w1, clo_env = e\<rparr>) (?vm1\<lparr>vm_heap := h1\<rparr>, c1)"
    "is_whnf (clo_value c1)" "represents h1 (clo_value c1) d1" "keeps_data (vm_heap vm) h1"
    using eval_operand [of ?vm1 w1 d1 ?first s host e] assms(1) by (auto simp: is_cont_def)
  let ?second = "Op2SecondContItem (BinOp Eq) no_app_info c1 0 0"
  let ?vm2 = "vm\<lparr>vm_stack := stack_bytes sz (?second # s), vm_heap := h1\<rparr>"
  have "eval_step sz (?vm1\<lparr>vm_heap := h1\<rparr>) c1 = Some (CallOp c1, ?vm1\<lparr>vm_heap := h1\<rparr>)"
    using eval_step_value [of "?vm1\<lparr>vm_heap := h1\<rparr>" ?first s "clo_value c1" "clo_env c1"] 1(2) by (simp add: is_cont_def)
  from machine_step_op [OF this, of host "\<lparr>clo_value = w2, clo_env = e\<rparr>" ?vm2]
  have step2: "machine_step host sz (?vm1\<lparr>vm_heap := h1\<rparr>) c1 = Some (Continue \<lparr>clo_value = w2, clo_env = e\<rparr>, ?vm2)"
    using continue_op2_first [of "?vm1\<lparr>vm_heap := h1\<rparr>" "BinOp Eq" no_app_info _ 0 s host c1] by simp
  have "represents h1 w2 d2" using assms(2) 1(4) by (rule keeps_dataD [rotated])
  then obtain c2 h2 where 2: "runs host sz (?vm2, \<lparr>clo_value = w2, clo_env = e\<rparr>) (?vm2\<lparr>vm_heap := h2\<rparr>, c2)"
    "is_whnf (clo_value c2)" "represents h2 (clo_value c2) d2" "keeps_data h1 h2"
    using eval_operand [of ?vm2 w2 d2 ?second s host e] by (auto simp: is_cont_def)
  have call: "eval_step sz (?vm2\<lparr>vm_heap := h2\<rparr>) c2 = Some (CallOp c2, ?vm2\<lparr>vm_heap := h2\<rparr>)"
    using eval_step_value [of "?vm2\<lparr>vm_heap := h2\<rparr>" ?second s "clo_value c2" "clo_env c2"] 2(2) by (simp add: is_cont_def)
  have last_step: "machine_step host sz (?vm2\<lparr>vm_heap := h2\<rparr>) c2 = Some (Continue c, vm')"
    if op: "op_eq host sz (vm\<lparr>vm_heap := h2\<rparr>) c1 c2 = Some (Inr c, vm')" for c vm'
  proof -
    have "vm\<lparr>vm_heap := h2, vm_stack := stack_bytes sz s\<rparr> = vm\<lparr>vm_heap := h2\<rparr>" using st by simp
    then have "continue_op host sz (?vm2\<lparr>vm_heap := h2\<rparr>) c2 = Some (Inr c, vm')"
      using continue_op2_second [of "?vm2\<lparr>vm_heap := h2\<rparr>" "BinOp Eq" no_app_info c1 0 0 s host c2] op
      by (simp add: eval_op2_def)
    then show ?thesis using machine_step_op [OF call] by blast
  qed
  have "runs host sz (vm, \<lparr>clo_value = TermV (Op2 (BinOp Eq) w1 w2), clo_env = e\<rparr>) (vm', c)"
    if "op_eq host sz (vm\<lparr>vm_heap := h2\<rparr>) c1 c2 = Some (Inr c, vm')" for c vm'
  proof -
    have "runs host sz (?vm2, \<lparr>clo_value = w2, clo_env = e\<rparr>) (vm', c)"
      using 2(1) runs_step [OF last_step [OF that] runs_refl] by (rule runs_trans)
    then show ?thesis using runs_step [OF step1] runs_trans [OF 1(1)] runs_step [OF step2] by blast
  qed
  moreover have "keeps_data (vm_heap vm) h2" "represents h2 (clo_value c1) d1" using 1 2 keeps_data_trans keeps_dataD by blast+
  ultimately show ?thesis using 1(2) 2(2,3) by blast
qed

lemma decides_all:
  assumes sr: "swap_removal (host_swap_remove host)"
  shows "decides host d1 d2"
proof (induction d1 arbitrary: d2 rule: measure_induct_rule [of size])
  case (less d1)
  show ?case unfolding decides_def
  proof (intro allI impI)
    fix vm :: vm and s w1 w2 e
    assume r: "represents (vm_heap vm) w1 d1" "represents (vm_heap vm) w2 d2" and st: "vm_stack vm = stack_bytes sz s"
    obtain c1 c2 h where ops: "keeps_data (vm_heap vm) h" "represents h (clo_value c1) d1" "represents h (clo_value c2) d2"
      "is_whnf (clo_value c1)" "is_whnf (clo_value c2)"
      "\<And>c vm'. op_eq host sz (vm\<lparr>vm_heap := h\<rparr>) c1 c2 = Some (Inr c, vm') \<Longrightarrow>
        runs host sz (vm, \<lparr>clo_value = TermV (Op2 (BinOp Eq) w1 w2), clo_env = e\<rparr>) (vm', c)"
      using eq_operands [OF r st, of host e] by blast
    obtain r h' where eq: "eq (host_swap_remove host) h c1 c2 = Some (Inr r, h')" "eq_result_ok h' d1 d2 r" "keeps_data h h'"
      using eq_ok [OF sr ops(2-5), of "clo_env c1" "clo_env c2"] by auto
    have k: "keeps_data (vm_heap vm) h'" using ops(1) eq(3) by (rule keeps_data_trans)
    show "\<exists>h'. keeps_data (vm_heap vm) h' \<and> (\<forall>c vm'. eq_answer sz (vm\<lparr>vm_heap := h'\<rparr>) (data_eq d1 d2) = Some (Inr c, vm') \<longrightarrow>
      runs host sz (vm, \<lparr>clo_value = TermV (Op2 (BinOp Eq) w1 w2), clo_env = e\<rparr>) (vm', c))"
    proof (cases r)
      case (EqBool b)
      then have "op_eq host sz (vm\<lparr>vm_heap := h\<rparr>) c1 c2 = eq_answer sz (vm\<lparr>vm_heap := h'\<rparr>) (data_eq d1 d2)"
        using eq by (simp add: op_eq_def eq_result_ok_def)
      then show ?thesis using ops(6) k by (intro exI [of _ h']) auto
    next
      case (Eqs v1 v2 subs)
      then obtain p ps where p: "represents h' v1 (fst p)" "represents h' v2 (snd p)" "list_all2 (pair_represents h') subs ps"
        "\<forall>q \<in> set (p # ps). size (fst q) < size d1" "data_eq d1 d2 \<longleftrightarrow> list_all (\<lambda>(x, y). data_eq x y) (p # ps)"
        using eq(2) unfolding eq_result_ok_def Eqs eq_result.case by blast
      let ?pend = "map (\<lambda>(c1, c2). EqItem c1 c2) (rev subs)"
      let ?vm1 = "vm\<lparr>vm_heap := h', vm_stack := stack_bytes sz (?pend @ s)\<rparr>"
      let ?t = "closure_of_value (TermV (Op2 (BinOp Eq) v1 v2))"
      have op: "op_eq host sz (vm\<lparr>vm_heap := h\<rparr>) c1 c2 = Some (Inr ?t, ?vm1)"
        using eq(1) Eqs st by (simp add: op_eq_def op_value_def push_eqs_bytes rev_map)
      have dec: "decides host (fst p) (snd p)" using less p(4) by simp
      have "represents (vm_heap ?vm1) v1 (fst p)" "represents (vm_heap ?vm1) v2 (snd p)" "vm_stack ?vm1 = stack_bytes sz (?pend @ s)"
        using p(1,2) by simp_all
      from decidesD [OF dec this] obtain h3 where 3: "keeps_data h' h3" "\<And>c vm'. eq_answer sz (?vm1\<lparr>vm_heap := h3\<rparr>) (data_eq (fst p) (snd p)) = Some (Inr c, vm') \<Longrightarrow>
          runs host sz (?vm1, ?t) (vm', c)"
        by auto
      have k3: "keeps_data (vm_heap vm) h3" using k 3(1) by (rule keeps_data_trans)
      let ?vm3 = "?vm1\<lparr>vm_heap := h3\<rparr>"
      have start: "runs host sz (vm, \<lparr>clo_value = TermV (Op2 (BinOp Eq) w1 w2), clo_env = e\<rparr>) (?vm1, ?t)"
        by (rule ops(6) [OF op])
      show ?thesis
      proof (cases "data_eq (fst p) (snd p)")
        case False
        then have neq: "\<not> data_eq d1 d2" using p(5) by (auto split: prod.splits)
        have "dropWhile (\<lambda>it. item_marker it = MEq) (?pend @ s) = dropWhile (\<lambda>it. item_marker it = MEq) s"
          by (rule dropWhile_append2) auto
        then have "eq_answer sz ?vm3 False = eq_answer sz (vm\<lparr>vm_heap := h3\<rparr>) False"
          using st by (simp add: eq_answer_false)
        then show ?thesis using 3(2) False neq k3 runs_trans [OF start] by (intro exI [of _ h3]) auto
      next
        case True
        have "list_all2 (pair_represents (vm_heap ?vm3)) (rev subs) (rev ps)"
          using p(3) 3(1) pair_represents_keeps by (auto simp: list_all2_rev)
        moreover have "\<forall>q \<in> set (rev ps). decides host (fst q) (snd q)" using less p(4) by simp
        moreover have "vm_stack ?vm3 = stack_bytes sz (?pend @ s)" by simp
        ultimately obtain h4 where 4: "keeps_data h3 h4"
          "\<And>c vm'. eq_answer sz (?vm3\<lparr>vm_heap := h4, vm_stack := stack_bytes sz s\<rparr>) (list_all (\<lambda>(x, y). data_eq x y) (rev ps)) = Some (Inr c, vm') \<Longrightarrow>
            \<exists>c1 vm1. eq_answer sz ?vm3 True = Some (Inr c1, vm1) \<and> runs host sz (vm1, c1) (vm', c)"
          using eq_pending [of ?vm3 "rev subs" "rev ps" host s] by auto
        have b: "data_eq d1 d2 = list_all (\<lambda>(x, y). data_eq x y) (rev ps)"
          using p(5) True by (auto split: prod.splits)
        have same: "?vm3\<lparr>vm_heap := h4, vm_stack := stack_bytes sz s\<rparr> = vm\<lparr>vm_heap := h4\<rparr>" using st by simp
        have "runs host sz (?vm1, ?t) (vm', c)" if ans: "eq_answer sz (vm\<lparr>vm_heap := h4\<rparr>) (data_eq d1 d2) = Some (Inr c, vm')" for c vm'
        proof -
          obtain c1 vm1 where "eq_answer sz ?vm3 True = Some (Inr c1, vm1)" "runs host sz (vm1, c1) (vm', c)"
            using 4(2) ans unfolding b same by blast
          then show ?thesis using 3(2) True runs_trans by auto
        qed
        then show ?thesis using 4(1) k3 keeps_data_trans runs_trans [OF start] by (intro exI [of _ h4]) blast
      qed
    qed
  qed
qed

end


section \<open>Properties\<close>

text \<open>
  C3. On data the machine's \<open>==\<close> decides structural equality. For two values that represent trees of
  data, in any environment and over any stack whose top is not itself a pending comparison, the
  evaluation of the comparison ends with the boolean that says whether the trees are equal: arrays
  of the same length with equal elements, records with the same field names, in any order, and equal
  fields. The stack is what it was, the pairs still to compare are dropped when one differs, and every
  value that represented data still does.
\<close>

theorem eq_decides_data_equality:
  assumes "\<And>m. 0 < sz m" and "swap_removal (host_swap_remove host)"
    and "represents (vm_heap vm) v1 d1" and "represents (vm_heap vm) v2 d2"
    and "vm_stack vm = stack_bytes sz s" and "s = [] \<or> item_marker (hd s) \<noteq> MEq"
  shows "\<exists>n h'. machine_steps host sz n vm \<lparr>clo_value = TermV (Op2 (BinOp Eq) v1 v2), clo_env = e\<rparr>
      = Some (Continue (closure_of_value (Bool (data_eq d1 d2))), vm\<lparr>vm_heap := h'\<rparr>)
    \<and> keeps_data (vm_heap vm) h'"
proof -
  have sizes: "item_sizes sz" using assms(1) by unfold_locales
  have "item_sizes.decides sz host d1 d2" by (rule item_sizes.decides_all [OF sizes assms(2)])
  then obtain h' where h': "keeps_data (vm_heap vm) h'"
    "\<And>c vm'. eq_answer sz (vm\<lparr>vm_heap := h'\<rparr>) (data_eq d1 d2) = Some (Inr c, vm') \<Longrightarrow>
      runs host sz (vm, \<lparr>clo_value = TermV (Op2 (BinOp Eq) v1 v2), clo_env = e\<rparr>) (vm', c)"
    unfolding item_sizes.decides_def [OF sizes] using assms(3-5) by metis
  have "eq_answer sz (vm\<lparr>vm_heap := h'\<rparr>) (data_eq d1 d2) = Some (Inr (closure_of_value (Bool (data_eq d1 d2))), vm\<lparr>vm_heap := h'\<rparr>)"
    using item_sizes.eq_answer_end [OF sizes _ assms(6)] assms(5) by simp
  from h'(2) [OF this] show ?thesis using h'(1) by (auto simp: runs_def)
qed

theorem eq_decides_data_equality_witness:
  "\<exists>n h'. machine_steps plain_host word_sizes n
      \<lparr>vm_stack = [], vm_heap = [td_new (closure_of_value (Number 1))], vm_initial_env = Map.empty, vm_imports = Map.empty, vm_fresh = 0\<rparr>
      (closure_of_value (TermV (Op2 (BinOp Eq)
        (ArrayV (Alloc ([Thunk 0, Bool True], []))) (ArrayV (Alloc ([Number 2, Bool True], []))))))
    = Some (Continue (closure_of_value (Bool False)),
      \<lparr>vm_stack = [], vm_heap = h', vm_initial_env = Map.empty, vm_imports = Map.empty, vm_fresh = 0\<rparr>)"
proof -
  let ?h = "[td_new (closure_of_value (Number 1))]"
  let ?vm = "\<lparr>vm_stack = [], vm_heap = ?h, vm_initial_env = Map.empty, vm_imports = Map.empty, vm_fresh = 0\<rparr> :: vm"
  have t: "represents (vm_heap ?vm) (Thunk 0) (DNumber 1)"
    by (rule rep_thunk [where c = "closure_of_value (Number 1)"])
      (simp_all add: holds_value_def td_new_def td_closure_def closure_of_value_def rep_number)
  have 1: "represents (vm_heap ?vm) (ArrayV (Alloc ([Thunk 0, Bool True], []))) (DArray [DNumber 1, DBool True])"
    by (intro rep_array) (use t in \<open>simp add: rep_bool\<close>)
  have 2: "represents (vm_heap ?vm) (ArrayV (Alloc ([Number 2, Bool True], []))) (DArray [DNumber 2, DBool True])"
    by (intro rep_array) (simp add: rep_bool rep_number)
  have sr: "swap_removal (host_swap_remove plain_host)"
    unfolding plain_host_def by (simp add: index_map_removal.swap_removal_axioms)
  show ?thesis
    using eq_decides_data_equality [of word_sizes, OF word_stack.sz_pos sr 1 2, where s = "[]" and e = Map.empty]
    by (auto simp: stack_bytes.simps closure_of_value_def)
qed

end
