(* ===== verification/Primop_Props.thy ===== *)
theory Primop_Props
  imports Machine_Runs
begin

text \<open>
  Properties of single primitive operations: what insertion promises to the other operations on
  records, the remainder, the forcing of records without a defined field, the environments of
  substitution, and the run of sealing against unsealing.
\<close>

section \<open>Records\<close>

lemma as_record_mut_Alloc [simp]: "as_record_mut (RecordV (Alloc r)) = Some r"
  by (simp add: as_record_mut_def is_inline_empty_record_def)

text \<open>
  C13. Insertion, access and removal of a field fit together. For a record without the field \<open>x\<close>,
  and a value on the stack, insertion gives the record with the field and every other field as it was; reading
  \<open>x\<close> gives the value under the contracts it was inserted with, \<open>x\<close> is present and defined, and removing \<open>x\<close> gives
  the fields of the original record back, in some order.
\<close>

theorem record_insert_round_trip:
  assumes "\<And>m. 0 < sz m" and "swap_removal (host_swap_remove host)"
    and "as_record_mut v = Some r" and "im_wf (record_fields r)" and "x \<notin> fst ` set (record_fields r)"
    and "vm_stack vm = stack_bytes sz (ArgItem a pos # s)" and "closurize (vm_heap vm) (clo_value a) (clo_env a) = Some (w, h)"
  shows "\<exists>r' r''. let c = \<lparr>clo_value = RecordV (Alloc r'), clo_env = e\<rparr>;
                     vm' = vm\<lparr>vm_stack := stack_bytes sz s, vm_heap := h\<rparr>
    in eval_op2 host sz vm (RecordInsert md cs WithValue k) \<lparr>clo_value = String x, clo_env = env\<rparr> \<lparr>clo_value = v, clo_env = e\<rparr>
         = Some (Inr c, vm')
     \<and> map_of (record_fields r') = (map_of (record_fields r))(x \<mapsto> Field (Some w) md cs)
     \<and> eval_op1 host sz vm' (RecordAccess x) c = Some (Inr \<lparr>clo_value = contract_apply_all w cs, clo_env = e\<rparr>, vm')
     \<and> eval_op2 host sz vm' (BinOp (RecordFieldIsDefined k)) (closure_of_value (String x)) c
         = Some (Inr (closure_of_value (Bool True)), vm')
     \<and> eval_op2 host sz vm' (BinOp (RecordRemove k)) (closure_of_value (String x)) c
         = Some (Inr \<lparr>clo_value = RecordV (Alloc r''), clo_env = e\<rparr>, vm')
     \<and> mset (record_fields r'') = mset (record_fields r)"
proof -
  have sizes: "item_sizes sz" using assms(1) by unfold_locales
  let ?fld = "Field (Some w) md cs"
  let ?r' = "RecordData (im_insert x ?fld (record_fields r)) (record_attributes r) (record_sealed_tail r)"
  let ?rest = "snd (host_swap_remove host x (record_fields ?r'))"
  let ?r'' = "RecordData ?rest (record_attributes r) (record_sealed_tail r)"
  have wf: "im_wf (record_fields ?r')" using assms(4) by simp
  have fetched: "fst (host_swap_remove host x (record_fields ?r')) = Some ?fld"
    by (simp add: swap_removal.sr_value [OF assms(2)] assms(4))
  have "mset ?rest = filter_mset (\<lambda>kv. fst kv \<noteq> x) (mset (record_fields r @ [(x, ?fld)]))"
    using swap_removal.sr_rest [OF assms(2) wf, of x] by (simp add: im_insert_new [OF assms(5)])
  also have "\<dots> = mset (record_fields r)"
    using assms(5) by (auto simp: filter_mset_eq_conv image_iff)
  finally have rest: "mset (record_fields ?r'') = mset (record_fields r)" by simp
  have none: "map_of (record_fields r) x = None" using assms(5) by (simp add: map_of_eq_None_iff)
  have "pop_arg sz (vm_heap vm) (vm_stack vm) = Some (Some (a, pos), stack_bytes sz s)"
    using item_sizes.pop_arg_bytes [OF sizes, of "vm_heap vm" "ArgItem a pos # s"] assms(6) by simp
  then have ins: "eval_op2 host sz vm (RecordInsert md cs WithValue k) \<lparr>clo_value = String x, clo_env = env\<rparr> \<lparr>clo_value = v, clo_env = e\<rparr>
      = Some (Inr \<lparr>clo_value = RecordV (Alloc ?r'), clo_env = e\<rparr>, vm\<lparr>vm_stack := stack_bytes sz s, vm_heap := h\<rparr>)"
    using assms(3,7) none by (simp add: eval_op2_def op_record_insert_def arg_or_error_def with_arg_def Let_def op_ok_def)
  show ?thesis
    by (intro exI [of _ ?r'] exI [of _ ?r''], simp only: Let_def, intro conjI)
      (use ins rest fetched in \<open>simp_all add: eval_op1_def eval_op2_def op_record_access_def get_value_with_ctrs_def op_ok_def op_value_def
        op_record_field_is_defined_def op_record_test_def container_get_def container_fields_def is_empty_optional_def
        op_record_remove_def closure_of_value_def case_prod_unfold Let_def\<close>)
qed

theorem record_insert_round_trip_witness:
  "\<exists>r' r''. map_of (record_fields r') = (map_of [(''a'', field_of_value Null)])(''b'' \<mapsto> Field (Some (Number 1)) None [])
    \<and> eval_op1 plain_host word_sizes \<lparr>vm_stack = [], vm_heap = [], vm_initial_env = Map.empty, vm_imports = Map.empty, vm_fresh = 0\<rparr>
        (RecordAccess ''b'') (closure_of_value (RecordV (Alloc r')))
      = Some (Inr (closure_of_value (Number 1)), \<lparr>vm_stack = [], vm_heap = [], vm_initial_env = Map.empty, vm_imports = Map.empty, vm_fresh = 0\<rparr>)
    \<and> mset (record_fields r'') = {#(''a'', field_of_value Null)#}"
proof -
  let ?r = "RecordData [(''a'', field_of_value Null)] attrs_new None :: nrecord"
  let ?vm = "\<lparr>vm_stack = stack_bytes word_sizes [ArgItem (closure_of_value (Number 1)) 0], vm_heap = [], vm_initial_env = Map.empty,
    vm_imports = Map.empty, vm_fresh = 0\<rparr> :: vm"
  have sr: "swap_removal (host_swap_remove plain_host)"
    unfolding plain_host_def by (simp add: index_map_removal.swap_removal_axioms)
  have 1: "as_record_mut (RecordV (Alloc ?r)) = Some ?r" "im_wf (record_fields ?r)" "''b'' \<notin> fst ` set (record_fields ?r)"
    by (simp_all add: im_wf_def)
  have 2: "vm_stack ?vm = stack_bytes word_sizes [ArgItem (closure_of_value (Number 1)) 0]"
    "closurize (vm_heap ?vm) (clo_value (closure_of_value (Number 1))) (clo_env (closure_of_value (Number 1))) = Some (Number 1, [])"
    by (simp_all add: closurize_def closurize_as_btype_def closure_of_value_def)
  show ?thesis
    using record_insert_round_trip [of word_sizes, OF word_stack.sz_pos sr 1 2, where e = Map.empty and env = Map.empty and md = None and cs = "[]" and k = ConsiderAllFields]
    by (simp add: Let_def stack_bytes.simps closure_of_value_def contract_apply_all_def) blast
qed


section \<open>Numbers\<close>

lemma round_down_bounds:
  fixes q :: rat
  shows "\<bar>q - of_int (round_down q)\<bar> < 1" and "sgn (q - of_int (round_down q)) \<in> {0, sgn q}"
proof -
  have fl: "0 \<le> q - of_int \<lfloor>q\<rfloor>" "q - of_int \<lfloor>q\<rfloor> < 1" using floor_correct [of q] by linarith+
  have ce: "of_int \<lceil>q\<rceil> - q < 1" "0 \<le> of_int \<lceil>q\<rceil> - q" using ceiling_correct [of q] by linarith+
  show "\<bar>q - of_int (round_down q)\<bar> < 1" using fl ce by (auto simp: round_down_def)
  consider "q = 0" | "0 < q" | "q < 0" by linarith
  then show "sgn (q - of_int (round_down q)) \<in> {0, sgn q}"
    by cases (use fl ce in \<open>auto simp: round_down_def sgn_if simp del: of_int_floor_le le_of_int_ceiling\<close>)
qed

text \<open>
  The remainder of two numbers is the one of truncated division: the dividend is a whole multiple of
  the divisor plus the remainder, which is smaller than the divisor in absolute value and has the sign of the dividend.
  A zero divisor is an error.
\<close>

theorem modulo_is_truncated_remainder:
  "eval_op2 host sz vm (BinOp Modulo) \<lparr>clo_value = Number n1, clo_env = e1\<rparr> \<lparr>clo_value = Number n2, clo_env = e2\<rparr> =
    (if n2 = 0 then Some (Inl (OtherError ''division by zero (%)''), vm)
     else Some (Inr (closure_of_value (Number (n1 - of_int (round_down (n1 / n2)) * n2))), vm))
   \<and> (n2 = 0 \<or> \<bar>n1 - of_int (round_down (n1 / n2)) * n2\<bar> < \<bar>n2\<bar>
       \<and> sgn (n1 - of_int (round_down (n1 / n2)) * n2) \<in> {0, sgn n1})"
proof -
  let ?d = "n1 / n2 - of_int (round_down (n1 / n2))"
  have "n1 - of_int (round_down (n1 / n2)) * n2 = ?d * n2" if "n2 \<noteq> 0" using that by (simp add: left_diff_distrib)
  moreover have "sgn (n1 / n2) * sgn n2 = sgn n1" if "n2 \<noteq> 0" using that by (metis nonzero_eq_divide_eq sgn_mult)
  ultimately have "n2 = 0 \<or> \<bar>n1 - of_int (round_down (n1 / n2)) * n2\<bar> < \<bar>n2\<bar>
      \<and> sgn (n1 - of_int (round_down (n1 / n2)) * n2) \<in> {0, sgn n1}"
    using round_down_bounds [of "n1 / n2"] by (auto simp: abs_mult sgn_mult)
  then show ?thesis by (simp add: eval_op2_def op_modulo_def number_fn2_def op_err_def op_value_def Let_def)
qed

section \<open>Forcing\<close>

text \<open>
  C35. Forcing a record that has only optional fields without a definition with \<open>deep_seq\<close> panics,
  in any machine and with any stack, although such a record has nothing to force and \<open>%force%\<close>
  gives a result for it.
\<close>

theorem deep_seq_panics_on_empty_optionals:
  assumes "record_fields r \<noteq> []" and "has_only_empty_opts r"
  shows "eval_op1 host sz vm DeepSeq \<lparr>clo_value = RecordV (Alloc r), clo_env = e\<rparr> = None
    \<and> eval_op1 host sz vm (Force b) \<lparr>clo_value = RecordV (Alloc r), clo_env = e\<rparr>
        = Some (Inr (closure_of_value (record_value (RecordData [] (record_attributes r) None))), vm)"
proof -
  have empty: "list_all (\<lambda>(_, fld). is_empty_optional fld) (record_fields r)" "record_sealed_tail r = None"
    using assms(2) by (simp_all add: has_only_empty_opts_def)
  then have "iter_without_opts r = []"
    by (auto simp: iter_without_opts_def List.map_filter_def filter_empty_conv list_all_iff is_empty_optional_def split: option.split)
  then have "op_deep_seq sz vm (RecordV (Alloc r)) e = None" using assms(1) by (simp add: op_deep_seq_def deep_seq_terms_def)
  moreover have "filter (\<lambda>(_, fld). \<not> (is_empty_optional fld \<or> b \<and> shared_not_exported (field_metadata fld))) (record_fields r) = []"
    using empty(1) by (auto simp: filter_empty_conv list_all_iff)
  ultimately show ?thesis using empty(2)
    by (simp add: eval_op1_def op_force_def Let_def seq_terms_def im_from_iter_def im_extend_def op_value_def)
qed

theorem deep_seq_panics_on_empty_optionals_witness:
  "eval_op1 plain_host word_sizes \<lparr>vm_stack = [], vm_heap = [], vm_initial_env = Map.empty, vm_imports = Map.empty, vm_fresh = 0\<rparr> DeepSeq
    (closure_of_value (RecordV (Alloc (RecordData [(''foo'', Field None (Some (FieldMetadata None annotation_default True False Neutral)) [])]
      attrs_new None)))) = None"
proof -
  let ?r = "RecordData [(''foo'', Field None (Some (FieldMetadata None annotation_default True False Neutral)) [])] attrs_new None :: nrecord"
  have "record_fields ?r \<noteq> []" "has_only_empty_opts ?r"
    by (simp_all add: has_only_empty_opts_def is_empty_optional_def shared_opt_def)
  from deep_seq_panics_on_empty_optionals [OF this] show ?thesis by (simp add: closure_of_value_def)
qed

section \<open>Substitution\<close>

text \<open>
  C36. Substitution looks a variable up in the initial environment first: where a local binding shadows a name of
  the initial environment, evaluation reads the local one and substitution replaces the
  variable by the value of the initial one.
\<close>

theorem subst_ignores_shadowing:
  assumes "e x = Some a" and "initial_env x = Some b" and "cache_get h b = Some c" and "clo_value c = String s"
  shows "subst h (TermV (Var x)) initial_env e = Some (String s) \<and> get_var initial_env e x = Inr a"
proof -
  have "subst_target (TermV (Var x)) initial_env e = Some b" using assms(2) by (simp add: subst_target_def get_var_def option_or_def)
  moreover have "subst h (String s) initial_env (clo_env c) = Some (String s)"
    by (subst subst.simps) (simp add: subst_target_def subst_value_def)
  ultimately show ?thesis using assms by (subst subst.simps) (simp add: get_var_def option_or_def)
qed

theorem subst_ignores_shadowing_witness:
  "subst [td_new (closure_of_value (String ''local'')), td_new (closure_of_value (String ''initial''))]
      (TermV (Var ''x'')) [''x'' \<mapsto> 1] [''x'' \<mapsto> 0] = Some (String ''initial'')"
proof -
  let ?h = "[td_new (closure_of_value (String ''local'')), td_new (closure_of_value (String ''initial''))]"
  have "cache_get ?h 1 = Some (closure_of_value (String ''initial''))"
    by (simp add: cache_get_def thunk_get_owned_def heap_read_def td_new_def td_closure_def)
  from subst_ignores_shadowing [OF _ _ this, of "[''x'' \<mapsto> 0]" "''x''" 0 "[''x'' \<mapsto> 1]"] show ?thesis
    by (simp add: closure_of_value_def)
qed


section \<open>Sealing\<close>

lemma get_evaluated_arg_append:
  "get_evaluated_arg h l = Some arg \<Longrightarrow> get_evaluated_arg (h @ [td]) l = Some arg"
  by (auto simp: get_evaluated_arg_def cache_get_def thunk_get_owned_def heap_read_def nth_append split: option.splits if_splits)

context item_sizes begin

text \<open>A function on top of its argument binds it.\<close>

lemma machine_step_beta:
  "vm_stack vm = stack_bytes sz (ArgItem arg pos # s) \<Longrightarrow>
   machine_step host sz vm \<lparr>clo_value = TermV (Fun x body), clo_env = e\<rparr> =
     Some (Continue \<lparr>clo_value = body, clo_env = e(x \<mapsto> length (vm_heap vm))\<rparr>,
       vm\<lparr>vm_stack := stack_bytes sz s, vm_heap := vm_heap vm @ [td_new arg]\<rparr>)"
  by (rule machine_step_plain) (simp add: eval_step_def is_cont_def pop_arg_as_idx_bytes)

lemma unseal_operands:
  assumes st: "vm_stack vm = stack_bytes sz s"
    and op: "op_unseal vm (SealingKey k) (TermV (Sealed k' inner l)) e = Some (Inr c, vm')"
  shows "runs host sz (vm, \<lparr>clo_value = TermV (Op2 (BinOp Unseal) (SealingKey k) (TermV (Sealed k' inner l))), clo_env = e\<rparr>) (vm', c)"
proof -
  let ?sealed = "\<lparr>clo_value = TermV (Sealed k' inner l), clo_env = e\<rparr>"
  let ?first = "Op2FirstContItem (BinOp Unseal) no_app_info ?sealed 0"
  let ?key = "\<lparr>clo_value = SealingKey k, clo_env = e\<rparr>"
  let ?second = "Op2SecondContItem (BinOp Unseal) no_app_info ?key 0 0"
  let ?vm1 = "vm\<lparr>vm_stack := stack_bytes sz (?first # s)\<rparr>"
  let ?vm2 = "vm\<lparr>vm_stack := stack_bytes sz (?second # s)\<rparr>"
  note step1 = machine_step_plain [OF eval_step_op2 [OF st, of "BinOp Unseal" "SealingKey k" "clo_value ?sealed" e], of host]
  have "eval_step sz ?vm1 ?key = Some (CallOp ?key, ?vm1)"
    by (rule eval_step_value [of _ ?first s]) (simp_all add: is_cont_def)
  from machine_step_op [OF this, of host ?sealed ?vm2]
  have step2: "machine_step host sz ?vm1 ?key = Some (Continue ?sealed, ?vm2)"
    using continue_op2_first [of ?vm1 "BinOp Unseal" no_app_info ?sealed 0 s host ?key] by simp
  have "update_at_indices sz (vm_heap vm) (stack_bytes sz (?second # s)) ?sealed = Some (vm_heap vm, stack_bytes sz (?second # s))"
    by (subst update_at_indices.simps) (simp add: pop_update_index_bytes)
  then have call: "eval_step sz ?vm2 ?sealed = Some (CallOp ?sealed, ?vm2)"
    by (simp add: eval_step_def eval_sealed_def peek_sealed_cont_bytes)
  have "continue_op host sz ?vm2 ?sealed = Some (Inr c, vm')"
    using continue_op2_second [of ?vm2 "BinOp Unseal" no_app_info ?key 0 0 s host ?sealed] op vm_stack_same [OF st]
    by (simp add: eval_op2_def)
  from machine_step_op [OF call this] show ?thesis using runs_step [OF step1] runs_step [OF step2] runs_step by fastforce
qed

lemma unseal_same_key:
  assumes st: "vm_stack vm = stack_bytes sz s"
  shows "\<exists>vm' x. runs host sz
      (vm, \<lparr>clo_value = TermV (App (TermV (Op2 (BinOp Unseal) (SealingKey k) (TermV (Sealed k inner l)))) blame), clo_env = e\<rparr>)
      (vm', \<lparr>clo_value = inner, clo_env = e(x \<mapsto> length (vm_heap vm))\<rparr>)
    \<and> vm_stack vm' = vm_stack vm \<and> vm_heap vm' = vm_heap vm @ [td_new \<lparr>clo_value = blame, clo_env = e\<rparr>] \<and> is_generated x"
proof -
  let ?arg = "ArgItem \<lparr>clo_value = blame, clo_env = e\<rparr> 0"
  let ?vm1 = "vm\<lparr>vm_stack := stack_bytes sz (?arg # s)\<rparr>"
  let ?x = "fst (fresh_ident vm)" and ?vm2 = "?vm1\<lparr>vm_fresh := Suc (vm_fresh vm)\<rparr>"
  let ?vm3 = "?vm2\<lparr>vm_stack := stack_bytes sz s, vm_heap := vm_heap vm @ [td_new \<lparr>clo_value = blame, clo_env = e\<rparr>]\<rparr>"
  note step1 = machine_step_plain [OF eval_step_app [OF st, of "TermV (Op2 (BinOp Unseal) (SealingKey k) (TermV (Sealed k inner l)))" blame e], of host]
  have "op_unseal ?vm1 (SealingKey k) (TermV (Sealed k inner l)) e = Some (Inr \<lparr>clo_value = TermV (Fun ?x inner), clo_env = e\<rparr>, ?vm2)"
    by (simp add: op_unseal_def fresh_ident_def op_ok_def)
  from unseal_operands [OF _ this, of "?arg # s" host]
  have 2: "runs host sz (?vm1, \<lparr>clo_value = TermV (Op2 (BinOp Unseal) (SealingKey k) (TermV (Sealed k inner l))), clo_env = e\<rparr>)
      (?vm2, \<lparr>clo_value = TermV (Fun ?x inner), clo_env = e\<rparr>)" by simp
  have "machine_step host sz ?vm2 \<lparr>clo_value = TermV (Fun ?x inner), clo_env = e\<rparr>
      = Some (Continue \<lparr>clo_value = inner, clo_env = e(?x \<mapsto> length (vm_heap vm))\<rparr>, ?vm3)"
    using machine_step_beta [of ?vm2 "\<lparr>clo_value = blame, clo_env = e\<rparr>" 0 s host ?x inner e] by simp
  from runs_step [OF step1 runs_trans [OF 2 runs_step [OF this runs_refl]]]
  show ?thesis by (intro exI [of _ ?vm3] exI [of _ ?x] conjI) (simp_all add: st is_generated_def fresh_ident_def gen_ident_def)
qed

lemma unseal_other_key:
  assumes st: "vm_stack vm = stack_bytes sz s" and neq: "k \<noteq> k'" and arg: "get_evaluated_arg (vm_heap vm) bl = Some arg"
  shows "\<exists>n vm'. machine_steps host sz n vm \<lparr>clo_value =
      TermV (App (TermV (Op2 (BinOp Unseal) (SealingKey k) (TermV (Sealed k' inner l)))) (TermV (Op1 Blame (LabelV bl)))), clo_env = e\<rparr>
    = Some (Finished (Inl (BlameError bl arg)), vm')"
proof -
  let ?blame = "\<lparr>clo_value = TermV (Op1 Blame (LabelV bl)), clo_env = e\<rparr>"
  let ?a = "length (vm_heap vm)"
  let ?h = "vm_heap vm @ [(td_new ?blame)\<lparr>td_state := Blackholed\<rparr>]"
  let ?vm1 = "vm\<lparr>vm_stack := stack_bytes sz (ArgItem ?blame 0 # s)\<rparr>"
  let ?vm2 = "vm\<lparr>vm_stack := stack_bytes sz s, vm_heap := vm_heap vm @ [td_new ?blame]\<rparr>"
  let ?vm3 = "vm\<lparr>vm_stack := stack_bytes sz (UpdateIndexItem ?a # s), vm_heap := ?h\<rparr>"
  let ?cont = "Op1ContItem Blame no_app_info 0"
  let ?vm4 = "vm\<lparr>vm_stack := stack_bytes sz (?cont # UpdateIndexItem ?a # s), vm_heap := ?h\<rparr>"
  note step1 = machine_step_plain [OF eval_step_app [OF st, of "TermV (Op2 (BinOp Unseal) (SealingKey k) (TermV (Sealed k' inner l)))"
        "TermV (Op1 Blame (LabelV bl))" e], of host]
  have "op_unseal ?vm1 (SealingKey k) (TermV (Sealed k' inner l)) e = Some (Inr (closure_of_value id_fun), ?vm1)"
    using neq by (simp add: op_unseal_def op_value_def)
  from unseal_operands [OF _ this, of "ArgItem ?blame 0 # s" host]
  have 2: "runs host sz (?vm1, \<lparr>clo_value = TermV (Op2 (BinOp Unseal) (SealingKey k) (TermV (Sealed k' inner l))), clo_env = e\<rparr>)
      (?vm1, closure_of_value id_fun)" by simp
  have 3: "machine_step host sz ?vm1 (closure_of_value id_fun) = Some (Continue \<lparr>clo_value = TermV (Var ''x''), clo_env = [''x'' \<mapsto> ?a]\<rparr>, ?vm2)"
    using machine_step_beta [of ?vm1 ?blame 0 s host "''x''" "TermV (Var ''x'')" Map.empty] by (simp add: id_fun_def closure_of_value_def)
  have 4: "machine_step host sz ?vm2 \<lparr>clo_value = TermV (Var ''x''), clo_env = [''x'' \<mapsto> ?a]\<rparr> = Some (Continue ?blame, ?vm3)"
    by (rule machine_step_plain)
      (simp add: eval_step_def get_var_def option_or_def enter_cache_index_def get_update_index_def thunk_get_state_def heap_read_def td_new_def
        thunk_should_update_def thunk_borrow_def td_closure_def mk_update_frame_def cache_get_def thunk_get_owned_def
        push_update_index_def stack_push_bytes)
  have step5: "machine_step host sz ?vm3 ?blame = Some (Continue \<lparr>clo_value = LabelV bl, clo_env = e\<rparr>, ?vm4)"
    using machine_step_plain [OF eval_step_op1 [of ?vm3 "UpdateIndexItem ?a # s" Blame "LabelV bl" e], of host] by simp
  have "eval_step sz ?vm4 \<lparr>clo_value = LabelV bl, clo_env = e\<rparr> = Some (CallOp \<lparr>clo_value = LabelV bl, clo_env = e\<rparr>, ?vm4)"
    by (rule eval_step_value [of _ ?cont "UpdateIndexItem ?a # s"]) (simp_all add: is_cont_def)
  moreover have "continue_op host sz ?vm4 \<lparr>clo_value = LabelV bl, clo_env = e\<rparr> = Some (Inl (BlameError bl arg), ?vm3)"
    using continue_op1 [of ?vm4 Blame no_app_info 0 "UpdateIndexItem ?a # s" host "\<lparr>clo_value = LabelV bl, clo_env = e\<rparr>"]
      get_evaluated_arg_append [OF arg] by (simp add: eval_op1_def op_blame_def op_err_def)
  ultimately have 6: "machine_step host sz ?vm4 \<lparr>clo_value = LabelV bl, clo_env = e\<rparr> = Some (Finished (Inl (BlameError bl arg)), ?vm3)"
    using machine_step_call by fastforce
  have "runs host sz (vm, \<lparr>clo_value = TermV (App (TermV (Op2 (BinOp Unseal) (SealingKey k) (TermV (Sealed k' inner l))))
      (TermV (Op1 Blame (LabelV bl)))), clo_env = e\<rparr>) (?vm4, \<lparr>clo_value = LabelV bl, clo_env = e\<rparr>)"
    by (rule runs_step [OF step1 runs_trans [OF 2 runs_step [OF 3 runs_step [OF 4 runs_step [OF step5 runs_refl]]]]])
  from runs_steps [OF this] obtain m where
    "\<forall>n. machine_steps host sz (m + n) vm \<lparr>clo_value = TermV (App (TermV (Op2 (BinOp Unseal) (SealingKey k) (TermV (Sealed k' inner l))))
      (TermV (Op1 Blame (LabelV bl)))), clo_env = e\<rparr> = machine_steps host sz n ?vm4 \<lparr>clo_value = LabelV bl, clo_env = e\<rparr>" by blast
  moreover have "machine_steps host sz (Suc 0) ?vm4 \<lparr>clo_value = LabelV bl, clo_env = e\<rparr> = Some (Finished (Inl (BlameError bl arg)), ?vm3)"
    by (simp add: 6)
  ultimately show ?thesis by metis
qed

end

text \<open>
  C11. Sealing enforces parametricity. The expression that polymorphic contracts evaluate, \<open>unseal\<close> of
  a sealed value with a blame as the alternative, goes on with the sealed value, on the same stack, when the keys are
  the same, and ends by blaming the label when they differ.
\<close>

theorem unseal_opens_own_seal:
  assumes "\<And>m. 0 < sz m" and "vm_stack vm = stack_bytes sz s" and "get_evaluated_arg (vm_heap vm) bl = Some arg"
  shows "\<exists>n res vm'. machine_steps host sz n vm \<lparr>clo_value =
        TermV (App (TermV (Op2 (BinOp Unseal) (SealingKey k) (TermV (Sealed k' inner l)))) (TermV (Op1 Blame (LabelV bl)))), clo_env = e\<rparr>
      = Some (res, vm')
    \<and> (if k = k' then \<exists>x a. res = Continue \<lparr>clo_value = inner, clo_env = e(x \<mapsto> a)\<rparr> \<and> is_generated x \<and> vm_stack vm' = vm_stack vm
       else res = Finished (Inl (BlameError bl arg)))"
proof -
  have sizes: "item_sizes sz" using assms(1) by unfold_locales
  show ?thesis
  proof (cases "k = k'")
    case True
    then show ?thesis
      using item_sizes.unseal_same_key [OF sizes assms(2), of host k inner l "TermV (Op1 Blame (LabelV bl))" e] by (auto simp: runs_def) blast
  next
    case False
    then show ?thesis using item_sizes.unseal_other_key [OF sizes assms(2) False assms(3)] by auto
  qed
qed

theorem unseal_opens_own_seal_witness:
  "\<exists>n vm'. machine_steps plain_host word_sizes n
      \<lparr>vm_stack = [], vm_heap = [], vm_initial_env = Map.empty, vm_imports = Map.empty, vm_fresh = 0\<rparr>
      (closure_of_value (TermV (App (TermV (Op2 (BinOp Unseal) (SealingKey 1) (TermV (Sealed 2 Null label_default))))
        (TermV (Op1 Blame (LabelV label_default))))))
    = Some (Finished (Inl (BlameError label_default None)), vm')"
proof -
  let ?vm = "\<lparr>vm_stack = [], vm_heap = [], vm_initial_env = Map.empty, vm_imports = Map.empty, vm_fresh = 0\<rparr> :: vm"
  have "vm_stack ?vm = stack_bytes word_sizes []" "get_evaluated_arg (vm_heap ?vm) label_default = Some None"
    by (simp_all add: stack_bytes.simps get_evaluated_arg_def label_default_def)
  from unseal_opens_own_seal [of word_sizes, OF word_stack.sz_pos this, where k = 1 and k' = 2 and e = Map.empty] show ?thesis
    by (auto simp: closure_of_value_def)
qed

end
