(* ===== verification/Serialize_Props.thy ===== *)
theory Serialize_Props
  imports Serialize_Validate Machine_Runs
begin

text \<open>
  What \<open>validate\<close> promises: a value passes exactly when nothing in it is unsupported by the format, and
  an error comes with the path to the value that caused it.
\<close>

section \<open>Specification\<close>

text \<open>The values in a value, by path: the elements of arrays and the serializable fields of records.\<close>

inductive reaches :: "nickel_value \<Rightarrow> pointer_elem list \<Rightarrow> nickel_value \<Rightarrow> bool" where
  reaches_here: "reaches v [] v"
| reaches_index: "i < length (fst d) \<Longrightarrow> reaches (fst d ! i) p w \<Longrightarrow> reaches (ArrayV (Alloc d)) (PointerIndex i # p) w"
| reaches_field: "(x, fld) \<in> set (record_fields r) \<Longrightarrow> serializable_field (x, fld) \<Longrightarrow> field_value fld = Some v \<Longrightarrow> reaches v p w \<Longrightarrow>
    reaches (RecordV (Alloc r)) (PointerField x # p) w"

inductive_cases reaches_leafE: "reaches v (q # p) w"
inductive_cases reaches_arrayE: "reaches (ArrayV (Alloc d)) p w"
inductive_cases reaches_recordE: "reaches (RecordV (Alloc r)) p w"

text \<open>What makes a value unsupported by itself.\<close>

definition unsupported :: "export_format \<Rightarrow> nickel_value \<Rightarrow> export_error_kind option" where
  "unsupported fmt v =
    (case v of
       Null \<Rightarrow> if fmt = Json \<or> fmt = Yaml then None else Some (UnsupportedNull fmt v)
     | Number n \<Rightarrow> if \<bar>n\<bar> \<le> NUMBER_MAX then None else Some (NumberOutOfRange v n)
     | Bool _ \<Rightarrow> None | String _ \<Rightarrow> None | EnumVariant _ None \<Rightarrow> None | ArrayV _ \<Rightarrow> None | RecordV _ \<Rightarrow> None
     | _ \<Rightarrow> Some (NonSerializable v))"

text \<open>Evaluated and forced values: every field to serialize has a value, and no contract is pending.\<close>

definition forced :: "nickel_value \<Rightarrow> bool" where
  "forced v \<longleftrightarrow> (\<forall>p r x fld. reaches v p (RecordV (Alloc r)) \<longrightarrow> (x, fld) \<in> set (record_fields r) \<longrightarrow>
    field_pending_contracts fld = [] \<and> (serializable_field (x, fld) \<longrightarrow> field_value fld \<noteq> None))"

section \<open>The traversal\<close>

lemma forced_index: "forced (ArrayV (Alloc d)) \<Longrightarrow> i < length (fst d) \<Longrightarrow> forced (fst d ! i)"
  unfolding forced_def by (meson reaches_index)

lemma forced_field:
  "forced (RecordV (Alloc r)) \<Longrightarrow> (x, fld) \<in> set (record_fields r) \<Longrightarrow> serializable_field (x, fld) \<Longrightarrow> field_value fld = Some v \<Longrightarrow> forced v"
  unfolding forced_def by (meson reaches_field)

lemma forced_here:
  "forced (RecordV (Alloc r)) \<Longrightarrow> (x, fld) \<in> set (record_fields r) \<Longrightarrow>
    field_pending_contracts fld = [] \<and> (serializable_field (x, fld) \<longrightarrow> field_value fld \<noteq> None)"
  unfolding forced_def using reaches_here by blast

lemma try_for_each_all:
  assumes "\<And>x. x \<in> set xs \<Longrightarrow> f x \<noteq> None"
  shows "try_for_each f xs = Some (Inr ()) \<and> (\<forall>x \<in> set xs. f x = Some (Inr ()))
    \<or> (\<exists>x \<in> set xs. \<exists>err. f x = Some (Inl err) \<and> try_for_each f xs = Some (Inl err))"
  using assms
proof (induction xs)
  case (Cons x xs)
  then obtain r where r: "f x = Some r" by auto
  show ?case using Cons r by (cases r) auto
qed simp

lemma at_elem_iff [simp]:
  "at_elem p r = Some (Inr ()) \<longleftrightarrow> r = Some (Inr ())"
  "at_elem p r = Some (Inl err) \<longleftrightarrow> (\<exists>err'. r = Some (Inl err') \<and> err = with_elem p err')"
  "at_elem p r = None \<longleftrightarrow> r = None"
  unfolding at_elem_def by (cases r; cases "the r"; auto)+

text \<open>The outcome of a traversal: the path is still reversed.\<close>

definition outcome_ok :: "export_format \<Rightarrow> nickel_value \<Rightarrow> bool" where
  "outcome_ok fmt v \<longleftrightarrow>
    do_validate fmt v = Some (Inr ()) \<and> (\<forall>p w. reaches v p w \<longrightarrow> unsupported fmt w = None)
    \<or> (\<exists>err w. do_validate fmt v = Some (Inl err) \<and> reaches v (rev (export_path err)) w \<and> unsupported fmt w = Some (export_kind err))"

lemma outcome_leaf:
  assumes "\<And>p w. reaches v p w \<Longrightarrow> p = [] \<and> w = v"
    and "do_validate fmt v = Some (case unsupported fmt v of None \<Rightarrow> Inr () | Some k \<Rightarrow> Inl (export_error_of k))"
  shows "outcome_ok fmt v"
  using assms reaches_here [of v] unfolding outcome_ok_def by (cases "unsupported fmt v") (auto simp: export_error_of_def)

lemma outcome_array:
  assumes "\<And>i. i < length (fst d) \<Longrightarrow> outcome_ok fmt (fst d ! i)"
  shows "outcome_ok fmt (ArrayV (Alloc d))"
proof -
  let ?f = "\<lambda>(i, v). at_elem (PointerIndex i) (do_validate fmt v)"
  have "?f x \<noteq> None" if x: "x \<in> set (enumerate 0 (fst d))" for x
    using assms [of "fst x"] x by (auto simp: in_set_enumerate_eq outcome_ok_def at_elem_def split: prod.splits)
  from try_for_each_all [of "enumerate 0 (fst d)" ?f, OF this] consider
    (all) "do_validate fmt (ArrayV (Alloc d)) = Some (Inr ())" "\<forall>x \<in> set (enumerate 0 (fst d)). ?f x = Some (Inr ())"
    | (err) x err where "x \<in> set (enumerate 0 (fst d))" "?f x = Some (Inl err)" "do_validate fmt (ArrayV (Alloc d)) = Some (Inl err)"
    by auto
  then show ?thesis
  proof cases
    case all
    have "unsupported fmt w = None" if "reaches (ArrayV (Alloc d)) p w" for p w
    proof -
      from that consider "w = ArrayV (Alloc d)" | i p' where "i < length (fst d)" "reaches (fst d ! i) p' w"
        by (auto elim: reaches_arrayE)
      then show ?thesis
      proof cases
        case (2 i p')
        then have "do_validate fmt (fst d ! i) = Some (Inr ())"
          using bspec [OF all(2), of "(i, fst d ! i)"] by (simp add: in_set_enumerate_eq)
        then show ?thesis using assms [OF 2(1)] 2(2) by (auto simp: outcome_ok_def)
      qed (simp add: unsupported_def)
    qed
    then show ?thesis using all(1) by (simp add: outcome_ok_def)
  next
    case (err x err)
    obtain i v where x: "x = (i, v)" by (cases x)
    then have i: "i < length (fst d)" "v = fst d ! i" using err(1) by (auto simp: in_set_enumerate_eq)
    then obtain err' where e: "do_validate fmt (fst d ! i) = Some (Inl err')" "err = with_elem (PointerIndex i) err'"
      using err(2) x by auto
    then obtain w where "reaches (fst d ! i) (rev (export_path err')) w" "unsupported fmt w = Some (export_kind err')"
      using assms [OF i(1)] by (auto simp: outcome_ok_def)
    then show ?thesis unfolding outcome_ok_def using err(3) e(2) reaches_index [OF i(1)]
      by (intro disjI2 exI [of _ err] exI [of _ w]) (simp add: with_elem_def)
  qed
qed

lemma outcome_record:
  assumes forced: "forced (RecordV (Alloc r))"
    and field: "\<And>x fld v. (x, fld) \<in> set (record_fields r) \<Longrightarrow> serializable_field (x, fld) \<Longrightarrow> field_value fld = Some v \<Longrightarrow> outcome_ok fmt v"
  shows "outcome_ok fmt (RecordV (Alloc r))"
proof -
  let ?f = "\<lambda>xf. do {
        assert_ok (field_pending_contracts (snd xf) = []);
        if \<not> serializable_field xf then Some (Inr ())
        else case field_value (snd xf) of
          None \<Rightarrow> None
        | Some v \<Rightarrow> at_elem (PointerField (fst xf)) (do_validate fmt v) }"
  have f: "?f (x, fld) = (if \<not> serializable_field (x, fld) then Some (Inr ())
      else at_elem (PointerField x) (do_validate fmt (the (field_value fld))))" if "(x, fld) \<in> set (record_fields r)" for x fld
    using forced_here [OF forced that] by (auto simp: assert_ok_def)
  have has_value: "\<exists>v. field_value fld = Some v" if "(x, fld) \<in> set (record_fields r)" "serializable_field (x, fld)" for x fld
    using forced_here [OF forced that(1)] that(2) by auto
  have "?f xf \<noteq> None" if "xf \<in> set (record_fields r)" for xf
    using f [of "fst xf" "snd xf"] that field [of "fst xf" "snd xf"] has_value [of "fst xf" "snd xf"]
    by (auto simp: outcome_ok_def at_elem_def)
  from try_for_each_all [of "record_fields r" ?f, OF this] consider
    (all) "do_validate fmt (RecordV (Alloc r)) = Some (Inr ())" "\<forall>xf \<in> set (record_fields r). ?f xf = Some (Inr ())"
    | (err) x fld err where "(x, fld) \<in> set (record_fields r)" "?f (x, fld) = Some (Inl err)" "do_validate fmt (RecordV (Alloc r)) = Some (Inl err)"
    by auto
  then show ?thesis
  proof cases
    case all
    have "unsupported fmt w = None" if "reaches (RecordV (Alloc r)) p w" for p w
    proof -
      from that consider "w = RecordV (Alloc r)"
        | x fld v p' where "(x, fld) \<in> set (record_fields r)" "serializable_field (x, fld)" "field_value fld = Some v" "reaches v p' w"
        by (auto elim: reaches_recordE)
      then show ?thesis
      proof cases
        case (2 x fld v p')
        have "at_elem (PointerField x) (do_validate fmt v) = Some (Inr ())"
          using bspec [OF all(2) 2(1)] f [OF 2(1)] 2(2,3) by simp
        then have "do_validate fmt v = Some (Inr ())" by simp
        then show ?thesis using field [OF 2(1-3)] 2(4) by (auto simp: outcome_ok_def)
      qed (simp add: unsupported_def)
    qed
    then show ?thesis using all(1) by (simp add: outcome_ok_def)
  next
    case (err x fld err)
    then have ser: "serializable_field (x, fld)" using f [OF err(1)] by (auto split: if_splits)
    then obtain v where v: "field_value fld = Some v" using has_value [OF err(1)] by blast
    then have "at_elem (PointerField x) (do_validate fmt v) = Some (Inl err)" using err(2) f [OF err(1)] ser by simp
    then obtain err' where e: "do_validate fmt v = Some (Inl err')" "err = with_elem (PointerField x) err'" by auto
    then obtain w where "reaches v (rev (export_path err')) w" "unsupported fmt w = Some (export_kind err')"
      using field [OF err(1) ser v] by (auto simp: outcome_ok_def)
    then show ?thesis unfolding outcome_ok_def using err(3) e(2) reaches_field [OF err(1) ser v]
      by (intro disjI2 exI [of _ err] exI [of _ w]) (simp add: with_elem_def)
  qed
qed

text \<open>Numbers are bounded symmetrically.\<close>

lemma number_bounds: "NUMBER_MIN \<le> n \<and> n \<le> NUMBER_MAX \<longleftrightarrow> \<bar>n\<bar> \<le> NUMBER_MAX"
  by (auto simp: NUMBER_MIN_def abs_le_iff)

lemma outcome_all: "forced v \<Longrightarrow> outcome_ok fmt v"
proof (induction v rule: measure_induct_rule [of size])
  case (less v)
  consider (arr) d where "v = ArrayV (Alloc d)" | (rcd) r where "v = RecordV (Alloc r)"
    | (leaf) "\<And>p w. reaches v p w \<Longrightarrow> p = [] \<and> w = v" "\<And>d. v \<noteq> ArrayV (Alloc d)" "\<And>r. v \<noteq> RecordV (Alloc r)"
    by (metis reaches.cases)
  then show ?case
  proof cases
    case (arr d)
    have "size (fst d ! i) < size v" if "i < length (fst d)" for i
      using size_list_estimation' [of "fst d ! i" "fst d" "size (fst d ! i)" size] that by (cases d) (simp add: arr)
    then show ?thesis unfolding arr by (intro outcome_array less.IH) (use less.prems arr forced_index in auto)
  next
    case (rcd r)
    have "size w < size v" if "(x, fld) \<in> set (record_fields r)" "field_value fld = Some w" for x fld w
      using size_value [OF that(2)] size_record_field [OF that(1)] by (simp add: rcd)
    then show ?thesis unfolding rcd by (intro outcome_record less.IH) (use less.prems rcd forced_field in auto)
  next
    case leaf
    show ?thesis
    proof (rule outcome_leaf [OF leaf(1)])
      show "do_validate fmt v = Some (case unsupported fmt v of None \<Rightarrow> Inr () | Some k \<Rightarrow> Inl (export_error_of k))"
      proof (cases v)
        case (ArrayV d)
        then show ?thesis using leaf(2) by (cases d) (simp_all add: unsupported_def)
      next
        case (RecordV d)
        then show ?thesis using leaf(3) by (cases d) (simp_all add: unsupported_def)
      next
        case (EnumVariant tag arg)
        then show ?thesis by (cases arg) (simp_all add: unsupported_def)
      qed (simp_all add: unsupported_def number_bounds)
    qed
  qed
qed

section \<open>Properties\<close>

text \<open>
  C12. Validation before export is exact and locates the error. On a forced value and for a structured format
  it never panics; it accepts the value exactly when no value reachable through array elements and
  exported fields is unsupported (null where the format has none, a number out of the range of a double, a function, a
  variant with an argument and the like); otherwise the path it reports, from the outside in, leads to a value
  that is unsupported for the reported reason.
\<close>

theorem validate_locates_error:
  assumes "forced v" and "fmt \<noteq> Text"
  shows "(validate fmt v = Some (Inr ()) \<longleftrightarrow> (\<forall>p w. reaches v p w \<longrightarrow> unsupported fmt w = None))
    \<and> (validate fmt v = Some (Inr ()) \<or>
       (\<exists>err w. validate fmt v = Some (Inl err) \<and> reaches v (export_path err) w \<and> unsupported fmt w = Some (export_kind err)))"
proof -
  have "validate fmt v = map_option (map_sum (export_path_update rev) id) (do_validate fmt v)"
    using assms(2) by (simp add: validate_def)
  then show ?thesis using outcome_all [OF assms(1), of fmt] unfolding outcome_ok_def by fastforce
qed

theorem validate_locates_error_witness:
  "\<exists>err w. validate Toml (ArrayV (Alloc ([Bool True, Null], []))) = Some (Inl err)
    \<and> reaches (ArrayV (Alloc ([Bool True, Null], []))) (export_path err) w \<and> unsupported Toml w = Some (export_kind err)"
proof -
  let ?v = "ArrayV (Alloc ([Bool True, Null], []))"
  have "\<not> reaches ?v p (RecordV (Alloc r))" for p r
    by (auto elim!: reaches_arrayE reaches.cases [of "Bool True"] reaches.cases [of Null] simp: less_Suc_eq nth_Cons')
  then have f: "forced ?v" by (simp add: forced_def)
  have "reaches ?v [PointerIndex 1] Null" using reaches_index [of 1 "([Bool True, Null], [])" "[]" Null] by (simp add: reaches_here)
  moreover have "unsupported Toml Null \<noteq> None" by (simp add: unsupported_def)
  ultimately show ?thesis using validate_locates_error [OF f, of Toml] by (metis export_format.distinct(7))
qed

end
