(* ===== verification/Machine_Safety.thy ===== *)
theory Machine_Safety
  imports Machine_Runs
begin

text \<open>
  Safety of the whole machine. \<open>well_formed\<close> is the invariant of the stack and the heap that every
  iteration of the loop keeps, whatever primitive operation it runs: the stack is a sequence of
  typed items, its update frames are for distinct thunks, each of them allocated and black-holed.
  The heap part is the contract \<open>heap_growth_any\<close>, which merging and contract application satisfy.
\<close>

section \<open>Merging and the heap\<close>

text \<open>Saturation copies a thunk with its state, so that it may allocate a black-holed one.\<close>

locale heap_growth_any = heap_growth +
  assumes alloc_any: "R h (h @ [td])"
begin

lemma thunk_saturate_R: "thunk_saturate h a flds = Some (v, h') \<Longrightarrow> R h h'"
  by (auto simp: thunk_saturate_def heap_alloc_def Let_def intro: alloc_any split: bind_splits)

lemma saturate_value_R: "saturate_value h v flds = Some (v', h') \<Longrightarrow> R h h'"
  by (auto simp: saturate_value_def dest: thunk_saturate_R split: nickel_value.splits)

lemma revert_value_R: "revert_value h v = Some (v', h') \<Longrightarrow> R h h'"
  by (auto simp: revert_value_def thunk_revert_def heap_alloc_def intro: alloc_any
      split: nickel_value.splits bind_splits inner_thunk_data.splits)

lemma revert_contracts_R: "revert_contracts h cs = Some (cs', h') \<Longrightarrow> R h h'"
proof (induction cs arbitrary: h cs')
  case (Cons c cs)
  then obtain c' h1 cs1 where "revert_contract h c = Some (c', h1)" "revert_contracts h1 cs = Some (cs1, h')"
    by (auto split: bind_splits)
  then show ?case using Cons.IH trans by (auto simp: revert_contract_def split: bind_splits dest!: revert_value_R)
qed simp

lemma revert_option_R: "revert_option h v = Some (v', h') \<Longrightarrow> R h h'"
  by (cases v) (auto split: bind_splits dest: revert_value_R)

lemma revert_field_R: "revert_field h fld = Some (fld', h') \<Longrightarrow> R h h'"
  by (auto simp: revert_field_def split: bind_splits dest!: revert_option_R revert_contracts_R intro: trans)

lemma revert_fields_R: "revert_fields h flds = Some (flds', h') \<Longrightarrow> R h h'"
proof (induction flds arbitrary: h flds')
  case (Cons xf flds)
  then obtain fld' h1 flds1 where "revert_field h (snd xf) = Some (fld', h1)" "revert_fields h1 flds = Some (flds1, h')"
    by (cases xf) (auto split: bind_splits)
  then show ?case using Cons.IH revert_field_R trans by blast
qed simp

lemma fixpoint_revert_R: "fixpoint_revert h r = Some (t, h') \<Longrightarrow> R h h'"
  by (auto simp: fixpoint_revert_def split: bind_splits dest: revert_fields_R)

lemma fields_merge_closurize_R:
  assumes "fields_merge_closurize h ml t1 t2 flds = Some (v, h')"
  shows "R h h'"
proof -
  obtain s1 h1 s2 h2 a d where run: "saturate_value h t1 flds = Some (s1, h1)" "saturate_value h1 t2 flds = Some (s2, h2)"
    "cache_add h2 (closure_of_value (TermV (Op2 (BinOp (Merge ml)) s1 s2))) d = (a, h')"
    using assms by (auto simp: fields_merge_closurize_def Let_def split: bind_splits prod.splits)
  show ?thesis using saturate_value_R [OF run(1)] saturate_value_R [OF run(2)] cache_add_R [OF run(3)] trans by blast
qed

lemma merge_field_values_R: "merge_field_values h ml v1 p1 v2 p2 flds = Some (r, h') \<Longrightarrow> R h h'"
  by (auto simp: merge_field_values_def split: if_splits bind_splits dest: fields_merge_closurize_R revert_value_R)

lemma merge_fields_R: "merge_fields ceq teq h ml f1 f2 flds = Some (fld, h') \<Longrightarrow> R h h'"
  by (auto simp: merge_fields_def Let_def split: bind_splits
      dest!: merge_field_values_R revert_contracts_R) (metis trans)

lemma merge_center_R: "merge_center ceq teq ml names center m h = Some (m', h') \<Longrightarrow> R h h'"
proof (induction center arbitrary: m h)
  case (Cons c center)
  obtain x f1 f2 where c: "c = (x, f1, f2)" by (cases c)
  from Cons.prems obtain fld h1 where "merge_fields ceq teq h ml f1 f2 names = Some (fld, h1)"
    "merge_center ceq teq ml names center (im_insert x fld m) h1 = Some (m', h')" by (auto simp: c split: bind_splits)
  then show ?case using Cons.IH merge_fields_R trans by blast
qed simp

lemma merge_records_R: "merge_records sr ceq teq h r1 r2 mode = Some (r, h') \<Longrightarrow> R h h'"
  by (auto simp: merge_records_def Let_def split: option.splits if_splits bind_splits
      dest!: revert_fields_R merge_center_R) (metis trans)

lemma merge_operands_R:
  assumes "merge_operands sr ceq teq h v1 env1 v2 env2 mode = Some (r, h')"
  shows "R h h'"
  using assms unfolding merge_operands_def
  by (cases v1; cases v2)
    (auto simp: Let_def split: if_splits bind_splits container.splits dest!: closurize_R merge_records_R, (metis trans)+)

lemma merge_R: "merge sr ceq teq h v1 env1 v2 env2 mode = Some (r, h') \<Longrightarrow> R h h'"
  by (auto simp: merge_def split: bind_splits sum.splits merge_mode.splits dest!: merge_operands_R closurize_R intro: trans)

end

text \<open>No black hole is released.\<close>

definition keeps_holes :: "heap \<Rightarrow> heap \<Rightarrow> bool" where
  "keeps_holes h h' \<longleftrightarrow> length h \<le> length h' \<and> (\<forall>a < length h. td_state (h ! a) = Blackholed \<longrightarrow> td_state (h' ! a) = Blackholed)"

interpretation live_holes: heap_growth_any keeps_holes
  by unfold_locales (auto simp: keeps_holes_def nth_append nth_list_update)


section \<open>Well-formed machines\<close>

definition well_formed :: "sizes \<Rightarrow> bytes \<Rightarrow> heap \<Rightarrow> bool" where
  "well_formed sz st h \<longleftrightarrow> (\<exists>s. st = stack_bytes sz s \<and> distinct (frames s)
    \<and> (\<forall>u \<in> set (frames s). u < length h \<and> td_state (h ! u) = Blackholed))"

abbreviation vm_ok :: "sizes \<Rightarrow> vm \<Rightarrow> bool" where
  "vm_ok sz vm \<equiv> well_formed sz (vm_stack vm) (vm_heap vm)"

text \<open>A computation on machines whose result, if any, is well formed.\<close>

definition safe :: "sizes \<Rightarrow> ('a \<times> vm) panics \<Rightarrow> bool" where
  "safe sz r \<longleftrightarrow> (\<forall>x vm. r = Some (x, vm) \<longrightarrow> vm_ok sz vm)"

lemma safe_simps [simp]:
  "safe sz None"
  "safe sz (Some (x, vm)) \<longleftrightarrow> vm_ok sz vm"
  "safe sz (op_ok vm v e) \<longleftrightarrow> vm_ok sz vm"
  "safe sz (op_value vm v) \<longleftrightarrow> vm_ok sz vm"
  "safe sz (op_err vm err) \<longleftrightarrow> vm_ok sz vm"
  "safe sz (nary_type_error vm expected n v) \<longleftrightarrow> vm_ok sz vm"
  "safe sz (unary_type_error vm expected v) \<longleftrightarrow> vm_ok sz vm"
  by (simp_all add: safe_def op_ok_def op_value_def op_err_def nary_type_error_def unary_type_error_def)

lemma safe_bind [simp]: "safe sz (Option.bind m f) \<longleftrightarrow> (\<forall>x. m = Some x \<longrightarrow> safe sz (f x))"
  by (cases m) simp_all

lemma well_formed_push [simp]:
  "item_marker it \<noteq> MUpdateIndex \<Longrightarrow> well_formed sz st h \<Longrightarrow> well_formed sz (stack_push sz it st) h"
  unfolding well_formed_def by (metis frames_push stack_push_bytes)

lemma well_formed_keeps: "keeps_holes h h' \<Longrightarrow> well_formed sz st h \<Longrightarrow> well_formed sz st h'"
  unfolding well_formed_def keeps_holes_def by (elim exE conjE, rule exI, intro conjI) auto

lemmas well_formed_heap = live_holes.closurize_R [THEN well_formed_keeps] live_holes.merge_R [THEN well_formed_keeps]
  live_holes.fixpoint_revert_R [THEN well_formed_keeps] live_holes.closurize_field_R [THEN well_formed_keeps]
  live_holes.eval_closurize_R [THEN well_formed_keeps] live_holes.eval_rec_record_R [THEN well_formed_keeps]

lemma well_formed_new [simp]: "thunk_new h c = (a, h') \<Longrightarrow> well_formed sz st h \<Longrightarrow> well_formed sz st h'"
  by (rule well_formed_keeps) (auto simp: thunk_new_def heap_alloc_def live_holes.alloc_any)

lemma well_formed_map_heap:
  assumes "\<And>h x y h'. f h x = Some (y, h') \<Longrightarrow> keeps_holes h h'"
  shows "map_heap f h xs = Some (ys, h') \<Longrightarrow> well_formed sz st h \<Longrightarrow> well_formed sz st h'"
  by (rule well_formed_keeps) (erule live_holes.map_heap_R [rotated], erule assms)

lemma well_formed_closurize_all: "closurize_all h vs e = Some (ws, h') \<Longrightarrow> well_formed sz st h \<Longrightarrow> well_formed sz st h'"
  unfolding closurize_all_def by (erule well_formed_map_heap [rotated]) (auto dest: live_holes.closurize_R)

lemma map_values_closurize_keeps: "map_values_closurize h e f flds = Some (r, h') \<Longrightarrow> keeps_holes h h'"
proof (induction flds arbitrary: h r)
  case (Cons xf flds)
  obtain x fld where xf: "xf = (x, fld)" by (cases xf)
  show ?case
  proof (cases "value_with_pending_contracts fld")
    case (Some v)
    then obtain fld' h1 r1 where "closurize_field h (Field (Some (f x v)) (field_metadata fld) []) e Normal = Some (fld', h1)"
      "map_values_closurize h1 e f flds = Some (r1, h')" using Cons.prems by (auto simp: xf split: bind_splits)
    then show ?thesis using Cons.IH live_holes.closurize_field_R live_holes.trans by blast
  qed (use Cons.prems in \<open>auto simp: xf\<close>)
qed simp

lemmas well_formed_values = map_values_closurize_keeps [THEN well_formed_keeps]

subsection \<open>The stack\<close>

context item_sizes begin

lemma well_formed_stack_pop:
  assumes "stack_pop sz m st = Some (r, st')" and "m \<noteq> MUpdateIndex" and "well_formed sz st h"
  shows "well_formed sz st' h"
proof -
  obtain s where s: "st = stack_bytes sz s" "distinct (frames s)"
    "\<forall>u \<in> set (frames s). u < length h \<and> td_state (h ! u) = Blackholed"
    using assms(3) by (auto simp: well_formed_def)
  have "\<exists>t. st' = stack_bytes sz t \<and> frames t = frames s"
    using assms(1,2) by (cases s) (auto simp: s(1) stack_pop_bytes split: if_splits)
  then show ?thesis using s(2,3) unfolding well_formed_def by metis
qed

lemma well_formed_pop_arg:
  assumes "pop_arg sz h' st = Some (r, st')" and "well_formed sz st h"
  shows "well_formed sz st' h"
proof -
  obtain s where s: "st = stack_bytes sz s" "distinct (frames s)"
    "\<forall>u \<in> set (frames s). u < length h \<and> td_state (h ! u) = Blackholed"
    using assms(2) by (auto simp: well_formed_def)
  have "\<exists>t. st' = stack_bytes sz t \<and> frames t = frames s"
    using assms(1) by (cases s) (auto simp: s(1) pop_arg_bytes split: stack_item.splits)
  then show ?thesis using s(2,3) unfolding well_formed_def by metis
qed

lemma well_formed_pop_arg_as_idx:
  assumes "pop_arg_as_idx sz h st = Some (r, st', h')" and "well_formed sz st h"
  shows "well_formed sz st' h'"
proof -
  obtain s where s: "st = stack_bytes sz s" "distinct (frames s)"
    "\<forall>u \<in> set (frames s). u < length h \<and> td_state (h ! u) = Blackholed"
    using assms(2) by (auto simp: well_formed_def)
  have "\<exists>t. st' = stack_bytes sz t \<and> frames t = frames s" and "h' = h \<or> (\<exists>td. h' = h @ [td])"
    using assms(1) by (cases s; auto simp: s(1) pop_arg_as_idx_bytes split: stack_item.splits)+
  then have "well_formed sz st' h" and "keeps_holes h h'"
    using s(2,3) live_holes.alloc_any unfolding well_formed_def by auto
  then show ?thesis using well_formed_keeps by blast
qed

lemma safe_with_arg:
  assumes "vm_ok sz vm" and "safe sz missing"
    and "\<And>vm' c. vm_ok sz vm' \<Longrightarrow> vm_heap vm' = vm_heap vm \<Longrightarrow> safe sz (k vm' c)"
  shows "safe sz (with_arg sz vm missing k)"
  using assms by (auto simp: with_arg_def split: option.splits dest: well_formed_pop_arg)

lemma safe_args:
  assumes "vm_ok sz vm" and "\<And>vm' c. vm_ok sz vm' \<Longrightarrow> vm_heap vm' = vm_heap vm \<Longrightarrow> safe sz (k vm' c)"
  shows "safe sz (arg_or_error sz vm n k)" and "safe sz (expect_arg sz vm k)"
  unfolding arg_or_error_def expect_arg_def by (auto intro!: safe_with_arg assms)

lemma well_formed_clear_eqs:
  assumes "clear_eqs sz st = Some st'" and "well_formed sz st h"
  shows "well_formed sz st' h"
proof -
  obtain s where s: "st = stack_bytes sz s" "distinct (frames s)"
    "\<forall>u \<in> set (frames s). u < length h \<and> td_state (h ! u) = Blackholed"
    using assms(2) by (auto simp: well_formed_def)
  have "frames (dropWhile (\<lambda>it. item_marker it = MEq) s) = frames s" for s :: "stack_item list"
    by (induction s) auto
  then show ?thesis using assms(1) s unfolding well_formed_def by (metis clear_eqs_bytes option.inject)
qed

lemma well_formed_push_eqs: "well_formed sz st h \<Longrightarrow> well_formed sz (push_eqs sz eqs st) h"
  unfolding push_eqs_def by (induction eqs arbitrary: st) (auto split: prod.splits)

lemma well_formed_push_str_chunks: "well_formed sz st h \<Longrightarrow> well_formed sz (push_str_chunks sz cs st) h"
  unfolding push_str_chunks_def by (induction cs arbitrary: st) auto

lemma well_formed_pop_literals:
  assumes "pop_literals sz st acc = Some (r, acc', st')" and "well_formed sz st h"
  shows "well_formed sz st' h"
proof -
  obtain s where s: "st = stack_bytes sz s" "distinct (frames s)"
    "\<forall>u \<in> set (frames s). u < length h \<and> td_state (h ! u) = Blackholed"
    using assms(2) by (auto simp: well_formed_def)
  have "\<exists>t. st' = stack_bytes sz t \<and> frames t = frames s"
    using assms(1) unfolding s(1)
  proof (induction s arbitrary: acc)
    case Nil
    then show ?case by (subst (asm) pop_literals.simps) (auto simp: pop_str_chunk_def stack_pop_bytes)
  next
    case (Cons it s)
    then show ?case
      by (subst (asm) (2) pop_literals.simps)
        (auto simp: pop_str_chunk_def stack_pop_bytes split: if_splits stack_item.splits str_chunk.splits)
  qed
  then show ?thesis using s(2,3) unfolding well_formed_def by metis
qed

end


section \<open>Primitive operations\<close>

named_theorems op_safe \<open>a primitive operation keeps the machine well formed\<close>

lemma safe_illegal_tail_access [op_safe]: "vm_ok sz vm \<Longrightarrow> safe sz (illegal_tail_access vm action l)"
  by (simp add: illegal_tail_access_def)

context item_sizes begin

lemmas pops = well_formed_stack_pop well_formed_pop_arg well_formed_pop_arg_as_idx well_formed_clear_eqs
  well_formed_push_eqs well_formed_pop_literals

subsection \<open>Unary operations\<close>

lemma bool_ops_safe [op_safe]:
  assumes "vm_ok sz vm"
  shows "safe sz (op_if_then_else sz vm v)" "safe sz (op_bool_and sz vm v)" "safe sz (op_bool_or sz vm v)"
    "safe sz (op_bool_not vm v)" "safe sz (op_blame vm v)" "safe sz (op_enum_embed vm v)"
  unfolding op_if_then_else_def op_bool_and_def op_bool_or_def op_bool_not_def op_blame_def op_enum_embed_def
  using assms by (auto intro!: safe_args split: option.split)

lemma enum_ops_safe [op_safe]:
  assumes "vm_ok sz vm"
  shows "safe sz (match_tag vm v cases dflt)" "safe sz (op_enum_get_arg vm v e)" "safe sz (op_enum_make_variant sz vm v)"
    "safe sz (op_enum_get_tag vm v)" "safe sz (op_enum_is_variant vm v)"
  unfolding match_tag_def op_enum_get_arg_def op_enum_make_variant_def op_enum_get_tag_def op_enum_is_variant_def
  using assms by (auto intro!: safe_args split: option.split prod.split)

lemma match_safe [op_safe]: "vm_ok sz vm \<Longrightarrow> safe sz (op_tags_only_match sz vm b v)"
  unfolding op_tags_only_match_def by (auto intro!: safe_args op_safe)

lemma label_ops_safe [op_safe]:
  assumes "vm_ok sz vm"
  shows "safe sz (op_label vm f v)" "safe sz (op_label_pol vm v)" "safe sz (op_label_push_diag vm v e)"
  unfolding op_label_def op_label_pol_def op_label_push_diag_def using assms by (auto split: option.split)

lemma record_ops_safe [op_safe]:
  assumes "vm_ok sz vm"
  shows "safe sz (op_record_access vm x v e)" "safe sz (op_record_fields vm k v e)" "safe sz (op_record_values vm v e)"
    "safe sz (op_record_empty_with_tail vm v e)"
  unfolding op_record_access_def op_record_fields_def op_record_values_def op_record_empty_with_tail_def
  using assms by (auto split: option.split container.split sum.split intro: op_safe)

lemma record_map_safe [op_safe]: "vm_ok sz vm \<Longrightarrow> safe sz (op_record_map sz vm v e)"
  unfolding op_record_map_def
  by (auto simp: Let_def split: option.split container.split sum.split intro!: safe_args op_safe)
    (metis well_formed_heap(1) well_formed_values)+

lemma record_freeze_safe [op_safe]:
  assumes "vm_ok sz vm"
  shows "safe sz (op_record_freeze vm v e)"
proof -
  have "map_heap (freeze_field e) h flds = Some (flds', h') \<Longrightarrow> well_formed sz st h \<Longrightarrow> well_formed sz st h'" for h flds flds' h' st
    by (erule well_formed_map_heap [rotated]) (auto simp: freeze_field_def split: bind_splits dest: live_holes.closurize_field_R)
  then show ?thesis unfolding op_record_freeze_def
    using assms by (auto split: option.split container.split intro: op_safe)
qed

lemma array_ops_safe [op_safe]:
  assumes "vm_ok sz vm"
  shows "safe sz (op_array_map sz vm v e)" "safe sz (op_array_gen sz vm v e)" "safe sz (op_array_length vm v)"
  unfolding op_array_map_def op_array_gen_def op_array_length_def
  using assms by (auto split: option.split container.split intro!: safe_args) (metis well_formed_heap(1) well_formed_closurize_all)+

lemma forcing_ops_safe [op_safe]:
  assumes "vm_ok sz vm"
  shows "safe sz (op_seq sz vm)" "safe sz (op_deep_seq sz vm v e)" "safe sz (op_force vm b v e)" "safe sz (op_trace sz vm v)"
proof -
  have next_safe: "safe sz (arg_or_error sz vm 2 (\<lambda>vm next. Some (Inr next, vm)))"
    by (rule safe_args [OF assms]) simp
  show "safe sz (op_seq sz vm)" "safe sz (op_trace sz vm v)"
    unfolding op_seq_def op_trace_def using next_safe assms by (auto split: option.split)
  show "safe sz (op_deep_seq sz vm v e)" unfolding op_deep_seq_def Let_def
    using next_safe assms
    by (auto split: nickel_value.split container.split option.split sum.split dest: well_formed_closurize_all)
  show "safe sz (op_force vm b v e)" unfolding op_force_def
    using assms by (auto simp: Let_def split: nickel_value.split container.split option.split sum.split
        dest: well_formed_closurize_all well_formed_heap well_formed_values)
qed

lemma chunks_concat_safe [op_safe]: "vm_ok sz vm \<Longrightarrow> safe sz (op_chunks_concat host sz vm v)"
  unfolding op_chunks_concat_def pop_str_acc_def
  by (auto split: option.split stack_item.split dest!: well_formed_stack_pop [where h = "vm_heap vm"]
      well_formed_pop_literals [where h = "vm_heap vm"])

lemma string1_ops_safe [op_safe]:
  assumes "vm_ok sz vm"
  shows "safe sz (op_string1 vm f v)" "safe sz (op_to_string host vm v)" "safe sz (op_number_from_string host vm v)"
    "safe sz (op_regex_compile host vm mk v)" "safe sz (op_find host vm r v)" "safe sz (op_find_all host vm r v)"
    "safe sz (number_op1 host vm op v)" "safe sz (op_is_match host vm r v)"
  unfolding op_string1_def op_to_string_def op_number_from_string_def op_regex_compile_def op_find_def op_find_all_def
    number_op1_def op_is_match_def eta_expand_def fresh_ident_def Let_def
  using assms by (auto split: option.split list.split)

lemma contract_ops_safe [op_safe]:
  assumes "vm_ok sz vm"
  shows "safe sz (op_contract_custom vm v e)" "safe sz (op_contract_postprocess_result sz vm v e)"
    "safe sz (op_contract_attach_default_label sz vm v e)"
  unfolding op_contract_custom_def op_contract_postprocess_result_def op_contract_attach_default_label_def
  using assms by (auto simp: push_arg_def split: nickel_value.split nickel_term.split option.split prod.split
      intro!: safe_args dest: well_formed_heap)

lemma eval_op1_safe [op_safe]: "vm_ok sz vm \<Longrightarrow> safe sz (eval_op1 host sz vm op c)"
  unfolding eval_op1_def Let_def by (cases op; simp add: op_safe)

end


context item_sizes begin

subsection \<open>Binary operations\<close>

lemma gen_eqs_well_formed: "gen_eqs h eqs e1 e2 = Some (r, h') \<Longrightarrow> well_formed sz st h \<Longrightarrow> well_formed sz st h'"
  unfolding gen_eqs_def by (auto split: list.splits bind_splits) (metis well_formed_heap(1))

lemma eq_well_formed:
  assumes "eq sr h c1 c2 = Some (r, h')" and wf: "well_formed sz st h"
  shows "well_formed sz st h'"
proof -
  have rec: "eq_records sr h r1 e1 r2 e2 = Some (r, h') \<Longrightarrow> well_formed sz st h'" for r1 r2 e1 e2
    using wf unfolding eq_records_def Let_def by (auto split: if_splits sum.splits bind_splits intro: gen_eqs_well_formed)
  have arr: "eq_arrays h d1 e1 d2 e2 = Some (r', h') \<Longrightarrow> well_formed sz st h'" for d1 d2 e1 e2 r'
    using wf unfolding eq_arrays_def Let_def by (auto split: if_splits bind_splits) (metis well_formed_closurize_all)+
  show ?thesis
    using assms(1) wf unfolding eq_def Let_def
    by (cases "clo_value c1"; cases "clo_value c2")
      (auto split: if_splits option.splits container.splits nickel_term.splits bind_splits dest: rec arr gen_eqs_well_formed)
qed

lemma eq_answer_safe: "vm_ok sz vm \<Longrightarrow> safe sz (eq_answer sz vm b)"
  unfolding eq_answer_def pop_eq_def
  by (auto split: option.split stack_item.split intro: pops) (metis well_formed_heap(1) well_formed_stack_pop marker.distinct)

lemma op_eq_safe [op_safe]: "vm_ok sz vm \<Longrightarrow> safe sz (op_eq host sz vm c1 c2)"
  unfolding op_eq_def
  by (auto simp: Let_def split: sum.split eq_result.split intro!: eq_answer_safe intro: eq_well_formed well_formed_push_eqs)

lemma number_fn2_safe [op_safe]:
  "vm_ok sz vm \<Longrightarrow> (\<And>m n. safe sz (f m n)) \<Longrightarrow> safe sz (number_fn2 vm f v1 v2)"
  unfolding number_fn2_def by (auto split: option.split)

lemma number_ops_safe [op_safe]:
  assumes "vm_ok sz vm"
  shows "safe sz (number_op2 vm g v1 v2)" "safe sz (number_cmp2 vm p v1 v2)" "safe sz (op_div vm v1 v2)"
    "safe sz (op_modulo vm v1 v2)" "safe sz (op_arctan2 host vm v1 v2)" "safe sz (op_log host vm v1 v2)"
    "safe sz (op_pow host vm v1 v2)"
  unfolding number_op2_def number_cmp2_def op_div_def op_modulo_def op_arctan2_def op_log_def op_pow_def float_result_def
  using assms by (auto intro!: number_fn2_safe simp: Let_def split: option.split)

lemma string_fn2_safe [op_safe]:
  "vm_ok sz vm \<Longrightarrow> (\<And>s t. safe sz (f s t)) \<Longrightarrow> safe sz (string_fn2 vm f v1 v2)"
  unfolding string_fn2_def by (auto split: option.split)

lemma tag_fn2_safe:
  "vm_ok sz vm \<Longrightarrow> (\<And>s t r. f s t = Some r \<Longrightarrow> safe sz r) \<Longrightarrow> safe sz (tag_fn2 vm expected f v1 v2)"
  unfolding tag_fn2_def by (auto split: option.split)

lemma string2_ops_safe [op_safe]:
  assumes "vm_ok sz vm"
  shows "safe sz (op_string_concat vm v1 v2)" "safe sz (op_string_split host vm v1 v2)"
    "safe sz (op_string_contains host vm v1 v2)" "safe sz (op_string_compare vm v1 v2)"
    "safe sz (op_hash host vm v1 v2)" "safe sz (op_base64_encode host vm v1 v2)" "safe sz (op_base64_decode host vm v1 v2)"
  unfolding op_string_concat_def op_string_split_def op_string_contains_def op_string_compare_def op_hash_def
    op_base64_encode_def op_base64_decode_def
  using assms by (auto intro!: string_fn2_safe tag_fn2_safe simp: Let_def split: if_splits sum.split)

lemma serialize_ops_safe [op_safe]:
  assumes "vm_ok sz vm"
  shows "safe sz (op_serialize host vm v1 v2 e2)" "safe sz (op_deserialize host vm v1 v2)"
  unfolding op_serialize_def op_deserialize_def
  using assms by (auto simp: Let_def split: option.split sum.split if_splits intro!: tag_fn2_safe)

lemma label2_ops_safe [op_safe]:
  assumes "vm_ok sz vm"
  shows "safe sz (op_label_go_field vm v1 v2)" "safe sz (op_label_with vm f v1 v2)" "safe sz (op_label_with_notes vm v1 e1 v2)"
    "safe sz (op_label_with_error_data vm v1 e1 v2)" "safe sz (op_label_lookup_type_var vm v1 v2)"
    "safe sz (op_seal vm v1 v2)" "safe sz (op_unseal vm v1 v2 e2)"
  unfolding op_label_go_field_def op_label_with_def op_label_with_notes_def op_label_with_error_data_def
    op_label_lookup_type_var_def op_seal_def op_unseal_def fresh_ident_def
  using assms by (auto simp: Let_def split: option.split sum.split if_splits container.split nickel_value.split nickel_term.split prod.split)

lemma record2_ops_safe [op_safe]:
  assumes "vm_ok sz vm"
  shows "safe sz (op_record_get vm v1 v2 e2)" "safe sz (op_record_insert sz vm md pc ek ok v1 v2 e2)"
    "safe sz (op_record_remove host vm ok v1 v2 e2)" "safe sz (op_record_test vm p ok v1 v2)"
    "safe sz (op_record_has_field vm ok v1 v2)" "safe sz (op_record_field_is_defined vm ok v1 v2)"
    "safe sz (op_record_split_pair host vm v1 v2)" "safe sz (op_record_disjoint_merge vm v1 e1 v2 e2)"
  unfolding op_record_get_def op_record_insert_def op_record_remove_def op_record_test_def op_record_has_field_def
    op_record_field_is_defined_def op_record_split_pair_def op_record_disjoint_merge_def
  using assms by (auto simp: Let_def split: option.split sum.split if_splits container.split record_ext_kind.split prod.split
      intro!: safe_args op_safe intro: well_formed_heap)

end


context item_sizes begin

lemma array2_ops_safe [op_safe]:
  assumes "vm_ok sz vm"
  shows "safe sz (array_concat host vm d1 e1 d2 e2)" "safe sz (op_array_at vm v1 e1 v2)"
  unfolding array_concat_def op_array_at_def
  using assms by (auto split: option.split container.split) (metis well_formed_closurize_all)+

lemma array_concat_safe [op_safe]: "vm_ok sz vm \<Longrightarrow> safe sz (op_array_concat host vm v1 e1 v2 e2)"
  unfolding op_array_concat_def by (auto split: option.split container.split intro!: op_safe)

lemma contract_frames_well_formed: "well_formed sz st h \<Longrightarrow> well_formed sz (contract_frames sz op v l st) h"
  unfolding contract_frames_def Let_def push_arg_def by (auto split: nickel_value.split)

lemma functoid_safe: "vm_ok sz vm \<Longrightarrow> safe sz (functoid sz vm op v e)"
  unfolding functoid_def Let_def push_arg_def by (auto split: nickel_value.split nickel_term.split)

lemma contract_apply_safe [op_safe]: "vm_ok sz vm \<Longrightarrow> safe sz (op_contract_apply sz vm op v1 e1 v2 e2)"
  unfolding op_contract_apply_def Let_def
  by (auto split: nickel_value.split option.split simp: push_arg_def push_tracked_arg_def
      intro!: functoid_safe well_formed_push contract_frames_well_formed dest: well_formed_pop_arg_as_idx)

lemma lazy_app_safe [op_safe]:
  assumes "vm_ok sz vm"
  shows "safe sz (op_contract_array_lazy_app host sz vm v1 v2 e2)" "safe sz (op_contract_record_lazy_app host sz vm v1 v2 e2)"
proof -
  have "map_heap (lazy_app_field host c l e) h flds = Some (flds', h') \<Longrightarrow> well_formed sz st h \<Longrightarrow> well_formed sz st h'"
    for c l e h flds flds' h' st
    by (erule well_formed_map_heap [rotated]) (auto simp: lazy_app_field_def split: bind_splits dest: live_holes.closurize_R)
  then show "safe sz (op_contract_record_lazy_app host sz vm v1 v2 e2)"
    unfolding op_contract_record_lazy_app_def
    using assms by (auto split: option.split container.split intro!: safe_args) (metis well_formed_heap(3))
  show "safe sz (op_contract_array_lazy_app host sz vm v1 v2 e2)"
    unfolding op_contract_array_lazy_app_def Let_def
    using assms by (auto split: option.split intro!: safe_args intro: well_formed_heap)
qed

lemma merge_safe [op_safe]: "vm_ok sz vm \<Longrightarrow> safe sz (op_merge host vm mode v1 e1 v2 e2)"
  unfolding op_merge_def by (auto intro: well_formed_heap)

lemma eval_op2_safe [op_safe]: "vm_ok sz vm \<Longrightarrow> safe sz (eval_op2 host sz vm op c1 c2)"
proof (cases op)
  case (BinOp op)
  moreover assume "vm_ok sz vm"
  ultimately show ?thesis unfolding eval_op2_def Let_def by (cases op; simp add: op_safe)
qed (simp add: eval_op2_def op_safe)

subsection \<open>N-ary operations\<close>

lemma opn_safe [op_safe]:
  assumes "vm_ok sz vm"
  shows "safe sz (op_string_replace host vm op v1 v2 v3)" "safe sz (op_string_substr host vm v1 v2 v3)"
    "safe sz (op_merge_contract host vm v1 c2 c3)" "safe sz (op_record_seal_tail vm v1 v2 c3 c4)"
    "safe sz (op_record_unseal_tail vm v1 v2 c3)" "safe sz (op_label_insert_type_var vm v1 v2 v3)"
    "safe sz (op_array_slice vm v1 v2 c3)"
  unfolding op_string_replace_def op_string_substr_def op_merge_contract_def op_record_seal_tail_def
    op_record_unseal_tail_def op_label_insert_type_var_def op_array_slice_def
  using assms by (auto split: option.split sum.split intro!: op_safe intro: well_formed_heap)

lemma eval_opn_safe [op_safe]: "vm_ok sz vm \<Longrightarrow> safe sz (eval_opn host vm op args)"
  unfolding eval_opn_def by (auto split: list.split nary_op.split simp: op_safe)

lemma continue_op_safe:
  assumes "vm_ok sz vm"
  shows "safe sz (continue_op host sz vm c)"
proof -
  have pop: "stack_pop sz m st = Some (r, st') \<Longrightarrow> m \<noteq> MUpdateIndex \<Longrightarrow> well_formed sz st (vm_heap vm) \<Longrightarrow>
      well_formed sz st' (vm_heap vm)" for m st r st'
    by (rule well_formed_stack_pop)
  have "safe sz (eval_op1 host sz (vm\<lparr>vm_stack := st\<rparr>) op c)" "safe sz (eval_op2 host sz (vm\<lparr>vm_stack := st\<rparr>) op2 c1 c)"
    "safe sz (eval_opn host (vm\<lparr>vm_stack := st\<rparr>) opn args)" if "well_formed sz st (vm_heap vm)" for st op op2 c1 opn args
    using that by (auto intro: op_safe)
  note ops = this
  show ?thesis
    unfolding continue_op_def pop_op1_cont_def pop_op2_first_cont_def pop_op2_second_cont_def pop_opn_cont_def
    using assms by (auto split: option.split stack_item.split prod.split dest!: pop intro: ops)
qed

end


section \<open>The loop\<close>

context item_sizes begin

lemma enter_cache_index_safe:
  assumes "vm_ok sz vm"
  shows "safe sz (enter_cache_index sz vm a)"
proof -
  obtain s where s: "vm_stack vm = stack_bytes sz s" "distinct (frames s)"
    "\<forall>u \<in> set (frames s). u < length (vm_heap vm) \<and> td_state (vm_heap vm ! u) = Blackholed"
    using assms by (auto simp: well_formed_def)
  have "well_formed sz (case u of None \<Rightarrow> vm_stack vm | Some u \<Rightarrow> push_update_index sz u (vm_stack vm)) h"
    if run: "get_update_index (vm_heap vm) a = Some (Inr u, h)" for u h
  proof -
    have "u = None \<and> (h = vm_heap vm \<or> td_state (vm_heap vm ! a) \<noteq> Blackholed \<and> h = (vm_heap vm)[a := (vm_heap vm ! a)\<lparr>td_state := Evaluated\<rparr>])
      \<or> u = Some a \<and> a < length (vm_heap vm) \<and> td_state (vm_heap vm ! a) \<noteq> Blackholed
          \<and> h = (vm_heap vm)[a := (vm_heap vm ! a)\<lparr>td_state := Blackholed\<rparr>]"
      using run by (auto simp: get_update_index_def thunk_get_state_def thunk_should_update_def thunk_set_evaluated_def
          mk_update_frame_def thunk_borrow_def heap_map_def heap_read_Some_iff Let_def split: bind_splits if_splits thunk_state.splits)
    then consider "u = None" "h = vm_heap vm"
      | "u = None" "td_state (vm_heap vm ! a) \<noteq> Blackholed" "h = (vm_heap vm)[a := (vm_heap vm ! a)\<lparr>td_state := Evaluated\<rparr>]"
      | "u = Some a" "a < length (vm_heap vm)" "td_state (vm_heap vm ! a) \<noteq> Blackholed"
        "h = (vm_heap vm)[a := (vm_heap vm ! a)\<lparr>td_state := Blackholed\<rparr>]" by blast
    then show ?thesis
    proof cases
      case 2
      then have "\<forall>u \<in> set (frames s). u < length h \<and> td_state (h ! u) = Blackholed" using s(3) by (metis length_list_update nth_list_update_neq)
      then show ?thesis using 2 s(1,2) unfolding well_formed_def by auto
    next
      case 3
      then have "a \<notin> set (frames s)" using s(3) by auto
      then have "well_formed sz (stack_bytes sz (UpdateIndexItem a # s)) h"
        using s 3 unfolding well_formed_def by (intro exI [of _ "UpdateIndexItem a # s"]) (auto simp: nth_list_update)
      then show ?thesis using 3 s(1) by (simp add: push_update_index_def stack_push_bytes)
    qed (use assms in simp)
  qed
  moreover have "h = vm_heap vm" if "get_update_index (vm_heap vm) a = Some (Inl err, h)" for err h
    using that by (auto simp: get_update_index_def thunk_get_state_def thunk_should_update_def thunk_set_evaluated_def
          mk_update_frame_def thunk_borrow_def heap_map_def heap_read_Some_iff Let_def split: bind_splits if_splits thunk_state.splits)
  ultimately show ?thesis using assms unfolding enter_cache_index_def Let_def
    by (auto split: sum.split blackholed_error.split)
qed

end


lemma let_bind_keeps: "let_bind bs e0 bty e h idxs = (e', h', idxs') \<Longrightarrow> keeps_holes h h'"
proof (induction bs arbitrary: e h idxs)
  case (Cons b bs)
  obtain x bound where b: "b = (x, bound)" by (cases b)
  obtain a h1 where add: "cache_add h \<lparr>clo_value = bound, clo_env = e0\<rparr> bty = (a, h1)"
    by (cases "cache_add h \<lparr>clo_value = bound, clo_env = e0\<rparr> bty")
  then have "let_bind bs e0 bty (e(x \<mapsto> a)) h1 (idxs @ [a]) = (e', h', idxs')" using Cons.prems by (simp add: b)
  then show ?case using Cons.IH live_holes.cache_add_R [OF add] live_holes.trans by blast
qed simp

lemma patch_all_keeps: "patch_all h idxs e = Some h' \<Longrightarrow> keeps_holes h h'"
proof (induction idxs arbitrary: h)
  case (Cons a idxs)
  then obtain h1 where h1: "cache_patch h a (\<lambda>cl. cl\<lparr>clo_env := e\<rparr>) = Some h1" "patch_all h1 idxs e = Some h'"
    by (auto split: bind_splits)
  then have "keeps_holes h h1" by (auto simp: cache_patch_def heap_map_def heap_read_Some_iff intro!: live_holes.change split: bind_splits)
  then show ?case using Cons.IH h1(2) live_holes.trans by blast
qed simp

context item_sizes begin

lemma update_at_indices_well_formed:
  assumes run: "update_at_indices sz h st c = Some (h', st')" and "well_formed sz st h"
  shows "well_formed sz st' h'"
proof -
  let ?p = "\<lambda>it. item_marker it = MUpdateIndex"
  obtain s where s: "st = stack_bytes sz s" "distinct (frames s)"
    "\<forall>u \<in> set (frames s). u < length h \<and> td_state (h ! u) = Blackholed"
    using assms(2) by (auto simp: well_formed_def)
  then have "list_all (\<lambda>u. u < length h) (frames s)" by (simp add: list_all_iff)
  from update_at_indices_bytes [OF this, of c] run
  have h': "st' = stack_bytes sz (dropWhile ?p s)" "length h' = length h"
    "\<forall>a < length h. a \<notin> set (frames (takeWhile ?p s)) \<longrightarrow> h' ! a = h ! a" by (auto simp: s(1))
  have "frames s = frames (takeWhile ?p s) @ frames (dropWhile ?p s)" by (metis frames_append takeWhile_dropWhile_id)
  then have "distinct (frames (dropWhile ?p s))"
    "\<forall>u \<in> set (frames (dropWhile ?p s)). u < length h \<and> td_state (h ! u) = Blackholed \<and> u \<notin> set (frames (takeWhile ?p s))"
    using s(2,3) by auto
  then show ?thesis unfolding well_formed_def h'(1) using h'(2,3) by (intro exI [of _ "dropWhile ?p s"]) auto
qed

lemma eval_whnf_safe: "vm_ok sz vm \<Longrightarrow> safe sz (eval_whnf sz vm c)"
  unfolding eval_whnf_def
  by (auto split: option.split dest: update_at_indices_well_formed well_formed_pop_arg)

lemma eval_sealed_safe: "vm_ok sz vm \<Longrightarrow> safe sz (eval_sealed sz vm key inner l e)"
  unfolding eval_sealed_def Let_def by (auto split: sealed_cont.split dest: update_at_indices_well_formed)

lemma eval_str_chunks_safe: "vm_ok sz vm \<Longrightarrow> safe sz (eval_str_chunks sz vm chunks e)"
  unfolding eval_str_chunks_def Let_def by (auto split: prod.split intro!: well_formed_push well_formed_push_str_chunks)

lemma eval_let_safe:
  assumes "vm_ok sz vm" and "let_bind bs e bty e (vm_heap vm) [] = (e', h, idxs)"
    and "(if is_rec then patch_all h idxs e' else Some h) = Some h'"
  shows "well_formed sz (vm_stack vm) h'"
proof -
  have "keeps_holes h h'" using assms(3) patch_all_keeps by (auto split: if_splits)
  then show ?thesis using well_formed_keeps [OF let_bind_keeps [OF assms(2)]] well_formed_keeps assms(1) by blast
qed

lemma eval_step_safe: "vm_ok sz vm \<Longrightarrow> safe sz (eval_step sz vm c)"
  unfolding eval_step_def Let_def
  by (auto split: nickel_value.split nickel_term.split sum.split list.split option.split prod.split
      intro!: enter_cache_index_safe eval_whnf_safe eval_sealed_safe eval_str_chunks_safe
      simp: push_arg_def intro: well_formed_heap eval_let_safe dest: well_formed_pop_arg_as_idx)

lemma machine_step_safe: "vm_ok sz vm \<Longrightarrow> safe sz (machine_step host sz vm c)"
proof -
  assume ok: "vm_ok sz vm"
  have "vm_ok sz vm'" if "eval_step sz vm c = Some (r, vm')" for r vm' using eval_step_safe [OF ok, of c] that by (simp add: safe_def)
  then show ?thesis unfolding machine_step_def
    using continue_op_safe by (auto simp: safe_def split: step_result.splits bind_splits)
qed

lemma machine_steps_safe: "vm_ok sz vm \<Longrightarrow> safe sz (machine_steps host sz n vm c)"
proof (induction n arbitrary: vm c)
  case (Suc n)
  have "vm_ok sz vm'" if "machine_step host sz vm c = Some (r, vm')" for r vm'
    using machine_step_safe [OF Suc.prems, of host c] that by (simp add: safe_def)
  then show ?case using Suc.IH by (auto split: step_result.split)
qed simp

end


section \<open>Properties\<close>

text \<open>
  C2. The stack keeps its types. From a machine whose stack is a sequence of typed items with update
  frames for distinct black-holed thunks, every run of the whole loop, primitive operations included,
  that does not panic stops, after any number of iterations and on a result as on an error, in such a
  machine again: what is then popped is what was pushed. Resetting this machine succeeds, empties the stack
  and releases every thunk that had a frame.
\<close>

theorem machine_steps_keep_stack_typed:
  assumes "\<And>m. 0 < sz m" and "well_formed sz (vm_stack vm) (vm_heap vm)"
    and "machine_steps host sz n vm c = Some (r, vm')"
  shows "\<exists>s. vm_stack vm' = stack_bytes sz s \<and> distinct (frames s)
    \<and> (\<forall>u \<in> set (frames s). u < length (vm_heap vm') \<and> td_state (vm_heap vm' ! u) = Blackholed)
    \<and> (\<exists>vm''. vm_reset sz vm' = Some vm'' \<and> vm_stack vm'' = []
        \<and> (\<forall>u \<in> set (frames s). td_state (vm_heap vm'' ! u) = Suspended))"
proof -
  have sizes: "item_sizes sz" using assms(1) by unfold_locales
  have "vm_ok sz vm'" using item_sizes.machine_steps_safe [OF sizes assms(2), of host n c] assms(3) by (simp add: safe_def)
  then obtain s where s: "vm_stack vm' = stack_bytes sz s" "distinct (frames s)"
    "\<forall>u \<in> set (frames s). u < length (vm_heap vm') \<and> td_state (vm_heap vm' ! u) = Blackholed"
    by (auto simp: well_formed_def)
  then have "list_all (\<lambda>u. u < length (vm_heap vm')) (frames s)" by (simp add: list_all_iff)
  from item_sizes.unwind_frames [OF sizes this] obtain h where h: "unwind sz (stack_bytes sz s) (vm_heap vm') = Some ([], h)"
    "\<forall>a < length (vm_heap vm'). h ! a = (if a \<in> set (frames s) then (vm_heap vm' ! a)\<lparr>td_state := Suspended\<rparr> else vm_heap vm' ! a)"
    by blast
  have "vm_reset sz vm' = Some (vm'\<lparr>vm_stack := [], vm_heap := h\<rparr>)" using h(1) s(1) by (simp add: vm_reset_def)
  moreover have "\<forall>u \<in> set (frames s). td_state (h ! u) = Suspended" using s(3) h(2) by auto
  ultimately show ?thesis using s by (intro exI [of _ s]) simp
qed

theorem machine_steps_keep_stack_typed_witness:
  "\<exists>s. distinct (frames s) \<and> (\<exists>r vm' vm''. machine_steps plain_host word_sizes 1
      \<lparr>vm_stack = [], vm_heap = [td_new (closure_of_value (TermV (Var ''x'')))], vm_initial_env = Map.empty,
       vm_imports = Map.empty, vm_fresh = 0\<rparr> (closure_of_value (Thunk 0)) = Some (r, vm')
    \<and> vm_stack vm' = stack_bytes word_sizes s \<and> vm_reset word_sizes vm' = Some vm'' \<and> vm_stack vm'' = [])"
proof -
  let ?vm = "\<lparr>vm_stack = [], vm_heap = [td_new (closure_of_value (TermV (Var ''x'')))], vm_initial_env = Map.empty,
    vm_imports = Map.empty, vm_fresh = 0\<rparr> :: vm"
  have "well_formed word_sizes [] (vm_heap ?vm)" by (auto simp: well_formed_def stack_bytes.simps intro!: exI [of _ "[]"])
  then have ok: "well_formed word_sizes (vm_stack ?vm) (vm_heap ?vm)" by simp
  have "\<exists>r vm'. machine_steps plain_host word_sizes 1 ?vm (closure_of_value (Thunk 0)) = Some (r, vm')"
    by (simp add: machine_step_def eval_step_def closure_of_value_def enter_cache_index_def get_update_index_def
        thunk_get_state_def heap_read_def td_new_def thunk_should_update_def thunk_borrow_def td_closure_def mk_update_frame_def
        cache_get_def thunk_get_owned_def is_top_idx_def is_top_cont_def top_marker_def)
  then obtain r vm' where run: "machine_steps plain_host word_sizes 1 ?vm (closure_of_value (Thunk 0)) = Some (r, vm')" by blast
  show ?thesis
    using machine_steps_keep_stack_typed [of word_sizes, OF word_stack.sz_pos ok run] run by blast
qed

end
