(* ===== verification/Free_Vars.thy ===== *)
theory Free_Vars
  imports Type_Contract
begin

text \<open>
  The analysis of free variables, \<open>core/src/transform/free_vars.rs\<close>: it collects the free variables
  of a term and, in passing, records for each field of a recursive record which other fields its
  definition refers to. Evaluation gives a field only those in its recursive environment.

  The traversal mutates the term. Its result on a value holds the original value (for the parts the
  traversal does not enter), the rewritten value, the variables collected and whether the
  traversal met no thunk, which the source declares unreachable. The recursion goes through the
  map functions of the containers, so that the functions on containers work on results.
\<close>

section \<open>Containers of results\<close>

datatype fv_res = FvRes (fv_orig: nickel_value) (fv_new: nickel_value) (fv_vars: "ident set") (fv_ok: bool)

text \<open>Types: the rows of an enum type are not entered.\<close>

primrec type_new :: "fv_res ntype \<Rightarrow> nickel_type"
and rrows_new :: "fv_res record_rows \<Rightarrow> nickel_value record_rows" where
  "type_new TDyn = TDyn" | "type_new TNumber = TNumber" | "type_new TBool = TBool" | "type_new TString = TString"
| "type_new TSymbol = TSymbol" | "type_new TForeignId = TForeignId" | "type_new (TVar x) = TVar x"
| "type_new (TWildcard i) = TWildcard i"
| "type_new (TContract v) = TContract (fv_new v)"
| "type_new (TArrow s t) = TArrow (type_new s) (type_new t)"
| "type_new (TForall x k t) = TForall x k (type_new t)"
| "type_new (TEnum erows) = TEnum (map_enum_rows fv_orig erows)"
| "type_new (TRecord rrows) = TRecord (rrows_new rrows)"
| "type_new (TDict t fl) = TDict (type_new t) fl"
| "type_new (TArray t) = TArray (type_new t)"
| "rrows_new RRowsEmpty = RRowsEmpty" | "rrows_new RRowsTailDyn = RRowsTailDyn"
| "rrows_new (RRowsTailVar x) = RRowsTailVar x"
| "rrows_new (RRowsExtend x t tail) = RRowsExtend x (type_new t) (rrows_new tail)"

text \<open>The results the traversal of a type visits.\<close>

primrec type_visits :: "'v ntype \<Rightarrow> 'v set"
and rrows_visits :: "'v record_rows \<Rightarrow> 'v set" where
  "type_visits TDyn = {}" | "type_visits TNumber = {}" | "type_visits TBool = {}" | "type_visits TString = {}"
| "type_visits TSymbol = {}" | "type_visits TForeignId = {}" | "type_visits (TVar x) = {}"
| "type_visits (TWildcard i) = {}"
| "type_visits (TContract v) = {v}"
| "type_visits (TArrow s t) = type_visits s \<union> type_visits t"
| "type_visits (TForall x k t) = type_visits t"
| "type_visits (TEnum erows) = {}"
| "type_visits (TRecord rrows) = rrows_visits rrows"
| "type_visits (TDict t fl) = type_visits t"
| "type_visits (TArray t) = type_visits t"
| "rrows_visits RRowsEmpty = {}" | "rrows_visits RRowsTailDyn = {}" | "rrows_visits (RRowsTailVar x) = {}"
| "rrows_visits (RRowsExtend x t tail) = type_visits t \<union> rrows_visits tail"

definition annot_new :: "fv_res type_annotation \<Rightarrow> nannotation" where
  "annot_new a =
    (let labeled = (\<lambda>lt. LabeledType (type_new (lt_typ lt)) (lt_label lt))
     in TypeAnnotation (map_option labeled (annot_typ a)) (map labeled (annot_contracts a)))"

definition annot_visits :: "'v type_annotation \<Rightarrow> 'v set" where
  "annot_visits a = (\<Union>lt \<in> set (annotation_iter a). type_visits (lt_typ lt))"

definition metadata_new :: "fv_res field_metadata \<Rightarrow> nmetadata" where
  "metadata_new m = FieldMetadata (fm_doc m) (annot_new (fm_annotation m)) (fm_opt m) (fm_not_exported m) (fm_priority m)"

definition field_new :: "fv_res field \<Rightarrow> nfield" where
  "field_new fld = Field (map_option fv_new (field_value fld)) (map_option metadata_new (field_metadata fld))
    (map (map_runtime_contract fv_orig) (field_pending_contracts fld))"

definition field_visits :: "'v field \<Rightarrow> 'v set" where
  "field_visits fld = (case field_metadata fld of None \<Rightarrow> {} | Some m \<Rightarrow> annot_visits (fm_annotation m))
    \<union> set_option (field_value fld)"

definition record_new_fields :: "fv_res record_data \<Rightarrow> nrecord" where
  "record_new_fields r = RecordData (map (map_prod id field_new) (record_fields r)) (record_attributes r)
    (map_option (map_sealed_tail fv_orig) (record_sealed_tail r))"

definition record_visits :: "'v record_data \<Rightarrow> 'v set" where
  "record_visits r = (\<Union>b \<in> set (record_fields r). field_visits (snd b))"

definition visits_vars :: "fv_res set \<Rightarrow> ident set" where
  "visits_vars rs = \<Union> (fv_vars ` rs)"

definition visits_ok :: "fv_res set \<Rightarrow> bool" where
  "visits_ok rs \<longleftrightarrow> (\<forall>r \<in> rs. fv_ok r)"

definition chunk_visits :: "'v str_chunk \<Rightarrow> 'v set" where
  "chunk_visits c = (case c of Literal _ \<Rightarrow> {} | Expr v _ \<Rightarrow> {v})"

text \<open>A recursive record: the dependencies, and the variables free in it.\<close>

definition rec_fields :: "'v record_data \<Rightarrow> (ident \<times> 'm) list \<Rightarrow> ident set" where
  "rec_fields r incl = set (map fst (record_fields r)) \<union> set (map fst incl)"

definition new_deps ::
    "fv_res record_data \<Rightarrow> (ident \<times> fv_res field_metadata) list \<Rightarrow> (fv_res \<times> fv_res field) list \<Rightarrow> record_deps" where
  "new_deps r incl dyns =
    (let rf = rec_fields r incl in
     \<lparr>stat_fields = im_from_iter
        (map (\<lambda>(x, m). (x, Known (visits_vars (annot_visits (fm_annotation m)) \<inter> rf))) incl
         @ map (\<lambda>(x, fld). (x, Known (visits_vars (field_visits fld) \<inter> rf))) (record_fields r)),
      dyn_fields = map (\<lambda>(t, fld). Known (visits_vars (field_visits fld) \<inter> rf)) dyns\<rparr>)"

definition rec_record_vars ::
    "fv_res record_data \<Rightarrow> (ident \<times> fv_res field_metadata) list \<Rightarrow> (fv_res \<times> fv_res field) list \<Rightarrow> ident set" where
  "rec_record_vars r incl dyns =
    (let rf = rec_fields r incl in
     (\<Union>(x, m) \<in> set incl. insert x (visits_vars (annot_visits (fm_annotation m)) - rf))
     \<union> (\<Union>(x, fld) \<in> set (record_fields r). visits_vars (field_visits fld) - rf)
     \<union> (\<Union>(t, fld) \<in> set dyns. fv_vars t \<union> (visits_vars (field_visits fld) - rf)))"

section \<open>The traversal\<close>

datatype fv_term = FvTerm (ft_new: nickel_term) (ft_vars: "ident set") (ft_ok: bool)

definition fv_leaf :: "nickel_value \<Rightarrow> fv_res" where
  "fv_leaf v = FvRes v v {} True"

primrec collect_value :: "nickel_value \<Rightarrow> fv_res"
and collect_term :: "nickel_term \<Rightarrow> fv_term" where
  "collect_value Null = fv_leaf Null"
| "collect_value (Bool b) = fv_leaf (Bool b)"
| "collect_value (Number q) = fv_leaf (Number q)"
| "collect_value (String s) = fv_leaf (String s)"
| "collect_value (ForeignId i) = fv_leaf (ForeignId i)"
| "collect_value (SealingKey k) = fv_leaf (SealingKey k)"
| "collect_value (LabelV l) = fv_leaf (LabelV l)"
| "collect_value (Thunk a) = FvRes (Thunk a) (Thunk a) {} False"
| "collect_value (ArrayV d) =
    (case map_container (map_prod (map collect_value) (map (map_runtime_contract collect_value))) d of
       Empty \<Rightarrow> fv_leaf (ArrayV d)
     | Alloc (vs, cs) \<Rightarrow> FvRes (ArrayV d) (ArrayV (Alloc (map fv_new vs, map (map_runtime_contract fv_orig) cs)))
         (visits_vars (set vs)) (visits_ok (set vs)))"
| "collect_value (RecordV d) =
    (case map_container (map_record_data collect_value) d of
       Empty \<Rightarrow> fv_leaf (RecordV d)
     | Alloc r \<Rightarrow> FvRes (RecordV d) (RecordV (Alloc (record_new_fields r))) (visits_vars (record_visits r)) (visits_ok (record_visits r)))"
| "collect_value (EnumVariant tag arg) =
    (case map_option collect_value arg of
       None \<Rightarrow> fv_leaf (EnumVariant tag arg)
     | Some r \<Rightarrow> FvRes (EnumVariant tag arg) (EnumVariant tag (Some (fv_new r))) (fv_vars r) (fv_ok r))"
| "collect_value (CustomContract v) =
    (let r = collect_value v in FvRes (CustomContract v) (CustomContract (fv_new r)) (fv_vars r) (fv_ok r))"
| "collect_value (TypeV t v) =
    (let t' = map_ntype collect_value t; r = collect_value v
     in FvRes (TypeV t v) (TypeV (type_new t') (fv_new r)) (visits_vars (type_visits t') \<union> fv_vars r)
          (visits_ok (type_visits t') \<and> fv_ok r))"
| "collect_value (TermV t) =
    (let r = collect_term t in FvRes (TermV t) (TermV (ft_new r)) (ft_vars r) (ft_ok r))"
| "collect_term (Var x) = FvTerm (Var x) {x} True"
| "collect_term (ParseError n) = FvTerm (ParseError n) {} True"
| "collect_term (RuntimeError err) = FvTerm (RuntimeError err) {} True"
| "collect_term (Import i) = FvTerm (Import i) {} True"
| "collect_term (ResolvedImport i) = FvTerm (ResolvedImport i) {} True"
| "collect_term (StrChunks chunks) =
    (let cs = map (map_str_chunk collect_value) chunks; rs = \<Union> (set (map chunk_visits cs))
     in FvTerm (StrChunks (map (map_str_chunk fv_new) cs)) (visits_vars rs) (visits_ok rs))"
| "collect_term (Fun x body) =
    (let r = collect_value body in FvTerm (Fun x (fv_new r)) (fv_vars r - {x}) (fv_ok r))"
| "collect_term (Let bindings body bty is_rec) =
    (let bs = map (map_prod id collect_value) bindings; r = collect_value body;
         ids = set (map fst bs); bound = visits_vars (snd ` set bs)
     in FvTerm (Let (map (map_prod id fv_new) bs) (fv_new r) bty is_rec)
          (if is_rec then (bound \<union> fv_vars r) - ids else bound \<union> (fv_vars r - ids))
          (visits_ok (snd ` set bs) \<and> fv_ok r))"
| "collect_term (App f arg) =
    (let r1 = collect_value f; r2 = collect_value arg
     in FvTerm (App (fv_new r1) (fv_new r2)) (fv_vars r1 \<union> fv_vars r2) (fv_ok r1 \<and> fv_ok r2))"
| "collect_term (RecRecord data incl dyns deps closurized) =
    (let r = map_record_data collect_value data;
         is = map (map_prod id (map_field_metadata collect_value)) incl;
         ds = map (map_prod collect_value (map_field collect_value)) dyns
     in FvTerm (RecRecord (record_new_fields r) (map (map_prod id metadata_new) is)
            (map (map_prod fv_new field_new) ds) (Some (new_deps r is ds)) closurized)
          (rec_record_vars r is ds)
          (visits_ok (record_visits r \<union> (\<Union>(x, m) \<in> set is. annot_visits (fm_annotation m))
             \<union> (\<Union>(t, fld) \<in> set ds. insert t (field_visits fld)))))"
| "collect_term (Closurize v) =
    (let r = collect_value v in FvTerm (Closurize (fv_new r)) (fv_vars r) (fv_ok r))"
| "collect_term (Op1 op v) =
    (let r = collect_value v in FvTerm (Op1 op (fv_new r)) (fv_vars r) (fv_ok r))"
| "collect_term (Op2 op v1 v2) =
    (let r1 = collect_value v1; r2 = collect_value v2
     in FvTerm (Op2 op (fv_new r1) (fv_new r2)) (fv_vars r1 \<union> fv_vars r2) (fv_ok r1 \<and> fv_ok r2))"
| "collect_term (OpN op args) =
    (let rs = map collect_value args
     in FvTerm (OpN op (map fv_new rs)) (visits_vars (set rs)) (visits_ok (set rs)))"
| "collect_term (Sealed k v l) =
    (let r = collect_value v in FvTerm (Sealed k (fv_new r) l) (fv_vars r) (fv_ok r))"
| "collect_term (Annotated annot v) =
    (let a = map_type_annotation collect_value annot; r = collect_value v
     in FvTerm (Annotated (annot_new a) (fv_new r)) (visits_vars (annot_visits a) \<union> fv_vars r)
          (visits_ok (annot_visits a) \<and> fv_ok r))"

definition free_vars_transform :: "nickel_value \<Rightarrow> nickel_value panics" where
  "free_vars_transform v = (let r = collect_value v in if fv_ok r then Some (fv_new r) else None)"

end
