(* ===== verification/Scoping.thy ===== *)
theory Scoping
  imports Free_Vars Type_Totality
begin

text \<open>
  The free variables of a value in the sense of lexical scoping, \<open>fvs\<close>: the specification the analysis
  of \<open>Free_Vars\<close> and the generated terms are measured against. It enters every component of a
  value, the pending contracts and the rows of enum types included.
\<close>

section \<open>Free variables\<close>

primrec fvs :: "nickel_value \<Rightarrow> ident set"
and fvs_term :: "nickel_term \<Rightarrow> ident set" where
  "fvs Null = {}" | "fvs (Bool b) = {}" | "fvs (Number q) = {}" | "fvs (String s) = {}" | "fvs (ForeignId i) = {}"
| "fvs (SealingKey k) = {}" | "fvs (LabelV l) = {}" | "fvs (Thunk a) = {}"
| "fvs (ArrayV d) =
    (case map_container (map_prod (map fvs) (map (map_runtime_contract fvs))) d of
       Empty \<Rightarrow> {} | Alloc (vs, cs) \<Rightarrow> \<Union> (set vs) \<union> \<Union> (ctr_contract ` set cs))"
| "fvs (RecordV d) =
    (case map_container (map_record_data fvs) d of Empty \<Rightarrow> {} | Alloc r \<Rightarrow> \<Union> (set_record_data r))"
| "fvs (EnumVariant tag arg) = \<Union> (set_option (map_option fvs arg))"
| "fvs (CustomContract v) = fvs v"
| "fvs (TypeV t v) = \<Union> (set_ntype (map_ntype fvs t)) \<union> fvs v"
| "fvs (TermV t) = fvs_term t"
| "fvs_term (Var x) = {x}"
| "fvs_term (ParseError n) = {}" | "fvs_term (Import i) = {}" | "fvs_term (ResolvedImport i) = {}"
| "fvs_term (RuntimeError err) = {}"
| "fvs_term (StrChunks chunks) = \<Union> (\<Union> (set (map set_str_chunk (map (map_str_chunk fvs) chunks))))"
| "fvs_term (Fun x body) = fvs body - {x}"
| "fvs_term (Let bindings body bty is_rec) =
    (let bs = map (map_prod id fvs) bindings; ids = set (map fst bs); bound = \<Union> (snd ` set bs)
     in if is_rec then (bound \<union> fvs body) - ids else bound \<union> (fvs body - ids))"
| "fvs_term (App f arg) = fvs f \<union> fvs arg"
| "fvs_term (RecRecord data incl dyns deps closurized) =
    (let r = map_record_data fvs data; is = map (map_prod id (map_field_metadata fvs)) incl;
         ds = map (map_prod fvs (map_field fvs)) dyns; rf = rec_fields r is
     in (\<Union> (set_record_data r) - rf) \<union> (\<Union>(x, m) \<in> set is. insert x (\<Union> (set_field_metadata m) - rf))
        \<union> (\<Union>(t, fld) \<in> set ds. t \<union> (\<Union> (set_field fld) - rf)))"
| "fvs_term (Closurize v) = fvs v"
| "fvs_term (Op1 op v) = fvs v"
| "fvs_term (Op2 op v1 v2) = \<Union> (set_binary_op (map_binary_op fvs op)) \<union> fvs v1 \<union> fvs v2"
| "fvs_term (OpN op args) = \<Union> (set (map fvs args))"
| "fvs_term (Sealed k v l) = fvs v"
| "fvs_term (Annotated annot v) = \<Union> (set_type_annotation (map_type_annotation fvs annot)) \<union> fvs v"


definition internals :: "ident set" where
  "internals = {x. \<exists>s. x = CHR ''$'' # s}"

text \<open>The variables of the contracts inside a type or an annotation.\<close>

definition type_fvs :: "nickel_type \<Rightarrow> ident set" where
  "type_fvs ty = \<Union> (fvs ` set_ntype ty)"

definition annot_fvs :: "nannotation \<Rightarrow> ident set" where
  "annot_fvs annot = \<Union> (fvs ` set_type_annotation annot)"

definition field_fvs :: "nfield \<Rightarrow> ident set" where
  "field_fvs fld = \<Union> (fvs ` set_field fld)"

section \<open>Free variables of built terms\<close>

named_theorems fvs_simps \<open>free variables of the terms the builders make\<close>

lemma fvs_make [fvs_simps]:
  "fvs (mk_app f a) = fvs f \<union> fvs a"
  "fvs (mk_var x) = {x}"
  "fvs (mk_fun x b) = fvs b - {x}"
  "fvs (let_one_in x t1 t2) = fvs t1 \<union> (fvs t2 - {x})"
  "fvs (let_in False bs t) = (\<Union>b \<in> set bs. fvs (snd b)) \<union> (fvs t - fst ` set bs)"
  "fvs (mk_op1 op t) = fvs t"
  "fvs (mk_op2 (BinOp bop) t1 t2) = fvs t1 \<union> fvs t2"
  "fvs (mk_opn nop ts) = (\<Union>t \<in> set ts. fvs t)"
  "fvs (if_then_else c t e) = fvs c \<union> fvs t \<union> fvs e"
  "fvs (enum_variant tag v) = fvs v"
  "fvs (enum_tag tag) = {}"
  "fvs (custom_contract v) = fvs v"
  "fvs (closurize_literal v) = fvs v"
  "fvs (internal name) = {CHR ''$'' # name}"
  by (auto simp: make_defs image_image Let_def)

lemma fvs_mk_apps [fvs_simps]: "fvs (mk_apps f args) = fvs f \<union> (\<Union>a \<in> set args. fvs a)"
  by (induction args arbitrary: f) (auto simp: mk_apps_def fvs_simps)

lemma fvs_static_access [fvs_simps]: "fvs (static_access v flds) = fvs v"
  by (induction flds arbitrary: v) (auto simp: static_access_def fvs_simps)

lemma fvs_record_insert [fvs_simps]: "fvs (mk_op2 record_insert t1 t2) = fvs t1 \<union> fvs t2"
  by (simp add: record_insert_def mk_op2_def)

lemma internal_in [simp]: "CHR ''$'' # name \<in> internals"
  by (simp add: internals_def)

lemma fvs_array_strings [fvs_simps]: "fvs (excluded_array xs) = {}"
  by (simp add: excluded_array_def array_value_def)

lemma im_from_iter_members: "set (im_from_iter kvs) \<subseteq> set kvs"
proof -
  have "set (im_extend m kvs) \<subseteq> set m \<union> set kvs" for m
  proof (induction kvs arbitrary: m)
    case (Cons kv kvs)
    have "set (AList.update k v m) \<subseteq> insert (k, v) (set m)" for k :: 'a and v :: 'b
      by (induction m) auto
    with Cons [of "AList.update (fst kv) (snd kv) m"] show ?case by (fastforce simp: im_extend_def im_insert_def)
  qed (simp add: im_extend_def)
  from this [of "[]"] show ?thesis by (simp add: im_from_iter_def)
qed

lemma fvs_RecordV: "fvs (RecordV (Alloc r)) = \<Union> (fvs ` set_record_data r)"
  by (simp add: record_data.set_map)

lemma fvs_record_posless: "fvs (record_posless r) \<subseteq> \<Union> (fvs ` set_record_data r)"
  by (simp add: record_posless_def record_data.set_map)

lemma fvs_record_value: "fvs (record_value r) \<subseteq> \<Union> (fvs ` set_record_data r)"
  by (simp add: record_value_def record_data.set_map)

lemma set_record_fields:
  "set_record_data (RecordData flds attrs None) = (\<Union>b \<in> set flds. set_field (snd b))"
  by (auto simp: snds.simps)

lemma set_record_data_values:
  assumes "set flds \<subseteq> (\<lambda>(x, v). (x, field_of_value v)) ` set kvs"
  shows "set_record_data (RecordData flds attrs None) \<subseteq> snd ` set kvs"
proof
  fix v assume "v \<in> set_record_data (RecordData flds attrs None)"
  then obtain b where b: "b \<in> set flds" "v \<in> set_field (snd b)" unfolding set_record_fields by blast
  then obtain x w where "(x, w) \<in> set kvs" "b = (x, field_of_value w)" using assms by fastforce
  then show "v \<in> snd ` set kvs" using b(2) by (force simp: field_of_value_def)
qed

lemma fvs_with_field_values: "fvs (record_posless (with_field_values kvs)) \<subseteq> (\<Union>b \<in> set kvs. fvs (snd b))"
proof -
  have "set_record_data (with_field_values kvs) \<subseteq> snd ` set kvs"
    unfolding with_field_values_def
    by (rule set_record_data_values, rule order_trans [OF im_from_iter_members]) (simp add: case_prod_beta')
  then have "\<Union> (fvs ` set_record_data (with_field_values kvs)) \<subseteq> \<Union> (fvs ` snd ` set kvs)"
    by (intro Union_mono image_mono)
  with fvs_record_posless [of "with_field_values kvs"] have "fvs (record_posless (with_field_values kvs)) \<subseteq> \<Union> (fvs ` snd ` set kvs)"
    by (rule order_trans)
  then show ?thesis by (simp only: image_image)
qed

end
