(* ===== verification/Pattern_Scope.thy ===== *)
theory Pattern_Scope
  imports Scoping
begin

text \<open>
  Scoping of compiled patterns. The locale \<open>pending_scoped\<close> is what the compilation of patterns
  relies on in the generator of pending contracts: the contracts it adds only use the internals of
  the standard library and variables of the annotation, and the counter of identifiers does not
  decrease. A compiler for a part of a pattern that binds the variables \<open>X\<close> and contains the
  variables \<open>W\<close> is described by \<open>scope_upper\<close>, what may be free in its result, and \<open>scope_lower\<close>:
  the continuation of success loses no other variable, as no identifier that is generated in
  between occurs in it.
\<close>

section \<open>Descriptions of compilers\<close>

definition bound_ids :: "pat_bindings \<Rightarrow> ident set \<Rightarrow> ident set" where
  "bound_ids bs X = {x'. \<exists>x \<in> X. map_of bs x = Some x'}"

definition below :: "nat \<Rightarrow> ident set \<Rightarrow> bool" where
  "below n S \<longleftrightarrow> (\<forall>k \<ge> n. gen_ident k \<notin> S)"

lemma below_mono: "below n S \<Longrightarrow> n \<le> n' \<Longrightarrow> T \<subseteq> S \<Longrightarrow> below n' T"
  by (auto simp: below_def)

lemma below_simps [simp]:
  "below n (S \<union> T) \<longleftrightarrow> below n S \<and> below n T" "below n {}" "below (Suc n) {gen_ident n}"
  by (auto simp: below_def)

lemma below_notin: "below n S \<Longrightarrow> gen_ident n \<notin> S"
  by (simp add: below_def)

lemma below_internals [simp]: "below n internals"
  by (auto simp: below_def internals_def gen_ident_def)

lemma bound_ids_Un [simp]: "bound_ids bs (X \<union> Y) = bound_ids bs X \<union> bound_ids bs Y" "bound_ids bs {} = {}"
  by (auto simp: bound_ids_def)

lemma bound_ids_single: "map_of bs x = Some x' \<Longrightarrow> bound_ids bs {x} = {x'}"
  by (auto simp: bound_ids_def)

definition scope_upper :: "compiler \<Rightarrow> ident set \<Rightarrow> ident set \<Rightarrow> bool" where
  "scope_upper c X W \<longleftrightarrow> (\<forall>v m f bs n out n'. c v m f bs n = Some (out, n') \<longrightarrow>
     n \<le> n' \<and> fvs out \<subseteq> {v} \<union> (fvs m - bound_ids bs X) \<union> fvs f \<union> W)"

definition scope_lower :: "compiler \<Rightarrow> ident set \<Rightarrow> ident set \<Rightarrow> bool" where
  "scope_lower c X W \<longleftrightarrow> (\<forall>v m f bs n out n'. c v m f bs n = Some (out, n') \<longrightarrow>
     below n ({v} \<union> fvs m \<union> fvs f \<union> W) \<longrightarrow> fvs m - bound_ids bs X \<subseteq> fvs out)"

lemma scope_upperD:
  assumes "scope_upper c X W" "c v m f bs n = Some (out, n')"
  shows "n \<le> n'" "fvs out \<subseteq> {v} \<union> (fvs m - bound_ids bs X) \<union> fvs f \<union> W"
  using assms by (auto simp: scope_upper_def)

lemma scope_lowerD:
  assumes "scope_lower c X W" "c v m f bs n = Some (out, n')" "below n ({v} \<union> fvs m \<union> fvs f \<union> W)"
  shows "fvs m - bound_ids bs X \<subseteq> fvs out"
  using assms unfolding scope_lower_def by blast

lemma scope_upper_mono: "scope_upper c X W \<Longrightarrow> W \<subseteq> W' \<Longrightarrow> scope_upper c X W'"
  unfolding scope_upper_def by blast

lemma scope_lower_mono: "scope_lower c X W \<Longrightarrow> W \<subseteq> W' \<Longrightarrow> scope_lower c X W'"
  unfolding scope_lower_def by (meson below_mono le_refl Un_mono order_refl)

text \<open>The continuation with one more binding.\<close>

definition with_binding :: "ident option \<Rightarrow> pat_bindings \<Rightarrow> nickel_value \<Rightarrow> nickel_value \<Rightarrow> nickel_value option" where
  "with_binding x bs t m = (case x of None \<Rightarrow> Some m | Some x \<Rightarrow> map_option (\<lambda>x'. let_one_in x' t m) (map_of bs x))"

lemma with_binding_scope:
  assumes "with_binding x bs t m = Some m1"
  shows "fvs m1 \<subseteq> fvs t \<union> (fvs m - bound_ids bs (set_option x))" "fvs m - bound_ids bs (set_option x) \<subseteq> fvs m1"
  using assms by (auto simp: with_binding_def fvs_simps bound_ids_single split: option.splits)

lemma make_inject [simp]:
  "if_then_else c t e = if_then_else c' t' e' \<longleftrightarrow> c = c' \<and> t = t' \<and> e = e'"
  "let_one_in x t m = let_one_in x' t' m' \<longleftrightarrow> x = x' \<and> t = t' \<and> m = m'"
  by (simp_all add: make_defs)

section \<open>Compilers without generated contracts\<close>

lemma compile_alias_run:
  "compile_alias alias c v m f bs n = do { m1 \<leftarrow> with_binding alias bs (mk_var v) m; c v m1 f bs n }"
  by (auto simp: compile_alias_def with_binding_def map_option_case split: option.split)

lemma set_alias_ids [simp]: "set (alias_ids alias) = set_option alias"
  by (cases "alias") (simp_all add: alias_ids_def)

lemma alias_upper:
  assumes u: "scope_upper c X W"
  shows "scope_upper (compile_alias alias c) (set_option alias \<union> X) W"
  unfolding scope_upper_def
proof (intro allI impI)
  fix v m f bs n out n'
  assume "compile_alias alias c v m f bs n = Some (out, n')"
  then obtain m1 where 1: "with_binding alias bs (mk_var v) m = Some m1" and "c v m1 f bs n = Some (out, n')"
    by (auto simp: compile_alias_run split: bind_splits)
  note scope_upperD [OF u this(2)] and with_binding_scope(1) [OF 1]
  moreover have "fvs (mk_var v) = {v}" by (simp add: fvs_simps)
  ultimately show "n \<le> n' \<and> fvs out \<subseteq> {v} \<union> (fvs m - bound_ids bs (set_option alias \<union> X)) \<union> fvs f \<union> W"
    unfolding bound_ids_Un by blast
qed

lemma alias_lower:
  assumes l: "scope_lower c X W"
  shows "scope_lower (compile_alias alias c) (set_option alias \<union> X) W"
  unfolding scope_lower_def
proof (intro allI impI)
  fix v m f bs n out n'
  assume "compile_alias alias c v m f bs n = Some (out, n')" and b: "below n ({v} \<union> fvs m \<union> fvs f \<union> W)"
  then obtain m1 where 1: "with_binding alias bs (mk_var v) m = Some m1" and 2: "c v m1 f bs n = Some (out, n')"
    by (auto simp: compile_alias_run split: bind_splits)
  note wb = with_binding_scope [OF 1]
  have "fvs (mk_var v) = {v}" by (simp add: fvs_simps)
  then have "{v} \<union> fvs m1 \<union> fvs f \<union> W \<subseteq> {v} \<union> fvs m \<union> fvs f \<union> W" using wb(1) by blast
  from scope_lowerD [OF l 2 below_mono [OF b le_refl this]] wb(2)
  show "fvs m - bound_ids bs (set_option alias \<union> X) \<subseteq> fvs out" unfolding bound_ids_Un by blast
qed

lemma any_scope: "scope_upper (compile_any x) {x} W" "scope_lower (compile_any x) {x} W"
  by (auto simp: scope_upper_def scope_lower_def compile_any_def fvs_simps bound_ids_single split: bind_splits)

lemma fold_or_upper: "list_all (\<lambda>c. scope_upper c X W) cs \<Longrightarrow> scope_upper (fold_or cs) X W"
proof (induction cs)
  case (Cons c cs)
  then have IH: "scope_upper (fold_or cs) X W" and c: "scope_upper c X W" by auto
  show ?case unfolding scope_upper_def
  proof (intro allI impI)
    fix v m f bs n out n'
    assume "fold_or (c # cs) v m f bs n = Some (out, n')"
    then obtain g n1 where "fold_or cs v m f bs n = Some (g, n1)" "c v m g bs n1 = Some (out, n')" by (auto split: bind_splits)
    from scope_upperD [OF IH this(1)] scope_upperD [OF c this(2)]
    show "n \<le> n' \<and> fvs out \<subseteq> {v} \<union> (fvs m - bound_ids bs X) \<union> fvs f \<union> W" by auto
  qed
qed (auto simp: scope_upper_def)

lemma fold_or_lower:
  assumes "cs \<noteq> []" "list_all (\<lambda>c. scope_upper c X W) cs" "list_all (\<lambda>c. scope_lower c X W) cs"
  shows "scope_lower (fold_or cs) X W"
proof -
  obtain c cs' where cs: "cs = c # cs'" using assms(1) by (cases cs) auto
  have up: "scope_upper (fold_or cs') X W" and lo: "scope_lower c X W" using assms fold_or_upper by (auto simp: cs)
  show ?thesis unfolding scope_lower_def
  proof (intro allI impI)
    fix v m f bs n out n'
    assume "fold_or cs v m f bs n = Some (out, n')" and b: "below n ({v} \<union> fvs m \<union> fvs f \<union> W)"
    then obtain g n1 where 1: "fold_or cs' v m f bs n = Some (g, n1)" "c v m g bs n1 = Some (out, n')" by (auto simp: cs split: bind_splits)
    note g = scope_upperD [OF up 1(1)]
    have "below n1 ({v} \<union> fvs m \<union> fvs g \<union> W)" by (rule below_mono [OF b g(1)]) (use g(2) in blast)
    from scope_lowerD [OF lo 1(2) this] show "fvs m - bound_ids bs X \<subseteq> fvs out" .
  qed
qed

lemma fold_fields_scope:
  assumes "list_all2 (\<lambda>c X. scope_upper c X W) cs Xs"
  shows "scope_upper (fold_fields cs) (\<Union> (set Xs)) W"
    and "list_all2 (\<lambda>c X. scope_lower c X W) cs Xs \<Longrightarrow> scope_lower (fold_fields cs) (\<Union> (set Xs)) W"
  using assms
proof (induction cs Xs rule: list_all2_induct)
  case (Cons c cs X Xs)
  have step: "\<exists>m1 n1. fold_fields cs v m f bs n = Some (m1, n1) \<and> c v m1 f bs n1 = Some (out, n')"
    if "fold_fields (c # cs) v m f bs n = Some (out, n')" for v m f bs n out n'
    using that by (auto split: bind_splits)
  { case 1
    show ?case unfolding scope_upper_def
    proof (intro allI impI)
      fix v m f bs n out n'
      assume "fold_fields (c # cs) v m f bs n = Some (out, n')"
      from step [OF this] obtain m1 n1 where "fold_fields cs v m f bs n = Some (m1, n1)" "c v m1 f bs n1 = Some (out, n')" by blast
      from scope_upperD [OF Cons.IH(1) this(1)] scope_upperD [OF Cons.hyps(1) this(2)]
      show "n \<le> n' \<and> fvs out \<subseteq> {v} \<union> (fvs m - bound_ids bs (\<Union> (set (X # Xs)))) \<union> fvs f \<union> W"
        unfolding list.set Union_insert bound_ids_Un by auto
    qed
  next
    case 2
    then have lo: "scope_lower c X W" "scope_lower (fold_fields cs) (\<Union> (set Xs)) W" using Cons.IH(2) by auto
    show ?case unfolding scope_lower_def
    proof (intro allI impI)
      fix v m f bs n out n'
      assume "fold_fields (c # cs) v m f bs n = Some (out, n')" and b: "below n ({v} \<union> fvs m \<union> fvs f \<union> W)"
      from step [OF this(1)] obtain m1 n1 where 1: "fold_fields cs v m f bs n = Some (m1, n1)" "c v m1 f bs n1 = Some (out, n')" by blast
      note m1 = scope_upperD [OF Cons.IH(1) 1(1)]
      have "below n1 ({v} \<union> fvs m1 \<union> fvs f \<union> W)" by (rule below_mono [OF b m1(1)]) (use m1(2) in blast)
      from scope_lowerD [OF lo(1) 1(2) this] scope_lowerD [OF lo(2) 1(1) b]
      show "fvs m - bound_ids bs (\<Union> (set (X # Xs))) \<subseteq> fvs out" unfolding list.set Union_insert bound_ids_Un by auto
    qed }
next
  case Nil
  { case 1 show ?case by (simp add: scope_upper_def) (auto simp: bound_ids_def) 
  next
    case 2 show ?case by (simp add: scope_lower_def) }
qed


section \<open>Elements, tags and constants\<close>

definition tail_capture :: "tail_pattern \<Rightarrow> ident option" where
  "tail_capture tail = (case tail of TailCapture x \<Rightarrow> Some x | _ \<Rightarrow> None)"

lemma tail_binding:
  "(case tail of TailCapture x \<Rightarrow> do { x' \<leftarrow> map_of bs x; Some (let_one_in x' t m) } | _ \<Rightarrow> Some m) = with_binding (tail_capture tail) bs t m"
  by (auto simp: with_binding_def tail_capture_def map_option_case split: tail_pattern.split option.split)

lemma set_tail_ids [simp]: "set (tail_ids tail) = set_option (tail_capture tail)"
  by (simp add: tail_ids_def tail_capture_def split: tail_pattern.split)

text \<open>A part compiled under a local identifier that is bound around it.\<close>

lemma local_scope:
  assumes u: "scope_upper c X W" and run: "c (gen_ident n) m f bs (Suc n) = Some (out, n')" and t: "fvs t \<subseteq> {v}"
  shows "n \<le> n'" "fvs (let_one_in (gen_ident n) t out) \<subseteq> {v} \<union> (fvs m - bound_ids bs X) \<union> fvs f \<union> W"
    and "scope_lower c X W \<Longrightarrow> below n (fvs m \<union> fvs f \<union> W) \<Longrightarrow> fvs m - bound_ids bs X \<subseteq> fvs (let_one_in (gen_ident n) t out)"
proof -
  note up = scope_upperD [OF u run]
  then show "n \<le> n'" by simp
  show "fvs (let_one_in (gen_ident n) t out) \<subseteq> {v} \<union> (fvs m - bound_ids bs X) \<union> fvs f \<union> W"
    using up(2) t unfolding fvs_make by blast
  assume lo: "scope_lower c X W" and b: "below n (fvs m \<union> fvs f \<union> W)"
  have "below (Suc n) (fvs m \<union> fvs f \<union> W)" by (rule below_mono [OF b]) auto
  then have "below (Suc n) ({gen_ident n} \<union> fvs m \<union> fvs f \<union> W)" by (simp only: below_simps)
  from scope_lowerD [OF lo run this] have "fvs m - bound_ids bs X \<subseteq> fvs out" .
  moreover have "gen_ident n \<notin> fvs m" using below_notin [OF b] by simp
  ultimately show "fvs m - bound_ids bs X \<subseteq> fvs (let_one_in (gen_ident n) t out)" unfolding fvs_make by blast
qed

lemma fold_elems_scope:
  assumes "list_all2 (\<lambda>c X. scope_upper c X W) cs Xs"
  shows "scope_upper (fold_elems cs idx) (\<Union> (set Xs)) W"
    and "list_all2 (\<lambda>c X. scope_lower c X W) cs Xs \<Longrightarrow> scope_lower (fold_elems cs idx) (\<Union> (set Xs)) W"
  using assms
proof (induction cs Xs arbitrary: idx rule: list_all2_induct)
  case (Cons c cs X Xs)
  let ?at = "\<lambda>idx v. mk_op2 (BinOp ArrayAt) (mk_var v) (Number (of_nat idx))"
  have step: "\<exists>m1 n1 o1. fold_elems cs (Suc idx) v m f bs n = Some (m1, n1) \<and> c (gen_ident n1) m1 f bs (Suc n1) = Some (o1, n')
      \<and> out = let_one_in (gen_ident n1) (?at idx v) o1"
    if "fold_elems (c # cs) idx v m f bs n = Some (out, n')" for idx v m f bs n out n'
    using that by (auto simp: Let_def split: bind_splits)
  have at: "fvs (?at idx v) \<subseteq> {v}" for idx v by (simp add: fvs_simps)
  { case 1
    show ?case unfolding scope_upper_def
    proof (intro allI impI)
      fix v m f bs n out n'
      assume "fold_elems (c # cs) idx v m f bs n = Some (out, n')"
      from step [OF this] obtain m1 n1 o1 where r: "fold_elems cs (Suc idx) v m f bs n = Some (m1, n1)"
        "c (gen_ident n1) m1 f bs (Suc n1) = Some (o1, n')" "out = let_one_in (gen_ident n1) (?at idx v) o1" by blast
      from scope_upperD [OF Cons.IH(1) r(1)] local_scope(1,2) [OF Cons.hyps(1) r(2) at [of v idx]] r(3)
      show "n \<le> n' \<and> fvs out \<subseteq> {v} \<union> (fvs m - bound_ids bs (\<Union> (set (X # Xs)))) \<union> fvs f \<union> W"
        unfolding list.set Union_insert bound_ids_Un by auto
    qed
  next
    case 2
    then have lo: "scope_lower c X W" "scope_lower (fold_elems cs (Suc idx)) (\<Union> (set Xs)) W" using Cons.IH(2) by auto
    show ?case unfolding scope_lower_def
    proof (intro allI impI)
      fix v m f bs n out n'
      assume "fold_elems (c # cs) idx v m f bs n = Some (out, n')" and b: "below n ({v} \<union> fvs m \<union> fvs f \<union> W)"
      from step [OF this(1)] obtain m1 n1 o1 where r: "fold_elems cs (Suc idx) v m f bs n = Some (m1, n1)"
        "c (gen_ident n1) m1 f bs (Suc n1) = Some (o1, n')" "out = let_one_in (gen_ident n1) (?at idx v) o1" by blast
      note m1 = scope_upperD [OF Cons.IH(1) r(1)]
      have "below n1 (fvs m1 \<union> fvs f \<union> W)" by (rule below_mono [OF b m1(1)]) (use m1(2) in blast)
      from local_scope(3) [OF Cons.hyps(1) r(2) at [of v idx] lo(1) this] scope_lowerD [OF lo(2) r(1) b] r(3)
      show "fvs m - bound_ids bs (\<Union> (set (X # Xs))) \<subseteq> fvs out" unfolding list.set Union_insert bound_ids_Un by auto
    qed }
next
  case Nil
  { case 1 show ?case by (simp add: scope_upper_def) (auto simp: bound_ids_def)
  next
    case 2 show ?case by (simp add: scope_lower_def) }
qed

lemma fvs_typeof_is [fvs_simps]: "fvs (typeof_is v t) = {v}"
  by (simp add: typeof_is_def fvs_simps)

lemma array_scope:
  assumes u: "list_all2 (\<lambda>c X. scope_upper c X W) cs Xs"
  shows "scope_upper (compile_array cs tail) (\<Union> (set Xs) \<union> set_option (tail_capture tail)) W"
    and "list_all2 (\<lambda>c X. scope_lower c X W) cs Xs \<Longrightarrow>
      scope_lower (compile_array cs tail) (\<Union> (set Xs) \<union> set_option (tail_capture tail)) W"
proof -
  let ?T = "set_option (tail_capture tail)"
  note fold = fold_elems_scope [OF u, of 0]
  have step: "\<exists>m1 blk chk. with_binding (tail_capture tail) bs (mk_opn ArraySlice [Number (of_nat (length cs)), mk_var (gen_ident n), mk_var v]) m = Some m1
      \<and> fold_elems cs 0 v m1 f bs (Suc n) = Some (blk, n') \<and> fvs chk = {v, gen_ident n}
      \<and> out = let_one_in (gen_ident n) (mk_op1 ArrayLength (mk_var v)) (if_then_else chk blk f)"
    if "compile_array cs tail v m f bs n = Some (out, n')" for v m f bs n out n'
    using that by (auto simp: compile_array_def tail_binding Let_def fvs_simps split: bind_splits)
  show "scope_upper (compile_array cs tail) (\<Union> (set Xs) \<union> ?T) W" unfolding scope_upper_def
  proof (intro allI impI)
    fix v m f bs n out n'
    assume "compile_array cs tail v m f bs n = Some (out, n')"
    from step [OF this] obtain m1 blk chk where r:
      "with_binding (tail_capture tail) bs (mk_opn ArraySlice [Number (of_nat (length cs)), mk_var (gen_ident n), mk_var v]) m = Some m1"
      "fold_elems cs 0 v m1 f bs (Suc n) = Some (blk, n')" "fvs chk = {v, gen_ident n}"
      "out = let_one_in (gen_ident n) (mk_op1 ArrayLength (mk_var v)) (if_then_else chk blk f)" by blast
    from scope_upperD [OF fold(1) r(2)] with_binding_scope(1) [OF r(1)] r(3)
    show "n \<le> n' \<and> fvs out \<subseteq> {v} \<union> (fvs m - bound_ids bs (\<Union> (set Xs) \<union> ?T)) \<union> fvs f \<union> W"
      unfolding r(4) bound_ids_Un by (auto simp: fvs_simps)
  qed
  show "scope_lower (compile_array cs tail) (\<Union> (set Xs) \<union> ?T) W" if "list_all2 (\<lambda>c X. scope_lower c X W) cs Xs"
    unfolding scope_lower_def
  proof (intro allI impI)
    fix v m f bs n out n'
    assume "compile_array cs tail v m f bs n = Some (out, n')" and b: "below n ({v} \<union> fvs m \<union> fvs f \<union> W)"
    from step [OF this(1)] obtain m1 blk chk where r:
      "with_binding (tail_capture tail) bs (mk_opn ArraySlice [Number (of_nat (length cs)), mk_var (gen_ident n), mk_var v]) m = Some m1"
      "fold_elems cs 0 v m1 f bs (Suc n) = Some (blk, n')" "fvs chk = {v, gen_ident n}"
      "out = let_one_in (gen_ident n) (mk_op1 ArrayLength (mk_var v)) (if_then_else chk blk f)" by blast
    note wb = with_binding_scope [OF r(1)]
    have "below (Suc n) ({v} \<union> fvs m \<union> fvs f \<union> W)" by (rule below_mono [OF b]) auto
    then have "below (Suc n) ({v} \<union> fvs m \<union> fvs f \<union> W \<union> {gen_ident n})" by (simp only: below_simps)
    moreover have "{v} \<union> fvs m1 \<union> fvs f \<union> W \<subseteq> {v} \<union> fvs m \<union> fvs f \<union> W \<union> {gen_ident n}" using wb(1) by (auto simp: fvs_simps)
    ultimately have "below (Suc n) ({v} \<union> fvs m1 \<union> fvs f \<union> W)" by (rule below_mono [OF _ le_refl])
    from scope_lowerD [OF fold(2) [OF that] r(2) this] wb(2) below_notin [OF b]
    show "fvs m - bound_ids bs (\<Union> (set Xs) \<union> ?T) \<subseteq> fvs out" unfolding r(4) bound_ids_Un by (auto simp: fvs_simps)
  qed
qed

lemma enum_scope:
  assumes "\<And>c. arg = Some c \<Longrightarrow> scope_upper c X W" and "arg = None \<Longrightarrow> X = {}"
  shows "scope_upper (compile_enum tag arg) X W"
    and "(\<And>c. arg = Some c \<Longrightarrow> scope_lower c X W) \<Longrightarrow> scope_lower (compile_enum tag arg) X W"
proof -
  have get: "fvs (mk_op1 EnumGetArg (mk_var v)) \<subseteq> {v}" for v by (simp add: fvs_simps)
  have step: "(arg = None \<and> n' = n \<and> (\<exists>chk. fvs chk = {v} \<and> out = if_then_else chk m f)) \<or>
      (\<exists>c chk o1. arg = Some c \<and> fvs chk = {v} \<and> c (gen_ident n) m f bs (Suc n) = Some (o1, n')
        \<and> out = if_then_else chk (let_one_in (gen_ident n) (mk_op1 EnumGetArg (mk_var v)) o1) f)"
    if "compile_enum tag arg v m f bs n = Some (out, n')" for v m f bs n out n'
    using that by (cases arg) (auto simp: compile_enum_def Let_def fvs_simps split: bind_splits)
  show "scope_upper (compile_enum tag arg) X W" unfolding scope_upper_def
  proof (intro allI impI)
    fix v m f bs n out n'
    assume "compile_enum tag arg v m f bs n = Some (out, n')"
    from step [OF this] show "n \<le> n' \<and> fvs out \<subseteq> {v} \<union> (fvs m - bound_ids bs X) \<union> fvs f \<union> W"
    proof (elim disjE exE conjE)
      fix c chk o1 assume r: "arg = Some c" "c (gen_ident n) m f bs (Suc n) = Some (o1, n')" "fvs chk = {v}"
        and out: "out = if_then_else chk (let_one_in (gen_ident n) (mk_op1 EnumGetArg (mk_var v)) o1) f"
      have "fvs out = {v} \<union> fvs (let_one_in (gen_ident n) (mk_op1 EnumGetArg (mk_var v)) o1) \<union> fvs f"
        by (simp add: out fvs_simps(9) r(3))
      with local_scope(1,2) [OF assms(1) [OF r(1)] r(2) get] show ?thesis by auto
    qed (use assms(2) in \<open>auto simp: fvs_simps\<close>)
  qed
  show "scope_lower (compile_enum tag arg) X W" if lo: "\<And>c. arg = Some c \<Longrightarrow> scope_lower c X W"
    unfolding scope_lower_def
  proof (intro allI impI)
    fix v m f bs n out n'
    assume "compile_enum tag arg v m f bs n = Some (out, n')" and b: "below n ({v} \<union> fvs m \<union> fvs f \<union> W)"
    from step [OF this(1)] show "fvs m - bound_ids bs X \<subseteq> fvs out"
    proof (elim disjE exE conjE)
      fix c chk o1 assume r: "arg = Some c" "c (gen_ident n) m f bs (Suc n) = Some (o1, n')" "fvs chk = {v}"
        and out: "out = if_then_else chk (let_one_in (gen_ident n) (mk_op1 EnumGetArg (mk_var v)) o1) f"
      have "fvs out = {v} \<union> fvs (let_one_in (gen_ident n) (mk_op1 EnumGetArg (mk_var v)) o1) \<union> fvs f"
        by (simp add: out fvs_simps(9) r(3))
      moreover have "below n (fvs m \<union> fvs f \<union> W)" by (rule below_mono [OF b]) auto
      ultimately show ?thesis using local_scope(3) [OF assms(1) [OF r(1)] r(2) get [of v] lo [OF r(1)]] by auto
    qed (auto simp: fvs_simps)
  qed
qed

lemma fvs_compile_constant [fvs_simps]: "fvs (compile_constant c v m f) = {v} \<union> fvs m \<union> fvs f"
  by (auto simp: compile_constant_def Let_def fvs_simps split: constant_pattern.split)


section \<open>Patterns\<close>

text \<open>The variables of the default values and of the annotations of a pattern.\<close>

primrec pattern_fvs :: "pattern \<Rightarrow> ident set"
and data_fvs :: "pattern_data \<Rightarrow> ident set"
and field_pattern_fvs :: "field_pattern \<Rightarrow> ident set" where
  "pattern_fvs (Pattern data alias) = data_fvs data"
| "data_fvs PWildcard = {}"
| "data_fvs (PAny x) = {}"
| "data_fvs (PRecord fps tail) = \<Union> (set (map field_pattern_fvs fps))"
| "data_fvs (PArray ps tail) = \<Union> (set (map pattern_fvs ps))"
| "data_fvs (PEnum tag p) = \<Union> (set_option (map_option pattern_fvs p))"
| "data_fvs (PConstant c) = {}"
| "data_fvs (POr ps) = \<Union> (set (map pattern_fvs ps))"
| "field_pattern_fvs (FieldPattern x annot dflt p) = annot_fvs annot \<union> \<Union> (fvs ` set_option dflt) \<union> pattern_fvs p"

text \<open>The alternatives of an or-pattern bind the same variables, as the type checker demands.\<close>

primrec or_ok :: "pattern \<Rightarrow> bool"
and data_or_ok :: "pattern_data \<Rightarrow> bool"
and field_or_ok :: "field_pattern \<Rightarrow> bool" where
  "or_ok (Pattern data alias) = data_or_ok data"
| "data_or_ok PWildcard = True"
| "data_or_ok (PAny x) = True"
| "data_or_ok (PRecord fps tail) = list_all id (map field_or_ok fps)"
| "data_or_ok (PArray ps tail) = list_all id (map or_ok ps)"
| "data_or_ok (PEnum tag p) = (case map_option or_ok p of None \<Rightarrow> True | Some b \<Rightarrow> b)"
| "data_or_ok (PConstant c) = True"
| "data_or_ok (POr ps) = (ps \<noteq> [] \<and> list_all id (map or_ok ps) \<and>
    (\<forall>p \<in> set ps. set (pattern_bindings p) = set (pattern_bindings (hd ps))))"
| "field_or_ok (FieldPattern x annot dflt p) = or_ok p"

lemma fvs_has_fields: "fvs (has_fields fps v) \<subseteq> {v}"
  by (induction fps) (auto simp: and_term_def fvs_simps)

lemma fvs_has_right_length: "fvs (has_right_length fps tail v) \<subseteq> {v}"
  by (simp add: has_right_length_def fvs_simps)

lemma fvs_and_term: "fvs (and_term a b) \<subseteq> fvs a \<union> fvs b"
  by (auto simp: and_term_def fvs_simps)

lemma fvs_record_tail_value [fvs_simps]: "fvs (record_tail_value fps v) = {v}"
proof -
  have "fvs (foldl (\<lambda>tail fp. mk_op2 (BinOp (RecordRemove ConsiderAllFields)) (String (fp_matched_id fp)) tail) t fps) = fvs t" for t
    by (induction fps arbitrary: t) (simp_all add: fvs_simps)
  then show ?thesis by (simp add: record_tail_value_def fvs_simps)
qed

definition defaults_in :: "field_pattern list \<Rightarrow> ident set \<Rightarrow> bool" where
  "defaults_in fps W \<longleftrightarrow> list_all (\<lambda>fp. \<forall>d. fp_default fp = Some d \<longrightarrow> fvs d \<subseteq> W) fps"

text \<open>Both descriptions, for the parts of a list.\<close>

definition both :: "compiler \<Rightarrow> ident set \<Rightarrow> ident set \<Rightarrow> bool" where
  "both c X W \<longleftrightarrow> scope_upper c X W \<and> scope_lower c X W"

lemma both_list:
  assumes "\<And>x. x \<in> set xs \<Longrightarrow> both (f x) (g x) W"
  shows "list_all2 (\<lambda>c X. scope_upper c X W) (map f xs) (map g xs)" "list_all2 (\<lambda>c X. scope_lower c X W) (map f xs) (map g xs)"
  using assms by (auto simp: both_def list_all2_conv_all_nth)

section \<open>Branches\<close>

text \<open>The variables of a branch: those of its pattern, and those of its guard and its body that the pattern does not bind.\<close>

definition branch_fvs :: "match_branch \<Rightarrow> ident set" where
  "branch_fvs br = pattern_fvs (branch_pattern br) \<union>
    (\<Union> (fvs ` set_option (branch_guard br)) \<union> fvs (branch_body br) - set (pattern_bindings (branch_pattern br)))"

lemma fst_im_from_iter: "fst ` set (im_from_iter kvs) = fst ` set kvs"
proof -
  have "map_of (im_from_iter kvs) = map_of (rev kvs)" by (simp add: im_from_iter_def)
  then have "dom (map_of (im_from_iter kvs)) = dom (map_of (rev kvs))" by simp
  then show ?thesis by (simp add: dom_map_of_conv_image_fst)
qed

lemma fresh_bindings_scope:
  assumes "fresh_bindings ids n = (bs, n')"
  shows "n \<le> n'" "fst ` set bs = set ids" "snd ` set bs \<subseteq> bound_ids bs (set ids)"
proof -
  have bs: "bs = im_from_iter (zip ids (map gen_ident [n..<n + length ids]))" and n': "n' = n + length ids"
    using assms by (auto simp: fresh_bindings_def)
  show "n \<le> n'" by (simp add: n')
  show keys: "fst ` set bs = set ids" unfolding bs fst_im_from_iter by (simp flip: set_map add: map_fst_zip)
  have "distinct (map fst bs)" using im_wf_extend [of "[]" "zip ids (map gen_ident [n..<n + length ids])"]
    by (simp add: bs im_from_iter_def im_wf_def)
  then show "snd ` set bs \<subseteq> bound_ids bs (set ids)" unfolding bound_ids_def keys [symmetric] by force
qed

lemma fvs_binding_let: "fvs (let_in False (map (\<lambda>(x, x'). (x, mk_var x')) bs) m) = snd ` set bs \<union> (fvs m - fst ` set bs)"
  by (auto simp: fvs_simps image_image case_prod_beta)

lemma find_wildcard_body: "find_wildcard brs i = Some (j, d) \<Longrightarrow> \<exists>br \<in> set brs. d = branch_body br"
  by (induction brs arbitrary: i) (auto split: if_splits)

lemma tags_only_scope:
  assumes "compile_match gpc brs value n = Some (out, n')" and "list_all is_tag_or_wildcard brs"
  shows "n' = n" "fvs out \<subseteq> fvs value \<union> (\<Union>br \<in> set brs. fvs (branch_body br))"
proof -
  let ?B = "\<Union>br \<in> set brs. fvs (branch_body br)"
  obtain brs' dflt where out: "out = compile_tags_only (List.map_filter tag_branch brs') dflt value" "n' = n"
    and brs': "set brs' \<subseteq> set brs" and dflt: "\<And>d. dflt = Some d \<Longrightarrow> fvs d \<subseteq> ?B"
    using assms find_wildcard_body [of brs 0]
    by (fastforce simp: compile_match_def Let_def dest: in_set_takeD split: option.splits prod.splits)
  show "n' = n" by fact
  have "fvs (snd b) \<subseteq> ?B" if "b \<in> set (List.map_filter tag_branch brs')" for b
    using that brs' by (fastforce simp: map_filter_def tag_branch_def split: pattern_data.splits)
  then have "fvs (record_posless (with_field_values (List.map_filter tag_branch brs'))) \<subseteq> ?B"
    using fvs_with_field_values by fastforce
  then show "fvs out \<subseteq> fvs value \<union> ?B" using dflt unfolding out compile_tags_only_def Let_def
    by (cases dflt) (auto simp: fvs_simps)
qed

lemma fvs_binding_record:
  "fvs (record_posless (RecordData (im_from_iter (map (\<lambda>(x, x'). (x, field_of_value (mk_var x'))) bs)) attrs_new None)) \<subseteq> snd ` set bs"
proof -
  let ?kvs = "map (\<lambda>(x, x'). (x, mk_var x')) bs" and ?flds = "im_from_iter (map (\<lambda>(x, x'). (x, field_of_value (mk_var x'))) bs)"
  have "set ?flds \<subseteq> (\<lambda>(x, v). (x, field_of_value v)) ` set ?kvs"
    using im_from_iter_members [of "map (\<lambda>(x, x'). (x, field_of_value (mk_var x'))) bs"] by (force simp: image_image case_prod_beta)
  from set_record_data_values [OF this, of attrs_new]
  have "\<Union> (fvs ` set_record_data (RecordData ?flds attrs_new None)) \<subseteq> \<Union> (fvs ` snd ` set ?kvs)" by (intro Union_mono image_mono)
  also have "\<dots> = snd ` set bs" by (auto simp: image_image case_prod_beta fvs_simps)
  finally show ?thesis using fvs_record_posless by (rule order_trans [rotated])
qed

lemma fvs_let_rec: "fvs_term (Let bs body bty True) = ((\<Union>b \<in> set bs. fvs (snd b)) \<union> fvs body) - fst ` set bs"
  and fvs_let_plain: "fvs_term (Let bs body bty False) = (\<Union>b \<in> set bs. fvs (snd b)) \<union> (fvs body - fst ` set bs)"
  by (auto simp: Let_def image_image)

locale pending_scoped =
  fixes gpc :: pending_gen
  assumes gpc_fvs: "gpc (record_posless r) n = Some (v', n') \<Longrightarrow> fvs v' \<subseteq> fvs (record_posless r) \<union> internals"
    and gpc_counter: "gpc (record_posless r) n = Some (v', n') \<Longrightarrow> n \<le> n'"
begin

lemma update_with_merge_scope:
  assumes "update_with_merge gpc r x fld n = Some (t, n')"
  shows "n \<le> n'" "fvs t \<subseteq> {r} \<union> field_fvs fld \<union> internals" "r \<in> fvs t"
proof -
  let ?rec = "RecordData (im_from_iter [(x, fld)]) attrs_new None"
  obtain v where v: "gpc (record_posless ?rec) n = Some (v, n')"
    and t: "t = mk_op2 (BinOp (Merge \<lparr>ml_span = 0, ml_kind = StandardMerge\<rparr>)) (mk_var r) (TermV (Closurize v))"
    using assms by (auto simp: update_with_merge_def split: bind_splits)
  have "fvs (record_posless ?rec) \<subseteq> field_fvs fld"
    using fvs_record_posless [of ?rec] by (simp add: im_from_iter_def im_extend_def im_insert_def field_fvs_def)
  with gpc_fvs [OF v] show "fvs t \<subseteq> {r} \<union> field_fvs fld \<union> internals" "r \<in> fvs t" by (auto simp: t fvs_simps)
  show "n \<le> n'" by (rule gpc_counter [OF v])
qed

lemma with_default_value_scope:
  assumes "with_default_value gpc r x dflt n = Some (t, n')"
  shows "n \<le> n'" "fvs t \<subseteq> {r} \<union> fvs dflt \<union> internals" "r \<in> fvs t"
proof -
  obtain upd where u: "update_with_merge gpc r x (field_of_value dflt) n = Some (upd, n')"
    and t: "fvs t = {r} \<union> fvs upd \<union> fvs dflt"
    using assms by (auto simp: with_default_value_def Let_def fvs_simps split: bind_splits)
  have "field_fvs (field_of_value dflt) = fvs dflt" by (simp add: field_fvs_def field_of_value_def)
  with update_with_merge_scope [OF u] t show "n \<le> n'" "fvs t \<subseteq> {r} \<union> fvs dflt \<union> internals" "r \<in> fvs t" by auto
qed

lemma with_defaults_scope:
  assumes "with_defaults gpc fps r cont n = Some (out, n')" and "defaults_in fps W"
  shows "n \<le> n' \<and> fvs out \<subseteq> {r} \<union> fvs cont \<union> W \<union> internals \<and> fvs cont - {r} \<subseteq> fvs out"
  using assms
proof (induction fps arbitrary: cont n)
  case (Cons fp fps)
  have W: "\<And>d. fp_default fp = Some d \<Longrightarrow> fvs d \<subseteq> W" "defaults_in fps W" using Cons.prems(2) by (auto simp: defaults_in_def)
  show ?case
  proof (cases "fp_default fp")
    case None
    then show ?thesis using Cons.IH [of cont n] Cons.prems(1) W(2) by simp
  next
    case (Some d)
    then obtain t n1 where t: "with_default_value gpc r (fp_matched_id fp) d n = Some (t, n1)"
      and rest: "with_defaults gpc fps r (let_one_in r t cont) n1 = Some (out, n')"
      using Cons.prems(1) by (auto split: bind_splits)
    have "fvs d \<subseteq> W" using W(1) Some by simp
    moreover have "fvs (let_one_in r t cont) = fvs t \<union> (fvs cont - {r})" by (simp add: fvs_simps)
    ultimately show ?thesis using with_default_value_scope [OF t] Cons.IH [OF rest W(2)] by auto
  qed
qed auto

lemma field_part_step:
  assumes "compile_field_part gpc fld annot c v m f bs n = Some (out, n')"
  shows "\<exists>o1 n1. c (gen_ident n) m f bs (Suc n) = Some (o1, n1) \<and> n1 \<le> n' \<and>
    (let o2 = let_one_in (gen_ident n) (mk_op1 (RecordAccess fld) (mk_var v)) o1 in
     fvs out \<subseteq> {v} \<union> fvs o2 \<union> annot_fvs annot \<union> internals \<and> fvs o2 \<subseteq> fvs out)"
proof -
  let ?o2 = "\<lambda>o1. let_one_in (gen_ident n) (mk_op1 (RecordAccess fld) (mk_var v)) o1"
  obtain o1 n1 where r: "c (gen_ident n) m f bs (Suc n) = Some (o1, n1)"
    and out: "annotation_is_empty annot \<and> out = ?o2 o1 \<and> n' = n1 \<or>
      (\<exists>upd. update_with_merge gpc v fld (field_of_metadata (FieldMetadata None annot False False Neutral)) n1 = Some (upd, n')
        \<and> out = let_one_in v upd (?o2 o1))"
    using assms by (auto simp: compile_field_part_def Let_def split: bind_splits if_splits)
  have "field_fvs (field_of_metadata (FieldMetadata None annot False False Neutral)) \<subseteq> annot_fvs annot"
    by (auto simp: field_fvs_def annot_fvs_def field_of_metadata_def field_of_shared_def shared_of_metadata_def)
  with out update_with_merge_scope [of v fld "field_of_metadata (FieldMetadata None annot False False Neutral)" n1 _ n']
  have "n1 \<le> n' \<and> fvs out \<subseteq> {v} \<union> fvs (?o2 o1) \<union> annot_fvs annot \<union> internals \<and> fvs (?o2 o1) \<subseteq> fvs out"
    unfolding fvs_make(4) by (elim disjE exE conjE) (auto simp: fvs_make(4))
  with r show ?thesis by (auto simp: Let_def)
qed

lemma field_part_scope:
  assumes u: "scope_upper c X W" and W: "annot_fvs annot \<union> internals \<subseteq> W"
  shows "scope_upper (compile_field_part gpc fld annot c) X W"
    and "scope_lower c X W \<Longrightarrow> scope_lower (compile_field_part gpc fld annot c) X W"
proof -
  have access: "fvs (mk_op1 (RecordAccess fld) (mk_var v)) \<subseteq> {v}" for v by (simp add: fvs_simps)
  show "scope_upper (compile_field_part gpc fld annot c) X W" unfolding scope_upper_def
  proof (intro allI impI)
    fix v m f bs n out n'
    assume "compile_field_part gpc fld annot c v m f bs n = Some (out, n')"
    from field_part_step [OF this] obtain o1 n1 where r: "c (gen_ident n) m f bs (Suc n) = Some (o1, n1)" "n1 \<le> n'"
      and out: "fvs out \<subseteq> {v} \<union> fvs (let_one_in (gen_ident n) (mk_op1 (RecordAccess fld) (mk_var v)) o1) \<union> annot_fvs annot \<union> internals"
      by (auto simp: Let_def)
    from local_scope(1,2) [OF u r(1) access [of v]] out W r(2)
    show "n \<le> n' \<and> fvs out \<subseteq> {v} \<union> (fvs m - bound_ids bs X) \<union> fvs f \<union> W" by auto
  qed
  show "scope_lower (compile_field_part gpc fld annot c) X W" if lo: "scope_lower c X W"
    unfolding scope_lower_def
  proof (intro allI impI)
    fix v m f bs n out n'
    assume "compile_field_part gpc fld annot c v m f bs n = Some (out, n')" and b: "below n ({v} \<union> fvs m \<union> fvs f \<union> W)"
    from field_part_step [OF this(1)] obtain o1 n1 where r: "c (gen_ident n) m f bs (Suc n) = Some (o1, n1)"
      and out: "fvs (let_one_in (gen_ident n) (mk_op1 (RecordAccess fld) (mk_var v)) o1) \<subseteq> fvs out" by (auto simp: Let_def)
    have "below n (fvs m \<union> fvs f \<union> W)" by (rule below_mono [OF b]) auto
    from local_scope(3) [OF u r access [of v] lo this] out show "fvs m - bound_ids bs X \<subseteq> fvs out" by (rule order_trans)
  qed
qed

lemma record_step:
  assumes "compile_record gpc fps cs tail v m f bs n = Some (out, n')"
    and "defaults_in fps W" and "internals \<subseteq> W"
  shows "\<exists>m1 blk n1. with_binding (tail_capture tail) bs (record_tail_value fps (gen_ident n)) m = Some m1
    \<and> fold_fields cs (gen_ident n) m1 f bs (Suc n) = Some (blk, n1) \<and> n1 \<le> n'
    \<and> fvs out \<subseteq> {v} \<union> (fvs blk - {gen_ident n}) \<union> fvs f \<union> W \<and> fvs blk - {gen_ident n} \<subseteq> fvs out"
proof -
  let ?l = "gen_ident n"
  obtain m1 blk n1 chk d where 1: "with_binding (tail_capture tail) bs (record_tail_value fps ?l) m = Some m1"
    and 2: "fold_fields cs ?l m1 f bs (Suc n) = Some (blk, n1)"
    and 3: "with_defaults gpc fps ?l (if_then_else chk blk f) n1 = Some (d, n')"
    and chk: "chk = and_term (has_fields fps ?l) (has_right_length fps tail ?l)"
    and out: "out = if_then_else (typeof_is v ''Record'') (let_one_in ?l (mk_var v) d) f"
    using assms(1) by (auto simp: compile_record_def tail_binding Let_def split: bind_splits)
  have "fvs chk \<subseteq> {?l}" using fvs_and_term fvs_has_fields fvs_has_right_length unfolding chk by fast
  moreover have "fvs (if_then_else chk blk f) = fvs chk \<union> fvs blk \<union> fvs f" by (simp add: fvs_simps)
  moreover have "fvs out = {v} \<union> (fvs d - {?l}) \<union> fvs f" by (auto simp: out fvs_simps)
  ultimately have "n1 \<le> n' \<and> fvs out \<subseteq> {v} \<union> (fvs blk - {?l}) \<union> fvs f \<union> W \<and> fvs blk - {?l} \<subseteq> fvs out"
    using with_defaults_scope [OF 3 assms(2)] assms(3) by auto
  with 1 2 show ?thesis by blast
qed

lemma record_scope:
  assumes u: "list_all2 (\<lambda>c X. scope_upper c X W) cs Xs" and "internals \<subseteq> W"
    and "defaults_in fps W"
  shows "scope_upper (compile_record gpc fps cs tail) (\<Union> (set Xs) \<union> set_option (tail_capture tail)) W"
    and "list_all2 (\<lambda>c X. scope_lower c X W) cs Xs \<Longrightarrow>
      scope_lower (compile_record gpc fps cs tail) (\<Union> (set Xs) \<union> set_option (tail_capture tail)) W"
proof -
  let ?T = "set_option (tail_capture tail)"
  note fold = fold_fields_scope [OF u] and step = record_step [OF _ assms(3,2)]
  show "scope_upper (compile_record gpc fps cs tail) (\<Union> (set Xs) \<union> ?T) W" unfolding scope_upper_def
  proof (intro allI impI)
    fix v m f bs n out n'
    assume "compile_record gpc fps cs tail v m f bs n = Some (out, n')"
    from step [OF this] obtain m1 blk n1 where r: "with_binding (tail_capture tail) bs (record_tail_value fps (gen_ident n)) m = Some m1"
      "fold_fields cs (gen_ident n) m1 f bs (Suc n) = Some (blk, n1)" "n1 \<le> n'"
      and out: "fvs out \<subseteq> {v} \<union> (fvs blk - {gen_ident n}) \<union> fvs f \<union> W" by blast
    have "fvs (record_tail_value fps (gen_ident n)) = {gen_ident n}" by (simp add: fvs_simps)
    with scope_upperD [OF fold(1) r(2)] with_binding_scope(1) [OF r(1)] r(3) out
    show "n \<le> n' \<and> fvs out \<subseteq> {v} \<union> (fvs m - bound_ids bs (\<Union> (set Xs) \<union> ?T)) \<union> fvs f \<union> W"
      unfolding bound_ids_Un by auto
  qed
  show "scope_lower (compile_record gpc fps cs tail) (\<Union> (set Xs) \<union> ?T) W" if "list_all2 (\<lambda>c X. scope_lower c X W) cs Xs"
    unfolding scope_lower_def
  proof (intro allI impI)
    fix v m f bs n out n'
    assume "compile_record gpc fps cs tail v m f bs n = Some (out, n')" and b: "below n ({v} \<union> fvs m \<union> fvs f \<union> W)"
    from step [OF this(1)] obtain m1 blk n1 where r: "with_binding (tail_capture tail) bs (record_tail_value fps (gen_ident n)) m = Some m1"
      "fold_fields cs (gen_ident n) m1 f bs (Suc n) = Some (blk, n1)"
      and out: "fvs blk - {gen_ident n} \<subseteq> fvs out" by blast
    note wb = with_binding_scope [OF r(1)]
    have "below (Suc n) (fvs m \<union> fvs f \<union> W)" by (rule below_mono [OF b]) auto
    then have "below (Suc n) (fvs m \<union> fvs f \<union> W \<union> {gen_ident n})" by (simp only: below_simps)
    moreover have "{gen_ident n} \<union> fvs m1 \<union> fvs f \<union> W \<subseteq> fvs m \<union> fvs f \<union> W \<union> {gen_ident n}" using wb(1) by (auto simp: fvs_simps)
    ultimately have "below (Suc n) ({gen_ident n} \<union> fvs m1 \<union> fvs f \<union> W)" by (rule below_mono [OF _ le_refl])
    from scope_lowerD [OF fold(2) [OF that] r(2) this] wb(2) below_notin [OF b] out
    show "fvs m - bound_ids bs (\<Union> (set Xs) \<union> ?T) \<subseteq> fvs out" unfolding bound_ids_Un by auto
  qed
qed

lemma part_scope:
  "or_ok p \<Longrightarrow> pattern_fvs p \<union> internals \<subseteq> W \<Longrightarrow> both (compile_part gpc p) (set (pattern_bindings p)) W"
  "data_or_ok d \<Longrightarrow> data_fvs d \<union> internals \<subseteq> W \<Longrightarrow> both (compile_data gpc d) (set (data_bindings d)) W"
  "field_or_ok fp \<Longrightarrow> field_pattern_fvs fp \<union> internals \<subseteq> W \<Longrightarrow> both (compile_field gpc fp) (set (field_bindings fp)) W"
proof (induction p and d and fp rule: pattern.induct pattern_data.induct field_pattern.induct)
  case (Pattern d ali)
  then have "both (compile_data gpc d) (set (data_bindings d)) W" by simp
  then show ?case unfolding both_def by (simp add: alias_upper alias_lower)
next
  case PWildcard
  show ?case by (auto simp: both_def scope_upper_def scope_lower_def)
next
  case (PAny x)
  show ?case using any_scope by (simp add: both_def)
next
  case (PRecord fps tail)
  have IH: "both (compile_field gpc fp) (set (field_bindings fp)) W" if "fp \<in> set fps" for fp
  proof (rule PRecord.IH [OF that])
    show "field_or_ok fp" "field_pattern_fvs fp \<union> internals \<subseteq> W" using PRecord.prems that by (auto simp: list_all_iff)
  qed
  note l = both_list [of fps "compile_field gpc" "\<lambda>fp. set (field_bindings fp)" W, OF IH]
  have "defaults_in fps W" unfolding defaults_in_def list_all_iff
  proof (intro ballI allI impI)
    fix fp d assume fp: "fp \<in> set fps" and d: "fp_default fp = Some d"
    have "fvs d \<subseteq> field_pattern_fvs fp" using d by (cases fp) auto
    moreover have "field_pattern_fvs fp \<subseteq> W" using fp PRecord.prems(2) by auto
    ultimately show "fvs d \<subseteq> W" by blast
  qed
  from record_scope [OF l(1) _ this, of tail] l(2) PRecord.prems(2)
  show ?case by (simp add: both_def)
next
  case (PArray ps tail)
  have IH: "both (compile_part gpc p) (set (pattern_bindings p)) W" if "p \<in> set ps" for p
  proof (rule PArray.IH [OF that])
    show "or_ok p" "pattern_fvs p \<union> internals \<subseteq> W" using PArray.prems that by (auto simp: list_all_iff)
  qed
  note l = both_list [of ps "compile_part gpc" "\<lambda>p. set (pattern_bindings p)" W, OF IH]
  from array_scope [OF l(1), of tail] l(2) show ?case by (simp add: both_def)
next
  case (PEnum tag p)
  show ?case
  proof (cases p)
    case None
    then show ?thesis using enum_scope [of None "{}" W tag] by (simp add: both_def)
  next
    case (Some q)
    then have "both (compile_part gpc q) (set (pattern_bindings q)) W" using PEnum by simp
    then show ?thesis using Some enum_scope [of "Some (compile_part gpc q)" "set (pattern_bindings q)" W tag] by (simp add: both_def)
  qed
next
  case (PConstant c)
  show ?case by (auto simp: both_def scope_upper_def scope_lower_def fvs_simps)
next
  case (POr ps)
  let ?X = "set (pattern_bindings (hd ps))"
  have ok: "ps \<noteq> []" "list_all id (map or_ok ps)" "\<forall>p \<in> set ps. set (pattern_bindings p) = ?X"
    using POr.prems(1) unfolding data_or_ok.simps by blast+
  then have same: "set (pattern_bindings p) = ?X" if "p \<in> set ps" for p using that by blast
  have "both (compile_part gpc p) ?X W" if "p \<in> set ps" for p
  proof -
    have "or_ok p" "pattern_fvs p \<union> internals \<subseteq> W" using ok(2) POr.prems(2) that by (auto simp: list_all_iff)
    from POr.IH [OF that this] show ?thesis unfolding same [OF that] .
  qed
  then have l: "list_all (\<lambda>c. scope_upper c ?X W) (map (compile_part gpc) ps)" "list_all (\<lambda>c. scope_lower c ?X W) (map (compile_part gpc) ps)"
    by (auto simp: both_def list_all_iff)
  have "set (data_bindings (POr ps)) = (\<Union>p \<in> set ps. ?X)" by (simp add: same cong: SUP_cong_simp)
  then have X: "set (data_bindings (POr ps)) = ?X" using ok(1) by simp
  from ok(1) have "map (compile_part gpc) ps \<noteq> []" by simp
  from fold_or_upper [OF l(1)] fold_or_lower [OF this l] show ?case unfolding X compile_data.simps both_def ..
next
  case (FieldPattern x annot dflt p)
  then have "both (compile_part gpc p) (set (pattern_bindings p)) W" "annot_fvs annot \<union> internals \<subseteq> W" by simp_all
  then show ?case using field_part_scope [of "compile_part gpc p" "set (pattern_bindings p)" W annot x] by (simp add: both_def)
qed

text \<open>A match keeps the variables of its branches that their patterns do not bind.\<close>

lemma branches_scope:
  assumes "compile_branches gpc brs v err n = Some (out, n')" and "\<forall>br \<in> set brs. or_ok (branch_pattern br)"
  shows "n \<le> n' \<and> fvs out \<subseteq> {v} \<union> fvs err \<union> (\<Union>br \<in> set brs. branch_fvs br) \<union> internals"
  using assms
proof (induction brs arbitrary: out n')
  case (Cons br brs)
  let ?X = "set (pattern_bindings (branch_pattern br))" and ?W = "pattern_fvs (branch_pattern br) \<union> internals"
  obtain f n1 bs n2 m m1 where f: "compile_branches gpc brs v err n = Some (f, n1)"
    and bs: "fresh_bindings (pattern_bindings (branch_pattern br)) n1 = (bs, n2)"
    and m: "m = (case branch_guard br of Some guard \<Rightarrow> if_then_else guard (branch_body br) f | None \<Rightarrow> branch_body br)"
    and m1: "m1 = let_in False (map (\<lambda>(x, x'). (x, mk_var x')) bs) m"
    and out: "compile_part gpc (branch_pattern br) v m1 f bs n2 = Some (out, n')"
    using Cons.prems(1) by (auto simp: Let_def split: bind_splits prod.splits)
  have IH: "n \<le> n1 \<and> fvs f \<subseteq> {v} \<union> fvs err \<union> (\<Union>br \<in> set brs. branch_fvs br) \<union> internals"
    using Cons.IH [OF f] Cons.prems(2) by simp
  note fresh = fresh_bindings_scope [OF bs]
  have "fvs m1 = snd ` set bs \<union> (fvs m - ?X)" unfolding m1 fvs_binding_let fresh(2) ..
  moreover have "fvs m \<subseteq> \<Union> (fvs ` set_option (branch_guard br)) \<union> fvs (branch_body br) \<union> fvs f"
    by (auto simp: m fvs_simps split: option.splits)
  ultimately have "fvs m1 - bound_ids bs ?X \<subseteq> branch_fvs br \<union> fvs f" using fresh(3) unfolding branch_fvs_def by blast
  moreover have "or_ok (branch_pattern br)" using Cons.prems(2) by simp
  with part_scope(1) [of "branch_pattern br" ?W] have "scope_upper (compile_part gpc (branch_pattern br)) ?X ?W" by (simp add: both_def)
  note scope_upperD [OF this out]
  moreover have "?W \<subseteq> branch_fvs br \<union> internals" unfolding branch_fvs_def by blast
  ultimately have "n2 \<le> n'" "fvs out \<subseteq> {v} \<union> branch_fvs br \<union> fvs f \<union> internals" by blast+
  then show ?case using IH fresh(1) by auto
qed auto

lemma match_scope:
  assumes "compile_match gpc brs value n = Some (out, n')" and "\<forall>br \<in> set brs. or_ok (branch_pattern br)"
    and no_alias: "list_all is_tag_or_wildcard brs \<Longrightarrow> \<forall>br \<in> set brs. pat_alias (branch_pattern br) = None"
  shows "n \<le> n'" "fvs out \<subseteq> fvs value \<union> (\<Union>br \<in> set brs. branch_fvs br) \<union> internals"
proof -
  have "n \<le> n' \<and> fvs out \<subseteq> fvs value \<union> (\<Union>br \<in> set brs. branch_fvs br) \<union> internals"
  proof (cases "list_all is_tag_or_wildcard brs")
    case True
    have "fvs (branch_body br) \<subseteq> branch_fvs br" if br: "br \<in> set brs" for br
    proof -
      obtain d ali where p: "branch_pattern br = Pattern d ali" by (cases "branch_pattern br")
      have "ali = None" "is_tag_or_wildcard br" using no_alias [OF True] True br p by (force simp: list_all_iff)+
      then have "pattern_bindings (branch_pattern br) = []"
        by (auto simp: p is_tag_or_wildcard_def alias_ids_def split: pattern_data.splits)
      then show ?thesis by (auto simp: branch_fvs_def)
    qed
    then have "(\<Union>br \<in> set brs. fvs (branch_body br)) \<subseteq> (\<Union>br \<in> set brs. branch_fvs br)" by blast
    with tags_only_scope [OF assms(1) True] show ?thesis by blast
  next
    case False
    then obtain blk where "compile_branches gpc brs (gen_ident n) (TermV (RuntimeError (NonExhaustiveMatchError value))) (Suc n) = Some (blk, n')"
      and "out = let_one_in (gen_ident n) value blk"
      using assms(1) by (auto simp: compile_match_def Let_def split: bind_splits)
    with branches_scope [OF _ assms(2)] show ?thesis by (fastforce simp: fvs_simps)
  qed
  then show "n \<le> n'" "fvs out \<subseteq> fvs value \<union> (\<Union>br \<in> set brs. branch_fvs br) \<union> internals" by auto
qed

text \<open>Destructuring: the three groups of bindings, and the names that are generated for the first two.\<close>

lemma let_loop_scope:
  assumes "let_pattern_loop gpc prs n = Some ((outers, mids, inners), n')" and "\<forall>(p, rhs) \<in> set prs. or_ok p"
  shows "n \<le> n'" "fst ` set outers \<union> fst ` set mids \<subseteq> gen_ident ` {n..<n'}"
    "(\<Union>b \<in> set outers. fvs (snd b)) = (\<Union>pr \<in> set prs. fvs (snd pr))"
    "(\<Union>b \<in> set mids. fvs (snd b)) \<subseteq> fst ` set outers \<union> (\<Union>pr \<in> set prs. pattern_fvs (fst pr)) \<union> internals"
    "(\<Union>b \<in> set inners. fvs (snd b)) \<subseteq> fst ` set mids"
    "fst ` set inners = (\<Union>pr \<in> set prs. set (pattern_bindings (fst pr)))"
proof -
  have "n \<le> n' \<and> fst ` set outers \<union> fst ` set mids \<subseteq> gen_ident ` {n..<n'} \<and>
    (\<Union>b \<in> set outers. fvs (snd b)) = (\<Union>pr \<in> set prs. fvs (snd pr)) \<and>
    (\<Union>b \<in> set mids. fvs (snd b)) \<subseteq> fst ` set outers \<union> (\<Union>pr \<in> set prs. pattern_fvs (fst pr)) \<union> internals \<and>
    (\<Union>b \<in> set inners. fvs (snd b)) \<subseteq> fst ` set mids \<and>
    fst ` set inners = (\<Union>pr \<in> set prs. set (pattern_bindings (fst pr)))"
    using assms
  proof (induction prs arbitrary: n outers mids inners n')
    case (Cons pr prs)
    obtain p rhs where pr: "pr = (p, rhs)" by (cases pr)
    let ?X = "set (pattern_bindings p)" and ?W = "pattern_fvs p \<union> internals"
    obtain bs n1 n2 mid os ms ins r where bs: "fresh_bindings (pattern_bindings p) (Suc (Suc n)) = (bs, n1)"
      and r: "r = RecordData (im_from_iter (map (\<lambda>(x, x'). (x, field_of_value (mk_var x'))) bs)) attrs_new None"
      and mid: "compile_part gpc p (gen_ident n) (record_posless r) (TermV (RuntimeError (FailedDestructuringError rhs))) bs n1 = Some (mid, n2)"
      and rest: "let_pattern_loop gpc prs n2 = Some ((os, ms, ins), n')"
      and res: "outers = (gen_ident n, rhs) # os" "mids = (gen_ident (Suc n), mid) # ms"
        "inners = map (\<lambda>x. (x, static_access (mk_var (gen_ident (Suc n))) [x])) (pattern_bindings p) @ ins"
      using Cons.prems(1) by (auto simp: pr Let_def split: bind_splits prod.splits)
    note fresh = fresh_bindings_scope [OF bs]
    have "scope_upper (compile_part gpc p) ?X ?W" using part_scope(1) [of p ?W] Cons.prems(2) by (simp add: both_def pr)
    note up = scope_upperD [OF this mid]
    have "fvs (record_posless r) \<subseteq> snd ` set bs" unfolding r by (rule fvs_binding_record)
    then have mid_fvs: "fvs mid \<subseteq> {gen_ident n} \<union> pattern_fvs p \<union> internals" using up(2) fresh(3) by auto
    have IH: "n2 \<le> n' \<and> fst ` set os \<union> fst ` set ms \<subseteq> gen_ident ` {n2..<n'} \<and>
      (\<Union>b \<in> set os. fvs (snd b)) = (\<Union>pr \<in> set prs. fvs (snd pr)) \<and>
      (\<Union>b \<in> set ms. fvs (snd b)) \<subseteq> fst ` set os \<union> (\<Union>pr \<in> set prs. pattern_fvs (fst pr)) \<union> internals \<and>
      (\<Union>b \<in> set ins. fvs (snd b)) \<subseteq> fst ` set ms \<and> fst ` set ins = (\<Union>pr \<in> set prs. set (pattern_bindings (fst pr)))"
      using Cons.IH [OF rest] Cons.prems(2) by simp
    have ids: "{gen_ident n, gen_ident (Suc n)} \<union> gen_ident ` {n2..<n'} \<subseteq> gen_ident ` {n..<n'}"
      using IH fresh(1) up(1) by auto
    show ?case
    proof (intro conjI)
      show "n \<le> n'" using IH fresh(1) up(1) by linarith
      show "fst ` set outers \<union> fst ` set mids \<subseteq> gen_ident ` {n..<n'}"
      proof -
        have "fst ` set outers \<union> fst ` set mids = {gen_ident n, gen_ident (Suc n)} \<union> (fst ` set os \<union> fst ` set ms)" by (auto simp: res)
        moreover have "fst ` set os \<union> fst ` set ms \<subseteq> gen_ident ` {n2..<n'}" using IH by simp
        ultimately show ?thesis using ids by blast
      qed
      show "(\<Union>b \<in> set outers. fvs (snd b)) = (\<Union>pr \<in> set (pr # prs). fvs (snd pr))" using IH by (simp add: res pr)
      show "(\<Union>b \<in> set mids. fvs (snd b)) \<subseteq> fst ` set outers \<union> (\<Union>pr \<in> set (pr # prs). pattern_fvs (fst pr)) \<union> internals"
      proof -
        have "(\<Union>b \<in> set mids. fvs (snd b)) = fvs mid \<union> (\<Union>b \<in> set ms. fvs (snd b))" by (simp add: res)
        moreover have "(\<Union>b \<in> set ms. fvs (snd b)) \<subseteq> fst ` set os \<union> (\<Union>pr \<in> set prs. pattern_fvs (fst pr)) \<union> internals" using IH by simp
        moreover have "fst ` set outers = insert (gen_ident n) (fst ` set os)" by (simp add: res)
        moreover have "(\<Union>pr \<in> set (pr # prs). pattern_fvs (fst pr)) = pattern_fvs p \<union> (\<Union>pr \<in> set prs. pattern_fvs (fst pr))" by (simp add: pr)
        ultimately show ?thesis using mid_fvs by auto
      qed
      show "(\<Union>b \<in> set inners. fvs (snd b)) \<subseteq> fst ` set mids" using IH by (auto simp: res fvs_simps)
      show "fst ` set inners = (\<Union>pr \<in> set (pr # prs). set (pattern_bindings (fst pr)))" using IH by (simp add: res pr image_Un image_image)
    qed
  qed auto
  then show "n \<le> n'" "fst ` set outers \<union> fst ` set mids \<subseteq> gen_ident ` {n..<n'}"
    "(\<Union>b \<in> set outers. fvs (snd b)) = (\<Union>pr \<in> set prs. fvs (snd pr))"
    "(\<Union>b \<in> set mids. fvs (snd b)) \<subseteq> fst ` set outers \<union> (\<Union>pr \<in> set prs. pattern_fvs (fst pr)) \<union> internals"
    "(\<Union>b \<in> set inners. fvs (snd b)) \<subseteq> fst ` set mids"
    "fst ` set inners = (\<Union>pr \<in> set prs. set (pattern_bindings (fst pr)))" by - (elim conjE, assumption)+
qed

lemma let_pattern_scope:
  assumes "compile_let_pattern gpc prs body is_rec n = Some (t, n')" and "\<forall>(p, rhs) \<in> set prs. or_ok p"
  defines "X \<equiv> \<Union>pr \<in> set prs. set (pattern_bindings (fst pr))"
  shows "fvs_term t \<subseteq> (if is_rec then (\<Union>pr \<in> set prs. fvs (snd pr)) - X else (\<Union>pr \<in> set prs. fvs (snd pr))) \<union>
      (\<Union>pr \<in> set prs. pattern_fvs (fst pr)) \<union> (fvs body - X) \<union> internals"
    and "below n (fvs body) \<Longrightarrow> fvs body - X \<subseteq> fvs_term t"
proof -
  obtain outers mids inners where loop: "let_pattern_loop gpc prs n = Some ((outers, mids, inners), n')"
    and t: "t = (let checked = foldr (\<lambda>(x, _) acc. mk_app (mk_op1 Seq (mk_var x)) acc) mids body in
      if is_rec then Let (outers @ mids @ inners) checked Normal True
      else Let outers (let_in False mids (let_in False inners checked)) Normal False)"
    using assms(1) by (auto simp: compile_let_pattern_def Let_def split: bind_splits)
  note l = let_loop_scope [OF loop assms(2), folded X_def]
  define checked where "checked = foldr (\<lambda>(x, _) acc. mk_app (mk_op1 Seq (mk_var x)) acc) mids body"
  have ch: "fvs checked = fst ` set mids \<union> fvs body" unfolding checked_def by (induction mids) (force simp: fvs_simps)+
  have ids: "fst ` set (outers @ mids @ inners) = fst ` set outers \<union> fst ` set mids \<union> X"
    by (simp only: set_append image_Un l(6) Un_assoc)
  have rec: "fvs_term t = ((\<Union>b \<in> set outers. fvs (snd b)) \<union> (\<Union>b \<in> set mids. fvs (snd b)) \<union> (\<Union>b \<in> set inners. fvs (snd b))
      \<union> fst ` set mids \<union> fvs body) - (fst ` set outers \<union> fst ` set mids \<union> X)" if is_rec
  proof -
    have "t = Let (outers @ mids @ inners) checked Normal True" using that by (simp add: t checked_def)
    then have "fvs_term t = (\<Union>b \<in> set (outers @ mids @ inners). fvs (snd b)) \<union> fvs checked - (fst ` set outers \<union> fst ` set mids \<union> X)"
      by (simp only: fvs_let_rec ids)
    then show ?thesis unfolding ch set_append UN_Un by (simp only: Un_assoc)
  qed
  have plain: "fvs_term t = (\<Union>b \<in> set outers. fvs (snd b)) \<union> ((\<Union>b \<in> set mids. fvs (snd b)) \<union>
      ((\<Union>b \<in> set inners. fvs (snd b)) \<union> ((fst ` set mids \<union> fvs body) - X) - fst ` set mids) - fst ` set outers)" if "\<not> is_rec"
  proof -
    have "t = Let outers (let_in False mids (let_in False inners checked)) Normal False" using that by (simp add: t checked_def)
    then show ?thesis by (simp only: fvs_let_plain fvs_make l(6) ch)
  qed
  show "fvs_term t \<subseteq> (if is_rec then (\<Union>pr \<in> set prs. fvs (snd pr)) - X else (\<Union>pr \<in> set prs. fvs (snd pr))) \<union>
      (\<Union>pr \<in> set prs. pattern_fvs (fst pr)) \<union> (fvs body - X) \<union> internals"
  proof (cases is_rec)
    case True
    with rec [OF True] l(3-5) show ?thesis by auto
  next
    case False
    with plain [OF False] l(3-5) show ?thesis by auto
  qed
  assume b: "below n (fvs body)"
  have "x \<notin> fst ` set outers \<union> fst ` set mids" if "x \<in> fvs body" for x
  proof
    assume "x \<in> fst ` set outers \<union> fst ` set mids"
    then have "x \<in> gen_ident ` {n..<n'}" by (rule subsetD [OF l(2)])
    then obtain k where "n \<le> k" "x = gen_ident k" by auto
    then show False using b that by (simp add: below_def)
  qed
  moreover have "fvs body - (fst ` set outers \<union> fst ` set mids \<union> X) \<subseteq> fvs_term t"
  proof (cases is_rec)
    case True
    show ?thesis unfolding rec [OF True] by (rule Diff_mono) (rule Un_upper2, rule subset_refl)
  next
    case False
    show ?thesis unfolding plain [OF False] by fast
  qed
  ultimately show "fvs body - X \<subseteq> fvs_term t" by (intro subsetI, elim DiffE) (meson DiffI UnE UnI1 UnI2 in_mono)
qed

lemma fun_pattern_scope:
  assumes "compile_fun_pattern gpc p body n = Some (t, n')" and "or_ok p"
  shows "fvs_term t \<subseteq> pattern_fvs p \<union> (fvs body - set (pattern_bindings p)) \<union> internals"
    and "below n (fvs body) \<Longrightarrow> fvs body - set (pattern_bindings p) \<subseteq> fvs_term t"
proof -
  obtain x n1 w where x: "(x, n1) = (case pat_alias p of Some x \<Rightarrow> (x, n) | None \<Rightarrow> (gen_ident n, Suc n))"
    and w: "compile_let_pattern gpc [(p, mk_var x)] body False n1 = Some (w, n')" and t: "t = Fun x (TermV w)"
    using assms(1) by (auto simp: compile_fun_pattern_def Let_def split: bind_splits prod.splits)
  note l = let_pattern_scope [OF w]
  have "fvs_term t = fvs_term w - {x}" by (simp add: t)
  then show "fvs_term t \<subseteq> pattern_fvs p \<union> (fvs body - set (pattern_bindings p)) \<union> internals"
    using l(1) assms(2) by (auto simp: fvs_simps)
  assume b: "below n (fvs body)"
  have "x \<notin> fvs body - set (pattern_bindings p)"
    using x below_notin [OF b] by (cases p) (auto split: option.splits simp: alias_ids_def)
  moreover have "below n1 (fvs body)" using x by (intro below_mono [OF b]) (auto split: option.splits)
  ultimately show "fvs body - set (pattern_bindings p) \<subseteq> fvs_term t" using l(2) assms(2) \<open>fvs_term t = fvs_term w - {x}\<close> by auto
qed

end

end
