(* ===== verification/Contract_Scope.thy ===== *)
theory Contract_Scope
  imports Pattern_Scope
begin

text \<open>
  Scoping of the contracts generated from types and annotations: besides the internals of the
  standard library they only use variables of the contracts inside the type. The generators of
  pending contracts therefore satisfy the laws of \<open>pending_scoped\<close>.
\<close>

section \<open>Describing results\<close>

definition ctr_post :: "'a ctr_result \<Rightarrow> nat \<Rightarrow> ('a \<Rightarrow> bool) \<Rightarrow> bool" where
  "ctr_post r n P \<longleftrightarrow> (\<forall>v sy n'. r = Some (v, sy, n') \<longrightarrow> n \<le> n' \<and> (\<forall>w. v = Inr w \<longrightarrow> P w))"

lemma ctr_post_ok [simp]: "ctr_post (ctr_ok v sy n') n P \<longleftrightarrow> n \<le> n' \<and> P v"
  by (simp add: ctr_post_def ctr_ok_def)

lemma ctr_post_bind:
  assumes "ctr_post r n P" and "\<And>v sy' n'. P v \<Longrightarrow> n \<le> n' \<Longrightarrow> ctr_post (k v sy' n') n' Q"
  shows "ctr_post (ctr_bind r k) n Q"
  using assms unfolding ctr_post_def ctr_bind_def by (fastforce split: option.splits sum.splits intro: order_trans)

lemma ctr_post_map:
  assumes "ctr_post r n P" and "\<And>v. P v \<Longrightarrow> Q (f v)"
  shows "ctr_post (ctr_bind r (\<lambda>v. ctr_ok (f v))) n Q"
  using assms by (intro ctr_post_bind [OF assms(1)]) auto

lemma ctr_post_mono: "ctr_post r n P \<Longrightarrow> m \<le> n \<Longrightarrow> (\<And>v. P v \<Longrightarrow> Q v) \<Longrightarrow> ctr_post r m Q"
  by (fastforce simp: ctr_post_def)

lemma get_var_post: "\<forall>c \<in> ran vars. P c \<Longrightarrow> ctr_post (get_var_contract vars x sy n) n P"
  by (auto simp: get_var_contract_def ctr_post_def ctr_ok_def ran_def split: option.split)

section \<open>Enum types\<close>

text \<open>The contracts of an enum never reach the generator of pending contracts.\<close>

interpretation np: pending_scoped no_pending
  by unfold_locales (simp_all add: no_pending_def)

definition row_branch_ok :: "ident set \<Rightarrow> match_branch \<Rightarrow> bool" where
  "row_branch_ok V br \<longleftrightarrow> or_ok (branch_pattern br) \<and> pat_alias (branch_pattern br) = None \<and> branch_fvs br \<subseteq> V"

lemma enum_row_branch_ok:
  assumes "\<And>c. ctr = Some c \<Longrightarrow> fvs c \<subseteq> V"
  shows "row_branch_ok (V \<union> {v, l}) (enum_row_branch tag ctr v l x)"
  using assms by (cases ctr) (auto simp: row_branch_ok_def enum_row_branch_def branch_fvs_def apply_contract_to_def alias_ids_def fvs_simps)

lemma finish_enum_post:
  assumes "list_all (row_branch_ok (V \<union> {v, l})) brs" and "fvs dflt \<subseteq> V \<union> {v, l}" and "internals \<subseteq> V"
  shows "ctr_post (finish_enum brs dflt v l sy n) n (\<lambda>c. fvs c \<subseteq> V)"
  unfolding ctr_post_def
proof (intro allI impI)
  fix c sy' n'
  let ?brs = "brs @ [MatchBranch (Pattern PWildcard None) None dflt]"
  assume "finish_enum brs dflt v l sy n = Some (c, sy', n')"
  then obtain e where e: "compile_match no_pending ?brs (mk_var v) n = Some (e, n')"
    and c: "c = Inr (mk_app (internal ''enum'') (mk_fun l (mk_fun v e)))"
    by (auto simp: finish_enum_def ctr_ok_def split: bind_splits)
  have ok: "row_branch_ok (V \<union> {v, l}) br" if "br \<in> set ?brs" for br
    using that assms(1,2) by (auto simp: list_all_iff row_branch_ok_def branch_fvs_def alias_ids_def)
  then have "\<forall>br \<in> set ?brs. or_ok (branch_pattern br)" "\<forall>br \<in> set ?brs. pat_alias (branch_pattern br) = None"
    and U: "(\<Union>br \<in> set ?brs. branch_fvs br) \<subseteq> V \<union> {v, l}" unfolding row_branch_ok_def by blast+
  from np.match_scope [OF e this(1)] this(2)
  have m: "n \<le> n'" "fvs e \<subseteq> {v} \<union> (\<Union>br \<in> set ?brs. branch_fvs br) \<union> internals" by (auto simp: fvs_simps)
  have "fvs (mk_app (internal ''enum'') (mk_fun l (mk_fun v e))) \<subseteq> internals \<union> (fvs e - {v, l})" by (auto simp: fvs_simps)
  also have "\<dots> \<subseteq> V" using m(2) U assms(3) by blast
  finally show "n \<le> n' \<and> (\<forall>w. c = Inr w \<longrightarrow> fvs w \<subseteq> V)" using m(1) by (simp add: c)
qed

lemma enum_default_post:
  assumes "\<forall>c \<in> ran vars. fvs c \<subseteq> V" and "internals \<subseteq> V"
  shows "ctr_post (enum_default vars tail_var v l sy n) n (\<lambda>c. fvs c \<subseteq> V \<union> {v, l})"
proof (cases tail_var)
  case None
  then show ?thesis using subsetD [OF assms(2) internal_in] by (simp add: enum_default_def fvs_simps)
next
  case (Some x)
  have "ctr_post (get_var_contract vars x sy n) n (\<lambda>c. fvs c \<subseteq> V)" by (rule get_var_post) (rule assms(1))
  then show ?thesis unfolding enum_default_def Some option.case
    by (rule ctr_post_map) (auto simp: apply_contract_to_def fvs_simps)
qed

section \<open>Contracts of types\<close>

lemma type_fvs_simps [simp]:
  "type_fvs (TArrow s t) = type_fvs s \<union> type_fvs t" "type_fvs (TForall x k ty) = type_fvs ty"
  "type_fvs (TArray ty) = type_fvs ty" "type_fvs (TDict ty fl) = type_fvs ty" "type_fvs (TContract v) = fvs v"
  "type_fvs (TRecord rrows) = \<Union> (fvs ` set_record_rows rrows)" "type_fvs (TEnum erows) = \<Union> (fvs ` set_enum_rows erows)"
  "type_fvs TDyn = {}"
  by (auto simp: type_fvs_def)

lemma fvs_record_contract:
  assumes "\<And>b. b \<in> set fcs \<Longrightarrow> fvs (snd b) \<subseteq> V" and "fvs tail \<subseteq> V" and "internals \<subseteq> V"
  shows "fvs (record_contract fcs tail has_tail) \<subseteq> V"
proof -
  have "fvs (record_posless (with_field_values (im_from_iter fcs))) \<subseteq> (\<Union>b \<in> set (im_from_iter fcs). fvs (snd b))"
    by (rule fvs_with_field_values)
  also have "\<dots> \<subseteq> V" using assms(1) im_from_iter_members by fast
  finally show ?thesis using assms(2,3) by (auto simp: record_contract_def fvs_simps)
qed

lemma subcontract_post:
  fixes ty :: nickel_type and erows :: "nickel_value enum_rows" and rrows :: "nickel_value record_rows"
  assumes "internals \<subseteq> V" and [simp]: "\<And>name. CHR ''$'' # name \<in> V"
  shows "type_fvs ty \<subseteq> V \<Longrightarrow> \<forall>c \<in> ran vars. fvs c \<subseteq> V \<Longrightarrow>
      ctr_post (subcontract ty vars pol sy n) n (\<lambda>c. fvs c \<subseteq> V)"
    and "\<Union> (fvs ` set_enum_rows erows) \<subseteq> V \<Longrightarrow> \<forall>c \<in> ran vars. fvs c \<subseteq> V \<Longrightarrow>
      ctr_post (erows_branches erows vars pol v l x sy n) n (\<lambda>r. list_all (row_branch_ok (V \<union> {v, l})) (fst r))"
    and "\<Union> (fvs ` set_record_rows rrows) \<subseteq> V \<Longrightarrow> \<forall>c \<in> ran vars. fvs c \<subseteq> V \<Longrightarrow>
      ctr_post (rrows_contracts rrows vars pol sy n) n (\<lambda>(fcs, t, h). (\<forall>b \<in> set fcs. fvs (snd b) \<subseteq> V) \<and> fvs t \<subseteq> V)"
proof (induction ty and erows and rrows arbitrary: vars pol sy n and vars pol sy n v l x and vars pol sy n
    rule: ntype.induct enum_rows.induct record_rows.induct)
  case (TArrow s t)
  have s: "ctr_post (subcontract s vars (polarity_flip pol) sy n) n (\<lambda>c. fvs c \<subseteq> V)" using TArrow by simp
  have t: "ctr_post (subcontract t vars pol sy n) n (\<lambda>c. fvs c \<subseteq> V)" for sy n using TArrow by simp
  have "ctr_post (ctr_bind (subcontract s vars (polarity_flip pol) sy n) (\<lambda>d sy1 n1. ctr_bind (subcontract t vars pol sy1 n1)
      (\<lambda>c. ctr_ok (custom_contract (mk_apps (internal ''func'') [d, c]))))) n (\<lambda>c. fvs c \<subseteq> V)"
    by (rule ctr_post_bind [OF s ctr_post_map [OF t]]) (simp add: fvs_simps)
  moreover have "ctr_post (ctr_bind (subcontract s vars (polarity_flip pol) sy n) (\<lambda>c. ctr_ok (custom_contract (mk_app (internal ''func_dom'') c)))) n (\<lambda>c. fvs c \<subseteq> V)"
    by (rule ctr_post_map [OF s]) (simp add: fvs_simps)
  moreover have "ctr_post (ctr_bind (subcontract t vars pol sy n) (\<lambda>c. ctr_ok (custom_contract (mk_app (internal ''func_codom'') c)))) n (\<lambda>c. fvs c \<subseteq> V)"
    by (rule ctr_post_map [OF t]) (simp add: fvs_simps)
  ultimately show ?case by (simp add: fvs_simps del: is_dyn_iff)
next
  case (TArray ty)
  then have "ctr_post (subcontract ty vars pol sy n) n (\<lambda>c. fvs c \<subseteq> V)" by simp
  then show ?case unfolding subcontract.simps by (auto intro!: ctr_post_map [where P = "\<lambda>c. fvs c \<subseteq> V"] simp: fvs_simps)
next
  case (TDict ty fl)
  then have "ctr_post (subcontract ty vars pol sy n) n (\<lambda>c. fvs c \<subseteq> V)" by simp
  then show ?case unfolding subcontract.simps by (auto intro!: ctr_post_map [where P = "\<lambda>c. fvs c \<subseteq> V"] simp: fvs_simps split: dict_type_flavour.splits)
next
  case (TForall var kind body)
  have "fvs (var_contract kind sy) \<subseteq> V" by (auto simp: var_contract_def fvs_simps split: var_kind.split)
  then have "\<forall>c \<in> ran (vars(var \<mapsto> var_contract kind sy)). fvs c \<subseteq> V" using TForall.prems(2) by (auto simp: ran_def split: if_splits)
  with TForall have "ctr_post (subcontract body (vars(var \<mapsto> var_contract kind sy)) pol (sy + 1) n) n (\<lambda>c. fvs c \<subseteq> V)" by simp
  then show ?case unfolding subcontract.simps
    by (cases pol) (auto intro!: ctr_post_map [where P = "\<lambda>c. fvs c \<subseteq> V"] simp: fvs_simps ctr_post_def [of None])
next
  case (TEnum erows)
  let ?v = "gen_ident n" and ?l = "gen_ident (n + 1)"
  have "ctr_post (erows_branches erows vars pol ?v ?l (gen_ident (n + 2)) sy (n + 3)) (n + 3) (\<lambda>r. list_all (row_branch_ok (V \<union> {?v, ?l})) (fst r))"
    using TEnum by simp
  from ctr_post_mono [OF this, of n]
  have rows: "ctr_post (erows_branches erows vars pol ?v ?l (gen_ident (n + 2)) sy (n + 3)) n (\<lambda>r. list_all (row_branch_ok (V \<union> {?v, ?l})) (fst r))"
    by simp
  have fin: "ctr_post (ctr_bind (enum_default vars tv ?v ?l sy1 n1) (\<lambda>dflt sy2 n2.
      ctr_bind (finish_enum brs dflt ?v ?l sy2 n2) (\<lambda>c. ctr_ok (custom_contract c)))) n1 (\<lambda>c. fvs c \<subseteq> V)"
    if "list_all (row_branch_ok (V \<union> {?v, ?l})) brs" for brs tv sy1 n1
    by (rule ctr_post_bind [OF enum_default_post [OF TEnum.prems(2) assms(1)] ctr_post_map [OF finish_enum_post [OF that _ assms(1)]]]) (auto simp: fvs_simps)
  show ?case unfolding subcontract.simps Let_def by (rule ctr_post_bind [OF rows]) (auto intro: fin [simplified])
next
  case (TRecord rrows)
  have rows: "ctr_post (rrows_contracts rrows vars pol sy n) n (\<lambda>(fcs, t, h). (\<forall>b \<in> set fcs. fvs (snd b) \<subseteq> V) \<and> fvs t \<subseteq> V)"
    using TRecord by simp
  have "fvs (custom_contract (record_contract fcs t h)) \<subseteq> V" if "\<forall>b \<in> set fcs. fvs (snd b) \<subseteq> V" "fvs t \<subseteq> V" for fcs t h
    using fvs_record_contract [OF _ that(2) assms(1)] that(1) by (simp add: fvs_simps)
  then show ?case unfolding subcontract.simps by (intro ctr_post_bind [OF rows]) auto
next
  case (TVar x)
  show ?case unfolding subcontract.simps
    by (rule ctr_post_map [OF get_var_post [OF TVar.prems(2)]]) (simp add: fvs_simps)
next
  case (ERowsExtend tag ty tail)
  have head: "ctr_post (case map_option subcontract ty of
         Some f \<Rightarrow> ctr_bind (f vars pol sy n) (\<lambda>c. ctr_ok (Some c))
       | None \<Rightarrow> ctr_ok None sy n) n (\<lambda>c. \<forall>d. c = Some d \<longrightarrow> fvs d \<subseteq> V)"
  proof (cases ty)
    case (Some t)
    then have "ctr_post (subcontract t vars pol sy n) n (\<lambda>c. fvs c \<subseteq> V)" using ERowsExtend by (simp add: type_fvs_def)
    then show ?thesis using Some by (auto intro: ctr_post_map)
  qed simp
  have tl: "ctr_post (erows_branches tail vars pol v l x sy n) n (\<lambda>r. list_all (row_branch_ok (V \<union> {v, l})) (fst r))" for sy n
    using ERowsExtend by simp
  have row: "row_branch_ok (insert v (insert l V)) (enum_row_branch tag c v l x)" if "\<forall>d. c = Some d \<longrightarrow> fvs d \<subseteq> V" for c
    using enum_row_branch_ok [of c V v l tag x] that by simp
  show ?case unfolding erows_branches.simps
    by (rule ctr_post_bind [OF head ctr_post_bind [OF tl]]) (auto intro: row)
next
  case (RRowsTailVar x)
  show ?case unfolding rrows_contracts.simps
    by (rule ctr_post_map [OF get_var_post [OF RRowsTailVar.prems(2)]]) simp
next
  case (RRowsExtend x ty tail)
  have ty: "ctr_post (subcontract ty vars pol sy n) n (\<lambda>c. fvs c \<subseteq> V)" using RRowsExtend by (simp add: type_fvs_def)
  have tl: "ctr_post (rrows_contracts tail vars pol sy n) n (\<lambda>(fcs, t, h). (\<forall>b \<in> set fcs. fvs (snd b) \<subseteq> V) \<and> fvs t \<subseteq> V)" for sy n
    using RRowsExtend by simp
  show ?case unfolding rrows_contracts.simps by (rule ctr_post_bind [OF ty ctr_post_bind [OF tl]]) auto
qed (auto simp: fvs_simps ctr_post_def [of None])

section \<open>Simplified types\<close>

text \<open>Simplification invents no contract, and the contracts of its environment are closed.\<close>

lemma simplify_tail_var_closed:
  assumes "simplify_tail_var x cenv sv pol flds n = (rrows', cenv', n')" "\<forall>c \<in> ran cenv. fvs c \<subseteq> internals"
  shows "n \<le> n' \<and> set_record_rows rrows' = {} \<and> (\<forall>c \<in> ran cenv'. fvs c \<subseteq> internals)"
proof -
  have "ran (cenv(y \<mapsto> c)) \<subseteq> insert c (ran cenv)" for y c by (auto simp: ran_def)
  then have "\<forall>d \<in> ran (cenv(y \<mapsto> c)). fvs d \<subseteq> internals" if "fvs c \<subseteq> internals" for y c using that assms(2) by blast
  from this [of "mk_app (internal ''forall_record_tail_excluded_only'') (excluded_array xs)" for xs]
  have key: "fvs d \<subseteq> internals" if "d \<in> ran (cenv(y \<mapsto> mk_app (internal ''forall_record_tail_excluded_only'') (excluded_array xs)))" for d y xs
    using that by (simp add: fvs_simps)
  show ?thesis using assms by (auto simp del: fun_upd_apply intro: subsetD [OF key] simp: simplify_tail_var_def Let_def split: option.splits polarity.splits if_splits)
qed

lemma simplify_closed:
  fixes ty :: nickel_type and erows :: "nickel_value enum_rows" and rrows :: "nickel_value record_rows"
  shows "simplify ty cenv sv pol n = (ty', cenv', n') \<Longrightarrow> \<forall>c \<in> ran cenv. fvs c \<subseteq> internals \<Longrightarrow>
      n \<le> n' \<and> set_ntype ty' \<subseteq> set_ntype ty \<and> (\<forall>c \<in> ran cenv'. fvs c \<subseteq> internals)"
    and "simplify_erows erows cenv sv pol n = ((erows', b), cenv', n') \<Longrightarrow> \<forall>c \<in> ran cenv. fvs c \<subseteq> internals \<Longrightarrow>
      n \<le> n' \<and> set_enum_rows erows' \<subseteq> set_enum_rows erows \<and> (\<forall>c \<in> ran cenv'. fvs c \<subseteq> internals)"
    and "simplify_rrows rrows cenv sv pol flds ce n = (rrows', cenv', n') \<Longrightarrow> \<forall>c \<in> ran cenv. fvs c \<subseteq> internals \<Longrightarrow>
      n \<le> n' \<and> set_record_rows rrows' \<subseteq> set_record_rows rrows \<and> (\<forall>c \<in> ran cenv'. fvs c \<subseteq> internals)"
proof (induction ty and erows and rrows arbitrary: cenv sv pol n ty' cenv' n' and cenv sv pol n erows' b cenv' n'
    and cenv sv pol flds ce n rrows' cenv' n' rule: ntype.induct enum_rows.induct record_rows.induct)
  case (TArrow s t)
  then obtain s' t' c1 n1 where 1: "simplify s cenv sv (polarity_flip pol) n = (s', c1, n1)" "simplify t c1 sv pol n1 = (t', cenv', n')"
    and ty': "ty' = TArrow s' t'" by (auto split: prod.splits)
  note s = TArrow.IH(1) [OF 1(1) TArrow.prems(2)]
  from TArrow.IH(2) [OF 1(2)] s show ?case by (auto simp: ty')
next
  case (TForall var kind body)
  then show ?case by (cases kind; cases pol) (auto split: prod.splits, blast+)
next
  case (TEnum erows)
  then obtain er' b where "simplify_erows erows cenv sv pol n = ((er', b), cenv', n')" "ty' = TDyn \<or> ty' = TEnum er'"
    by (auto split: prod.splits if_splits)
  with TEnum.IH [OF this(1) TEnum.prems(2)] show ?case by auto
next
  case (TRecord rrows)
  then obtain rr' flds ce where "simplify_rrows rrows cenv sv pol flds ce n = (rr', cenv', n')" "ty' = TDyn \<or> ty' = TRecord rr'"
    by (auto split: prod.splits if_splits)
  with TRecord.IH [OF this(1) TRecord.prems(2)] show ?case by auto
next
  case (TDict ty flavour)
  then obtain t' where "simplify ty cenv sv pol n = (t', cenv', n')" "ty' = TDyn \<or> ty' = TDict t' flavour"
    by (auto split: prod.splits if_splits)
  with TDict.IH [OF this(1) TDict.prems(2)] show ?case by auto
next
  case (TArray ty)
  then obtain t' where "simplify ty cenv sv pol n = (t', cenv', n')" "ty' = TDyn \<or> ty' = TArray t'"
    by (auto split: prod.splits if_splits)
  with TArray.IH [OF this(1) TArray.prems(2)] show ?case by auto
next
  case (ERowsExtend tag ty tail)
  obtain tail' e c1 n1 where 1: "simplify_erows tail cenv sv pol n = ((tail', e), c1, n1)"
    by (cases "simplify_erows tail cenv sv pol n") auto
  note tl = ERowsExtend.IH(2) [OF 1 ERowsExtend.prems(2)]
  show ?case
  proof (cases ty)
    case None
    then show ?thesis using tl 1 ERowsExtend.prems(1) by auto
  next
    case (Some t)
    then obtain t' where 2: "simplify t c1 sv pol n1 = (t', cenv', n')" "erows' = ERowsExtend tag (Some t') tail'"
      using 1 ERowsExtend.prems(1) by (auto split: prod.splits)
    have "n1 \<le> n' \<and> set_ntype t' \<subseteq> set_ntype t \<and> (\<forall>c \<in> ran cenv'. fvs c \<subseteq> internals)"
      using ERowsExtend.IH(1) [OF _ 2(1)] tl Some by simp
    then show ?thesis using tl Some 2(2) by auto
  qed
next
  case (RRowsTailVar x)
  then show ?case using simplify_tail_var_closed by fastforce
next
  case (RRowsExtend x ty tail)
  obtain t' c1 n1 where 1: "simplify ty cenv sv pol n = (t', c1, n1)" by (cases "simplify ty cenv sv pol n") auto
  note t = RRowsExtend.IH(1) [OF 1 RRowsExtend.prems(2)]
  obtain tl' where 2: "simplify_rrows tail c1 sv pol flds ce n1 = (tl', cenv', n')" "rrows' = tl' \<or> rrows' = RRowsExtend x t' tl'"
    using RRowsExtend.prems(1) 1 by (auto split: prod.splits if_splits)
  from RRowsExtend.IH(2) [OF 2(1)] t 2(2) show ?case by auto
qed auto

section \<open>Contracts of annotations\<close>

definition gen_post :: "'a gen_result \<Rightarrow> nat \<Rightarrow> ('a \<Rightarrow> bool) \<Rightarrow> bool" where
  "gen_post r n P \<longleftrightarrow> (\<forall>v n'. r = Some (v, n') \<longrightarrow> n \<le> n' \<and> (\<forall>w. v = Inr w \<longrightarrow> P w))"

lemma gen_post_ok [simp]: "gen_post (Some (Inr v, n')) n P \<longleftrightarrow> n \<le> n' \<and> P v"
  by (simp add: gen_post_def)

lemma gen_post_bind:
  assumes "gen_post r n P" and "\<And>v n'. P v \<Longrightarrow> n \<le> n' \<Longrightarrow> gen_post (k v n') n' Q"
  shows "gen_post (gen_bind r k) n Q"
  using assms unfolding gen_post_def gen_bind_def by (fastforce split: option.splits sum.splits intro: order_trans)

lemma gen_post_of_ctr: "ctr_post r n P \<Longrightarrow> gen_post (gen_of_ctr r) n P"
  by (auto simp: gen_post_def ctr_post_def gen_of_ctr_def)

lemma gen_list_post:
  assumes "\<And>x n. x \<in> set xs \<Longrightarrow> gen_post (f x n) n (P x)"
  shows "gen_post (gen_list f xs n) n (list_all2 P xs)"
  using assms
proof (induction xs arbitrary: n)
  case (Cons x xs)
  have "gen_post (gen_list f xs n) n (list_all2 P xs)" for n using Cons by simp
  then show ?case unfolding gen_list.simps
    by (intro gen_post_bind [of "f x n" n "P x"] gen_post_bind [of _ _ "list_all2 P xs"]) (use Cons.prems in auto)
qed simp

lemma type_contract_post: "gen_post (type_contract ty n) n (\<lambda>c. fvs c \<subseteq> type_fvs ty \<union> internals)"
  unfolding type_contract_def by (rule gen_post_of_ctr, rule subcontract_post) auto

lemma contract_static_post: "gen_post (contract_static ty n) n (\<lambda>c. fvs c \<subseteq> type_fvs ty \<union> internals)"
proof -
  obtain ty' cenv n1 where s: "simplify ty Map.empty simplify_vars_new Positive n = (ty', cenv, n1)"
    by (cases "simplify ty Map.empty simplify_vars_new Positive n") auto
  from simplify_closed(1) [OF s] have 1: "n \<le> n1" "set_ntype ty' \<subseteq> set_ntype ty" "\<forall>c \<in> ran cenv. fvs c \<subseteq> internals" by simp_all
  have "ctr_post (subcontract ty' cenv Positive 0 n1) n1 (\<lambda>c. fvs c \<subseteq> type_fvs ty \<union> internals)"
    by (rule subcontract_post) (use 1(2,3) in \<open>auto simp: type_fvs_def\<close>)
  from ctr_post_mono [OF this 1(1)] show ?thesis unfolding contract_static_def s by (simp add: gen_post_of_ctr)
qed

lemma from_type_post:
  "gen_post (from_type lt n) n (\<lambda>c. fvs (ctr_contract c) \<subseteq> type_fvs (lt_typ lt) \<union> internals)"
  "gen_post (from_static_type lt n) n (\<lambda>c. fvs (ctr_contract c) \<subseteq> type_fvs (lt_typ lt) \<union> internals)"
  unfolding from_type_def from_static_type_def
  by (rule gen_post_bind [OF type_contract_post], simp) (rule gen_post_bind [OF contract_static_post], simp)

lemma annot_type_fvs:
  "lt \<in> set (annot_contracts annot) \<Longrightarrow> type_fvs (lt_typ lt) \<subseteq> annot_fvs annot"
  "annot_typ annot = Some lt \<Longrightarrow> type_fvs (lt_typ lt) \<subseteq> annot_fvs annot"
  by (cases annot; cases lt; force simp: type_fvs_def annot_fvs_def)+

lemma annot_pending_contracts_post:
  "gen_post (annot_pending_contracts annot n) n (\<lambda>cs. \<forall>c \<in> set cs. fvs (ctr_contract c) \<subseteq> annot_fvs annot \<union> internals)"
proof -
  have "gen_post (annot_pending_contracts annot n) n
      (list_all2 (\<lambda>lt c. fvs (ctr_contract c) \<subseteq> type_fvs (lt_typ lt) \<union> internals) (annot_contracts annot))"
    unfolding annot_pending_contracts_def by (rule gen_list_post) (rule from_type_post)
  moreover have "\<forall>c \<in> set cs. fvs (ctr_contract c) \<subseteq> annot_fvs annot \<union> internals"
    if "list_all2 (\<lambda>lt c. fvs (ctr_contract c) \<subseteq> type_fvs (lt_typ lt) \<union> internals) (annot_contracts annot) cs" for cs
    using that annot_type_fvs(1) [of _ annot] unfolding list_all2_conv_all_nth by (force simp: in_set_conv_nth)
  ultimately show ?thesis unfolding gen_post_def by blast
qed

section \<open>Pending contracts of fields\<close>

lemma fvs_contract_apply [fvs_simps]: "fvs (contract_apply c v) = fvs (ctr_contract c) \<union> fvs v"
  by (auto simp: contract_apply_def)

lemma fvs_contract_apply_all [fvs_simps]: "fvs (contract_apply_all v cs) = fvs v \<union> (\<Union>c \<in> set cs. fvs (ctr_contract c))"
  by (induction cs arbitrary: v) (auto simp: contract_apply_all_def fvs_simps)

lemma field_fvs_Field:
  "field_fvs (Field v m cs) = \<Union> (fvs ` set_option v) \<union> (\<Union>md \<in> set_option m. annot_fvs (fm_annotation md)) \<union> (\<Union>c \<in> set cs. fvs (ctr_contract c))"
proof -
  have "set_field_metadata md = set_type_annotation (fm_annotation md)" for md :: "nickel_value field_metadata" by (cases md) simp
  moreover have "set_runtime_contract c = {ctr_contract c}" for c :: contract by (cases c) simp
  ultimately show ?thesis by (auto simp: field_fvs_def annot_fvs_def)
qed

lemma with_pending_post:
  "gen_post (with_pending_contracts fld n) n
    (\<lambda>fld'. field_fvs fld' \<subseteq> field_fvs fld \<union> internals \<and> field_metadata fld' = field_metadata fld)"
proof -
  obtain v m cs where fld: "fld = Field v m cs" by (cases fld)
  let ?A = "\<Union>md \<in> set_option m. annot_fvs (fm_annotation md)"
  have pend: "gen_post (case m of None \<Rightarrow> Some (Inr [], n) | Some md \<Rightarrow> annot_pending_contracts (fm_annotation md) n) n
      (\<lambda>cs. \<forall>c \<in> set cs. fvs (ctr_contract c) \<subseteq> ?A \<union> internals)"
  proof (cases m)
    case (Some md)
    then show ?thesis using annot_pending_contracts_post [of "fm_annotation md" n] by simp
  qed simp
  have val: "gen_post (case v of None \<Rightarrow> Some (Inr None, n1)
      | Some v \<Rightarrow> (case Option.bind m (\<lambda>m. annot_typ (fm_annotation m)) of
          Some lt \<Rightarrow> gen_bind (from_static_type lt n1) (\<lambda>c n. Some (Inr (Some (contract_apply c v)), n))
        | None \<Rightarrow> Some (Inr (Some v), n1))) n1 (\<lambda>v'. \<Union> (fvs ` set_option v') \<subseteq> \<Union> (fvs ` set_option v) \<union> ?A \<union> internals)" for n1
  proof (cases "Option.bind m (\<lambda>m. annot_typ (fm_annotation m))")
    case (Some lt)
    then obtain md where md: "m = Some md" "annot_typ (fm_annotation md) = Some lt" by (auto split: bind_splits)
    have "gen_post (gen_bind (from_static_type lt n1) (\<lambda>c n. Some (Inr (Some (contract_apply c w)), n))) n1
        (\<lambda>v'. \<Union> (fvs ` set_option v') \<subseteq> fvs w \<union> annot_fvs (fm_annotation md) \<union> internals)" for w
      by (rule gen_post_bind [OF from_type_post(2)]) (use annot_type_fvs(2) [OF md(2)] in \<open>auto simp: fvs_simps\<close>)
    then show ?thesis using Some md by (cases v) simp_all
  qed (cases v; auto)
  show ?thesis unfolding with_pending_contracts_def fld field.sel
    by (rule gen_post_bind [OF pend gen_post_bind [OF val]]) (auto simp: field_fvs_Field)
qed

lemma attach_to_fields_post:
  "gen_post (attach_to_fields flds n) n
    (\<lambda>flds'. \<forall>(x, fld') \<in> set flds'. \<exists>fld. (x, fld) \<in> set flds \<and> field_fvs fld' \<subseteq> field_fvs fld \<union> internals)"
proof -
  let ?P = "\<lambda>(x, fld) (x', fld'). x' = x \<and> field_fvs fld' \<subseteq> field_fvs fld \<union> internals"
  let ?f = "\<lambda>(x, fld) n. gen_bind (with_pending_contracts fld n) (\<lambda>fld' n'. Some (Inr (x, fld'), n'))"
  have one: "gen_post (?f b n) n (?P b)" for b n
    by (cases b) (auto intro!: gen_post_bind [OF with_pending_post])
  have "\<exists>fld. (x, fld) \<in> set flds \<and> field_fvs fld' \<subseteq> field_fvs fld \<union> internals"
    if l: "list_all2 ?P flds flds'" and m: "(x, fld') \<in> set (im_from_iter flds')" for flds' x fld'
  proof -
    have "(x, fld') \<in> set flds'" using m im_from_iter_members by fast
    then obtain i where "i < length flds'" "flds' ! i = (x, fld')" by (auto simp: in_set_conv_nth)
    then have "i < length flds" "?P (flds ! i) (x, fld')" using l list_all2_nthD2 [OF l] list_all2_lengthD [OF l] by metis+
    then show ?thesis by (cases "flds ! i") (auto simp: in_set_conv_nth)
  qed
  then show ?thesis unfolding attach_to_fields_def by (intro gen_post_bind [OF gen_list_post [OF one]]) auto
qed

lemma transform_record_post:
  "gen_post (transform_one (RecordV (Alloc r)) n) n (\<lambda>v. fvs v \<subseteq> fvs (RecordV (Alloc r)) \<union> internals)"
proof -
  obtain flds attrs tail where r: "r = RecordData flds attrs tail" by (cases r)
  let ?new = "\<lambda>flds'. record_value (RecordData flds' attrs tail)"
  have split: "\<Union> (fvs ` set_record_data (RecordData flds attrs tail)) =
      (\<Union>b \<in> set flds. field_fvs (snd b)) \<union> (\<Union>t \<in> set_option tail. \<Union> (fvs ` set_sealed_tail t))" for flds
    by (auto simp: field_fvs_def snds.simps)
  have "fvs (?new flds') \<subseteq> fvs (RecordV (Alloc r)) \<union> internals"
    if m: "\<forall>(x, fld') \<in> set flds'. \<exists>fld. (x, fld) \<in> set flds \<and> field_fvs fld' \<subseteq> field_fvs fld \<union> internals" for flds'
  proof -
    have "field_fvs (snd b) \<subseteq> (\<Union>b \<in> set flds. field_fvs (snd b)) \<union> internals" if b: "b \<in> set flds'" for b
    proof -
      obtain fld where "(fst b, fld) \<in> set flds" "field_fvs (snd b) \<subseteq> field_fvs fld \<union> internals"
        using m b by (cases b) auto
      moreover from this(1) have "field_fvs fld \<subseteq> (\<Union>b \<in> set flds. field_fvs (snd b))" by force
      ultimately show ?thesis by blast
    qed
    then have "(\<Union>b \<in> set flds'. field_fvs (snd b)) \<subseteq> (\<Union>b \<in> set flds. field_fvs (snd b)) \<union> internals" by (rule UN_least)
    with fvs_record_value [of "RecordData flds' attrs tail"] show ?thesis unfolding fvs_RecordV r split
      by (elim order_trans) (rule Un_least, erule order_trans, rule Un_mono, rule Un_upper1, rule subset_refl, rule le_supI1, rule Un_upper2)
  qed
  then show ?thesis unfolding transform_one_def nickel_value.case container.case
    by (intro gen_post_bind [OF attach_to_fields_post]) (simp add: r)
qed

lemma gen_pending_record:
  assumes "gen_pending (record_posless r) n = Some (v', n')"
  shows "fvs v' \<subseteq> fvs (record_posless r) \<union> internals \<and> n \<le> n'"
proof (cases "record_is_empty r")
  case True
  then show ?thesis using assms by (auto simp: record_posless_def gen_pending_def transform_one_def)
next
  case False
  then have "transform_one (RecordV (Alloc r)) n = Some (Inr v', n')"
    using assms by (auto simp: record_posless_def gen_pending_def split: option.splits sum.splits)
  with transform_record_post [of r n] False show ?thesis by (auto simp: gen_post_def record_posless_def simp del: fvs.simps)
qed

interpretation gp: pending_scoped gen_pending
  by unfold_locales (use gen_pending_record in blast)+

end
