(* ===== verification/Free_Vars_Props.thy ===== *)
theory Free_Vars_Props
  imports Contract_Scope
begin

text \<open>
  Correctness of the analysis of free variables: it never reports a variable that is not free, and on
  the values a program is made of it reports all of them, so that the dependencies of the fields of a
  recursive record are exactly the other fields their definitions refer to.
\<close>

section \<open>What the traversal visits\<close>

lemma visits_subset:
  fixes ty :: "'v ntype" and erows :: "'v enum_rows" and rrows :: "'v record_rows"
  shows "type_visits ty \<subseteq> set_ntype ty" and "True" and "rrows_visits rrows \<subseteq> set_record_rows rrows"
  by (induction ty and erows and rrows rule: ntype.induct enum_rows.induct record_rows.induct) auto

text \<open>Types whose enum rows hold no contract are visited entirely.\<close>

primrec enum_plain :: "'v ntype \<Rightarrow> bool"
and rrows_plain :: "'v record_rows \<Rightarrow> bool" where
  "enum_plain TDyn = True" | "enum_plain TNumber = True" | "enum_plain TBool = True" | "enum_plain TString = True"
| "enum_plain TSymbol = True" | "enum_plain TForeignId = True" | "enum_plain (TVar _) = True"
| "enum_plain (TWildcard _) = True" | "enum_plain (TContract _) = True"
| "enum_plain (TArrow s t) \<longleftrightarrow> enum_plain s \<and> enum_plain t"
| "enum_plain (TForall _ _ t) = enum_plain t"
| "enum_plain (TEnum erows) \<longleftrightarrow> set_enum_rows erows = {}"
| "enum_plain (TRecord rrows) = rrows_plain rrows"
| "enum_plain (TDict t _) = enum_plain t"
| "enum_plain (TArray t) = enum_plain t"
| "rrows_plain RRowsEmpty = True" | "rrows_plain RRowsTailDyn = True" | "rrows_plain (RRowsTailVar _) = True"
| "rrows_plain (RRowsExtend _ t tail) \<longleftrightarrow> enum_plain t \<and> rrows_plain tail"

lemma visits_all:
  fixes ty :: "'v ntype" and erows :: "'v enum_rows" and rrows :: "'v record_rows"
  shows "enum_plain ty \<Longrightarrow> type_visits ty = set_ntype ty" and "True" and "rrows_plain rrows \<Longrightarrow> rrows_visits rrows = set_record_rows rrows"
  by (induction ty and erows and rrows rule: ntype.induct enum_rows.induct record_rows.induct) auto

lemma set_annot: "set_type_annotation a = (\<Union>lt \<in> set (annotation_iter a). set_ntype (lt_typ lt))"
proof -
  have "set_labeled_type lt = set_ntype (lt_typ lt)" for lt :: "'a labeled_type" by (cases lt) simp
  then show ?thesis by (cases a) (auto simp: annotation_iter_def split: option.splits)
qed

definition annot_plain :: "'v type_annotation \<Rightarrow> bool" where
  "annot_plain a \<longleftrightarrow> (\<forall>lt \<in> set (annotation_iter a). enum_plain (lt_typ lt))"

lemma annot_visits_bounds: "annot_visits a \<subseteq> set_type_annotation a" "annot_plain a \<Longrightarrow> annot_visits a = set_type_annotation a"
proof -
  show "annot_visits a \<subseteq> set_type_annotation a" unfolding annot_visits_def set_annot by (rule UN_mono [OF subset_refl visits_subset(1)])
  assume "annot_plain a"
  then show "annot_visits a = set_type_annotation a" unfolding annot_visits_def set_annot annot_plain_def
    by (intro SUP_cong refl visits_all(1)) blast
qed

definition field_plain :: "'v field \<Rightarrow> bool" where
  "field_plain fld \<longleftrightarrow> field_pending_contracts fld = [] \<and>
    (case field_metadata fld of None \<Rightarrow> True | Some m \<Rightarrow> annot_plain (fm_annotation m))"

lemma set_metadata: "set_field_metadata m = set_type_annotation (fm_annotation m)"
  by (cases m) simp

lemma field_visits_bounds: "field_visits fld \<subseteq> set_field fld" "field_plain fld \<Longrightarrow> field_visits fld = set_field fld"
  using annot_visits_bounds by (cases fld; fastforce simp: field_visits_def field_plain_def set_metadata split: option.splits)+

definition record_plain :: "'v record_data \<Rightarrow> bool" where
  "record_plain r \<longleftrightarrow> (\<forall>b \<in> set (record_fields r). field_plain (snd b)) \<and> record_sealed_tail r = None"

lemma record_visits_bounds: "record_visits r \<subseteq> set_record_data r" "record_plain r \<Longrightarrow> record_visits r = set_record_data r"
proof -
  obtain flds attrs tail where r: "r = RecordData flds attrs tail" by (cases r)
  have set_r: "set_record_data r = (\<Union>b \<in> set flds. set_field (snd b)) \<union> (\<Union>t \<in> set_option tail. set_sealed_tail t)"
    by (auto simp: r snds.simps)
  show "record_visits r \<subseteq> set_record_data r"
    unfolding set_r unfolding record_visits_def r record_data.sel by (rule le_supI1, rule UN_mono [OF subset_refl field_visits_bounds(1)])
  assume "record_plain r"
  then have "field_visits (snd b) = set_field (snd b)" if "b \<in> set flds" for b
    using that field_visits_bounds(2) by (auto simp: record_plain_def r)
  then show "record_visits r = set_record_data r" using \<open>record_plain r\<close>
    unfolding set_r record_visits_def record_plain_def by (simp add: r)
qed

lemma visits_map [simp]:
  fixes ty :: "'a ntype" and erows :: "'a enum_rows" and rrows :: "'a record_rows"
  shows "type_visits (map_ntype f ty) = f ` type_visits ty" and "True" and "rrows_visits (map_record_rows f rrows) = f ` rrows_visits rrows"
  by (induction ty and erows and rrows rule: ntype.induct enum_rows.induct record_rows.induct) (auto simp: image_Un)

lemma annot_visits_map [simp]: "annot_visits (map_type_annotation f a) = f ` annot_visits a"
proof -
  have lt: "lt_typ (map_labeled_type f lt) = map_ntype f (lt_typ lt)" for lt by (cases lt) simp
  have "annotation_iter (map_type_annotation f a) = map (map_labeled_type f) (annotation_iter a)"
    by (cases a) (auto simp: annotation_iter_def split: option.split)
  then show ?thesis by (simp add: annot_visits_def image_UN lt)
qed

lemma field_visits_map [simp]: "field_visits (map_field f fld) = f ` field_visits fld"
proof -
  have "fm_annotation (map_field_metadata f m) = map_type_annotation f (fm_annotation m)" for m by (cases m) simp
  then show ?thesis by (cases fld) (auto simp: field_visits_def image_Un option.set_map split: option.split)
qed

lemma record_visits_map [simp]: "record_visits (map_record_data f r) = f ` record_visits r"
  by (cases r) (auto simp: record_visits_def image_UN)

lemma rec_fields_map [simp]: "rec_fields (map_record_data f r) (map (map_prod id g) incl) = rec_fields r incl"
  by (cases r) (simp add: rec_fields_def image_image)

section \<open>Soundness\<close>

lemma visits_vars_image: "visits_vars (collect_value ` S) = (\<Union>v \<in> S. fv_vars (collect_value v))"
  by (simp add: visits_vars_def)

lemma visits_vars_sub: "(\<And>v. v \<in> T \<Longrightarrow> fv_vars (collect_value v) \<subseteq> fvs v) \<Longrightarrow> S \<subseteq> T \<Longrightarrow> visits_vars (collect_value ` S) \<subseteq> \<Union> (fvs ` T)"
  by (fastforce simp: visits_vars_image)

lemma chunk_visits_map [simp]: "chunk_visits (map_str_chunk f c) = f ` chunk_visits c" "chunk_visits c = set_str_chunk c"
  by (cases c; simp add: chunk_visits_def)+

lemma map_sel [simp]:
  "fm_annotation (map_field_metadata f m) = map_type_annotation f (fm_annotation m)"
  "record_fields (map_record_data f r) = map (map_prod id (map_field f)) (record_fields r)"
  by (cases m, simp) (cases r, simp)

text \<open>The variables of a recursive record, and what the analysis collects of it.\<close>

lemma rec_record_fvs:
  "fvs_term (RecRecord data incl dyns deps closurized) =
    (let rf = rec_fields data incl in
     (\<Union>(x, m) \<in> set incl. insert x (annot_fvs (fm_annotation m) - rf))
     \<union> ((\<Union>b \<in> set (record_fields data). field_fvs (snd b) - rf)
        \<union> ((\<Union>t \<in> set_option (record_sealed_tail data). \<Union> (fvs ` set_sealed_tail t)) - rf))
     \<union> (\<Union>(t, fld) \<in> set dyns. fvs t \<union> (field_fvs fld - rf)))"
proof -
  define rf where "rf = rec_fields data incl"
  have 1: "\<Union> (set_record_data (map_record_data fvs data)) - rf = (\<Union>b \<in> set (record_fields data). field_fvs (snd b) - rf)
      \<union> ((\<Union>t \<in> set_option (record_sealed_tail data). \<Union> (fvs ` set_sealed_tail t)) - rf)"
  proof -
    have "\<Union> (set_record_data (map_record_data fvs data)) = (\<Union>b \<in> set (record_fields data). field_fvs (snd b)) \<union>
      (\<Union>t \<in> set_option (record_sealed_tail data). \<Union> (fvs ` set_sealed_tail t))"
      unfolding record_data.set_map by (cases data) (auto simp: field_fvs_def snds.simps)
    moreover have "(\<Union>b \<in> set (record_fields data). field_fvs (snd b)) - rf = (\<Union>b \<in> set (record_fields data). field_fvs (snd b) - rf)" by blast
    ultimately show ?thesis by (simp only: Un_Diff)
  qed
  have 2: "(\<Union>(x, m) \<in> set (map (map_prod id (map_field_metadata fvs)) incl). insert x (\<Union> (set_field_metadata m) - rf)) =
      (\<Union>(x, m) \<in> set incl. insert x (annot_fvs (fm_annotation m) - rf))"
    by (simp add: case_prod_beta set_metadata annot_fvs_def type_annotation.set_map)
  have 3: "(\<Union>(t, fld) \<in> set (map (map_prod fvs (map_field fvs)) dyns). t \<union> (\<Union> (set_field fld) - rf)) =
      (\<Union>(t, fld) \<in> set dyns. fvs t \<union> (field_fvs fld - rf))"
    by (simp add: case_prod_beta field.set_map field_fvs_def)
  show ?thesis unfolding fvs_term.simps Let_def rec_fields_map rf_def [symmetric] 1 2 3 by (simp only: Un_ac)
qed

lemma collect_rec_record:
  "ft_vars (collect_term (RecRecord data incl dyns deps closurized)) =
    (let rf = rec_fields data incl in
     (\<Union>(x, m) \<in> set incl. insert x (visits_vars (collect_value ` annot_visits (fm_annotation m)) - rf))
     \<union> (\<Union>b \<in> set (record_fields data). visits_vars (collect_value ` field_visits (snd b)) - rf)
     \<union> (\<Union>(t, fld) \<in> set dyns. fv_vars (collect_value t) \<union> (visits_vars (collect_value ` field_visits fld) - rf)))"
  by (simp add: Let_def rec_record_vars_def case_prod_beta)

lemma collect_sound:
  "fv_vars (collect_value v) \<subseteq> fvs v" "ft_vars (collect_term t) \<subseteq> fvs_term t"
proof (induction v and t rule: nickel_value.induct nickel_term.induct)
  case (ArrayV d)
  show ?case
  proof (cases d)
    case (Alloc p)
    obtain vs cs where p: "p = (vs, cs)" by (cases p)
    have "visits_vars (collect_value ` set vs) \<subseteq> \<Union> (fvs ` set vs)" using ArrayV by (intro visits_vars_sub subset_refl) (auto simp: Alloc p)
    then show ?thesis by (simp add: Alloc p le_supI1)
  qed (simp add: fv_leaf_def)
next
  case (RecordV d)
  show ?case
  proof (cases d)
    case (Alloc r)
    then have "visits_vars (collect_value ` record_visits r) \<subseteq> \<Union> (fvs ` set_record_data r)"
      using RecordV by (intro visits_vars_sub record_visits_bounds(1)) auto
    then show ?thesis by (simp add: Alloc record_data.set_map)
  qed (simp add: fv_leaf_def)
next
  case (EnumVariant tag arg)
  then show ?case by (cases arg) (auto simp: fv_leaf_def)
next
  case (TypeV ty v)
  have "visits_vars (collect_value ` type_visits ty) \<subseteq> \<Union> (fvs ` set_ntype ty)"
    using TypeV(1) by (intro visits_vars_sub visits_subset(1))
  then show ?case using TypeV(2) by (auto simp: Let_def ntype.set_map)
next
  case (StrChunks chunks)
  then show ?case by (fastforce simp: Let_def visits_vars_def str_chunk.set_map)
next
  case (Let bs body bty is_rec)
  have "fv_vars (collect_value (snd b)) \<subseteq> fvs (snd b)" if "b \<in> set bs" for b using Let(1) [OF that] by (cases b) simp
  then have "visits_vars (snd ` set (map (map_prod id collect_value) bs)) \<subseteq> (\<Union>b \<in> set bs. fvs (snd b))"
    by (simp add: visits_vars_def image_image UN_mono)
  moreover have "ft_vars (collect_term (Let bs body bty is_rec)) =
      (let bound = visits_vars (snd ` set (map (map_prod id collect_value) bs)) in
       if is_rec then (bound \<union> fv_vars (collect_value body)) - fst ` set bs else bound \<union> (fv_vars (collect_value body) - fst ` set bs))"
    by (simp add: Let_def image_image)
  ultimately show ?case using Let(2) by (cases is_rec) (auto simp only: fvs_let_rec fvs_let_plain Let_def if_True if_False)
next
  case (RecRecord data incl dyns deps closurized)
  let ?rf = "rec_fields data incl"
  have fld: "visits_vars (collect_value ` field_visits fld) \<subseteq> field_fvs fld" if "b \<in> set (record_fields data)" "fld = snd b" for b fld
  proof -
    have "set_field fld \<subseteq> set_record_data data" using that by (cases data) (auto simp: snds.simps)
    then show ?thesis unfolding field_fvs_def using RecRecord(1) by (intro visits_vars_sub field_visits_bounds(1)) blast
  qed
  have inc: "visits_vars (collect_value ` annot_visits (fm_annotation m)) \<subseteq> annot_fvs (fm_annotation m)" if "(x, m) \<in> set incl" for x m
    unfolding annot_fvs_def using RecRecord(2) that by (intro visits_vars_sub annot_visits_bounds(1)) (force simp: set_metadata)
  have dyn: "fv_vars (collect_value t) \<subseteq> fvs t \<and> visits_vars (collect_value ` field_visits f) \<subseteq> field_fvs f" if "(t, f) \<in> set dyns" for t f
  proof
    show "fv_vars (collect_value t) \<subseteq> fvs t" using RecRecord(3) [OF that] by simp
    have "fv_vars (collect_value v) \<subseteq> fvs v" if "v \<in> set_field f" for v using RecRecord(4) [OF \<open>(t, f) \<in> set dyns\<close> _ that] by simp
    then show "visits_vars (collect_value ` field_visits f) \<subseteq> field_fvs f"
      unfolding field_fvs_def by (rule visits_vars_sub) (assumption | rule field_visits_bounds(1))+
  qed
  show ?case unfolding rec_record_fvs collect_rec_record Let_def
  proof (intro Un_mono le_supI1 UN_mono subset_refl, goal_cases)
    case (1 p)
    then show ?case using inc [of "fst p" "snd p"] by (simp add: case_prod_beta) blast
  next
    case (2 b)
    then show ?case using fld [OF _ refl] by blast
  next
    case (3 p)
    then show ?case using dyn [of "fst p" "snd p"] by (simp add: case_prod_beta) blast
  qed
next
  case (Op2 op v1 v2)
  then show ?case by (auto simp: Let_def)
next
  case (OpN op args)
  then show ?case by (fastforce simp: Let_def visits_vars_def)
next
  case (Annotated annot v)
  have "visits_vars (collect_value ` annot_visits annot) \<subseteq> \<Union> (fvs ` set_type_annotation annot)"
    using Annotated(1) by (intro visits_vars_sub annot_visits_bounds(1))
  then show ?case using Annotated(2) by (auto simp: Let_def type_annotation.set_map)
qed (auto simp: fv_leaf_def Let_def)

section \<open>Completeness\<close>

text \<open>
  Plain values: no pending contracts, no sealed tail, no contracts on an array, no operator that carries contracts, and no
  contract in the rows of an enum type. A program before contracts are generated has no others but those compiled from
  record patterns with annotated fields, which carry pending contracts already, and types with a contract in an enum row.
\<close>

lemma plain_map [simp]:
  fixes ty :: "'a ntype" and erows :: "'a enum_rows" and rrows :: "'a record_rows"
  shows "enum_plain (map_ntype f ty) = enum_plain ty" and "True" and "rrows_plain (map_record_rows f rrows) = rrows_plain rrows"
  by (induction ty and erows and rrows rule: ntype.induct enum_rows.induct record_rows.induct) (auto simp: enum_rows.set_map)

lemma annot_plain_map [simp]: "annot_plain (map_type_annotation f a) = annot_plain a"
proof -
  have lt: "lt_typ (map_labeled_type f lt) = map_ntype f (lt_typ lt)" for lt by (cases lt) simp
  have "annotation_iter (map_type_annotation f a) = map (map_labeled_type f) (annotation_iter a)"
    by (cases a) (auto simp: annotation_iter_def split: option.split)
  then show ?thesis by (simp add: annot_plain_def lt)
qed

lemma field_plain_map [simp]: "field_plain (map_field f fld) = field_plain fld"
  by (cases fld) (simp add: field_plain_def split: option.split)

lemma record_plain_map [simp]: "record_plain (map_record_data f r) = record_plain r"
  by (cases r) (auto simp: record_plain_def)

primrec plain_value :: "nickel_value \<Rightarrow> bool"
and plain_term :: "nickel_term \<Rightarrow> bool" where
  "plain_value Null = True" | "plain_value (Bool b) = True" | "plain_value (Number q) = True" | "plain_value (String s) = True"
| "plain_value (ForeignId i) = True" | "plain_value (SealingKey k) = True" | "plain_value (LabelV l) = True"
| "plain_value (Thunk a) = True"
| "plain_value (ArrayV d) =
    (case map_container (map_prod (map plain_value) (map (map_runtime_contract plain_value))) d of
       Empty \<Rightarrow> True | Alloc (vs, cs) \<Rightarrow> list_all id vs \<and> cs = [])"
| "plain_value (RecordV d) =
    (case map_container (map_record_data plain_value) d of
       Empty \<Rightarrow> True | Alloc r \<Rightarrow> record_plain r \<and> False \<notin> set_record_data r)"
| "plain_value (EnumVariant tag arg) = (case map_option plain_value arg of None \<Rightarrow> True | Some b \<Rightarrow> b)"
| "plain_value (CustomContract v) = plain_value v"
| "plain_value (TypeV t v) = (enum_plain t \<and> False \<notin> set_ntype (map_ntype plain_value t) \<and> plain_value v)"
| "plain_value (TermV t) = plain_term t"
| "plain_term (Var x) = True" | "plain_term (ParseError n) = True" | "plain_term (Import i) = True"
| "plain_term (ResolvedImport i) = True" | "plain_term (RuntimeError err) = True"
| "plain_term (StrChunks chunks) = (\<forall>c \<in> set (map (map_str_chunk plain_value) chunks). False \<notin> set_str_chunk c)"
| "plain_term (Fun x body) = plain_value body"
| "plain_term (Let bindings body bty is_rec) = (list_all snd (map (map_prod id plain_value) bindings) \<and> plain_value body)"
| "plain_term (App f arg) = (plain_value f \<and> plain_value arg)"
| "plain_term (RecRecord data incl dyns deps closurized) =
    (record_plain data \<and> False \<notin> set_record_data (map_record_data plain_value data)
     \<and> list_all (\<lambda>(x, m). annot_plain (fm_annotation m)) incl
     \<and> list_all (\<lambda>(x, m). False \<notin> set_field_metadata m) (map (map_prod id (map_field_metadata plain_value)) incl)
     \<and> list_all (\<lambda>(t, fld). field_plain fld) dyns
     \<and> list_all (\<lambda>(t, fld). t \<and> False \<notin> set_field fld) (map (map_prod plain_value (map_field plain_value)) dyns))"
| "plain_term (Closurize v) = plain_value v"
| "plain_term (Op1 op v) = plain_value v"
| "plain_term (Op2 op v1 v2) = (set_binary_op op = {} \<and> plain_value v1 \<and> plain_value v2)"
| "plain_term (OpN op args) = list_all id (map plain_value args)"
| "plain_term (Sealed k v l) = plain_value v"
| "plain_term (Annotated annot v) =
    (annot_plain annot \<and> False \<notin> set_type_annotation (map_type_annotation plain_value annot) \<and> plain_value v)"

lemma visits_vars_complete:
  assumes "False \<notin> plain_value ` S" and "\<And>v. v \<in> S \<Longrightarrow> plain_value v \<Longrightarrow> fvs v \<subseteq> fv_vars (collect_value v)" and "T = S"
  shows "\<Union> (fvs ` S) \<subseteq> visits_vars (collect_value ` T)"
proof -
  have "plain_value v" if "v \<in> S" for v using assms(1) that by (metis imageI)
  then have "fvs v \<subseteq> fv_vars (collect_value v)" if "v \<in> S" for v using assms(2) that by blast
  then show ?thesis unfolding visits_vars_image assms(3) by (rule UN_mono [OF subset_refl])
qed

lemma collect_complete:
  "plain_value v \<Longrightarrow> fvs v \<subseteq> fv_vars (collect_value v)" "plain_term t \<Longrightarrow> fvs_term t \<subseteq> ft_vars (collect_term t)"
proof (induction v and t rule: nickel_value.induct nickel_term.induct)
  case (ArrayV d)
  show ?case
  proof (cases d)
    case (Alloc p)
    obtain vs cs where p: "p = (vs, cs)" by (cases p)
    have "\<Union> (fvs ` set vs) \<subseteq> visits_vars (collect_value ` set vs)"
      using ArrayV by (intro visits_vars_complete) (auto simp: Alloc p list_all_iff)
    then show ?thesis using ArrayV.prems by (simp add: Alloc p)
  qed simp
next
  case (RecordV d)
  show ?case
  proof (cases d)
    case (Alloc r)
    then have "\<Union> (fvs ` set_record_data r) \<subseteq> visits_vars (collect_value ` record_visits r)"
      using RecordV by (intro visits_vars_complete record_visits_bounds(2)) (auto simp: record_data.set_map)
    then show ?thesis by (simp add: Alloc record_data.set_map)
  qed simp
next
  case (EnumVariant tag arg)
  then show ?case by (cases arg) auto
next
  case (TypeV ty v)
  have "\<Union> (fvs ` set_ntype ty) \<subseteq> visits_vars (collect_value ` type_visits ty)"
    using TypeV by (intro visits_vars_complete visits_all(1)) (auto simp: ntype.set_map)
  then show ?case using TypeV(2) TypeV.prems by (auto simp: Let_def ntype.set_map)
next
  case (StrChunks chunks)
  have "fvs v \<subseteq> fv_vars (collect_value v)" if "c \<in> set chunks" "v \<in> set_str_chunk c" for c v
    using StrChunks.IH [OF that] StrChunks.prems that by (force simp: str_chunk.set_map)
  then show ?case by (fastforce simp: Let_def visits_vars_def str_chunk.set_map)
next
  case (Let bs body bty is_rec)
  have "fvs (snd b) \<subseteq> fv_vars (collect_value (snd b))" if "b \<in> set bs" for b
  proof -
    have "plain_value (snd b)" using Let.prems that by (simp add: list_all_iff)
    then show ?thesis using Let(1) [OF that, of "snd b"] by (cases b) simp
  qed
  then have "(\<Union>b \<in> set bs. fvs (snd b)) \<subseteq> visits_vars (snd ` set (map (map_prod id collect_value) bs))"
    by (simp add: visits_vars_def image_image UN_mono)
  moreover have "ft_vars (collect_term (Let bs body bty is_rec)) =
      (let bound = visits_vars (snd ` set (map (map_prod id collect_value) bs)) in
       if is_rec then (bound \<union> fv_vars (collect_value body)) - fst ` set bs else bound \<union> (fv_vars (collect_value body) - fst ` set bs))"
    by (simp add: Let_def image_image)
  ultimately show ?case using Let(2) Let.prems
    by (cases is_rec) (auto simp only: fvs_let_rec fvs_let_plain Let_def if_True if_False plain_term.simps)
next
  case (RecRecord data incl dyns deps closurized)
  have fld: "field_fvs fld \<subseteq> visits_vars (collect_value ` field_visits fld)" if b: "b \<in> set (record_fields data)" "fld = snd b" for b fld
  proof -
    have sub: "set_field fld \<subseteq> set_record_data data" using b by (cases data) (auto simp: snds.simps)
    have "field_plain fld" using RecRecord.prems b by (simp add: record_plain_def)
    then show ?thesis unfolding field_fvs_def using RecRecord(1) RecRecord.prems sub
      by (intro visits_vars_complete field_visits_bounds(2)) (auto simp: record_data.set_map)
  qed
  have inc: "annot_fvs (fm_annotation m) \<subseteq> visits_vars (collect_value ` annot_visits (fm_annotation m))" if m: "(x, m) \<in> set incl" for x m
  proof -
    have "annot_plain (fm_annotation m)" "False \<notin> set_field_metadata (map_field_metadata plain_value m)"
      using RecRecord.prems m unfolding plain_term.simps list_all_iff by (fast, force)
    then have p: "annot_visits (fm_annotation m) = set_type_annotation (fm_annotation m)" "False \<notin> plain_value ` set_type_annotation (fm_annotation m)"
      by (simp_all add: annot_visits_bounds(2) set_metadata type_annotation.set_map)
    show ?thesis unfolding annot_fvs_def
      by (rule visits_vars_complete [OF p(2) _ p(1)]) (use RecRecord(2) [OF m] in \<open>simp add: set_metadata\<close>)
  qed
  have dyn: "fvs t \<subseteq> fv_vars (collect_value t) \<and> field_fvs f \<subseteq> visits_vars (collect_value ` field_visits f)" if d: "(t, f) \<in> set dyns" for t f
  proof
    have p: "plain_value t" "False \<notin> plain_value ` set_field f" "field_plain f"
      using RecRecord.prems d unfolding plain_term.simps list_all_iff by (force, force simp: field.set_map, fast)
    show "fvs t \<subseteq> fv_vars (collect_value t)" using RecRecord(3) [OF d] p(1) by simp
    show "field_fvs f \<subseteq> visits_vars (collect_value ` field_visits f)" unfolding field_fvs_def
      by (rule visits_vars_complete [OF p(2) _ field_visits_bounds(2) [OF p(3)]]) (use RecRecord(4) [OF d] in simp)
  qed
  have tail: "record_sealed_tail data = None" using RecRecord.prems by (simp add: record_plain_def)
  show ?case unfolding rec_record_fvs collect_rec_record Let_def tail option.set UN_empty Diff_empty Un_empty_right empty_Diff
  proof (intro Un_mono UN_mono subset_refl, goal_cases)
    case (1 p)
    then show ?case using inc [of "fst p" "snd p"] by (simp add: case_prod_beta) blast
  next
    case (2 b)
    then show ?case using fld [OF _ refl] by blast
  next
    case (3 p)
    then show ?case using dyn [of "fst p" "snd p"] by (simp add: case_prod_beta) blast
  qed
next
  case (Op2 op v1 v2)
  then show ?case by (auto simp: Let_def binary_op.set_map)
next
  case (OpN op args)
  then have "fvs v \<subseteq> fv_vars (collect_value v)" if "v \<in> set args" for v using that by (auto simp: list_all_iff)
  then show ?case by (fastforce simp: Let_def visits_vars_def)
next
  case (Annotated annot v)
  have "\<Union> (fvs ` set_type_annotation annot) \<subseteq> visits_vars (collect_value ` annot_visits annot)"
    using Annotated by (intro visits_vars_complete annot_visits_bounds(2)) (auto simp: type_annotation.set_map)
  then show ?case using Annotated(2) Annotated.prems by (auto simp: Let_def type_annotation.set_map)
qed (auto simp: Let_def)

section \<open>Properties\<close>

text \<open>
  C15. The analysis never reports a variable that is not free, and on a plain value it reports exactly the free variables.
  Plain values carry no pending contract, no sealed tail, no contract inside an operator and no contract in the rows of an enum
  type.
\<close>

theorem free_vars_exact:
  "fv_vars (collect_value v) \<subseteq> fvs v \<and> (plain_value v \<longrightarrow> fv_vars (collect_value v) = fvs v)"
  using collect_sound(1) [of v] collect_complete(1) [of v] by auto

theorem free_vars_exact_witness:
  "fv_vars (collect_value (mk_fun ''x'' (let_one_in ''y'' (mk_var ''x'') (mk_app (mk_var ''y'') (mk_var ''z''))))) = {''z''}"
  using free_vars_exact [of "mk_fun ''x'' (let_one_in ''y'' (mk_var ''x'') (mk_app (mk_var ''y'') (mk_var ''z'')))"]
  by (auto simp: make_defs)

lemma static_dependencies:
  assumes "im_wf (record_fields data)" and "(x, fld) \<in> set (record_fields data)"
  shows "\<exists>data' incl' dyns' deps. ft_new (collect_term (RecRecord data incl dyns d closurized)) = RecRecord data' incl' dyns' (Some deps) closurized
    \<and> map_of (stat_fields deps) x = Some (Known (visits_vars (collect_value ` field_visits fld) \<inter> rec_fields data incl))"
proof -
  let ?r = "map_record_data collect_value data" and ?is = "map (map_prod id (map_field_metadata collect_value)) incl"
  let ?ds = "map (map_prod collect_value (map_field collect_value)) dyns"
  let ?dep = "\<lambda>fld. Known (visits_vars (collect_value ` field_visits fld) \<inter> rec_fields data incl)"
  define deps where "deps = map (\<lambda>(x, fld). (x, Known (visits_vars (field_visits fld) \<inter> rec_fields data incl))) (record_fields ?r)"
  have deps_map: "deps = map (map_prod id ?dep) (record_fields data)" by (auto simp: deps_def)
  have "im_wf deps" using assms(1) by (simp add: im_wf_def deps_map)
  moreover have "(x, ?dep fld) \<in> set deps"
    using imageI [OF assms(2), of "map_prod id ?dep"] by (simp add: deps_map)
  ultimately have "map_of (rev deps) x = Some (?dep fld)"
    by (intro map_of_is_SomeI) (auto simp: im_wf_def rev_map [symmetric])
  then have "map_of (stat_fields (new_deps ?r ?is ?ds)) x = Some (?dep fld)"
    by (simp add: new_deps_def Let_def im_from_iter_def rec_fields_map deps_def map_add_Some_iff del: map_sel)
  then show ?thesis by (simp add: Let_def)
qed

text \<open>
  C4. In a plain recursive record (no pending contract, no sealed tail, no contract inside an operator and no contract in
  the rows of an enum type, in the record or below it) with distinct fields, the dependencies the analysis
  records for a static field are exactly the fields of that record, included ones too, that occur free in the
  definition or the annotations of the field.
\<close>

theorem field_dependencies_exact:
  assumes "plain_term (RecRecord data incl dyns d closurized)" and "im_wf (record_fields data)"
    and "(x, fld) \<in> set (record_fields data)"
  shows "\<exists>data' incl' dyns' deps. ft_new (collect_term (RecRecord data incl dyns d closurized)) = RecRecord data' incl' dyns' (Some deps) closurized
    \<and> map_of (stat_fields deps) x = Some (Known (field_fvs fld \<inter> rec_fields data incl))"
proof -
  have sub: "set_field fld \<subseteq> set_record_data data" using assms(3) by (cases data) (auto simp: snds.simps)
  have p: "field_plain fld" "False \<notin> plain_value ` set_record_data data"
    using assms(1,3) by (auto simp: record_plain_def record_data.set_map)
  have "field_fvs fld \<subseteq> visits_vars (collect_value ` field_visits fld)" unfolding field_fvs_def
    by (rule visits_vars_complete [OF _ collect_complete(1) field_visits_bounds(2) [OF p(1)]]) (use p(2) sub in blast)
  moreover have "visits_vars (collect_value ` field_visits fld) \<subseteq> field_fvs fld" unfolding field_fvs_def
    by (rule visits_vars_sub [OF collect_sound(1) field_visits_bounds(1)])
  ultimately have "visits_vars (collect_value ` field_visits fld) = field_fvs fld" by blast
  then show ?thesis using static_dependencies [OF assms(2,3), of incl dyns d closurized] by simp
qed

definition two_fields :: nrecord where
  "two_fields = RecordData [(''a'', field_of_value (Number 1)), (''b'', field_of_value (mk_app (mk_var ''f'') (mk_var ''a'')))] attrs_new None"

theorem field_dependencies_exact_witness:
  "\<exists>data' incl' dyns' deps. ft_new (collect_term (RecRecord two_fields [] [] None False)) = RecRecord data' incl' dyns' (Some deps) False
    \<and> map_of (stat_fields deps) ''b'' = Some (Known {''a''})"
proof -
  have "field_fvs (field_of_value (mk_app (mk_var ''f'') (mk_var ''a''))) \<inter> rec_fields two_fields ([] :: (ident \<times> nmetadata) list) = {''a''}"
    by (auto simp: field_fvs_def field_of_value_def rec_fields_def two_fields_def fvs_simps)
  then show ?thesis
    using field_dependencies_exact [of two_fields "[]" "[]" None False "''b''" "field_of_value (mk_app (mk_var ''f'') (mk_var ''a''))"]
    by (simp add: two_fields_def record_plain_def field_plain_def field_of_value_def im_wf_def mk_app_def mk_var_def snds.simps)
qed

text \<open>
  C19. When generating the contracts of the annotations of a field succeeds, the field with them has no free variable but
  those of the field before, in its annotations or elsewhere, and the internals of the standard library, and its metadata is unchanged.
\<close>

theorem pending_contracts_add_no_dependency:
  assumes "with_pending_contracts fld n = Some (Inr fld', n')"
  shows "field_fvs fld' \<subseteq> field_fvs fld \<union> internals \<and> field_metadata fld' = field_metadata fld"
  using with_pending_post [of fld n] assms by (auto simp: gen_post_def)

theorem pending_contracts_add_no_dependency_witness:
  "let fld = Field None (Some (FieldMetadata None (TypeAnnotation None [LabeledType (TArray (TContract (mk_var ''C''))) label_default]) False False Neutral)) [] in
   \<exists>fld' n'. with_pending_contracts fld 0 = Some (Inr fld', n') \<and> field_fvs fld' \<subseteq> {''C''} \<union> internals"
proof -
  define fld :: nfield where "fld = Field None (Some (FieldMetadata None (TypeAnnotation None [LabeledType (TArray (TContract (mk_var ''C''))) label_default]) False False Neutral)) []"
  obtain fld' n' where r: "with_pending_contracts fld 0 = Some (Inr fld', n')"
    by (simp add: fld_def with_pending_contracts_def gen_bind_def annot_pending_contracts_def from_type_def type_contract_def gen_of_ctr_def ctr_bind_def ctr_ok_def)
  have "field_fvs fld = {''C''}" by (simp add: fld_def field_fvs_def mk_var_def)
  with pending_contracts_add_no_dependency [OF r] r show ?thesis unfolding Let_def fld_def [symmetric] by auto
qed

definition enum_annotation :: "nickel_value enum_rows \<Rightarrow> label \<Rightarrow> nannotation" where
  "enum_annotation erows l = TypeAnnotation None [LabeledType (TEnum erows) l]"

lemma enum_row_contract:
  "\<exists>c n'. annot_pending_contracts (enum_annotation (ERowsExtend tag (Some (TContract v)) ERowsEmpty) l) n = Some (Inr [c], n')
    \<and> fvs v - range gen_ident \<subseteq> fvs (ctr_contract c)"
  by (auto simp add: enum_annotation_def annot_pending_contracts_def from_type_def type_contract_def gen_of_ctr_def gen_bind_def ctr_bind_def
      ctr_ok_def finish_enum_def enum_default_def compile_match_def enum_row_branch_def Let_def is_tag_or_wildcard_def fresh_bindings_def
      im_from_iter_def im_extend_def im_insert_def compile_alias_def compile_enum_def compile_any_def alias_ids_def apply_contract_to_def fvs_simps)

text \<open>
  C37. Enum rows are not entered, although the type of a row can be a contract. For every field of a recursive record
  annotated with an enum type, the recorded dependencies are those of its definition alone, whatever the rows of the
  type are. The contract generated for an enum type of one row with the contract \<open>v\<close> uses every variable of
  \<open>v\<close> (that is not a generated identifier), among them the fields of the record.
\<close>

theorem enum_row_dependency_missed:
  assumes "im_wf (record_fields data)"
    and "(x, Field val (Some (FieldMetadata doc (enum_annotation erows l) opt not_exported prio)) pending) \<in> set (record_fields data)"
  shows "(\<exists>data' incl' dyns' deps. ft_new (collect_term (RecRecord data incl dyns d closurized)) = RecRecord data' incl' dyns' (Some deps) closurized
      \<and> map_of (stat_fields deps) x =
          Some (Known ((case val of None \<Rightarrow> {} | Some w \<Rightarrow> fv_vars (collect_value w)) \<inter> rec_fields data incl)))
    \<and> (\<forall>tag v n. erows = ERowsExtend tag (Some (TContract v)) ERowsEmpty \<longrightarrow>
        (\<exists>c n'. annot_pending_contracts (enum_annotation erows l) n = Some (Inr [c], n')
          \<and> fvs v - range gen_ident \<subseteq> fvs (ctr_contract c)))"
proof
  let ?fld = "Field val (Some (FieldMetadata doc (enum_annotation erows l) opt not_exported prio)) pending"
  have "visits_vars (collect_value ` field_visits ?fld) = (case val of None \<Rightarrow> {} | Some w \<Rightarrow> fv_vars (collect_value w))"
    by (simp add: field_visits_def annot_visits_def annotation_iter_def enum_annotation_def visits_vars_def split: option.split)
  then show "\<exists>data' incl' dyns' deps. ft_new (collect_term (RecRecord data incl dyns d closurized)) = RecRecord data' incl' dyns' (Some deps) closurized
      \<and> map_of (stat_fields deps) x =
          Some (Known ((case val of None \<Rightarrow> {} | Some w \<Rightarrow> fv_vars (collect_value w)) \<inter> rec_fields data incl))"
    using static_dependencies [OF assms, of incl dyns d closurized] by simp
  show "\<forall>tag v n. erows = ERowsExtend tag (Some (TContract v)) ERowsEmpty \<longrightarrow>
        (\<exists>c n'. annot_pending_contracts (enum_annotation erows l) n = Some (Inr [c], n')
          \<and> fvs v - range gen_ident \<subseteq> fvs (ctr_contract c))"
    using enum_row_contract by blast
qed

text \<open>The record \<open>{ Bar = true, foo | [| 'Foo Bar |] }\<close>.\<close>

definition foo_rows :: "nickel_value enum_rows" where
  "foo_rows = ERowsExtend ''Foo'' (Some (TContract (mk_var ''Bar''))) ERowsEmpty"

definition enum_record :: nrecord where
  "enum_record = RecordData [(''Bar'', field_of_value (Bool True)),
     (''foo'', Field None (Some (FieldMetadata None (enum_annotation foo_rows label_default) False False Neutral)) [])] attrs_new None"

theorem enum_row_dependency_missed_witness:
  "(\<exists>data' incl' dyns' deps. ft_new (collect_term (RecRecord enum_record [] [] None False)) = RecRecord data' incl' dyns' (Some deps) False
      \<and> map_of (stat_fields deps) ''foo'' = Some (Known {}))
    \<and> ''Bar'' \<in> rec_fields enum_record ([] :: (ident \<times> nmetadata) list)
    \<and> (\<exists>c n. annot_pending_contracts (enum_annotation foo_rows label_default) 0 = Some (Inr [c], n) \<and> ''Bar'' \<in> fvs (ctr_contract c))"
proof -
  have r: "im_wf (record_fields enum_record)" "(''foo'', Field None (Some (FieldMetadata None
      (enum_annotation foo_rows label_default) False False Neutral)) []) \<in> set (record_fields enum_record)"
    "''Bar'' \<in> rec_fields enum_record ([] :: (ident \<times> nmetadata) list)"
    by (simp_all add: enum_record_def im_wf_def rec_fields_def)
  have "''Bar'' \<notin> range gen_ident" by (auto simp: gen_ident_def)
  moreover note missed = enum_row_dependency_missed [OF r(1,2), of "[]" "[]" None False]
  have "\<exists>c n. annot_pending_contracts (enum_annotation foo_rows label_default) 0 = Some (Inr [c], n)
      \<and> fvs (mk_var ''Bar'') - range gen_ident \<subseteq> fvs (ctr_contract c)"
    using missed [THEN conjunct2] by (simp add: foo_rows_def)
  ultimately show ?thesis using missed [THEN conjunct1] r(3) by (auto simp: fvs_simps)
qed

end
