(* ===== verification/Type_Props.thy ===== *)
theory Type_Props
  imports Contract_Scope
begin

text \<open>
  What the contracts of types guarantee: when one is generated, which checks the simplification of a
  static annotation drops, and which it keeps.
\<close>

section \<open>Checks that are dropped\<close>

text \<open>
  A type in positive position whose simplification is \<open>Dyn\<close>: static typing already guarantees what
  its contract would check. A function type always keeps its contract, as its domain is negative.
\<close>

primrec trivial_type :: "'v ntype \<Rightarrow> simplify_vars \<Rightarrow> bool"
and erows_trivial :: "'v enum_rows \<Rightarrow> simplify_vars \<Rightarrow> bool"
and rrows_trivial :: "'v record_rows \<Rightarrow> simplify_vars \<Rightarrow> bool" where
  "trivial_type TDyn sv = True" | "trivial_type TNumber sv = True" | "trivial_type TBool sv = True" | "trivial_type TString sv = True"
| "trivial_type TSymbol sv = True" | "trivial_type TForeignId sv = True"
| "trivial_type (TContract _) sv = False" | "trivial_type (TWildcard _) sv = False" | "trivial_type (TArrow _ _) sv = False"
| "trivial_type (TVar x) sv \<longleftrightarrow> x \<in> type_vars_elide sv"
| "trivial_type (TForall var kind body) sv =
    (case kind of
       TypeVar \<Rightarrow> trivial_type body (sv\<lparr>type_vars_elide := insert var (type_vars_elide sv)\<rparr>)
     | RecordRowsVar ex \<Rightarrow> trivial_type body (sv\<lparr>rrows_vars_elide := (rrows_vars_elide sv)(var \<mapsto> ex)\<rparr>)
     | EnumRowsVar _ \<Rightarrow> False)"
| "trivial_type (TEnum erows) sv = erows_trivial erows sv"
| "trivial_type (TRecord rrows) sv = rrows_trivial rrows sv"
| "trivial_type (TDict ty _) sv = trivial_type ty sv"
| "trivial_type (TArray ty) sv = trivial_type ty sv"
| "erows_trivial ERowsEmpty sv = True" | "erows_trivial (ERowsTailVar _) sv = False"
| "erows_trivial (ERowsExtend _ ty tail) sv \<longleftrightarrow>
    (case map_option trivial_type ty of None \<Rightarrow> True | Some f \<Rightarrow> f sv) \<and> erows_trivial tail sv"
| "rrows_trivial RRowsEmpty sv = True" | "rrows_trivial RRowsTailDyn sv = True"
| "rrows_trivial (RRowsTailVar x) sv \<longleftrightarrow> rrows_vars_elide sv x \<noteq> None"
| "rrows_trivial (RRowsExtend _ ty tail) sv \<longleftrightarrow> trivial_type ty sv \<and> rrows_trivial tail sv"

lemma peek_tail_trivial: "rrows_trivial rrows sv \<Longrightarrow> snd (peek_tail rrows sv)"
  by (induction rrows sv rule: peek_tail.induct) (auto split: prod.splits)

lemma simplify_trivial_iff:
  fixes ty :: nickel_type and erows :: "nickel_value enum_rows" and rrows :: "nickel_value record_rows"
  shows "simplify ty cenv sv Positive n = (ty', cenv', n') \<Longrightarrow> ty' = TDyn \<longleftrightarrow> trivial_type ty sv"
    and "simplify_erows erows cenv sv Positive n = ((erows', b), cenv', n') \<Longrightarrow> b \<longleftrightarrow> erows_trivial erows sv"
    and "simplify_rrows rrows cenv sv Positive flds (snd (peek_tail rrows sv)) n = (rrows', cenv', n') \<Longrightarrow>
      rrows' = RRowsTailDyn \<or> rrows' = RRowsEmpty \<longleftrightarrow> rrows_trivial rrows sv"
proof (induction ty and erows and rrows arbitrary: cenv sv n ty' cenv' n' and cenv sv n erows' b cenv' n'
    and cenv sv flds n rrows' cenv' n' rule: ntype.induct enum_rows.induct record_rows.induct)
  case (TArrow s t)
  then show ?case by (auto split: prod.splits)
next
  case (TForall var kind body)
  then show ?case by (cases kind) (auto split: prod.splits)
next
  case (TEnum erows)
  obtain er b c1 n1 where "simplify_erows erows cenv sv Positive n = ((er, b), c1, n1)" by (metis surj_pair)
  with TEnum.IH [OF this] TEnum.prems show ?case by auto
next
  case (TRecord rrows)
  obtain rr c1 n1 where "simplify_rrows rrows cenv sv Positive (fst (peek_tail rrows sv)) (snd (peek_tail rrows sv)) n = (rr, c1, n1)"
    by (metis surj_pair)
  with TRecord.IH [OF this] TRecord.prems show ?case by (auto simp: case_prod_beta)
next
  case (TDict ty fl)
  obtain t c1 n1 where "simplify ty cenv sv Positive n = (t, c1, n1)" by (metis surj_pair)
  with TDict.IH [OF this] TDict.prems show ?case by auto
next
  case (TArray ty)
  obtain t c1 n1 where "simplify ty cenv sv Positive n = (t, c1, n1)" by (metis surj_pair)
  with TArray.IH [OF this] TArray.prems show ?case by auto
next
  case (ERowsExtend tag ty tail)
  obtain er e c1 n1 where 1: "simplify_erows tail cenv sv Positive n = ((er, e), c1, n1)" by (metis surj_pair)
  show ?case
  proof (cases ty)
    case None
    then show ?thesis using 1 ERowsExtend.IH(2) [OF 1] ERowsExtend.prems by auto
  next
    case (Some t)
    obtain t' c2 n2 where 2: "simplify t c1 sv Positive n1 = (t', c2, n2)" by (metis surj_pair)
    then show ?thesis using 1 2 Some ERowsExtend.IH(1) [OF _ 2] ERowsExtend.IH(2) [OF 1] ERowsExtend.prems by auto
  qed
next
  case (RRowsTailVar x)
  then show ?case by (cases "rrows_vars_elide sv x") (auto simp: simplify_tail_var_def)
next
  case (RRowsExtend x ty tail)
  obtain t c1 n1 where 1: "simplify ty cenv sv Positive n = (t, c1, n1)" by (metis surj_pair)
  obtain r c2 n2 where 2: "simplify_rrows tail c1 sv Positive flds (snd (peek_tail tail sv)) n1 = (r, c2, n2)" by (metis surj_pair)
  have "snd (peek_tail (RRowsExtend x ty tail) sv) = snd (peek_tail tail sv)" by (simp add: case_prod_beta)
  then have "rrows' = (if t = TDyn \<and> snd (peek_tail tail sv) then r else RRowsExtend x t r)"
    using 1 2 RRowsExtend.prems by simp
  then show ?case using RRowsExtend.IH(1) [OF 1] RRowsExtend.IH(2) [OF 2] peek_tail_trivial [of tail sv] by auto
qed (auto split: if_splits)

lemma simplify_trivial:
  fixes ty :: nickel_type and erows :: "nickel_value enum_rows" and rrows :: "nickel_value record_rows"
  shows "trivial_type ty sv \<Longrightarrow> simplify ty cenv sv Positive n = (TDyn, cenv, n)"
    and "erows_trivial erows sv \<Longrightarrow> \<exists>er'. simplify_erows erows cenv sv Positive n = ((er', True), cenv, n)"
    and "rrows_trivial rrows sv \<Longrightarrow> simplify_rrows rrows cenv sv Positive flds True n = (RRowsTailDyn, cenv, n)"
proof (induction ty and erows and rrows arbitrary: cenv sv n and cenv sv n and cenv sv flds n
    rule: ntype.induct enum_rows.induct record_rows.induct)
  case (TForall var kind body)
  then show ?case by (cases kind) auto
next
  case (TEnum erows)
  then obtain er' where "simplify_erows erows cenv sv Positive n = ((er', True), cenv, n)" by fastforce
  then show ?case by simp
next
  case (TRecord rrows)
  then show ?case using peek_tail_trivial [of rrows sv] by (cases "peek_tail rrows sv") simp
next
  case (ERowsExtend tag ty tail)
  then obtain er' where "simplify_erows tail cenv sv Positive n = ((er', True), cenv, n)" by fastforce
  then show ?case using ERowsExtend by (cases ty) auto
next
  case (RRowsTailVar x)
  then show ?case by (auto simp: simplify_tail_var_def)
qed auto

section \<open>Checks that are kept\<close>

primrec arrow_free :: "'v ntype \<Rightarrow> bool"
and erows_arrow_free :: "'v enum_rows \<Rightarrow> bool"
and rrows_arrow_free :: "'v record_rows \<Rightarrow> bool" where
  "arrow_free TDyn = True" | "arrow_free TNumber = True" | "arrow_free TBool = True" | "arrow_free TString = True"
| "arrow_free TSymbol = True" | "arrow_free TForeignId = True" | "arrow_free (TContract _) = True"
| "arrow_free (TWildcard _) = True" | "arrow_free (TVar _) = True"
| "arrow_free (TArrow _ _) = False"
| "arrow_free (TForall _ _ body) = arrow_free body"
| "arrow_free (TEnum erows) = erows_arrow_free erows"
| "arrow_free (TRecord rrows) = rrows_arrow_free rrows"
| "arrow_free (TDict ty _) = arrow_free ty"
| "arrow_free (TArray ty) = arrow_free ty"
| "erows_arrow_free ERowsEmpty = True" | "erows_arrow_free (ERowsTailVar _) = True"
| "erows_arrow_free (ERowsExtend _ ty tail) \<longleftrightarrow> (case map_option arrow_free ty of None \<Rightarrow> True | Some b \<Rightarrow> b) \<and> erows_arrow_free tail"
| "rrows_arrow_free RRowsEmpty = True" | "rrows_arrow_free RRowsTailDyn = True" | "rrows_arrow_free (RRowsTailVar _) = True"
| "rrows_arrow_free (RRowsExtend _ ty tail) \<longleftrightarrow> arrow_free ty \<and> rrows_arrow_free tail"

text \<open>The type variables that occur in a type, bound in it or not.\<close>

primrec type_var_uses :: "'v ntype \<Rightarrow> ident set"
and erows_var_uses :: "'v enum_rows \<Rightarrow> ident set"
and rrows_var_uses :: "'v record_rows \<Rightarrow> ident set" where
  "type_var_uses TDyn = {}" | "type_var_uses TNumber = {}" | "type_var_uses TBool = {}" | "type_var_uses TString = {}"
| "type_var_uses TSymbol = {}" | "type_var_uses TForeignId = {}" | "type_var_uses (TContract _) = {}"
| "type_var_uses (TWildcard _) = {}"
| "type_var_uses (TVar x) = {x}"
| "type_var_uses (TArrow s t) = type_var_uses s \<union> type_var_uses t"
| "type_var_uses (TForall _ _ body) = type_var_uses body"
| "type_var_uses (TEnum erows) = erows_var_uses erows"
| "type_var_uses (TRecord rrows) = rrows_var_uses rrows"
| "type_var_uses (TDict ty _) = type_var_uses ty"
| "type_var_uses (TArray ty) = type_var_uses ty"
| "erows_var_uses ERowsEmpty = {}" | "erows_var_uses (ERowsTailVar _) = {}"
| "erows_var_uses (ERowsExtend _ ty tail) = (case map_option type_var_uses ty of None \<Rightarrow> {} | Some xs \<Rightarrow> xs) \<union> erows_var_uses tail"
| "rrows_var_uses RRowsEmpty = {}" | "rrows_var_uses RRowsTailDyn = {}" | "rrows_var_uses (RRowsTailVar _) = {}"
| "rrows_var_uses (RRowsExtend _ ty tail) = type_var_uses ty \<union> rrows_var_uses tail"

lemma simplify_kept:
  fixes ty :: nickel_type and erows :: "nickel_value enum_rows" and rrows :: "nickel_value record_rows"
  assumes "rrows_vars_elide sv = Map.empty"
  shows "arrow_free ty \<Longrightarrow> type_var_uses ty \<inter> type_vars_elide sv = {} \<Longrightarrow> simplify ty cenv sv Negative n = (ty, cenv, n)"
    and "erows_arrow_free erows \<Longrightarrow> erows_var_uses erows \<inter> type_vars_elide sv = {} \<Longrightarrow>
      \<exists>b. simplify_erows erows cenv sv Negative n = ((erows, b), cenv, n)"
    and "rrows_arrow_free rrows \<Longrightarrow> rrows_var_uses rrows \<inter> type_vars_elide sv = {} \<Longrightarrow>
      simplify_rrows rrows cenv sv Negative flds ce n = (rrows, cenv, n)"
proof (induction ty and erows and rrows arbitrary: cenv n and cenv n and cenv flds ce n
    rule: ntype.induct enum_rows.induct record_rows.induct)
  case (TForall var kind body)
  then show ?case by (cases kind) simp_all
next
  case (TEnum erows)
  then obtain b where "simplify_erows erows cenv sv Negative n = ((erows, b), cenv, n)" by fastforce
  then show ?case by simp
next
  case (ERowsExtend tag ty tail)
  then obtain b where "simplify_erows tail cenv sv Negative n = ((tail, b), cenv, n)" by (fastforce simp: Int_Un_distrib2)
  then show ?case using ERowsExtend by (cases ty) (auto simp: Int_Un_distrib2)
next
  case (RRowsExtend x ty tail)
  then show ?case by (simp add: Int_Un_distrib2)
qed (auto simp: simplify_tail_var_def assms split: prod.splits)

lemma simplify_negative:
  "arrow_free ty \<Longrightarrow> simplify ty cenv simplify_vars_new Negative n = (ty, cenv, n)"
  by (rule simplify_kept(1)) (simp_all add: simplify_vars_new_def)

lemma simplify_elides:
  fixes ty :: nickel_type and erows :: "nickel_value enum_rows" and rrows :: "nickel_value record_rows"
  shows "x \<in> type_vars_elide sv \<Longrightarrow> x \<notin> type_var_uses (fst (simplify ty cenv sv pol n))"
    and "x \<in> type_vars_elide sv \<Longrightarrow> x \<notin> erows_var_uses (fst (fst (simplify_erows erows cenv sv pol n)))"
    and "x \<in> type_vars_elide sv \<Longrightarrow> x \<notin> rrows_var_uses (fst (simplify_rrows rrows cenv sv pol flds ce n))"
proof (induction ty and erows and rrows arbitrary: cenv sv pol n and cenv sv pol n and cenv sv pol flds ce n
    rule: ntype.induct enum_rows.induct record_rows.induct)
  case (TForall var kind body)
  then show ?case by (cases kind; cases pol) (simp_all add: split_def Let_def)
next
  case (ERowsExtend tag ty tail)
  then show ?case by (cases ty) (simp_all add: split_def Let_def)
next
  case (TVar y)
  then show ?case by auto
next
  case (RRowsTailVar y)
  then show ?case by (simp add: simplify_tail_var_def Let_def split: option.split polarity.split)
qed (simp_all add: split_def Let_def)

section \<open>Properties\<close>

text \<open>
  C18. The contract of a type is generated without a panic, and there is an error exactly when a
  variable of the type is not bound by one of its quantifiers: then the error names such a variable.
\<close>

theorem type_contract_error_iff_unbound:
  assumes "generable ty"
  shows "(tvars ty = {} \<and> (\<exists>c n'. type_contract ty n = Some (Inr c, n'))) \<or>
    (\<exists>x \<in> tvars ty. \<exists>n'. type_contract ty n = Some (Inl x, n'))"
proof -
  obtain r n' where "type_contract ty n = Some (r, n')" "case r of Inl x \<Rightarrow> x \<in> tvars ty | Inr _ \<Rightarrow> tvars ty = {}"
    using type_contract_spec [OF assms] by blast
  then show ?thesis by (cases r) auto
qed

theorem type_contract_error_iff_unbound_witness:
  "generable (TArrow (TVar ''a'') TNumber) \<and> (\<exists>n'. type_contract (TArrow (TVar ''a'') TNumber) 0 = Some (Inl ''a'', n'))"
  using type_contract_error_iff_unbound [of "TArrow (TVar ''a'') TNumber" 0] by (simp add: generable_def i32_max_def)

text \<open>
  C9. The contract of a static annotation exists for every well-scoped type, and its free variables
  are those of the contracts inside the type, besides the internals of the standard library: neither
  the simplification nor the identifiers generated for enum rows leave a variable unbound.
\<close>

theorem static_contract_well_scoped:
  assumes "generable ty" and "well_scoped ty Map.empty"
  shows "\<exists>c n'. contract_static ty n = Some (Inr c, n') \<and> n \<le> n' \<and> fvs c \<subseteq> type_fvs ty \<union> internals"
  using contract_static_returns [OF assms(1), of n] contract_static_post [of ty n] assms(2)
  by (fastforce simp: gen_post_def)

definition enum_of_contract :: nickel_type where
  "enum_of_contract = TForall ''a'' TypeVar (TArrow (TVar ''a'') (TEnum (ERowsExtend ''Foo'' (Some (TContract (mk_var ''Bar''))) ERowsEmpty)))"

theorem static_contract_well_scoped_witness:
  "\<exists>c n'. contract_static enum_of_contract 0 = Some (Inr c, n') \<and> fvs c \<subseteq> {''Bar''} \<union> internals"
proof -
  have "generable enum_of_contract" "well_scoped enum_of_contract Map.empty"
    by (simp_all add: generable_def i32_max_def enum_of_contract_def)
  moreover have "type_fvs enum_of_contract = {''Bar''}" by (auto simp: enum_of_contract_def type_fvs_def mk_var_def)
  ultimately show ?thesis using static_contract_well_scoped [of enum_of_contract 0] by auto
qed

text \<open>
  C16. A static annotation costs nothing exactly when the simplified type is \<open>Dyn\<close>, which happens
  exactly when it has no function type, no contract, no wildcard, no enum row variable and no
  variable but those quantified in positive position.
\<close>

theorem static_contract_trivial_iff:
  "(\<exists>cenv n'. simplify ty Map.empty simplify_vars_new Positive n = (TDyn, cenv, n')) \<longleftrightarrow> trivial_type ty simplify_vars_new"
proof -
  obtain ty' cenv n' where s: "simplify ty Map.empty simplify_vars_new Positive n = (ty', cenv, n')" by (metis surj_pair)
  from simplify_trivial_iff(1) [OF s] s show ?thesis by auto
qed

text \<open>
  C17. The static contract of a function whose domain has no function type checks the domain, unchanged, and
  elides a codomain that static typing guarantees: it is the contract of the type \<open>s \<rightarrow> Dyn\<close>.
\<close>

theorem static_function_contract:
  assumes "arrow_free s" and "trivial_type t simplify_vars_new"
  shows "contract_static (TArrow s t) n = type_contract (TArrow s TDyn) n"
  using simplify_negative [OF assms(1)] simplify_trivial(1) [OF assms(2)] by (simp add: contract_static_def type_contract_def)

theorem static_function_contract_witness:
  "contract_static (TArrow (TArray TString) (TRecord (RRowsExtend ''x'' TNumber RRowsEmpty))) 0 =
    Some (Inr (CustomContract (mk_app (internal ''func_dom'') (CustomContract (mk_app (internal ''array'') (CustomContract (internal ''string'')))))), 0)"
  using static_function_contract [of "TArray TString" "TRecord (RRowsExtend ''x'' TNumber RRowsEmpty)" 0]
  by (simp add: type_contract_def gen_of_ctr_def ctr_bind_def ctr_ok_def custom_contract_def)

text \<open>
  C38. Simplification does not respect the renaming of bound variables. For all types \<open>s\<close> and \<open>t\<close>, in the simplified form of
  \<open>forall x. (forall x. s) -> t\<close> the domain keeps its quantifier and loses every use of its variable, although quantifiers in negative
  position are documented to be left unchanged. With another name \<open>y\<close> for the inner variable, and a domain \<open>s\<close> without
  function types that does not use \<open>x\<close>, the domain is indeed left unchanged.
\<close>

theorem simplify_ignores_shadowing:
  "(\<exists>s' t'. fst (simplify (TForall x TypeVar (TArrow (TForall x TypeVar s) t)) cenv sv Positive n) = TArrow (TForall x TypeVar s') t'
      \<and> x \<notin> type_var_uses s')
    \<and> (arrow_free u \<and> x \<notin> type_var_uses u \<longrightarrow>
      (\<exists>t'. fst (simplify (TForall x TypeVar (TArrow (TForall y TypeVar u) t)) cenv simplify_vars_new Positive n) = TArrow (TForall y TypeVar u) t'))"
proof -
  have "x \<notin> type_var_uses (fst (simplify s cenv (sv\<lparr>type_vars_elide := insert x (type_vars_elide sv)\<rparr>) Negative n))"
    by (rule simplify_elides) simp
  moreover have "simplify u cenv (simplify_vars_new\<lparr>type_vars_elide := insert x (type_vars_elide simplify_vars_new)\<rparr>) Negative n = (u, cenv, n)"
    if "arrow_free u" "x \<notin> type_var_uses u"
    using that by (intro simplify_kept) (simp_all add: simplify_vars_new_def)
  ultimately show ?thesis by (auto simp: split_def Let_def)
qed

text \<open>\<open>forall a. (forall a. Array a) -> a\<close> and \<open>forall a. (forall b. Array b) -> a\<close>: only the second keeps its domain.\<close>

theorem simplify_ignores_shadowing_witness:
  "(\<exists>s' t'. fst (simplify (TForall ''a'' TypeVar (TArrow (TForall ''a'' TypeVar (TArray (TVar ''a''))) (TVar ''a'')))
      Map.empty simplify_vars_new Positive 0) = TArrow (TForall ''a'' TypeVar s') t' \<and> s' \<noteq> TArray (TVar ''a''))
    \<and> (\<exists>t'. fst (simplify (TForall ''a'' TypeVar (TArrow (TForall ''b'' TypeVar (TArray (TVar ''b''))) (TVar ''a'')))
      Map.empty simplify_vars_new Positive 0) = TArrow (TForall ''b'' TypeVar (TArray (TVar ''b''))) t')"
proof -
  note shadow = simplify_ignores_shadowing [of "''a''" "TArray (TVar ''a'')" "TVar ''a''" Map.empty simplify_vars_new 0
      "TArray (TVar ''b'')" "''b''"]
  obtain s' t' where "fst (simplify (TForall ''a'' TypeVar (TArrow (TForall ''a'' TypeVar (TArray (TVar ''a''))) (TVar ''a'')))
      Map.empty simplify_vars_new Positive 0) = TArrow (TForall ''a'' TypeVar s') t'" "''a'' \<notin> type_var_uses s'"
    using shadow by blast
  moreover have "s' \<noteq> TArray (TVar ''a'')" using calculation(2) by auto
  moreover have "arrow_free (TArray (TVar ''b''))" "''a'' \<notin> type_var_uses (TArray (TVar ''b''))" by simp_all
  ultimately show ?thesis using shadow by blast
qed

end
