(* ===== verification/Pattern_Props.thy ===== *)
theory Pattern_Props
  imports Contract_Scope
begin

text \<open>
  What the compilation of patterns guarantees: it does not panic, and it respects the scope of
  variables, with the exceptions shown at the end.
\<close>

section \<open>Compilation returns\<close>

definition total_on :: "compiler \<Rightarrow> ident set \<Rightarrow> bool" where
  "total_on c X \<longleftrightarrow> (\<forall>v m f bs n. X \<subseteq> fst ` set bs \<longrightarrow> (\<exists>out n'. c v m f bs n = Some (out, n')))"

lemma total_onD: "total_on c X \<Longrightarrow> X \<subseteq> fst ` set bs \<Longrightarrow> \<exists>out n'. c v m f bs n = Some (out, n')"
  by (simp add: total_on_def)

lemma total_on_lookup: "x \<in> fst ` set bs \<Longrightarrow> \<exists>x'. map_of bs x = Some x'"
  by (metis dom_map_of_conv_image_fst domD)

lemma bind_pair_returns:
  "\<exists>a b. r = Some (a, b) \<Longrightarrow> (\<And>a b. \<exists>c d. k a b = Some (c, d)) \<Longrightarrow> \<exists>c d. Option.bind r (\<lambda>(a, b). k a b) = Some (c, d)"
  by auto

text \<open>The annotations and the types whose contracts the generator of pending contracts produces.\<close>

definition pending_ok :: "nannotation \<Rightarrow> bool" where
  "pending_ok annot \<longleftrightarrow> list_all (\<lambda>lt. generable (lt_typ lt) \<and> tvars (lt_typ lt) = {}) (annot_contracts annot)"

primrec pattern_ready :: "pattern \<Rightarrow> bool"
and data_ready :: "pattern_data \<Rightarrow> bool"
and field_ready :: "field_pattern \<Rightarrow> bool" where
  "pattern_ready (Pattern data alias) = data_ready data"
| "data_ready PWildcard = True"
| "data_ready (PAny x) = True"
| "data_ready (PRecord fps tail) = list_all id (map field_ready fps)"
| "data_ready (PArray ps tail) = list_all id (map pattern_ready ps)"
| "data_ready (PEnum tag p) = (case map_option pattern_ready p of None \<Rightarrow> True | Some b \<Rightarrow> b)"
| "data_ready (PConstant c) = True"
| "data_ready (POr ps) = list_all id (map pattern_ready ps)"
| "field_ready (FieldPattern x annot dflt p) = (pending_ok annot \<and> pattern_ready p)"

definition gen_succeeds :: "'a gen_result \<Rightarrow> bool" where
  "gen_succeeds r \<longleftrightarrow> (\<exists>v n. r = Some (Inr v, n))"

lemma gen_succeeds_bind: "gen_succeeds r \<Longrightarrow> (\<And>v n. gen_succeeds (k v n)) \<Longrightarrow> gen_succeeds (gen_bind r k)"
  by (auto simp: gen_succeeds_def gen_bind_def)

lemma gen_succeeds_ok [simp]: "gen_succeeds (Some (Inr v, n))"
  by (simp add: gen_succeeds_def)

lemma gen_list_succeeds: "(\<And>x n. x \<in> set xs \<Longrightarrow> gen_succeeds (f x n)) \<Longrightarrow> gen_succeeds (gen_list f xs n)"
  by (induction xs arbitrary: n) (auto intro!: gen_succeeds_bind)

lemma pending_succeeds: "pending_ok annot \<Longrightarrow> gen_succeeds (annot_pending_contracts annot n)"
  unfolding annot_pending_contracts_def
proof (rule gen_list_succeeds)
  fix lt n assume "pending_ok annot" "lt \<in> set (annot_contracts annot)"
  then have "gen_succeeds (type_contract (lt_typ lt) n)"
  proof -
    have "generable (lt_typ lt)" "tvars (lt_typ lt) = {}" using \<open>pending_ok annot\<close> \<open>lt \<in> _\<close> by (auto simp: pending_ok_def list_all_iff)
    with type_contract_spec [of "lt_typ lt" n] obtain r n' where "type_contract (lt_typ lt) n = Some (r, n')" "\<forall>x. r \<noteq> Inl x"
      by (fastforce split: sum.splits)
    then show ?thesis by (cases r) (auto simp: gen_succeeds_def)
  qed
  then show "gen_succeeds (from_type lt n)" unfolding from_type_def by (rule gen_succeeds_bind) simp
qed

lemma update_with_merge_returns:
  assumes "case field_metadata fld of None \<Rightarrow> True | Some m \<Rightarrow> pending_ok (fm_annotation m) \<and> field_value fld = None"
  shows "\<exists>t n'. update_with_merge gen_pending r x fld n = Some (t, n')"
proof -
  have "gen_succeeds (with_pending_contracts fld n)" for n unfolding with_pending_contracts_def
    using assms pending_succeeds
    by (intro gen_succeeds_bind) (auto split: option.splits bind_splits)
  then have "gen_succeeds (attach_to_fields (im_from_iter [(x, fld)]) n)" unfolding attach_to_fields_def
    by (intro gen_succeeds_bind gen_list_succeeds) (auto simp: im_from_iter_def im_extend_def im_insert_def intro!: gen_succeeds_bind)
  then have "gen_succeeds (transform_one (record_posless (RecordData (im_from_iter [(x, fld)]) attrs_new None)) n)"
    unfolding record_posless_def by (auto simp: transform_one_def intro!: gen_succeeds_bind)
  then show ?thesis by (auto simp: update_with_merge_def gen_pending_def gen_succeeds_def)
qed

lemma with_defaults_returns: "\<exists>t n'. with_defaults gen_pending fps r cont n = Some (t, n')"
proof (induction fps arbitrary: cont n)
  case (Cons fp fps)
  have "\<exists>t n'. with_default_value gen_pending r (fp_matched_id fp) d n = Some (t, n')" for d
    using update_with_merge_returns [of "field_of_value d" r "fp_matched_id fp" n]
    by (auto simp: with_default_value_def Let_def field_of_value_def)
  then show ?case using Cons by (cases "fp_default fp") (auto intro!: bind_pair_returns)
qed simp

lemma with_binding_returns: "set_option x \<subseteq> fst ` set bs \<Longrightarrow> \<exists>m1. with_binding x bs t m = Some m1"
  using total_on_lookup [of "the x" bs] by (cases x) (auto simp: with_binding_def)

lemma fold_total:
  assumes "list_all2 total_on cs Xs"
  shows "total_on (fold_fields cs) (\<Union> (set Xs))" "total_on (fold_elems cs idx) (\<Union> (set Xs))" "total_on (fold_or cs) (\<Union> (set Xs))"
  using assms
proof (induction cs Xs arbitrary: idx rule: list_all2_induct)
  case (Cons c cs X Xs)
  have IH: "\<exists>out n'. fold_fields cs v m f bs n = Some (out, n')" "\<exists>out n'. fold_elems cs i v m f bs n = Some (out, n')"
      "\<exists>out n'. fold_or cs v m f bs n = Some (out, n')" "\<exists>out n'. c v m f bs n = Some (out, n')"
    if "\<Union> (set (X # Xs)) \<subseteq> fst ` set bs" for v m f bs n i
    using that total_onD [OF Cons.IH(1)] total_onD [OF Cons.IH(2)] total_onD [OF Cons.IH(3)] total_onD [OF Cons.hyps(1)] by simp_all
  { case 1 show ?case by (auto simp: total_on_def intro!: bind_pair_returns IH [simplified])
  next
    case 2 show ?case by (auto simp: total_on_def Let_def intro!: bind_pair_returns IH [simplified])
  next
    case 3 show ?case by (auto simp: total_on_def intro!: bind_pair_returns IH [simplified]) }
qed (auto simp: total_on_def)

lemma part_total:
  "pattern_ready p \<Longrightarrow> total_on (compile_part gen_pending p) (set (pattern_bindings p))"
  "data_ready d \<Longrightarrow> total_on (compile_data gen_pending d) (set (data_bindings d))"
  "field_ready fp \<Longrightarrow> total_on (compile_field gen_pending fp) (set (field_bindings fp))"
proof (induction p and d and fp rule: pattern.induct pattern_data.induct field_pattern.induct)
  case (Pattern d ali)
  show ?case unfolding total_on_def
  proof (intro allI impI)
    fix v m f and bs :: pat_bindings and n assume b: "set (pattern_bindings (Pattern d ali)) \<subseteq> fst ` set bs"
    then obtain m1 where "with_binding ali bs (mk_var v) m = Some m1" using with_binding_returns by fastforce
    then show "\<exists>out n'. compile_part gen_pending (Pattern d ali) v m f bs n = Some (out, n')"
      using total_onD [of "compile_data gen_pending d" _ bs v m1 f n] Pattern b by (simp add: compile_alias_run)
  qed
next
  case (PAny x)
  then show ?case using total_on_lookup by (fastforce simp: total_on_def compile_any_def)
next
  case (PRecord fps tail)
  then have "list_all2 total_on (map (compile_field gen_pending) fps) (map (\<lambda>fp. set (field_bindings fp)) fps)"
    by (auto simp: list_all2_conv_all_nth list_all_iff)
  note fold = fold_total(1) [OF this]
  show ?case unfolding total_on_def
  proof (intro allI impI)
    fix v m f and bs :: pat_bindings and n assume b: "set (data_bindings (PRecord fps tail)) \<subseteq> fst ` set bs"
    then obtain m1 where "with_binding (tail_capture tail) bs (record_tail_value fps (gen_ident n)) m = Some m1"
      using with_binding_returns by fastforce
    moreover obtain o1 n1 where "fold_fields (map (compile_field gen_pending) fps) (gen_ident n) m1 f bs (Suc n) = Some (o1, n1)"
      using total_onD [OF fold, of bs] b by fastforce
    ultimately show "\<exists>out n'. compile_data gen_pending (PRecord fps tail) v m f bs n = Some (out, n')"
      by (auto simp: compile_record_def tail_binding Let_def intro!: bind_pair_returns with_defaults_returns)
  qed
next
  case (PArray ps tail)
  then have "list_all2 total_on (map (compile_part gen_pending) ps) (map (\<lambda>p. set (pattern_bindings p)) ps)"
    by (auto simp: list_all2_conv_all_nth list_all_iff)
  note fold = fold_total(2) [OF this]
  show ?case unfolding total_on_def
  proof (intro allI impI)
    fix v m f and bs :: pat_bindings and n assume b: "set (data_bindings (PArray ps tail)) \<subseteq> fst ` set bs"
    then obtain m1 where "with_binding (tail_capture tail) bs (mk_opn ArraySlice [Number (of_nat (length ps)), mk_var (gen_ident n), mk_var v]) m = Some m1"
      using with_binding_returns by fastforce
    moreover obtain o1 n1 where "fold_elems (map (compile_part gen_pending) ps) 0 v m1 f bs (Suc n) = Some (o1, n1)"
      using total_onD [OF fold, of bs] b by fastforce
    ultimately show "\<exists>out n'. compile_data gen_pending (PArray ps tail) v m f bs n = Some (out, n')"
      by (simp add: compile_array_def tail_binding Let_def)
  qed
next
  case (PEnum tag p)
  show ?case
  proof (cases p)
    case (Some q)
    then have "total_on (compile_part gen_pending q) (set (pattern_bindings q))" using PEnum by simp
    then show ?thesis unfolding Some by (auto simp: total_on_def compile_enum_def Let_def intro!: bind_pair_returns)
  qed (simp add: total_on_def compile_enum_def Let_def)
next
  case (POr ps)
  then have "list_all2 total_on (map (compile_part gen_pending) ps) (map (\<lambda>p. set (pattern_bindings p)) ps)"
    by (auto simp: list_all2_conv_all_nth list_all_iff)
  from fold_total(3) [OF this] show ?case by simp
next
  case (FieldPattern x annot dflt p)
  have "\<exists>t n'. update_with_merge gen_pending r x (field_of_metadata (FieldMetadata None annot False False Neutral)) n = Some (t, n')" for r n
    using FieldPattern.prems by (intro update_with_merge_returns)
      (auto simp: field_of_metadata_def field_of_shared_def shared_of_metadata_def split: if_splits option.split)
  moreover have "\<exists>o1 n1. compile_part gen_pending p (gen_ident n) m f bs (Suc n) = Some (o1, n1)"
    if "set (pattern_bindings p) \<subseteq> fst ` set bs" for m f bs n
    using FieldPattern total_onD that by fastforce
  ultimately show ?case unfolding total_on_def compile_field.simps compile_field_part_def Let_def
    by (auto intro!: bind_pair_returns)
qed (auto simp: total_on_def)

lemma fresh_part_returns:
  assumes "pattern_ready p" "fresh_bindings (pattern_bindings p) k = (bs, n)"
  shows "\<exists>out n'. compile_part gen_pending p v m f bs n = Some (out, n')"
  using total_onD [OF part_total(1) [OF assms(1)]] fresh_bindings_scope(2) [OF assms(2)] by simp

lemma branches_return:
  "\<forall>br \<in> set brs. pattern_ready (branch_pattern br) \<Longrightarrow> \<exists>out n'. compile_branches gen_pending brs v err n = Some (out, n')"
proof (induction brs)
  case (Cons br brs)
  then show ?case using fresh_part_returns [of "branch_pattern br"]
    by (auto simp: Let_def intro!: bind_pair_returns split: prod.splits)
qed simp

lemma match_returns:
  assumes "\<forall>br \<in> set brs. pattern_ready (branch_pattern br)"
  shows "\<exists>out n'. match_term brs value n = Some (out, n')"
  using branches_return [OF assms, of "gen_ident n" "TermV (RuntimeError (NonExhaustiveMatchError value))" "Suc n"]
  by (auto simp: match_term_def compile_match_def Let_def split: prod.split option.split)

lemma let_returns:
  assumes "\<forall>(p, rhs) \<in> set prs. pattern_ready p"
  shows "\<exists>t n'. let_pattern_term prs body is_rec n = Some (t, n')"
proof -
  have "\<exists>r n'. let_pattern_loop gen_pending prs n = Some (r, n')" using assms
  proof (induction prs arbitrary: n)
    case (Cons pr prs)
    obtain p rhs where pr: "pr = (p, rhs)" by (cases pr)
    obtain bs n1 where bs: "fresh_bindings (pattern_bindings p) (Suc (Suc n)) = (bs, n1)" by (metis surj_pair)
    obtain mid n2 where "compile_part gen_pending p (gen_ident n)
        (record_posless (RecordData (im_from_iter (map (\<lambda>(x, x'). (x, field_of_value (mk_var x'))) bs)) attrs_new None))
        (TermV (RuntimeError (FailedDestructuringError rhs))) bs n1 = Some (mid, n2)"
      using fresh_part_returns [OF _ bs] Cons.prems pr by fastforce
    moreover obtain r n3 where "let_pattern_loop gen_pending prs n2 = Some (r, n3)" using Cons.IH [of n2] Cons.prems by auto
    ultimately show ?case using bs by (cases r) (simp add: pr Let_def)
  qed simp
  then show ?thesis by (auto simp: let_pattern_term_def compile_let_pattern_def Let_def)
qed

section \<open>Properties\<close>

text \<open>
  C5. When the annotations in the patterns have a contract, the alternatives of or-patterns bind the same variables and, if
  all branches are tags and wildcards, no pattern has an alias, a match expression compiles without a panic, and every free
  variable of the compiled term is one of the matched value, one of a branch outside of the variables its pattern
  binds, or an internal of the standard library. (The inclusion can be strict: see \<open>failed_guard_captures\<close>.)
\<close>

theorem match_compiles_well_scoped:
  assumes "\<forall>br \<in> set brs. pattern_ready (branch_pattern br) \<and> or_ok (branch_pattern br)"
    and "list_all is_tag_or_wildcard brs \<longrightarrow> (\<forall>br \<in> set brs. pat_alias (branch_pattern br) = None)"
  shows "\<exists>out n'. match_term brs v n = Some (out, n') \<and> n \<le> n' \<and>
    fvs out \<subseteq> fvs v \<union> (\<Union>br \<in> set brs. branch_fvs br) \<union> internals"
proof -
  obtain out n' where out: "match_term brs v n = Some (out, n')" using match_returns assms(1) by blast
  then have "compile_match gen_pending brs v n = Some (out, n')" by (simp add: match_term_def)
  moreover have "\<forall>br \<in> set brs. or_ok (branch_pattern br)" using assms(1) by blast
  ultimately have "n \<le> n'" "fvs out \<subseteq> fvs v \<union> (\<Union>br \<in> set brs. branch_fvs br) \<union> internals"
    by (rule gp.match_scope; use assms(2) in simp)+
  with out show ?thesis by (intro exI conjI)
qed

definition sample_branches :: "match_branch list" where
  "sample_branches = [MatchBranch (Pattern (PArray [Pattern (PAny ''x'') None] (TailCapture ''rest'')) None) None
     (mk_app (mk_var ''x'') (mk_app (mk_var ''rest'') (mk_var ''y'')))]"

theorem match_compiles_well_scoped_witness:
  "\<exists>out n'. match_term sample_branches (mk_var ''v'') 0 = Some (out, n') \<and> fvs out \<subseteq> {''v'', ''y''} \<union> internals"
proof -
  have "(\<Union>br \<in> set sample_branches. branch_fvs br) = {''y''}" "fvs (mk_var ''v'') = {''v''}"
    by (auto simp: sample_branches_def branch_fvs_def tail_capture_def alias_ids_def tail_ids_def fvs_simps)
  moreover have "\<forall>br \<in> set sample_branches. pattern_ready (branch_pattern br) \<and> or_ok (branch_pattern br)"
    "\<not> list_all is_tag_or_wildcard sample_branches" by (simp_all add: sample_branches_def is_tag_or_wildcard_def)
  ultimately have "\<exists>out n'. match_term sample_branches (mk_var ''v'') 0 = Some (out, n') \<and> 0 \<le> n' \<and>
      fvs out \<subseteq> {''v''} \<union> {''y''} \<union> internals"
    using match_compiles_well_scoped [of sample_branches "mk_var ''v''" 0] by (simp only: simp_thms)
  then show ?thesis by (simp only: insert_is_Un [of _ "{''y''}"]) blast
qed

text \<open>
  C10. A destructuring \<open>let\<close> compiles without a panic and binds in its body exactly the variables of its
  patterns: every other variable of the body stays free, as no generated identifier occurs in it, and
  no other variable becomes free.
\<close>

theorem let_pattern_binds_exactly:
  assumes "\<forall>(p, rhs) \<in> set prs. pattern_ready p \<and> or_ok p" and "\<forall>k \<ge> n. gen_ident k \<notin> fvs body"
  shows "\<exists>t n'. let_pattern_term prs body False n = Some (t, n') \<and>
    fvs body - (\<Union>(p, rhs) \<in> set prs. set (pattern_bindings p)) \<subseteq> fvs_term t \<and>
    fvs_term t \<subseteq> (fvs body - (\<Union>(p, rhs) \<in> set prs. set (pattern_bindings p)))
      \<union> (\<Union>(p, rhs) \<in> set prs. fvs rhs \<union> pattern_fvs p) \<union> internals"
proof -
  obtain t n' where t: "let_pattern_term prs body False n = Some (t, n')" using let_returns [of prs] assms(1) by blast
  then have c: "compile_let_pattern gen_pending prs body False n = Some (t, n')" by (simp add: let_pattern_term_def)
  have ok: "\<forall>(p, rhs) \<in> set prs. or_ok p" using assms(1) by blast
  have b: "below n (fvs body)" using assms(2) by (simp add: below_def)
  have X: "(\<Union>(p, rhs) \<in> set prs. set (pattern_bindings p)) = (\<Union>pr \<in> set prs. set (pattern_bindings (fst pr)))"
    "(\<Union>(p, rhs) \<in> set prs. fvs rhs \<union> pattern_fvs p) = (\<Union>pr \<in> set prs. fvs (snd pr)) \<union> (\<Union>pr \<in> set prs. pattern_fvs (fst pr))"
    by auto
  from gp.let_pattern_scope [OF c ok] b t show ?thesis unfolding X by auto
qed

theorem let_pattern_binds_exactly_witness:
  "\<exists>t n'. let_pattern_term [(Pattern (PArray [Pattern (PAny ''x'') None] TailOpen) (Some ''z''), mk_var ''v'')]
     (mk_app (mk_var ''x'') (mk_app (mk_var ''y'') (mk_var ''z''))) False 0 = Some (t, n') \<and>
     ''y'' \<in> fvs_term t \<and> fvs_term t \<subseteq> {''y'', ''v''} \<union> internals"
  using let_pattern_binds_exactly [of "[(Pattern (PArray [Pattern (PAny ''x'') None] TailOpen) (Some ''z''), mk_var ''v'')]" 0
    "mk_app (mk_var ''x'') (mk_app (mk_var ''y'') (mk_var ''z''))"]
  by (simp add: fvs_simps gen_ident_def alias_ids_def tail_ids_def) blast

text \<open>
  C39. When the guard of a branch fails, the next branches are evaluated under the variables of that
  branch. For every match whose first branch is a variable \<open>x\<close> with a guard, the code of all other branches
  stands inside the \<open>let\<close> that binds \<open>x\<close>: the compiled match has no free \<open>x\<close> but those of the matched value, whatever the
  other branches use.
\<close>

theorem failed_guard_captures:
  assumes "match_term (MatchBranch (Pattern (PAny x) None) (Some guard) body # brs) v n = Some (out, n')"
  shows "(\<exists>others m. compile_branches gen_pending brs (gen_ident n) (TermV (RuntimeError (NonExhaustiveMatchError v))) (Suc n) = Some (others, m)
      \<and> out = let_one_in (gen_ident n) v (let_one_in (gen_ident m) (mk_var (gen_ident n))
          (let_in False [(x, mk_var (gen_ident m))] (if_then_else guard body others))))
    \<and> (x \<notin> fvs v \<longrightarrow> x \<notin> fvs out)"
proof -
  obtain others m where "compile_branches gen_pending brs (gen_ident n) (TermV (RuntimeError (NonExhaustiveMatchError v))) (Suc n) = Some (others, m)"
    and out: "out = let_one_in (gen_ident n) v (let_one_in (gen_ident m) (mk_var (gen_ident n))
          (let_in False [(x, mk_var (gen_ident m))] (if_then_else guard body others)))"
    using assms by (auto simp: match_term_def compile_match_def is_tag_or_wildcard_def fresh_bindings_def im_from_iter_def im_extend_def
      im_insert_def compile_alias_def compile_any_def alias_ids_def bind_eq_Some_conv Let_def split: prod.splits)
  moreover have "x \<notin> fvs v \<longrightarrow> x \<notin> fvs out" by (auto simp: out fvs_simps)
  ultimately show ?thesis by blast
qed

text \<open>In \<open>match { x if false => x, _ => x }\<close> the second branch uses an \<open>x\<close> that its pattern does not bind.\<close>

definition guarded_branches :: "match_branch list" where
  "guarded_branches = [MatchBranch (Pattern (PAny ''x'') None) (Some (Bool False)) (mk_var ''x''), MatchBranch (Pattern PWildcard None) None (mk_var ''x'')]"

theorem failed_guard_captures_witness:
  "\<exists>out n'. match_term guarded_branches (Number 2) 0 = Some (out, n') \<and> ''x'' \<in> branch_fvs (guarded_branches ! 1) \<and> ''x'' \<notin> fvs out"
proof -
  have "\<forall>br \<in> set guarded_branches. pattern_ready (branch_pattern br) \<and> or_ok (branch_pattern br)"
    by (simp add: guarded_branches_def)
  then obtain out n' where out: "match_term guarded_branches (Number 2) 0 = Some (out, n')" using match_returns by blast
  with failed_guard_captures [of "''x''" "Bool False" "mk_var ''x''" _ "Number 2" 0 out n'] show ?thesis
    by (auto simp: guarded_branches_def branch_fvs_def fvs_simps alias_ids_def)
qed

text \<open>The branch with the alias of its pattern removed.\<close>

definition without_alias :: "match_branch \<Rightarrow> match_branch" where
  "without_alias br = MatchBranch (Pattern (pat_data (branch_pattern br)) None) (branch_guard br) (branch_body br)"

lemma without_alias_sel [simp]:
  "pat_data (branch_pattern (without_alias br)) = pat_data (branch_pattern br)"
  "branch_guard (without_alias br) = branch_guard br" "branch_body (without_alias br) = branch_body br"
  "is_tag_or_wildcard (without_alias br) = is_tag_or_wildcard br" "tag_branch (without_alias br) = tag_branch br"
  by (simp_all add: without_alias_def is_tag_or_wildcard_def tag_branch_def split: pattern_data.split)

lemma find_wildcard_without_alias [simp]: "find_wildcard (map without_alias brs) i = find_wildcard brs i"
  by (induction brs arbitrary: i) simp_all

lemma tags_only_without_alias:
  assumes "list_all is_tag_or_wildcard brs"
  shows "match_term (map without_alias brs) v n = match_term brs v n"
proof -
  have "List.map_filter tag_branch (map without_alias bs) = List.map_filter tag_branch bs" for bs
    by (induction bs) (simp_all add: map_filter_simps split: option.split)
  moreover have "list_all is_tag_or_wildcard (map without_alias brs)" using assms by (simp add: list_all_iff)
  ultimately show ?thesis
    using assms by (simp add: match_term_def compile_match_def Let_def take_map split: option.split)
qed

text \<open>Inserting a key again overwrites what was inserted for it before.\<close>

definition overwritten :: "'k \<Rightarrow> 'v \<Rightarrow> ('k \<times> 'v) list \<Rightarrow> ('k \<times> 'v) list" where
  "overwritten k b m = map (\<lambda>p. if fst p = k then (k, b) else p) m"

lemma overwritten_update:
  "overwritten k b (AList.update j v m) =
    (if j = k then (if k \<in> fst ` set m then overwritten k b m else overwritten k b m @ [(k, b)])
     else AList.update j v (overwritten k b m))"
  by (induction m) (force simp: overwritten_def)+

lemma update_overwritten: "im_wf m \<Longrightarrow> k \<in> fst ` set m \<Longrightarrow> AList.update k b m = overwritten k b m"
proof (induction m)
  case (Cons p m)
  have "overwritten k b m = m" if "k \<notin> fst ` set m"
    unfolding overwritten_def using that by (intro map_idI) auto
  with Cons show ?case by (cases p) (auto simp: overwritten_def im_wf_def)
qed simp

lemma im_extend_overwrite:
  assumes "overwritten k b m = overwritten k b m'" and "im_wf m" "im_wf m'" and "k \<in> fst ` set m" "k \<in> fst ` set m'"
  shows "im_extend m (ys @ (k, b) # zs) = im_extend m' (ys @ (k, b) # zs)"
  using assms
proof (induction ys arbitrary: m m')
  case Nil
  then show ?case by (simp add: im_extend_def im_insert_def update_overwritten)
next
  case (Cons y ys)
  have "im_wf (AList.update (fst y) (snd y) w)" if "im_wf w" for w
    using that distinct_update [of w] by (simp add: im_wf_def)
  with Cons.prems Cons.IH [of "AList.update (fst y) (snd y) m" "AList.update (fst y) (snd y) m'"]
  show ?case by (simp add: im_extend_def im_insert_def overwritten_update dom_update)
qed

lemma im_from_iter_overwrite:
  "im_from_iter (xs @ (k, a) # ys @ (k, b) # zs) = im_from_iter (xs @ (k, a') # ys @ (k, b) # zs)"
proof -
  have wf: "im_wf (im_extend [] xs)" by simp
  let ?m = "im_extend [] xs"
  have "im_extend (AList.update k a ?m) (ys @ (k, b) # zs) = im_extend (AList.update k a' ?m) (ys @ (k, b) # zs)"
    using wf distinct_update [of ?m k] by (intro im_extend_overwrite) (simp_all add: overwritten_update im_wf_def dom_update)
  then show ?thesis by (simp add: im_from_iter_def im_extend_def im_insert_def)
qed

lemma find_wildcard_skip:
  "\<forall>br \<in> set pfx. pat_data (branch_pattern br) \<noteq> PWildcard \<Longrightarrow> find_wildcard (pfx @ post) i = find_wildcard post (i + length pfx)"
  by (induction pfx arbitrary: i) simp_all

lemma find_wildcard_ge: "find_wildcard brs i = Some (j, b) \<Longrightarrow> i \<le> j"
  by (induction brs arbitrary: i) (fastforce split: if_splits)+

text \<open>A match on tags whose branches before \<open>post\<close> are no wildcards.\<close>

lemma match_term_tags:
  assumes "list_all is_tag_or_wildcard (pfx @ post)" and "\<forall>br \<in> set pfx. pat_data (branch_pattern br) \<noteq> PWildcard"
  shows "match_term (pfx @ post) v n =
    (let w = find_wildcard post (length pfx);
         post' = (case w of None \<Rightarrow> post | Some (idx, _) \<Rightarrow> take (idx + 1 - length pfx) post)
     in Some (compile_tags_only (List.map_filter tag_branch pfx @ List.map_filter tag_branch post') (map_option snd w) v, n))"
proof -
  have "take (Suc idx) (pfx @ post) = pfx @ take (Suc idx - length pfx) post"
    if "find_wildcard post (length pfx) = Some (idx, b)" for idx b
    using find_wildcard_ge [OF that] by simp
  then show ?thesis
    using assms by (simp add: match_term_def compile_match_def find_wildcard_skip map_filter_def Let_def split: option.split)
qed

lemma tags_only_overwrites:
  assumes "list_all is_tag_or_wildcard (pre @ mid @ post)" and "\<forall>br \<in> set (pre @ mid). pat_data (branch_pattern br) \<noteq> PWildcard"
  shows "match_term (pre @ MatchBranch (Pattern (PEnum tag None) al1) None b1 # mid @ MatchBranch (Pattern (PEnum tag None) al2) None b2 # post) v n
    = match_term (pre @ MatchBranch (Pattern (PEnum tag None) al1) None b # mid @ MatchBranch (Pattern (PEnum tag None) al2) None b2 # post) v n"
proof -
  let ?pfx = "\<lambda>b. pre @ MatchBranch (Pattern (PEnum tag None) al1) None b # mid @ [MatchBranch (Pattern (PEnum tag None) al2) None b2]"
  have ok: "list_all is_tag_or_wildcard (?pfx b @ post)" "\<forall>br \<in> set (?pfx b). pat_data (branch_pattern br) \<noteq> PWildcard" for b
    using assms by (auto simp: is_tag_or_wildcard_def)
  have rec: "compile_tags_only (List.map_filter tag_branch (?pfx b1) @ bs) dflt v = compile_tags_only (List.map_filter tag_branch (?pfx b) @ bs) dflt v" for bs dflt
  proof -
    let ?f = "map (\<lambda>(ident, v). (ident, field_of_value v))"
    have "im_from_iter (?f (List.map_filter tag_branch (?pfx b1) @ bs)) = im_from_iter (?f (List.map_filter tag_branch (?pfx b) @ bs))"
      using im_from_iter_overwrite [of "?f (List.map_filter tag_branch pre)" tag "field_of_value b1"
        "?f (List.map_filter tag_branch mid)" "field_of_value b2" "?f bs" "field_of_value b"]
      by (simp add: map_filter_def tag_branch_def)
    then show ?thesis by (simp add: compile_tags_only_def with_field_values_def)
  qed
  have len: "length (?pfx b1) = length (?pfx b)" by simp
  have "match_term (?pfx b1 @ post) v n = match_term (?pfx b @ post) v n"
    unfolding match_term_tags [OF ok] Let_def rec len ..
  then show ?thesis by simp
qed

text \<open>
  C40. The specialised match on enum tags ignores the aliases of patterns and the first of two branches for the same tag. For every
  match whose branches are all tags or wildcards without a guard, removing the aliases gives the same term, so that a variable
  bound by an alias is left unbound in its branch; and the body of a branch for a tag that has a later
  branch, before any wildcard, does not matter.
\<close>

theorem tags_only_drops_alias_and_first_branch:
  assumes "list_all is_tag_or_wildcard brs"
  shows "match_term brs v n = match_term (map without_alias brs) v n
    \<and> (\<forall>pre mid post tag al1 b1 al2 b2 b.
        brs = pre @ MatchBranch (Pattern (PEnum tag None) al1) None b1 # mid @ MatchBranch (Pattern (PEnum tag None) al2) None b2 # post
        \<and> (\<forall>br \<in> set (pre @ mid). pat_data (branch_pattern br) \<noteq> PWildcard) \<longrightarrow>
        match_term brs v n =
          match_term (pre @ MatchBranch (Pattern (PEnum tag None) al1) None b # mid @ MatchBranch (Pattern (PEnum tag None) al2) None b2 # post) v n)"
  using assms tags_only_without_alias [OF assms] by (auto intro!: tags_only_overwrites)

text \<open>In \<open>match { x @ 'A => x }\<close> the variable \<open>x\<close> is left free; \<open>match { 'A => 1, 'A => 2 }\<close> and \<open>match { 'A => 3, 'A => 2 }\<close> are the same.\<close>

theorem tags_only_drops_alias_and_first_branch_witness:
  "match_term [MatchBranch (Pattern (PEnum ''A'' None) (Some ''x'')) None (mk_var ''x'')] (enum_tag ''A'') 0 =
     match_term [MatchBranch (Pattern (PEnum ''A'' None) None) None (mk_var ''x'')] (enum_tag ''A'') 0
   \<and> (\<exists>out n'. match_term [MatchBranch (Pattern (PEnum ''A'' None) (Some ''x'')) None (mk_var ''x'')] (enum_tag ''A'') 0 = Some (out, n')
     \<and> fvs out = {''x''})
   \<and> match_term [MatchBranch (Pattern (PEnum ''A'' None) None) None (Number 1), MatchBranch (Pattern (PEnum ''A'' None) None) None (Number 2)] Null 0 =
     match_term [MatchBranch (Pattern (PEnum ''A'' None) None) None (Number 3), MatchBranch (Pattern (PEnum ''A'' None) None) None (Number 2)] Null 0"
proof -
  let ?br = "\<lambda>al b. MatchBranch (Pattern (PEnum ''A'' None) al) None b"
  have ok: "list_all is_tag_or_wildcard [?br (Some ''x'') (mk_var ''x'')]" "list_all is_tag_or_wildcard [?br None (Number 1), ?br None (Number 2)]"
    by (simp_all add: is_tag_or_wildcard_def)
  have "match_term [?br None (Number 1), ?br None (Number 2)] Null 0 = match_term [?br None (Number 3), ?br None (Number 2)] Null 0"
    using tags_only_drops_alias_and_first_branch [OF ok(2), of Null 0, THEN conjunct2, rule_format,
      of "[]" "''A''" None "Number 1" "[]" None "Number 2" "[]" "Number 3"] by simp
  moreover have "\<exists>out n'. match_term [?br (Some ''x'') (mk_var ''x'')] (enum_tag ''A'') 0 = Some (out, n') \<and> fvs out = {''x''}"
    by (simp add: match_term_def compile_match_def is_tag_or_wildcard_def compile_tags_only_def tag_branch_def map_filter_def
      record_posless_def with_field_values_def im_from_iter_def im_extend_def im_insert_def fvs_simps field_of_value_def record_is_empty_def)
  ultimately show ?thesis
    using tags_only_drops_alias_and_first_branch [OF ok(1), of "enum_tag ''A''" 0, THEN conjunct1] by (simp add: without_alias_def)
qed

end
