(* ===== verification/Spec2Isabelle.thy ===== *)
theory Spec2Isabelle
  imports Vector_Width Vector_Slice Machine_Props Merge_Props Fixpoint_Props Contract_Eq_Total Environment_Layers
    Nickel_String_Props Primop_Equality Primop_Props Serialize_Props Machine_Safety
    Free_Vars_Props Type_Props Pattern_Props
begin

text \<open>
  A verification library for the evaluator of the Nickel configuration language (\<open>src/core\<close> and
  \<open>src/vector\<close>). It models the run-time data of the language and the machine that evaluates it, and
  proves what each part promises to the others.

  \<^bold>\<open>The parts of the program and the theories.\<close> A Nickel program is evaluated by a call-by-need abstract machine. It
  runs closures (a value or a term with an environment), keeps continuations on a stack, stores suspended computations in
  thunks, and calls primitive operations on evaluated arguments; merging two records is the central one.

  \<^item> \<open>Nickel_Prelude\<close>: panics as \<open>None\<close>, the collections of rules, lemmas on lists and options shared by
    all components.
  \<^item> \<open>Persistent_Vector\<close>, \<open>Vector_Invariant\<close>, \<open>Vector_Correct\<close>, \<open>Vector_Extend\<close>, \<open>Vector_Iter\<close>,
    \<open>Vector_Slice\<close>, \<open>Vector_Props\<close>, with the interface \<open>Sequence_Interface\<close>: the radix-balanced vector behind arrays
    (\<open>src/vector/src/vector.rs\<close>, \<open>slice.rs\<close>). State: a tree of chunks of \<open>N\<close> children, a
    height and a length, as naturals. Each operation acts on the list of elements; the invariant is the documented one.
    \<open>Vector_Width\<close> repeats the operations that compute with indices at the width of \<open>usize\<close> and \<open>u8\<close>, with the
    panics of a checked build, and shows that they agree while \<open>N\<close> times the length fits in 64 bits.
  \<^item> \<open>Environment_Layers\<close>: layered persistent environments (\<open>core/src/environment.rs\<close>), with reference counts
    decide whether a layer may be mutated; refinement to a map per environment.
  \<^item> \<open>Index_Map\<close>, \<open>Nickel_Value\<close>, \<open>Record_Data\<close>: insertion-ordered maps and their split, values, terms,
    operators, labels, static types, metadata, records (\<open>core/src/term\<close>, \<open>core/src/label.rs\<close>,
    \<open>core/src/eval/value\<close>).
  \<^item> \<open>Term_Make\<close>: the builders of terms (\<open>make\<close> in \<open>core/src/term/mod.rs\<close>) and generated identifiers.
    \<open>Pattern_Compile\<close>: patterns and their compilation (\<open>core/src/term/pattern/compile.rs\<close>). \<open>Type_Contract\<close>: the
    contracts generated from types and annotations (\<open>core/src/typ.rs\<close>,
    \<open>core/src/transform/gen_pending_contracts.rs\<close>). \<open>Free_Vars\<close>: the analysis of free variables and of the
    dependencies between fields (\<open>core/src/transform/free_vars.rs\<close>). \<open>Scoping\<close> is the specification the last three
    are measured against; \<open>Type_Totality\<close>, \<open>Pattern_Scope\<close> and \<open>Contract_Scope\<close> hold their lemmas, \<open>Free_Vars_Props\<close>,
    \<open>Type_Props\<close> and \<open>Pattern_Props\<close> their theorems.
  \<^item> \<open>Thunk_Cache\<close>, \<open>Thunk_Props\<close>: thunks, their states and the cache (\<open>core/src/eval/cache/lazy.rs\<close>); the heap
    is a list of thunk data, an address an index.
  \<^item> \<open>Record_Merge\<close>, \<open>Merge_Correct\<close>, \<open>Merge_Props\<close>: merging (\<open>core/src/eval/merge.rs\<close>,
    \<open>core/src/closurize.rs\<close>); \<open>Fixpoint\<close>, \<open>Fixpoint_Props\<close>: recursive records
    (\<open>core/src/eval/fixpoint.rs\<close>); \<open>Contract_Eq\<close>, \<open>Contract_Eq_Props\<close>, \<open>Contract_Eq_Total\<close>: equality of contracts
    (\<open>core/src/eval/contract_eq.rs\<close>), which always ends, and answers in a heap without dangling or unbuilt thunks.
  \<^item> \<open>Eval_Stack\<close>, \<open>Stack_Props\<close>: the stack of bytes with markers (\<open>core/src/eval/stack.rs\<close>).
  \<^item> \<open>Eval_Machine\<close>, \<open>Heap_Growth\<close>, \<open>Machine_Inv\<close>, \<open>Machine_Props\<close>: the loop of \<open>core/src/eval/mod.rs\<close>, one
    iteration as \<open>eval_step\<close>, and its invariant.
  \<^item> \<open>Nickel_String\<close>, \<open>Nickel_String_Props\<close>: strings up to grapheme clusters
    (\<open>core/src/term/string.rs\<close>).
  \<^item> \<open>Primop_Base\<close>, \<open>Primop_Unary\<close>, \<open>Primop_Binary\<close>, \<open>Primop_Nary\<close>: every primitive operation
    (\<open>core/src/eval/operation.rs\<close>) and the substitution of \<open>core/src/eval/mod.rs\<close>; \<open>machine_step\<close> is an iteration of
    the loop that runs them. \<open>Machine_Runs\<close>, \<open>Machine_Safety\<close>, \<open>Primop_Equality\<close> and \<open>Primop_Props\<close> hold
    their theorems.
  \<^item> \<open>Serialize_Validate\<close>, \<open>Serialize_Props\<close>: the check before export (\<open>core/src/serialize/mod.rs\<close>).

  \<^bold>\<open>What the lemmas show.\<close> Refinements say that any run of operations on vectors, slices, environments and the stack acts as on
  lists, maps and typed items, without a panic. Merging is characterized field by field, with the exact
  condition of failure; recursive records get the fixpoint semantics. The machine keeps the correspondence of
  update frames and black-holed thunks, and every run of the whole loop, whatever operations it calls, keeps the stack typed.
  Generated code is well scoped: contracts of types, compiled patterns and pending contracts use the variables of their source
  and nothing else, and the recorded dependencies of fields are exact on plain terms, where the analysis enters everything; the
  simplification of static types is characterized by what it drops and what it keeps.
  On data, the comparison loop decides structural equality; sealing enforces parametricity; validation is exact and
  locates its errors; string operations agree with scans over clusters. Theorems of kind error pin behaviours
  that differ from the documentation or that lose information.

  \<^bold>\<open>Parameters.\<close> Code that is not in the repository is an argument: \<open>sr\<close> the removal of an \<open>IndexMap\<close>
  (\<open>swap_removal\<close>), \<open>sz\<close> the sizes of stack items (\<open>item_sizes\<close>), the segmenter of Unicode clusters
  (\<open>segmenter_ok\<close>), \<open>phys\<close> the physical equality of values, and the record \<open>host\<close> of library functions. Each
  hypothesis on them is interpreted or discharged on a concrete instance by the witnesses. \<open>ceq\<close>
  and \<open>teq\<close> in the merge theories stand for contract and type equality; \<open>contracts_equal\<close> and \<open>types_equal\<close>
  are their instances.

  \<^bold>\<open>Bounds and partiality.\<close> \<open>None\<close> is a panic or, for a \<open>partial_function\<close>, a loop that does not return; the loops of the
  stack, of searches and of updates are shown to return. \<open>eval_steps\<close> and \<open>machine_steps\<close> take
  the number of iterations, since evaluation may diverge; theorems say that some number reaches the result, or that all
  numbers keep an invariant. Contract equality carries the gas of the source. The refinement of vectors to
  lists has no bound on the length; \<open>Vector_Width\<close> and the slices carry the bound \<open>2 ^ 64\<close> of \<open>usize\<close>. The operations read a panic of
  contract equality as unequal contracts.

  \<^bold>\<open>Erased.\<close> Source positions, the call stack, warnings, metrics, and the text of error messages beyond a fixed
  part; reference counts except where they decide a mutation (environments).

  \<^bold>\<open>Not modelled.\<close> The lexer and parser, printing, the typechecker, the substitution of inferred types for wildcards and the
  resolution of imports, the tagged-pointer encoding of values, the import cache, the front ends and the package
  manager: they are surface syntax, presentation, file access or, for the typechecker, a second language of its own.
\<close>

end
